(* ===== verification/Prelude.thy ===== *)
theory Prelude
  imports Complex_Main "HOL-Library.Word" "HOL-Library.AList"
begin

text \<open>
  Shared vocabulary of the development.

  Exceptions are values: every operation that can raise returns \<open>exc + 'a\<close>, \<open>Inl\<close> for the raised
  class (the class alone: messages are diagnostics and no code under src/ branches on them).
  A Python \<open>str\<close> is a list of code points (\<open>nat\<close>), so that lone surrogates and
  characters outside the BMP exist; \<open>lit ''abc''\<close> is the literal \<open>"abc"\<close>. A \<open>bytes\<close> value is a list
  of 8-bit words. A \<open>dict\<close> is an association list in insertion order with distinct keys.
\<close>

section \<open>Types\<close>

type_synonym byte = "8 word"
type_synonym bytes = "8 word list"
type_synonym str = "nat list"
type_synonym ('k, 'v) dict = "('k \<times> 'v) list"

text \<open>
  The exception classes that the modelled code raises or catches. Every class descends from
  \<open>OpenvcError\<close> but \<open>JcsError\<close>, \<open>DecompressionBomb\<close> and the built-in and standard-library exceptions
  (the \<open>Py\<close> names); the classes one module declares for itself are a type of their own. \<open>Foreign\<close> is whatever
  an injected callable raises.
\<close>

datatype (plugins only: code size) verify_exc =
    UnknownCredentialFormat | TypeMismatch | IssuerBindingError | StatusListIssuerUntrusted
  | StatusUnavailable | InvalidPolicy

datatype (plugins only: code size) metadata_exc =
    TypeMetadataError | TypeMetadataResolutionError | TypeMetadataMismatch | TypeMetadataClaimsInvalid

datatype (plugins only: code size) schema_exc =
    SchemaError | SchemaBackendUnavailable | SchemaUnavailable | SchemaResolutionError
  | UnsupportedSchemaType | SchemaValidationError

datatype (plugins only: code size) oid4_exc =
    OpenID4VPError | VpTokenMalformed | UnsupportedPresentationFormat
  | OpenID4VCIError | CredentialRequestMalformed | CredentialOfferMalformed
  | IssuerMetadataMalformed | UnsupportedProofType | ProofReplayed | RpRegistrationError | VpTokenIncomplete | RpCertError

datatype (plugins only: code size) ebsi_exc =
    EbsiError | MalformedRegistryResponse | UnknownEbsiEnvironment | NodeDerivedEnvironment
  | NodeListError | NodeListConfigError | NodeListMalformed | OpenPgpError | NodeListSignatureError | NodeListThresholdError
  | NodeListRollback | NodeListExpired | NodeListNotYetValid | NodeListStale | NodeListEnvironmentMissing | NodeClientConfigError
  | NoHealthyNode | HttpError | HttpNotFound | HttpForbiddenHost | HttpTransientExhausted
  | TrustChainError | NoTrustedAnchor | AccreditationInvalid | AccreditationRevoked
  | EbsiVerificationError | VerificationMethodNotFound | IssuerNotTrusted

datatype (plugins only: code size) cose_exc = CoseMalformed | CoseUnsupportedAlgorithm

datatype (plugins only: code size) mdoc_exc =
    MdocError | MdocMalformed | MdocTrustError | MdocSignatureInvalid | MdocDigestMismatch | MdocValidityError
  | MdocDocTypeMismatch | MdocDeviceAuthError

datatype (plugins only: code size) jwe_exc = JweError | JweMalformed | UnsupportedJweAlgorithm | JweDecryptionFailed

datatype (plugins only: code size) trust_exc =
    TrustListError | TrustListParseError | TrustListSignatureUnavailable | TrustListSignatureError | TrustListProfileError

datatype (plugins only: code size) exc =
    OpenvcError | CborError | MultibaseError | StatusListError
  | CredentialRevoked | CredentialSuspended
  | DidError | UnsupportedDidMethod | DidResolutionError | DidWebvhError | UnsafeUrlError
  | ProofError | SignatureInvalid | ProofMalformed | UnsupportedCryptosuite
  | UnsupportedAlgorithm | MalformedToken | ClaimsInvalid | CredentialExpired
  | CredentialNotYetValid | MalformedTimestamp | ProofPurposeMismatch
  | KeyResolutionError | PresentationBindingError | SdJwtError | DataIntegrityError
  | VerificationError | KeyResolutionFailed | KeyBackendError | InvalidKey | X5cError | JwtVcIssuerError
  | Verify verify_exc | Metadata metadata_exc | Schema schema_exc | Oid4 oid4_exc | Ebsi ebsi_exc
  | Cose cose_exc | Mdoc mdoc_exc | Jwe jwe_exc | TrustList trust_exc | EcdsaSdError | ProofValueMalformed | DocumentLoaderError
  | JcsError | DecompressionBomb
  | PyValueError | PyTypeError | PyKeyError | PyOverflowError | PyUnicodeError
  | PyOSError | PyEOFError | ZlibError | PyAttributeError
  | Foreign nat

text \<open>\<open>except ValueError\<close>: \<open>UnicodeError\<close> is a subclass.\<close>

definition is_value_error :: "exc \<Rightarrow> bool" where
  "is_value_error e = (e = PyValueError \<or> e = PyUnicodeError)"

type_synonym 'a result = "exc + 'a"

named_theorems result_simps "equations that open a fallible step"
named_theorems dict_simps "lookups in insertion-ordered dictionaries"

section \<open>Results\<close>

fun bindR :: "'a result \<Rightarrow> ('a \<Rightarrow> 'b result) \<Rightarrow> 'b result" where
  "bindR (Inl e) f = Inl e"
| "bindR (Inr x) f = f x"

fun isOk :: "'a result \<Rightarrow> bool" where
  "isOk (Inl e) = False"
| "isOk (Inr x) = True"

text \<open>\<open>except C: raise E\<close>: a raised class satisfying \<open>p\<close> is replaced by \<open>e\<close>, any other propagates.\<close>

fun catchR :: "(exc \<Rightarrow> bool) \<Rightarrow> exc \<Rightarrow> 'a result \<Rightarrow> 'a result" where
  "catchR p e (Inl x) = Inl (if p x then e else x)"
| "catchR p e (Inr y) = Inr y"

text \<open>A list comprehension whose element expression may raise: left to right, first error wins.\<close>

fun mapR :: "('a \<Rightarrow> 'b result) \<Rightarrow> 'a list \<Rightarrow> 'b list result" where
  "mapR f [] = Inr []"
| "mapR f (x # xs) = bindR (f x) (\<lambda>y. bindR (mapR f xs) (\<lambda>ys. Inr (y # ys)))"

section \<open>Strings\<close>

definition lit :: "string \<Rightarrow> str" where
  "lit s = map of_char s"

fun starts_with :: "'a list \<Rightarrow> 'a list \<Rightarrow> bool" where
  "starts_with [] s = True"
| "starts_with (p # ps) [] = False"
| "starts_with (p # ps) (c # s) = (p = c \<and> starts_with ps s)"

text \<open>\<open>s.split(c)\<close> for a one-character separator: always at least one part.\<close>

fun split_on :: "'a \<Rightarrow> 'a list \<Rightarrow> 'a list list" where
  "split_on c [] = [[]]"
| "split_on c (x # xs) =
     (if x = c then [] # split_on c xs
      else (case split_on c xs of [] \<Rightarrow> [[x]] | p # ps \<Rightarrow> (x # p) # ps))"

text \<open>\<open>sep.join(parts)\<close> for a one-character separator.\<close>

fun join_with :: "'a \<Rightarrow> 'a list list \<Rightarrow> 'a list" where
  "join_with c [] = []"
| "join_with c [p] = p"
| "join_with c (p # ps) = p @ c # join_with c ps"

definition is_ascii :: "str \<Rightarrow> bool" where
  "is_ascii s = list_all (\<lambda>c. c < 128) s"

text \<open>The decimal text \<open>str(n)\<close> of a non-negative integer.\<close>

fun decimal :: "nat \<Rightarrow> str" where
  "decimal n = (if n < 10 then [48 + n] else decimal (n div 10) @ [48 + n mod 10])"

declare decimal.simps [simp del]

text \<open>ASCII digits, and \<open>int(s)\<close> of them.\<close>

definition is_digits :: "str \<Rightarrow> bool" where
  "is_digits s = (s \<noteq> [] \<and> list_all (\<lambda>c. 48 \<le> c \<and> c \<le> 57) s)"

definition nat_of_digits :: "str \<Rightarrow> nat" where
  "nat_of_digits s = foldl (\<lambda>a c. 10 * a + (c - 48)) 0 s"

section \<open>Dictionaries\<close>

text \<open>
  \<open>d.get(k)\<close> is \<open>map_of d k\<close> and \<open>d[k] = v\<close> is \<open>AList.update k v d\<close>, which overwrites in place and
  appends a new key at the end: the order of a Python dict.
\<close>

definition dict_ok :: "('k, 'v) dict \<Rightarrow> bool" where
  "dict_ok d = distinct (map fst d)"

definition has_key :: "'k \<Rightarrow> ('k, 'v) dict \<Rightarrow> bool" where
  "has_key k d = (k \<in> set (map fst d))"

fun dict_del :: "'k \<Rightarrow> ('k, 'v) dict \<Rightarrow> ('k, 'v) dict" where
  "dict_del k [] = []"
| "dict_del k ((a, v) # d) = (if a = k then dict_del k d else (a, v) # dict_del k d)"

section \<open>Lemmas\<close>

lemma bindR_Inr [result_simps]: "bindR m f = Inr y \<longleftrightarrow> (\<exists>x. m = Inr x \<and> f x = Inr y)"
  by (cases m) auto

lemma bindR_Inl [result_simps]:
  "bindR m f = Inl e \<longleftrightarrow> m = Inl e \<or> (\<exists>x. m = Inr x \<and> f x = Inl e)"
  by (cases m) auto

lemma bindR_assoc: "bindR (bindR m f) g = bindR m (\<lambda>x. bindR (f x) g)"
  by (cases m) auto

lemma isOk_iff: "isOk m \<longleftrightarrow> (\<exists>x. m = Inr x)"
  by (cases m) auto

lemma catchR_Inr [result_simps, simp]: "catchR p e m = Inr y \<longleftrightarrow> m = Inr y"
  by (cases m) auto

lemma catchR_Inl [result_simps]:
  "catchR p e m = Inl x \<longleftrightarrow> (\<exists>z. m = Inl z \<and> x = (if p z then e else z))"
  by (cases m) auto

lemma mapR_Inr: "mapR f xs = Inr ys \<longleftrightarrow> list_all2 (\<lambda>x y. f x = Inr y) xs ys"
proof (induction xs arbitrary: ys)
  case Nil
  then show ?case by auto
next
  case (Cons x xs)
  then show ?case by (cases ys) (auto simp: bindR_Inr)
qed

lemma mapR_Inl: "mapR f xs = Inl e \<Longrightarrow> \<exists>x\<in>set xs. f x = Inl e"
  by (induction xs) (auto simp: bindR_Inl)

lemma mapR_set: "mapR f xs = Inr ys \<Longrightarrow> y \<in> set ys \<Longrightarrow> \<exists>x\<in>set xs. f x = Inr y"
  by (induction xs arbitrary: ys) (auto simp: bindR_Inr)

lemma isOk_bind_Inr [simp]: "isOk (bindR m (\<lambda>x. Inr (f x))) \<longleftrightarrow> isOk m"
  by (cases m) auto

lemma isOk_mapR: "isOk (mapR f xs) \<longleftrightarrow> (\<forall>x\<in>set xs. isOk (f x))"
proof (induction xs)
  case (Cons x xs)
  then show ?case by (cases "f x") simp_all
qed simp

lemma mapR_map_Inr: "(\<And>x. x \<in> set xs \<Longrightarrow> f x = Inr (g x)) \<Longrightarrow> mapR f xs = Inr (map g xs)"
  by (induction xs) auto

lemma mapR_map: "mapR f (map g xs) = mapR (\<lambda>x. f (g x)) xs"
  by (induction xs) auto

lemma lit_inject [simp]: "lit a = lit b \<longleftrightarrow> a = b"
proof
  assume "lit a = lit b"
  moreover have "inj (of_char :: char \<Rightarrow> nat)"
    by (rule injI) (simp add: of_char_eq_iff)
  ultimately show "a = b"
    unfolding lit_def using map_injective by blast
qed simp

lemma lit_Nil [simp]: "lit a = [] \<longleftrightarrow> a = []" "[] = lit a \<longleftrightarrow> a = []"
  by (auto simp: lit_def)

lemma lit_append: "lit (a @ b) = lit a @ lit b"
  by (simp add: lit_def)

lemma lit_less: "c \<in> set (lit s) \<Longrightarrow> c < 256"
  by (auto simp: lit_def of_char_def intro: less_le_trans [OF take_bit_nat_less_exp])

lemma starts_with_iff: "starts_with p s \<longleftrightarrow> (\<exists>r. s = p @ r)"
  by (induction p s rule: starts_with.induct) auto

lemma split_on_nonempty [simp]: "split_on c s \<noteq> []"
  by (induction s) (auto split: list.splits)

lemma join_with_Cons: "ps \<noteq> [] \<Longrightarrow> join_with c (p # ps) = p @ c # join_with c ps"
  by (cases ps) auto

lemma join_with_Cons_Cons: "join_with c ((x # p) # ps) = x # join_with c (p # ps)"
  by (cases ps) auto

lemma join_split_on: "join_with c (split_on c s) = s"
proof (induction s)
  case (Cons x s)
  obtain p ps where "split_on c s = p # ps"
    by (cases "split_on c s") auto
  with Cons show ?case
    by (auto simp: join_with_Cons_Cons)
qed simp

lemma split_on_noSep: "c \<notin> set s \<Longrightarrow> split_on c s = [s]"
  by (induction s) auto

lemma split_on_append_sep: "c \<notin> set p \<Longrightarrow> split_on c (p @ c # s) = p # split_on c s"
  by (induction p) auto

lemma split_join:
  "ps \<noteq> [] \<Longrightarrow> \<forall>p\<in>set ps. c \<notin> set p \<Longrightarrow> split_on c (join_with c ps) = ps"
  by (induction c ps rule: join_with.induct) (auto simp: split_on_noSep split_on_append_sep)

lemma split_on_no_sep_in_parts: "p \<in> set (split_on c s) \<Longrightarrow> c \<notin> set p"
proof (induction s arbitrary: p)
  case (Cons x s)
  then show ?case by (auto split: if_splits list.splits)
qed simp

lemma decimal_digits: "\<forall>d\<in>set (decimal n). 48 \<le> d \<and> d \<le> 57"
proof (induction n rule: decimal.induct)
  case (1 n)
  then show ?case by (subst decimal.simps) (auto split: if_splits)
qed

lemma decimal_nonempty [simp]: "decimal n \<noteq> []"
  by (subst decimal.simps) simp

lemma nat_of_digits_snoc: "nat_of_digits (s @ [c]) = 10 * nat_of_digits s + (c - 48)"
  by (simp add: nat_of_digits_def)

lemma nat_of_digits_decimal: "nat_of_digits (decimal n) = n"
proof (induction n rule: decimal.induct)
  case (1 n)
  show ?case
  proof (cases "n < 10")
    case True
    then show ?thesis by (simp add: decimal.simps [of n] nat_of_digits_def)
  next
    case False
    with 1 show ?thesis by (simp add: decimal.simps [of n] nat_of_digits_snoc)
  qed
qed

lemma decimal_head: "0 < n \<Longrightarrow> hd (decimal n) \<noteq> 48"
proof (induction n rule: decimal.induct)
  case (1 n)
  then show ?case by (cases "n < 10") (simp_all add: decimal.simps [of n] hd_append)
qed

lemma is_digits_decimal: "is_digits (decimal n)"
  using decimal_digits [of n] by (auto simp: is_digits_def list_all_iff)

lemma nat_of_digits_append: "nat_of_digits (a @ b) = 10 ^ length b * nat_of_digits a + nat_of_digits b"
proof (induction b rule: rev_induct)
  case (snoc c b)
  then show ?case
    using nat_of_digits_snoc [of "a @ b" c] nat_of_digits_snoc [of b c] by simp
qed (simp add: nat_of_digits_def)

lemma nat_of_digits_zero: "nat_of_digits (48 # s) = nat_of_digits s"
  by (simp add: nat_of_digits_def)

lemma has_key_map_of [dict_simps]: "has_key k d \<longleftrightarrow> map_of d k \<noteq> None"
  by (simp add: has_key_def map_of_eq_None_iff)

lemma map_of_dict_del [dict_simps]: "map_of (dict_del k d) a = (if a = k then None else map_of d a)"
  by (induction d rule: dict_del.induct) auto

lemma keys_dict_del: "fst ` set (dict_del k d) = fst ` set d - {k}"
  by (induction d rule: dict_del.induct) auto

lemma dict_ok_del: "dict_ok d \<Longrightarrow> dict_ok (dict_del k d)"
  by (induction d rule: dict_del.induct) (auto simp: dict_ok_def keys_dict_del)

lemma map_of_update [dict_simps]:
  "map_of (AList.update k v d) a = (if a = k then Some v else map_of d a)"
  by (simp add: update_conv' fun_upd_def)

lemma update_new: "\<not> has_key k d \<Longrightarrow> AList.update k v d = d @ [(k, v)]"
  by (induction d) (auto simp: has_key_def)

lemma dict_ok_update: "dict_ok d \<Longrightarrow> dict_ok (AList.update k v d)"
  by (simp add: dict_ok_def distinct_update)

lemma keys_update: "fst ` set (AList.update k v d) = insert k (fst ` set d)"
  using dom_update [of k v d] by (simp add: dom_map_of_conv_image_fst)

lemma dict_del_filter: "dict_del k d = filter (\<lambda>x. fst x \<noteq> k) d"
  by (induction d rule: dict_del.induct) simp_all

lemma set_dict_del: "x \<in> set (dict_del k d) \<longleftrightarrow> x \<in> set d \<and> fst x \<noteq> k"
  by (simp add: dict_del_filter)

lemma length_dict_del: "length (dict_del k d) \<le> length d"
  by (simp add: dict_del_filter)

lemma length_dict_del_less: "has_key k d \<Longrightarrow> length (dict_del k d) < length d"
proof -
  assume "has_key k d"
  then obtain x where "x \<in> set d" "\<not> fst x \<noteq> k" by (auto simp: has_key_def)
  then show ?thesis unfolding dict_del_filter by (rule length_filter_less)
qed

lemma dict_del_absent: "\<not> has_key k d \<Longrightarrow> dict_del k d = d"
  unfolding dict_del_filter has_key_def by (auto simp: filter_id_conv)

lemma mapR_cong [fundef_cong]:
  "xs = ys \<Longrightarrow> (\<And>x. x \<in> set ys \<Longrightarrow> f x = g x) \<Longrightarrow> mapR f xs = mapR g ys"
  by (induction ys arbitrary: xs) auto

lemma bindR_cong [fundef_cong]:
  "m = m' \<Longrightarrow> (\<And>x. m' = Inr x \<Longrightarrow> f x = g x) \<Longrightarrow> bindR m f = bindR m' g"
  by (cases m') auto

lemma insort_key_map: "insort_key f (g x) (map g xs) = map g (insort_key (\<lambda>x. f (g x)) x xs)"
  by (induction xs) auto

lemma sort_key_map: "sort_key f (map g xs) = map g (sort_key (\<lambda>x. f (g x)) xs)"
  by (induction xs) (auto simp: sort_key_def insort_key_map)

lemma fold_max_le: "fold max xs a \<le> (m::nat) \<longleftrightarrow> a \<le> m \<and> (\<forall>x\<in>set xs. x \<le> m)"
  by (induction xs arbitrary: a) auto

end
