(* ===== verification/Py_Numbers.thy ===== *)
theory Py_Numbers
  imports Prelude
begin

text \<open>
  Python's numbers as the temporal checks and the JSON readers meet them: unbounded \<open>int\<close> and IEEE-754
  binary64 \<open>float\<close>. A finite float is the rational it denotes (the two zeros are one value: no code
  here tells them apart); \<open>fl\<close> is round-to-nearest, ties-to-even, onto the binary64 grid with
  overflow to infinity, which is what \<open>float(n)\<close> and float subtraction do. What the
  temporal checks rely on is the locale \<open>rounding\<close>: monotone, and exact on small integers.
\<close>

section \<open>Definitions\<close>

datatype pyfloat = FNaN | FInf bool | FFin rat

datatype num = NInt int | NFloat pyfloat

text \<open>\<open>int.bit_length\<close> of a non-negative integer.\<close>

fun bit_length :: "nat \<Rightarrow> nat" where
  "bit_length n = (if n = 0 then 0 else Suc (bit_length (n div 2)))"

declare bit_length.simps [simp del]

text \<open>The largest \<open>k\<close> with \<open>2\<^sup>k \<le> x\<close>, for a positive rational \<open>x\<close>.\<close>

definition floor_log2 :: "rat \<Rightarrow> int" where
  "floor_log2 x = (let (n, d) = quotient_of x;
                       k = int (bit_length (nat n)) - int (bit_length (nat d))
                   in if 2 powi k \<le> x then k else k - 1)"

definition round_half_even :: "rat \<Rightarrow> int" where
  "round_half_even x = (let f = \<lfloor>x\<rfloor>; r = x - of_int f
                        in if r < 1 / 2 then f else if 1 / 2 < r then f + 1
                           else if even f then f else f + 1)"

text \<open>The exponent of the last place of a binary64 number of magnitude \<open>x\<close> (subnormals included).\<close>

definition ulp_exp :: "rat \<Rightarrow> int" where
  "ulp_exp x = max (- 1074) (floor_log2 x - 52)"

definition round_pos :: "rat \<Rightarrow> rat" where
  "round_pos x = of_int (round_half_even (x / 2 powi ulp_exp x)) * 2 powi ulp_exp x"

definition fl :: "rat \<Rightarrow> pyfloat" where
  "fl x = (if x = 0 then FFin 0
           else let r = round_pos \<bar>x\<bar>
                in if 2 ^ 1024 \<le> r then FInf (x < 0)
                   else FFin (if x < 0 then - r else r))"

text \<open>\<open>FInf True\<close> is minus infinity. Comparison with \<open>NaN\<close> is false either way.\<close>

fun fle :: "pyfloat \<Rightarrow> pyfloat \<Rightarrow> bool" where
  "fle FNaN y = False"
| "fle x FNaN = False"
| "fle (FInf neg) y = (neg \<or> y = FInf False)"
| "fle x (FInf neg) = (\<not> neg)"
| "fle (FFin a) (FFin b) = (a \<le> b)"

text \<open>An \<open>int\<close> compares with a \<open>float\<close> by exact value.\<close>

fun num_le :: "num \<Rightarrow> num \<Rightarrow> bool" where
  "num_le (NInt a) (NInt b) = (a \<le> b)"
| "num_le (NInt a) (NFloat y) = fle (FFin (of_int a)) y"
| "num_le (NFloat x) (NInt b) = fle x (FFin (of_int b))"
| "num_le (NFloat x) (NFloat y) = fle x y"

definition num_lt :: "num \<Rightarrow> num \<Rightarrow> bool" where
  "num_lt x y = (num_le x y \<and> \<not> num_le y x)"

text \<open>\<open>float(n)\<close>: \<open>OverflowError\<close> when the rounded value is past the largest double.\<close>

definition float_of_int :: "int \<Rightarrow> pyfloat result" where
  "float_of_int n = (case fl (of_int n) of FFin a \<Rightarrow> Inr (FFin a) | _ \<Rightarrow> Inl PyOverflowError)"

fun fsub :: "pyfloat \<Rightarrow> pyfloat \<Rightarrow> pyfloat" where
  "fsub FNaN y = FNaN"
| "fsub x FNaN = FNaN"
| "fsub (FInf a) (FInf b) = (if a = b then FNaN else FInf a)"
| "fsub (FInf a) (FFin b) = FInf a"
| "fsub (FFin a) (FInf b) = FInf (\<not> b)"
| "fsub (FFin a) (FFin b) = fl (a - b)"

fun num_sub :: "num \<Rightarrow> num \<Rightarrow> num result" where
  "num_sub (NInt a) (NInt b) = Inr (NInt (a - b))"
| "num_sub (NFloat x) (NFloat y) = Inr (NFloat (fsub x y))"
| "num_sub (NInt a) (NFloat y) = bindR (float_of_int a) (\<lambda>x. Inr (NFloat (fsub x y)))"
| "num_sub (NFloat x) (NInt b) = bindR (float_of_int b) (\<lambda>y. Inr (NFloat (fsub x y)))"

text \<open>\<open>math.isfinite\<close>: an \<open>int\<close> is converted first, and \<open>OverflowError\<close> is a possible outcome.\<close>

fun isfinite :: "num \<Rightarrow> bool result" where
  "isfinite (NInt n) = bindR (float_of_int n) (\<lambda>f. Inr True)"
| "isfinite (NFloat (FFin a)) = Inr True"
| "isfinite (NFloat x) = Inr False"

text \<open>\<open>int(x)\<close> of a finite number truncates towards zero.\<close>

fun num_trunc :: "num \<Rightarrow> int" where
  "num_trunc (NInt n) = n"
| "num_trunc (NFloat (FFin a)) = (if 0 \<le> a then \<lfloor>a\<rfloor> else \<lceil>a\<rceil>)"
| "num_trunc (NFloat x) = 0"

text \<open>The rational a finite number denotes.\<close>

fun num_val :: "num \<Rightarrow> rat" where
  "num_val (NInt n) = of_int n"
| "num_val (NFloat (FFin a)) = a"
| "num_val (NFloat x) = 0"

section \<open>Lemmas\<close>

lemma bit_length_bound: "n < 2 ^ bit_length n"
proof (induction n rule: bit_length.induct)
  case (1 n)
  then show ?case by (subst bit_length.simps) auto
qed

lemma bit_length_lower: "0 < n \<Longrightarrow> 2 ^ (bit_length n - 1) \<le> n"
proof (induction n rule: bit_length.induct)
  case (1 n)
  show ?case
  proof (cases "n div 2 = 0")
    case True
    with 1 have "n = 1" by auto
    then show ?thesis by (simp add: bit_length.simps)
  next
    case False
    then have pos: "0 < bit_length (n div 2)" by (subst bit_length.simps) simp
    from False 1 have "2 ^ (bit_length (n div 2) - 1) \<le> n div 2" by auto
    then have "2 ^ Suc (bit_length (n div 2) - 1) \<le> n" by simp
    with pos False 1(2) show ?thesis by (subst bit_length.simps) simp
  qed
qed

lemma bit_length_pos: "0 < n \<Longrightarrow> 0 < bit_length n"
  by (subst bit_length.simps) simp

lemma powi_int_nat: "(2::rat) powi int k = 2 ^ k"
  by (simp add: power_int_def)

lemma quotient_bounds:
  assumes "0 < x" "quotient_of x = (n, d)"
  shows "0 < n" "0 < d" "x = of_int n / of_int d"
proof -
  show d: "0 < d" using assms(2) by (rule quotient_of_denom_pos)
  show x: "x = of_int n / of_int d" using assms(2) by (rule quotient_of_div)
  from assms(1) x d show "0 < n" by (simp add: zero_less_divide_iff)
qed

lemma floor_log2_bounds:
  assumes "0 < x"
  shows "2 powi floor_log2 x \<le> x" "x < 2 powi (floor_log2 x + 1)"
proof -
  obtain n d where q: "quotient_of x = (n, d)" by (cases "quotient_of x")
  note b = quotient_bounds [OF assms q]
  define i j where "i = bit_length (nat n)" and "j = bit_length (nat d)"
  have pos: "0 < i" "0 < j" using b by (auto simp: i_def j_def bit_length_pos)
  have nu: "of_int n < (2::rat) ^ i"
    using bit_length_bound [of "nat n"] b(1) unfolding i_def
    by (metis nat_less_numeral_power_cancel_iff of_int_less_numeral_power_cancel_iff)
  have nl: "(2::rat) ^ (i - 1) \<le> of_int n"
    using bit_length_lower [of "nat n"] b(1) unfolding i_def
    by (metis numeral_power_le_nat_cancel_iff numeral_power_le_of_int_cancel_iff zero_less_nat_eq)
  have du: "of_int d < (2::rat) ^ j"
    using bit_length_bound [of "nat d"] b(2) unfolding j_def
    by (metis nat_less_numeral_power_cancel_iff of_int_less_numeral_power_cancel_iff)
  have dl: "(2::rat) ^ (j - 1) \<le> of_int d"
    using bit_length_lower [of "nat d"] b(2) unfolding j_def
    by (metis numeral_power_le_nat_cancel_iff numeral_power_le_of_int_cancel_iff zero_less_nat_eq)
  have up: "x < 2 powi (int i - int j + 1)"
  proof -
    have "x < 2 ^ i / 2 ^ (j - 1)"
      unfolding b(3) using nu dl b(1,2) by (intro frac_less) auto
    also have "\<dots> = 2 powi (int i - int (j - 1))"
      by (simp add: power_int_diff powi_int_nat)
    finally show ?thesis using pos by (simp add: of_nat_diff algebra_simps)
  qed
  have low: "2 powi (int i - int j - 1) \<le> x"
  proof -
    have "2 powi (int (i - 1) - int j) = (2::rat) ^ (i - 1) / 2 ^ j"
      by (simp add: power_int_diff powi_int_nat)
    also have "\<dots> \<le> x"
      unfolding b(3) using nl du b(1,2) by (intro frac_le) auto
    finally show ?thesis using pos by (simp add: of_nat_diff algebra_simps)
  qed
  have k: "floor_log2 x =
      (if 2 powi (int i - int j) \<le> x then int i - int j else int i - int j - 1)"
    by (simp add: floor_log2_def q i_def j_def)
  show "2 powi floor_log2 x \<le> x" using low by (simp add: k)
  show "x < 2 powi (floor_log2 x + 1)" using up by (simp add: k)
qed

lemma floor_log2_mono:
  assumes "0 < x" "x \<le> y"
  shows "floor_log2 x \<le> floor_log2 y"
proof (rule ccontr)
  assume "\<not> ?thesis"
  then have "floor_log2 y + 1 \<le> floor_log2 x" by simp
  then have "(2::rat) powi (floor_log2 y + 1) \<le> 2 powi floor_log2 x"
    by (intro power_int_increasing) auto
  also have "\<dots> \<le> x" using assms(1) by (rule floor_log2_bounds)
  also have "\<dots> \<le> y" by fact
  also have "\<dots> < 2 powi (floor_log2 y + 1)" using assms by (intro floor_log2_bounds) auto
  finally show False by simp
qed

lemma round_half_even_of_int [simp]: "round_half_even (of_int n) = n"
  by (simp add: round_half_even_def)

lemma round_half_even_floor: "\<lfloor>x\<rfloor> \<le> round_half_even x" "round_half_even x \<le> \<lfloor>x\<rfloor> + 1"
  by (auto simp: round_half_even_def Let_def)

lemma round_half_even_mono: "x \<le> y \<Longrightarrow> round_half_even x \<le> round_half_even y"
proof -
  assume le: "x \<le> y"
  show ?thesis
  proof (cases "\<lfloor>x\<rfloor> = \<lfloor>y\<rfloor>")
    case True
    with le show ?thesis by (auto simp: round_half_even_def Let_def)
  next
    case False
    with le have "\<lfloor>x\<rfloor> + 1 \<le> \<lfloor>y\<rfloor>" using floor_mono [of x y] by linarith
    then show ?thesis using round_half_even_floor [of x] round_half_even_floor [of y] by linarith
  qed
qed

lemma round_half_even_ge: "of_int n \<le> x \<Longrightarrow> n \<le> round_half_even x"
  using round_half_even_mono [of "of_int n" x] by simp

lemma round_half_even_le: "x \<le> of_int n \<Longrightarrow> round_half_even x \<le> n"
  using round_half_even_mono [of x "of_int n"] by simp

lemma powi_nat_of_int: "0 \<le> k \<Longrightarrow> (2::rat) powi k = of_int (2 ^ nat k)"
  by (simp add: power_int_def)

lemma boundary_scale: "e \<le> b \<Longrightarrow> of_int (2 ^ nat (b - e)) * 2 powi e = (2::rat) powi b"
proof -
  assume "e \<le> b"
  then have "of_int (2 ^ nat (b - e)) = (2::rat) powi (b - e)" by (simp add: powi_nat_of_int)
  then show ?thesis by (simp add: power_int_diff)
qed

text \<open>A rounding boundary \<open>2\<^sup>b\<close> that is an integer multiple of the last place is not crossed.\<close>

lemma round_pos_le_boundary:
  assumes "ulp_exp x \<le> b" "x \<le> 2 powi b"
  shows "round_pos x \<le> 2 powi b"
proof -
  define e where "e = ulp_exp x"
  have "x / 2 powi e \<le> 2 powi b / 2 powi e"
    using assms(2) by (intro divide_right_mono) auto
  also have "\<dots> = of_int (2 ^ nat (b - e))"
    using assms(1) by (simp add: e_def power_int_diff [symmetric] powi_nat_of_int)
  finally have "round_half_even (x / 2 powi e) \<le> 2 ^ nat (b - e)"
    by (rule round_half_even_le)
  then have "of_int (round_half_even (x / 2 powi e)) * 2 powi e \<le> of_int (2 ^ nat (b - e)) * (2::rat) powi e"
    by (intro mult_right_mono) (simp_all only: of_int_le_iff, simp)
  also have "\<dots> = 2 powi b"
    using assms(1) unfolding e_def by (rule boundary_scale)
  finally show ?thesis by (simp add: round_pos_def e_def)
qed

lemma round_pos_ge_boundary:
  assumes "ulp_exp x \<le> b" "2 powi b \<le> x"
  shows "2 powi b \<le> round_pos x"
proof -
  define e where "e = ulp_exp x"
  have "of_int (2 ^ nat (b - e)) = 2 powi b / (2::rat) powi e"
    using assms(1) by (simp add: e_def power_int_diff [symmetric] powi_nat_of_int)
  also have "\<dots> \<le> x / 2 powi e"
    using assms(2) by (intro divide_right_mono) auto
  finally have "2 ^ nat (b - e) \<le> round_half_even (x / 2 powi e)"
    by (rule round_half_even_ge)
  then have "of_int (2 ^ nat (b - e)) * (2::rat) powi e \<le> of_int (round_half_even (x / 2 powi e)) * 2 powi e"
    by (intro mult_right_mono) (simp_all only: of_int_le_iff, simp)
  moreover have "of_int (2 ^ nat (b - e)) * (2::rat) powi e = 2 powi b"
    using assms(1) unfolding e_def by (rule boundary_scale)
  ultimately show ?thesis by (simp only: round_pos_def e_def)
qed

lemma round_pos_mono:
  assumes "0 < x" "x \<le> y"
  shows "round_pos x \<le> round_pos y"
proof (cases "ulp_exp x = ulp_exp y")
  case True
  have "x / 2 powi ulp_exp y \<le> y / 2 powi ulp_exp y"
    using assms(2) by (intro divide_right_mono) auto
  then have "round_half_even (x / 2 powi ulp_exp y) \<le> round_half_even (y / 2 powi ulp_exp y)"
    by (rule round_half_even_mono)
  then show ?thesis
    unfolding round_pos_def True by (intro mult_right_mono) auto
next
  case False
  have le: "floor_log2 x \<le> floor_log2 y" using assms by (rule floor_log2_mono)
  with False have lt: "ulp_exp x < ulp_exp y" and ey: "ulp_exp y = floor_log2 y - 52"
    by (auto simp: ulp_exp_def)
  let ?b = "floor_log2 y"
  have "floor_log2 x + 1 \<le> ?b" using lt ey by (auto simp: ulp_exp_def)
  then have "(2::rat) powi (floor_log2 x + 1) \<le> 2 powi ?b" by (intro power_int_increasing) auto
  with floor_log2_bounds(2) [OF assms(1)] have "x \<le> 2 powi ?b" by linarith
  then have "round_pos x \<le> 2 powi ?b" using lt ey by (intro round_pos_le_boundary) auto
  also have "\<dots> \<le> round_pos y"
    using ey floor_log2_bounds(1) [of y] assms by (intro round_pos_ge_boundary) auto
  finally show ?thesis .
qed

lemma round_pos_exact:
  assumes "x / 2 powi ulp_exp x = of_int m"
  shows "round_pos x = x"
proof -
  have "x = of_int m * 2 powi ulp_exp x" using assms by (simp add: field_simps)
  then show ?thesis unfolding round_pos_def assms by simp
qed

lemma round_pos_int:
  assumes "0 < n" "n \<le> 2 ^ 53"
  shows "round_pos (of_int n) = of_int n"
proof -
  let ?x = "of_int n :: rat"
  have pos: "0 < ?x" using assms by simp
  have low: "2 powi floor_log2 ?x \<le> ?x" using pos by (rule floor_log2_bounds)
  have xle: "?x \<le> 2 powi 53" using assms(2) by (simp add: power_int_def)
  have k: "floor_log2 ?x \<le> 53"
  proof (rule ccontr)
    assume "\<not> ?thesis"
    then have "(2::rat) powi 54 \<le> 2 powi floor_log2 ?x" by (intro power_int_increasing) auto
    with low xle show False by (simp add: power_int_def)
  qed
  show ?thesis
  proof (cases "ulp_exp ?x \<le> 0")
    case True
    then have "?x / 2 powi ulp_exp ?x = of_int (n * 2 ^ nat (- ulp_exp ?x))"
      using power_int_minus [of "2::rat" "- ulp_exp ?x"]
      by (simp add: powi_nat_of_int field_simps)
    then show ?thesis by (rule round_pos_exact)
  next
    case False
    with k have "floor_log2 ?x = 53" and e: "ulp_exp ?x = 1" by (auto simp: ulp_exp_def)
    with low xle have "?x = 2 powi 53" by simp
    then have "?x / 2 powi ulp_exp ?x = of_int (2 ^ 52)"
      unfolding e by (simp add: power_int_def)
    then show ?thesis by (rule round_pos_exact)
  qed
qed

lemma round_pos_pos: "0 \<le> x \<Longrightarrow> 0 \<le> round_pos x"
  using round_half_even_ge [of 0 "x / 2 powi ulp_exp x"] by (simp add: round_pos_def)

lemma fl_uminus: "fl (- x) = (case fl x of FFin a \<Rightarrow> FFin (- a) | FInf b \<Rightarrow> FInf (\<not> b) | FNaN \<Rightarrow> FNaN)"
  by (auto simp: fl_def Let_def)

lemma fle_uminus: "fle (fl x) (fl y) \<Longrightarrow> fle (fl (- y)) (fl (- x))"
  by (auto simp: fl_uminus fl_def Let_def split: if_splits)

lemma fl_mono_pos:
  assumes "0 \<le> x" "x \<le> y"
  shows "fle (fl x) (fl y)"
proof (cases "x = 0")
  case True
  then show ?thesis using assms round_pos_pos [of y] by (auto simp: fl_def Let_def)
next
  case False
  then have "round_pos x \<le> round_pos y" using assms by (intro round_pos_mono) auto
  then show ?thesis using assms False by (auto simp: fl_def Let_def)
qed

lemma fl_nonneg: "0 \<le> x \<Longrightarrow> fle (FFin 0) (fl x)"
  using fl_mono_pos [of 0 x] by (simp add: fl_def)

lemma fl_nonpos: "x \<le> 0 \<Longrightarrow> fle (fl x) (FFin 0)"
  using fle_uminus [of 0 "- x"] fl_mono_pos [of 0 "- x"] by (simp add: fl_def)

lemma fle_trans: "fle x y \<Longrightarrow> fle y z \<Longrightarrow> fle x z"
  by (cases x; cases y; cases z) auto

lemma fl_mono: "x \<le> y \<Longrightarrow> fle (fl x) (fl y)"
proof -
  assume le: "x \<le> y"
  consider "0 \<le> x" | "x \<le> 0" "0 \<le> y" | "y \<le> 0" by linarith
  then show ?thesis
  proof cases
    case 1
    then show ?thesis using le by (rule fl_mono_pos)
  next
    case 2
    then show ?thesis using fl_nonpos fl_nonneg fle_trans by blast
  next
    case 3
    then show ?thesis using fle_uminus [OF fl_mono_pos [of "- y" "- x"]] le by simp
  qed
qed

lemma fl_exact: "\<bar>n\<bar> \<le> 2 ^ 53 \<Longrightarrow> fl (of_int n) = FFin (of_int n)"
proof -
  assume a: "\<bar>n\<bar> \<le> 2 ^ 53"
  have big: "(of_int \<bar>n\<bar> :: rat) < 2 ^ 1024"
  proof -
    have "(of_int \<bar>n\<bar> :: rat) \<le> of_int (2 ^ 53)" using a by (simp only: of_int_le_iff)
    also have "\<dots> < 2 ^ 1024" by simp
    finally show ?thesis .
  qed
  have r: "n \<noteq> 0 \<Longrightarrow> round_pos (of_int \<bar>n\<bar>) = of_int \<bar>n\<bar>"
    using a by (intro round_pos_int) auto
  show ?thesis
  proof (cases "n = 0")
    case False
    have "round_pos \<bar>of_int n\<bar> = of_int \<bar>n\<bar>" using r [OF False] by simp
    with big False show ?thesis by (auto simp: fl_def Let_def not_le abs_if split: if_splits)
  qed (simp add: fl_def)
qed

section \<open>The contract of rounding\<close>

text \<open>
  Whatever rounds an exact difference, a comparison of the rounded difference with a whole number of
  seconds can only err by accepting equality: a difference at or above the bound is still at or above it
  after rounding, and one at or below it still at or below it.
\<close>

locale rounding =
  fixes rnd :: "rat \<Rightarrow> pyfloat"
  assumes rnd_mono: "x \<le> y \<Longrightarrow> fle (rnd x) (rnd y)"
    and rnd_exact: "\<bar>n\<bar> \<le> 2 ^ 53 \<Longrightarrow> rnd (of_int n) = FFin (of_int n)"
begin

lemma rnd_ge_int: "\<bar>n\<bar> \<le> 2 ^ 53 \<Longrightarrow> of_int n \<le> x \<Longrightarrow> fle (FFin (of_int n)) (rnd x)"
  using rnd_mono [of "of_int n" x] rnd_exact [of n] by simp

lemma rnd_le_int: "\<bar>n\<bar> \<le> 2 ^ 53 \<Longrightarrow> x \<le> of_int n \<Longrightarrow> fle (rnd x) (FFin (of_int n))"
  using rnd_mono [of x "of_int n"] rnd_exact [of n] by simp

end

interpretation binary64: rounding fl
  by unfold_locales (auto intro: fl_mono fl_exact)

end
