(* ===== verification/Json.thy ===== *)
theory Json
  imports Py_Numbers
begin

text \<open>
  JSON values as \<open>json.loads\<close> returns them, and openvc/_json.py: the depth bound every untrusted value
  passes (\<open>nesting_exceeds\<close>, a worklist loop), the duplicate-member hook, and the shared readings of a
  JSON value (truthiness, \<open>dict.get\<close>). A tuple is read as a list, as every \<open>isinstance\<close> test on untrusted
  values does.
\<close>

section \<open>Values\<close>

datatype json =
    JNull
  | JBool bool
  | JInt int
  | JFloat pyfloat
  | JStr str
  | JList "json list"
  | JObj "(str \<times> json) list"

type_synonym jobj = "(str \<times> json) list"

definition jget :: "str \<Rightarrow> jobj \<Rightarrow> json" where
  "jget k d = (case map_of d k of None \<Rightarrow> JNull | Some v \<Rightarrow> v)"

text \<open>Python truthiness of a JSON value.\<close>

fun truthy :: "json \<Rightarrow> bool" where
  "truthy JNull = False"
| "truthy (JBool b) = b"
| "truthy (JInt n) = (n \<noteq> 0)"
| "truthy (JFloat f) = (f \<noteq> FFin 0)"
| "truthy (JStr s) = (s \<noteq> [])"
| "truthy (JList xs) = (xs \<noteq> [])"
| "truthy (JObj d) = (d \<noteq> [])"

fun is_jstr :: "json \<Rightarrow> bool" where
  "is_jstr (JStr s) = True"
| "is_jstr _ = False"

fun is_jobj :: "json \<Rightarrow> bool" where
  "is_jobj (JObj d) = True"
| "is_jobj _ = False"

fun jstrs :: "json list \<Rightarrow> str list" where
  "jstrs [] = []"
| "jstrs (JStr s # xs) = s # jstrs xs"
| "jstrs (x # xs) = jstrs xs"

section \<open>The depth bound\<close>

definition MAX_DEPTH :: nat where
  "MAX_DEPTH = 100"

fun children :: "json \<Rightarrow> json list" where
  "children (JList xs) = xs"
| "children (JObj d) = map snd d"
| "children _ = []"

fun is_container :: "json \<Rightarrow> bool" where
  "is_container (JList xs) = True"
| "is_container (JObj d) = True"
| "is_container _ = False"

lemma size_children: "sum_list (map (\<lambda>c. Suc (size c)) (filter is_container (children v))) \<le> size v"
proof (cases v)
  case (JList xs)
  have "sum_list (map (\<lambda>c. Suc (size c)) (filter is_container xs)) \<le> size_list size xs"
    by (induction xs) auto
  with JList show ?thesis by simp
next
  case (JObj d)
  have "sum_list (map (\<lambda>c. Suc (size c)) (filter is_container (map snd d)))
      \<le> size_list (size_prod (\<lambda>_. 0) size) d"
    by (induction d) auto
  with JObj show ?thesis by simp
qed auto

text \<open>
  The loop pops the last pushed pair; \<open>stack\<close> holds it at the head, so \<open>extend\<close> prepends the children
  in reverse.
\<close>

function nesting_loop :: "nat \<Rightarrow> (json \<times> nat) list \<Rightarrow> bool" where
  "nesting_loop limit [] = False"
| "nesting_loop limit ((node, depth) # stack) =
     (if \<not> is_container node then nesting_loop limit stack
      else if limit < depth then True
      else nesting_loop limit
             (rev (map (\<lambda>c. (c, depth + 1)) (filter is_container (children node))) @ stack))"
  by pat_completeness auto

termination
proof (relation "measure (\<lambda>(limit, stack). sum_list (map (\<lambda>(v, d). Suc (size v)) stack))", goal_cases)
  case (3 limit node depth stack)
  then show ?case using size_children [of node]
    by (simp add: rev_map [symmetric] sum_list_rev comp_def)
qed simp_all

definition nesting_exceeds :: "json \<Rightarrow> nat \<Rightarrow> bool" where
  "nesting_exceeds value limit = nesting_loop limit [(value, 1)]"

text \<open>The specification: the number of containers on the deepest path.\<close>

fun depth :: "json \<Rightarrow> nat" where
  "depth (JList xs) = Suc (fold max (map depth xs) 0)"
| "depth (JObj d) = Suc (fold max (map (\<lambda>kv. depth (snd kv)) d) 0)"
| "depth _ = 0"

section \<open>Loading\<close>

text \<open>\<open>object_pairs_hook\<close>: the pairs in order, refused on a repeated name.\<close>

fun reject_dup_loop :: "jobj \<Rightarrow> (str \<times> json) list \<Rightarrow> jobj result" where
  "reject_dup_loop seen [] = Inr seen"
| "reject_dup_loop seen ((name, member) # pairs) =
     (if has_key name seen then Inl PyValueError
      else reject_dup_loop (AList.update name member seen) pairs)"

definition reject_duplicate_members :: "(str \<times> json) list \<Rightarrow> jobj result" where
  "reject_duplicate_members pairs = reject_dup_loop [] pairs"

text \<open>
  \<open>loads\<close> around the standard parser, which is a parameter: it maps text to a value, or raises
  \<open>ValueError\<close> (\<open>RecursionError\<close> is mapped to it by the source).
\<close>

definition loads :: "('a \<Rightarrow> json result) \<Rightarrow> 'a \<Rightarrow> json result" where
  "loads json_loads data =
     bindR (json_loads data) (\<lambda>value.
       if nesting_exceeds value MAX_DEPTH then Inl PyValueError else Inr value)"

section \<open>Lemmas\<close>

lemma fold_max_gt: "(n::nat) < fold max xs a \<longleftrightarrow> n < a \<or> (\<exists>x\<in>set xs. n < x)"
  by (induction xs arbitrary: a) auto

lemma depth_container: "is_container v \<Longrightarrow> depth v = Suc (fold max (map depth (children v)) 0)"
  by (cases v) (auto simp: comp_def)

lemma depth_noncontainer: "\<not> is_container v \<Longrightarrow> depth v = 0"
  by (cases v) auto

lemma nesting_loop_depth:
  "(\<forall>(v, d)\<in>set stack. d \<le> Suc limit) \<Longrightarrow>
     nesting_loop limit stack \<longleftrightarrow> (\<exists>(v, d)\<in>set stack. limit + 1 < depth v + d)"
proof (induction limit stack rule: nesting_loop.induct)
  case (1 limit)
  then show ?case by simp
next
  case (2 limit node d stack)
  let ?cs = "rev (map (\<lambda>c. (c, d + 1)) (filter is_container (children node)))"
  show ?case
  proof (cases "is_container node")
    case False
    with 2 show ?thesis by (auto simp: depth_noncontainer)
  next
    case True
    note dn = depth_container [OF True]
    show ?thesis
    proof (cases "limit < d")
      case True
      with 2(3) have "d = Suc limit" by auto
      with dn show ?thesis using True \<open>is_container node\<close> by auto
    next
      case False
      have IH: "nesting_loop limit (?cs @ stack) \<longleftrightarrow>
          (\<exists>(v, d)\<in>set (?cs @ stack). limit + 1 < depth v + d)"
        using 2(3) False True by (intro 2(2)) auto
      have "(\<exists>c\<in>set (children node). is_container c \<and> limit < depth c + d) \<longleftrightarrow>
            limit + 1 < depth node + d"
      proof -
        have shift: "limit < n + d \<longleftrightarrow> limit - d < n" for n using False by auto
        have "limit < depth node + d - 1 \<longleftrightarrow> (\<exists>c\<in>set (children node). limit < depth c + d)"
          using fold_max_gt [of "limit - d" "map depth (children node)" 0] by (simp add: dn shift)
        moreover have "is_container c" if "limit < depth c + d" for c
          using that False depth_noncontainer [of c] by (cases "is_container c") auto
        ultimately show ?thesis by auto
      qed
      moreover have "(\<exists>(v, d)\<in>set (?cs @ stack). limit + 1 < depth v + d) \<longleftrightarrow>
          (\<exists>c\<in>set (children node). is_container c \<and> limit < depth c + d) \<or>
          (\<exists>(v, d)\<in>set stack. limit + 1 < depth v + d)"
        unfolding set_append set_rev set_map set_filter bex_Un by auto
      ultimately show ?thesis using IH True False by auto
    qed
  qed
qed

lemma nesting_exceeds_depth: "nesting_exceeds v limit \<longleftrightarrow> limit < depth v"
  using nesting_loop_depth [of "[(v, 1)]" limit] by (auto simp: nesting_exceeds_def)

lemma loads_Inr: "loads p data = Inr v \<longleftrightarrow> p data = Inr v \<and> depth v \<le> MAX_DEPTH"
  by (cases "p data") (auto simp: loads_def nesting_exceeds_depth not_less)

lemma reject_dup_loop_spec:
  "dict_ok seen \<Longrightarrow> reject_dup_loop seen pairs =
     (if distinct (map fst (seen @ pairs)) then Inr (seen @ pairs) else Inl PyValueError)"
proof (induction seen pairs rule: reject_dup_loop.induct)
  case (1 seen)
  then show ?case by (simp add: dict_ok_def)
next
  case (2 seen name member pairs)
  show ?case
  proof (cases "has_key name seen")
    case True
    then show ?thesis by (auto simp: has_key_def)
  next
    case False
    then have "AList.update name member seen = seen @ [(name, member)]"
      by (intro update_new) (simp add: has_key_def)
    with 2 False dict_ok_update [OF 2(2), of name member] show ?thesis by simp
  qed
qed

lemma jget_update [dict_simps]: "jget a (AList.update k v d) = (if a = k then v else jget a d)"
  by (simp add: jget_def dict_simps)

lemma jget_Cons [dict_simps]: "jget a ((k, v) # d) = (if a = k then v else jget a d)"
  by (simp add: jget_def)

lemma jget_Nil [dict_simps]: "jget a [] = JNull"
  by (simp add: jget_def)

end
