(* ===== verification/Codec.thy ===== *)
theory Codec
  imports Json
begin

text \<open>
  The byte and text codecs of the standard library that the code calls: big-endian integers, strict
  UTF-8, and unpadded base64url. The base64 reader is \<open>binascii.a2b_base64\<close> in its lenient mode, as
  \<open>base64.urlsafe_b64decode\<close> calls it: characters outside the alphabet are skipped, both alphabets are
  read, and a padding run ends the input.
\<close>

section \<open>Definitions\<close>

definition from_bytes :: "bytes \<Rightarrow> nat" where
  "from_bytes bs = foldl (\<lambda>a b. 256 * a + unat b) 0 bs"

text \<open>\<open>v.to_bytes(n, "big")\<close> for \<open>v < 256\<^sup>n\<close>, which every caller ensures.\<close>

fun to_bytes :: "nat \<Rightarrow> nat \<Rightarrow> bytes" where
  "to_bytes 0 v = []"
| "to_bytes (Suc n) v = to_bytes n (v div 256) @ [of_nat (v mod 256)]"

subsection \<open>UTF-8\<close>

definition surrogate :: "nat \<Rightarrow> bool" where
  "surrogate c = (55296 \<le> c \<and> c < 57344)"

definition utf8_cp :: "nat \<Rightarrow> nat list option" where
  "utf8_cp c =
     (if c < 128 then Some [c]
      else if c < 2048 then Some [192 + c div 64, 128 + c mod 64]
      else if surrogate c then None
      else if c < 65536 then Some [224 + c div 4096, 128 + c div 64 mod 64, 128 + c mod 64]
      else if c < 1114112 then
        Some [240 + c div 262144, 128 + c div 4096 mod 64, 128 + c div 64 mod 64, 128 + c mod 64]
      else None)"

fun utf8_units :: "str \<Rightarrow> nat list option" where
  "utf8_units [] = Some []"
| "utf8_units (c # s) =
     (case utf8_cp c of None \<Rightarrow> None
      | Some u \<Rightarrow> (case utf8_units s of None \<Rightarrow> None | Some us \<Rightarrow> Some (u @ us)))"

text \<open>\<open>s.encode("utf-8")\<close>: a lone surrogate raises.\<close>

definition utf8_encode :: "str \<Rightarrow> bytes result" where
  "utf8_encode s = (case utf8_units s of None \<Rightarrow> Inl PyUnicodeError | Some us \<Rightarrow> Inr (map of_nat us))"

definition cont :: "nat \<Rightarrow> bool" where
  "cont b = (128 \<le> b \<and> b < 192)"

definition utf8_step :: "nat \<Rightarrow> nat list \<Rightarrow> (nat \<times> nat list) option" where
  "utf8_step b0 rest =
     (if b0 < 128 then Some (b0, rest)
      else if b0 < 194 then None
      else if b0 < 224 then
        (case rest of
           b1 # r \<Rightarrow> if cont b1 then Some ((b0 - 192) * 64 + (b1 - 128), r) else None
         | _ \<Rightarrow> None)
      else if b0 < 240 then
        (case rest of
           b1 # b2 # r \<Rightarrow>
             let c = (b0 - 224) * 4096 + (b1 - 128) * 64 + (b2 - 128)
             in if cont b1 \<and> cont b2 \<and> 2048 \<le> c \<and> \<not> surrogate c then Some (c, r) else None
         | _ \<Rightarrow> None)
      else if b0 < 245 then
        (case rest of
           b1 # b2 # b3 # r \<Rightarrow>
             let c = (b0 - 240) * 262144 + (b1 - 128) * 4096 + (b2 - 128) * 64 + (b3 - 128)
             in if cont b1 \<and> cont b2 \<and> cont b3 \<and> 65536 \<le> c \<and> c < 1114112 then Some (c, r) else None
         | _ \<Rightarrow> None)
      else None)"

lemma utf8_step_length: "utf8_step b r = Some (c, r') \<Longrightarrow> length r' \<le> length r"
  by (auto simp: utf8_step_def Let_def split: if_splits list.splits)

function utf8_points :: "nat list \<Rightarrow> str option" where
  "utf8_points [] = Some []"
| "utf8_points (b # rest) =
     (case utf8_step b rest of None \<Rightarrow> None
      | Some (c, r) \<Rightarrow> (case utf8_points r of None \<Rightarrow> None | Some cs \<Rightarrow> Some (c # cs)))"
  by pat_completeness auto
termination
  by (relation "measure length") (auto dest: utf8_step_length simp: less_Suc_eq_le)

text \<open>\<open>bs.decode("utf-8")\<close>, strict.\<close>

definition utf8_decode :: "bytes \<Rightarrow> str result" where
  "utf8_decode bs = (case utf8_points (map unat bs) of None \<Rightarrow> Inl PyUnicodeError | Some s \<Rightarrow> Inr s)"

subsection \<open>Base64url\<close>

definition b64url_char :: "nat \<Rightarrow> nat" where
  "b64url_char v = (if v < 26 then 65 + v else if v < 52 then 71 + v
                    else if v < 62 then v - 4 else if v = 62 then 45 else 95)"

text \<open>The decoding table after \<open>-\<close> and \<open>_\<close> are translated to \<open>+\<close> and \<open>/\<close>.\<close>

definition b64_val :: "nat \<Rightarrow> nat option" where
  "b64_val c = (if 65 \<le> c \<and> c \<le> 90 then Some (c - 65)
                else if 97 \<le> c \<and> c \<le> 122 then Some (c - 71)
                else if 48 \<le> c \<and> c \<le> 57 then Some (c + 4)
                else if c = 45 \<or> c = 43 then Some 62
                else if c = 95 \<or> c = 47 then Some 63 else None)"

fun b64_groups :: "nat list \<Rightarrow> nat list" where
  "b64_groups [] = []"
| "b64_groups [a] = [a div 4, a mod 4 * 16]"
| "b64_groups [a, b] = [a div 4, a mod 4 * 16 + b div 16, b mod 16 * 4]"
| "b64_groups (a # b # c # r) =
     a div 4 # (a mod 4 * 16 + b div 16) # (b mod 16 * 4 + c div 64) # c mod 64 # b64_groups r"

text \<open>\<open>base64.urlsafe_b64encode(data).rstrip(b"=")\<close>: the alphabet has no \<open>=\<close>, so what is stripped is the padding.\<close>

definition b64url_encode :: "bytes \<Rightarrow> str" where
  "b64url_encode data = map b64url_char (b64_groups (map unat data))"

text \<open>Position in the quantum, pads seen, bits left over.\<close>

fun a2b :: "nat \<Rightarrow> nat \<Rightarrow> nat \<Rightarrow> str \<Rightarrow> nat list option" where
  "a2b q pads left [] = (if q = 0 then Some [] else None)"
| "a2b q pads left (ch # cs) =
     (if ch = 61 then
        (if 2 \<le> q \<and> 4 \<le> q + (pads + 1) then Some []
         else a2b q (if 2 \<le> q then pads + 1 else pads) left cs)
      else case b64_val ch of
        None \<Rightarrow> a2b q pads left cs
      | Some v \<Rightarrow>
          if q = 0 then a2b 1 0 v cs
          else if q = 1 then map_option ((#) (left * 4 + v div 16)) (a2b 2 0 (v mod 16) cs)
          else if q = 2 then map_option ((#) (left * 16 + v div 4)) (a2b 3 0 (v mod 4) cs)
          else map_option ((#) (left * 64 + v)) (a2b 0 0 0 cs))"

definition urlsafe_b64decode :: "str \<Rightarrow> bytes result" where
  "urlsafe_b64decode s =
     (if \<not> is_ascii s then Inl PyValueError
      else case a2b 0 0 0 s of None \<Rightarrow> Inl PyValueError | Some vs \<Rightarrow> Inr (map of_nat vs))"

text \<open>\<open>"=" * (-len(segment) % 4)\<close>\<close>

definition b64_pad :: "str \<Rightarrow> str" where
  "b64_pad s = replicate ((4 - length s mod 4) mod 4) 61"

definition b64url_decode :: "str \<Rightarrow> bytes result" where
  "b64url_decode segment = urlsafe_b64decode (segment @ b64_pad segment)"

section \<open>Big-endian integers\<close>

lemma unat_byte [simp]: "n < 256 \<Longrightarrow> unat (of_nat n :: byte) = n"
  by (simp add: unat_of_nat)

lemma unat_byte_less [simp]: "unat (b :: byte) < 256"
  using unsigned_less [of b] by simp

lemma of_nat_unat_byte [simp]: "map (\<lambda>b. of_nat (unat b)) (bs :: bytes) = bs"
  by (induction bs) auto

lemma from_bytes_Nil [simp]: "from_bytes [] = 0"
  by (simp add: from_bytes_def)

lemma from_bytes_snoc [simp]: "from_bytes (bs @ [b]) = 256 * from_bytes bs + unat b"
  by (simp add: from_bytes_def)

lemma length_to_bytes [simp]: "length (to_bytes n v) = n"
  by (induction n v rule: to_bytes.induct) auto

lemma from_to_bytes: "v < 256 ^ n \<Longrightarrow> from_bytes (to_bytes n v) = v"
proof (induction n v rule: to_bytes.induct)
  case (2 n v)
  then have "v div 256 < 256 ^ n" by (simp add: div_less_iff_less_mult algebra_simps)
  with 2 show ?case by simp
qed simp

lemma from_bytes_less: "from_bytes bs < 256 ^ length bs"
proof (induction bs rule: rev_induct)
  case (snoc b bs)
  then have "from_bytes bs + 1 \<le> 256 ^ length bs" by simp
  then have "256 * (from_bytes bs + 1) \<le> 256 * 256 ^ length bs" by (rule mult_le_mono2)
  moreover have "256 * from_bytes bs + unat b < 256 * (from_bytes bs + 1)" by simp
  ultimately have "256 * from_bytes bs + unat b < 256 * 256 ^ length bs" by (rule order_less_le_trans [rotated])
  then show ?case by simp
qed simp

lemma to_from_bytes: "length bs = n \<Longrightarrow> to_bytes n (from_bytes bs) = bs"
proof (induction bs arbitrary: n rule: rev_induct)
  case (snoc b bs)
  then obtain m where m: "n = Suc m" "length bs = m" by (cases n) auto
  have "(256 * from_bytes bs + unat b) div 256 = from_bytes bs"
    using unat_byte_less [of b] by simp
  moreover have "(256 * from_bytes bs + unat b) mod 256 = unat b"
    using unat_byte_less [of b] by simp
  ultimately show ?case using m snoc.IH [of m] by simp
qed simp

section \<open>UTF-8\<close>

lemma digit_div_mod: "y < k \<Longrightarrow> (x * k + y) div k = x" "y < k \<Longrightarrow> (x * k + y) mod k = y" for x y k :: nat
  by auto

lemma utf8_split3: "c div 4096 * 4096 + c div 64 mod 64 * 64 + c mod 64 = (c :: nat)"
proof -
  have "c div 4096 = c div 64 div 64" by (simp add: div_mult2_eq [symmetric])
  then have "c div 4096 * 64 + c div 64 mod 64 = c div 64" by simp
  then show ?thesis using div_mult_mod_eq [of c 64] by linarith
qed

lemma utf8_split4:
  "c div 262144 * 262144 + c div 4096 mod 64 * 4096 + c div 64 mod 64 * 64 + c mod 64 = (c :: nat)"
proof -
  have "c div 262144 = c div 4096 div 64" by (simp add: div_mult2_eq [symmetric])
  then have "c div 262144 * 64 + c div 4096 mod 64 = c div 4096" by simp
  then show ?thesis using utf8_split3 [of c] by linarith
qed

lemma utf8_join3:
  assumes "y < 64" "z < 64" "c = x * 4096 + y * 64 + (z::nat)"
  shows "c div 4096 = x" "c div 64 mod 64 = y" "c mod 64 = z" "c div 64 = x * 64 + y"
proof -
  have c: "c = (x * 64 + y) * 64 + z" using assms(3) by simp
  show *: "c div 64 = x * 64 + y" and "c mod 64 = z"
    unfolding c using assms(2) by (rule digit_div_mod)+
  have "c div 4096 = c div 64 div 64" by (simp add: div_mult2_eq [symmetric])
  then show "c div 4096 = x" "c div 64 mod 64 = y" using * assms(1) by simp_all
qed

lemma utf8_join4:
  assumes "w < 64" "y < 64" "z < 64" "c = x * 262144 + w * 4096 + y * 64 + (z::nat)"
  shows "c div 262144 = x" "c div 4096 mod 64 = w" "c div 64 mod 64 = y" "c mod 64 = z"
proof -
  have c: "c = (x * 64 + w) * 4096 + y * 64 + z" using assms(4) by simp
  note j = utf8_join3 [OF assms(2,3) c]
  show "c div 64 mod 64 = y" "c mod 64 = z" by (fact j)+
  have "c div 262144 = c div 4096 div 64" by (simp add: div_mult2_eq [symmetric])
  then show "c div 262144 = x" "c div 4096 mod 64 = w" using j(1) assms(1) by simp_all
qed

lemma utf8_cp_bytes: "utf8_cp c = Some u \<Longrightarrow> x \<in> set u \<Longrightarrow> x < 256"
  by (auto simp: utf8_cp_def split: if_splits)

lemma utf8_step_cp:
  assumes "utf8_cp c = Some u"
  shows "\<exists>b r. u = b # r \<and> utf8_step b (r @ rest) = Some (c, rest)"
proof -
  consider "c < 128" | "128 \<le> c" "c < 2048" | "2048 \<le> c" "c < 65536" "\<not> surrogate c"
    | "65536 \<le> c" "c < 1114112"
    using assms by (fastforce simp: utf8_cp_def split: if_splits)
  then show ?thesis
  proof cases
    case 1
    then have "u = [c]" using assms by (simp add: utf8_cp_def)
    with 1 show ?thesis by (simp add: utf8_step_def)
  next
    case 2
    then have d: "c div 64 < 32" "2 \<le> c div 64" by (auto simp: div_le_mono)
    have u: "u = [192 + c div 64, 128 + c mod 64]" using 2 assms by (simp add: utf8_cp_def)
    have "utf8_step (192 + c div 64) ([128 + c mod 64] @ rest) = Some (c, rest)"
      using d by (simp add: utf8_step_def cont_def)
    with u show ?thesis by blast
  next
    case 3
    then have d: "c div 4096 < 16" by auto
    have u: "u = [224 + c div 4096, 128 + c div 64 mod 64, 128 + c mod 64]"
      using 3 assms by (simp add: utf8_cp_def)
    have "utf8_step (224 + c div 4096) ([128 + c div 64 mod 64, 128 + c mod 64] @ rest) = Some (c, rest)"
      using d 3 utf8_split3 [of c] by (simp add: utf8_step_def cont_def)
    with u show ?thesis by blast
  next
    case 4
    then have d: "c div 262144 < 5" "\<not> surrogate c" by (auto simp: surrogate_def)
    have u: "u = [240 + c div 262144, 128 + c div 4096 mod 64, 128 + c div 64 mod 64, 128 + c mod 64]"
      using 4 d assms by (simp add: utf8_cp_def)
    have "utf8_step (240 + c div 262144)
        ([128 + c div 4096 mod 64, 128 + c div 64 mod 64, 128 + c mod 64] @ rest) = Some (c, rest)"
      using d 4 utf8_split4 [of c] by (simp add: utf8_step_def cont_def)
    with u show ?thesis by blast
  qed
qed

lemma cont_less: "cont b \<Longrightarrow> b - 128 < 64"
  by (auto simp: cont_def)

lemma utf8_cp_step:
  assumes "utf8_step b rest = Some (c, r)" "b < 256"
  shows "\<exists>u. utf8_cp c = Some u \<and> b # rest = u @ r"
proof -
  consider "b < 128" | "194 \<le> b" "b < 224" | "224 \<le> b" "b < 240" | "240 \<le> b" "b < 245"
    using assms by (fastforce simp: utf8_step_def split: if_splits)
  then show ?thesis
  proof cases
    case 1
    then show ?thesis using assms by (auto simp: utf8_cp_def utf8_step_def)
  next
    case 2
    then obtain b1 where r: "rest = b1 # r" "cont b1" "c = (b - 192) * 64 + (b1 - 128)"
      using assms by (auto simp: utf8_step_def split: list.splits if_splits)
    then have "b1 - 128 < 64" by (intro cont_less)
    then have "c div 64 = b - 192" "c mod 64 = b1 - 128"
      unfolding r(3) by (rule digit_div_mod)+
    moreover have "128 \<le> c" "c < 2048" using 2 r by (auto simp: cont_def)
    ultimately have "utf8_cp c = Some [b, b1]" using 2 r(2) by (auto simp: utf8_cp_def cont_def)
    with r show ?thesis by simp
  next
    case 3
    then obtain b1 b2 where r: "rest = b1 # b2 # r" "cont b1" "cont b2"
        "c = (b - 224) * 4096 + (b1 - 128) * 64 + (b2 - 128)" "2048 \<le> c" "\<not> surrogate c"
      using assms by (auto simp: utf8_step_def Let_def split: list.splits if_splits)
    then have "b1 - 128 < 64" "b2 - 128 < 64" by (auto intro: cont_less)
    note utf8_join3(1-3) [OF this r(4)]
    moreover have "c < 65536" using 3 r by (auto simp: cont_def)
    ultimately have "utf8_cp c = Some [b, b1, b2]" using 3 r(2,3,5,6) by (auto simp: utf8_cp_def cont_def)
    with r show ?thesis by simp
  next
    case 4
    then obtain b1 b2 b3 where r: "rest = b1 # b2 # b3 # r" "cont b1" "cont b2" "cont b3"
        "c = (b - 240) * 262144 + (b1 - 128) * 4096 + (b2 - 128) * 64 + (b3 - 128)"
        "65536 \<le> c" "c < 1114112"
      using assms by (auto simp: utf8_step_def Let_def split: list.splits if_splits)
    note utf8_join4 [OF r(2-4) [THEN cont_less] r(5)]
    then have "utf8_cp c = Some [b, b1, b2, b3]"
      using 4 r(2,3,4,6,7) by (auto simp: utf8_cp_def cont_def surrogate_def)
    with r show ?thesis by simp
  qed
qed

lemma utf8_points_units: "utf8_units s = Some us \<Longrightarrow> utf8_points us = Some s"
proof (induction s arbitrary: us)
  case (Cons c s)
  then obtain u us' where u: "utf8_cp c = Some u" "utf8_units s = Some us'" "us = u @ us'"
    by (auto split: option.splits)
  obtain b r where "u = b # r" "utf8_step b (r @ us') = Some (c, us')"
    using utf8_step_cp [OF u(1)] by blast
  with u Cons.IH show ?case by simp
qed simp

lemma utf8_units_points: "utf8_points us = Some s \<Longrightarrow> \<forall>x\<in>set us. x < 256 \<Longrightarrow> utf8_units s = Some us"
proof (induction us arbitrary: s rule: utf8_points.induct)
  case (2 b rest)
  then obtain c r cs where c: "utf8_step b rest = Some (c, r)" "utf8_points r = Some cs" "s = c # cs"
    by (auto split: option.splits)
  obtain u where u: "utf8_cp c = Some u" "b # rest = u @ r"
    using utf8_cp_step [OF c(1)] 2(3) by auto
  have "set r \<subseteq> set (b # rest)" using u by simp
  with 2(3) have "utf8_units cs = Some r" by (intro 2(1) [OF c(1) refl c(2)]) auto
  with c u show ?case by simp
qed simp

lemma utf8_units_bytes: "utf8_units s = Some us \<Longrightarrow> x \<in> set us \<Longrightarrow> x < 256"
  by (induction s arbitrary: us) (auto split: option.splits dest: utf8_cp_bytes)

lemma utf8_decode_encode: "utf8_encode s = Inr bs \<Longrightarrow> utf8_decode bs = Inr s"
proof -
  assume "utf8_encode s = Inr bs"
  then obtain us where us: "utf8_units s = Some us" "bs = map of_nat us"
    by (auto simp: utf8_encode_def split: option.splits)
  then have "map unat bs = us"
    using utf8_units_bytes [OF us(1)] by (auto intro: map_idI simp: comp_def)
  with us show ?thesis by (simp add: utf8_decode_def utf8_points_units)
qed

lemma utf8_encode_decode: "utf8_decode bs = Inr s \<Longrightarrow> utf8_encode s = Inr bs"
proof -
  assume "utf8_decode bs = Inr s"
  then have "utf8_points (map unat bs) = Some s"
    by (auto simp: utf8_decode_def split: option.splits)
  then have "utf8_units s = Some (map unat bs)" by (rule utf8_units_points) auto
  then show ?thesis by (simp add: utf8_encode_def comp_def)
qed

lemma utf8_encode_inj: "utf8_encode s = Inr bs \<Longrightarrow> utf8_encode t = Inr bs \<Longrightarrow> s = t"
  by (drule utf8_decode_encode)+ simp

section \<open>Base64url\<close>

lemma b64_val_char [simp]: "v < 64 \<Longrightarrow> b64_val (b64url_char v) = Some v"
  by (auto simp: b64_val_def b64url_char_def)

lemma b64url_char_ascii: "v < 64 \<Longrightarrow> b64url_char v < 128 \<and> b64url_char v \<noteq> 61"
  by (auto simp: b64url_char_def)

lemma b64_groups_less: "\<forall>x\<in>set bs. x < 256 \<Longrightarrow> v \<in> set (b64_groups bs) \<Longrightarrow> v < 64"
  by (induction bs rule: b64_groups.induct) auto

lemma a2b_char:
  "v < 64 \<Longrightarrow> a2b q pads left (b64url_char v # cs) =
     (if q = 0 then a2b 1 0 v cs
      else if q = 1 then map_option ((#) (left * 4 + v div 16)) (a2b 2 0 (v mod 16) cs)
      else if q = 2 then map_option ((#) (left * 16 + v div 4)) (a2b 3 0 (v mod 4) cs)
      else map_option ((#) (left * 64 + v)) (a2b 0 0 0 cs))"
  using b64url_char_ascii [of v] by simp

lemma a2b_quad:
  assumes "a < 256" "b < 256" "c < 256"
  shows "a2b 0 pads 0 (b64url_char (a div 4) # b64url_char (a mod 4 * 16 + b div 16) #
           b64url_char (b mod 16 * 4 + c div 64) # b64url_char (c mod 64) # cs) =
         map_option (\<lambda>r. a # b # c # r) (a2b 0 0 0 cs)"
proof -
  have less: "a div 4 < 64" "a mod 4 * 16 + b div 16 < 64" "b mod 16 * 4 + c div 64 < 64"
    using assms by auto
  have small: "b div 16 < 16" "c div 64 < 4" using assms by auto
  note d = digit_div_mod [OF small(1), of "a mod 4"] digit_div_mod [OF small(2), of "b mod 16"]
    mod_less [OF small(1)] mod_less [OF small(2)]
  show ?thesis using less
    by (simp add: a2b_char d option.map_comp comp_def del: a2b.simps)
qed

lemma a2b_pad:
  "a2b q pads left (61 # cs) =
     (if 2 \<le> q \<and> 4 \<le> q + (pads + 1) then Some []
      else a2b q (if 2 \<le> q then pads + 1 else pads) left cs)"
  by simp

lemma b64_pad_two: "b64_pad [x, y] = [61, 61]"
  by (simp add: b64_pad_def numeral_2_eq_2)

lemma b64_pad_three: "b64_pad [x, y, z] = [61]"
  by (simp add: b64_pad_def)

lemma a2b_groups:
  "\<forall>x\<in>set bs. x < 256 \<Longrightarrow>
     a2b 0 pads 0 (map b64url_char (b64_groups bs) @ b64_pad (map b64url_char (b64_groups bs))) = Some bs"
proof (induction bs arbitrary: pads rule: b64_groups.induct)
  case (2 a)
  then have "a div 4 < 64" "a mod 4 * 16 < 64" by auto
  then show ?case by (simp add: a2b_char b64_pad_two a2b_pad del: a2b.simps)
next
  case (3 a b)
  then have less: "a div 4 < 64" "a mod 4 * 16 + b div 16 < 64" "b mod 16 * 4 < 64" "b div 16 < 16" by auto
  note d = digit_div_mod [OF less(4), of "a mod 4"]
  from less show ?case by (simp add: a2b_char b64_pad_three a2b_pad d del: a2b.simps)
next
  case (4 a b c r)
  have pad: "b64_pad (w # x # y # z # zs) = b64_pad zs" for w x y z zs
    by (simp add: b64_pad_def)
  from 4 have "a < 256" "b < 256" "c < 256" by auto
  note q = a2b_quad [OF this]
  from 4 show ?case by (simp add: pad q del: a2b.simps)
qed (simp add: b64_pad_def)

lemma b64url_decode_encode [simp]: "b64url_decode (b64url_encode bs) = Inr bs"
proof -
  let ?vs = "map unat bs"
  have less: "\<forall>x\<in>set ?vs. x < 256" by simp
  have "is_ascii (b64url_encode bs @ b64_pad (b64url_encode bs))"
    using b64_groups_less [OF less] b64url_char_ascii
    by (auto simp: is_ascii_def list_all_iff b64url_encode_def b64_pad_def)
  with a2b_groups [OF less] show ?thesis
    by (simp add: b64url_decode_def urlsafe_b64decode_def b64url_encode_def comp_def)
qed

lemma b64url_encode_inj: "b64url_encode a = b64url_encode b \<Longrightarrow> a = b"
  using b64url_decode_encode by (metis sum.inject(2))

lemma b64url_encode_ascii: "c \<in> set (b64url_encode bs) \<Longrightarrow> c < 128"
  using b64_groups_less [of "map unat bs"] b64url_char_ascii by (auto simp: b64url_encode_def)

end
