(* ===== verification/Jcs.thy ===== *)
theory Jcs
  imports Json Codec "HOL-Library.List_Lexorder" "HOL-Library.Multiset"
begin

text \<open>
  openvc/proof/_jcs.py: RFC 8785 canonicalization. Members are ordered by the UTF-16 code units of their names,
  strings escaped minimally, numbers laid out by the ECMAScript rules from the digits of Python's \<open>repr\<close>. \<open>py_repr\<close>
  models \<open>repr\<close> of a finite double: the shortest decimal that rounds back to it, nearest first, in Python's layout.
\<close>

section \<open>Strings\<close>

definition JCS_MAX_DEPTH :: nat where
  "JCS_MAX_DEPTH = 100"

definition code_units_of :: "nat \<Rightarrow> nat list" where
  "code_units_of cp =
     (if 65535 < cp then [55296 + (cp - 65536) div 1024, 56320 + (cp - 65536) mod 1024] else [cp])"

fun code_units :: "str \<Rightarrow> nat list" where
  "code_units [] = []"
| "code_units (ch # s) = code_units_of ch @ code_units s"

definition SHORT_ESCAPE :: "(nat \<times> str) list" where
  "SHORT_ESCAPE = [(8, [92, 98]), (9, [92, 116]), (10, [92, 110]), (12, [92, 102]), (13, [92, 114]),
                   (34, [92, 34]), (92, [92, 92])]"

definition hex_digit :: "nat \<Rightarrow> nat" where
  "hex_digit n = (if n < 10 then 48 + n else 87 + n)"

definition escape_char :: "nat \<Rightarrow> str" where
  "escape_char cp =
     (case map_of SHORT_ESCAPE cp of
        Some esc \<Rightarrow> esc
      | None \<Rightarrow> if cp < 32 then [92, 117, 48, 48, hex_digit (cp div 16), hex_digit (cp mod 16)] else [cp])"

definition escape_string :: "str \<Rightarrow> str" where
  "escape_string s = [34] @ concat (map escape_char s) @ [34]"

section \<open>Numbers\<close>

text \<open>\<open>s.partition(c)\<close> without the separator itself.\<close>

definition partition_at :: "nat \<Rightarrow> str \<Rightarrow> str \<times> str" where
  "partition_at c s = (takeWhile (\<lambda>x. x \<noteq> c) s, drop 1 (dropWhile (\<lambda>x. x \<noteq> c) s))"

definition strip_both :: "nat \<Rightarrow> str \<Rightarrow> str" where
  "strip_both c s = rev (dropWhile (\<lambda>x. x = c) (rev (dropWhile (\<lambda>x. x = c) s)))"

text \<open>\<open>int(exp_s)\<close> for an optional sign and digits.\<close>

fun int_of_text :: "str \<Rightarrow> int" where
  "int_of_text [] = 0"
| "int_of_text (c # s) =
     (if c = 43 then int (nat_of_digits s) else if c = 45 then - int (nat_of_digits s)
      else int (nat_of_digits (c # s)))"

definition int_text :: "int \<Rightarrow> str" where
  "int_text n = (if n < 0 then [45] @ decimal (nat (- n)) else decimal (nat n))"

definition assemble_ecmascript :: "str \<Rightarrow> nat \<Rightarrow> int \<Rightarrow> str" where
  "assemble_ecmascript digits k n =
     (if int k \<le> n \<and> n \<le> 21 then digits @ replicate (nat (n - int k)) 48
      else if 0 < n \<and> n \<le> 21 then take (nat n) digits @ [46] @ drop (nat n) digits
      else if - 6 < n \<and> n \<le> 0 then [48, 46] @ replicate (nat (- n)) 48 @ digits
      else let e = n - 1; exp = (if 0 \<le> e then [43] else [45]) @ decimal (nat \<bar>e\<bar>)
           in if k = 1 then digits @ [101] @ exp
              else take 1 digits @ [46] @ drop 1 digits @ [101] @ exp)"

definition reformat_abs :: "str \<Rightarrow> str" where
  "reformat_abs r =
     (let (mantissa, exp_s) = partition_at 101 r;
          (int_part, frac_part) = partition_at 46 mantissa;
          combined = int_part @ frac_part;
          point_pos = int (length int_part) + int_of_text exp_s;
          first_sig = length (takeWhile (\<lambda>x. x = 48) combined);
          digits = (if strip_both 48 combined = [] then [48] else strip_both 48 combined)
      in assemble_ecmascript digits (length digits) (point_pos - int first_sig))"

definition reformat_ecmascript :: "str \<Rightarrow> str" where
  "reformat_ecmascript r =
     (if starts_with [45] r then [45] @ reformat_abs (drop 1 r) else reformat_abs r)"

subsection \<open>Python's repr of a double\<close>

text \<open>The exponent of the first decimal digit of \<open>x > 0\<close>.\<close>

definition floor_log10 :: "rat \<Rightarrow> int" where
  "floor_log10 x = (if 1 \<le> x then int (length (decimal (nat \<lfloor>x\<rfloor>))) - 1
                    else - int (length (decimal (nat (\<lceil>1 / x\<rceil> - 1)))))"

text \<open>The \<open>k\<close>-digit decimal nearest to \<open>x\<close> among those that read back as \<open>x\<close>, as an integer times \<open>10\<close> to the
  returned power.\<close>

definition nearest_digits :: "rat \<Rightarrow> nat \<Rightarrow> (nat \<times> int) option" where
  "nearest_digits x k =
     (let e = floor_log10 x - int k + 1; lo = \<lfloor>x / 10 powi e\<rfloor>;
          ok = (\<lambda>m. fl (of_int m * 10 powi e) = FFin x)
      in if ok lo \<and> (\<not> ok (lo + 1) \<or> x / 10 powi e - of_int lo \<le> 1 / 2) then Some (nat lo, e)
         else if ok (lo + 1) then Some (nat (lo + 1), e) else None)"

text \<open>Digits without trailing zeros, and the position of the point relative to the first of them.\<close>

definition shortest :: "rat \<Rightarrow> (str \<times> int) option" where
  "shortest x =
     (case List.find (\<lambda>k. nearest_digits x k \<noteq> None) [1..<18] of
        None \<Rightarrow> None
      | Some k \<Rightarrow> (case nearest_digits x k of
          None \<Rightarrow> None
        | Some (m, e) \<Rightarrow>
            Some (rev (dropWhile (\<lambda>c. c = 48) (rev (decimal m))), int (length (decimal m)) + e)))"

definition py_layout :: "str \<Rightarrow> int \<Rightarrow> str" where
  "py_layout digits n =
     (let k = length digits
      in if n \<le> - 4 \<or> 16 < n then
           (let e = n - 1; d = decimal (nat \<bar>e\<bar>)
            in take 1 digits @ (if 1 < k then [46] @ drop 1 digits else []) @ [101]
               @ (if 0 \<le> e then [43] else [45]) @ (if length d = 1 then [48] @ d else d))
         else if n \<le> 0 then [48, 46] @ replicate (nat (- n)) 48 @ digits
         else if int k \<le> n then digits @ replicate (nat n - k) 48 @ [46, 48]
         else take (nat n) digits @ [46] @ drop (nat n) digits)"

definition py_repr :: "rat \<Rightarrow> str" where
  "py_repr x = (case shortest \<bar>x\<bar> of
     None \<Rightarrow> []
   | Some (digits, n) \<Rightarrow> (if x < 0 then [45] else []) @ py_layout digits n)"

subsection \<open>The number rule\<close>

fun ecmascript_double :: "pyfloat \<Rightarrow> str result" where
  "ecmascript_double (FFin x) = Inr (if x = 0 then [48] else reformat_ecmascript (py_repr x))"
| "ecmascript_double f = Inl JcsError"

definition number_int :: "int \<Rightarrow> str result" where
  "number_int n =
     (if - (2 ^ 53) < n \<and> n < 2 ^ 53 then Inr (int_text n)
      else bindR (catchR (\<lambda>e. e = PyOverflowError) JcsError (float_of_int n)) ecmascript_double)"

section \<open>Serialization\<close>

function serialize :: "nat \<Rightarrow> json \<Rightarrow> str result" where
  "serialize dep v =
     (if JCS_MAX_DEPTH < dep then Inl JcsError
      else case v of
        JNull \<Rightarrow> Inr (lit ''null'')
      | JBool b \<Rightarrow> Inr (if b then lit ''true'' else lit ''false'')
      | JStr s \<Rightarrow> Inr (escape_string s)
      | JInt n \<Rightarrow> number_int n
      | JFloat f \<Rightarrow> ecmascript_double f
      | JList vs \<Rightarrow>
          bindR (mapR (serialize (dep + 1)) vs) (\<lambda>parts. Inr ([91] @ join_with 44 parts @ [93]))
      | JObj d \<Rightarrow>
          bindR (mapR (\<lambda>kv. bindR (serialize (dep + 1) (snd kv)) (\<lambda>t. Inr (escape_string (fst kv) @ [58] @ t)))
                   (sort_key (\<lambda>kv. code_units (fst kv)) d))
            (\<lambda>parts. Inr ([123] @ join_with 44 parts @ [125])))"
  by pat_completeness auto
termination
proof (relation "measure (\<lambda>(dep, v). size v)", goal_cases)
  case (3 dep v d kv)
  then have "kv \<in> set d" by simp
  then have "size (snd kv) < size_list (size_prod (\<lambda>_. 0) size) d + 1"
    by (induction d) auto
  with 3 show ?case by simp
qed (auto simp: size_list_estimation' less_Suc_eq_le)

declare serialize.simps [simp del]

definition canonicalize :: "json \<Rightarrow> bytes result" where
  "canonicalize v =
     bindR (serialize 0 v) (\<lambda>s. catchR (\<lambda>e. e = PyUnicodeError) JcsError (utf8_encode s))"


section \<open>Specification\<close>

text \<open>Python equality of JSON values: dicts with the same entries in any order. Every dict has distinct keys.\<close>

inductive jeq :: "json \<Rightarrow> json \<Rightarrow> bool" where
  jeq_leaf: "\<not> is_container v \<Longrightarrow> jeq v v"
| jeq_list: "list_all2 jeq xs ys \<Longrightarrow> jeq (JList xs) (JList ys)"
| jeq_obj: "dict_ok d \<Longrightarrow> mset d' = mset d \<Longrightarrow> list_all2 (\<lambda>x y. fst x = fst y \<and> jeq (snd x) (snd y)) d' e \<Longrightarrow>
    jeq (JObj d) (JObj e)"

text \<open>The depth of the deepest node, scalars included; the root is at 0.\<close>

fun height :: "json \<Rightarrow> nat" where
  "height (JList vs) = fold max (map (\<lambda>v. Suc (height v)) vs) 0"
| "height (JObj d) = fold max (map (\<lambda>kv. Suc (height (snd kv))) d) 0"
| "height _ = 0"

fun numbers_ok :: "json \<Rightarrow> bool" where
  "numbers_ok (JInt n) = (\<bar>n\<bar> < 2 ^ 53 \<or> isOk (float_of_int n))"
| "numbers_ok (JFloat f) = (\<exists>x. f = FFin x)"
| "numbers_ok (JList vs) = list_all numbers_ok vs"
| "numbers_ok (JObj d) = list_all (\<lambda>kv. numbers_ok (snd kv)) d"
| "numbers_ok _ = True"

definition text_ok :: "str \<Rightarrow> bool" where
  "text_ok s = list_all (\<lambda>c. \<not> surrogate c \<and> c < 1114112) s"

fun texts_ok :: "json \<Rightarrow> bool" where
  "texts_ok (JStr s) = text_ok s"
| "texts_ok (JList vs) = list_all texts_ok vs"
| "texts_ok (JObj d) = list_all (\<lambda>kv. text_ok (fst kv) \<and> texts_ok (snd kv)) d"
| "texts_ok _ = True"

section \<open>Text\<close>

lemma utf8_encode_ok: "isOk (utf8_encode s) \<longleftrightarrow> text_ok s"
proof -
  have cp: "utf8_cp c \<noteq> None \<longleftrightarrow> \<not> surrogate c \<and> c < 1114112" for c
    by (auto simp: utf8_cp_def surrogate_def)
  have "utf8_units s \<noteq> None \<longleftrightarrow> text_ok s"
  proof (induction s)
    case (Cons c s)
    then show ?case using cp [of c] by (auto simp: text_ok_def split: option.splits)
  qed (simp add: text_ok_def)
  then show ?thesis by (auto simp: utf8_encode_def split: option.splits)
qed

lemma text_ok_append [simp]: "text_ok (a @ b) \<longleftrightarrow> text_ok a \<and> text_ok b"
  by (simp add: text_ok_def)

lemma text_ok_Cons [simp]: "text_ok (c # b) \<longleftrightarrow> \<not> surrogate c \<and> c < 1114112 \<and> text_ok b"
  by (simp add: text_ok_def)

lemma text_ok_Nil [simp]: "text_ok []"
  by (simp add: text_ok_def)

lemma ascii_text_ok: "\<forall>c\<in>set s. c < 128 \<Longrightarrow> text_ok s"
  by (auto simp: text_ok_def list_all_iff surrogate_def)

lemma text_ok_join: "text_ok (join_with 44 ps) \<longleftrightarrow> list_all text_ok ps"
  by (induction "44::nat" ps rule: join_with.induct) (auto simp: surrogate_def)

lemma hex_digit_less: "n < 16 \<Longrightarrow> hex_digit n < 128"
  by (simp add: hex_digit_def)

lemma text_ok_escape_char: "text_ok (escape_char c) \<longleftrightarrow> \<not> surrogate c \<and> c < 1114112"
proof (cases "map_of SHORT_ESCAPE c")
  case None
  then show ?thesis
  proof (cases "c < 32")
    case True
    then have "hex_digit (c div 16) < 128" "hex_digit (c mod 16) < 128" by (auto intro!: hex_digit_less)
    with None True show ?thesis by (simp add: escape_char_def surrogate_def)
  qed (simp add: escape_char_def)
next
  case (Some e)
  then show ?thesis by (auto simp: escape_char_def SHORT_ESCAPE_def surrogate_def split: if_splits)
qed

lemma text_ok_escape: "text_ok (escape_string s) \<longleftrightarrow> text_ok s"
proof -
  have "text_ok (concat (map escape_char s)) \<longleftrightarrow> text_ok s"
    by (induction s) (auto simp: text_ok_escape_char)
  then show ?thesis by (simp add: escape_string_def surrogate_def)
qed

lemma code_units_of_inj:
  assumes "code_units_of a @ x = code_units_of b @ y" "\<not> surrogate a \<and> a < 1114112" "\<not> surrogate b \<and> b < 1114112"
  shows "a = b \<and> x = y"
proof -
  have s: "surrogate (55296 + (c - 65536) div 1024)" if "c < 1114112" for c
    using that by (simp add: surrogate_def div_less_iff_less_mult less_diff_conv2)
  consider "65535 < a" "65535 < b" | "65535 < a" "\<not> 65535 < b" | "\<not> 65535 < a" "65535 < b"
    | "\<not> 65535 < a" "\<not> 65535 < b" by blast
  then show ?thesis
  proof cases
    case 1
    then have "(a - 65536) div 1024 = (b - 65536) div 1024" "(a - 65536) mod 1024 = (b - 65536) mod 1024" "x = y"
      using assms(1) by (simp_all add: code_units_of_def)
    then have "a - 65536 = b - 65536" by (metis div_mult_mod_eq)
    with 1 \<open>x = y\<close> show ?thesis by linarith
  next
    case 2
    with assms s [of a] show ?thesis by (auto simp: code_units_of_def)
  next
    case 3
    with assms s [of b] show ?thesis by (auto simp: code_units_of_def)
  next
    case 4
    with assms show ?thesis by (auto simp: code_units_of_def)
  qed
qed

lemma code_units_inj: "code_units s = code_units t \<Longrightarrow> text_ok s \<Longrightarrow> text_ok t \<Longrightarrow> s = t"
proof (induction s arbitrary: t)
  case Nil
  then show ?case by (cases t) (auto simp: code_units_of_def split: if_splits)
next
  case (Cons a s)
  then obtain b r where "t = b # r" by (cases t) (auto simp: code_units_of_def split: if_splits)
  with Cons show ?case using code_units_of_inj [of a "code_units s" b "code_units r"] by auto
qed

section \<open>Reading strings back\<close>

definition hex_value :: "nat \<Rightarrow> nat" where
  "hex_value c = (if c < 58 then c - 48 else c - 87)"

text \<open>The body of a JSON string up to its closing quote: the value and what follows.\<close>

function read_body :: "str \<Rightarrow> (str \<times> str) option" where
  "read_body [] = None"
| "read_body (c # r) =
     (if c = 34 then Some ([], r)
      else if c = 92 then
        (case r of
           [] \<Rightarrow> None
         | e # r' \<Rightarrow>
             if e = 117 then
               (if length r' < 4 then None
                else map_option (\<lambda>(s, q). (foldl (\<lambda>a x. 16 * a + hex_value x) 0 (take 4 r') # s, q)) (read_body (drop 4 r')))
             else
               (case map_of [(98, 8), (116, 9), (110, 10), (102, 12), (114, 13), (34, 34), (92, 92), (47, 47)] e of
                  None \<Rightarrow> None
                | Some ch \<Rightarrow> map_option (\<lambda>(s, q). (ch # s, q)) (read_body r')))
      else if c < 32 then None
      else map_option (\<lambda>(s, q). (c # s, q)) (read_body r))"
  by pat_completeness auto
termination
  by (relation "measure length") auto

declare read_body.simps [simp del]

lemma hex_value_digit: "n < 16 \<Longrightarrow> hex_value (hex_digit n) = n"
  by (simp add: hex_value_def hex_digit_def)

lemma read_body_escape_char:
  "read_body (escape_char c @ r) = map_option (\<lambda>(s, q). (c # s, q)) (read_body r)"
proof (cases "map_of SHORT_ESCAPE c")
  case (Some e)
  then show ?thesis
    by (auto simp: escape_char_def SHORT_ESCAPE_def read_body.simps(2) split: if_splits)
next
  case None
  show ?thesis
  proof (cases "c < 32")
    case True
    have "16 * hex_value (hex_digit (c div 16)) + hex_value (hex_digit (c mod 16)) = c"
      using True by (simp add: hex_value_digit)
    with None True show ?thesis
      by (simp add: escape_char_def read_body.simps(2) hex_value_def [of 48])
  next
    case False
    with None show ?thesis by (auto simp: escape_char_def SHORT_ESCAPE_def read_body.simps(2) split: if_splits)
  qed
qed

lemma read_body_escape: "read_body (concat (map escape_char s) @ 34 # r) = Some (s, r)"
  by (induction s) (simp_all add: read_body.simps(2) read_body_escape_char)

lemma escape_no_controls: "\<forall>c\<in>set (escape_string s). 32 \<le> c"
  by (auto simp: escape_string_def escape_char_def SHORT_ESCAPE_def hex_digit_def split: option.splits if_splits)


section \<open>Reading numbers back\<close>

definition read_number_abs :: "str \<Rightarrow> rat" where
  "read_number_abs r =
     (let (mantissa, exp_s) = partition_at 101 r; (int_part, frac_part) = partition_at 46 mantissa
      in of_nat (nat_of_digits (int_part @ frac_part)) * 10 powi (int_of_text exp_s - int (length frac_part)))"

definition read_number :: "str \<Rightarrow> rat" where
  "read_number r = (if starts_with [45] r then - read_number_abs (drop 1 r) else read_number_abs r)"

definition digits_only :: "str \<Rightarrow> bool" where
  "digits_only s = list_all (\<lambda>c. 48 \<le> c \<and> c \<le> 57) s"

lemma digits_only_simps [simp]:
  "digits_only []" "digits_only (c # s) \<longleftrightarrow> 48 \<le> c \<and> c \<le> 57 \<and> digits_only s"
  "digits_only (a @ b) \<longleftrightarrow> digits_only a \<and> digits_only b" "digits_only (replicate m 48)" "digits_only (rev a) \<longleftrightarrow> digits_only a"
  by (auto simp: digits_only_def list_all_iff)

lemma digits_only_sub: "digits_only s \<Longrightarrow> digits_only (take m s)" "digits_only s \<Longrightarrow> digits_only (drop m s)"
  by (auto simp: digits_only_def list_all_iff dest: in_set_takeD in_set_dropD)

lemma digits_only_decimal [simp]: "digits_only (decimal n)"
  using decimal_digits [of n] by (auto simp: digits_only_def list_all_iff)

lemma digits_only_notin: "digits_only s \<Longrightarrow> 46 \<notin> set s \<and> 101 \<notin> set s \<and> 45 \<notin> set s \<and> 43 \<notin> set s"
  by (auto simp: digits_only_def list_all_iff)

lemma partition_absent: "c \<notin> set s \<Longrightarrow> partition_at c s = (s, [])"
  by (induction s) (auto simp: partition_at_def)

lemma partition_present: "c \<notin> set a \<Longrightarrow> partition_at c (a @ c # b) = (a, b)"
  by (induction a) (auto simp: partition_at_def)

text \<open>The four shapes a decimal text takes, and how the code takes each apart.\<close>

definition parts_of :: "str \<Rightarrow> str \<times> str \<times> int" where
  "parts_of r = (let (mantissa, exp_s) = partition_at 101 r; (int_part, frac_part) = partition_at 46 mantissa
                 in (int_part, frac_part, int_of_text exp_s))"

lemma parts_of_simps:
  assumes "digits_only a" "digits_only b"
  shows "parts_of a = (a, [], 0)" "parts_of (a @ 46 # b) = (a, b, 0)"
    "parts_of (a @ 101 # x) = (a, [], int_of_text x)" "parts_of (a @ 46 # b @ 101 # x) = (a, b, int_of_text x)"
  using digits_only_notin [OF assms(1)] digits_only_notin [OF assms(2)]
    partition_present [of 101 "a @ 46 # b" x]
  by (simp_all add: parts_of_def partition_absent partition_present)

lemma read_number_parts:
  "parts_of r = (a, b, e) \<Longrightarrow> read_number_abs r = of_nat (nat_of_digits (a @ b)) * 10 powi (e - int (length b))"
  by (auto simp: read_number_abs_def parts_of_def Let_def split: prod.splits)

lemma reformat_parts:
  "parts_of r = (a, b, e) \<Longrightarrow>
     reformat_abs r = (let digits = (if strip_both 48 (a @ b) = [] then [48] else strip_both 48 (a @ b))
       in assemble_ecmascript digits (length digits)
            (int (length a) + e - int (length (takeWhile (\<lambda>x. x = 48) (a @ b)))))"
  by (auto simp: reformat_abs_def parts_of_def Let_def split: prod.splits)

lemma int_of_text_sign:
  "int_of_text (43 # s) = int (nat_of_digits s)" "int_of_text (45 # s) = - int (nat_of_digits s)"
  by simp_all

lemma exp_text: "int_of_text ((if 0 \<le> e then [43] else [45]) @ decimal (nat \<bar>e\<bar>)) = e"
  by (simp add: nat_of_digits_decimal)

definition sig :: "str \<Rightarrow> bool" where
  "sig d \<longleftrightarrow> digits_only d \<and> d \<noteq> [] \<and> hd d \<noteq> 48 \<and> last d \<noteq> 48"

lemma strip_sig:
  assumes "sig d"
  shows "strip_both 48 (replicate i 48 @ d @ replicate j 48) = d"
    "takeWhile (\<lambda>x. x = 48) (replicate i 48 @ d @ replicate j 48) = replicate i 48"
proof -
  have h: "dropWhile (\<lambda>x. x = 48) (replicate m 48 @ y @ z) = y @ z" "takeWhile (\<lambda>x. x = 48) (replicate m 48 @ y @ z) = replicate m 48"
    if "y \<noteq> []" "hd y \<noteq> 48" for m y z
    using that by (induction m) (cases y; simp)+
  have "rev d \<noteq> []" "hd (rev d) \<noteq> 48" using assms by (auto simp: sig_def hd_rev)
  from h(1) [OF this, of j "[]"] h [of d i "replicate j 48"] assms
  show "strip_both 48 (replicate i 48 @ d @ replicate j 48) = d"
    "takeWhile (\<lambda>x. x = 48) (replicate i 48 @ d @ replicate j 48) = replicate i 48"
    by (simp_all add: strip_both_def sig_def)
qed


lemma reformat_combined:
  assumes "sig d" "parts_of r = (a, b, e)" "a @ b = replicate i 48 @ d @ replicate j 48" "int (length a) + e - int i = n"
  shows "reformat_abs r = assemble_ecmascript d (length d) n"
  using strip_sig [OF assms(1), of i j] assms by (simp add: reformat_parts [OF assms(2)] Let_def sig_def)

lemma exp_text_padded:
  "int_of_text ((if 0 \<le> e then [43] else [45]) @
     (if length (decimal (nat \<bar>e\<bar>)) = 1 then [48] @ decimal (nat \<bar>e\<bar>) else decimal (nat \<bar>e\<bar>))) = e"
  by (simp add: nat_of_digits_decimal nat_of_digits_zero)

lemma sig_split: "sig d \<Longrightarrow> digits_only (take m d) \<and> digits_only (drop m d)"
  by (auto simp: sig_def intro: digits_only_sub)

lemma reformat_layout:
  assumes d: "sig d"
  shows "reformat_abs (py_layout d n) = assemble_ecmascript d (length d) n"
proof -
  let ?k = "length d" and ?s = "(if 0 \<le> n - 1 then [43] else [45]) @
     (if length (decimal (nat \<bar>n - 1\<bar>)) = 1 then [48] @ decimal (nat \<bar>n - 1\<bar>) else decimal (nat \<bar>n - 1\<bar>))"
  have k: "0 < ?k" using d by (simp add: sig_def)
  consider "n \<le> - 4 \<or> 16 < n" "1 < ?k" | "n \<le> - 4 \<or> 16 < n" "?k = 1" | "- 4 < n" "n \<le> 0"
    | "0 < n" "n \<le> 16" "int ?k \<le> n" | "0 < n" "n \<le> 16" "n < int ?k" using k by linarith
  then show ?thesis
  proof cases
    case 1
    then have "py_layout d n = take 1 d @ 46 # drop 1 d @ 101 # ?s" by (simp add: py_layout_def Let_def)
    then have "parts_of (py_layout d n) = (take 1 d, drop 1 d, n - 1)"
      using sig_split [OF d, of 1] by (simp only: parts_of_simps exp_text_padded)
    then show ?thesis by (rule reformat_combined [OF d, of _ _ _ _ 0 0]) (use 1 in auto)
  next
    case 2
    then have "py_layout d n = take 1 d @ 101 # ?s" by (simp add: py_layout_def Let_def)
    then have "parts_of (py_layout d n) = (take 1 d, [], n - 1)"
      using sig_split [OF d, of 1] by (simp only: parts_of_simps(3) [OF _ digits_only_simps(1)] exp_text_padded)
    then show ?thesis by (rule reformat_combined [OF d, of _ _ _ _ 0 0]) (use 2 in auto)
  next
    case 3
    then have "py_layout d n = [48] @ 46 # (replicate (nat (- n)) 48 @ d)" by (simp add: py_layout_def Let_def)
    then have "parts_of (py_layout d n) = ([48], replicate (nat (- n)) 48 @ d, 0)"
      using d parts_of_simps(2) [of "[48]" "replicate (nat (- n)) 48 @ d"] by (simp add: sig_def)
    then show ?thesis by (rule reformat_combined [OF d, of _ _ _ _ "Suc (nat (- n))" 0]) (use 3 in auto)
  next
    case 4
    then have "py_layout d n = (d @ replicate (nat n - ?k) 48) @ 46 # [48]" by (simp add: py_layout_def Let_def)
    then have "parts_of (py_layout d n) = (d @ replicate (nat n - ?k) 48, [48], 0)"
      using d parts_of_simps(2) [of "d @ replicate (nat n - ?k) 48" "[48]"] by (simp add: sig_def)
    then show ?thesis
      by (rule reformat_combined [OF d, of _ _ _ _ 0 "Suc (nat n - ?k)"]) (use 4 in \<open>auto simp: replicate_append_same\<close>)
  next
    case 5
    then have "py_layout d n = take (nat n) d @ 46 # drop (nat n) d" by (simp add: py_layout_def Let_def)
    then have "parts_of (py_layout d n) = (take (nat n) d, drop (nat n) d, 0)"
      using sig_split [OF d, of "nat n"] by (simp only: parts_of_simps)
    then show ?thesis by (rule reformat_combined [OF d, of _ _ _ _ 0 0]) (use 5 in auto)
  qed
qed

lemma nat_of_digits_zeros:
  "nat_of_digits (replicate m 48 @ s) = nat_of_digits s" "nat_of_digits (s @ replicate m 48) = 10 ^ m * nat_of_digits s"
  by (induction m) (simp_all add: nat_of_digits_zero nat_of_digits_append)

lemma nat_of_digits_trailing: "nat_of_digits (s @ replicate m 48) = 10 ^ m * nat_of_digits s"
  by (rule nat_of_digits_zeros(2))

lemma read_assemble:
  assumes d: "sig d"
  shows "read_number_abs (assemble_ecmascript d (length d) n) =
           of_nat (nat_of_digits d) * 10 powi (n - int (length d))"
proof -
  let ?k = "length d" and ?s = "(if 0 \<le> n - 1 then [43] else [45]) @ decimal (nat \<bar>n - 1\<bar>)"
  have k: "0 < ?k" using d by (simp add: sig_def)
  note sp = sig_split [OF d]
  consider "int ?k \<le> n" "n \<le> 21" | "0 < n" "n < int ?k" "n \<le> 21" | "- 6 < n" "n \<le> 0"
    | "n \<le> - 6 \<or> 21 < n" "1 < ?k" | "n \<le> - 6 \<or> 21 < n" "?k = 1" using k by linarith
  then show ?thesis
  proof cases
    case 1
    then have "assemble_ecmascript d ?k n = d @ replicate (nat (n - int ?k)) 48" by (simp add: assemble_ecmascript_def)
    then have "parts_of (assemble_ecmascript d ?k n) = (d @ replicate (nat (n - int ?k)) 48, [], 0)"
      using d by (simp only: parts_of_simps(1) [OF _ digits_only_simps(1)] sig_def digits_only_simps)
    from read_number_parts [OF this] show ?thesis
      using 1 by (simp add: nat_of_digits_trailing power_int_def)
  next
    case 2
    then have "assemble_ecmascript d ?k n = take (nat n) d @ 46 # drop (nat n) d" by (simp add: assemble_ecmascript_def)
    then have "parts_of (assemble_ecmascript d ?k n) = (take (nat n) d, drop (nat n) d, 0)"
      using sp [of "nat n"] by (simp only: parts_of_simps)
    from read_number_parts [OF this] show ?thesis using 2 by simp
  next
    case 3
    moreover from 3 k have "\<not> int ?k \<le> n" by linarith
    ultimately have "assemble_ecmascript d ?k n = [48] @ 46 # (replicate (nat (- n)) 48 @ d)"
      by (simp add: assemble_ecmascript_def)
    then have "parts_of (assemble_ecmascript d ?k n) = ([48], replicate (nat (- n)) 48 @ d, 0)"
      using d parts_of_simps(2) [of "[48]" "replicate (nat (- n)) 48 @ d"] by (simp add: sig_def)
    from read_number_parts [OF this] show ?thesis
      using 3 by (simp add: nat_of_digits_zeros nat_of_digits_zero)
  next
    case 4
    then have "assemble_ecmascript d ?k n = take 1 d @ 46 # drop 1 d @ 101 # ?s"
      using k by (auto simp: assemble_ecmascript_def Let_def)
    then have "parts_of (assemble_ecmascript d ?k n) = (take 1 d, drop 1 d, n - 1)"
      using sp [of 1] by (simp only: parts_of_simps exp_text)
    from read_number_parts [OF this] show ?thesis using k by (simp add: algebra_simps)
  next
    case 5
    then have "assemble_ecmascript d ?k n = d @ 101 # ?s" by (auto simp: assemble_ecmascript_def Let_def)
    then have "parts_of (assemble_ecmascript d ?k n) = (d, [], n - 1)"
      using d by (simp only: parts_of_simps(3) [OF _ digits_only_simps(1)] exp_text sig_def)
    from read_number_parts [OF this] show ?thesis using 5 by simp
  qed
qed


lemma find_Some: "List.find P xs = Some k \<Longrightarrow> P k"
  by (induction xs) (auto split: if_splits)

lemma nearest_digits_exact: "nearest_digits x k = Some (m, e) \<Longrightarrow> 0 < x \<Longrightarrow> 0 < m \<and> fl (of_nat m * 10 powi e) = FFin x"
proof -
  assume n: "nearest_digits x k = Some (m, e)" and x: "0 < x"
  then obtain z where z: "m = nat z" "fl (of_int z * 10 powi e) = FFin x"
    by (auto simp: nearest_digits_def Let_def split: if_splits)
  have "0 < z"
  proof (rule ccontr)
    assume "\<not> 0 < z"
    then have "of_int z * (10::rat) powi e \<le> 0" by (simp add: mult_nonpos_nonneg)
    from fl_nonpos [OF this] z(2) x show False by simp
  qed
  with z show ?thesis by (simp add: of_nat_nat)
qed

lemma strip_trailing:
  assumes "digits_only s" "s \<noteq> []" "hd s \<noteq> 48"
  obtains d j where "rev (dropWhile (\<lambda>c. c = 48) (rev s)) = d" "s = d @ replicate j 48" "sig d"
proof -
  let ?d = "rev (dropWhile (\<lambda>c. c = 48) (rev s))"
  have "\<exists>j. s = ?d @ replicate j 48"
  proof (induction s rule: rev_induct)
    case (snoc c s)
    then obtain j where j: "s = rev (dropWhile (\<lambda>c. c = 48) (rev s)) @ replicate j 48" by blast
    show ?case
    proof (cases "c = 48")
      case True
      have "s @ [48] = rev (dropWhile (\<lambda>c. c = 48) (rev s)) @ replicate (Suc j) 48"
        by (subst j) (simp add: replicate_append_same)
      moreover have e: "dropWhile (\<lambda>c. c = 48) (rev (s @ [c])) = dropWhile (\<lambda>c. c = 48) (rev s)"
        using True by simp
      ultimately show ?thesis unfolding True by (intro exI [of _ "Suc j"]) (simp only: True)
    qed (auto intro: exI [of _ 0])
  qed simp
  then obtain j where s: "s = ?d @ replicate j 48" ..
  have ne: "?d \<noteq> []"
  proof
    assume "?d = []"
    with s have "s = replicate j 48" by (simp only: append_Nil)
    with assms(2,3) show False by (cases j) simp_all
  qed
  moreover have "last ?d \<noteq> 48"
    using ne hd_dropWhile [of "\<lambda>c. c = 48" "rev s"] by (simp add: last_rev)
  moreover have "hd ?d \<noteq> 48"
  proof -
    have "hd s = hd ?d" by (rule trans [OF arg_cong [OF s, of hd] hd_append2 [OF ne]])
    with assms(3) show ?thesis by metis
  qed
  moreover have "digits_only ?d" using assms(1) s digits_only_simps(3) [of ?d "replicate j 48"] by metis
  ultimately have "sig ?d" unfolding sig_def by simp
  with s show ?thesis by (intro that [OF refl]) simp_all
qed

lemma shortest_exact:
  assumes "shortest x = Some (d, n)" "0 < x"
  shows "sig d \<and> fl (of_nat (nat_of_digits d) * 10 powi (n - int (length d))) = FFin x"
proof -
  obtain k m e where m: "nearest_digits x k = Some (m, e)" "d = rev (dropWhile (\<lambda>c. c = 48) (rev (decimal m)))"
    "n = int (length (decimal m)) + e"
    using assms(1) by (auto simp: shortest_def split: option.splits)
  note e = nearest_digits_exact [OF m(1) assms(2)]
  obtain d' j where j': "rev (dropWhile (\<lambda>c. c = 48) (rev (decimal m))) = d'" "decimal m = d' @ replicate j 48" "sig d'"
    by (rule strip_trailing [of "decimal m"]) (use decimal_head [of m] e in simp_all)
  then have j: "decimal m = d @ replicate j 48" "sig d" using m(2) by simp_all
  have "m = 10 ^ j * nat_of_digits d"
    using nat_of_digits_decimal [of m] unfolding j(1) nat_of_digits_trailing by simp
  moreover have "n - int (length d) = int j + e" using m(3) j(1) by simp
  ultimately have "of_nat (nat_of_digits d) * (10::rat) powi (n - int (length d)) = of_nat m * 10 powi e"
    by (simp add: power_int_add mult.assoc mult.commute)
  with e j(2) show ?thesis by simp
qed


lemma layout_no_sign: "sig d \<Longrightarrow> \<not> starts_with [45] (py_layout d n)" "sig d \<Longrightarrow> \<not> starts_with [45] (assemble_ecmascript d (length d) n)"
  by (cases d; auto simp: sig_def py_layout_def assemble_ecmascript_def Let_def take_Cons' split: if_splits)+

lemma ecmascript_double_eq:
  assumes "shortest \<bar>x\<bar> = Some (d, n)" "x \<noteq> 0"
  shows "ecmascript_double (FFin x) =
           Inr ((if x < 0 then [45] else []) @ assemble_ecmascript d (length d) n)"
proof -
  have d: "sig d" using shortest_exact [OF assms(1)] assms(2) by simp
  from assms layout_no_sign(1) [OF d, of n] show ?thesis
    by (simp add: py_repr_def reformat_ecmascript_def reformat_layout [OF d])
qed

section \<open>Serialization\<close>

lemma ecmascript_double_error: "ecmascript_double f = Inl e \<Longrightarrow> e = JcsError"
  by (cases f) auto

lemma float_of_int_error: "float_of_int n = Inl e \<Longrightarrow> e = PyOverflowError"
  by (auto simp: float_of_int_def split: pyfloat.splits)

lemma float_of_int_finite: "float_of_int n = Inr f \<Longrightarrow> \<exists>x. f = FFin x"
  unfolding float_of_int_def by (cases "fl (of_int n)") auto

lemma number_int_ok: "isOk (number_int n) \<longleftrightarrow> \<bar>n\<bar> < 2 ^ 53 \<or> isOk (float_of_int n)"
proof (cases "float_of_int n")
  case (Inr f)
  then obtain x where "f = FFin x" using float_of_int_finite by blast
  with Inr show ?thesis by (simp add: number_int_def)
qed (auto simp: number_int_def abs_less_iff)

lemma number_int_error: "number_int n = Inl e \<Longrightarrow> e = JcsError"
  by (auto simp: number_int_def result_simps split: if_splits dest: float_of_int_error ecmascript_double_error)

lemma serialize_leaf:
  "dep \<le> JCS_MAX_DEPTH \<Longrightarrow> serialize dep JNull = Inr (lit ''null'')"
  "dep \<le> JCS_MAX_DEPTH \<Longrightarrow> serialize dep (JBool b) = Inr (if b then lit ''true'' else lit ''false'')"
  "dep \<le> JCS_MAX_DEPTH \<Longrightarrow> serialize dep (JStr s) = Inr (escape_string s)"
  "dep \<le> JCS_MAX_DEPTH \<Longrightarrow> serialize dep (JInt n) = number_int n"
  "dep \<le> JCS_MAX_DEPTH \<Longrightarrow> serialize dep (JFloat f) = ecmascript_double f"
  by (simp_all add: serialize.simps)

lemma serialize_list:
  "dep \<le> JCS_MAX_DEPTH \<Longrightarrow> serialize dep (JList vs) =
     bindR (mapR (serialize (Suc dep)) vs) (\<lambda>parts. Inr ([91] @ join_with 44 parts @ [93]))"
  by (simp add: serialize.simps [of dep])

definition serialize_member :: "nat \<Rightarrow> str \<times> json \<Rightarrow> str result" where
  "serialize_member dep kv = bindR (serialize dep (snd kv)) (\<lambda>t. Inr (escape_string (fst kv) @ [58] @ t))"

lemma serialize_obj:
  "dep \<le> JCS_MAX_DEPTH \<Longrightarrow> serialize dep (JObj d) =
     bindR (mapR (serialize_member (Suc dep)) (sort_key (\<lambda>kv. code_units (fst kv)) d))
       (\<lambda>parts. Inr ([123] @ join_with 44 parts @ [125]))"
  by (simp add: serialize.simps [of dep] serialize_member_def [abs_def])

lemma serialize_deep: "JCS_MAX_DEPTH < dep \<Longrightarrow> serialize dep v = Inl JcsError"
  by (simp add: serialize.simps)

lemma serialize_ok: "isOk (serialize dep v) \<longleftrightarrow> dep + height v \<le> JCS_MAX_DEPTH \<and> numbers_ok v"
proof (induction v arbitrary: dep)
  case (JList vs)
  show ?case
  proof (cases "dep \<le> JCS_MAX_DEPTH")
    case True
    then have "isOk (serialize dep (JList vs)) \<longleftrightarrow> (\<forall>v\<in>set vs. isOk (serialize (Suc dep) v))"
      by (simp add: serialize_list isOk_mapR)
    moreover have "dep + height (JList vs) \<le> JCS_MAX_DEPTH \<longleftrightarrow> (\<forall>v\<in>set vs. Suc dep + height v \<le> JCS_MAX_DEPTH)"
      using True by (simp add: le_diff_conv2 [symmetric] add.commute [of dep] fold_max_le) auto
    ultimately show ?thesis using JList by (auto simp: list_all_iff)
  qed (auto simp: serialize_deep)
next
  case (JObj d)
  show ?case
  proof (cases "dep \<le> JCS_MAX_DEPTH")
    case True
    have "isOk (serialize_member (Suc dep) kv) \<longleftrightarrow> isOk (serialize (Suc dep) (snd kv))" for kv
      by (simp add: serialize_member_def)
    with True have "isOk (serialize dep (JObj d)) \<longleftrightarrow> (\<forall>kv\<in>set d. isOk (serialize (Suc dep) (snd kv)))"
      by (simp add: serialize_obj isOk_mapR)
    moreover have "dep + height (JObj d) \<le> JCS_MAX_DEPTH \<longleftrightarrow> (\<forall>kv\<in>set d. Suc dep + height (snd kv) \<le> JCS_MAX_DEPTH)"
      using True by (simp add: le_diff_conv2 [symmetric] add.commute [of dep] fold_max_le) auto
    moreover have "isOk (serialize (Suc dep) (snd kv)) \<longleftrightarrow> Suc dep + height (snd kv) \<le> JCS_MAX_DEPTH \<and> numbers_ok (snd kv)"
      if "kv \<in> set d" for kv using JObj [of kv "snd kv"] that by (cases kv) auto
    ultimately show ?thesis by (auto simp: list_all_iff)
  qed (auto simp: serialize_deep)
next
  case (JInt n)
  then show ?case by (cases "dep \<le> JCS_MAX_DEPTH") (simp_all add: serialize_leaf serialize_deep number_int_ok)
next
  case (JFloat f)
  then show ?case
    by (cases "dep \<le> JCS_MAX_DEPTH"; cases f) (simp_all add: serialize_leaf serialize_deep)
next
  case (JStr s)
  then show ?case by (cases "dep \<le> JCS_MAX_DEPTH") (simp_all add: serialize_leaf serialize_deep)
next
  case (JBool b)
  then show ?case by (cases "dep \<le> JCS_MAX_DEPTH") (simp_all add: serialize_leaf serialize_deep)
next
  case JNull
  then show ?case by (cases "dep \<le> JCS_MAX_DEPTH") (simp_all add: serialize_leaf serialize_deep)
qed


lemma serialize_error: "serialize dep v = Inl e \<Longrightarrow> e = JcsError"
proof (induction dep v arbitrary: e rule: serialize.induct)
  case (1 dep v)
  show ?case
  proof (cases "dep \<le> JCS_MAX_DEPTH")
    case d: True
    then have nd: "\<not> JCS_MAX_DEPTH < dep" by simp
    show ?thesis
    proof (cases v)
      case (JList vs)
      with d 1(3) have "mapR (serialize (Suc dep)) vs = Inl e" by (auto simp: serialize_list result_simps)
      with 1(1) [OF nd JList] show ?thesis by (auto dest!: mapR_Inl)
    next
      case (JObj ms)
      with d 1(3) have "mapR (serialize_member (Suc dep)) (sort_key (\<lambda>kv. code_units (fst kv)) ms) = Inl e"
        by (auto simp: serialize_obj result_simps)
      with 1(2) [OF nd JObj] show ?thesis by (auto simp: serialize_member_def result_simps dest!: mapR_Inl)
    qed (use 1(3) d in \<open>auto simp: serialize_leaf dest: number_int_error ecmascript_double_error\<close>)
  qed (use 1(3) in \<open>simp add: serialize_deep\<close>)
qed

lemma digits_ascii: "digits_only d \<Longrightarrow> text_ok d"
  by (rule ascii_text_ok) (auto simp: digits_only_def list_all_iff)

lemma assemble_ascii: "digits_only d \<Longrightarrow> text_ok (assemble_ecmascript d k n)"
  using digits_only_sub [of d] digits_ascii [of "replicate _ 48"] digits_ascii [OF digits_only_decimal]
  by (auto simp: assemble_ecmascript_def Let_def digits_ascii surrogate_def)

lemma number_text:
  "ecmascript_double f = Inr s \<Longrightarrow> text_ok s" "number_int n = Inr s \<Longrightarrow> text_ok s"
proof -
  have f: "text_ok s" if s: "ecmascript_double f = Inr s" for f s
  proof -
    obtain x where x: "f = FFin x" using s by (cases f) auto
    show ?thesis
    proof (cases "x = 0")
      case True
      with x s show ?thesis by (auto simp: surrogate_def)
    next
      case False
      show ?thesis
      proof (cases "shortest \<bar>x\<bar>")
        case None
        with x s False show ?thesis
          by (simp add: py_repr_def reformat_ecmascript_def reformat_abs_def partition_at_def strip_both_def)
             (auto intro: assemble_ascii)
      next
        case (Some p)
        obtain d n where p: "p = (d, n)" by (cases p)
        with Some False have "digits_only d" using shortest_exact [of "\<bar>x\<bar>" d n] by (simp add: sig_def)
        moreover have "s = (if x < 0 then [45] else []) @ assemble_ecmascript d (length d) n"
          using ecmascript_double_eq [OF Some [unfolded p] False] x s by (simp del: ecmascript_double.simps)
        ultimately show ?thesis by (simp add: assemble_ascii surrogate_def)
      qed
    qed
  qed
  then show "ecmascript_double f = Inr s \<Longrightarrow> text_ok s" by blast
  show "number_int n = Inr s \<Longrightarrow> text_ok s"
    using f by (auto simp: number_int_def int_text_def result_simps digits_ascii surrogate_def split: if_splits)
qed

lemma text_ok_parts: "mapR f xs = Inr parts \<Longrightarrow> (\<And>x t. x \<in> set xs \<Longrightarrow> f x = Inr t \<Longrightarrow> text_ok t \<longleftrightarrow> Q x) \<Longrightarrow>
   list_all text_ok parts \<longleftrightarrow> (\<forall>x\<in>set xs. Q x)"
proof (induction xs arbitrary: parts)
  case (Cons x xs)
  then show ?case by (fastforce simp: result_simps)
qed simp

lemma serialize_text: "serialize dep v = Inr s \<Longrightarrow> text_ok s \<longleftrightarrow> texts_ok v"
proof (induction dep v arbitrary: s rule: serialize.induct)
  case (1 dep v)
  have d: "dep \<le> JCS_MAX_DEPTH" using 1(3) by (rule contrapos_pp) (simp add: serialize_deep)
  then have nd: "\<not> JCS_MAX_DEPTH < dep" by simp
  show ?case
  proof (cases v)
    case (JList vs)
    with d 1(3) obtain parts where p: "mapR (serialize (Suc dep)) vs = Inr parts" "s = [91] @ join_with 44 parts @ [93]"
      by (auto simp: serialize_list result_simps)
    with text_ok_parts [OF p(1), of texts_ok] 1(1) [OF nd JList] JList show ?thesis
      by (auto simp: text_ok_join surrogate_def list_all_iff)
  next
    case (JObj ms)
    let ?ms = "sort_key (\<lambda>kv. code_units (fst kv)) ms"
    from JObj d 1(3) obtain parts where
      p: "mapR (serialize_member (Suc dep)) ?ms = Inr parts" "s = [123] @ join_with 44 parts @ [125]"
      by (auto simp: serialize_obj result_simps)
    have "text_ok t \<longleftrightarrow> text_ok (fst kv) \<and> texts_ok (snd kv)"
      if "kv \<in> set ?ms" "serialize_member (Suc dep) kv = Inr t" for kv t
      using that 1(2) [OF nd JObj, of kv] by (auto simp: serialize_member_def result_simps text_ok_escape surrogate_def)
    from text_ok_parts [OF p(1) this] p(2) JObj show ?thesis
      by (auto simp: text_ok_join surrogate_def list_all_iff)
  qed (use 1(3) d number_text in \<open>auto simp: serialize_leaf text_ok_escape lit_def surrogate_def split: if_splits\<close>)
qed


section \<open>Independence of member order\<close>

lemma list_all2_insort_key:
  "list_all2 R xs ys \<Longrightarrow> R x y \<Longrightarrow> (\<And>a b. R a b \<Longrightarrow> f a = f b) \<Longrightarrow> list_all2 R (insort_key f x xs) (insort_key f y ys)"
  by (induction xs ys rule: list_all2_induct) auto

lemma list_all2_sort_key:
  "list_all2 R xs ys \<Longrightarrow> (\<And>a b. R a b \<Longrightarrow> f a = f b) \<Longrightarrow> list_all2 R (sort_key f xs) (sort_key f ys)"
  by (induction xs ys rule: list_all2_induct) (auto simp: sort_key_def intro: list_all2_insort_key)

lemma sort_members_unique:
  assumes "dict_ok d" "mset d' = mset d" "\<forall>kv\<in>set d. text_ok (fst kv)"
  shows "sort_key (\<lambda>kv. code_units (fst kv)) d' = sort_key (\<lambda>kv. code_units (fst kv)) d"
proof -
  have "inj_on (\<lambda>kv. code_units (fst kv)) (set d)"
  proof (rule inj_onI)
    fix x y assume *: "x \<in> set d" "y \<in> set d" "code_units (fst x) = code_units (fst y)"
    then have "fst x = fst y" using assms(3) code_units_inj by blast
    with * assms(1) show "x = y" by (metis dict_ok_def map_of_is_SomeI option.inject prod.collapse)
  qed
  then show ?thesis
    using assms(1) mset_eq_setD [OF assms(2)] mset_eq_imp_distinct_iff [OF assms(2)]
    by (intro map_sorted_distinct_set_unique [of "\<lambda>kv. code_units (fst kv)"])
       (auto simp: dict_ok_def distinct_map)
qed

definition same_text :: "json \<Rightarrow> json \<Rightarrow> bool" where
  "same_text v w \<longleftrightarrow> (\<forall>dep s. text_ok s \<longrightarrow> (serialize dep v = Inr s \<longleftrightarrow> serialize dep w = Inr s))"

lemma mapR_same:
  assumes "list_all2 (\<lambda>x y. \<forall>t. text_ok t \<longrightarrow> (f x = Inr t \<longleftrightarrow> g y = Inr t)) xs ys" "list_all text_ok parts"
  shows "mapR f xs = Inr parts \<longleftrightarrow> mapR g ys = Inr parts"
  using assms
proof (induction xs ys arbitrary: parts rule: list_all2_induct)
  case (Cons x xs y ys)
  have "mapR f (x # xs) = Inr parts \<longleftrightarrow> (\<exists>t r. parts = t # r \<and> f x = Inr t \<and> mapR f xs = Inr r)"
    "mapR g (y # ys) = Inr parts \<longleftrightarrow> (\<exists>t r. parts = t # r \<and> g y = Inr t \<and> mapR g ys = Inr r)"
    by (auto simp: result_simps)
  with Cons show ?case by (cases parts) auto
qed simp

lemma same_text_list:
  assumes "list_all2 same_text xs ys"
  shows "same_text (JList xs) (JList ys)"
  unfolding same_text_def
proof (intro allI impI)
  fix dep s assume s: "text_ok s"
  show "serialize dep (JList xs) = Inr s \<longleftrightarrow> serialize dep (JList ys) = Inr s"
  proof (cases "dep \<le> JCS_MAX_DEPTH")
    case d: True
    have a: "list_all2 (\<lambda>x y. \<forall>t. text_ok t \<longrightarrow> (serialize (Suc dep) x = Inr t \<longleftrightarrow> serialize (Suc dep) y = Inr t)) xs ys"
      using assms by (rule list_all2_mono) (simp add: same_text_def)
    have "mapR (serialize (Suc dep)) xs = Inr parts \<longleftrightarrow> mapR (serialize (Suc dep)) ys = Inr parts"
      if "s = [91] @ join_with 44 parts @ [93]" for parts
      by (rule mapR_same [OF a]) (use s that in \<open>simp add: text_ok_join\<close>)
    with d show ?thesis by (auto simp: serialize_list result_simps)
  qed (simp add: serialize_deep)
qed

lemma same_text_obj_sorted:
  assumes "list_all2 (\<lambda>x y. fst x = fst y \<and> same_text (snd x) (snd y))
             (sort_key (\<lambda>kv. code_units (fst kv)) d) (sort_key (\<lambda>kv. code_units (fst kv)) e)"
  shows "same_text (JObj d) (JObj e)"
  unfolding same_text_def
proof (intro allI impI)
  fix dep s assume s: "text_ok s"
  show "serialize dep (JObj d) = Inr s \<longleftrightarrow> serialize dep (JObj e) = Inr s"
  proof (cases "dep \<le> JCS_MAX_DEPTH")
    case d: True
    have a: "list_all2 (\<lambda>x y. \<forall>t. text_ok t \<longrightarrow>
        (serialize_member (Suc dep) x = Inr t \<longleftrightarrow> serialize_member (Suc dep) y = Inr t))
      (sort_key (\<lambda>kv. code_units (fst kv)) d) (sort_key (\<lambda>kv. code_units (fst kv)) e)"
      using assms by (rule list_all2_mono) (auto simp: same_text_def serialize_member_def result_simps)
    have "mapR (serialize_member (Suc dep)) (sort_key (\<lambda>kv. code_units (fst kv)) d) = Inr parts \<longleftrightarrow>
        mapR (serialize_member (Suc dep)) (sort_key (\<lambda>kv. code_units (fst kv)) e) = Inr parts"
      if "s = [123] @ join_with 44 parts @ [125]" for parts
      by (rule mapR_same [OF a]) (use s that in \<open>simp add: text_ok_join\<close>)
    with d show ?thesis by (auto simp: serialize_obj result_simps)
  qed (simp add: serialize_deep)
qed

lemma jeq_same_text: "jeq v w \<Longrightarrow> same_text v w"
proof (induction rule: jeq.induct)
  case (jeq_list xs ys)
  then have "list_all2 same_text xs ys" by (auto elim: list_all2_mono)
  then show ?case by (rule same_text_list)
next
  case (jeq_obj d d' e)
  let ?f = "\<lambda>kv. code_units (fst kv)" and ?R = "\<lambda>x y. fst x = fst y \<and> same_text (snd x) (snd y)"
  have R: "list_all2 ?R d' e" using jeq_obj(3) by (rule list_all2_mono) auto
  have sorted: "list_all2 ?R (sort_key ?f d') (sort_key ?f e)" by (rule list_all2_sort_key [OF R]) simp
  show ?case
  proof (cases "\<forall>kv\<in>set d. text_ok (fst kv)")
    case True
    with sorted sort_members_unique [OF jeq_obj(1,2)] show ?thesis by (intro same_text_obj_sorted) simp
  next
    case False
    have keys: "fst ` set e = fst ` set d"
    proof -
      have "map fst d' = map fst e" using R by (induction rule: list_all2_induct) auto
      then show ?thesis using mset_eq_setD [OF jeq_obj(2)] by (metis list.set_map)
    qed
    have "\<not> texts_ok (JObj d)" using False by (auto simp: list_all_iff)
    moreover have "\<not> texts_ok (JObj e)"
    proof
      assume "texts_ok (JObj e)"
      then have "\<forall>k\<in>fst ` set e. text_ok k" by (auto simp: list_all_iff)
      with False keys show False by auto
    qed
    ultimately show ?thesis using serialize_text unfolding same_text_def by blast
  qed
qed (simp add: same_text_def)

lemma canonicalize_Inr: "canonicalize v = Inr b \<longleftrightarrow> (\<exists>s. serialize 0 v = Inr s \<and> utf8_encode s = Inr b)"
  by (auto simp: canonicalize_def result_simps)

lemma canonicalize_error: "canonicalize v = Inl e \<Longrightarrow> e = JcsError"
  by (auto simp: canonicalize_def result_simps utf8_encode_def split: option.splits dest: serialize_error)


lemma canonicalize_ok: "isOk (canonicalize v) \<longleftrightarrow> height v \<le> 100 \<and> numbers_ok v \<and> texts_ok v"
proof -
  have "isOk (canonicalize v) \<longleftrightarrow> (\<exists>s. serialize 0 v = Inr s \<and> text_ok s)"
    unfolding isOk_iff canonicalize_Inr using utf8_encode_ok by (metis isOk_iff)
  also have "\<dots> \<longleftrightarrow> isOk (serialize 0 v) \<and> texts_ok v"
    using serialize_text by (metis isOk_iff)
  finally show ?thesis
    using serialize_ok [of 0 v] by (auto simp: JCS_MAX_DEPTH_def)
qed

section \<open>Properties\<close>

text \<open>The canonical form does not depend on member order, at any depth: two values that are equal as Python values
  (dicts compared by content) canonicalize to the same bytes, or both fail.\<close>

theorem jcs_order_independent:
  assumes "jeq v w"
  shows "canonicalize v = canonicalize w"
proof -
  have same: "text_ok s \<Longrightarrow> serialize 0 v = Inr s \<longleftrightarrow> serialize 0 w = Inr s" for s
    using jeq_same_text [OF assms] by (simp add: same_text_def)
  have iff: "canonicalize v = Inr b \<longleftrightarrow> canonicalize w = Inr b" for b
    unfolding canonicalize_Inr using same utf8_encode_ok by (metis isOk_iff)
  show ?thesis
  proof (cases "canonicalize v")
    case (Inl e)
    then obtain e' where "canonicalize w = Inl e'" using iff by (cases "canonicalize w") auto
    with Inl show ?thesis using canonicalize_error by metis
  qed (use iff in auto)
qed

theorem jcs_order_independent_witness:
  "canonicalize (JObj [([98], JNull), ([97], JInt 7)]) = canonicalize (JObj [([97], JInt 7), ([98], JNull)]) \<and>
   serialize 0 (JObj [([98], JNull), ([97], JInt 7)]) = Inr (lit ''{\"a\":7,\"b\":null}'')"
proof -
  have j: "jeq (JObj [([98], JNull), ([97], JInt 7)]) (JObj [([97], JInt 7), ([98], JNull)])"
    by (rule jeq_obj [of _ "[([97], JInt 7), ([98], JNull)]"]) (auto simp: dict_ok_def intro: jeq_leaf)
  show ?thesis using jcs_order_independent [OF j]
    by (simp add: serialize_obj serialize_leaf serialize_member_def code_units_of_def JCS_MAX_DEPTH_def number_int_def
        int_text_def decimal.simps escape_string_def escape_char_def SHORT_ESCAPE_def lit_def)
qed

text \<open>The exact domain: canonicalization succeeds on a JSON value precisely when no node is more than 100 levels
  below the root, every number is finite and within the double range and no string or name has an unpaired
  surrogate; on every other value it raises \<open>JcsError\<close> and nothing else.\<close>

theorem jcs_domain:
  "(isOk (canonicalize v) \<longleftrightarrow> height v \<le> 100 \<and> numbers_ok v \<and> texts_ok v) \<and>
   (\<forall>e. canonicalize v = Inl e \<longrightarrow> e = JcsError)"
  using canonicalize_ok canonicalize_error by blast

theorem jcs_domain_witness:
  "isOk (canonicalize (JList [JInt 1, JStr [233]])) \<and> canonicalize (JFloat FNaN) = Inl JcsError"
proof -
  have "\<not> isOk (canonicalize (JFloat FNaN))" using jcs_domain [of "JFloat FNaN"] by simp
  then obtain e where "canonicalize (JFloat FNaN) = Inl e" by (cases "canonicalize (JFloat FNaN)") auto
  then have "canonicalize (JFloat FNaN) = Inl JcsError" using jcs_domain [of "JFloat FNaN"] by simp
  moreover have "isOk (canonicalize (JList [JInt 1, JStr [233]]))"
    using jcs_domain [of "JList [JInt 1, JStr [233]]"] by (simp add: surrogate_def)
  ultimately show ?thesis by simp
qed

text \<open>Strings are faithful: an escaped string holds no raw control character and a JSON reader gets back exactly
  the original, whatever follows the closing quote.\<close>

theorem jcs_string_roundtrip:
  "(\<forall>c\<in>set (escape_string s). 32 \<le> c) \<and> hd (escape_string s) = 34 \<and>
   read_body (tl (escape_string s) @ rest) = Some (s, rest)"
  using escape_no_controls [of s] read_body_escape [of s rest] by (simp add: escape_string_def)

theorem jcs_string_roundtrip_witness:
  "escape_string [104, 10, 233] = [34, 104, 92, 110, 233, 34] \<and>
   read_body [104, 92, 110, 233, 34, 1] = Some ([104, 10, 233], [1])"
  using jcs_string_roundtrip [of "[104, 10, 233]" "[1]"]
  by (simp add: escape_string_def escape_char_def SHORT_ESCAPE_def)

text \<open>Numbers are faithful: the code recovers the digits and exponent from Python's layout, prints them in
  ECMAScript's, and the printed text reads back as the same double.\<close>

theorem jcs_number_roundtrip:
  assumes "shortest \<bar>x\<bar> = Some (d, n)" "x \<noteq> 0"
  shows "\<exists>s. ecmascript_double (FFin x) = Inr s \<and>
           s = (if x < 0 then [45] else []) @ assemble_ecmascript d (length d) n \<and> fl (read_number s) = FFin x"
proof -
  note d = shortest_exact [OF assms(1)]
  have pos: "0 < \<bar>x\<bar>" using assms(2) by simp
  let ?v = "of_nat (nat_of_digits d) * (10::rat) powi (n - int (length d))"
  have v: "fl ?v = FFin \<bar>x\<bar>" "sig d" using d [OF pos] by auto
  have "read_number ((if x < 0 then [45] else []) @ assemble_ecmascript d (length d) n) = (if x < 0 then - ?v else ?v)"
    using layout_no_sign(2) [OF v(2), of n] by (simp add: read_number_def read_assemble [OF v(2)])
  moreover have "fl (if x < 0 then - ?v else ?v) = FFin x"
    using v(1) fl_uminus [of ?v] by (auto simp: abs_if)
  ultimately show ?thesis using ecmascript_double_eq [OF assms] by (simp del: ecmascript_double.simps)
qed

theorem jcs_number_roundtrip_witness:
  "\<exists>s. ecmascript_double (FFin (- 5)) = Inr s \<and> s = lit ''-5'' \<and> fl (read_number s) = FFin (- 5)"
proof -
  have five: "fl 5 = FFin 5" "fl 6 = FFin 6" using fl_exact [of 5] fl_exact [of 6] by simp_all
  have "nearest_digits 5 (Suc 0) = Some (5, 0)"
    by (simp add: nearest_digits_def floor_log10_def decimal.simps five Let_def)
  moreover have "[1..<18] = 1 # [2..<18]" by (simp add: upt_conv_Cons)
  ultimately have "shortest \<bar>- 5\<bar> = Some ([53], 1)"
    by (simp add: shortest_def decimal.simps)
  from jcs_number_roundtrip [OF this] show ?thesis
    by (simp add: assemble_ecmascript_def lit_def del: ecmascript_double.simps)
qed

end
