(* ===== verification/Multibase.thy ===== *)
theory Multibase
  imports Codec
begin

text \<open>
  openvc/multibase.py: base58btc and the multicodec varint, with the length bounds that keep the work on an
  attacker-supplied value small, and the unbounded twins of did/did_key.py. \<open>b58_fold\<close>
  and \<open>varint_loop\<close> are the loops the two files share; the parameters are the class they raise
  and, for the varint, the bound.
\<close>

section \<open>Base58btc\<close>

definition B58 :: str where
  "B58 = lit ''123456789ABCDEFGHJKLMNPQRSTUVWXYZabcdefghijkmnopqrstuvwxyz''"

definition MAX_B58_LEN :: nat where
  "MAX_B58_LEN = 4096"

definition MAX_VARINT_BYTES :: nat where
  "MAX_VARINT_BYTES = 9"

text \<open>\<open>_B58_INDEX[ch]\<close>; \<open>None\<close> is the \<open>KeyError\<close>.\<close>

fun position :: "'a \<Rightarrow> 'a list \<Rightarrow> nat option" where
  "position c [] = None"
| "position c (x # xs) = (if x = c then Some 0 else map_option Suc (position c xs))"

fun b58_fold :: "exc \<Rightarrow> nat \<Rightarrow> str \<Rightarrow> nat result" where
  "b58_fold e num [] = Inr num"
| "b58_fold e num (ch # s) =
     (case position ch B58 of None \<Rightarrow> Inl e | Some d \<Rightarrow> b58_fold e (num * 58 + d) s)"

text \<open>\<open>num.to_bytes((num.bit_length() + 7) // 8, "big") if num else b""\<close>\<close>

definition nat_to_bytes :: "nat \<Rightarrow> bytes" where
  "nat_to_bytes num = (if num = 0 then [] else to_bytes ((bit_length num + 7) div 8) num)"

text \<open>\<open>len(s) - len(s.lstrip(c))\<close>\<close>

definition n_leading :: "'a \<Rightarrow> 'a list \<Rightarrow> nat" where
  "n_leading c s = length (takeWhile (\<lambda>x. x = c) s)"

definition b58_bytes :: "exc \<Rightarrow> str \<Rightarrow> bytes result" where
  "b58_bytes e s =
     bindR (b58_fold e 0 s) (\<lambda>num. Inr (replicate (n_leading (hd B58) s) 0 @ nat_to_bytes num))"

definition b58btc_decode :: "str \<Rightarrow> bytes result" where
  "b58btc_decode s =
     (if MAX_B58_LEN < length s then Inl MultibaseError else b58_bytes MultibaseError s)"

text \<open>The \<open>while num > 0\<close> loop collects the digits from the least significant one.\<close>

fun b58_digits :: "nat \<Rightarrow> str" where
  "b58_digits num = (if num = 0 then [] else B58 ! (num mod 58) # b58_digits (num div 58))"

declare b58_digits.simps [simp del]

definition b58btc_encode :: "bytes \<Rightarrow> str" where
  "b58btc_encode data =
     replicate (n_leading 0 data) (hd B58) @ rev (b58_digits (from_bytes data))"

definition decode_multibase :: "str \<Rightarrow> bytes result" where
  "decode_multibase v =
     (if \<not> starts_with (lit ''z'') v then Inl MultibaseError else b58btc_decode (drop 1 v))"

definition encode_multibase :: "bytes \<Rightarrow> str" where
  "encode_multibase data = lit ''z'' @ b58btc_encode data"

section \<open>Varints\<close>

text \<open>\<open>result |= (byte & 0x7F) << shift\<close> is a sum: the bits of \<open>result\<close> lie below \<open>shift\<close>.\<close>

fun varint_loop :: "exc \<Rightarrow> nat option \<Rightarrow> nat \<Rightarrow> nat \<Rightarrow> nat \<Rightarrow> bytes \<Rightarrow> (nat \<times> nat) result" where
  "varint_loop e bound i result shift [] = Inl e"
| "varint_loop e bound i result shift (byte # data) =
     (if (case bound of None \<Rightarrow> False | Some m \<Rightarrow> m \<le> i) then Inl e
      else let result' = result + unat byte mod 128 * 2 ^ shift
           in if unat byte < 128 then Inr (result', i + 1)
              else varint_loop e bound (i + 1) result' (shift + 7) data)"

definition read_varint :: "bytes \<Rightarrow> (nat \<times> nat) result" where
  "read_varint data = varint_loop MultibaseError (Some MAX_VARINT_BYTES) 0 0 0 data"

definition did_key_b58decode :: "str \<Rightarrow> bytes result" where
  "did_key_b58decode s = b58_bytes DidResolutionError s"

definition did_key_read_varint :: "bytes \<Rightarrow> (nat \<times> nat) result" where
  "did_key_read_varint data = varint_loop DidResolutionError None 0 0 0 data"

section \<open>Lemmas: base 58\<close>

lemma B58_facts: "length B58 = 58" "distinct B58" "hd B58 = 49" "B58 ! 0 = 49"
  by (simp_all add: B58_def lit_def of_char_def)

lemma position_nth: "distinct xs \<Longrightarrow> i < length xs \<Longrightarrow> position (xs ! i) xs = Some i"
proof (induction xs arbitrary: i)
  case (Cons x xs)
  then show ?case by (cases i) auto
qed simp

lemma position_Some: "position c xs = Some i \<Longrightarrow> i < length xs \<and> xs ! i = c"
  by (induction xs arbitrary: i) (auto split: if_splits)

lemma position_B58: "i < 58 \<Longrightarrow> position (B58 ! i) B58 = Some i"
  using B58_facts by (intro position_nth) auto

lemma b58_fold_append:
  "b58_fold e num (a @ b) = bindR (b58_fold e num a) (\<lambda>n. b58_fold e n b)"
  by (induction e num a rule: b58_fold.induct) (auto split: option.splits)

lemma b58_fold_digits: "b58_fold e 0 (rev (b58_digits n)) = Inr n"
proof (induction n rule: b58_digits.induct)
  case (1 n)
  then show ?case
    by (cases "n = 0") (simp_all add: b58_digits.simps [of n] b58_fold_append position_B58 b58_digits.simps [of 0])
qed

lemma b58_fold_ones: "b58_fold e 0 (replicate k 49 @ s) = b58_fold e 0 s"
  using position_B58 [of 0] by (induction k) (auto simp: B58_facts)

lemma digits_head: "0 < n \<Longrightarrow> last (b58_digits n) \<noteq> 49 \<and> b58_digits n \<noteq> []"
proof (induction n rule: b58_digits.induct)
  case (1 n)
  show ?case
  proof (cases "n div 58 = 0")
    case True
    with 1 have "n < 58" "0 < n" by auto
    moreover from this have "B58 ! n \<noteq> 49"
      using B58_facts nth_eq_iff_index_eq [of B58 n 0] by auto
    ultimately show ?thesis by (simp add: b58_digits.simps [of n] b58_digits.simps [of 0])
  next
    case False
    with 1 show ?thesis by (simp add: b58_digits.simps [of n])
  qed
qed

lemma n_leading_replicate: "(s = [] \<or> hd s \<noteq> c) \<Longrightarrow> n_leading c (replicate k c @ s) = k"
  by (induction k) (auto simp: n_leading_def takeWhile_eq_Nil_iff)

lemma n_leading_split:
  obtains r where "s = replicate (n_leading c s) c @ r" "r = [] \<or> hd r \<noteq> c"
proof -
  have "\<exists>r. s = replicate (n_leading c s) c @ r \<and> (r = [] \<or> hd r \<noteq> c)"
    by (induction s) (auto simp: n_leading_def)
  then show ?thesis using that by blast
qed

lemma from_bytes_zeros: "from_bytes (replicate k 0 @ b) = from_bytes b"
  by (induction k) (auto simp: from_bytes_def)

lemma from_bytes_Cons: "from_bytes (b # bs) = unat b * 256 ^ length bs + from_bytes bs"
  by (induction bs rule: rev_induct) (simp_all add: algebra_simps flip: append_Cons, simp add: from_bytes_def)

lemma bit_length_bytes:
  assumes "256 ^ k \<le> n" "n < 256 ^ Suc k"
  shows "(bit_length n + 7) div 8 = Suc k"
proof -
  let ?l = "bit_length n"
  have pos: "0 < n" using assms(1) by (rule less_le_trans [rotated]) simp
  have p: "(256::nat) ^ m = 2 ^ (8 * m)" for m by (simp add: power_mult)
  have "(2::nat) ^ (8 * k) < 2 ^ ?l" using assms(1) bit_length_bound [of n] unfolding p by linarith
  then have lo: "8 * k < ?l" by simp
  have "(2::nat) ^ (?l - 1) < 2 ^ (8 * Suc k)"
    using assms(2) bit_length_lower [OF pos] unfolding p by linarith
  then have "?l - 1 < 8 * Suc k" by (simp only: power_strict_increasing_iff one_less_numeral_iff semiring_norm(76))
  with lo show ?thesis by (intro div_nat_eqI) auto
qed

lemma bit_length_le_bytes: "n \<noteq> 0 \<Longrightarrow> n < 256 ^ k \<Longrightarrow> (bit_length n + 7) div 8 \<le> k"
proof -
  assume "n \<noteq> 0" "n < 256 ^ k"
  then have "(2::nat) ^ (bit_length n - 1) < 2 ^ (8 * k)"
    using bit_length_lower [of n] by (simp add: power_mult)
  then have "bit_length n - 1 < 8 * k" by (simp only: power_strict_increasing_iff one_less_numeral_iff semiring_norm(76))
  then show ?thesis by linarith
qed

lemma nat_to_bytes_from_bytes:
  assumes "b = [] \<or> hd b \<noteq> 0"
  shows "nat_to_bytes (from_bytes b) = b"
proof (cases b)
  case (Cons x r)
  then have "1 \<le> unat x" using assms by (simp add: unat_eq_0 Suc_le_eq unat_gt_0)
  then have "1 * 256 ^ length r \<le> from_bytes b"
    unfolding Cons from_bytes_Cons by (meson mult_le_mono1 trans_le_add1)
  then have ge: "256 ^ length r \<le> from_bytes b" by simp
  have "from_bytes b < 256 ^ Suc (length r)" using from_bytes_less [of b] Cons by simp
  from bit_length_bytes [OF ge this] have "(bit_length (from_bytes b) + 7) div 8 = length b"
    using Cons by simp
  moreover have "from_bytes b \<noteq> 0" using ge by (metis not_less power_eq_0_iff zero_neq_numeral le_zero_eq)
  ultimately show ?thesis by (simp add: nat_to_bytes_def to_from_bytes)
qed (simp add: nat_to_bytes_def)

lemma b58_bytes_encode: "b58_bytes e (b58btc_encode data) = Inr data"
proof -
  obtain r where r: "data = replicate (n_leading 0 data) 0 @ r" "r = [] \<or> hd r \<noteq> 0"
    by (rule n_leading_split)
  let ?k = "n_leading 0 data"
  have num: "from_bytes data = from_bytes r" by (subst r(1)) (rule from_bytes_zeros)
  have fold: "b58_fold e 0 (b58btc_encode data) = Inr (from_bytes r)"
    by (simp add: b58btc_encode_def num b58_fold_ones b58_fold_digits B58_facts)
  have "rev (b58_digits (from_bytes r)) = [] \<or> hd (rev (b58_digits (from_bytes r))) \<noteq> 49"
    using digits_head [of "from_bytes r"] by (cases "from_bytes r = 0") (auto simp: hd_rev b58_digits.simps [of 0])
  then have "n_leading 49 (b58btc_encode data) = ?k"
    unfolding b58btc_encode_def num B58_facts by (rule n_leading_replicate)
  with fold have "b58_bytes e (b58btc_encode data) = Inr (replicate ?k 0 @ nat_to_bytes (from_bytes r))"
    by (simp add: b58_bytes_def B58_facts)
  then show ?thesis unfolding nat_to_bytes_from_bytes [OF r(2)] r(1) [symmetric] .
qed


lemma b58_fold_error: "b58_fold e num s = Inl x \<Longrightarrow> x = e"
  by (induction e num s rule: b58_fold.induct) (auto split: option.splits)

lemma b58_fold_canonical:
  "b58_fold e 0 r = Inr n \<Longrightarrow> r \<noteq> [] \<Longrightarrow> hd r \<noteq> 49 \<Longrightarrow> 0 < n \<and> rev (b58_digits n) = r"
proof (induction r arbitrary: n rule: rev_induct)
  case (snoc c r)
  then obtain m d where m: "b58_fold e 0 r = Inr m" "position c B58 = Some d" "n = m * 58 + d"
    by (auto simp: b58_fold_append result_simps split: option.splits)
  note d = position_Some [OF m(2), unfolded B58_facts]
  show ?case
  proof (cases "r = []")
    case True
    then have "m = 0" using m by simp
    moreover have "d \<noteq> 0" using snoc.prems True d B58_facts by (metis append_Nil list.sel(1))
    ultimately show ?thesis using True m d by (simp add: b58_digits.simps [of d] b58_digits.simps [of 0])
  next
    case False
    with snoc m have "0 < m" "rev (b58_digits m) = r" by auto
    with m d show ?thesis by (simp add: b58_digits.simps [of "m * 58 + d"])
  qed
qed simp

lemma from_bytes_nat_to_bytes: "from_bytes (nat_to_bytes n) = n"
proof (cases "n = 0")
  case False
  let ?k = "(bit_length n + 7) div 8"
  have le: "bit_length n \<le> 8 * ?k" by linarith
  have "n < 2 ^ bit_length n" by (rule bit_length_bound)
  also have "(2::nat) ^ bit_length n \<le> 2 ^ (8 * ?k)" using le by (intro power_increasing) auto
  also have "(2::nat) ^ (8 * ?k) = 256 ^ ?k" by (simp add: power_mult)
  finally have "n < 256 ^ ?k" .
  with False show ?thesis by (simp add: nat_to_bytes_def from_to_bytes)
qed (simp add: nat_to_bytes_def)

lemma nat_to_bytes_head: "nat_to_bytes n = [] \<or> hd (nat_to_bytes n) \<noteq> 0"
proof (rule ccontr)
  assume *: "\<not> ?thesis"
  obtain r where r: "nat_to_bytes n = 0 # r" using * by (cases "nat_to_bytes n") auto
  have "n < 256 ^ length r"
    using from_bytes_nat_to_bytes [of n] from_bytes_less [of r] by (simp add: r from_bytes_Cons)
  moreover have "n \<noteq> 0" using r by (auto simp: nat_to_bytes_def split: if_splits)
  ultimately have "(bit_length n + 7) div 8 \<le> length r"
    by (metis bit_length_le_bytes)
  moreover have "length (nat_to_bytes n) = (bit_length n + 7) div 8" using \<open>n \<noteq> 0\<close> by (simp add: nat_to_bytes_def)
  ultimately show False by (simp add: r)
qed

lemma b58_encode_bytes:
  assumes "b58_bytes e s = Inr b"
  shows "b58btc_encode b = s"
proof -
  obtain r where r: "s = replicate (n_leading 49 s) 49 @ r" "r = [] \<or> hd r \<noteq> 49"
    by (rule n_leading_split)
  let ?k = "n_leading 49 s"
  obtain n where n: "b58_fold e 0 s = Inr n" "b = replicate ?k 0 @ nat_to_bytes n"
    using assms by (auto simp: b58_bytes_def result_simps B58_facts)
  have "b58_fold e 0 r = Inr n" using n(1) by (subst (asm) r(1)) (simp add: b58_fold_ones)
  then have "rev (b58_digits n) = r"
    using b58_fold_canonical r(2) by (cases "r = []") (auto simp: b58_digits.simps [of 0])
  moreover have "n_leading 0 b = ?k" unfolding n(2) using nat_to_bytes_head by (rule n_leading_replicate)
  moreover have "from_bytes b = n" by (simp add: n(2) from_bytes_zeros from_bytes_nat_to_bytes)
  ultimately show ?thesis using r(1) by (simp add: b58btc_encode_def B58_facts)
qed

section \<open>Lemmas: varints\<close>

text \<open>The LEB128 form of a number, the specification of \<open>read_varint\<close>.\<close>

fun leb128 :: "nat \<Rightarrow> bytes" where
  "leb128 n = (if n < 128 then [of_nat n] else of_nat (128 + n mod 128) # leb128 (n div 128))"

declare leb128.simps [simp del]

lemma varint_loop_leb128:
  "varint_loop e bound i res shift (leb128 n @ rest) =
     (if (case bound of None \<Rightarrow> True | Some m \<Rightarrow> i + length (leb128 n) \<le> m)
      then Inr (res + n * 2 ^ shift, i + length (leb128 n)) else Inl e)"
proof (induction n arbitrary: i res shift rule: leb128.induct)
  case (1 n)
  show ?case
  proof (cases "n < 128")
    case True
    then show ?thesis by (auto simp: leb128.simps [of n] Let_def split: option.splits)
  next
    case False
    have b: "unat (of_nat (128 + n mod 128) :: byte) = 128 + n mod 128" by (rule unat_byte) (use mod_less_divisor [of 128 n] in linarith)
    have v: "res + n mod 128 * 2 ^ shift + n div 128 * 2 ^ (shift + 7) = res + n * 2 ^ shift"
      by (simp add: power_add algebra_simps flip: distrib_right) (metis add.commute distrib_left mod_mult_div_eq mult.assoc mult.commute)
    have "1 \<le> length (leb128 (n div 128))" by (subst leb128.simps) simp
    then show ?thesis
      using 1 [OF False, of "Suc i" "res + n mod 128 * 2 ^ shift" "shift + 7"] False b v
      by (auto simp: leb128.simps [of n] Let_def split: option.splits)
  qed
qed

lemma length_leb128: "length (leb128 n) \<le> Suc k \<longleftrightarrow> n < 128 ^ Suc k"
proof (induction k arbitrary: n)
  case 0
  then show ?case by (subst leb128.simps) (auto simp: leb128.simps [of "n div 128"])
next
  case (Suc k)
  have "n < 128 ^ Suc (Suc k) \<longleftrightarrow> n div 128 < 128 ^ Suc k"
    by (simp add: div_less_iff_less_mult mult.commute)
  moreover have "(128::nat) \<le> 128 ^ Suc (Suc k)" by simp
  ultimately show ?case using Suc [of "n div 128"] by (auto simp: leb128.simps [of n])
qed


section \<open>Properties\<close>

text \<open>Multibase round trip: a byte string survives \<open>encode_multibase\<close> and \<open>decode_multibase\<close>, leading zero bytes
  included, unless its text exceeds the 4096-character cap, which is refused.\<close>

theorem multibase_roundtrip:
  "decode_multibase (encode_multibase data) =
     (if length (b58btc_encode data) \<le> MAX_B58_LEN then Inr data else Inl MultibaseError)"
  by (simp add: decode_multibase_def encode_multibase_def lit_def b58btc_decode_def b58_bytes_encode)

text \<open>Base58 has one spelling per byte string: a multibase value that decodes is exactly the encoding of what it
  decodes to.\<close>

theorem multibase_canonical:
  assumes "decode_multibase s = Inr data"
  shows "encode_multibase data = s"
  using assms b58_encode_bytes
  by (auto simp: decode_multibase_def encode_multibase_def b58btc_decode_def starts_with_iff lit_def split: if_splits)

theorem multibase_canonical_witness:
  "decode_multibase (lit ''z118'') = Inr [0, 0, 7] \<and> encode_multibase [0, 0, 7] = lit ''z118''"
proof -
  have b: "to_bytes ((bit_length 7 + 7) div 8) 7 = [7]" by (simp add: bit_length.simps)
  have seven: "Suc (Suc (Suc (Suc (Suc (Suc (Suc 0)))))) = 7" by simp
  have d: "decode_multibase (lit ''z118'') = Inr [0, 0, 7]"
    by (simp add: decode_multibase_def b58btc_decode_def b58_bytes_def MAX_B58_LEN_def lit_def B58_def of_char_def
        n_leading_def nat_to_bytes_def)
       (simp only: seven b)
  from multibase_canonical [OF d] d show ?thesis by simp
qed

text \<open>The varint reader accepts exactly the numbers below \<open>2\<^sup>63\<close> written in LEB128, whatever follows them, and
  reports how many bytes it used; the copy in did:key has no bound and reads every number.\<close>

theorem varint_exact:
  "read_varint (leb128 n @ rest) = (if n < 2 ^ 63 then Inr (n, length (leb128 n)) else Inl MultibaseError) \<and>
   did_key_read_varint (leb128 n @ rest) = Inr (n, length (leb128 n))"
proof -
  have "length (leb128 n) \<le> 9 \<longleftrightarrow> n < 2 ^ 63" using length_leb128 [of n 8] by simp
  then show ?thesis
    by (simp add: read_varint_def did_key_read_varint_def varint_loop_leb128 MAX_VARINT_BYTES_def)
qed

end
