(* ===== verification/Did_Document.thy ===== *)
theory Did_Document
  imports Json Multibase
begin

text \<open>
  openvc/did/base.py: the DID document model, the two key lookups (the lenient one of the JOSE lanes and the
  exact, purpose-bound one of Data Integrity), the shared document parser and the resolver registry.
  \<open>ec_point curve key\<close> stands for the \<open>cryptography\<close> package's \<open>from_encoded_point\<close>: the coordinates of a
  point on the named curve, or \<open>ValueError\<close>. A \<open>kid\<close> or purpose is a JSON value, since the code checks its type.
\<close>

section \<open>Model\<close>

record verification_method =
  vm_id :: str
  vm_type :: str
  vm_controller :: str
  vm_jwk :: jobj

record did_document =
  dd_id :: str
  dd_methods :: "verification_method list"
  dd_raw :: jobj
  dd_relationships :: "(str \<times> str list) list"

definition RELATIONSHIP_KEYS :: "str list" where
  "RELATIONSHIP_KEYS = [lit ''assertionMethod'', lit ''authentication'', lit ''keyAgreement'',
                        lit ''capabilityInvocation'', lit ''capabilityDelegation'']"

text \<open>\<open>s.split("#", 1)[-1]\<close>\<close>

definition fragment :: "str \<Rightarrow> str" where
  "fragment s = (if 35 \<in> set s then tl (dropWhile (\<lambda>c. c \<noteq> 35) s) else s)"

definition vm_kid :: "verification_method \<Rightarrow> str" where
  "vm_kid vm = fragment (vm_id vm)"

fun key_by_kid :: "did_document \<Rightarrow> json \<Rightarrow> verification_method option" where
  "key_by_kid doc JNull = (case dd_methods doc of [vm] \<Rightarrow> Some vm | _ \<Rightarrow> None)"
| "key_by_kid doc (JStr kid) =
     List.find (\<lambda>vm. vm_id vm = kid \<or> vm_kid vm = fragment kid) (dd_methods doc)"
| "key_by_kid doc v = None"

subsection \<open>DID syntax\<close>

definition lower_digit :: "nat \<Rightarrow> bool" where
  "lower_digit c = (97 \<le> c \<and> c \<le> 122 \<or> 48 \<le> c \<and> c \<le> 57)"

definition id_char :: "nat \<Rightarrow> bool" where
  "id_char c = (65 \<le> c \<and> c \<le> 90 \<or> 97 \<le> c \<and> c \<le> 122 \<or> 48 \<le> c \<and> c \<le> 57 \<or> c \<in> {46, 95, 45})"

definition is_hex :: "nat \<Rightarrow> bool" where
  "is_hex c = (48 \<le> c \<and> c \<le> 57 \<or> 65 \<le> c \<and> c \<le> 70 \<or> 97 \<le> c \<and> c \<le> 102)"

text \<open>\<open>(?:[A-Za-z0-9._-]|%[0-9A-Fa-f]{2})*\<close>\<close>

fun id_segment :: "str \<Rightarrow> bool" where
  "id_segment [] = True"
| "id_segment (c # r) =
     (if c = 37 then (case r of a # b # r' \<Rightarrow> is_hex a \<and> is_hex b \<and> id_segment r' | _ \<Rightarrow> False)
      else id_char c \<and> id_segment r)"

text \<open>\<open>_DID_SYNTAX.fullmatch\<close>: the first colon after \<open>did:\<close> ends the method name, the others separate segments.\<close>

definition is_did :: "str \<Rightarrow> bool" where
  "is_did s =
     (case split_on 58 s of
        scheme # meth # segs \<Rightarrow>
          scheme = lit ''did'' \<and> meth \<noteq> [] \<and> list_all lower_digit meth \<and>
          segs \<noteq> [] \<and> list_all id_segment segs \<and> last segs \<noteq> []
      | _ \<Rightarrow> False)"

definition doc_base :: "did_document \<Rightarrow> str option" where
  "doc_base doc = (if is_did (dd_id doc) then Some (dd_id doc) else None)"

definition absolute :: "str option \<Rightarrow> str \<Rightarrow> str option" where
  "absolute base url =
     (if starts_with (lit ''did:'') url then Some url
      else if starts_with [35] url then map_option (\<lambda>b. b @ url) base
      else None)"

definition spellings :: "str option \<Rightarrow> str option \<Rightarrow> str list" where
  "spellings base target =
     (case target of
        None \<Rightarrow> []
      | Some a \<Rightarrow>
          (if \<not> starts_with (lit ''did:'') a then []
           else (case base of
                   None \<Rightarrow> [a]
                 | Some b \<Rightarrow>
                     (if starts_with b a \<and> starts_with [35] (drop (length b) a)
                      then [a, drop (length b) a] else [a]))))"

definition methods_with_id :: "did_document \<Rightarrow> str option \<Rightarrow> str option \<Rightarrow> verification_method list" where
  "methods_with_id doc kid base =
     (let sp = spellings base kid in filter (\<lambda>vm. vm_id vm \<in> set sp) (dd_methods doc))"

text \<open>A \<open>kid\<close> that is neither \<open>None\<close> nor a string has no spelling.\<close>

fun text_opt :: "json \<Rightarrow> str option" where
  "text_opt (JStr s) = Some s"
| "text_opt _ = None"

definition select_method :: "did_document \<Rightarrow> json \<Rightarrow> str option \<Rightarrow> verification_method option" where
  "select_method doc kid base =
     (if kid = JNull then key_by_kid doc JNull
      else case methods_with_id doc (text_opt kid) base of [vm] \<Rightarrow> Some vm | _ \<Rightarrow> None)"

definition key_for_purpose :: "did_document \<Rightarrow> json \<Rightarrow> json \<Rightarrow> verification_method option" where
  "key_for_purpose doc kid proof_purpose =
     (case proof_purpose of
        JStr purpose \<Rightarrow>
          (let base = doc_base doc
           in case select_method doc kid base of
                None \<Rightarrow> None
              | Some vm \<Rightarrow>
                  (case map_of (dd_relationships doc) purpose of
                     None \<Rightarrow> Some vm
                   | Some refs \<Rightarrow>
                       (let sp = spellings base (absolute base (vm_id vm))
                        in if list_ex (\<lambda>ref. ref \<in> set sp) refs then Some vm else None)))
      | _ \<Rightarrow> None)"

section \<open>The parser\<close>

fun array_of :: "json \<Rightarrow> json list result" where
  "array_of (JList xs) = Inr xs"
| "array_of v = Inl DidResolutionError"

definition get_array :: "jobj \<Rightarrow> str \<Rightarrow> json list result" where
  "get_array doc key = array_of (case map_of doc key of None \<Rightarrow> JList [] | Some v \<Rightarrow> v)"

fun ref_of :: "json \<Rightarrow> str list" where
  "ref_of (JStr s) = [s]"
| "ref_of (JObj d) = (case jget (lit ''id'') d of JStr s \<Rightarrow> [s] | _ \<Rightarrow> [])"
| "ref_of _ = []"

definition relationship_refs :: "jobj \<Rightarrow> str \<Rightarrow> str list result" where
  "relationship_refs doc key = bindR (get_array doc key) (\<lambda>items. Inr (concat (map ref_of items)))"

fun did_text :: "json \<Rightarrow> str" where
  "did_text (JStr s) = s"
| "did_text _ = []"

definition MC_ED25519 :: nat where "MC_ED25519 = 237"

definition MC_P256 :: nat where "MC_P256 = 4608"

definition MC_P384 :: nat where "MC_P384 = 4609"

definition okp_jwk :: "bytes \<Rightarrow> jobj" where
  "okp_jwk key = [(lit ''kty'', JStr (lit ''OKP'')), (lit ''crv'', JStr (lit ''Ed25519'')),
                  (lit ''x'', JStr (b64url_encode key))]"

definition ec_jwk :: "str \<Rightarrow> nat \<Rightarrow> nat \<times> nat \<Rightarrow> jobj" where
  "ec_jwk crv sz xy =
     [(lit ''kty'', JStr (lit ''EC'')), (lit ''crv'', JStr crv),
      (lit ''x'', JStr (b64url_encode (to_bytes sz (fst xy)))),
      (lit ''y'', JStr (b64url_encode (to_bytes sz (snd xy))))]"

text \<open>What the code relies on: a bytes value that is no point of the curve raises \<open>ValueError\<close>.\<close>

definition point_decoder :: "(str \<Rightarrow> bytes \<Rightarrow> (nat \<times> nat) result) \<Rightarrow> bool" where
  "point_decoder ec_point \<longleftrightarrow> (\<forall>c k e. ec_point c k = Inl e \<longrightarrow> e = PyValueError)"

definition multikey_to_jwk :: "(str \<Rightarrow> bytes \<Rightarrow> (nat \<times> nat) result) \<Rightarrow> str \<Rightarrow> jobj result" where
  "multikey_to_jwk ec_point multibase_key =
     bindR (decode_multibase multibase_key) (\<lambda>raw.
     bindR (read_varint raw) (\<lambda>(code, off).
       let key = drop off raw
       in if code = MC_ED25519 then
            (if length key \<noteq> 32 then Inl PyValueError else Inr (okp_jwk key))
          else if code = MC_P256 \<or> code = MC_P384 then
            (let (crv, sz) = (if code = MC_P256 then (lit ''P-256'', 32) else (lit ''P-384'', 48))
             in bindR (ec_point crv key) (\<lambda>xy. Inr (ec_jwk crv sz xy)))
          else Inl PyValueError))"

text \<open>\<open>None\<close> is a skipped method; an exception the code does not catch propagates.\<close>

definition vm_public_jwk :: "(str \<Rightarrow> bytes \<Rightarrow> (nat \<times> nat) result) \<Rightarrow> jobj \<Rightarrow> jobj option result" where
  "vm_public_jwk ec_point vm =
     (case jget (lit ''publicKeyJwk'') vm of
        JObj jwk \<Rightarrow> Inr (Some jwk)
      | _ \<Rightarrow>
          (case jget (lit ''publicKeyMultibase'') vm of
             JStr mb \<Rightarrow>
               (case multikey_to_jwk ec_point mb of
                  Inr jwk \<Rightarrow> Inr (Some jwk)
                | Inl e \<Rightarrow> if e \<in> {MultibaseError, PyValueError, PyTypeError} then Inr None else Inl e)
           | _ \<Rightarrow> Inr None))"

definition parse_method ::
    "(str \<Rightarrow> bytes \<Rightarrow> (nat \<times> nat) result) \<Rightarrow> str \<Rightarrow> json \<Rightarrow> verification_method list result" where
  "parse_method ec_point doc_id v =
     (case v of
        JObj vm \<Rightarrow>
          (case jget (lit ''id'') vm of
             JStr i \<Rightarrow>
               bindR (vm_public_jwk ec_point vm) (\<lambda>mj.
                 case mj of
                   None \<Rightarrow> Inr []
                 | Some jwk \<Rightarrow>
                     Inr [\<lparr>vm_id = i, vm_type = did_text (jget (lit ''type'') vm),
                           vm_controller = (case map_of vm (lit ''controller'') of
                                              None \<Rightarrow> doc_id | Some c \<Rightarrow> did_text c),
                           vm_jwk = jwk\<rparr>])
           | _ \<Rightarrow> Inr [])
      | _ \<Rightarrow> Inr [])"

text \<open>The object to read: the value itself, or its \<open>didDocument\<close> member when it has one.\<close>

definition document_body :: "json \<Rightarrow> jobj result" where
  "document_body v =
     (case v of
        JObj raw \<Rightarrow>
          (if nesting_exceeds v MAX_DEPTH then Inl DidResolutionError
           else (case (case map_of raw (lit ''didDocument'') of None \<Rightarrow> v | Some w \<Rightarrow> w) of
                   JObj doc \<Rightarrow> Inr doc
                 | _ \<Rightarrow> Inl DidResolutionError))
      | _ \<Rightarrow> Inl DidResolutionError)"

definition parse_did_document ::
    "(str \<Rightarrow> bytes \<Rightarrow> (nat \<times> nat) result) \<Rightarrow> json \<Rightarrow> did_document result" where
  "parse_did_document ec_point v =
     bindR (document_body v) (\<lambda>doc.
       let doc_id = did_text (jget (lit ''id'') doc)
       in bindR (get_array doc (lit ''verificationMethod'')) (\<lambda>entries.
          bindR (mapR (parse_method ec_point doc_id) entries) (\<lambda>vmss.
          bindR (mapR (\<lambda>key. bindR (relationship_refs doc key) (\<lambda>refs. Inr (key, refs)))
                   (filter (\<lambda>key. has_key key doc) RELATIONSHIP_KEYS)) (\<lambda>rels.
            Inr \<lparr>dd_id = doc_id, dd_methods = concat vmss, dd_raw = doc, dd_relationships = rels\<rparr>))))"

section \<open>The registry\<close>

record resolver =
  supports :: "str \<Rightarrow> bool"
  resolve_did :: "str \<Rightarrow> did_document result"

definition register :: "resolver list \<Rightarrow> resolver \<Rightarrow> resolver list" where
  "register rs r = rs @ [r]"

fun registry_resolve :: "resolver list \<Rightarrow> str \<Rightarrow> did_document result" where
  "registry_resolve [] did = Inl UnsupportedDidMethod"
| "registry_resolve (r # rs) did = (if supports r did then resolve_did r did else registry_resolve rs did)"

section \<open>Lemmas: identifiers\<close>

lemma spellings_iff: "s \<in> set (spellings base (Some a)) \<longleftrightarrow> absolute base s = Some a"
  if b: "\<forall>b. base = Some b \<longrightarrow> starts_with (lit ''did:'') b"
proof -
  have head: "starts_with (lit ''did:'') x \<Longrightarrow> \<not> starts_with [35] x" for x
    by (auto simp: starts_with_iff lit_def)
  have app: "starts_with (lit ''did:'') b \<Longrightarrow> starts_with (lit ''did:'') (b @ x)" for b x
    by (auto simp: starts_with_iff)
  show ?thesis
    using b head app
    by (cases base) (auto simp: spellings_def absolute_def starts_with_iff split: if_splits)
qed

lemma is_did_prefix: "is_did s \<Longrightarrow> starts_with (lit ''did:'') s"
proof -
  assume "is_did s"
  then obtain m segs where p: "split_on 58 s = lit ''did'' # m # segs"
    by (auto simp: is_did_def split: list.splits)
  have "s = join_with 58 (lit ''did'' # m # segs)" using join_split_on [of 58 s] p by simp
  then have "s = lit ''did:'' @ join_with 58 (m # segs)" by (simp add: lit_def)
  then show ?thesis by (auto simp: starts_with_iff)
qed

lemma doc_base_did: "doc_base doc = Some b \<Longrightarrow> starts_with (lit ''did:'') b"
  by (auto simp: doc_base_def is_did_prefix split: if_splits)

lemma spellings_doc: "s \<in> set (spellings (doc_base doc) (Some a)) \<longleftrightarrow> absolute (doc_base doc) s = Some a"
  by (rule spellings_iff) (auto intro: doc_base_did)


lemma methods_with_id_exact:
  "methods_with_id doc (Some a) (doc_base doc) =
     filter (\<lambda>vm. absolute (doc_base doc) (vm_id vm) = Some a) (dd_methods doc)"
  by (simp add: methods_with_id_def Let_def spellings_doc)

lemma select_method_exact:
  "select_method doc (JStr kid) (doc_base doc) = Some vm \<longleftrightarrow>
     filter (\<lambda>vm. absolute (doc_base doc) (vm_id vm) = Some kid) (dd_methods doc) = [vm]"
  by (auto simp: select_method_def methods_with_id_exact split: list.splits)

section \<open>Lemmas: the parser\<close>

lemma array_of_Inr: "array_of v = Inr xs \<longleftrightarrow> v = JList xs"
  by (cases v) auto

lemma array_of_error: "array_of v = Inl e \<Longrightarrow> e = DidResolutionError"
  by (cases v) auto

lemma relationship_refs_Inr:
  "relationship_refs doc key = Inr refs \<longleftrightarrow>
     (\<exists>xs. (case map_of doc key of None \<Rightarrow> JList [] | Some v \<Rightarrow> v) = JList xs \<and> refs = concat (map ref_of xs))"
  by (auto simp: relationship_refs_def get_array_def result_simps array_of_Inr)

lemma relationships_of:
  assumes "mapR (\<lambda>key. bindR (relationship_refs doc key) (\<lambda>refs. Inr (key, refs))) keys = Inr rels"
  shows "map_of rels key = (if key \<in> set keys then (case relationship_refs doc key of Inr refs \<Rightarrow> Some refs | _ \<Rightarrow> None) else None)"
  using assms
proof (induction keys arbitrary: rels)
  case (Cons k keys)
  then obtain refs rels' where "relationship_refs doc k = Inr refs" "rels = (k, refs) # rels'"
    "mapR (\<lambda>key. bindR (relationship_refs doc key) (\<lambda>refs. Inr (key, refs))) keys = Inr rels'"
    by (auto simp: result_simps)
  with Cons.IH show ?case by auto
qed simp

lemma relationships_ok:
  assumes "mapR (\<lambda>key. bindR (relationship_refs doc key) (\<lambda>refs. Inr (key, refs))) keys = Inr rels" "key \<in> set keys"
  shows "\<exists>refs. relationship_refs doc key = Inr refs"
  using assms
proof (induction keys arbitrary: rels)
  case (Cons k keys)
  then show ?case by (auto simp: result_simps)
qed simp

lemma multikey_error:
  assumes "point_decoder ec_point"
  shows "multikey_to_jwk ec_point mb = Inl e \<Longrightarrow> e \<in> {MultibaseError, PyValueError}"
proof -
  have v: "varint_loop x b i r s d = Inl e \<Longrightarrow> e = x" for x b i r s d
    by (induction x b i r s d rule: varint_loop.induct) (auto simp: Let_def split: if_splits)
  have d: "decode_multibase mb = Inl e \<Longrightarrow> e = MultibaseError" for mb
    by (auto simp: decode_multibase_def b58btc_decode_def b58_bytes_def result_simps split: if_splits dest: b58_fold_error)
  show "multikey_to_jwk ec_point mb = Inl e \<Longrightarrow> e \<in> {MultibaseError, PyValueError}"
    unfolding multikey_to_jwk_def
    using assms by (auto simp: result_simps Let_def read_varint_def point_decoder_def split: if_splits dest!: d v)
qed

lemma parse_method_total:
  assumes "point_decoder ec_point"
  shows "parse_method ec_point doc_id v \<noteq> Inl e"
proof -
  have "vm_public_jwk ec_point vm \<noteq> Inl e" for vm e
    using multikey_error [OF assms]
    by (fastforce simp: vm_public_jwk_def split: json.splits sum.splits)
  then show ?thesis
    by (auto simp: parse_method_def result_simps split: json.splits option.splits)
qed

lemma document_body_Inr:
  "document_body v = Inr body \<Longrightarrow> depth v \<le> MAX_DEPTH"
  by (auto simp: document_body_def nesting_exceeds_depth split: json.splits if_splits)

lemma document_body_error: "document_body v = Inl e \<Longrightarrow> e = DidResolutionError"
  by (auto simp: document_body_def split: json.splits if_splits)

lemma parse_did_document_error:
  assumes "point_decoder ec_point" "parse_did_document ec_point v = Inl e"
  shows "e = DidResolutionError"
proof -
  have m: "mapR (parse_method ec_point d) xs \<noteq> Inl x" for d xs x
    using parse_method_total [OF assms(1)] mapR_Inl by blast
  have r: "mapR (\<lambda>key. bindR (relationship_refs doc key) (\<lambda>refs. Inr (key, refs))) ks = Inl x \<Longrightarrow>
      x = DidResolutionError" for doc ks x
    by (auto dest!: mapR_Inl simp: result_simps relationship_refs_def get_array_def dest: array_of_error)
  from assms(2) show ?thesis
    by (auto simp: parse_did_document_def Let_def result_simps m get_array_def
        dest: document_body_error array_of_error r)
qed

lemma parse_method_ids: "parse_method ec_point d v = Inr vms \<Longrightarrow> vm \<in> set vms \<Longrightarrow>
   \<exists>m. v = JObj m \<and> jget (lit ''id'') m = JStr (vm_id vm)"
  by (cases v; cases "jget (lit ''id'') (case v of JObj m \<Rightarrow> m | _ \<Rightarrow> [])")
     (auto simp: parse_method_def bindR_Inr split: option.splits)

lemma lookup_exact:
  "key_for_purpose doc (JStr kid) (JStr purpose) = Some vm \<longleftrightarrow>
     filter (\<lambda>vm. absolute (doc_base doc) (vm_id vm) = Some kid) (dd_methods doc) = [vm] \<and>
     (case map_of (dd_relationships doc) purpose of
        None \<Rightarrow> True
      | Some refs \<Rightarrow> \<exists>ref\<in>set refs. absolute (doc_base doc) ref = Some kid)"
proof (cases "select_method doc (JStr kid) (doc_base doc)")
  case None
  then have "filter (\<lambda>vm. absolute (doc_base doc) (vm_id vm) = Some kid) (dd_methods doc) \<noteq> [vm]"
    by (metis option.distinct(1) select_method_exact)
  with None show ?thesis by (simp add: key_for_purpose_def Let_def)
next
  case (Some m)
  then have m: "filter (\<lambda>vm. absolute (doc_base doc) (vm_id vm) = Some kid) (dd_methods doc) = [m]"
    by (simp add: select_method_exact)
  then have a: "absolute (doc_base doc) (vm_id m) = Some kid"
    by (metis (mono_tags, lifting) filter_eq_ConsD)
  show ?thesis
  proof (cases "map_of (dd_relationships doc) purpose")
    case None
    with Some m show ?thesis by (simp add: key_for_purpose_def Let_def)
  next
    case (Some refs)
    with \<open>select_method doc (JStr kid) (doc_base doc) = Some m\<close> m a show ?thesis
      by (auto simp: key_for_purpose_def Let_def list_ex_iff spellings_doc)
  qed
qed

section \<open>Properties\<close>

text \<open>The comparison by spellings is the resolution it replaces: a method id or reference is one of the spellings of an
  absolute DID URL exactly when it resolves to that URL against the document's base.\<close>

theorem spellings_exact:
  "s \<in> set (spellings (doc_base doc) (Some a)) \<longleftrightarrow> absolute (doc_base doc) s = Some a"
  by (rule spellings_doc)

text \<open>The Data Integrity lookup, exactly: a named key is returned for a purpose if and only if it is the only method of
  the document whose id resolves to that name, and the document either does not declare the relationship or lists a
  reference that resolves to the same name. Nothing matches on a fragment alone.\<close>

theorem key_for_purpose_exact:
  "key_for_purpose doc (JStr kid) (JStr purpose) = Some vm \<longleftrightarrow>
     filter (\<lambda>vm. absolute (doc_base doc) (vm_id vm) = Some kid) (dd_methods doc) = [vm] \<and>
     (case map_of (dd_relationships doc) purpose of
        None \<Rightarrow> True
      | Some refs \<Rightarrow> \<exists>ref\<in>set refs. absolute (doc_base doc) ref = Some kid)"
  by (rule lookup_exact)

text \<open>Parsing attacker-hosted documents fails closed: the only error is \<open>DidResolutionError\<close> (the point decoder may
  raise \<open>ValueError\<close> only), a relationship is declared in the result exactly when the document has the member, which
  is then an array, and every method has a string id that an entry of the document gives.\<close>

theorem parse_did_document_fail_closed:
  assumes "point_decoder ec_point"
  shows "case parse_did_document ec_point v of
           Inl e \<Rightarrow> e = DidResolutionError
         | Inr doc \<Rightarrow>
             depth v \<le> MAX_DEPTH \<and>
             (\<forall>key\<in>set RELATIONSHIP_KEYS.
                map_of (dd_relationships doc) key =
                  (case map_of (dd_raw doc) key of
                     Some (JList xs) \<Rightarrow> Some (concat (map ref_of xs)) | _ \<Rightarrow> None) \<and>
                (map_of (dd_relationships doc) key = None \<longleftrightarrow> map_of (dd_raw doc) key = None)) \<and>
             (\<forall>vm\<in>set (dd_methods doc). \<exists>entries m.
                jget (lit ''verificationMethod'') (dd_raw doc) = JList entries \<and> JObj m \<in> set entries \<and>
                jget (lit ''id'') m = JStr (vm_id vm))"
proof (cases "parse_did_document ec_point v")
  case (Inl e)
  then show ?thesis using parse_did_document_error [OF assms] by simp
next
  case (Inr doc)
  then obtain body entries vmss where p: "document_body v = Inr body" "dd_methods doc = concat vmss" "dd_raw doc = body"
    "get_array body (lit ''verificationMethod'') = Inr entries"
    "mapR (parse_method ec_point (dd_id doc)) entries = Inr vmss"
    "mapR (\<lambda>key. bindR (relationship_refs body key) (\<lambda>refs. Inr (key, refs)))
       (filter (\<lambda>key. has_key key body) RELATIONSHIP_KEYS) = Inr (dd_relationships doc)"
    by (auto simp: parse_did_document_def Let_def result_simps)
  have rel: "map_of (dd_relationships doc) key =
      (case map_of body key of Some (JList xs) \<Rightarrow> Some (concat (map ref_of xs)) | _ \<Rightarrow> None) \<and>
      (map_of (dd_relationships doc) key = None \<longleftrightarrow> map_of body key = None)"
    if "key \<in> set RELATIONSHIP_KEYS" for key
  proof (cases "map_of body key")
    case None
    then show ?thesis using relationships_of [OF p(6), of key] by (simp add: has_key_map_of)
  next
    case (Some w)
    then have k: "key \<in> set (filter (\<lambda>key. has_key key body) RELATIONSHIP_KEYS)"
      using that by (simp add: has_key_map_of)
    obtain refs where r: "relationship_refs body key = Inr refs" using relationships_ok [OF p(6) k] ..
    then obtain xs where "w = JList xs" "refs = concat (map ref_of xs)"
      using Some by (auto simp: relationship_refs_Inr)
    with Some r k show ?thesis using relationships_of [OF p(6), of key] by simp
  qed
  have vms: "\<exists>entries m. jget (lit ''verificationMethod'') body = JList entries \<and> JObj m \<in> set entries \<and>
      jget (lit ''id'') m = JStr (vm_id vm)" if "vm \<in> set (concat vmss)" for vm
  proof -
    from that obtain vms where "vms \<in> set vmss" "vm \<in> set vms" by auto
    then obtain e where e: "e \<in> set entries" "parse_method ec_point (dd_id doc) e = Inr vms"
      using mapR_set [OF p(5)] by blast
    then obtain m where "e = JObj m" "jget (lit ''id'') m = JStr (vm_id vm)"
      using parse_method_ids \<open>vm \<in> set vms\<close> by metis
    moreover have "jget (lit ''verificationMethod'') body = JList entries"
      using p(4) e(1) by (auto simp: get_array_def jget_def array_of_Inr split: option.splits)
    ultimately show ?thesis using e(1) by blast
  qed
  show ?thesis
    unfolding Inr sum.case p(2,3)
    by (intro conjI ballI document_body_Inr [OF p(1)] rel vms rel [THEN conjunct1] rel [THEN conjunct2])
qed

theorem parse_did_document_fail_closed_witness:
  "\<exists>doc. parse_did_document (\<lambda>c k. Inl PyValueError)
      (JObj [(lit ''id'', JStr (lit ''did:x:1'')), (lit ''authentication'', JList [JStr [35]])]) = Inr doc \<and>
     map_of (dd_relationships doc) (lit ''authentication'') = Some [[35]] \<and>
     map_of (dd_relationships doc) (lit ''assertionMethod'') = None"
proof -
  let ?v = "JObj [(lit ''id'', JStr (lit ''did:x:1'')), (lit ''authentication'', JList [JStr [35]])]"
  have d: "\<not> nesting_exceeds ?v MAX_DEPTH" by (simp add: nesting_exceeds_depth MAX_DEPTH_def)
  have "\<exists>doc. parse_did_document (\<lambda>c k. Inl PyValueError) ?v = Inr doc \<and>
      dd_raw doc = [(lit ''id'', JStr (lit ''did:x:1'')), (lit ''authentication'', JList [JStr [35]])]"
    using d by (simp add: parse_did_document_def document_body_def get_array_def relationship_refs_def has_key_def
        RELATIONSHIP_KEYS_def)
  then obtain doc where doc: "parse_did_document (\<lambda>c k. Inl PyValueError) ?v = Inr doc"
    "dd_raw doc = [(lit ''id'', JStr (lit ''did:x:1'')), (lit ''authentication'', JList [JStr [35]])]" by blast
  show ?thesis
    using parse_did_document_fail_closed [of "\<lambda>c k. Inl PyValueError" ?v] doc
    by (auto simp: RELATIONSHIP_KEYS_def point_decoder_def)
qed

end
