(* ===== verification/Did_Methods.thy ===== *)
theory Did_Methods
  imports Did_Document
begin

text \<open>
  The three resolvers of the core: openvc/did/did_key.py and did_jwk.py, which decode the key from the
  identifier, and did_web.py, which maps the identifier to an https URL and checks the document it fetches.
  Parameters: \<open>ec_point\<close> (point decoding), \<open>json_loads\<close> (the JSON parser on bytes) and \<open>fetch\<close> (the injected fetch).
\<close>

section \<open>did:key\<close>

definition self_document :: "str \<Rightarrow> str \<Rightarrow> jobj \<Rightarrow> str list \<Rightarrow> did_document" where
  "self_document did frag jwk rels =
     (let vm_id = did @ [35] @ frag;
          vm = [(lit ''id'', JStr vm_id), (lit ''type'', JStr (lit ''JsonWebKey2020'')),
                (lit ''controller'', JStr did), (lit ''publicKeyJwk'', JObj jwk)]
      in \<lparr>dd_id = did,
          dd_methods = [\<lparr>vm_id = vm_id, vm_type = lit ''JsonWebKey2020'', vm_controller = did, vm_jwk = jwk\<rparr>],
          dd_raw = [(lit ''@context'', JList [JStr (lit ''https://www.w3.org/ns/did/v1'')]), (lit ''id'', JStr did),
                    (lit ''verificationMethod'', JList [JObj vm])] @ map (\<lambda>r. (r, JList [JStr vm_id])) rels,
          dd_relationships = map (\<lambda>r. (r, [vm_id])) rels\<rparr>)"

definition did_key_supports :: "str \<Rightarrow> bool" where
  "did_key_supports did = starts_with (lit ''did:key:z'') did"

definition did_key_jwk :: "(str \<Rightarrow> bytes \<Rightarrow> (nat \<times> nat) result) \<Rightarrow> nat \<Rightarrow> bytes \<Rightarrow> jobj result" where
  "did_key_jwk ec_point code key_bytes =
     (if code = MC_ED25519 then Inr (okp_jwk key_bytes)
      else if code = MC_P256 then
        bindR (catchR is_value_error DidResolutionError (ec_point (lit ''P-256'') key_bytes))
          (\<lambda>xy. Inr (ec_jwk (lit ''P-256'') 32 xy))
      else if code = MC_P384 then
        bindR (catchR is_value_error DidResolutionError (ec_point (lit ''P-384'') key_bytes))
          (\<lambda>xy. Inr (ec_jwk (lit ''P-384'') 48 xy))
      else Inl DidResolutionError)"

definition did_key_resolve :: "(str \<Rightarrow> bytes \<Rightarrow> (nat \<times> nat) result) \<Rightarrow> str \<Rightarrow> did_document result" where
  "did_key_resolve ec_point did =
     (let mb = drop (length (lit ''did:key:'')) did
      in if \<not> starts_with (lit ''z'') mb then Inl DidResolutionError
         else bindR (did_key_b58decode (drop 1 mb)) (\<lambda>raw.
              bindR (did_key_read_varint raw) (\<lambda>(code, offset).
              bindR (did_key_jwk ec_point code (drop offset raw)) (\<lambda>jwk.
                Inr (self_document did mb jwk [lit ''authentication'', lit ''assertionMethod''])))))"

section \<open>did:jwk\<close>

definition DID_JWK_RELATIONSHIPS :: "str list" where
  "DID_JWK_RELATIONSHIPS = [lit ''assertionMethod'', lit ''authentication'', lit ''capabilityInvocation'',
                            lit ''capabilityDelegation'']"

definition did_jwk_supports :: "str \<Rightarrow> bool" where
  "did_jwk_supports did = starts_with (lit ''did:jwk:'') did"

definition jwk_document :: "str \<Rightarrow> json \<Rightarrow> did_document result" where
  "jwk_document did v =
     (case v of
        JObj jwk \<Rightarrow>
          (if \<not> has_key (lit ''kty'') jwk then Inl DidResolutionError
           else if has_key (lit ''d'') jwk then Inl DidResolutionError
           else Inr (self_document did (lit ''0'') jwk DID_JWK_RELATIONSHIPS))
      | _ \<Rightarrow> Inl DidResolutionError)"

definition did_jwk_resolve :: "(bytes \<Rightarrow> json result) \<Rightarrow> str \<Rightarrow> did_document result" where
  "did_jwk_resolve json_loads did =
     (let encoded = drop (length (lit ''did:jwk:'')) did
      in if encoded = [] then Inl DidResolutionError
         else bindR (catchR is_value_error DidResolutionError
                       (bindR (b64url_decode encoded) (loads json_loads))) (jwk_document did))"

section \<open>did:web\<close>

subsection \<open>urllib.parse.unquote\<close>

definition hex_val :: "nat \<Rightarrow> nat" where
  "hex_val c = (if c < 58 then c - 48 else if c < 71 then c - 55 else c - 87)"

text \<open>\<open>unquote_to_bytes\<close> of an ASCII run.\<close>

fun pct_bytes :: "str \<Rightarrow> nat list" where
  "pct_bytes (c # a # b # r) =
     (if c = 37 \<and> is_hex a \<and> is_hex b then (16 * hex_val a + hex_val b) # pct_bytes r
      else c # pct_bytes (a # b # r))"
| "pct_bytes (c # r) = c # pct_bytes r"
| "pct_bytes [] = []"

text \<open>
  \<open>bytes.decode("utf-8", "replace")\<close>: a malformed sequence gives U+FFFD for its longest valid prefix, which is
  at least one byte.
\<close>

definition second_ok :: "nat \<Rightarrow> nat \<Rightarrow> bool" where
  "second_ok b0 b1 = (if b0 = 224 then 160 \<le> b1 \<and> b1 < 192 else if b0 = 237 then 128 \<le> b1 \<and> b1 < 160
                      else if b0 = 240 then 144 \<le> b1 \<and> b1 < 192 else if b0 = 244 then 128 \<le> b1 \<and> b1 < 144
                      else cont b1)"

definition bad_prefix :: "nat \<Rightarrow> nat list \<Rightarrow> nat" where
  "bad_prefix b0 rest =
     (case rest of
        b1 # r \<Rightarrow>
          (if 224 \<le> b0 \<and> b0 < 245 \<and> second_ok b0 b1 then
             (case r of b2 # _ \<Rightarrow> if 240 \<le> b0 \<and> cont b2 then 2 else 1 | [] \<Rightarrow> 1)
           else 0)
      | [] \<Rightarrow> 0)"

function utf8_replace :: "nat list \<Rightarrow> str" where
  "utf8_replace [] = []"
| "utf8_replace (b # rest) =
     (case utf8_step b rest of
        Some (c, r) \<Rightarrow> c # utf8_replace r
      | None \<Rightarrow> 65533 # utf8_replace (drop (bad_prefix b rest) rest))"
  by pat_completeness auto
termination
  by (relation "measure length") (auto dest: utf8_step_length)

fun unquote_runs :: "str \<Rightarrow> str \<Rightarrow> str" where
  "unquote_runs run [] = utf8_replace (pct_bytes (rev run))"
| "unquote_runs run (c # s) =
     (if c < 128 then unquote_runs (c # run) s
      else utf8_replace (pct_bytes (rev run)) @ c # unquote_runs [] s)"

definition unquote :: "str \<Rightarrow> str" where
  "unquote s = (if 37 \<in> set s then unquote_runs [] s else s)"

subsection \<open>The host rule\<close>

definition is_alnum :: "nat \<Rightarrow> bool" where
  "is_alnum c = (65 \<le> c \<and> c \<le> 90 \<or> 97 \<le> c \<and> c \<le> 122 \<or> 48 \<le> c \<and> c \<le> 57)"

text \<open>\<open>_LABEL.fullmatch\<close>\<close>

definition is_label :: "str \<Rightarrow> bool" where
  "is_label s = (s \<noteq> [] \<and> length s \<le> 63 \<and> is_alnum (hd s) \<and> is_alnum (last s) \<and>
                 list_all (\<lambda>c. is_alnum c \<or> c = 45) s)"

definition is_port :: "str \<Rightarrow> bool" where
  "is_port s = (is_digits s \<and> length s \<le> 5 \<and> 0 < nat_of_digits s \<and> nat_of_digits s \<le> 65535)"

text \<open>\<open>_NUMERIC_LABEL.fullmatch\<close>\<close>

definition numeric_label :: "str \<Rightarrow> bool" where
  "numeric_label s = (is_digits s \<or> (\<exists>x\<in>{120, 88}. starts_with [48, x] s \<and> list_all is_hex (drop 2 s)))"

text \<open>\<open>host.rpartition(":")\<close> when the host has a colon.\<close>

definition host_name :: "str \<Rightarrow> str" where
  "host_name host = (if 58 \<in> set host then rev (tl (dropWhile (\<lambda>c. c \<noteq> 58) (rev host))) else host)"

definition host_port :: "str \<Rightarrow> str option" where
  "host_port host = (if 58 \<in> set host then Some (rev (takeWhile (\<lambda>c. c \<noteq> 58) (rev host))) else None)"

definition check_host :: "str \<Rightarrow> unit result" where
  "check_host host =
     (let name = host_name host; labels = split_on 46 name
      in if (case host_port host of None \<Rightarrow> False | Some p \<Rightarrow> \<not> is_port p) then Inl DidResolutionError
         else if 253 < length name then Inl DidResolutionError
         else if \<not> is_ascii name then Inl DidResolutionError
         else if \<not> list_all is_label labels then Inl DidResolutionError
         else if numeric_label (last labels) then Inl DidResolutionError
         else Inr ())"

definition did_web_url :: "str \<Rightarrow> str result" where
  "did_web_url did =
     (let msi = drop (length (lit ''did:web:'')) did
      in if msi = [] then Inl DidResolutionError
         else let parts = split_on 58 msi; host = unquote (hd parts)
              in bindR (check_host host) (\<lambda>_.
                   let segments = map unquote (tl parts)
                   in Inr (if segments \<noteq> [] then lit ''https://'' @ host @ lit ''/'' @ join_with 47 segments @ lit ''/did.json''
                           else lit ''https://'' @ host @ lit ''/.well-known/did.json'')))"

definition validated_document ::
    "(str \<Rightarrow> bytes \<Rightarrow> (nat \<times> nat) result) \<Rightarrow> json \<Rightarrow> str \<Rightarrow> did_document result" where
  "validated_document ec_point raw did =
     bindR (parse_did_document ec_point raw) (\<lambda>doc. if dd_id doc \<noteq> did then Inl DidResolutionError else Inr doc)"

definition did_web_supports :: "str \<Rightarrow> bool" where
  "did_web_supports did = starts_with (lit ''did:web:'') did"

definition did_web_resolve ::
    "(str \<Rightarrow> bytes \<Rightarrow> (nat \<times> nat) result) \<Rightarrow> (str \<Rightarrow> json result) \<Rightarrow> str \<Rightarrow> did_document result" where
  "did_web_resolve ec_point fetch did =
     bindR (did_web_url did) (\<lambda>url. bindR (fetch url) (\<lambda>raw. validated_document ec_point raw did))"

section \<open>What a resolver promises\<close>

text \<open>
  A resolver answers only for the DID it was asked about, and says so by failing otherwise. Through the registry
  the promise carries over to whatever mixture of resolvers is registered.
\<close>

definition binds :: "(str \<Rightarrow> did_document result) \<Rightarrow> bool" where
  "binds res \<longleftrightarrow> (\<forall>did doc. res did = Inr doc \<longrightarrow> dd_id doc = did)"

locale bound_resolvers =
  fixes rs :: "resolver list"
  assumes each: "r \<in> set rs \<Longrightarrow> binds (resolve_did r)"
begin

lemma registry_bound: "registry_resolve rs did = Inr doc \<Longrightarrow> dd_id doc = did"
proof -
  have "registry_resolve qs did = Inr doc \<Longrightarrow> set qs \<subseteq> set rs \<Longrightarrow> dd_id doc = did" for qs
    by (induction qs) (use each in \<open>auto simp: binds_def split: if_splits\<close>)
  then show "registry_resolve rs did = Inr doc \<Longrightarrow> dd_id doc = did" by blast
qed

lemma registry_error:
  "registry_resolve rs did = Inl e \<Longrightarrow> e = UnsupportedDidMethod \<or> (\<exists>r\<in>set rs. supports r did \<and> resolve_did r did = Inl e)"
proof -
  have "registry_resolve qs did = Inl e \<Longrightarrow>
      e = UnsupportedDidMethod \<or> (\<exists>r\<in>set qs. supports r did \<and> resolve_did r did = Inl e)" for qs
    by (induction qs) (auto split: if_splits)
  then show "registry_resolve rs did = Inl e \<Longrightarrow>
      e = UnsupportedDidMethod \<or> (\<exists>r\<in>set rs. supports r did \<and> resolve_did r did = Inl e)" .
qed

end

text \<open>The registry of the three core methods.\<close>

definition core_resolvers ::
    "(str \<Rightarrow> bytes \<Rightarrow> (nat \<times> nat) result) \<Rightarrow> (bytes \<Rightarrow> json result) \<Rightarrow> (str \<Rightarrow> json result) \<Rightarrow> resolver list" where
  "core_resolvers ec_point json_loads fetch =
     [\<lparr>supports = did_key_supports, resolve_did = did_key_resolve ec_point\<rparr>,
      \<lparr>supports = did_jwk_supports, resolve_did = did_jwk_resolve json_loads\<rparr>,
      \<lparr>supports = did_web_supports, resolve_did = did_web_resolve ec_point fetch\<rparr>]"

lemma self_document_id [simp]: "dd_id (self_document did frag jwk rels) = did"
  by (simp add: self_document_def Let_def)

lemma did_key_binds: "binds (did_key_resolve ec_point)"
  by (auto simp: binds_def did_key_resolve_def Let_def bindR_Inr split: if_splits)

lemma jwk_document_Inr:
  "jwk_document did v = Inr doc \<longleftrightarrow>
     (\<exists>jwk. v = JObj jwk \<and> has_key (lit ''kty'') jwk \<and> \<not> has_key (lit ''d'') jwk \<and>
            doc = self_document did (lit ''0'') jwk DID_JWK_RELATIONSHIPS)"
  by (cases v) (auto simp: jwk_document_def)

lemma did_jwk_binds: "binds (did_jwk_resolve json_loads)"
  by (auto simp: binds_def did_jwk_resolve_def Let_def result_simps jwk_document_Inr split: if_splits)

lemma did_web_binds: "binds (did_web_resolve ec_point fetch)"
  by (auto simp: binds_def did_web_resolve_def validated_document_def result_simps split: if_splits)

interpretation core: bound_resolvers "core_resolvers ec_point json_loads fetch"
  for ec_point json_loads fetch
  by unfold_locales (auto simp: core_resolvers_def did_key_binds did_jwk_binds did_web_binds)

section \<open>Lemmas: did:key\<close>

lemma self_document_key:
  assumes "starts_with (lit ''did:'') did"
  shows "key_for_purpose (self_document did frag jwk rels) (JStr kid) (JStr p) =
     (if kid = did @ [35] @ frag
      then Some \<lparr>vm_id = did @ [35] @ frag, vm_type = lit ''JsonWebKey2020'', vm_controller = did, vm_jwk = jwk\<rparr> else None)"
proof -
  have d: "starts_with (lit ''did:'') (did @ [35] @ frag)" using assms by (auto simp: starts_with_iff)
  have r: "map_of (map (\<lambda>r. (r, [v])) rels) p \<in> {None, Some [v]}" for v :: str
    by (induction rels) auto
  have a: "absolute base (did @ [35] @ frag) = Some (did @ [35] @ frag)" for base
    using d by (simp add: absolute_def)
  let ?doc = "self_document did frag jwk rels"
  have m: "filter (\<lambda>vm. absolute (doc_base ?doc) (vm_id vm) = Some kid) (dd_methods ?doc) =
      (if kid = did @ [35] @ frag then dd_methods ?doc else [])"
    using a by (simp add: self_document_def Let_def eq_commute)
  have sp: "did @ [35] @ frag \<in> set (spellings base (Some (did @ [35] @ frag)))" for base
    using d by (auto simp: spellings_def split: option.splits)
  show ?thesis
  proof (cases "kid = did @ [35] @ frag")
    case False
    with m have "select_method ?doc (JStr kid) (doc_base ?doc) = None"
      by (simp add: select_method_def methods_with_id_exact)
    with False show ?thesis by (simp add: key_for_purpose_def Let_def)
  next
    case True
    with m have s: "select_method ?doc (JStr kid) (doc_base ?doc) =
        Some \<lparr>vm_id = did @ [35] @ frag, vm_type = lit ''JsonWebKey2020'', vm_controller = did, vm_jwk = jwk\<rparr>"
      by (simp add: select_method_exact) (simp add: self_document_def Let_def)
    have "map_of (dd_relationships ?doc) p \<in> {None, Some [did @ [35] @ frag]}"
      using r by (simp add: self_document_def Let_def)
    with True s a sp show ?thesis by (auto simp: key_for_purpose_def Let_def)
  qed
qed

lemma did_key_raw:
  "did_key_b58decode (b58btc_encode (leb128 n @ key)) = Inr (leb128 n @ key)"
  "did_key_read_varint (leb128 n @ key) = Inr (n, length (leb128 n))"
  by (simp_all add: did_key_b58decode_def b58_bytes_encode did_key_read_varint_def varint_loop_leb128)

lemma did_key_resolve_raw:
  "did_key_resolve ec_point (lit ''did:key:'' @ encode_multibase (leb128 n @ key)) =
     bindR (did_key_jwk ec_point n key) (\<lambda>jwk.
       Inr (self_document (lit ''did:key:'' @ encode_multibase (leb128 n @ key)) (encode_multibase (leb128 n @ key)) jwk
              [lit ''authentication'', lit ''assertionMethod'']))"
proof -
  have z: "starts_with (lit ''z'') (encode_multibase d)" "drop (Suc 0) (encode_multibase d) = b58btc_encode d" for d
    by (simp_all add: encode_multibase_def lit_def)
  show ?thesis
    by (simp add: did_key_resolve_def Let_def z did_key_raw)
qed

section \<open>Lemmas: did:web\<close>

definition host_char :: "nat \<Rightarrow> bool" where
  "host_char c = (is_alnum c \<or> c \<in> {45, 46, 58})"

lemma host_split: "58 \<in> set host \<Longrightarrow> host = host_name host @ 58 # the (host_port host)"
proof -
  assume h: "58 \<in> set host"
  let ?t = "takeWhile (\<lambda>c. c \<noteq> 58) (rev host)" and ?d = "dropWhile (\<lambda>c. c \<noteq> 58) (rev host)"
  have "?d \<noteq> []" using h by (simp add: dropWhile_eq_Nil_conv)
  moreover have "hd ?d = 58" using hd_dropWhile [OF \<open>?d \<noteq> []\<close>] by simp
  ultimately have "?d = 58 # tl ?d" by (metis list.collapse)
  then have "rev host = ?t @ 58 # tl ?d" by (metis takeWhile_dropWhile_id)
  then have "host = rev (?t @ 58 # tl ?d)" by (metis rev_rev_ident)
  then show ?thesis using h by (simp add: host_name_def host_port_def)
qed

lemma labels_chars: "list_all is_label (split_on 46 name) \<Longrightarrow> list_all host_char name"
proof -
  assume l: "list_all is_label (split_on 46 name)"
  have "list_all host_char (join_with 46 ls)" if "list_all is_label ls" for ls
    using that
  proof (induction "46::nat" ls rule: join_with.induct)
    case (2 p)
    then show ?case by (auto simp: is_label_def list_all_iff host_char_def)
  next
    case (3 p q ps)
    then show ?case by (auto simp: is_label_def list_all_iff host_char_def)
  qed simp
  from this [OF l] show ?thesis by (simp add: join_split_on)
qed

lemma check_host_chars:
  assumes "check_host host = Inr ()"
  shows "list_all host_char host" "host \<noteq> []"
proof -
  have l: "list_all is_label (split_on 46 (host_name host))"
    and p: "host_port host \<noteq> None \<Longrightarrow> is_port (the (host_port host))"
    using assms by (auto simp: check_host_def Let_def split: if_splits option.splits)
  have ne: "host_name host \<noteq> []"
    using l by (cases "host_name host") (auto simp: is_label_def)
  show "list_all host_char host"
  proof (cases "58 \<in> set host")
    case True
    then have "is_port (the (host_port host))" using p by (simp add: host_port_def)
    then have "list_all host_char (the (host_port host))"
      by (auto simp: is_port_def is_digits_def list_all_iff host_char_def is_alnum_def)
    then show ?thesis using labels_chars [OF l]
      by (subst host_split [OF True]) (simp add: host_char_def)
  next
    case False
    then show ?thesis using labels_chars [OF l] by (simp add: host_name_def)
  qed
  show "host \<noteq> []" using ne by (auto simp: host_name_def)
qed

lemma did_web_prefix: "length (lit ''did:web:'') = 8"
  by (simp add: lit_def)

lemma did_web_url_Inr:
  "did_web_url did = Inr url \<Longrightarrow>
     \<exists>host path. check_host host = Inr () \<and> host = unquote (hd (split_on 58 (drop 8 did))) \<and>
       url = lit ''https://'' @ host @ lit ''/'' @ path"
  by (auto simp: did_web_url_def did_web_prefix Let_def result_simps lit_append [symmetric] split: if_splits)
     (simp_all add: lit_def)

section \<open>Properties\<close>

text \<open>A did:key identifier is its key: the DID built from an Ed25519 public key resolves, offline, to a document whose
  one method holds that key, granted for authentication and assertion; the lookup returns it for its own DID URL and
  for no other name.\<close>

theorem did_key_ed25519_exact:
  fixes ec_point key
  defines "mb \<equiv> encode_multibase (leb128 MC_ED25519 @ key)"
  defines "did \<equiv> lit ''did:key:'' @ mb"
  shows "\<exists>doc vm. did_key_resolve ec_point did = Inr doc \<and> dd_id doc = did \<and> dd_methods doc = [vm] \<and>
           vm_jwk vm = okp_jwk key \<and>
           dd_relationships doc = [(lit ''authentication'', [vm_id vm]), (lit ''assertionMethod'', [vm_id vm])] \<and>
           (\<forall>kid p. key_for_purpose doc (JStr kid) (JStr p) = (if kid = did @ [35] @ mb then Some vm else None))"
proof -
  let ?doc = "self_document did mb (okp_jwk key) [lit ''authentication'', lit ''assertionMethod'']"
  have d: "starts_with (lit ''did:'') did" by (auto simp: did_def starts_with_iff lit_def)
  have "did_key_resolve ec_point did = Inr ?doc"
    unfolding did_def mb_def by (simp add: did_key_resolve_raw did_key_jwk_def)
  moreover have "\<forall>kid p. key_for_purpose ?doc (JStr kid) (JStr p) =
      (if kid = did @ [35] @ mb then Some (hd (dd_methods ?doc)) else None)"
    unfolding self_document_key [OF d] by (simp add: self_document_def Let_def)
  ultimately show ?thesis
    by (intro exI [of _ ?doc] exI [of _ "hd (dd_methods ?doc)"]) (auto simp: self_document_def Let_def)
qed

text \<open>The URL fetched for a did:web identifier is an https URL whose authority is the host the identifier names: the
  host passed the domain-name check, so it holds letters, digits, hyphens, dots and a port colon only, its last label is
  no number, and the first delimiter of the URL after \<open>https://\<close> is the slash the code wrote.\<close>

theorem did_web_url_authority:
  assumes "did_web_url did = Inr url"
  shows "\<exists>path. url = lit ''https://'' @ unquote (hd (split_on 58 (drop 8 did))) @ 47 # path \<and>
           takeWhile (\<lambda>c. c \<notin> {47, 63, 35, 92, 64}) (drop 8 url) = unquote (hd (split_on 58 (drop 8 did))) \<and>
           list_all host_char (unquote (hd (split_on 58 (drop 8 did)))) \<and>
           \<not> numeric_label (last (split_on 46 (host_name (unquote (hd (split_on 58 (drop 8 did)))))))"
proof -
  obtain host path where h: "check_host host = Inr ()" "host = unquote (hd (split_on 58 (drop 8 did)))"
    and u: "url = lit ''https://'' @ host @ lit ''/'' @ path"
    using did_web_url_Inr [OF assms] by blast
  have c: "list_all host_char host" using check_host_chars(1) [OF h(1)] .
  then have "\<forall>c\<in>set host. c \<notin> {47, 63, 35, 92, 64}"
    by (auto simp: list_all_iff host_char_def is_alnum_def)
  then have "takeWhile (\<lambda>c. c \<notin> {47, 63, 35, 92, 64}) (host @ 47 # path) = host"
    by (induction host) auto
  then have "takeWhile (\<lambda>c. c \<notin> {47, 63, 35, 92, 64}) (drop 8 url) = host"
    by (simp add: u lit_def of_char_def)
  moreover have "\<not> numeric_label (last (split_on 46 (host_name host)))"
    using h(1) by (auto simp: check_host_def Let_def split: if_splits)
  ultimately show ?thesis
    using c u by (intro exI [of _ path]) (simp add: h(2) [symmetric] lit_def of_char_def)
qed

theorem did_web_url_authority_witness:
  "\<exists>path. lit ''https://a.b/.well-known/did.json'' = lit ''https://'' @ unquote (hd (split_on 58 (drop 8 (lit ''did:web:a.b'')))) @ 47 # path \<and>
     did_web_url (lit ''did:web:a.b'') = Inr (lit ''https://a.b/.well-known/did.json'')"
proof -
  have "did_web_url (lit ''did:web:a.b'') = Inr (lit ''https://a.b/.well-known/did.json'')"
    by (simp add: did_web_url_def check_host_def host_name_def host_port_def is_label_def is_alnum_def numeric_label_def
        is_digits_def is_ascii_def unquote_def lit_def of_char_def Let_def)
  then show ?thesis using did_web_url_authority [of "lit ''did:web:a.b''"] by blast
qed

text \<open>(C21) Whatever the registry of the core methods returns is the document of the DID that was asked for, and the key of a
  did:jwk is never a private one.\<close>

theorem registry_binding:
  assumes "registry_resolve (core_resolvers ec_point json_loads fetch) did = Inr doc"
  shows "dd_id doc = did \<and> (did_jwk_supports did \<longrightarrow> (\<forall>vm\<in>set (dd_methods doc). \<not> has_key (lit ''d'') (vm_jwk vm)))"
proof
  show "dd_id doc = did" using core.registry_bound [OF assms] .
  have n: "did_jwk_supports did \<Longrightarrow> \<not> did_key_supports did"
    by (auto simp: did_jwk_supports_def did_key_supports_def starts_with_iff lit_def)
  show "did_jwk_supports did \<longrightarrow> (\<forall>vm\<in>set (dd_methods doc). \<not> has_key (lit ''d'') (vm_jwk vm))"
    using assms n
    by (auto simp: core_resolvers_def did_jwk_resolve_def Let_def result_simps jwk_document_Inr self_document_def
        split: if_splits)
qed

theorem registry_binding_witness:
  "\<exists>doc. registry_resolve (core_resolvers (\<lambda>c k. Inl PyValueError)
            (\<lambda>b. Inr (JObj [(lit ''kty'', JStr (lit ''OKP''))])) (\<lambda>u. Inl PyOSError)) (lit ''did:jwk:AA'') = Inr doc \<and>
         dd_id doc = lit ''did:jwk:AA''"
proof -
  let ?rs = "core_resolvers (\<lambda>c k. Inl PyValueError) (\<lambda>b. Inr (JObj [(lit ''kty'', JStr (lit ''OKP''))])) (\<lambda>u. Inl PyOSError)"
  have n: "\<not> nesting_exceeds (JObj [(lit ''kty'', JStr (lit ''OKP''))]) MAX_DEPTH"
    by (simp add: nesting_exceeds_depth MAX_DEPTH_def)
  have e: "lit ''AA'' = b64url_encode [0]"
    by (simp add: lit_def b64url_encode_def b64url_char_def of_char_def)
  have b: "isOk (b64url_decode (lit ''AA''))" unfolding e by simp
  have d: "drop (length (lit ''did:jwk:'')) (lit ''did:jwk:AA'') = lit ''AA''" by (simp add: lit_def)
  have s: "\<not> did_key_supports (lit ''did:jwk:AA'')" "did_jwk_supports (lit ''did:jwk:AA'')"
    by (simp_all add: did_key_supports_def did_jwk_supports_def lit_def)
  have k: "has_key (lit ''kty'') [(lit ''kty'', JStr (lit ''OKP''))]" "\<not> has_key (lit ''d'') [(lit ''kty'', JStr (lit ''OKP''))]"
    by (simp_all add: has_key_def)
  have "isOk (registry_resolve ?rs (lit ''did:jwk:AA''))"
    using b n k
    by (auto simp: core_resolvers_def s did_jwk_resolve_def d loads_def jwk_document_def isOk_iff)
  then obtain doc where "registry_resolve ?rs (lit ''did:jwk:AA'') = Inr doc" by (auto simp: isOk_iff)
  with registry_binding [OF this] show ?thesis by blast
qed

end
