(* ===== verification/Verify_Common.thy ===== *)
theory Verify_Common
  imports Did_Methods "HOL-Library.List_Lexorder"
begin

text \<open>
  openvc/proof/_verify_common.py: the policy checks the proof suites share. Instants are microseconds since the epoch
  (\<open>datetime\<close>) or numbers of seconds (JWT). The clock (\<open>time.time()\<close>, \<open>datetime.now\<close>) is an argument, and so are
  \<open>fromisoformat\<close>, whose grammar depends on the Python version, and \<open>nd\<close>, the Unicode decimal digits of \<open>\d\<close>.
  A configuration value a caller passes (a leeway, an age, an audience) is a JSON value: the code checks its type.
\<close>

section \<open>Header and issuer\<close>

definition reject_unknown_crit :: "jobj \<Rightarrow> unit result" where
  "reject_unknown_crit header = (if has_key (lit ''crit'') header then Inl MalformedToken else Inr ())"

definition issuer_identifiers :: "json \<Rightarrow> json list" where
  "issuer_identifiers issuer =
     (case issuer of
        JObj d \<Rightarrow> map (\<lambda>k. jget k d) (filter (\<lambda>k. has_key k d) [lit ''id'', lit ''@id''])
      | _ \<Rightarrow> [issuer])"

section \<open>Configuration knobs\<close>

definition DEFAULT_LEEWAY_S :: int where "DEFAULT_LEEWAY_S = 60"

definition MAX_LEEWAY_S :: int where "MAX_LEEWAY_S = 86400"

definition DEFAULT_KB_MAX_AGE_S :: int where "DEFAULT_KB_MAX_AGE_S = 300"

fun plain_int :: "json \<Rightarrow> int option" where
  "plain_int (JInt n) = Some n"
| "plain_int _ = None"

definition leeway_seconds :: "exc \<Rightarrow> json \<Rightarrow> int result" where
  "leeway_seconds error value =
     (case plain_int value of
        None \<Rightarrow> Inl error
      | Some seconds \<Rightarrow> if 0 \<le> seconds \<and> seconds \<le> MAX_LEEWAY_S then Inr seconds else Inl error)"

definition non_negative_seconds :: "exc \<Rightarrow> json \<Rightarrow> int result" where
  "non_negative_seconds error value =
     (case plain_int value of
        None \<Rightarrow> Inl error
      | Some seconds \<Rightarrow> if seconds < 0 then Inl error else Inr seconds)"

section \<open>Instants\<close>

text \<open>
  What a caller can pin as \<open>now\<close>: nothing, a datetime whose \<open>utcoffset()\<close> is \<open>None\<close> (its wall clock), one with an offset
  (wall clock and offset), one whose \<open>tzinfo\<close> raises, or another object. All in microseconds.
\<close>

datatype clock_pin = PinNone | PinNaive int | PinAware int int | PinRaises | PinOther

text \<open>\<open>datetime.min\<close> and \<open>datetime.max\<close> as microseconds from the epoch.\<close>

definition in_datetime_range :: "int \<Rightarrow> bool" where
  "in_datetime_range t = (- 62135596800000000 \<le> t \<and> t < 253402300800000000)"

text \<open>\<open>int(plain.timestamp())\<close>: the quotient is rounded to a double first.\<close>

definition epoch_of_micros :: "int \<Rightarrow> int" where
  "epoch_of_micros t = num_trunc (NFloat (fl (of_int t / 1000000)))"

fun utc_epoch :: "num \<Rightarrow> exc \<Rightarrow> clock_pin \<Rightarrow> int result" where
  "utc_epoch time_now error PinNone = Inr (num_trunc time_now)"
| "utc_epoch time_now error (PinNaive wall) = Inr (epoch_of_micros wall)"
| "utc_epoch time_now error (PinAware wall offset) = Inr (epoch_of_micros (wall - offset))"
| "utc_epoch time_now error PinRaises = Inl error"
| "utc_epoch time_now error PinOther = Inl error"

fun utc_instant :: "int \<Rightarrow> exc \<Rightarrow> clock_pin \<Rightarrow> int result" where
  "utc_instant clock error PinNone = Inr clock"
| "utc_instant clock error (PinNaive wall) = Inr wall"
| "utc_instant clock error (PinAware wall offset) =
     (if in_datetime_range (wall - offset) then Inr (wall - offset) else Inl error)"
| "utc_instant clock error PinRaises = Inl error"
| "utc_instant clock error PinOther = Inl error"

definition utc_window :: "int \<Rightarrow> exc \<Rightarrow> clock_pin \<Rightarrow> json \<Rightarrow> (int \<times> int) result" where
  "utc_window clock error now leeway_s =
     bindR (utc_instant clock error now) (\<lambda>instant.
     bindR (leeway_seconds error leeway_s) (\<lambda>s. Inr (instant, 1000000 * s)))"

section \<open>The validity window\<close>

text \<open>\<open>str.isspace\<close>, what \<open>strip()\<close> removes.\<close>

definition py_space :: "nat \<Rightarrow> bool" where
  "py_space c = (9 \<le> c \<and> c \<le> 13 \<or> 28 \<le> c \<and> c \<le> 32 \<or> c \<in> {133, 160, 5760, 8232, 8233, 8239, 8287, 12288} \<or>
                 8192 \<le> c \<and> c \<le> 8202)"

definition strip :: "str \<Rightarrow> str" where
  "strip s = rev (dropWhile py_space (rev (dropWhile py_space s)))"

definition utc_suffix :: "str \<Rightarrow> str" where
  "utc_suffix text = (if text \<noteq> [] \<and> last text \<in> {90, 122} then butlast text @ lit ''+00:00'' else text)"

text \<open>\<open>_FRACTION.sub(..., count=1)\<close>\<close>

fun fraction_sub :: "(nat \<Rightarrow> bool) \<Rightarrow> str \<Rightarrow> str" where
  "fraction_sub nd [] = []"
| "fraction_sub nd (c # s) =
     (if c = 46 \<and> s \<noteq> [] \<and> nd (hd s)
      then 46 # take 6 (takeWhile nd s @ lit ''000000'') @ dropWhile nd s
      else c # fraction_sub nd s)"

text \<open>\<open>fromisoformat\<close> gives the instant of the text read as UTC when it has no offset; \<open>None\<close> is \<open>ValueError\<close>.\<close>

definition parse_ts :: "(nat \<Rightarrow> bool) \<Rightarrow> (str \<Rightarrow> int option) \<Rightarrow> json \<Rightarrow> int option" where
  "parse_ts nd fromisoformat value =
     (case value of
        JStr s \<Rightarrow> if s = [] then None else fromisoformat (fraction_sub nd (utc_suffix (strip s)))
      | _ \<Rightarrow> None)"

definition blank :: "json \<Rightarrow> bool" where
  "blank raw = (case raw of JNull \<Rightarrow> True | JStr s \<Rightarrow> strip s = [] | _ \<Rightarrow> False)"

fun ts_bound :: "(json \<Rightarrow> int option) \<Rightarrow> jobj \<Rightarrow> str list \<Rightarrow> int option result" where
  "ts_bound ts document [] = Inr None"
| "ts_bound ts document (key # keys) =
     (let raw = jget key document
      in if blank raw then ts_bound ts document keys
         else case ts raw of None \<Rightarrow> Inl MalformedTimestamp | Some t \<Rightarrow> Inr (Some t))"

definition check_validity_window ::
    "(json \<Rightarrow> int option) \<Rightarrow> int \<Rightarrow> jobj \<Rightarrow> jobj \<Rightarrow> clock_pin \<Rightarrow> json \<Rightarrow> bool \<Rightarrow> bool result" where
  "check_validity_window ts clock document proof now leeway_s check_temporal =
     bindR (utc_window clock ProofError now leeway_s) (\<lambda>(instant, leeway).
     bindR (ts_bound ts document [lit ''validFrom'', lit ''issuanceDate'']) (\<lambda>not_before.
       if (case not_before of None \<Rightarrow> False | Some t \<Rightarrow> leeway < t - instant) then Inl CredentialNotYetValid
       else
     bindR (ts_bound ts document [lit ''validUntil'', lit ''expirationDate'']) (\<lambda>not_after.
       let late = (case not_after of None \<Rightarrow> False | Some t \<Rightarrow> leeway < instant - t)
       in if late \<and> check_temporal then Inl CredentialExpired
       else
     bindR (ts_bound ts proof [lit ''expires'', lit ''expirationDate'']) (\<lambda>proof_expires.
       let late' = (case proof_expires of None \<Rightarrow> False | Some t \<Rightarrow> leeway < instant - t)
       in if late' \<and> check_temporal then Inl CredentialExpired else Inr (late \<or> late')))))"

section \<open>The Data Integrity preamble\<close>

text \<open>\<open>proof_config["@context"] = ...\<close> after the copy without \<open>proofValue\<close>.\<close>

definition prepare_di_proof :: "jobj \<Rightarrow> str \<Rightarrow> str \<Rightarrow> (jobj \<times> jobj \<times> bytes) result" where
  "prepare_di_proof secured proof_type cryptosuite =
     (if nesting_exceeds (JObj secured) MAX_DEPTH then Inl ProofMalformed
      else case jget (lit ''proof'') secured of
             JObj proof \<Rightarrow>
               (if jget (lit ''type'') proof \<noteq> JStr proof_type then Inl ProofMalformed
                else if jget (lit ''cryptosuite'') proof \<noteq> JStr cryptosuite then Inl UnsupportedCryptosuite
                else case jget (lit ''proofValue'') proof of
                       JStr v \<Rightarrow>
                         bindR (catchR (\<lambda>_. True) ProofMalformed (decode_multibase v)) (\<lambda>signature.
                           Inr (proof,
                                AList.update (lit ''@context'') (jget (lit ''@context'') secured)
                                  (dict_del (lit ''proofValue'') proof),
                                signature))
                     | _ \<Rightarrow> Inl ProofMalformed)
           | _ \<Rightarrow> Inl ProofMalformed)"

section \<open>JWT dates\<close>

text \<open>The number a JSON value is in arithmetic (a \<open>bool\<close> is an \<open>int\<close>); \<open>TypeError\<close> otherwise.\<close>

fun py_num :: "json \<Rightarrow> num result" where
  "py_num (JInt n) = Inr (NInt n)"
| "py_num (JFloat f) = Inr (NFloat f)"
| "py_num (JBool b) = Inr (NInt (if b then 1 else 0))"
| "py_num _ = Inl PyTypeError"

fun is_numeric_date :: "json \<Rightarrow> bool" where
  "is_numeric_date (JInt n) = (case isfinite (NInt n) of Inr b \<Rightarrow> b | Inl _ \<Rightarrow> False)"
| "is_numeric_date (JFloat f) = (case isfinite (NFloat f) of Inr b \<Rightarrow> b | Inl _ \<Rightarrow> False)"
| "is_numeric_date _ = False"

definition check_numeric_dates :: "jobj \<Rightarrow> str list \<Rightarrow> unit result" where
  "check_numeric_dates claims names =
     (if list_ex (\<lambda>name. has_key name claims \<and> \<not> is_numeric_date (jget name claims)) names
      then Inl ClaimsInvalid else Inr ())"

text \<open>\<open>name in claims and current - claims[name] >= leeway_s\<close>, and \<open>claims[name] - current > leeway_s\<close>.\<close>

definition past_by :: "num \<Rightarrow> jobj \<Rightarrow> str \<Rightarrow> int \<Rightarrow> bool result" where
  "past_by current claims name leeway =
     (if has_key name claims
      then bindR (py_num (jget name claims)) (\<lambda>x. bindR (num_sub current x) (\<lambda>d. Inr (num_le (NInt leeway) d)))
      else Inr False)"

definition ahead_by :: "num \<Rightarrow> jobj \<Rightarrow> str \<Rightarrow> int \<Rightarrow> bool result" where
  "ahead_by current claims name leeway =
     (if has_key name claims
      then bindR (py_num (jget name claims)) (\<lambda>x. bindR (num_sub x current) (\<lambda>d. Inr (num_lt (NInt leeway) d)))
      else Inr False)"

definition check_jwt_temporal :: "num \<Rightarrow> jobj \<Rightarrow> json \<Rightarrow> bool \<Rightarrow> bool result" where
  "check_jwt_temporal current claims leeway_s check_temporal =
     bindR (leeway_seconds ClaimsInvalid leeway_s) (\<lambda>leeway.
     bindR (check_numeric_dates claims [lit ''exp'', lit ''nbf'', lit ''iat'']) (\<lambda>_.
     bindR (past_by current claims (lit ''exp'') leeway) (\<lambda>late.
       if late \<and> check_temporal then Inl ClaimsInvalid
       else
     bindR (ahead_by current claims (lit ''nbf'') leeway) (\<lambda>early.
       if early then Inl ClaimsInvalid
       else
     bindR (ahead_by current claims (lit ''iat'') leeway) (\<lambda>future.
       if future then Inl ClaimsInvalid else Inr late)))))"

definition check_iat_freshness :: "json \<Rightarrow> int \<Rightarrow> json \<Rightarrow> num \<Rightarrow> int result" where
  "check_iat_freshness iat max_age_s leeway_s current =
     bindR (leeway_seconds ClaimsInvalid leeway_s) (\<lambda>leeway.
       if iat = JNull then Inl ClaimsInvalid
       else if \<not> is_numeric_date iat then Inl ClaimsInvalid
       else
     bindR (py_num iat) (\<lambda>x.
     bindR (num_sub current x) (\<lambda>age.
       if num_lt (NInt (max_age_s + leeway)) age then Inl ClaimsInvalid
       else
     bindR (num_sub x current) (\<lambda>ahead.
       if num_lt (NInt leeway) ahead then Inl ClaimsInvalid else Inr (num_trunc x)))))"

section \<open>Audience\<close>

definition check_expected_audience :: "json \<Rightarrow> unit result" where
  "check_expected_audience audience =
     (case audience of
        JNull \<Rightarrow> Inr ()
      | JStr s \<Rightarrow> if s = [] then Inl ClaimsInvalid else Inr ()
      | _ \<Rightarrow> Inl ClaimsInvalid)"

definition audiences :: "json \<Rightarrow> json list option" where
  "audiences aud = (case aud of JStr s \<Rightarrow> Some [aud] | JList xs \<Rightarrow> if list_all is_jstr xs then Some xs else None | _ \<Rightarrow> None)"

definition check_jwt_audience :: "jobj \<Rightarrow> json \<Rightarrow> bool \<Rightarrow> unit result" where
  "check_jwt_audience claims audience require_present =
     (if \<not> has_key (lit ''aud'') claims \<and> \<not> require_present then Inr ()
      else bindR (check_expected_audience audience) (\<lambda>_.
        if \<not> has_key (lit ''aud'') claims then (if audience \<noteq> JNull then Inl ClaimsInvalid else Inr ())
        else case audiences (jget (lit ''aud'') claims) of
               None \<Rightarrow> Inl ClaimsInvalid
             | Some auds \<Rightarrow>
                 if audience = JNull then Inl ClaimsInvalid
                 else if audience \<notin> set auds then Inl ClaimsInvalid
                 else Inr ()))"

section \<open>Purpose and binding\<close>

definition check_proof_purpose :: "jobj \<Rightarrow> str option \<Rightarrow> unit result" where
  "check_proof_purpose proof expected =
     (case expected of
        None \<Rightarrow> Inr ()
      | Some p \<Rightarrow> if jget (lit ''proofPurpose'') proof \<noteq> JStr p then Inl ProofPurposeMismatch else Inr ())"

definition check_presentation_binding :: "jobj \<Rightarrow> str option \<Rightarrow> str option \<Rightarrow> unit result" where
  "check_presentation_binding proof expected_challenge expected_domain =
     (if (case expected_challenge of None \<Rightarrow> False | Some c \<Rightarrow> jget (lit ''challenge'') proof \<noteq> JStr c)
      then Inl PresentationBindingError
      else case expected_domain of
             None \<Rightarrow> Inr ()
           | Some d \<Rightarrow>
               (let domain = jget (lit ''domain'') proof
                in if domain = JStr d \<or> (case domain of JList xs \<Rightarrow> JStr d \<in> set xs | _ \<Rightarrow> False)
                   then Inr () else Inl PresentationBindingError))"

section \<open>Key resolution\<close>

text \<open>\<open>s.split("#", 1)[0]\<close>\<close>

definition before_hash :: "str \<Rightarrow> str" where
  "before_hash s = takeWhile (\<lambda>c. c \<noteq> 35) s"

text \<open>
  The injected resolver: its \<open>supports\<close>, when it has one, and its \<open>resolve\<close>. \<open>UnsupportedDidMethod\<close> means \<open>None\<close>;
  \<open>DidResolutionError\<close> and its subclasses become \<open>KeyResolutionError\<close>.
\<close>

record vm_resolver =
  vr_supports :: "(str \<Rightarrow> bool) option"
  vr_resolve :: "str \<Rightarrow> did_document result"

definition is_resolution_error :: "exc \<Rightarrow> bool" where
  "is_resolution_error e = (e \<in> {DidResolutionError, DidWebvhError, UnsafeUrlError})"

definition ask_resolver :: "vm_resolver option \<Rightarrow> str \<Rightarrow> did_document option result" where
  "ask_resolver resolver did =
     (case resolver of
        None \<Rightarrow> Inr None
      | Some r \<Rightarrow>
          (if (case vr_supports r of None \<Rightarrow> True | Some f \<Rightarrow> f did)
           then (case vr_resolve r did of
                   Inr doc \<Rightarrow> Inr (Some doc)
                 | Inl e \<Rightarrow> if e = UnsupportedDidMethod then Inr None
                            else if is_resolution_error e then Inl KeyResolutionError else Inl e)
           else Inr None))"

definition resolve_document ::
    "(str \<Rightarrow> bytes \<Rightarrow> (nat \<times> nat) result) \<Rightarrow> vm_resolver option \<Rightarrow> str \<Rightarrow> did_document result" where
  "resolve_document ec_point resolver did =
     bindR (ask_resolver resolver did) (\<lambda>found.
       case found of
         Some doc \<Rightarrow> Inr doc
       | None \<Rightarrow>
           (if \<not> starts_with (lit ''did:key:'') did then Inl KeyResolutionError
            else catchR is_resolution_error KeyResolutionError (did_key_resolve ec_point did)))"

text \<open>\<open>proof_purpose or "assertionMethod"\<close>\<close>

definition effective_purpose :: "json \<Rightarrow> str" where
  "effective_purpose proof_purpose =
     (case proof_purpose of JStr p \<Rightarrow> if p = [] then lit ''assertionMethod'' else p | _ \<Rightarrow> lit ''assertionMethod'')"

definition authorized_key :: "did_document \<Rightarrow> str \<Rightarrow> str \<Rightarrow> jobj result" where
  "authorized_key doc kid purpose =
     (case key_for_purpose doc (JStr kid) (JStr purpose) of
        Some vm \<Rightarrow> Inr (vm_jwk vm)
      | None \<Rightarrow>
          (case methods_with_id doc (Some kid) (doc_base doc) of
             [vm] \<Rightarrow> Inl ProofPurposeMismatch
           | _ \<Rightarrow> Inl KeyResolutionError))"

definition resolve_verification_key ::
    "(str \<Rightarrow> bytes \<Rightarrow> (nat \<times> nat) result) \<Rightarrow> vm_resolver option \<Rightarrow> json \<Rightarrow> json \<Rightarrow> jobj result" where
  "resolve_verification_key ec_point resolver verification_method proof_purpose =
     (case verification_method of
        JStr kid \<Rightarrow>
          (if kid = [] then Inl KeyResolutionError
           else if proof_purpose \<noteq> JNull \<and> \<not> is_jstr proof_purpose then Inl ProofMalformed
           else bindR (resolve_document ec_point resolver (before_hash kid)) (\<lambda>doc.
                  authorized_key doc kid (effective_purpose proof_purpose)))
      | _ \<Rightarrow> Inl KeyResolutionError)"

section \<open>Algorithm selection\<close>

definition ALG_PROFILE :: "(str, str \<times> str \<times> str) dict" where
  "ALG_PROFILE = [(lit ''EdDSA'', (lit ''OKP'', lit ''Ed25519'', lit ''sha256'')),
                  (lit ''ES256'', (lit ''EC'', lit ''P-256'', lit ''sha256'')),
                  (lit ''ES384'', (lit ''EC'', lit ''P-384'', lit ''sha384''))]"

fun match_loop :: "json \<Rightarrow> json \<Rightarrow> str list \<Rightarrow> str result" where
  "match_loop kty crv [] = Inl ProofMalformed"
| "match_loop kty crv (alg # algs) =
     (case map_of ALG_PROFILE alg of
        None \<Rightarrow> Inl PyKeyError
      | Some (p_kty, p_crv, _) \<Rightarrow>
          if kty = JStr p_kty \<and> crv = JStr p_crv then Inr alg else match_loop kty crv algs)"

definition match_alg :: "jobj \<Rightarrow> str list \<Rightarrow> str result" where
  "match_alg jwk allowed_algs = match_loop (jget (lit ''kty'') jwk) (jget (lit ''crv'') jwk) (sort allowed_algs)"

section \<open>Lemmas: numbers\<close>

text \<open>Numbers whose differences are rounded at most once: integers a double holds exactly, and finite doubles.\<close>

fun exact_num :: "num \<Rightarrow> bool" where
  "exact_num (NInt n) = (\<bar>n\<bar> \<le> 2 ^ 53)"
| "exact_num (NFloat (FFin a)) = True"
| "exact_num (NFloat x) = False"

lemma num_sub_exact:
  assumes "exact_num a" "exact_num b"
  shows "\<exists>d. num_sub a b = Inr d \<and>
     (d = NFloat (fl (num_val a - num_val b)) \<or> (\<exists>k. d = NInt k \<and> of_int k = num_val a - num_val b))"
proof -
  have f: "float_of_int n = Inr (FFin (of_int n))" if "\<bar>n\<bar> \<le> 2 ^ 53" for n
    using fl_exact [OF that] by (simp add: float_of_int_def)
  show ?thesis
    using assms by (cases a rule: exact_num.cases; cases b rule: exact_num.cases) (auto simp: f)
qed

lemma small_int: "0 \<le> L \<Longrightarrow> L \<le> MAX_LEEWAY_S \<Longrightarrow> \<bar>L\<bar> \<le> 2 ^ 53"
  by (simp add: MAX_LEEWAY_S_def)

lemma diff_ge: "exact_num a \<Longrightarrow> exact_num b \<Longrightarrow> num_sub a b = Inr d \<Longrightarrow> \<bar>L\<bar> \<le> 2 ^ 53 \<Longrightarrow>
    of_int L \<le> num_val a - num_val b \<Longrightarrow> num_le (NInt L) d"
  using num_sub_exact [of a b] binary64.rnd_ge_int [of L "num_val a - num_val b"] by auto

lemma diff_gt: "exact_num a \<Longrightarrow> exact_num b \<Longrightarrow> num_sub a b = Inr d \<Longrightarrow> \<bar>L\<bar> \<le> 2 ^ 53 \<Longrightarrow>
    num_lt (NInt L) d \<Longrightarrow> of_int L < num_val a - num_val b"
  using num_sub_exact [of a b] binary64.rnd_le_int [of L "num_val a - num_val b"]
  by (auto simp: num_lt_def) (metis linorder_not_le of_int_less_iff)+

lemma numeric_date_int: "\<bar>n\<bar> \<le> 2 ^ 53 \<Longrightarrow> is_numeric_date (JInt n)"
  using fl_exact [of n] by (simp add: float_of_int_def)

section \<open>Lemmas: dates and windows\<close>

lemma leeway_Inr: "leeway_seconds err v = Inr L \<longleftrightarrow> v = JInt L \<and> 0 \<le> L \<and> L \<le> MAX_LEEWAY_S"
  by (cases v) (auto simp: leeway_seconds_def)

lemma leeway_Inl: "leeway_seconds err v = Inl e \<Longrightarrow> e = err"
  by (auto simp: leeway_seconds_def split: option.splits if_splits)

text \<open>The claim \<open>name\<close>, when present, is an integer a double holds.\<close>

definition int_claim :: "jobj \<Rightarrow> str \<Rightarrow> int option \<Rightarrow> bool" where
  "int_claim claims name v = (map_of claims name = map_option JInt v \<and> (\<forall>n. v = Some n \<longrightarrow> \<bar>n\<bar> \<le> 2 ^ 53))"

lemma past_by_int:
  "int_claim claims name v \<Longrightarrow>
     past_by (NInt c) claims name L = Inr (case v of None \<Rightarrow> False | Some e \<Rightarrow> e + L \<le> c)"
  by (cases v) (auto simp: past_by_def int_claim_def has_key_map_of jget_def)

lemma ahead_by_int:
  "int_claim claims name v \<Longrightarrow>
     ahead_by (NInt c) claims name L = Inr (case v of None \<Rightarrow> False | Some n \<Rightarrow> c + L < n)"
  by (cases v) (auto simp: ahead_by_def int_claim_def has_key_map_of jget_def num_lt_def)

lemma numeric_claim: "int_claim claims name v \<Longrightarrow> has_key name claims \<Longrightarrow> is_numeric_date (jget name claims)"
  by (cases v) (auto simp: int_claim_def has_key_map_of jget_def simp del: is_numeric_date.simps intro: numeric_date_int)

lemma past_by_exact:
  assumes "past_by current claims name L = Inr late" "exact_num current" "\<bar>L\<bar> \<le> 2 ^ 53"
    "has_key name claims" "py_num (jget name claims) = Inr x" "exact_num x" "\<not> late"
  shows "num_val current < num_val x + of_int L"
proof -
  obtain d where "num_sub current x = Inr d" "late = num_le (NInt L) d"
    using assms by (auto simp: past_by_def result_simps)
  then show ?thesis using diff_ge [of current x d L] assms by force
qed

lemma ahead_by_exact:
  assumes "ahead_by current claims name L = Inr True" "exact_num current" "\<bar>L\<bar> \<le> 2 ^ 53"
    "py_num (jget name claims) = Inr x" "exact_num x"
  shows "num_val current + of_int L < num_val x"
proof -
  obtain d where "num_sub x current = Inr d" "num_lt (NInt L) d"
    using assms by (auto simp: ahead_by_def result_simps split: if_splits)
  then show ?thesis using diff_gt [of x current d L] assms by force
qed

definition outside :: "bool \<Rightarrow> int \<Rightarrow> int option \<Rightarrow> bool" where
  "outside after d t = (case t of None \<Rightarrow> False | Some x \<Rightarrow> if after then d < x else x < d)"

lemma ts_bound_error: "ts_bound ts d ks = Inl e \<Longrightarrow> e = MalformedTimestamp"
  by (induction ks) (auto simp: Let_def split: if_splits option.splits)

text \<open>The window in closed form: the earliest and latest instants the three bounds allow.\<close>

lemma window_Inr:
  "check_validity_window ts clock document proof now leeway_s check_temporal = Inr expired \<longleftrightarrow>
     (\<exists>instant leeway nb na pe.
        utc_window clock ProofError now leeway_s = Inr (instant, leeway) \<and>
        ts_bound ts document [lit ''validFrom'', lit ''issuanceDate''] = Inr nb \<and>
        ts_bound ts document [lit ''validUntil'', lit ''expirationDate''] = Inr na \<and>
        ts_bound ts proof [lit ''expires'', lit ''expirationDate''] = Inr pe \<and>
        \<not> outside True (instant + leeway) nb \<and>
        expired = (outside False (instant - leeway) na \<or> outside False (instant - leeway) pe) \<and>
        (check_temporal \<longrightarrow> \<not> expired))"
proof -
  have o: "(case nb of None \<Rightarrow> False | Some t \<Rightarrow> leeway < t - instant) = outside True (instant + leeway) nb"
    "(case na of None \<Rightarrow> False | Some t \<Rightarrow> leeway < instant - t) = outside False (instant - leeway) na"
    for nb na leeway instant by (auto simp: outside_def split: option.splits)
  have u: "(case x of (instant, leeway) \<Rightarrow> f instant leeway) = r \<longleftrightarrow> (\<exists>instant leeway. x = (instant, leeway) \<and> f instant leeway = r)"
    for x :: "int \<times> int" and f and r :: "bool result" by (cases x) auto
  have i: "(if b then Inl e else m) = Inr y \<longleftrightarrow> \<not> b \<and> m = Inr y" for b e and m :: "bool result" and y by simp
  show ?thesis
    unfolding check_validity_window_def o Let_def bindR_Inr u i by (simp only: sum.inject) blast
qed

lemma window_naive:
  "utc_window clock err (PinNaive t) v = Inr (instant, leeway) \<longleftrightarrow>
     instant = t \<and> (\<exists>L. leeway = 1000000 * L \<and> leeway_seconds err v = Inr L)"
  by (auto simp: utc_window_def result_simps)

lemma iat_freshness_Inr:
  assumes "check_iat_freshness iat age leeway_s (NInt c) = Inr t" "iat = JInt n" 
  shows "\<exists>L. leeway_s = JInt L \<and> 0 \<le> L \<and> L \<le> MAX_LEEWAY_S \<and> c \<le> n + age + L \<and> n \<le> c + L \<and> t = n"
  using assms by (auto simp: check_iat_freshness_def result_simps leeway_Inr num_lt_def split: if_splits)

lemma iat_freshness_required: "check_iat_freshness iat age leeway_s current = Inr t \<Longrightarrow> is_numeric_date iat"
  by (auto simp: check_iat_freshness_def result_simps split: if_splits)

section \<open>Lemmas: keys\<close>

lemma authorized_key_Inr:
  "authorized_key doc kid purpose = Inr jwk \<longleftrightarrow> (\<exists>vm. key_for_purpose doc (JStr kid) (JStr purpose) = Some vm \<and> jwk = vm_jwk vm)"
  by (auto simp: authorized_key_def split: option.splits list.splits)

lemma audiences_Some: "audiences aud = Some xs \<longleftrightarrow> (\<exists>s. aud = JStr s \<and> xs = [aud]) \<or> aud = JList xs \<and> list_all is_jstr xs"
  by (cases aud) (auto simp: audiences_def)

lemma methods_single:
  "(case methods_with_id doc (Some kid) (doc_base doc) of [vm] \<Rightarrow> Inl ProofPurposeMismatch | _ \<Rightarrow> Inl KeyResolutionError) =
     (Inl (if length (filter (\<lambda>vm. absolute (doc_base doc) (vm_id vm) = Some kid) (dd_methods doc)) = 1
          then ProofPurposeMismatch else KeyResolutionError) :: jobj result)"
  unfolding methods_with_id_exact by (auto split: list.splits)

lemma window_waiver:
  "case check_validity_window ts clock document proof now leeway_s False of
     Inr expired \<Rightarrow> check_validity_window ts clock document proof now leeway_s True =
                       (if expired then Inl CredentialExpired else Inr False)
   | Inl e \<Rightarrow> e \<in> {ProofError, MalformedTimestamp, CredentialNotYetValid} \<and>
               check_validity_window ts clock document proof now leeway_s True \<in> {Inl e, Inl CredentialExpired}"
proof -
  define late where "late = (\<lambda>instant leeway b. case b of None \<Rightarrow> False | Some t \<Rightarrow> (leeway::int) < instant - t)"
  have e: "utc_window clock ProofError now leeway_s = Inl x \<Longrightarrow> x = ProofError" for x
    by (cases now) (auto simp: utc_window_def result_simps dest: leeway_Inl split: if_splits)
  show ?thesis
    unfolding check_validity_window_def late_def [symmetric]
    by (cases "utc_window clock ProofError now leeway_s";
        cases "ts_bound ts document [lit ''validFrom'', lit ''issuanceDate'']";
        cases "ts_bound ts document [lit ''validUntil'', lit ''expirationDate'']";
        cases "ts_bound ts proof [lit ''expires'', lit ''expirationDate'']")
       (use e in \<open>auto simp: Let_def simp del: ts_bound.simps dest: ts_bound_error\<close>)
qed

section \<open>Properties\<close>

text \<open>The JWT dates, for integer claims and clock: the token is refused for a leeway that is not whole seconds up to a
  day, at \<open>exp\<close> plus the leeway or later unless expiry is waived, and strictly before \<open>nbf\<close> or \<open>iat\<close> minus the
  leeway; otherwise the answer says whether it has expired.\<close>

theorem jwt_temporal_exact:
  assumes "int_claim claims (lit ''exp'') e" "int_claim claims (lit ''nbf'') n" "int_claim claims (lit ''iat'') i"
  shows "check_jwt_temporal (NInt c) claims (JInt L) ct =
     (let late = (case e of None \<Rightarrow> False | Some t \<Rightarrow> t + L \<le> c)
      in if 0 \<le> L \<and> L \<le> 86400 \<and> \<not> (late \<and> ct) \<and>
            (case n of None \<Rightarrow> True | Some t \<Rightarrow> t \<le> c + L) \<and> (case i of None \<Rightarrow> True | Some t \<Rightarrow> t \<le> c + L)
         then Inr late else Inl ClaimsInvalid)"
proof (cases "0 \<le> L \<and> L \<le> 86400")
  case False
  then show ?thesis by (auto simp: check_jwt_temporal_def leeway_seconds_def MAX_LEEWAY_S_def)
next
  case True
  have "check_numeric_dates claims [lit ''exp'', lit ''nbf'', lit ''iat''] = Inr ()"
    using assms by (auto simp: check_numeric_dates_def numeric_claim)
  with True show ?thesis
    unfolding check_jwt_temporal_def past_by_int [OF assms(1)] ahead_by_int [OF assms(2)] ahead_by_int [OF assms(3)]
    by (auto simp: Let_def leeway_seconds_def MAX_LEEWAY_S_def split: option.splits)
qed

theorem jwt_temporal_exact_witness:
  "check_jwt_temporal (NInt 100) [(lit ''exp'', JInt 50), (lit ''nbf'', JInt 90)] (JInt 60) True = Inr False"
proof -
  let ?c = "[(lit ''exp'', JInt 50), (lit ''nbf'', JInt 90)]"
  have "int_claim ?c (lit ''exp'') (Some 50)" "int_claim ?c (lit ''nbf'') (Some 90)" "int_claim ?c (lit ''iat'') None"
    by (auto simp: int_claim_def)
  from jwt_temporal_exact [OF this, of 100 60 True] show ?thesis by simp
qed

text \<open>The same dates with fractions: whatever the rounding of the differences, a token that is accepted as unexpired is
  before \<open>exp\<close> plus the leeway in exact arithmetic, and one that is refused as early or pre-dated is early in exact
  arithmetic. Non-finite dates and dates of another type are always refused.\<close>

theorem jwt_temporal_rounding:
  assumes "exact_num current" "check_jwt_temporal current claims leeway ct = Inr late"
  shows "(\<exists>L. leeway = JInt L \<and> 0 \<le> L \<and> L \<le> 86400 \<and>
            (\<forall>x. has_key (lit ''exp'') claims \<and> py_num (jget (lit ''exp'') claims) = Inr x \<and> exact_num x \<and> \<not> late \<longrightarrow>
                 num_val current < num_val x + of_int L)) \<and>
         (ct \<longrightarrow> \<not> late) \<and>
         (\<forall>name\<in>{lit ''exp'', lit ''nbf'', lit ''iat''}. has_key name claims \<longrightarrow> is_numeric_date (jget name claims))"
proof -
  obtain L where L: "leeway_seconds ClaimsInvalid leeway = Inr L"
    "past_by current claims (lit ''exp'') L = Inr late" "ct \<longrightarrow> \<not> late"
    "check_numeric_dates claims [lit ''exp'', lit ''nbf'', lit ''iat''] = Inr ()"
    using assms(2) by (auto simp: check_jwt_temporal_def result_simps split: if_splits)
  have b: "leeway = JInt L" "0 \<le> L" "L \<le> MAX_LEEWAY_S" using L(1) by (auto simp: leeway_Inr)
  have "num_val current < num_val x + of_int L"
    if "has_key (lit ''exp'') claims" "py_num (jget (lit ''exp'') claims) = Inr x" "exact_num x" "\<not> late" for x
    using past_by_exact [OF L(2) assms(1) small_int [OF b(2,3)]] that by blast
  moreover have "\<forall>name\<in>{lit ''exp'', lit ''nbf'', lit ''iat''}. has_key name claims \<longrightarrow> is_numeric_date (jget name claims)"
    using L(4) by (auto simp: check_numeric_dates_def split: if_splits)
  ultimately show ?thesis using b L(3) by (auto simp: MAX_LEEWAY_S_def)
qed

theorem jwt_temporal_rounding_witness:
  "check_jwt_temporal (NFloat (FFin (1 / 2))) [(lit ''exp'', JFloat (FFin (13 / 2)))] (JInt 0) True = Inr False \<and>
   num_val (NFloat (FFin (1 / 2))) < num_val (NFloat (FFin (13 / 2))) + of_int 0"
proof -
  have s: "fl (- 6) = FFin (- 6)" using fl_exact [of "- 6"] by simp
  have c: "check_jwt_temporal (NFloat (FFin (1 / 2))) [(lit ''exp'', JFloat (FFin (13 / 2)))] (JInt 0) True = Inr False"
    using s
    by (simp add: check_jwt_temporal_def leeway_seconds_def MAX_LEEWAY_S_def check_numeric_dates_def has_key_def
        past_by_def ahead_by_def jget_def)
  show ?thesis
    using jwt_temporal_rounding [OF _ c] c by (auto simp: has_key_def jget_def)
qed

text \<open>Waiving expiry changes the verdict on expiry and nothing else: the waived check fails exactly when the enforced
  one fails for another reason, and otherwise its answer says whether the enforced one raises \<open>CredentialExpired\<close>.\<close>

theorem validity_window_waiver:
  "case check_validity_window ts clock document proof now leeway_s False of
     Inr expired \<Rightarrow> check_validity_window ts clock document proof now leeway_s True =
                       (if expired then Inl CredentialExpired else Inr False)
   | Inl e \<Rightarrow> e \<in> {ProofError, MalformedTimestamp, CredentialNotYetValid} \<and>
               check_validity_window ts clock document proof now leeway_s True \<in> {Inl e, Inl CredentialExpired}"
  by (rule window_waiver)

text \<open>The instants at which a credential verifies form an interval: accepted at two instants, it is accepted at every
  instant between them.\<close>

theorem validity_window_interval:
  assumes "check_validity_window ts clock document proof (PinNaive t1) leeway_s True = Inr False"
    "check_validity_window ts clock document proof (PinNaive t2) leeway_s True = Inr False"
    "t1 \<le> t" "t \<le> t2"
  shows "check_validity_window ts clock document proof (PinNaive t) leeway_s True = Inr False"
proof -
  from assms(1) obtain L nb where a: "leeway_seconds ProofError leeway_s = Inr L"
    "ts_bound ts document [lit ''validFrom'', lit ''issuanceDate''] = Inr nb" "\<not> outside True (t1 + 1000000 * L) nb"
    unfolding window_Inr window_naive by blast
  from assms(2) a(1) obtain na pe where b:
    "ts_bound ts document [lit ''validUntil'', lit ''expirationDate''] = Inr na" "\<not> outside False (t2 - 1000000 * L) na"
    "ts_bound ts proof [lit ''expires'', lit ''expirationDate''] = Inr pe" "\<not> outside False (t2 - 1000000 * L) pe"
    unfolding window_Inr window_naive by auto
  have "\<not> outside True (t + 1000000 * L) nb" "\<not> outside False (t - 1000000 * L) na" "\<not> outside False (t - 1000000 * L) pe"
    using a(3) b(2,4) assms(3,4) by (auto simp: outside_def split: option.splits)
  with a b show ?thesis unfolding window_Inr window_naive by blast
qed

theorem validity_window_interval_witness:
  "check_validity_window (\<lambda>v. Some 5000000) 0 [(lit ''validFrom'', JStr (lit ''x''))] [] (PinNaive 6000000) (JInt 0) True = Inr False"
proof -
  have b: "\<not> blank (JStr (lit ''x''))" by (simp add: blank_def strip_def lit_def py_space_def of_char_def)
  have "check_validity_window (\<lambda>v. Some 5000000) 0 [(lit ''validFrom'', JStr (lit ''x''))] [] (PinNaive t) (JInt 0) True = Inr False"
    if "5000000 \<le> t" for t
    using b that by (simp add: check_validity_window_def utc_window_def leeway_seconds_def MAX_LEEWAY_S_def jget_def Let_def
        blank_def split: option.splits)
  from validity_window_interval [OF this [of 5000000] this [of 7000000], of 6000000] show ?thesis by simp
qed

text \<open>Audience, exactly: a token without \<open>aud\<close> passes when presence is not required or no audience is expected; a token
  with one passes only for an expected, non-empty audience that is the string itself or a member of an array of strings.\<close>

theorem jwt_audience_exact:
  "check_jwt_audience claims audience require_present = Inr () \<longleftrightarrow>
     (case map_of claims (lit ''aud'') of
        None \<Rightarrow> if require_present then audience = JNull else True
      | Some aud \<Rightarrow> \<exists>s. audience = JStr s \<and> s \<noteq> [] \<and>
          (aud = JStr s \<or> (\<exists>xs. aud = JList xs \<and> list_all is_jstr xs \<and> JStr s \<in> set xs)))"
proof (cases "map_of claims (lit ''aud'')")
  case None
  then show ?thesis
    by (cases audience) (auto simp: check_jwt_audience_def has_key_map_of check_expected_audience_def)
next
  case (Some aud)
  then have j: "jget (lit ''aud'') claims = aud" by (simp add: jget_def)
  have m: "(\<exists>auds. audiences aud = Some auds \<and> JStr s \<in> set auds) \<longleftrightarrow>
      aud = JStr s \<or> (\<exists>xs. aud = JList xs \<and> list_all is_jstr xs \<and> JStr s \<in> set xs)" for s
    by (auto simp: audiences_Some)
  show ?thesis
  proof (cases audience)
    case (JStr s)
    then show ?thesis
      using Some j m [of s]
      by (cases "audiences aud") (auto simp: check_jwt_audience_def has_key_map_of check_expected_audience_def)
  qed (use Some j in \<open>auto simp: check_jwt_audience_def has_key_map_of check_expected_audience_def split: option.splits\<close>)
qed

text \<open>(C20) The key a Data Integrity proof is checked with: it is returned exactly when the document of the DID named by the
  verification method has one method whose id resolves to that name and the document does not deny it the purpose; a
  method that exists alone but lacks the purpose is a purpose mismatch, every other refusal after resolution is a key
  resolution error.\<close>

theorem resolve_verification_key_exact:
  assumes "resolve_document ec_point resolver (before_hash kid) = Inr doc" "kid \<noteq> []"
    "proof_purpose = JNull \<or> is_jstr proof_purpose"
  shows "resolve_verification_key ec_point resolver (JStr kid) proof_purpose =
     (case filter (\<lambda>vm. absolute (doc_base doc) (vm_id vm) = Some kid) (dd_methods doc) of
        [vm] \<Rightarrow>
          (case map_of (dd_relationships doc) (effective_purpose proof_purpose) of
             None \<Rightarrow> Inr (vm_jwk vm)
           | Some refs \<Rightarrow> if \<exists>ref\<in>set refs. absolute (doc_base doc) ref = Some kid then Inr (vm_jwk vm)
                           else Inl ProofPurposeMismatch)
      | _ \<Rightarrow> Inl KeyResolutionError)"
proof -
  let ?ms = "filter (\<lambda>vm. absolute (doc_base doc) (vm_id vm) = Some kid) (dd_methods doc)"
  let ?p = "effective_purpose proof_purpose"
  have r: "resolve_verification_key ec_point resolver (JStr kid) proof_purpose = authorized_key doc kid ?p"
    using assms by (auto simp: resolve_verification_key_def)
  show ?thesis
  proof (cases "\<exists>vm. ?ms = [vm]")
    case True
    then obtain vm where vm: "?ms = [vm]" ..
    have "select_method doc (JStr kid) (doc_base doc) = Some vm" using vm by (simp add: select_method_exact)
    have "key_for_purpose doc (JStr kid) (JStr ?p) = Some v \<longleftrightarrow> v = vm \<and>
        (case map_of (dd_relationships doc) ?p of None \<Rightarrow> True
         | Some refs \<Rightarrow> \<exists>ref\<in>set refs. absolute (doc_base doc) ref = Some kid)" for v
      using lookup_exact [of doc kid ?p v] vm by auto
    then have "key_for_purpose doc (JStr kid) (JStr ?p) =
        (if (case map_of (dd_relationships doc) ?p of None \<Rightarrow> True
             | Some refs \<Rightarrow> \<exists>ref\<in>set refs. absolute (doc_base doc) ref = Some kid) then Some vm else None)"
      by (cases "key_for_purpose doc (JStr kid) (JStr ?p)") auto
    then show ?thesis unfolding r authorized_key_def methods_single vm by (simp split: option.splits)
  next
    case False
    then have n: "length ?ms \<noteq> 1" by (metis One_nat_def length_0_conv length_Suc_conv)
    have "key_for_purpose doc (JStr kid) (JStr ?p) = None"
      using lookup_exact [of doc kid ?p] False by (cases "key_for_purpose doc (JStr kid) (JStr ?p)") auto
    moreover have "(case ?ms of [vm] \<Rightarrow> f vm | _ \<Rightarrow> c) = c" for f and c :: "jobj result"
      using n by (auto split: list.splits)
    ultimately show ?thesis unfolding r authorized_key_def methods_single using n by simp
  qed
qed

theorem resolve_verification_key_exact_witness:
  "resolve_verification_key (\<lambda>c k. Inl PyValueError)
     (Some \<lparr>vr_supports = None, vr_resolve = \<lambda>d. Inr (self_document d (lit ''k'') [(lit ''kty'', JNull)] [lit ''authentication''])\<rparr>)
     (JStr (lit ''did:x:1#k'')) JNull = Inr [(lit ''kty'', JNull)]"
proof -
  let ?r = "\<lparr>vr_supports = None, vr_resolve = \<lambda>d. Inr (self_document d (lit ''k'') [(lit ''kty'', JNull)] [lit ''authentication''])\<rparr>"
  let ?doc = "self_document (lit ''did:x:1'') (lit ''k'') [(lit ''kty'', JNull)] [lit ''authentication'']"
  have b: "before_hash (lit ''did:x:1#k'') = lit ''did:x:1''"
    by (simp add: before_hash_def lit_def of_char_def)
  have r: "resolve_document (\<lambda>c k. Inl PyValueError) (Some ?r) (before_hash (lit ''did:x:1#k'')) = Inr ?doc"
    unfolding b by (simp add: resolve_document_def ask_resolver_def)
  have a: "absolute base (lit ''did:x:1#k'') = Some (lit ''did:x:1#k'')" for base
    by (simp add: absolute_def lit_def)
  have i: "lit ''did:x:1'' @ 35 # lit ''k'' = lit ''did:x:1#k''" by (simp add: lit_def of_char_def)
  show ?thesis
    using resolve_verification_key_exact [OF r, of JNull] a
    by (simp add: self_document_def Let_def effective_purpose_def i)
qed

end
