(* ===== verification/Keys.thy ===== *)
theory Keys
  imports Jcs Verify_Common
begin

text \<open>
  openvc/keys.py: the in-process signing keys, the dependency-light signature check, and the RFC 7638 thumbprint.
  The \<open>cryptography\<close> package and \<open>hashlib\<close>'s digests are the fields of \<open>crypto\<close>: a verification answers \<open>Inr False\<close>
  where the package raises \<open>InvalidSignature\<close>, and \<open>ecdsa_verify\<close> stands for the check of the DER encoding of \<open>(r, s)\<close>
  against a public point, \<open>ValueError\<close> when the point is not on the curve.
\<close>

section \<open>The cryptographic backend\<close>

record crypto =
  ed_private :: "bytes \<Rightarrow> bytes result"
  ed_public :: "bytes \<Rightarrow> bytes"
  ed_sign :: "bytes \<Rightarrow> bytes \<Rightarrow> bytes"
  ed_verify :: "bytes \<Rightarrow> bytes \<Rightarrow> bytes \<Rightarrow> bool result"
  ec_private :: "str \<Rightarrow> nat \<Rightarrow> nat result"
  ec_public :: "str \<Rightarrow> nat \<Rightarrow> nat \<times> nat"
  ecdsa_sign :: "str \<Rightarrow> nat \<Rightarrow> bytes \<Rightarrow> nat \<times> nat"
  ecdsa_verify :: "str \<Rightarrow> nat \<times> nat \<Rightarrow> nat \<times> nat \<Rightarrow> bytes \<Rightarrow> bool result"
  ml_private :: "str \<Rightarrow> bytes \<Rightarrow> bytes result"
  ml_public :: "str \<Rightarrow> bytes \<Rightarrow> bytes"
  ml_sign :: "str \<Rightarrow> bytes \<Rightarrow> bytes \<Rightarrow> bytes result"
  ml_verify :: "str \<Rightarrow> bytes \<Rightarrow> bytes \<Rightarrow> bytes \<Rightarrow> bool result"
  digest_of :: "str \<Rightarrow> bytes \<Rightarrow> bytes"

definition P256_COORD_BYTES :: nat where "P256_COORD_BYTES = 32"

definition P384_COORD_BYTES :: nat where "P384_COORD_BYTES = 48"

definition ED25519_ALG_NAMES :: "str list" where
  "ED25519_ALG_NAMES = [lit ''EdDSA'', lit ''Ed25519'']"

definition MLDSA_ALGS :: "str list" where
  "MLDSA_ALGS = [lit ''ML-DSA-44'', lit ''ML-DSA-65'', lit ''ML-DSA-87'']"

text \<open>\<open>n.to_bytes(length, "big")\<close>\<close>

definition int_to_fixed :: "nat \<Rightarrow> nat \<Rightarrow> bytes result" where
  "int_to_fixed n len = (if n < 256 ^ len then Inr (to_bytes len n) else Inl PyOverflowError)"

text \<open>\<open>_b64url_decode(jwk[name])\<close>\<close>

definition jwk_bytes :: "jobj \<Rightarrow> str \<Rightarrow> bytes result" where
  "jwk_bytes jwk name =
     (case map_of jwk name of
        None \<Rightarrow> Inl PyKeyError
      | Some v \<Rightarrow> (case v of JStr s \<Rightarrow> b64url_decode s | _ \<Rightarrow> Inl PyTypeError))"

section \<open>Verification\<close>

definition ecdsa_check :: "crypto \<Rightarrow> str \<Rightarrow> nat \<Rightarrow> jobj \<Rightarrow> bytes \<Rightarrow> bytes \<Rightarrow> bool result" where
  "ecdsa_check cr curve sz jwk signing_input signature =
     (if length signature \<noteq> 2 * sz then Inl InvalidKey
      else bindR (jwk_bytes jwk (lit ''x'')) (\<lambda>x. bindR (jwk_bytes jwk (lit ''y'')) (\<lambda>y.
             ecdsa_verify cr curve (from_bytes x, from_bytes y)
               (from_bytes (take sz signature), from_bytes (drop sz signature)) signing_input)))"

definition is_key_value_error :: "exc \<Rightarrow> bool" where
  "is_key_value_error e = (is_value_error e \<or> e = PyKeyError \<or> e = PyTypeError)"

definition verify_signature :: "crypto \<Rightarrow> str \<Rightarrow> jobj \<Rightarrow> bytes \<Rightarrow> bytes \<Rightarrow> bool result" where
  "verify_signature cr alg public_jwk signing_input signature =
     catchR is_key_value_error InvalidKey
       (if alg \<in> set ED25519_ALG_NAMES
        then bindR (jwk_bytes public_jwk (lit ''x'')) (\<lambda>raw. ed_verify cr raw signature signing_input)
        else if alg = lit ''ES256'' then ecdsa_check cr (lit ''P-256'') P256_COORD_BYTES public_jwk signing_input signature
        else if alg = lit ''ES384'' then ecdsa_check cr (lit ''P-384'') P384_COORD_BYTES public_jwk signing_input signature
        else if alg \<in> set MLDSA_ALGS
        then bindR (jwk_bytes public_jwk (lit ''pub'')) (\<lambda>raw. ml_verify cr alg raw signature signing_input)
        else Inl InvalidKey)"

section \<open>Signing keys\<close>

text \<open>The \<open>SigningKey\<close> protocol, with the public JWK the in-process keys also give.\<close>

record signing_key =
  sk_alg :: str
  sk_kid :: str
  sk_sign :: "bytes \<Rightarrow> bytes result"
  sk_public_jwk :: "jobj result"

definition ed25519_key :: "crypto \<Rightarrow> bytes \<Rightarrow> str \<Rightarrow> str \<Rightarrow> signing_key result" where
  "ed25519_key cr sk kid alg =
     (if alg \<notin> set ED25519_ALG_NAMES then Inl InvalidKey
      else Inr \<lparr>sk_alg = alg, sk_kid = kid, sk_sign = (\<lambda>m. Inr (ed_sign cr sk m)),
                sk_public_jwk = Inr (okp_jwk (ed_public cr sk))\<rparr>)"

definition raw_signature :: "crypto \<Rightarrow> str \<Rightarrow> nat \<Rightarrow> nat \<Rightarrow> bytes \<Rightarrow> bytes result" where
  "raw_signature cr curve sz d m =
     (let (r, s) = ecdsa_sign cr curve d m
      in bindR (int_to_fixed r sz) (\<lambda>rb. bindR (int_to_fixed s sz) (\<lambda>sb. Inr (rb @ sb))))"

definition ec_public_jwk :: "crypto \<Rightarrow> str \<Rightarrow> nat \<Rightarrow> nat \<Rightarrow> jobj result" where
  "ec_public_jwk cr curve sz d =
     (let (x, y) = ec_public cr curve d
      in bindR (int_to_fixed x sz) (\<lambda>xb. bindR (int_to_fixed y sz) (\<lambda>yb.
           Inr [(lit ''kty'', JStr (lit ''EC'')), (lit ''crv'', JStr curve),
                (lit ''x'', JStr (b64url_encode xb)), (lit ''y'', JStr (b64url_encode yb))])))"

definition p256_key :: "crypto \<Rightarrow> nat \<Rightarrow> str \<Rightarrow> signing_key" where
  "p256_key cr d kid =
     \<lparr>sk_alg = lit ''ES256'', sk_kid = kid, sk_sign = raw_signature cr (lit ''P-256'') P256_COORD_BYTES d,
      sk_public_jwk = ec_public_jwk cr (lit ''P-256'') P256_COORD_BYTES d\<rparr>"

definition p384_key :: "crypto \<Rightarrow> nat \<Rightarrow> str \<Rightarrow> signing_key" where
  "p384_key cr d kid =
     \<lparr>sk_alg = lit ''ES384'', sk_kid = kid, sk_sign = raw_signature cr (lit ''P-384'') P384_COORD_BYTES d,
      sk_public_jwk = ec_public_jwk cr (lit ''P-384'') P384_COORD_BYTES d\<rparr>"

definition mldsa_key :: "crypto \<Rightarrow> bytes \<Rightarrow> str \<Rightarrow> str \<Rightarrow> signing_key result" where
  "mldsa_key cr sk kid alg =
     (if alg \<notin> set MLDSA_ALGS then Inl InvalidKey
      else Inr \<lparr>sk_alg = alg, sk_kid = kid,
                sk_sign = (\<lambda>m. catchR (\<lambda>_. True) InvalidKey (ml_sign cr alg sk m)),
                sk_public_jwk = Inr [(lit ''kty'', JStr (lit ''AKP'')), (lit ''alg'', JStr alg),
                                     (lit ''pub'', JStr (b64url_encode (ml_public cr alg sk)))]\<rparr>)"

definition is_private_jwk :: "jobj \<Rightarrow> str \<Rightarrow> str \<Rightarrow> bool" where
  "is_private_jwk jwk kty crv =
     (jget (lit ''kty'') jwk = JStr kty \<and> jget (lit ''crv'') jwk = JStr crv \<and> has_key (lit ''d'') jwk)"

definition ed25519_from_jwk :: "crypto \<Rightarrow> jobj \<Rightarrow> str \<Rightarrow> str \<Rightarrow> signing_key result" where
  "ed25519_from_jwk cr jwk kid alg =
     (if \<not> is_private_jwk jwk (lit ''OKP'') (lit ''Ed25519'') then Inl InvalidKey
      else bindR (jwk_bytes jwk (lit ''d'')) (\<lambda>d. bindR (ed_private cr d) (\<lambda>sk. ed25519_key cr sk kid alg)))"

definition p256_from_jwk :: "crypto \<Rightarrow> jobj \<Rightarrow> str \<Rightarrow> signing_key result" where
  "p256_from_jwk cr jwk kid =
     (if \<not> is_private_jwk jwk (lit ''EC'') (lit ''P-256'') then Inl InvalidKey
      else bindR (jwk_bytes jwk (lit ''d'')) (\<lambda>d.
             bindR (ec_private cr (lit ''P-256'') (from_bytes d)) (\<lambda>sk. Inr (p256_key cr sk kid))))"

definition p384_from_jwk :: "crypto \<Rightarrow> jobj \<Rightarrow> str \<Rightarrow> signing_key result" where
  "p384_from_jwk cr jwk kid =
     (if \<not> is_private_jwk jwk (lit ''EC'') (lit ''P-384'') then Inl InvalidKey
      else bindR (jwk_bytes jwk (lit ''d'')) (\<lambda>d.
             catchR is_value_error InvalidKey
               (bindR (ec_private cr (lit ''P-384'') (from_bytes d)) (\<lambda>sk. Inr (p384_key cr sk kid)))))"

definition MLDSA_SEED_BYTES :: nat where "MLDSA_SEED_BYTES = 32"

definition mldsa_from_seed :: "crypto \<Rightarrow> bytes \<Rightarrow> str \<Rightarrow> str \<Rightarrow> signing_key result" where
  "mldsa_from_seed cr seed kid alg =
     (if alg \<notin> set MLDSA_ALGS then Inl InvalidKey
      else if length seed \<noteq> MLDSA_SEED_BYTES then Inl InvalidKey
      else bindR (ml_private cr alg seed) (\<lambda>sk. mldsa_key cr sk kid alg))"

definition mldsa_from_jwk :: "crypto \<Rightarrow> jobj \<Rightarrow> str \<Rightarrow> signing_key result" where
  "mldsa_from_jwk cr jwk kid =
     (if jget (lit ''kty'') jwk \<noteq> JStr (lit ''AKP'') \<or> \<not> has_key (lit ''priv'') jwk then Inl InvalidKey
      else case text_opt (jget (lit ''alg'') jwk) of
             None \<Rightarrow> Inl InvalidKey
           | Some alg \<Rightarrow>
               if alg \<notin> set MLDSA_ALGS then Inl InvalidKey
               else bindR (jwk_bytes jwk (lit ''priv'')) (\<lambda>seed. mldsa_from_seed cr seed kid alg))"

definition signing_key_from_jwk :: "crypto \<Rightarrow> jobj \<Rightarrow> str \<Rightarrow> signing_key result" where
  "signing_key_from_jwk cr jwk kid =
     (let kty = jget (lit ''kty'') jwk; crv = jget (lit ''crv'') jwk
      in if kty = JStr (lit ''OKP'') \<and> crv = JStr (lit ''Ed25519'') then ed25519_from_jwk cr jwk kid (lit ''EdDSA'')
         else if kty = JStr (lit ''EC'') \<and> crv = JStr (lit ''P-256'') then p256_from_jwk cr jwk kid
         else if kty = JStr (lit ''EC'') \<and> crv = JStr (lit ''P-384'') then p384_from_jwk cr jwk kid
         else if kty = JStr (lit ''AKP'') then mldsa_from_jwk cr jwk kid
         else Inl InvalidKey)"

section \<open>Thumbprints\<close>

definition THUMBPRINT_HASHES :: "str list" where
  "THUMBPRINT_HASHES = [lit ''sha-256'', lit ''sha-384'', lit ''sha-512'']"

definition THUMBPRINT_MEMBERS :: "(str, str list) dict" where
  "THUMBPRINT_MEMBERS =
     [(lit ''EC'', [lit ''crv'', lit ''kty'', lit ''x'', lit ''y'']), (lit ''OKP'', [lit ''crv'', lit ''kty'', lit ''x'']),
      (lit ''RSA'', [lit ''e'', lit ''kty'', lit ''n'']), (lit ''oct'', [lit ''k'', lit ''kty''])]"

definition thumbprint_member :: "jobj \<Rightarrow> str \<Rightarrow> (str \<times> str) result" where
  "thumbprint_member jwk name =
     (case text_opt (jget name jwk) of
        None \<Rightarrow> Inl InvalidKey
      | Some v \<Rightarrow> bindR (catchR (\<lambda>_. True) InvalidKey (utf8_encode v)) (\<lambda>_. Inr (name, v)))"

text \<open>\<open>json.dumps(canonical, sort_keys=True, separators=(",", ":"), ensure_ascii=False)\<close> of a dict of strings.\<close>

definition dumps_strings :: "(str \<times> str) list \<Rightarrow> str" where
  "dumps_strings members =
     [123] @ join_with 44 (map (\<lambda>kv. escape_string (fst kv) @ [58] @ escape_string (snd kv)) (sort_key fst members)) @ [125]"

definition canonical_members :: "jobj \<Rightarrow> (str \<times> str) list result" where
  "canonical_members jwk =
     (case text_opt (jget (lit ''kty'') jwk) of
        None \<Rightarrow> Inl InvalidKey
      | Some kty \<Rightarrow>
          (case map_of THUMBPRINT_MEMBERS kty of
             None \<Rightarrow> Inl InvalidKey
           | Some members \<Rightarrow> mapR (thumbprint_member jwk) members))"

definition thumbprint_text :: "jobj \<Rightarrow> bytes result" where
  "thumbprint_text jwk = bindR (canonical_members jwk) (\<lambda>canonical. utf8_encode (dumps_strings canonical))"

definition jwk_thumbprint_bytes :: "crypto \<Rightarrow> jobj \<Rightarrow> str \<Rightarrow> bytes result" where
  "jwk_thumbprint_bytes cr jwk hash_name =
     (if hash_name \<notin> set THUMBPRINT_HASHES then Inl InvalidKey
      else bindR (thumbprint_text jwk) (\<lambda>serialized. Inr (digest_of cr hash_name serialized)))"

definition jwk_thumbprint :: "crypto \<Rightarrow> jobj \<Rightarrow> str \<Rightarrow> str result" where
  "jwk_thumbprint cr jwk hash_name =
     bindR (jwk_thumbprint_bytes cr jwk hash_name) (\<lambda>d. Inr (b64url_encode d))"

section \<open>What the backend promises\<close>

definition curve_ok :: "crypto \<Rightarrow> str \<Rightarrow> nat \<Rightarrow> bool" where
  "curve_ok cr c sz \<longleftrightarrow>
     (\<forall>k d m. ec_private cr c k = Inr d \<longrightarrow>
        fst (ec_public cr c d) < 256 ^ sz \<and> snd (ec_public cr c d) < 256 ^ sz \<and>
        fst (ecdsa_sign cr c d m) < 256 ^ sz \<and> snd (ecdsa_sign cr c d m) < 256 ^ sz \<and>
        ecdsa_verify cr c (ec_public cr c d) (ecdsa_sign cr c d m) m = Inr True)"

text \<open>A signature made with a loaded private key verifies with its public key; coordinates and signature halves have the
  width of the curve.\<close>

definition backend_ok :: "crypto \<Rightarrow> bool" where
  "backend_ok cr \<longleftrightarrow>
     (\<forall>k sk m. ed_private cr k = Inr sk \<longrightarrow> ed_verify cr (ed_public cr sk) (ed_sign cr sk m) m = Inr True) \<and>
     curve_ok cr (lit ''P-256'') 32 \<and> curve_ok cr (lit ''P-384'') 48 \<and>
     (\<forall>a k sk m sg. ml_private cr a k = Inr sk \<and> ml_sign cr a sk m = Inr sg \<longrightarrow> ml_verify cr a (ml_public cr a sk) sg m = Inr True)"

section \<open>Lemmas\<close>

lemma b64url_empty: "jwk_bytes ((k, JStr (b64url_encode b)) # r) k = Inr b"
  by (simp add: jwk_bytes_def)

lemma jwk_bytes_skip: "a \<noteq> k \<Longrightarrow> jwk_bytes ((a, v) # r) k = jwk_bytes r k"
  by (simp add: jwk_bytes_def)

lemmas jwk_bytes_simps = b64url_empty jwk_bytes_skip

lemma ec_roundtrip:
  assumes "curve_ok cr c sz" "ec_private cr c k = Inr d"
  shows "\<exists>sg pub. raw_signature cr c sz d m = Inr sg \<and> ec_public_jwk cr c sz d = Inr pub \<and>
           ecdsa_check cr c sz pub m sg = Inr True"
proof -
  obtain x y r s where xy: "ec_public cr c d = (x, y)" and rs: "ecdsa_sign cr c d m = (r, s)"
    by (meson surj_pair)
  have b: "x < 256 ^ sz" "y < 256 ^ sz" "r < 256 ^ sz" "s < 256 ^ sz" "ecdsa_verify cr c (x, y) (r, s) m = Inr True"
    using assms xy rs unfolding curve_ok_def by (metis fst_conv snd_conv)+
  then show ?thesis
    by (simp add: raw_signature_def ec_public_jwk_def xy rs int_to_fixed_def ecdsa_check_def from_to_bytes
        jwk_bytes_simps)
qed

lemma verify_EC:
  "verify_signature cr (lit ''ES256'') pub m sg = catchR is_key_value_error InvalidKey (ecdsa_check cr (lit ''P-256'') 32 pub m sg)"
  "verify_signature cr (lit ''ES384'') pub m sg = catchR is_key_value_error InvalidKey (ecdsa_check cr (lit ''P-384'') 48 pub m sg)"
  by (simp_all add: verify_signature_def ED25519_ALG_NAMES_def P256_COORD_BYTES_def P384_COORD_BYTES_def)

lemma verify_Ed:
  "alg \<in> set ED25519_ALG_NAMES \<Longrightarrow> verify_signature cr alg pub m sg =
     catchR is_key_value_error InvalidKey (bindR (jwk_bytes pub (lit ''x'')) (\<lambda>raw. ed_verify cr raw sg m))"
  by (simp add: verify_signature_def)

lemma p256_roundtrip:
  assumes "backend_ok cr" "p256_from_jwk cr jwk kid = Inr sk"
  shows "\<exists>sg pub. sk_sign sk m = Inr sg \<and> sk_public_jwk sk = Inr pub \<and> verify_signature cr (sk_alg sk) pub m sg = Inr True"
proof -
  obtain k d where "ec_private cr (lit ''P-256'') k = Inr d" "sk = p256_key cr d kid"
    using assms(2) by (auto simp: p256_from_jwk_def bindR_Inr split: if_splits)
  then show ?thesis
    using assms(1) ec_roundtrip [of cr "lit ''P-256''" 32 k d m]
    by (auto simp: backend_ok_def p256_key_def verify_EC P256_COORD_BYTES_def)
qed

lemma p384_roundtrip:
  assumes "backend_ok cr" "p384_from_jwk cr jwk kid = Inr sk"
  shows "\<exists>sg pub. sk_sign sk m = Inr sg \<and> sk_public_jwk sk = Inr pub \<and> verify_signature cr (sk_alg sk) pub m sg = Inr True"
proof -
  obtain k d where "ec_private cr (lit ''P-384'') k = Inr d" "sk = p384_key cr d kid"
    using assms(2) by (auto simp: p384_from_jwk_def bindR_Inr split: if_splits)
  then show ?thesis
    using assms(1) ec_roundtrip [of cr "lit ''P-384''" 48 k d m]
    by (auto simp: backend_ok_def p384_key_def verify_EC P384_COORD_BYTES_def)
qed

lemma ed25519_roundtrip:
  assumes "backend_ok cr" "ed25519_from_jwk cr jwk kid alg = Inr sk"
  shows "\<exists>sg pub. sk_sign sk m = Inr sg \<and> sk_public_jwk sk = Inr pub \<and> verify_signature cr (sk_alg sk) pub m sg = Inr True"
proof -
  obtain k d where k: "ed_private cr k = Inr d" "ed25519_key cr d kid alg = Inr sk"
    using assms(2) by (auto simp: ed25519_from_jwk_def bindR_Inr split: if_splits)
  have "jwk_bytes (okp_jwk b) (lit ''x'') = Inr b" for b by (simp add: okp_jwk_def jwk_bytes_simps)
  then show ?thesis
    using assms(1) k by (auto simp: backend_ok_def ed25519_key_def verify_Ed split: if_splits)
qed

lemma mldsa_roundtrip:
  assumes "backend_ok cr" "mldsa_from_jwk cr jwk kid = Inr sk" "sk_sign sk m = Inr sg"
  shows "\<exists>pub. sk_public_jwk sk = Inr pub \<and> verify_signature cr (sk_alg sk) pub m sg = Inr True"
proof -
  obtain alg k d where k: "ml_private cr alg k = Inr d" "mldsa_key cr d kid alg = Inr sk" "alg \<in> set MLDSA_ALGS"
    using assms(2)
    by (auto simp: mldsa_from_jwk_def mldsa_from_seed_def bindR_Inr split: if_splits option.splits)
  have a: "alg \<notin> set ED25519_ALG_NAMES" "alg \<noteq> lit ''ES256''" "alg \<noteq> lit ''ES384''"
    using k(3) by (auto simp: MLDSA_ALGS_def ED25519_ALG_NAMES_def)
  show ?thesis
    using assms(1,3) k a
    by (auto simp: backend_ok_def mldsa_key_def verify_signature_def jwk_bytes_simps split: if_splits)
qed

section \<open>Lemmas: thumbprints\<close>

lemma escape_string_cancel: "escape_string a @ x = escape_string b @ y \<Longrightarrow> a = b \<and> x = y"
proof -
  assume "escape_string a @ x = escape_string b @ y"
  then have "concat (map escape_char a) @ 34 # x = concat (map escape_char b) @ 34 # y"
    unfolding escape_string_def by simp
  then have "Some (a, x) = Some (b, y)" by (metis read_body_escape)
  then show "a = b \<and> x = y" by simp
qed

lemma members_text_inj:
  "join_with 44 (map (\<lambda>kv. escape_string (fst kv) @ [58] @ escape_string (snd kv)) ms) @ [125] =
   join_with 44 (map (\<lambda>kv. escape_string (fst kv) @ [58] @ escape_string (snd kv)) ns) @ [125] \<Longrightarrow> ms = ns"
proof (induction ms arbitrary: ns)
  case Nil
  then show ?case by (cases ns rule: remdups_adj.cases) (auto simp: escape_string_def)
next
  case (Cons m ms)
  show ?case
  proof (cases ns)
    case Nil
    with Cons.prems show ?thesis by (cases ms) (auto simp: escape_string_def)
  next
    case n: (Cons n ns')
    define tail where "tail = (\<lambda>xs. (if xs = [] then [] else 44 # join_with 44 (map (\<lambda>kv. escape_string (fst kv) @ [58] @ escape_string (snd kv)) xs)) @ [125::nat])"
    have j: "join_with 44 (map (\<lambda>kv. escape_string (fst kv) @ [58] @ escape_string (snd kv)) (x # xs)) @ [125] =
        escape_string (fst x) @ 58 # escape_string (snd x) @ tail xs" for x xs
      by (cases xs) (simp_all add: tail_def)
    have "m = n" and t: "tail ms = tail ns'"
      using Cons.prems unfolding n j by (auto dest!: escape_string_cancel simp: prod_eq_iff)
    moreover have "ms = ns'"
      using t Cons.IH [of ns'] by (auto simp: tail_def split: if_splits)
    ultimately show ?thesis using n by simp
  qed
qed

lemma thumbprint_member_Inr:
  "thumbprint_member jwk name = Inr kv \<longleftrightarrow> (\<exists>v. jget name jwk = JStr v \<and> kv = (name, v) \<and> isOk (utf8_encode v))"
  by (cases "jget name jwk") (auto simp: thumbprint_member_def bindR_Inr isOk_iff)

lemma members_sorted: "map_of THUMBPRINT_MEMBERS kty = Some names \<Longrightarrow> sorted names \<and> distinct names \<and> lit ''kty'' \<in> set names"
  by (auto simp: THUMBPRINT_MEMBERS_def lit_def of_char_def split: if_splits)

lemma canonical_members_Inr:
  assumes "canonical_members jwk = Inr ms"
  obtains kty names where "jget (lit ''kty'') jwk = JStr kty" "map_of THUMBPRINT_MEMBERS kty = Some names"
    "map fst ms = names" "\<forall>kv\<in>set ms. jget (fst kv) jwk = JStr (snd kv)"
proof -
  obtain kty names where k: "jget (lit ''kty'') jwk = JStr kty" "map_of THUMBPRINT_MEMBERS kty = Some names"
    "mapR (thumbprint_member jwk) names = Inr ms"
    using assms by (cases "jget (lit ''kty'') jwk") (auto simp: canonical_members_def split: option.splits)
  have l: "list_all2 (\<lambda>n kv. thumbprint_member jwk n = Inr kv) names ms" using k(3) by (simp add: mapR_Inr)
  have "map fst ms = names \<and> (\<forall>kv\<in>set ms. jget (fst kv) jwk = JStr (snd kv))"
    using l by (induction rule: list_all2_induct) (auto simp: thumbprint_member_Inr)
  with k that show thesis by blast
qed

lemma sort_members: "canonical_members jwk = Inr ms \<Longrightarrow> sort_key fst ms = ms"
  by (erule canonical_members_Inr) (metis members_sorted sort_key_id_if_sorted)

lemma key_roundtrip_all:
  assumes "backend_ok cr" "signing_key_from_jwk cr jwk kid = Inr sk"
  shows "(\<forall>sg. sk_sign sk m = Inr sg \<longrightarrow>
            (\<exists>pub. sk_public_jwk sk = Inr pub \<and> verify_signature cr (sk_alg sk) pub m sg = Inr True)) \<and>
         (jget (lit ''kty'') jwk \<noteq> JStr (lit ''AKP'') \<longrightarrow> isOk (sk_sign sk m))"
proof -
  have "(\<exists>alg. ed25519_from_jwk cr jwk kid alg = Inr sk) \<or> p256_from_jwk cr jwk kid = Inr sk \<or>
      p384_from_jwk cr jwk kid = Inr sk \<or> (mldsa_from_jwk cr jwk kid = Inr sk \<and> jget (lit ''kty'') jwk = JStr (lit ''AKP''))"
    using assms(2) by (auto simp: signing_key_from_jwk_def Let_def split: if_splits)
  then show ?thesis
    using ed25519_roundtrip [OF assms(1), of jwk kid _ sk m] p256_roundtrip [OF assms(1), of jwk kid sk m]
      p384_roundtrip [OF assms(1), of jwk kid sk m] mldsa_roundtrip [OF assms(1), of jwk kid sk m]
    by (elim disjE exE conjE) fastforce+
qed

lemma key_roundtrip:
  "backend_ok cr \<Longrightarrow> signing_key_from_jwk cr jwk kid = Inr sk \<Longrightarrow> sk_sign sk m = Inr sg \<Longrightarrow>
     \<exists>pub. sk_public_jwk sk = Inr pub \<and> verify_signature cr (sk_alg sk) pub m sg = Inr True"
  using key_roundtrip_all by blast

text \<open>A backend for the examples: one key, whose signature is the message itself (Ed25519, ML-DSA) or a constant.\<close>

definition toy_crypto :: crypto where
  "toy_crypto = \<lparr>ed_private = (\<lambda>k. if length k = 32 then Inr k else Inl PyValueError), ed_public = (\<lambda>k. k),
     ed_sign = (\<lambda>k m. m), ed_verify = (\<lambda>p s m. Inr (s = m)),
     ec_private = (\<lambda>c d. if d = 0 then Inl PyValueError else Inr d), ec_public = (\<lambda>c d. (1, 2)),
     ecdsa_sign = (\<lambda>c d m. (3, 4)), ecdsa_verify = (\<lambda>c p rs m. Inr (rs = (3, 4))),
     ml_private = (\<lambda>a k. Inr k), ml_public = (\<lambda>a k. k), ml_sign = (\<lambda>a k m. Inr m), ml_verify = (\<lambda>a p s m. Inr (s = m)),
     digest_of = (\<lambda>h b. take 32 (b @ replicate 32 0))\<rparr>"

lemma toy_ok: "backend_ok toy_crypto"
proof -
  have "(4::nat) < 256 ^ 32" "(4::nat) < 256 ^ 48" "(3::nat) < 256 ^ 32" "(3::nat) < 256 ^ 48" by simp_all
  then show ?thesis by (simp add: backend_ok_def curve_ok_def toy_crypto_def)
qed

lemma ed_private_witness:
  "signing_key_from_jwk toy_crypto [(lit ''kty'', JStr (lit ''OKP'')), (lit ''crv'', JStr (lit ''Ed25519'')),
      (lit ''d'', JStr (b64url_encode (replicate 32 7)))] kid =
   ed25519_key toy_crypto (replicate 32 7) kid (lit ''EdDSA'')"
  by (simp add: signing_key_from_jwk_def ed25519_from_jwk_def is_private_jwk_def jget_def has_key_def jwk_bytes_simps
      toy_crypto_def)

section \<open>Properties\<close>

text \<open>What a key signs, its public JWK verifies: for every private JWK the factory loads, over Ed25519, P-256, P-384 or
  ML-DSA, a signature of any message is accepted by \<open>verify_signature\<close> with the key's own algorithm name and public JWK,
  through the fixed-width R and S halves and the base64url coordinates. The classic keys never fail to sign.\<close>

theorem signature_roundtrip:
  assumes "backend_ok cr" "signing_key_from_jwk cr jwk kid = Inr sk"
  shows "(\<forall>sg. sk_sign sk m = Inr sg \<longrightarrow>
            (\<exists>pub. sk_public_jwk sk = Inr pub \<and> verify_signature cr (sk_alg sk) pub m sg = Inr True)) \<and>
         (jget (lit ''kty'') jwk \<noteq> JStr (lit ''AKP'') \<longrightarrow> isOk (sk_sign sk m))"
  by (rule key_roundtrip_all [OF assms])

theorem signature_roundtrip_witness:
  "\<exists>sk pub. signing_key_from_jwk toy_crypto [(lit ''kty'', JStr (lit ''OKP'')), (lit ''crv'', JStr (lit ''Ed25519'')),
      (lit ''d'', JStr (b64url_encode (replicate 32 7)))] (lit ''k'') = Inr sk \<and>
    sk_public_jwk sk = Inr pub \<and> verify_signature toy_crypto (sk_alg sk) pub [1] [1] = Inr True"
proof -
  have "\<exists>sk. ed25519_key toy_crypto (replicate 32 7) (lit ''k'') (lit ''EdDSA'') = Inr sk \<and> sk_sign sk [1] = Inr [1]"
    by (simp add: ed25519_key_def ED25519_ALG_NAMES_def toy_crypto_def)
  then obtain sk where k: "signing_key_from_jwk toy_crypto [(lit ''kty'', JStr (lit ''OKP'')), (lit ''crv'', JStr (lit ''Ed25519'')),
      (lit ''d'', JStr (b64url_encode (replicate 32 7)))] (lit ''k'') = Inr sk" "sk_sign sk [1] = Inr [1]"
    using ed_private_witness by auto
  with signature_roundtrip [OF toy_ok k(1), of "[1]"] show ?thesis by blast
qed

text \<open>A signature check never leaks an untyped exception: whatever the JWK holds, the answer is a verdict or
  \<open>InvalidKey\<close>, unless the backend itself raises something other than \<open>ValueError\<close>, \<open>KeyError\<close> or \<open>TypeError\<close>; and an
  ECDSA signature of another length than R and S together is never accepted.\<close>

theorem verify_signature_typed:
  assumes "\<forall>raw. ed_verify cr raw sg m \<noteq> Inl x" "\<forall>c p rs. ecdsa_verify cr c p rs m \<noteq> Inl x" "\<forall>a raw. ml_verify cr a raw sg m \<noteq> Inl x"
  shows "(verify_signature cr alg jwk m sg = Inl x \<longrightarrow> x = InvalidKey) \<and>
         (verify_signature cr alg jwk m sg = Inr True \<longrightarrow>
            (alg = lit ''ES256'' \<longrightarrow> length sg = 64) \<and> (alg = lit ''ES384'' \<longrightarrow> length sg = 96) \<and>
            alg \<in> {lit ''EdDSA'', lit ''Ed25519'', lit ''ES256'', lit ''ES384'', lit ''ML-DSA-44'', lit ''ML-DSA-65'', lit ''ML-DSA-87''})"
proof -
  have b: "b64url_decode s = Inl e \<Longrightarrow> e = PyValueError" for s e
    by (auto simp: b64url_decode_def urlsafe_b64decode_def split: option.splits if_splits)
  have j: "jwk_bytes jwk n = Inl e \<Longrightarrow> is_key_value_error e" for n e
    by (auto simp: jwk_bytes_def is_key_value_error_def is_value_error_def split: option.splits json.splits dest: b)
  have e: "ecdsa_check cr c sz jwk m sg = Inl e \<Longrightarrow> e = InvalidKey \<or> is_key_value_error e \<or> (\<exists>p rs. ecdsa_verify cr c p rs m = Inl e)" for c sz e
    by (auto simp: ecdsa_check_def bindR_Inl split: if_splits dest: j)
  have l: "ecdsa_check cr c sz jwk m sg = Inr v \<Longrightarrow> length sg = 2 * sz" for c sz v
    by (auto simp: ecdsa_check_def split: if_splits)
  have i: "\<not> is_key_value_error InvalidKey" by (simp add: is_key_value_error_def is_value_error_def)
  define body where "body = (if alg \<in> set ED25519_ALG_NAMES
        then bindR (jwk_bytes jwk (lit ''x'')) (\<lambda>raw. ed_verify cr raw sg m)
        else if alg = lit ''ES256'' then ecdsa_check cr (lit ''P-256'') P256_COORD_BYTES jwk m sg
        else if alg = lit ''ES384'' then ecdsa_check cr (lit ''P-384'') P384_COORD_BYTES jwk m sg
        else if alg \<in> set MLDSA_ALGS
        then bindR (jwk_bytes jwk (lit ''pub'')) (\<lambda>raw. ml_verify cr alg raw sg m)
        else Inl InvalidKey)"
  have v: "verify_signature cr alg jwk m sg = catchR is_key_value_error InvalidKey body"
    by (simp add: verify_signature_def body_def)
  have "x = InvalidKey" if "verify_signature cr alg jwk m sg = Inl x"
  proof -
    obtain z where z: "body = Inl z" "x = (if is_key_value_error z then InvalidKey else z)"
      using \<open>verify_signature cr alg jwk m sg = Inl x\<close> unfolding v catchR_Inl by blast
    show ?thesis
    proof (cases "is_key_value_error z")
      case False
      with z have "body = Inl x" "x = z" by simp_all
      with False assms show ?thesis
        by (auto simp: body_def bindR_Inl split: if_splits dest: j e)
    qed (use z in simp)
  qed
  moreover have "body = Inr True \<Longrightarrow> (alg = lit ''ES256'' \<longrightarrow> length sg = 64) \<and> (alg = lit ''ES384'' \<longrightarrow> length sg = 96) \<and>
      alg \<in> {lit ''EdDSA'', lit ''Ed25519'', lit ''ES256'', lit ''ES384'', lit ''ML-DSA-44'', lit ''ML-DSA-65'', lit ''ML-DSA-87''}"
    by (auto simp: body_def ED25519_ALG_NAMES_def MLDSA_ALGS_def P256_COORD_BYTES_def P384_COORD_BYTES_def split: if_splits dest: l)
  ultimately show ?thesis unfolding v by simp
qed

theorem verify_signature_typed_witness:
  "verify_signature toy_crypto (lit ''ES256'') [] [] [] = Inl InvalidKey"
proof -
  have "\<exists>x. verify_signature toy_crypto (lit ''ES256'') [] [] [] = Inl x"
    by (simp add: verify_EC ecdsa_check_def)
  moreover have "verify_signature toy_crypto (lit ''ES256'') [] [] [] = Inl x \<Longrightarrow> x = InvalidKey" for x
    using verify_signature_typed [of toy_crypto "[]" "[]" x] by (simp add: toy_crypto_def)
  ultimately show ?thesis by blast
qed

text \<open>A thumbprint is taken over the required members and nothing else: two JWKs give the hash function the same bytes
  exactly when they have the same required members, so a private key and its public half share a thumbprint and two
  different public keys never share the hashed text.\<close>

theorem thumbprint_exact:
  assumes "canonical_members jwk = Inr ms" "canonical_members jwk' = Inr ns"
    "thumbprint_text jwk = Inr t" "thumbprint_text jwk' = Inr t'"
  shows "t = t' \<longleftrightarrow>
    (\<exists>kty names. jget (lit ''kty'') jwk = JStr kty \<and> map_of THUMBPRINT_MEMBERS kty = Some names \<and>
       (\<forall>n\<in>set names. jget n jwk = jget n jwk'))"
proof -
  obtain kty names where a: "jget (lit ''kty'') jwk = JStr kty" "map_of THUMBPRINT_MEMBERS kty = Some names"
    "map fst ms = names" "\<forall>kv\<in>set ms. jget (fst kv) jwk = JStr (snd kv)"
    using canonical_members_Inr [OF assms(1)] .
  obtain kty' names' where b: "jget (lit ''kty'') jwk' = JStr kty'" "map_of THUMBPRINT_MEMBERS kty' = Some names'"
    "map fst ns = names'" "\<forall>kv\<in>set ns. jget (fst kv) jwk' = JStr (snd kv)"
    using canonical_members_Inr [OF assms(2)] .
  have u: "utf8_encode (dumps_strings ms) = Inr t" "utf8_encode (dumps_strings ns) = Inr t'"
    using assms by (simp_all add: thumbprint_text_def)
  have "t = t' \<Longrightarrow> ms = ns"
    using utf8_encode_inj [OF u(1)] u(2) members_text_inj [of ms ns]
    unfolding dumps_strings_def sort_members [OF assms(1)] sort_members [OF assms(2)] by auto
  moreover have "ms = ns" if eq: "\<forall>n\<in>set names. jget n jwk = jget n jwk'"
  proof -
    have k: "kty' = kty" using a b eq members_sorted [OF a(2)] by auto
    then have "map fst ms = map fst ns" using a b by simp
    moreover have "map snd ms = map snd ns"
    proof (rule nth_equalityI)
      show "length (map snd ms) = length (map snd ns)" using \<open>map fst ms = map fst ns\<close> by (metis length_map)
      fix i
      assume i: "i < length (map snd ms)"
      then have m: "ms ! i \<in> set ms" "ns ! i \<in> set ns" "fst (ms ! i) = fst (ns ! i)"
        using \<open>map fst ms = map fst ns\<close> by (auto dest: map_eq_imp_length_eq) (metis length_map nth_map)
      then have "fst (ms ! i) \<in> set names" using a(3) by (metis image_eqI set_map)
      with m a(4) b(4) eq have "JStr (snd (ms ! i)) = JStr (snd (ns ! i))" by metis
      then show "map snd ms ! i = map snd ns ! i" using i \<open>length (map snd ms) = length (map snd ns)\<close> by simp
    qed
    ultimately show ?thesis by (metis zip_map_fst_snd)
  qed
  moreover have "\<forall>n\<in>set names. jget n jwk = jget n jwk'" if "ms = ns"
  proof
    fix n
    assume "n \<in> set names"
    then obtain kv where "kv \<in> set ms" "n = fst kv" using a(3) by auto
    then show "jget n jwk = jget n jwk'" using a(4) b(4) that by auto
  qed
  moreover have "ms = ns \<Longrightarrow> t = t'" using u by simp
  ultimately have "t = t' \<longleftrightarrow> (\<forall>n\<in>set names. jget n jwk = jget n jwk')" by blast
  with a(1,2) show ?thesis by auto
qed

theorem thumbprint_exact_witness:
  "\<exists>t. thumbprint_text [(lit ''kty'', JStr (lit ''oct'')), (lit ''k'', JStr (lit ''a''))] = Inr t \<and>
       thumbprint_text [(lit ''kid'', JNull), (lit ''k'', JStr (lit ''a'')), (lit ''kty'', JStr (lit ''oct''))] = Inr t"
proof -
  let ?a = "[(lit ''kty'', JStr (lit ''oct'')), (lit ''k'', JStr (lit ''a''))]"
  let ?b = "[(lit ''kid'', JNull), (lit ''k'', JStr (lit ''a'')), (lit ''kty'', JStr (lit ''oct''))]"
  have asc: "isOk (utf8_encode s)" if "\<forall>c\<in>set s. c < 128" for s
    using that ascii_text_ok utf8_encode_ok by blast
  obtain x y where xy: "utf8_encode (lit ''a'') = Inr x" "utf8_encode (lit ''oct'') = Inr y"
    using asc [of "lit ''a''"] asc [of "lit ''oct''"] by (auto simp: isOk_iff lit_def of_char_def)
  have a: "canonical_members ?a = Inr [(lit ''k'', lit ''a''), (lit ''kty'', lit ''oct'')]"
    "canonical_members ?b = Inr [(lit ''k'', lit ''a''), (lit ''kty'', lit ''oct'')]"
    using xy by (simp_all add: canonical_members_def jget_def THUMBPRINT_MEMBERS_def thumbprint_member_def)
  have "isOk (utf8_encode (dumps_strings [(lit ''k'', lit ''a''), (lit ''kty'', lit ''oct'')]))"
    by (rule asc) (unfold dumps_strings_def sort_members [OF a(1)],
        simp add: escape_string_def escape_char_def SHORT_ESCAPE_def lit_def of_char_def)
  then obtain t where t: "thumbprint_text ?a = Inr t" "thumbprint_text ?b = Inr t"
    using a by (auto simp: isOk_iff thumbprint_text_def)
  then show ?thesis using thumbprint_exact [OF a t] by blast
qed

text \<open>The P-384 loader types an invalid private scalar as \<open>InvalidKey\<close>; the P-256 loader lets the backend's bare
  \<open>ValueError\<close> escape for the same input.\<close>

theorem p256_bare_value_error:
  fixes cr kid crv
  defines "jwk \<equiv> (\<lambda>crv. [(lit ''kty'', JStr (lit ''EC'')), (lit ''crv'', JStr crv), (lit ''d'', JStr (b64url_encode [0]))])"
  assumes "\<forall>c. ec_private cr c 0 = Inl PyValueError"
  shows "signing_key_from_jwk cr (jwk (lit ''P-256'')) kid = Inl PyValueError \<and>
         signing_key_from_jwk cr (jwk (lit ''P-384'')) kid = Inl InvalidKey"
proof -
  have z: "from_bytes [0] = 0" using from_bytes_snoc [of "[]" 0] by simp
  show ?thesis
    using assms(2) z
    by (simp add: jwk_def signing_key_from_jwk_def p256_from_jwk_def p384_from_jwk_def is_private_jwk_def jget_def has_key_def
        jwk_bytes_simps is_value_error_def)
qed

theorem p256_bare_value_error_witness:
  "signing_key_from_jwk toy_crypto [(lit ''kty'', JStr (lit ''EC'')), (lit ''crv'', JStr (lit ''P-256'')), (lit ''d'', JStr (b64url_encode [0]))]
     (lit ''k'') = Inl PyValueError"
  using p256_bare_value_error [of toy_crypto "lit ''k''"] by (simp add: toy_crypto_def)

end
