(* ===== verification/Jws.thy ===== *)
theory Jws
  imports Keys
begin

text \<open>
  openvc/proof/_jws.py: compact JWS assembly, parsing and verification. \<open>jose\<close> bundles what the JOSE lanes call outside
  the package: the cryptographic backend, the JSON parser and printer, the two clocks and the timestamp reader of
  Verify_Common.
\<close>

section \<open>The environment\<close>

record jose =
  jo_crypto :: crypto
  jo_loads :: "bytes \<Rightarrow> json result"
  jo_dumps :: "json \<Rightarrow> bytes"
  jo_time :: num
  jo_clock :: int
  jo_ts :: "json \<Rightarrow> int option"

text \<open>What the code relies on, per value: the parser reads back what the printer wrote, and raises \<open>ValueError\<close> only.\<close>

definition json_faithful :: "jose \<Rightarrow> json \<Rightarrow> bool" where
  "json_faithful J v \<longleftrightarrow> jo_loads J (jo_dumps J v) = Inr v"

definition parser_typed :: "jose \<Rightarrow> bool" where
  "parser_typed J \<longleftrightarrow> (\<forall>b e. jo_loads J b = Inl e \<longrightarrow> is_value_error e)"

text \<open>\<open>s.encode("ascii")\<close> of text known to be ASCII.\<close>

definition ascii_bytes :: "str \<Rightarrow> bytes" where
  "ascii_bytes s = map of_nat s"

section \<open>Compact serialization\<close>

definition ALLOWED_ALGS :: "str list" where
  "ALLOWED_ALGS = [lit ''ES256'', lit ''ES384'', lit ''EdDSA'', lit ''Ed25519'']"

definition ALLOWED_ALGS_PQ :: "str list" where
  "ALLOWED_ALGS_PQ = [lit ''ML-DSA-44'', lit ''ML-DSA-65'', lit ''ML-DSA-87'']"

definition json_segment :: "jose \<Rightarrow> jobj \<Rightarrow> str" where
  "json_segment J d = b64url_encode (jo_dumps J (JObj d))"

definition assemble_compact :: "jose \<Rightarrow> jobj \<Rightarrow> jobj \<Rightarrow> signing_key \<Rightarrow> str result" where
  "assemble_compact J header payload key =
     (let signing_input = json_segment J header @ [46] @ json_segment J payload
      in bindR (sk_sign key (ascii_bytes signing_input)) (\<lambda>signature.
           Inr (signing_input @ [46] @ b64url_encode signature)))"

definition sign_compact :: "jose \<Rightarrow> jobj \<Rightarrow> jobj \<Rightarrow> signing_key \<Rightarrow> str list \<Rightarrow> str result" where
  "sign_compact J header payload key allowed_algs =
     (if sk_alg key \<notin> set allowed_algs then Inl UnsupportedAlgorithm
      else assemble_compact J header payload key)"

text \<open>\<open>header_b64, payload_b64, sig_b64 = token.split(".")\<close> and the three decodings; \<open>ValueError\<close> otherwise.\<close>

definition compact_parts :: "jose \<Rightarrow> str \<Rightarrow> (json \<times> json \<times> bytes \<times> bytes) result" where
  "compact_parts J token =
     (case split_on 46 token of
        [h, p, s] \<Rightarrow>
          bindR (bindR (b64url_decode h) (loads (jo_loads J))) (\<lambda>header.
          bindR (bindR (b64url_decode p) (loads (jo_loads J))) (\<lambda>payload.
          bindR (b64url_decode s) (\<lambda>signature.
            Inr (header, payload, ascii_bytes (h @ [46] @ p), signature))))
      | _ \<Rightarrow> Inl PyValueError)"

definition both_objects :: "json \<Rightarrow> json \<Rightarrow> (jobj \<times> jobj) option" where
  "both_objects h p = (case h of JObj d \<Rightarrow> (case p of JObj e \<Rightarrow> Some (d, e) | _ \<Rightarrow> None) | _ \<Rightarrow> None)"

definition parse_compact :: "jose \<Rightarrow> str \<Rightarrow> (jobj \<times> jobj \<times> bytes \<times> bytes) result" where
  "parse_compact J token =
     bindR (catchR is_value_error MalformedToken (compact_parts J token)) (\<lambda>(h, p, signing_input, signature).
       case both_objects h p of
         None \<Rightarrow> Inl MalformedToken
       | Some (header, payload) \<Rightarrow> Inr (header, payload, signing_input, signature))"

text \<open>\<open>header.get("alg")\<close>, refused unless it is a string of the allow-list.\<close>

definition allowed_alg :: "jobj \<Rightarrow> str list \<Rightarrow> str result" where
  "allowed_alg header algs =
     (case text_opt (jget (lit ''alg'') header) of
        None \<Rightarrow> Inl UnsupportedAlgorithm
      | Some alg \<Rightarrow> if alg \<in> set algs then Inr alg else Inl UnsupportedAlgorithm)"

definition is_key_backend_error :: "exc \<Rightarrow> bool" where
  "is_key_backend_error e = (e = KeyBackendError \<or> e = InvalidKey)"

definition verify_compact :: "jose \<Rightarrow> str \<Rightarrow> jobj \<Rightarrow> str list \<Rightarrow> (jobj \<times> jobj) result" where
  "verify_compact J token public_key_jwk allowed_algs =
     bindR (parse_compact J token) (\<lambda>(header, payload, signing_input, signature).
     bindR (allowed_alg header allowed_algs) (\<lambda>alg.
     bindR (reject_unknown_crit header) (\<lambda>_.
     bindR (catchR is_key_backend_error SignatureInvalid
              (verify_signature (jo_crypto J) alg public_key_jwk signing_input signature)) (\<lambda>ok.
       if \<not> ok then Inl SignatureInvalid else Inr (header, payload)))))"

section \<open>Lemmas\<close>

lemma b64url_alphabet: "c \<in> set (b64url_encode bs) \<Longrightarrow> is_alnum c \<or> c = 45 \<or> c = 95"
proof -
  assume "c \<in> set (b64url_encode bs)"
  then obtain v where "v \<in> set (b64_groups (map unat bs))" "c = b64url_char v"
    by (auto simp: b64url_encode_def)
  moreover from this(1) have "v < 64" by (rule b64_groups_less [rotated]) auto
  ultimately show ?thesis by (auto simp: b64url_char_def is_alnum_def)
qed

lemma b64url_no_dot [simp]: "46 \<notin> set (b64url_encode bs)" "126 \<notin> set (b64url_encode bs)"
  using b64url_alphabet [of 46 bs] b64url_alphabet [of 126 bs] by (auto simp: is_alnum_def)

lemma compact_parts_Inr:
  "compact_parts J token = Inr (hv, pv, si, sg) \<longleftrightarrow>
     (\<exists>h p s. token = h @ [46] @ p @ [46] @ s \<and> 46 \<notin> set h \<and> 46 \<notin> set p \<and> 46 \<notin> set s \<and> si = ascii_bytes (h @ [46] @ p) \<and>
        bindR (b64url_decode h) (loads (jo_loads J)) = Inr hv \<and> bindR (b64url_decode p) (loads (jo_loads J)) = Inr pv \<and>
        b64url_decode s = Inr sg)"
proof -
  have sp: "split_on 46 token = [h, p, s] \<longleftrightarrow> token = h @ [46] @ p @ [46] @ s \<and> 46 \<notin> set h \<and> 46 \<notin> set p \<and> 46 \<notin> set s" for h p s
  proof
    assume "split_on 46 token = [h, p, s]"
    then show "token = h @ [46] @ p @ [46] @ s \<and> 46 \<notin> set h \<and> 46 \<notin> set p \<and> 46 \<notin> set s"
      using join_split_on [of 46 token] split_on_no_sep_in_parts [of _ 46 token] by auto
  qed (auto simp: split_on_append_sep split_on_noSep)
  show ?thesis
  proof
    assume a: "compact_parts J token = Inr (hv, pv, si, sg)"
    then obtain h p s where "split_on 46 token = [h, p, s]"
      by (auto simp: compact_parts_def split: list.splits)
    with a show "\<exists>h p s. token = h @ [46] @ p @ [46] @ s \<and> 46 \<notin> set h \<and> 46 \<notin> set p \<and> 46 \<notin> set s \<and> si = ascii_bytes (h @ [46] @ p) \<and>
        bindR (b64url_decode h) (loads (jo_loads J)) = Inr hv \<and> bindR (b64url_decode p) (loads (jo_loads J)) = Inr pv \<and>
        b64url_decode s = Inr sg"
      using sp [of h p s] by (intro exI [of _ h] exI [of _ p] exI [of _ s]) (auto simp: compact_parts_def bindR_Inr)
  next
    assume "\<exists>h p s. token = h @ [46] @ p @ [46] @ s \<and> 46 \<notin> set h \<and> 46 \<notin> set p \<and> 46 \<notin> set s \<and> si = ascii_bytes (h @ [46] @ p) \<and>
        bindR (b64url_decode h) (loads (jo_loads J)) = Inr hv \<and> bindR (b64url_decode p) (loads (jo_loads J)) = Inr pv \<and>
        b64url_decode s = Inr sg"
    then obtain h p s where k: "split_on 46 token = [h, p, s]" "si = ascii_bytes (h @ [46] @ p)"
        "bindR (b64url_decode h) (loads (jo_loads J)) = Inr hv" "bindR (b64url_decode p) (loads (jo_loads J)) = Inr pv"
        "b64url_decode s = Inr sg"
      using sp by blast
    then show "compact_parts J token = Inr (hv, pv, si, sg)" by (simp add: compact_parts_def)
  qed
qed

lemma both_objects_Some: "both_objects h p = Some (d, e) \<longleftrightarrow> h = JObj d \<and> p = JObj e"
  by (cases h; cases p) (auto simp: both_objects_def)

lemma parse_compact_Inr:
  "parse_compact J token = Inr (header, payload, si, sg) \<longleftrightarrow> compact_parts J token = Inr (JObj header, JObj payload, si, sg)"
  by (auto simp: parse_compact_def bindR_Inr both_objects_Some split: option.splits)

lemma segment_loads:
  "json_faithful J (JObj d) \<Longrightarrow> depth (JObj d) \<le> MAX_DEPTH \<Longrightarrow>
     bindR (b64url_decode (json_segment J d)) (loads (jo_loads J)) = Inr (JObj d)"
  by (simp add: json_segment_def json_faithful_def loads_Inr)

lemma parse_assembled:
  assumes "json_faithful J (JObj header)" "json_faithful J (JObj payload)" "depth (JObj header) \<le> MAX_DEPTH"
    "depth (JObj payload) \<le> MAX_DEPTH" "assemble_compact J header payload key = Inr token"
  shows "\<exists>sg. sk_sign key (ascii_bytes (json_segment J header @ [46] @ json_segment J payload)) = Inr sg \<and>
     parse_compact J token = Inr (header, payload, ascii_bytes (json_segment J header @ [46] @ json_segment J payload), sg)"
proof -
  obtain sg where s: "sk_sign key (ascii_bytes (json_segment J header @ [46] @ json_segment J payload)) = Inr sg"
    and t: "token = (json_segment J header @ [46] @ json_segment J payload) @ [46] @ b64url_encode sg"
    using assms(5) by (auto simp: assemble_compact_def Let_def bindR_Inr)
  have "46 \<notin> set (json_segment J d)" for d by (simp add: json_segment_def)
  then show ?thesis
    unfolding parse_compact_Inr compact_parts_Inr
    using s t segment_loads [OF assms(1,3)] segment_loads [OF assms(2,4)]
    by (intro exI [of _ sg] conjI exI [of _ "json_segment J header"] exI [of _ "json_segment J payload"]
        exI [of _ "b64url_encode sg"]) auto
qed

lemma crit_Inr: "reject_unknown_crit h = Inr u \<longleftrightarrow> \<not> has_key (lit ''crit'') h"
  by (auto simp: reject_unknown_crit_def)

lemma allowed_alg_Inr: "allowed_alg h algs = Inr alg \<longleftrightarrow> jget (lit ''alg'') h = JStr alg \<and> alg \<in> set algs"
  by (cases "jget (lit ''alg'') h") (auto simp: allowed_alg_def)

lemma guard_Inr: "(if \<not> b then Inl e else Inr x) = Inr y \<longleftrightarrow> b \<and> x = y"
  by auto

lemma verify_compact_Inr:
  "verify_compact J token jwk algs = Inr (header, payload) \<longleftrightarrow>
     (\<exists>si sg alg. parse_compact J token = Inr (header, payload, si, sg) \<and> jget (lit ''alg'') header = JStr alg \<and> alg \<in> set algs \<and>
        \<not> has_key (lit ''crit'') header \<and> verify_signature (jo_crypto J) alg jwk si sg = Inr True)"
  by (auto simp: verify_compact_def bindR_Inr allowed_alg_Inr crit_Inr guard_Inr)

lemma b64url_decode_error: "b64url_decode s = Inl e \<Longrightarrow> e = PyValueError"
  by (auto simp: b64url_decode_def urlsafe_b64decode_def split: option.splits if_splits)

lemma loads_error: "parser_typed J \<Longrightarrow> loads (jo_loads J) b = Inl e \<Longrightarrow> is_value_error e"
  by (auto simp: loads_def parser_typed_def bindR_Inl is_value_error_def split: if_splits)

lemma segment_error:
  "parser_typed J \<Longrightarrow> bindR (b64url_decode s) (loads (jo_loads J)) = Inl e \<Longrightarrow> is_value_error e"
  by (auto simp: bindR_Inl is_value_error_def dest!: b64url_decode_error dest: loads_error)

lemma compact_parts_error: "parser_typed J \<Longrightarrow> compact_parts J token = Inl e \<Longrightarrow> is_value_error e"
proof -
  assume p: "parser_typed J" and e: "compact_parts J token = Inl e"
  show "is_value_error e"
  proof (cases "\<exists>a b c. split_on 46 token = [a, b, c]")
    case True
    then obtain a b c where "split_on 46 token = [a, b, c]" by blast
    then show ?thesis
      using e segment_error [OF p] b64url_decode_error unfolding compact_parts_def
      by (simp add: bindR_Inl [of _ "\<lambda>header. bindR _ _"]) (auto simp: bindR_Inl is_value_error_def)
  next
    case False
    then have "e = PyValueError" using e by (auto simp: compact_parts_def split: list.splits)
    then show ?thesis by (simp add: is_value_error_def)
  qed
qed

lemma parse_compact_error: "parser_typed J \<Longrightarrow> parse_compact J token = Inl e \<Longrightarrow> e = MalformedToken"
  by (auto simp: parse_compact_def bindR_Inl catchR_Inl dest: compact_parts_error split: option.splits if_splits)

text \<open>An environment for the examples: one header and one empty payload.\<close>

definition toy_jwk :: jobj where
  "toy_jwk = [(lit ''kty'', JStr (lit ''OKP'')), (lit ''crv'', JStr (lit ''Ed25519'')), (lit ''d'', JStr (b64url_encode (replicate 32 7)))]"

definition toy_header :: jobj where
  "toy_header = [(lit ''alg'', JStr (lit ''EdDSA''))]"

definition toy_jose :: jose where
  "toy_jose = \<lparr>jo_crypto = toy_crypto, jo_loads = (\<lambda>b. if b = [1] then Inr (JObj toy_header) else if b = [2] then Inr (JObj []) else Inl PyValueError),
     jo_dumps = (\<lambda>v. if v = JObj toy_header then [1] else [2]), jo_time = NInt 1000, jo_clock = 1000000000, jo_ts = (\<lambda>v. None)\<rparr>"

lemma toy_faithful: "json_faithful toy_jose (JObj toy_header)" "json_faithful toy_jose (JObj [])"
  by (simp_all add: json_faithful_def toy_jose_def toy_header_def)

lemma toy_depth: "depth (JObj toy_header) \<le> MAX_DEPTH" "depth (JObj []) \<le> MAX_DEPTH"
  by (simp_all add: MAX_DEPTH_def toy_header_def)

lemma toy_typed: "parser_typed toy_jose"
  by (auto simp: parser_typed_def toy_jose_def is_value_error_def split: if_splits)

lemma toy_key:
  "\<exists>key. signing_key_from_jwk toy_crypto toy_jwk (lit ''k'') = Inr key \<and> sk_alg key = lit ''EdDSA'' \<and> (\<forall>m. sk_sign key m = Inr m)"
  unfolding toy_jwk_def ed_private_witness by (simp add: ed25519_key_def ED25519_ALG_NAMES_def) (simp add: toy_crypto_def)

lemma compact_signed:
  assumes "sign_compact J header payload key algs = Inr token"
    "json_faithful J (JObj header)" "json_faithful J (JObj payload)"
    "depth (JObj header) \<le> MAX_DEPTH" "depth (JObj payload) \<le> MAX_DEPTH"
    "jget (lit ''alg'') header = JStr (sk_alg key)" "\<not> has_key (lit ''crit'') header"
    "backend_ok (jo_crypto J)" "signing_key_from_jwk (jo_crypto J) jwk kid = Inr key"
  shows "\<exists>pub. sk_public_jwk key = Inr pub \<and> verify_compact J token pub algs = Inr (header, payload)"
proof -
  have a: "sk_alg key \<in> set algs" "assemble_compact J header payload key = Inr token"
    using assms(1) by (auto simp: sign_compact_def split: if_splits)
  obtain sg where s: "sk_sign key (ascii_bytes (json_segment J header @ [46] @ json_segment J payload)) = Inr sg"
    "parse_compact J token = Inr (header, payload, ascii_bytes (json_segment J header @ [46] @ json_segment J payload), sg)"
    using parse_assembled [OF assms(2-5) a(2)] by blast
  obtain pub where "sk_public_jwk key = Inr pub"
    "verify_signature (jo_crypto J) (sk_alg key) pub (ascii_bytes (json_segment J header @ [46] @ json_segment J payload)) sg = Inr True"
    using key_roundtrip [OF assms(8,9) s(1)] by blast
  with s(2) a(1) assms(6,7) show ?thesis by (auto simp: verify_compact_Inr)
qed

section \<open>Properties\<close>

text \<open>A compact JWS verifies as it was signed: what \<open>sign_compact\<close> assembles with a loaded key is accepted by
  \<open>verify_compact\<close> with the key's public JWK and gives back the same header and payload, for every header that names the
  key's algorithm and no critical extension.\<close>

theorem compact_roundtrip:
  assumes "sign_compact J header payload key algs = Inr token"
    "json_faithful J (JObj header)" "json_faithful J (JObj payload)"
    "depth (JObj header) \<le> MAX_DEPTH" "depth (JObj payload) \<le> MAX_DEPTH"
    "jget (lit ''alg'') header = JStr (sk_alg key)" "\<not> has_key (lit ''crit'') header"
    "backend_ok (jo_crypto J)" "signing_key_from_jwk (jo_crypto J) jwk kid = Inr key"
  shows "\<exists>pub. sk_public_jwk key = Inr pub \<and> verify_compact J token pub algs = Inr (header, payload)"
  using compact_signed [OF assms] .

theorem compact_roundtrip_witness:
  "\<exists>token key pub. signing_key_from_jwk toy_crypto toy_jwk (lit ''k'') = Inr key \<and>
     sign_compact toy_jose toy_header [] key ALLOWED_ALGS = Inr token \<and> sk_public_jwk key = Inr pub \<and>
     verify_compact toy_jose token pub ALLOWED_ALGS = Inr (toy_header, [])"
proof -
  obtain key where k: "signing_key_from_jwk toy_crypto toy_jwk (lit ''k'') = Inr key" "sk_alg key = lit ''EdDSA''"
    "\<And>m. sk_sign key m = Inr m"
    using toy_key by blast
  then obtain token where t: "sign_compact toy_jose toy_header [] key ALLOWED_ALGS = Inr token"
    by (auto simp: sign_compact_def ALLOWED_ALGS_def assemble_compact_def Let_def)
  have c: "jo_crypto toy_jose = toy_crypto" by (simp add: toy_jose_def)
  have h: "jget (lit ''alg'') toy_header = JStr (sk_alg key)" "\<not> has_key (lit ''crit'') toy_header"
    using k(2) by (simp_all add: toy_header_def jget_def has_key_def)
  show ?thesis
    using compact_roundtrip [OF t toy_faithful(1) toy_faithful(2) toy_depth h] toy_ok k(1) t unfolding c by blast
qed

text \<open>(C31) Signature verification is over the exact bytes received: an accepted token is three dot-free segments, the
  algorithm is a string of the allow-list taken from the header, the header names no critical extension, and the signature
  of the third segment verifies over the first two as they were received. With a typed parser every failure before the
  signature is \<open>MalformedToken\<close> or \<open>UnsupportedAlgorithm\<close>.\<close>

theorem verify_compact_exact:
  assumes "parser_typed J"
  shows "(verify_compact J token jwk algs = Inr (header, payload) \<longleftrightarrow>
      (\<exists>h p s sg alg. token = h @ [46] @ p @ [46] @ s \<and> 46 \<notin> set h \<and> 46 \<notin> set p \<and> 46 \<notin> set s \<and>
         bindR (b64url_decode h) (loads (jo_loads J)) = Inr (JObj header) \<and>
         bindR (b64url_decode p) (loads (jo_loads J)) = Inr (JObj payload) \<and> b64url_decode s = Inr sg \<and>
         jget (lit ''alg'') header = JStr alg \<and> alg \<in> set algs \<and> \<not> has_key (lit ''crit'') header \<and>
         verify_signature (jo_crypto J) alg jwk (ascii_bytes (h @ [46] @ p)) sg = Inr True)) \<and>
     (\<forall>e. verify_compact J token jwk algs = Inl e \<longrightarrow>
        e \<in> {MalformedToken, UnsupportedAlgorithm, SignatureInvalid} \<or>
        (\<exists>alg m sg. verify_signature (jo_crypto J) alg jwk m sg = Inl e))"
proof
  show "verify_compact J token jwk algs = Inr (header, payload) \<longleftrightarrow>
      (\<exists>h p s sg alg. token = h @ [46] @ p @ [46] @ s \<and> 46 \<notin> set h \<and> 46 \<notin> set p \<and> 46 \<notin> set s \<and>
         bindR (b64url_decode h) (loads (jo_loads J)) = Inr (JObj header) \<and>
         bindR (b64url_decode p) (loads (jo_loads J)) = Inr (JObj payload) \<and> b64url_decode s = Inr sg \<and>
         jget (lit ''alg'') header = JStr alg \<and> alg \<in> set algs \<and> \<not> has_key (lit ''crit'') header \<and>
         verify_signature (jo_crypto J) alg jwk (ascii_bytes (h @ [46] @ p)) sg = Inr True)"
    unfolding verify_compact_Inr parse_compact_Inr compact_parts_Inr by blast
  have a: "allowed_alg h algs = Inl e \<Longrightarrow> e = UnsupportedAlgorithm" for h e
    by (auto simp: allowed_alg_def split: option.splits if_splits)
  have c: "reject_unknown_crit h = Inl e \<Longrightarrow> e = MalformedToken" for h e
    by (auto simp: reject_unknown_crit_def split: if_splits)
  have g: "(if \<not> b then Inl SignatureInvalid else Inr y) = Inl e \<Longrightarrow> e = SignatureInvalid" for b and y :: "jobj \<times> jobj" and e
    by (auto split: if_splits)
  show "\<forall>e. verify_compact J token jwk algs = Inl e \<longrightarrow>
        e \<in> {MalformedToken, UnsupportedAlgorithm, SignatureInvalid} \<or>
        (\<exists>alg m sg. verify_signature (jo_crypto J) alg jwk m sg = Inl e)"
    by (auto simp: verify_compact_def bindR_Inl catchR_Inl dest: parse_compact_error [OF assms] a c g split: if_splits)
qed

theorem verify_compact_exact_witness:
  "\<not> (\<exists>header payload. verify_compact toy_jose (lit ''abc'') [] ALLOWED_ALGS = Inr (header, payload))"
proof -
  have "46 \<notin> set (lit ''abc'')" by (simp add: lit_def of_char_def)
  then have "\<not> (\<exists>h p s. lit ''abc'' = h @ [46] @ p @ [46] @ s)" by (metis in_set_conv_decomp append_Cons append_Nil)
  then show ?thesis using verify_compact_exact [OF toy_typed, of "lit ''abc''" "[]" ALLOWED_ALGS] by blast
qed

end
