(* ===== verification/Vc_Jwt.thy ===== *)
theory Vc_Jwt
  imports Jws
begin

text \<open>
  openvc/proof/vc_jwt.py: the VC-JWT suite. PyJWT and the key objects of the \<open>cryptography\<close> package are the fields of
  \<open>pyjwt\<close>: loading a JWK, loading a secp256k1 point, and the decode with pinned options, whose outcomes are the claims,
  an expired signature, a bad signature, or another error. The ML-DSA lane, which PyJWT does not serve, is modelled whole.
\<close>

section \<open>Python equality of JSON values\<close>

text \<open>Numbers (and booleans) compare by value, containers member by member.\<close>

definition num_eq :: "num \<Rightarrow> num \<Rightarrow> bool" where
  "num_eq x y = (num_le x y \<and> num_le y x)"

lemma size_members: "sum_list (map (\<lambda>v. Suc (size v)) (map snd d)) \<le> size_list (size_prod (\<lambda>_. 0) size) d"
  by (induction d) auto

lemma size_elements: "sum_list (map (\<lambda>v. Suc (size v)) xs) \<le> size_list size xs"
  by (induction xs) auto

lemma size_member: "kv \<in> set d \<Longrightarrow> size (snd kv) \<le> size_list (size_prod (\<lambda>_. 0) size) d"
  by (induction d) auto

function py_eq :: "json \<Rightarrow> json \<Rightarrow> bool" where
  "py_eq v w =
     (case v of
        JNull \<Rightarrow> w = JNull
      | JStr s \<Rightarrow> w = JStr s
      | JList xs \<Rightarrow> (case w of JList ys \<Rightarrow> length xs = length ys \<and> (\<forall>p\<in>set (zip xs ys). py_eq (fst p) (snd p)) | _ \<Rightarrow> False)
      | JObj d \<Rightarrow> (case w of
                    JObj e \<Rightarrow> length d = length e \<and>
                             (\<forall>kv\<in>set d. case map_of e (fst kv) of None \<Rightarrow> False | Some u \<Rightarrow> py_eq (snd kv) u)
                  | _ \<Rightarrow> False)
      | _ \<Rightarrow> (case (py_num v, py_num w) of (Inr a, Inr b) \<Rightarrow> num_eq a b | _ \<Rightarrow> False))"
  by pat_completeness auto
termination
proof (relation "measure (\<lambda>(v, w). size v)", goal_cases)
  case (2 v w xs ys p)
  then have "fst p \<in> set xs" by (metis in_set_zipE surjective_pairing)
  then have "size (fst p) \<le> size_list size xs" by (simp add: size_list_estimation')
  then show ?case using 2 by (cases p) simp
next
  case (3 v w d e kv u)
  then show ?case using size_member [of kv d] by simp
qed simp

declare py_eq.simps [simp del]

section \<open>Tokens\<close>

definition vc_split :: "str \<Rightarrow> (str \<times> str \<times> str) result" where
  "vc_split token =
     (if \<not> is_ascii token then Inl MalformedToken
      else case split_on 46 token of [h, p, s] \<Rightarrow> Inr (h, p, s) | _ \<Rightarrow> Inl MalformedToken)"

text \<open>
  \<open>str.lower()\<close>, as far as a comparison with ASCII text can tell: U+212A and U+0130 are the only other characters whose
  lower case has an ASCII letter.
\<close>

definition lower_char :: "nat \<Rightarrow> str" where
  "lower_char c = (if 65 \<le> c \<and> c \<le> 90 then [c + 32] else if c = 8490 then [107] else if c = 304 then [105, 775] else [c])"

definition lower :: "str \<Rightarrow> str" where
  "lower s = concat (map lower_char s)"

definition ends_with :: "str \<Rightarrow> str \<Rightarrow> bool" where
  "ends_with suffix s = starts_with (rev suffix) (rev s)"

definition sd_jwt_media :: "str \<Rightarrow> bool" where
  "sd_jwt_media typ =
     (let low = lower typ;
          media = (if starts_with (lit ''application/'') low then drop (length (lit ''application/'')) low else low)
      in media = lit ''sd-jwt'' \<or> ends_with (lit ''+sd-jwt'') media \<or> media = lit ''kb+jwt'')"

definition reject_sd_jwt_typ :: "jobj \<Rightarrow> unit result" where
  "reject_sd_jwt_typ header =
     (case text_opt (jget (lit ''typ'') header) of
        None \<Rightarrow> Inr ()
      | Some typ \<Rightarrow> if sd_jwt_media typ then Inl MalformedToken else Inr ())"

text \<open>The worklist loop; the stack is held with its top first.\<close>

definition marker_names :: "str list" where
  "marker_names = [lit ''_sd'', lit ''_sd_alg'', lit ''...'']"

function marker_loop :: "json list \<Rightarrow> bool" where
  "marker_loop [] = False"
| "marker_loop (current # stack) =
     (case current of
        JObj d \<Rightarrow> if list_ex (\<lambda>k. has_key k d) marker_names then True else marker_loop (rev (map snd d) @ stack)
      | JList xs \<Rightarrow> marker_loop (rev xs @ stack)
      | _ \<Rightarrow> marker_loop stack)"
  by pat_completeness auto

termination
  by (relation "measure (\<lambda>stack. sum_list (map (\<lambda>v. Suc (size v)) stack))")
     (use size_members size_elements in
        \<open>auto simp: rev_map [symmetric] sum_list_rev comp_def less_Suc_eq_le add.commute intro: le_SucI\<close>)

definition carries_sd_jwt_marker :: "json \<Rightarrow> bool" where
  "carries_sd_jwt_marker node = marker_loop [node]"

definition reject_sd_jwt_payload :: "jobj \<Rightarrow> unit result" where
  "reject_sd_jwt_payload payload = (if carries_sd_jwt_marker (JObj payload) then Inl MalformedToken else Inr ())"

section \<open>ES256K keys\<close>

definition is_b64url_char :: "nat \<Rightarrow> bool" where
  "is_b64url_char c = (is_alnum c \<or> c = 95 \<or> c = 45)"

definition SECP256K1_FIELD_PRIME :: nat where
  "SECP256K1_FIELD_PRIME = 2 ^ 256 - 2 ^ 32 - 977"

definition es256k_coordinate :: "jobj \<Rightarrow> str \<Rightarrow> nat result" where
  "es256k_coordinate jwk member =
     (case text_opt (jget member jwk) of
        None \<Rightarrow> Inl ProofError
      | Some value \<Rightarrow>
          if \<not> (length value = 43 \<and> list_all is_b64url_char value) then Inl ProofError
          else bindR (urlsafe_b64decode (value @ [61])) (\<lambda>raw.
                 if b64url_encode raw \<noteq> value then Inl ProofError
                 else if SECP256K1_FIELD_PRIME \<le> from_bytes raw then Inl ProofError
                 else Inr (from_bytes raw)))"

definition es256k_check_members :: "jobj \<Rightarrow> unit result" where
  "es256k_check_members jwk =
     (if has_key (lit ''alg'') jwk \<and> jget (lit ''alg'') jwk \<noteq> JStr (lit ''ES256K'') then Inl ProofError
      else if has_key (lit ''use'') jwk \<and> jget (lit ''use'') jwk \<noteq> JStr (lit ''sig'') then Inl ProofError
      else if has_key (lit ''key_ops'') jwk \<and>
              (case jget (lit ''key_ops'') jwk of
                 JList ops \<Rightarrow> \<not> list_all is_jstr ops \<or> JStr (lit ''verify'') \<notin> set ops
               | _ \<Rightarrow> True) then Inl ProofError
      else Inr ())"

text \<open>The library objects: a key handle, and the outcomes of the decode that the code tells apart.\<close>

datatype decode_error = ExpiredSignature | BadSignature | OtherJwtError

record pyjwt =
  pj_load :: "str \<Rightarrow> jobj \<Rightarrow> nat result"
  pj_secp256k1 :: "nat \<times> nat \<Rightarrow> nat result"
  pj_decode :: "str \<Rightarrow> nat \<Rightarrow> str \<Rightarrow> int \<Rightarrow> json \<Rightarrow> bool \<Rightarrow> decode_error + jobj"

definition es256k_public_key :: "pyjwt \<Rightarrow> jobj \<Rightarrow> nat result" where
  "es256k_public_key P jwk =
     (if jget (lit ''kty'') jwk \<noteq> JStr (lit ''EC'') \<or> jget (lit ''crv'') jwk \<noteq> JStr (lit ''secp256k1'') then Inl ProofError
      else bindR (es256k_check_members jwk) (\<lambda>_.
           bindR (es256k_coordinate jwk (lit ''x'')) (\<lambda>x.
           bindR (es256k_coordinate jwk (lit ''y'')) (\<lambda>y.
             catchR (\<lambda>_. True) ProofError (pj_secp256k1 P (x, y))))))"

definition EC_CRV :: "(str, str) dict" where
  "EC_CRV = [(lit ''ES256'', lit ''P-256''), (lit ''ES384'', lit ''P-384'')]"

definition jwk_to_key :: "pyjwt \<Rightarrow> json \<Rightarrow> str \<Rightarrow> nat result" where
  "jwk_to_key P v alg =
     (case v of
        JObj jwk \<Rightarrow>
          (if alg = lit ''ES256K'' then es256k_public_key P jwk
           else if alg \<in> {lit ''EdDSA'', lit ''Ed25519''} \<and>
                   (jget (lit ''kty'') jwk \<noteq> JStr (lit ''OKP'') \<or> jget (lit ''crv'') jwk \<noteq> JStr (lit ''Ed25519''))
                then Inl ProofError
           else if (case map_of EC_CRV alg of
                      None \<Rightarrow> False
                    | Some crv \<Rightarrow> jget (lit ''kty'') jwk \<noteq> JStr (lit ''EC'') \<or> jget (lit ''crv'') jwk \<noteq> JStr crv)
                then Inl ProofError
           else catchR (\<lambda>_. True) ProofError (pj_load P alg jwk))
      | _ \<Rightarrow> Inl ProofError)"

section \<open>Envelope and credential\<close>

text \<open>\<open>vc.get("credentialSubject").get("id")\<close> when that is an object.\<close>

definition subject_id :: "jobj \<Rightarrow> json" where
  "subject_id vc = (case jget (lit ''credentialSubject'') vc of JObj cs \<Rightarrow> jget (lit ''id'') cs | _ \<Rightarrow> JNull)"

definition reconcile :: "jobj \<Rightarrow> jobj \<Rightarrow> (str \<times> str option) result" where
  "reconcile claims vc =
     (case text_opt (jget (lit ''iss'') claims) of
        None \<Rightarrow> Inl ClaimsInvalid
      | Some iss \<Rightarrow>
          if has_key (lit ''issuer'') vc \<and> list_ex (\<lambda>n. n \<noteq> JStr iss) (issuer_identifiers (jget (lit ''issuer'') vc))
          then Inl ClaimsInvalid
          else
            let sub = jget (lit ''sub'') claims; vc_sub = subject_id vc
            in if truthy sub \<and> truthy vc_sub \<and> \<not> py_eq sub vc_sub then Inl ClaimsInvalid
               else
                 let jti = jget (lit ''jti'') claims
                 in if truthy jti \<and> truthy (jget (lit ''id'') vc) \<and> \<not> py_eq jti (jget (lit ''id'') vc) then Inl ClaimsInvalid
                    else Inr (iss, (case sub of JStr s \<Rightarrow> Some s | _ \<Rightarrow> text_opt vc_sub)))"

definition type_list :: "json option \<Rightarrow> json list" where
  "type_list v = (case v of Some (JStr s) \<Rightarrow> [JStr s] | Some (JList xs) \<Rightarrow> xs | _ \<Rightarrow> [])"

definition check_types :: "jobj \<Rightarrow> str list \<Rightarrow> unit result" where
  "check_types vc expected =
     (if list_all (\<lambda>t. JStr t \<in> set (type_list (map_of vc (lit ''type'')))) expected then Inr () else Inl ClaimsInvalid)"

section \<open>The suite\<close>

record vc_suite =
  vs_leeway :: int
  vs_algs :: "str list"
  vs_sign_algs :: "str list"

definition ALLOWED_ALGS_ES256K :: "str list" where
  "ALLOWED_ALGS_ES256K = [lit ''ES256K'']"

fun plain_bool :: "json \<Rightarrow> bool option" where
  "plain_bool (JBool b) = Some b"
| "plain_bool _ = None"

definition new_vc_suite :: "json \<Rightarrow> json \<Rightarrow> json \<Rightarrow> vc_suite result" where
  "new_vc_suite leeway_s allow_pq allow_es256k =
     bindR (leeway_seconds ProofError leeway_s) (\<lambda>leeway.
       case plain_bool allow_pq of
         None \<Rightarrow> Inl ProofError
       | Some pq \<Rightarrow>
           (case plain_bool allow_es256k of
              None \<Rightarrow> Inl ProofError
            | Some k \<Rightarrow>
                let algs = ALLOWED_ALGS @ (if pq then ALLOWED_ALGS_PQ else []) @ (if k then ALLOWED_ALGS_ES256K else [])
                in Inr \<lparr>vs_leeway = leeway, vs_algs = algs,
                        vs_sign_algs = filter (\<lambda>a. a \<notin> set ALLOWED_ALGS_ES256K) algs\<rparr>))"

definition json_of_segment :: "jose \<Rightarrow> str \<Rightarrow> json result" where
  "json_of_segment J seg = catchR is_value_error MalformedToken (bindR (b64url_decode seg) (loads (jo_loads J)))"

definition as_object :: "exc \<Rightarrow> json \<Rightarrow> jobj result" where
  "as_object e v = (case v of JObj d \<Rightarrow> Inr d | _ \<Rightarrow> Inl e)"

text \<open>A \<open>kid\<close> is absent or \<open>null\<close>, or a string.\<close>

definition kid_of :: "jobj \<Rightarrow> str option result" where
  "kid_of header =
     (case jget (lit ''kid'') header of JNull \<Rightarrow> Inr None | JStr k \<Rightarrow> Inr (Some k) | _ \<Rightarrow> Inl MalformedToken)"

definition peeked_issuer :: "jobj \<Rightarrow> json" where
  "peeked_issuer payload =
     (let iss = jget (lit ''iss'') payload;
          iss = (if truthy iss then iss
                 else case jget (lit ''vc'') payload of JObj vc \<Rightarrow> jget (lit ''issuer'') vc | _ \<Rightarrow> JNull)
      in case iss of JObj d \<Rightarrow> jget (lit ''id'') d | _ \<Rightarrow> iss)"

definition vc_peek_issuer :: "jose \<Rightarrow> str \<Rightarrow> (str \<times> str option) result" where
  "vc_peek_issuer J token =
     bindR (vc_split token) (\<lambda>(h, p, _).
     bindR (json_of_segment J h) (\<lambda>hv. bindR (json_of_segment J p) (\<lambda>pv.
       case both_objects hv pv of
         None \<Rightarrow> Inl MalformedToken
       | Some (header, payload) \<Rightarrow>
           (case text_opt (peeked_issuer payload) of
              None \<Rightarrow> Inl MalformedToken
            | Some iss \<Rightarrow> if iss = [] then Inl MalformedToken else bindR (kid_of header) (\<lambda>kid. Inr (iss, kid))))))"

definition vc_peek_claims :: "jose \<Rightarrow> str \<Rightarrow> jobj result" where
  "vc_peek_claims J token =
     bindR (vc_split token) (\<lambda>(_, p, _). bindR (json_of_segment J p) (as_object MalformedToken))"

definition check_jwt_claims :: "jose \<Rightarrow> vc_suite \<Rightarrow> jobj \<Rightarrow> bool \<Rightarrow> bool result" where
  "check_jwt_claims J suite claims check_temporal =
     (if \<not> is_jstr (jget (lit ''iss'') claims) then Inl ClaimsInvalid
      else if has_key (lit ''sub'') claims \<and> \<not> is_jstr (jget (lit ''sub'') claims) then Inl ClaimsInvalid
      else if has_key (lit ''jti'') claims \<and> \<not> is_jstr (jget (lit ''jti'') claims) then Inl ClaimsInvalid
      else check_jwt_temporal (jo_time J) claims (JInt (vs_leeway suite)) check_temporal)"

definition verify_mldsa :: "jose \<Rightarrow> vc_suite \<Rightarrow> str \<Rightarrow> str \<Rightarrow> jobj \<Rightarrow> bool \<Rightarrow> (jobj \<times> bool) result" where
  "verify_mldsa J suite token alg public_key_jwk check_temporal =
     (case split_on 46 token of
        [h, p, s] \<Rightarrow>
          bindR (catchR is_value_error MalformedToken (b64url_decode s)) (\<lambda>signature.
          bindR (catchR is_value_error MalformedToken (b64url_decode p)) (\<lambda>payload.
          bindR (catchR is_key_backend_error SignatureInvalid
                   (verify_signature (jo_crypto J) alg public_key_jwk (ascii_bytes (h @ [46] @ p)) signature)) (\<lambda>ok.
            if \<not> ok then Inl SignatureInvalid
            else
          bindR (catchR is_value_error MalformedToken (loads (jo_loads J) payload)) (\<lambda>v.
          bindR (as_object ClaimsInvalid v) (\<lambda>claims.
          bindR (check_jwt_claims J suite claims check_temporal) (\<lambda>expired. Inr (claims, expired)))))))
      | _ \<Rightarrow> Inl MalformedToken)"

text \<open>\<open>_decode\<close>: \<open>None\<close> is the expired case, left to the caller; the other errors are typed.\<close>

definition vc_decode :: "pyjwt \<Rightarrow> vc_suite \<Rightarrow> str \<Rightarrow> nat \<Rightarrow> str \<Rightarrow> json \<Rightarrow> bool \<Rightarrow> jobj option result" where
  "vc_decode P suite token key alg audience verify_exp =
     (case pj_decode P token key alg (vs_leeway suite) audience verify_exp of
        Inr claims \<Rightarrow> Inr (Some claims)
      | Inl ExpiredSignature \<Rightarrow> Inr None
      | Inl BadSignature \<Rightarrow> Inl SignatureInvalid
      | Inl OtherJwtError \<Rightarrow> Inl ClaimsInvalid)"

definition verify_classic :: "pyjwt \<Rightarrow> vc_suite \<Rightarrow> str \<Rightarrow> str \<Rightarrow> json \<Rightarrow> json \<Rightarrow> bool \<Rightarrow> (jobj \<times> bool) result" where
  "verify_classic P suite token alg public_key_jwk audience check_temporal =
     bindR (jwk_to_key P public_key_jwk alg) (\<lambda>key.
     bindR (vc_decode P suite token key alg audience True) (\<lambda>r.
       case r of
         Some claims \<Rightarrow> Inr (claims, False)
       | None \<Rightarrow>
           if check_temporal then Inl ClaimsInvalid
           else bindR (vc_decode P suite token key alg audience False) (\<lambda>r'.
                  case r' of Some claims \<Rightarrow> Inr (claims, True) | None \<Rightarrow> Inl (Foreign 0))))"

record verified_credential =
  vc_credential :: jobj
  vc_issuer :: str
  vc_subject :: "str option"
  vc_claims :: jobj
  vc_expired :: bool

definition vc_gate :: "jose \<Rightarrow> vc_suite \<Rightarrow> str \<Rightarrow> json \<Rightarrow> str result" where
  "vc_gate J suite token audience =
     bindR (check_expected_audience audience) (\<lambda>_.
     bindR (vc_split token) (\<lambda>(h, _, _).
     bindR (json_of_segment J h) (\<lambda>hv.
     bindR (as_object MalformedToken hv) (\<lambda>header.
     bindR (allowed_alg header (vs_algs suite)) (\<lambda>alg.
     bindR (reject_unknown_crit header) (\<lambda>_.
     bindR (reject_sd_jwt_typ header) (\<lambda>_.
     bindR (vc_peek_claims J token) (\<lambda>payload.
     bindR (reject_sd_jwt_payload payload) (\<lambda>_.
     bindR (check_numeric_dates payload [lit ''exp'', lit ''nbf'', lit ''iat'']) (\<lambda>_. Inr alg))))))))))"

definition vc_finish :: "jose \<Rightarrow> vc_suite \<Rightarrow> jobj \<Rightarrow> bool \<Rightarrow> json \<Rightarrow> str list \<Rightarrow> bool \<Rightarrow> verified_credential result" where
  "vc_finish J suite claims jwt_expired audience expected_types check_temporal =
     bindR (check_jwt_audience claims audience True) (\<lambda>_.
     bindR (as_object ClaimsInvalid (jget (lit ''vc'') claims)) (\<lambda>credential.
     bindR (check_validity_window (jo_ts J) (jo_clock J) credential [] PinNone (JInt (vs_leeway suite)) check_temporal)
       (\<lambda>body_expired.
     bindR (reconcile claims credential) (\<lambda>(issuer, subject).
     bindR (check_types credential expected_types) (\<lambda>_.
       Inr \<lparr>vc_credential = credential, vc_issuer = issuer, vc_subject = subject, vc_claims = claims,
            vc_expired = (jwt_expired \<or> body_expired)\<rparr>)))))"

definition vc_signature_step :: "jose \<Rightarrow> pyjwt \<Rightarrow> vc_suite \<Rightarrow> str \<Rightarrow> str \<Rightarrow> json \<Rightarrow> json \<Rightarrow> bool \<Rightarrow> (jobj \<times> bool) result" where
  "vc_signature_step J P suite token alg public_key_jwk audience check_temporal =
     (if alg \<in> set ALLOWED_ALGS_PQ
      then (case public_key_jwk of
              JObj jwk \<Rightarrow> verify_mldsa J suite token alg jwk check_temporal
            | _ \<Rightarrow> Inl SignatureInvalid)
      else verify_classic P suite token alg public_key_jwk audience check_temporal)"

text \<open>\<open>verify\<close>; an empty \<open>expected_types\<close> stands for \<open>None\<close> too.\<close>

definition vc_verify ::
    "jose \<Rightarrow> pyjwt \<Rightarrow> vc_suite \<Rightarrow> str \<Rightarrow> json \<Rightarrow> str list \<Rightarrow> json \<Rightarrow> bool \<Rightarrow> verified_credential result" where
  "vc_verify J P suite token public_key_jwk expected_types audience check_temporal =
     bindR (vc_gate J suite token audience) (\<lambda>alg.
     bindR (vc_signature_step J P suite token alg public_key_jwk audience check_temporal)
       (\<lambda>(claims, jwt_expired). vc_finish J suite claims jwt_expired audience expected_types check_temporal))"

section \<open>Issuance\<close>

definition vc_payload :: "int \<Rightarrow> jobj \<Rightarrow> int option \<Rightarrow> jobj" where
  "vc_payload now credential expires_in_s =
     (let issuer = jget (lit ''issuer'') credential;
          issuer = (case issuer of JObj d \<Rightarrow> jget (lit ''id'') d | _ \<Rightarrow> issuer);
          subject = subject_id credential;
          p = [(lit ''iss'', issuer), (lit ''nbf'', JInt now), (lit ''iat'', JInt now), (lit ''vc'', JObj credential)];
          p = (if jget (lit ''id'') credential \<noteq> JNull then p @ [(lit ''jti'', jget (lit ''id'') credential)] else p);
          p = (if truthy subject then p @ [(lit ''sub'', subject)] else p)
      in (case expires_in_s of None \<Rightarrow> p | Some s \<Rightarrow> p @ [(lit ''exp'', JInt (now + s))]))"

definition vc_sign :: "jose \<Rightarrow> vc_suite \<Rightarrow> jobj \<Rightarrow> signing_key \<Rightarrow> int option \<Rightarrow> str result" where
  "vc_sign J suite credential key expires_in_s =
     sign_compact J
       [(lit ''alg'', JStr (sk_alg key)), (lit ''typ'', JStr (lit ''JWT'')), (lit ''kid'', JStr (sk_kid key))]
       (vc_payload (num_trunc (jo_time J)) credential expires_in_s) key (vs_sign_algs suite)"

section \<open>Specification: markers\<close>

fun marked :: "json \<Rightarrow> bool" where
  "marked (JList xs) = list_ex marked xs"
| "marked (JObj d) = (list_ex (\<lambda>k. has_key k d) marker_names \<or> list_ex (\<lambda>kv. marked (snd kv)) d)"
| "marked _ = False"

lemma marker_loop_marked: "marker_loop stack \<longleftrightarrow> (\<exists>v\<in>set stack. marked v)"
proof (induction stack rule: marker_loop.induct)
  case (2 current stack)
  show ?case
  proof (cases current)
    case (JList xs)
    then have "marker_loop (rev xs @ stack) \<longleftrightarrow> (\<exists>v\<in>set (rev xs @ stack). marked v)" using 2 JList by blast
    with JList show ?thesis by (auto simp: list_ex_iff)
  next
    case (JObj d)
    show ?thesis
    proof (cases "list_ex (\<lambda>k. has_key k d) marker_names")
      case False
      then have "marker_loop (rev (map snd d) @ stack) \<longleftrightarrow> (\<exists>v\<in>set (rev (map snd d) @ stack). marked v)"
        using 2 JObj by blast
      with JObj False show ?thesis by (auto simp: list_ex_iff)
    qed (use JObj in simp)
  qed (use 2 in auto)
qed simp

section \<open>Lemmas\<close>

lemma length_groups: "length (b64_groups bs) = (4 * length bs + 2) div 3"
  by (induction bs rule: b64_groups.induct) auto

lemma length_b64url: "length (b64url_encode bs) = (4 * length bs + 2) div 3"
  by (simp add: b64url_encode_def length_groups)

lemma b64url_43: "length (b64url_encode raw) = 43 \<longleftrightarrow> length raw = 32"
  unfolding length_b64url by auto

lemma decode_43: "length v = 43 \<Longrightarrow> urlsafe_b64decode (v @ [61]) = b64url_decode v"
  by (simp add: b64url_decode_def b64_pad_def)

lemma temporal_waiver:
  "check_jwt_temporal c claims l False = Inr late \<Longrightarrow>
     check_jwt_temporal c claims l True = (if late then Inl ClaimsInvalid else Inr False)"
proof -
  assume a: "check_jwt_temporal c claims l False = Inr late"
  then obtain L where L: "leeway_seconds ClaimsInvalid l = Inr L"
    "check_numeric_dates claims [lit ''exp'', lit ''nbf'', lit ''iat''] = Inr ()"
    "past_by c claims (lit ''exp'') L = Inr late" "ahead_by c claims (lit ''nbf'') L = Inr False"
    "ahead_by c claims (lit ''iat'') L = Inr False"
    by (auto simp: check_jwt_temporal_def bindR_Inr if_distrib [of "\<lambda>x. x = Inr late"] cong: if_cong split: if_splits)
  then show ?thesis by (simp add: check_jwt_temporal_def)
qed

lemma temporal_enforced: "check_jwt_temporal c claims l True = Inr late \<Longrightarrow> \<not> late"
  by (auto simp: check_jwt_temporal_def bindR_Inr split: if_splits)

lemma as_object_Inr: "as_object e v = Inr d \<longleftrightarrow> v = JObj d"
  by (cases v) (auto simp: as_object_def)

lemma reconcile_Inr:
  "reconcile claims vc = Inr (iss, subj) \<Longrightarrow>
     jget (lit ''iss'') claims = JStr iss \<and>
     (has_key (lit ''issuer'') vc \<longrightarrow> (\<forall>n\<in>set (issuer_identifiers (jget (lit ''issuer'') vc)). n = JStr iss))"
  by (cases "jget (lit ''iss'') claims") (auto simp: reconcile_def Let_def list_ex_iff split: if_splits)

lemma vc_gate_Inr:
  "vc_gate J suite token audience = Inr alg \<Longrightarrow>
     \<exists>h p s header payload. split_on 46 token = [h, p, s] \<and> is_ascii token \<and>
       bindR (b64url_decode h) (loads (jo_loads J)) = Inr (JObj header) \<and>
       bindR (b64url_decode p) (loads (jo_loads J)) = Inr (JObj payload) \<and>
       jget (lit ''alg'') header = JStr alg \<and> alg \<in> set (vs_algs suite) \<and> \<not> has_key (lit ''crit'') header \<and>
       reject_sd_jwt_typ header = Inr () \<and> \<not> marked (JObj payload) \<and>
       check_numeric_dates payload [lit ''exp'', lit ''nbf'', lit ''iat''] = Inr ()"
proof -
  assume "vc_gate J suite token audience = Inr alg"
  then obtain h p s hv header payload where g: "vc_split token = Inr (h, p, s)" "json_of_segment J h = Inr hv"
    "as_object MalformedToken hv = Inr header" "allowed_alg header (vs_algs suite) = Inr alg" "reject_unknown_crit header = Inr ()"
    "reject_sd_jwt_typ header = Inr ()" "vc_peek_claims J token = Inr payload" "reject_sd_jwt_payload payload = Inr ()"
    "check_numeric_dates payload [lit ''exp'', lit ''nbf'', lit ''iat''] = Inr ()"
    unfolding vc_gate_def by (auto simp: bindR_Inr)
  have sp: "split_on 46 token = [h, p, s]" "is_ascii token"
    using g(1) by (auto simp: vc_split_def split: if_splits list.splits)
  have "json_of_segment J p = Inr (JObj payload)"
    using g(1,7) by (auto simp: vc_peek_claims_def bindR_Inr as_object_Inr)
  moreover have "\<not> marked (JObj payload)"
    using g(8) by (auto simp: reject_sd_jwt_payload_def carries_sd_jwt_marker_def marker_loop_marked split: if_splits)
  ultimately show ?thesis
    using sp g by (intro exI) (auto simp: json_of_segment_def as_object_Inr allowed_alg_Inr crit_Inr)
qed

lemma vc_finish_Inr:
  "vc_finish J suite claims je audience types ct = Inr r \<Longrightarrow>
     vc_claims r = claims \<and> check_jwt_audience claims audience True = Inr () \<and>
     jget (lit ''vc'') claims = JObj (vc_credential r) \<and> reconcile claims (vc_credential r) = Inr (vc_issuer r, vc_subject r) \<and>
     check_types (vc_credential r) types = Inr () \<and>
     (\<exists>be. check_validity_window (jo_ts J) (jo_clock J) (vc_credential r) [] PinNone (JInt (vs_leeway suite)) ct = Inr be \<and>
        vc_expired r = (je \<or> be))"
  by (auto simp: vc_finish_def bindR_Inr as_object_Inr)

lemma window_waived:
  "check_validity_window ts clock d pr now l False = Inr be \<Longrightarrow>
     check_validity_window ts clock d pr now l True = (if be then Inl CredentialExpired else Inr False)"
  using window_waiver [of ts clock d pr now l] by simp

lemma mldsa_waiver:
  assumes "verify_mldsa J suite token alg jwk False = Inr (claims, je)"
  shows "verify_mldsa J suite token alg jwk True = (if je then Inl ClaimsInvalid else Inr (claims, False))"
proof -
  have c: "check_jwt_claims J suite claims False = Inr je \<Longrightarrow>
      check_jwt_claims J suite claims True = (if je then Inl ClaimsInvalid else Inr False)"
    by (auto simp: check_jwt_claims_def temporal_waiver split: if_splits)
  obtain h p s where sp: "split_on 46 token = [h, p, s]"
    using assms by (auto simp: verify_mldsa_def split: list.splits)
  with assms obtain sg pl v where k: "catchR is_value_error MalformedToken (b64url_decode s) = Inr sg"
    "catchR is_value_error MalformedToken (b64url_decode p) = Inr pl"
    "catchR is_key_backend_error SignatureInvalid
       (verify_signature (jo_crypto J) alg jwk (ascii_bytes (h @ 46 # p)) sg) = Inr True"
    "catchR is_value_error MalformedToken (loads (jo_loads J) pl) = Inr v" "as_object ClaimsInvalid v = Inr claims"
    "check_jwt_claims J suite claims False = Inr je"
    unfolding verify_mldsa_def by (auto simp: bindR_Inr simp del: catchR_Inr split: if_splits)
  show ?thesis using c [OF k(6)] unfolding verify_mldsa_def sp by (simp add: k del: catchR_Inr)
qed

lemma classic_waiver:
  "verify_classic P suite token alg jwk audience False = Inr (claims, je) \<Longrightarrow>
     verify_classic P suite token alg jwk audience True = (if je then Inl ClaimsInvalid else Inr (claims, False))"
  by (auto simp: verify_classic_def bindR_Inr split: option.splits)

lemma finish_waiver:
  assumes "vc_finish J suite claims False audience types False = Inr r"
  shows "vc_finish J suite claims False audience types True = (if vc_expired r then Inl CredentialExpired else Inr r)"
proof -
  obtain be cr iss sub where k: "check_jwt_audience claims audience True = Inr ()"
    "as_object ClaimsInvalid (jget (lit ''vc'') claims) = Inr cr"
    "check_validity_window (jo_ts J) (jo_clock J) cr [] PinNone (JInt (vs_leeway suite)) False = Inr be"
    "reconcile claims cr = Inr (iss, sub)" "check_types cr types = Inr ()"
    "r = \<lparr>vc_credential = cr, vc_issuer = iss, vc_subject = sub, vc_claims = claims, vc_expired = be\<rparr>"
    using assms by (auto simp: vc_finish_def bindR_Inr)
  show ?thesis using k window_waived [OF k(3)] by (simp add: vc_finish_def)
qed

lemma step_waiver:
  "vc_signature_step J P suite token alg jwk audience False = Inr (claims, je) \<Longrightarrow>
     vc_signature_step J P suite token alg jwk audience True = (if je then Inl ClaimsInvalid else Inr (claims, False))"
  by (cases jwk) (auto simp: vc_signature_step_def mldsa_waiver classic_waiver split: if_splits)

text \<open>A token and a library for the examples.\<close>

definition toy_pyjwt :: pyjwt where
  "toy_pyjwt = \<lparr>pj_load = (\<lambda>a k. Inr 0), pj_secp256k1 = (\<lambda>p. Inr 0),
     pj_decode = (\<lambda>t k a l aud e. Inr [(lit ''iss'', JStr (lit ''i'')), (lit ''vc'', JObj [])])\<rparr>"

definition toy_suite :: vc_suite where
  "toy_suite = \<lparr>vs_leeway = 60, vs_algs = ALLOWED_ALGS, vs_sign_algs = ALLOWED_ALGS\<rparr>"

definition toy_token :: str where
  "toy_token = b64url_encode [1] @ [46] @ b64url_encode [2] @ [46]"

lemma toy_gate: "vc_gate toy_jose toy_suite toy_token JNull = Inr (lit ''EdDSA'')"
proof -
  have a: "is_ascii toy_token" using b64url_encode_ascii by (fastforce simp: toy_token_def is_ascii_def list_all_iff)
  have sp: "split_on 46 toy_token = [b64url_encode [1], b64url_encode [2], []]"
    by (simp add: toy_token_def split_on_append_sep)
  have "json_of_segment toy_jose (b64url_encode [1]) = Inr (JObj toy_header)"
    "json_of_segment toy_jose (b64url_encode [2]) = Inr (JObj [])"
    using toy_depth by (simp_all add: json_of_segment_def loads_Inr toy_jose_def)
  then show ?thesis
    using a sp
    by (simp add: vc_gate_def vc_split_def vc_peek_claims_def check_expected_audience_def as_object_def allowed_alg_def
        reject_unknown_crit_def reject_sd_jwt_typ_def reject_sd_jwt_payload_def carries_sd_jwt_marker_def marker_loop_marked
        check_numeric_dates_def toy_header_def jget_def has_key_def toy_suite_def ALLOWED_ALGS_def marker_names_def)
qed

lemma toy_verify:
  "\<exists>r. vc_verify toy_jose toy_pyjwt toy_suite toy_token (JObj (okp_jwk [])) [] JNull ct = Inr r \<and> vc_issuer r = lit ''i'' \<and> \<not> vc_expired r"
proof -
  have k: "vc_signature_step toy_jose toy_pyjwt toy_suite toy_token (lit ''EdDSA'') (JObj (okp_jwk [])) JNull ct =
      Inr ([(lit ''iss'', JStr (lit ''i'')), (lit ''vc'', JObj [])], False)"
    by (simp add: vc_signature_step_def ALLOWED_ALGS_PQ_def verify_classic_def jwk_to_key_def okp_jwk_def jget_def EC_CRV_def
        vc_decode_def toy_pyjwt_def)
  have l: "vs_leeway toy_suite = 60" by (simp add: toy_suite_def)
  have w: "check_validity_window ts c [] [] PinNone (JInt 60) ct = Inr False" for ts c
    by (simp add: check_validity_window_def utc_window_def leeway_seconds_def MAX_LEEWAY_S_def jget_def blank_def Let_def)
  show ?thesis
    using w l by (simp add: vc_verify_def toy_gate k vc_finish_def check_jwt_audience_def check_expected_audience_def has_key_def
        as_object_def jget_def reconcile_def check_types_def Let_def)
qed

section \<open>Properties\<close>

text \<open>(C13) What an accepted VC-JWT is: three ASCII segments whose header names an allowed algorithm, no critical extension and
  no SD-JWT or key-binding type, whose payload has no SD-JWT marker at any depth; the returned credential is the claims'
  own \<open>vc\<close> object, every identifier its \<open>issuer\<close> carries is the verified \<open>iss\<close>, the audience rule and every expected type
  hold, and unless expiry is waived the result is not expired.\<close>

theorem vc_jwt_accepts:
  assumes "vc_verify J P suite token jwk types audience ct = Inr r"
  shows "\<exists>h p s header payload alg.
    split_on 46 token = [h, p, s] \<and> is_ascii token \<and>
    bindR (b64url_decode h) (loads (jo_loads J)) = Inr (JObj header) \<and>
    bindR (b64url_decode p) (loads (jo_loads J)) = Inr (JObj payload) \<and>
    jget (lit ''alg'') header = JStr alg \<and> alg \<in> set (vs_algs suite) \<and> \<not> has_key (lit ''crit'') header \<and>
    (\<forall>typ. jget (lit ''typ'') header = JStr typ \<longrightarrow> \<not> sd_jwt_media typ) \<and> \<not> marked (JObj payload) \<and>
    check_jwt_audience (vc_claims r) audience True = Inr () \<and>
    jget (lit ''vc'') (vc_claims r) = JObj (vc_credential r) \<and> jget (lit ''iss'') (vc_claims r) = JStr (vc_issuer r) \<and>
    (has_key (lit ''issuer'') (vc_credential r) \<longrightarrow>
       (\<forall>n\<in>set (issuer_identifiers (jget (lit ''issuer'') (vc_credential r))). n = JStr (vc_issuer r))) \<and>
    (\<forall>t\<in>set types. JStr t \<in> set (type_list (map_of (vc_credential r) (lit ''type'')))) \<and>
    (ct \<longrightarrow> \<not> vc_expired r)"
proof -
  obtain alg claims je where g: "vc_gate J suite token audience = Inr alg"
    "vc_signature_step J P suite token alg jwk audience ct = Inr (claims, je)"
    "vc_finish J suite claims je audience types ct = Inr r"
    using assms by (auto simp: vc_verify_def bindR_Inr)
  obtain h p s header payload where G: "split_on 46 token = [h, p, s]" "is_ascii token"
    "bindR (b64url_decode h) (loads (jo_loads J)) = Inr (JObj header)"
    "bindR (b64url_decode p) (loads (jo_loads J)) = Inr (JObj payload)"
    "jget (lit ''alg'') header = JStr alg" "alg \<in> set (vs_algs suite)" "\<not> has_key (lit ''crit'') header"
    "reject_sd_jwt_typ header = Inr ()" "\<not> marked (JObj payload)"
    using vc_gate_Inr [OF g(1)] by blast
  have t: "\<forall>typ. jget (lit ''typ'') header = JStr typ \<longrightarrow> \<not> sd_jwt_media typ"
    using G(8) by (auto simp: reject_sd_jwt_typ_def split: if_splits)
  note F = vc_finish_Inr [OF g(3)]
  then obtain be where be: "vc_expired r = (je \<or> be)"
    "check_validity_window (jo_ts J) (jo_clock J) (vc_credential r) [] PinNone (JInt (vs_leeway suite)) ct = Inr be" by blast
  have je: "ct \<Longrightarrow> \<not> je"
    using g(2) by (cases jwk) (auto simp: vc_signature_step_def verify_classic_def verify_mldsa_def check_jwt_claims_def
        check_jwt_temporal_def bindR_Inr split: if_splits option.splits list.splits)
  have "ct \<Longrightarrow> \<not> be" using be(2) unfolding window_Inr by blast
  with je be have "ct \<longrightarrow> \<not> vc_expired r" by auto
  moreover have "\<forall>t\<in>set types. JStr t \<in> set (type_list (map_of (vc_credential r) (lit ''type'')))"
    using F by (auto simp: check_types_def list_all_iff split: if_splits)
  moreover have R: "jget (lit ''iss'') claims = JStr (vc_issuer r) \<and>
     (has_key (lit ''issuer'') (vc_credential r) \<longrightarrow>
       (\<forall>n\<in>set (issuer_identifiers (jget (lit ''issuer'') (vc_credential r))). n = JStr (vc_issuer r)))"
    using F reconcile_Inr by blast
  ultimately show ?thesis using G t F by blast
qed

theorem vc_jwt_accepts_witness:
  "\<exists>r alg. vc_verify toy_jose toy_pyjwt toy_suite toy_token (JObj (okp_jwk [])) [] JNull True = Inr r \<and>
     alg \<in> set (vs_algs toy_suite) \<and> jget (lit ''iss'') (vc_claims r) = JStr (lit ''i'')"
proof -
  obtain r where r: "vc_verify toy_jose toy_pyjwt toy_suite toy_token (JObj (okp_jwk [])) [] JNull True = Inr r"
    "vc_issuer r = lit ''i''" using toy_verify by blast
  with vc_jwt_accepts [OF r(1)] show ?thesis by auto
qed

text \<open>Waiving expiry on a VC-JWT changes nothing else: a token accepted with the waiver is, without it, accepted with the
  same result when it is not expired and refused as expired otherwise, whatever PyJWT does.\<close>

theorem vc_jwt_waiver:
  assumes "vc_verify J P suite token jwk types audience False = Inr r"
  shows "if vc_expired r then \<exists>e\<in>{ClaimsInvalid, CredentialExpired}. vc_verify J P suite token jwk types audience True = Inl e
         else vc_verify J P suite token jwk types audience True = Inr r"
proof -
  obtain alg claims je where g: "vc_gate J suite token audience = Inr alg"
    "vc_signature_step J P suite token alg jwk audience False = Inr (claims, je)"
    "vc_finish J suite claims je audience types False = Inr r"
    using assms by (auto simp: vc_verify_def bindR_Inr)
  show ?thesis
  proof (cases je)
    case True
    then have "vc_expired r" using vc_finish_Inr [OF g(3)] by blast
    with True show ?thesis using g step_waiver [OF g(2)] by (simp add: vc_verify_def)
  next
    case False
    then show ?thesis
      using g step_waiver [OF g(2)] finish_waiver [of J suite claims audience types r] by (simp add: vc_verify_def)
  qed
qed

theorem vc_jwt_waiver_witness:
  "\<exists>r. vc_verify toy_jose toy_pyjwt toy_suite toy_token (JObj (okp_jwk [])) [] JNull False = Inr r \<and>
       vc_verify toy_jose toy_pyjwt toy_suite toy_token (JObj (okp_jwk [])) [] JNull True = Inr r"
proof -
  obtain r where r: "vc_verify toy_jose toy_pyjwt toy_suite toy_token (JObj (okp_jwk [])) [] JNull False = Inr r"
    "\<not> vc_expired r" using toy_verify by blast
  with vc_jwt_waiver [OF r(1)] show ?thesis by simp
qed

text \<open>The marker search is a loop over a work list: it ends, and it finds a member named \<open>_sd\<close>, \<open>_sd_alg\<close> or \<open>...\<close>
  exactly when one exists at some depth of the value.\<close>

theorem marker_exact: "carries_sd_jwt_marker v \<longleftrightarrow> marked v"
  by (simp add: carries_sd_jwt_marker_def marker_loop_marked)

text \<open>An ES256K coordinate has exactly one accepted spelling: the 43-character base64url text of the 32-byte number, for
  the numbers below the field prime.\<close>

theorem es256k_coordinate_exact:
  "es256k_coordinate jwk member = Inr n \<longleftrightarrow>
     n < SECP256K1_FIELD_PRIME \<and> jget member jwk = JStr (b64url_encode (to_bytes 32 n))"
proof
  assume "es256k_coordinate jwk member = Inr n"
  then obtain v raw where v: "jget member jwk = JStr v" "length v = 43" "b64url_encode raw = v"
    "n = from_bytes raw" "n < SECP256K1_FIELD_PRIME"
    by (cases "jget member jwk") (auto simp: es256k_coordinate_def bindR_Inr split: if_splits)
  then have "length raw = 32" using b64url_43 by blast
  with v show "n < SECP256K1_FIELD_PRIME \<and> jget member jwk = JStr (b64url_encode (to_bytes 32 n))"
    using to_from_bytes [of raw 32] by simp
next
  assume a: "n < SECP256K1_FIELD_PRIME \<and> jget member jwk = JStr (b64url_encode (to_bytes 32 n))"
  have "SECP256K1_FIELD_PRIME < 256 ^ 32" by (simp add: SECP256K1_FIELD_PRIME_def)
  then have f: "from_bytes (to_bytes 32 n) = n" using a from_to_bytes [of n 32] by linarith
  have l: "length (b64url_encode (to_bytes 32 n)) = 43" by (simp add: b64url_43)
  have c: "list_all is_b64url_char (b64url_encode (to_bytes 32 n))"
    using b64url_alphabet by (auto simp: list_all_iff is_b64url_char_def)
  show "es256k_coordinate jwk member = Inr n"
    using a f l c decode_43 [OF l] by (simp add: es256k_coordinate_def)
qed

end
