(* ===== verification/Dcql.thy ===== *)
theory Dcql
  imports Vc_Jwt
begin

text \<open>
  openvc/openid4vp.py, the request side: the DCQL query a verifier sent, its credential sets and type constraints, and what makes
  the keys of a \<open>vp_token\<close> a complete answer to it.
\<close>

section \<open>Formats and type constraints\<close>

definition DCQL_SD_JWT_VC :: str where "DCQL_SD_JWT_VC = lit ''dc+sd-jwt''"
definition DCQL_JWT_VC :: str where "DCQL_JWT_VC = lit ''jwt_vc_json''"
definition DCQL_LDP_VC :: str where "DCQL_LDP_VC = lit ''ldp_vc''"
definition DCQL_MSO_MDOC :: str where "DCQL_MSO_MDOC = lit ''mso_mdoc''"

lemmas dcql_formats = DCQL_SD_JWT_VC_def DCQL_JWT_VC_def DCQL_LDP_VC_def DCQL_MSO_MDOC_def

abbreviation vp_malformed :: exc where "vp_malformed \<equiv> Oid4 VpTokenMalformed"

text \<open>\<open>d.get(key, default)\<close>\<close>

definition get_or :: "str \<Rightarrow> json \<Rightarrow> jobj \<Rightarrow> json" where
  "get_or k dflt d = (case map_of d k of None \<Rightarrow> dflt | Some v \<Rightarrow> v)"

definition dcql_meta :: "jobj \<Rightarrow> jobj result" where
  "dcql_meta query =
     (case map_of query (lit ''meta'') of None \<Rightarrow> Inr [] | Some v \<Rightarrow> as_object vp_malformed v)"

definition vct_values :: "jobj \<Rightarrow> str list option result" where
  "vct_values query =
     bindR (dcql_meta query) (\<lambda>meta.
       case map_of meta (lit ''vct_values'') of
         None \<Rightarrow> Inr None
       | Some (JList vs) \<Rightarrow> if vs = [] \<or> \<not> list_all is_jstr vs then Inl vp_malformed else Inr (Some (jstrs vs))
       | Some _ \<Rightarrow> Inl vp_malformed)"

definition mdoc_doctype_value :: "jobj \<Rightarrow> str option result" where
  "mdoc_doctype_value query =
     bindR (dcql_meta query) (\<lambda>meta.
       case map_of meta (lit ''doctype_value'') of
         None \<Rightarrow> Inr None
       | Some (JStr s) \<Rightarrow> if s = [] then Inl vp_malformed else Inr (Some s)
       | Some _ \<Rightarrow> Inl vp_malformed)"

definition type_alternative :: "json \<Rightarrow> str list result" where
  "type_alternative alt =
     (case alt of
        JList ts \<Rightarrow> if ts = [] \<or> \<not> list_all (\<lambda>t. is_jstr t \<and> t \<noteq> JStr []) ts then Inl vp_malformed else Inr (jstrs ts)
      | _ \<Rightarrow> Inl vp_malformed)"

definition type_values :: "jobj \<Rightarrow> str list list option result" where
  "type_values query =
     bindR (dcql_meta query) (\<lambda>meta.
       case map_of meta (lit ''type_values'') of
         None \<Rightarrow> Inr None
       | Some (JList alts) \<Rightarrow> if alts = [] then Inl vp_malformed else bindR (mapR type_alternative alts) (\<lambda>xs. Inr (Some xs))
       | Some _ \<Rightarrow> Inl vp_malformed)"

definition check_constraint :: "jobj \<Rightarrow> str \<Rightarrow> unit result" where
  "check_constraint query fmt =
     (if fmt = DCQL_SD_JWT_VC then bindR (vct_values query) (\<lambda>_. Inr ())
      else if fmt = DCQL_MSO_MDOC then bindR (mdoc_doctype_value query) (\<lambda>_. Inr ())
      else if fmt = DCQL_JWT_VC \<or> fmt = DCQL_LDP_VC then bindR (type_values query) (\<lambda>_. Inr ())
      else Inr ())"

section \<open>The query\<close>

definition is_jbool :: "json \<Rightarrow> bool" where
  "is_jbool v = (case v of JBool b \<Rightarrow> True | _ \<Rightarrow> False)"

type_synonym queries = "(str \<times> jobj) list"

text \<open>One entry of \<open>credentials\<close>, added to the queries read so far.\<close>

definition index_entry :: "queries \<Rightarrow> json \<Rightarrow> queries result" where
  "index_entry queries v =
     bindR (as_object vp_malformed v) (\<lambda>entry.
       case (jget (lit ''id'') entry, jget (lit ''format'') entry) of
         (JStr query_id, JStr fmt) \<Rightarrow>
           if query_id = [] then Inl vp_malformed
           else if fmt = [] then Inl vp_malformed
           else if has_key query_id queries then Inl vp_malformed
           else if \<not> is_jbool (get_or (lit ''require_cryptographic_holder_binding'') (JBool True) entry) then Inl vp_malformed
           else if \<not> is_jbool (get_or (lit ''multiple'') (JBool False) entry) then Inl vp_malformed
           else bindR (check_constraint entry fmt) (\<lambda>_. Inr (queries @ [(query_id, entry)]))
       | _ \<Rightarrow> Inl vp_malformed)"

fun index_entries :: "queries \<Rightarrow> json list \<Rightarrow> queries result" where
  "index_entries queries [] = Inr queries"
| "index_entries queries (v # vs) = bindR (index_entry queries v) (\<lambda>qs. index_entries qs vs)"

definition check_option :: "queries \<Rightarrow> json \<Rightarrow> unit result" where
  "check_option queries option =
     (case option of
        JList ids \<Rightarrow>
          (if ids = [] then Inl vp_malformed
           else if list_all (\<lambda>i. case i of JStr s \<Rightarrow> has_key s queries | _ \<Rightarrow> False) ids then Inr () else Inl vp_malformed)
      | _ \<Rightarrow> Inl vp_malformed)"

definition check_credential_set :: "queries \<Rightarrow> json \<Rightarrow> unit result" where
  "check_credential_set queries v =
     bindR (as_object vp_malformed v) (\<lambda>entry.
       case jget (lit ''options'') entry of
         JList options \<Rightarrow>
           (if options = [] then Inl vp_malformed
            else bindR (mapR (check_option queries) options) (\<lambda>_.
                   if is_jbool (get_or (lit ''required'') (JBool True) entry) then Inr () else Inl vp_malformed))
       | _ \<Rightarrow> Inl vp_malformed)"

definition check_credential_sets :: "json \<Rightarrow> queries \<Rightarrow> unit result" where
  "check_credential_sets value queries =
     (case value of
        JList sets \<Rightarrow> if sets = [] then Inl vp_malformed else bindR (mapR (check_credential_set queries) sets) (\<lambda>_. Inr ())
      | _ \<Rightarrow> Inl vp_malformed)"

definition index_dcql :: "json \<Rightarrow> queries result" where
  "index_dcql dcql_query =
     bindR (as_object vp_malformed dcql_query) (\<lambda>d.
       case jget (lit ''credentials'') d of
         JList credentials \<Rightarrow>
           (if credentials = [] then Inl vp_malformed
            else bindR (index_entries [] credentials) (\<lambda>queries.
                   case map_of d (lit ''credential_sets'') of
                     None \<Rightarrow> Inr queries
                   | Some sets \<Rightarrow> bindR (check_credential_sets sets queries) (\<lambda>_. Inr queries)))
       | _ \<Rightarrow> Inl vp_malformed)"

section \<open>The response\<close>

definition parse_vp_token :: "(str \<Rightarrow> json result) \<Rightarrow> json \<Rightarrow> jobj result" where
  "parse_vp_token loads_text vp_token =
     bindR (case vp_token of
              JStr text \<Rightarrow> catchR is_value_error vp_malformed (loads loads_text text)
            | _ \<Rightarrow> Inr vp_token) (\<lambda>v.
     bindR (as_object vp_malformed v) (\<lambda>token.
       if nesting_exceeds (JObj token) MAX_DEPTH then Inl vp_malformed else Inr token))"

definition option_answered :: "jobj \<Rightarrow> json \<Rightarrow> bool" where
  "option_answered token option = (case option of JList ids \<Rightarrow> list_all (\<lambda>i. has_key (did_text i) token) ids | _ \<Rightarrow> False)"

definition set_answered :: "jobj \<Rightarrow> json \<Rightarrow> bool" where
  "set_answered token v =
     (case v of
        JObj entry \<Rightarrow>
          \<not> truthy (get_or (lit ''required'') (JBool True) entry) \<or>
          (case jget (lit ''options'') entry of JList options \<Rightarrow> list_ex (option_answered token) options | _ \<Rightarrow> False)
      | _ \<Rightarrow> False)"

definition check_completeness :: "jobj \<Rightarrow> queries \<Rightarrow> jobj \<Rightarrow> unit result" where
  "check_completeness token queries dcql_query =
     (case map_of dcql_query (lit ''credential_sets'') of
        None \<Rightarrow> if list_all (\<lambda>(qid, _). has_key qid token) queries then Inr () else Inl (Oid4 VpTokenIncomplete)
      | Some (JList sets) \<Rightarrow> if list_all (set_answered token) sets then Inr () else Inl (Oid4 VpTokenIncomplete)
      | Some _ \<Rightarrow> Inl PyTypeError)"

definition presentation_list :: "jobj \<Rightarrow> json \<Rightarrow> json list result" where
  "presentation_list query value =
     (case value of
        JList ps \<Rightarrow>
          (if ps = [] then Inl vp_malformed
           else if \<not> truthy (get_or (lit ''multiple'') (JBool False) query) \<and> length ps \<noteq> 1 then Inl vp_malformed
           else Inr ps)
      | _ \<Rightarrow> Inl vp_malformed)"

section \<open>Specification\<close>

text \<open>A query that may be sent: distinct non-empty ids, a format, boolean flags and constraints of the right shape.\<close>

definition query_ok :: "str \<times> jobj \<Rightarrow> bool" where
  "query_ok q \<longleftrightarrow> jget (lit ''id'') (snd q) = JStr (fst q) \<and> fst q \<noteq> [] \<and>
     (\<exists>fmt. jget (lit ''format'') (snd q) = JStr fmt \<and> fmt \<noteq> [] \<and> check_constraint (snd q) fmt = Inr ()) \<and>
     is_jbool (get_or (lit ''require_cryptographic_holder_binding'') (JBool True) (snd q)) \<and>
     is_jbool (get_or (lit ''multiple'') (JBool False) (snd q))"

text \<open>What the verifier asked for, as sets of query ids: every query, or for each required set one of its options.\<close>

definition set_options :: "json \<Rightarrow> str set list" where
  "set_options v =
     (case v of
        JObj entry \<Rightarrow> (case jget (lit ''options'') entry of
            JList options \<Rightarrow> map (\<lambda>opt. case opt of JList ids \<Rightarrow> set (jstrs ids) | _ \<Rightarrow> {}) options
          | _ \<Rightarrow> [])
      | _ \<Rightarrow> [])"

definition set_required :: "json \<Rightarrow> bool" where
  "set_required v = (case v of JObj entry \<Rightarrow> get_or (lit ''required'') (JBool True) entry = JBool True | _ \<Rightarrow> False)"

definition satisfies :: "str set \<Rightarrow> jobj \<Rightarrow> str set \<Rightarrow> bool" where
  "satisfies ids dcql_query answered \<longleftrightarrow>
     (case map_of dcql_query (lit ''credential_sets'') of
        None \<Rightarrow> ids \<subseteq> answered
      | Some (JList sets) \<Rightarrow> (\<forall>s\<in>set sets. set_required s \<longrightarrow> (\<exists>opt\<in>set (set_options s). opt \<subseteq> answered))
      | Some _ \<Rightarrow> False)"

section \<open>Lemmas\<close>

lemma index_entry_Inr: "index_entry queries v = Inr qs \<Longrightarrow> \<exists>q. qs = queries @ [q] \<and> v = JObj (snd q) \<and> query_ok q \<and> \<not> has_key (fst q) queries"
  by (cases v) (auto simp: index_entry_def query_ok_def bindR_Inr as_object_def split: json.split_asm if_split_asm)

lemma index_entries_Inr:
  "index_entries queries vs = Inr qs \<Longrightarrow> distinct (map fst queries) \<Longrightarrow> list_all query_ok queries \<Longrightarrow>
     distinct (map fst qs) \<and> list_all query_ok qs \<and> map (\<lambda>q. JObj (snd q)) qs = map (\<lambda>q. JObj (snd q)) queries @ vs"
proof (induction vs arbitrary: queries)
  case (Cons v vs)
  then obtain q where q: "index_entries (queries @ [q]) vs = Inr qs" "v = JObj (snd q)" "query_ok q" "\<not> has_key (fst q) queries"
    by (auto simp: bindR_Inr dest: index_entry_Inr)
  have "fst q \<notin> fst ` set queries" using q(4) by (simp add: has_key_def)
  then show ?case using Cons.IH [OF q(1)] Cons.prems q by simp
qed simp

lemma jstrs_texts: "list_all (\<lambda>i. case i of JStr s \<Rightarrow> P s | _ \<Rightarrow> False) ids \<Longrightarrow> set (jstrs ids) = did_text ` set ids \<and> (\<forall>s\<in>set (jstrs ids). P s)"
proof (induction ids)
  case (Cons i ids)
  then show ?case by (cases i) auto
qed simp

lemma check_option_Inr:
  assumes "check_option queries opt = Inr u"
  shows "\<exists>ids. opt = JList ids \<and> ids \<noteq> [] \<and> set (jstrs ids) = did_text ` set ids \<and> set (jstrs ids) \<subseteq> fst ` set queries"
proof -
  obtain ids where i: "opt = JList ids" "ids \<noteq> []" "list_all (\<lambda>i. case i of JStr s \<Rightarrow> has_key s queries | _ \<Rightarrow> False) ids"
    using assms by (cases opt) (simp_all add: check_option_def split: if_split_asm)
  have "set (jstrs ids) \<subseteq> fst ` set queries"
    using jstrs_texts [OF i(3)] by (metis has_key_def subsetI set_map)
  then show ?thesis using i jstrs_texts [OF i(3)] by blast
qed

lemma option_answered_iff:
  assumes "check_option queries opt = Inr u"
  shows "option_answered token opt \<longleftrightarrow> (case opt of JList ids \<Rightarrow> set (jstrs ids) | _ \<Rightarrow> {}) \<subseteq> fst ` set token"
proof -
  obtain ids where "opt = JList ids" "set (jstrs ids) = did_text ` set ids" using check_option_Inr [OF assms] by blast
  then show ?thesis by (simp add: option_answered_def list_all_iff has_key_def image_subset_iff)
qed

lemma check_set_Inr:
  "check_credential_set queries v = Inr u \<Longrightarrow> \<exists>entry options b. v = JObj entry \<and> jget (lit ''options'') entry = JList options \<and> options \<noteq> [] \<and>
     (\<forall>opt\<in>set options. check_option queries opt = Inr ()) \<and> get_or (lit ''required'') (JBool True) entry = JBool b"
proof -
  assume "check_credential_set queries v = Inr u"
  moreover from this obtain entry where v: "v = JObj entry" by (auto simp: check_credential_set_def bindR_Inr as_object_Inr)
  ultimately obtain options us where e: "jget (lit ''options'') entry = JList options" "options \<noteq> []"
    "mapR (check_option queries) options = Inr us" "is_jbool (get_or (lit ''required'') (JBool True) entry)"
    by (cases "jget (lit ''options'') entry") (auto simp: check_credential_set_def bindR_Inr as_object_def split: if_split_asm)
  have "\<forall>opt\<in>set options. check_option queries opt = Inr ()"
    using e(3) unfolding mapR_Inr by (auto simp: list_all2_conv_all_nth in_set_conv_nth)
  moreover obtain b where "get_or (lit ''required'') (JBool True) entry = JBool b"
    using e(4) by (auto simp: is_jbool_def split: json.split_asm)
  ultimately show ?thesis using e v by blast
qed

lemma set_answered_iff:
  assumes "check_credential_set queries v = Inr u"
  shows "set_answered token v \<longleftrightarrow> (set_required v \<longrightarrow> (\<exists>opt\<in>set (set_options v). opt \<subseteq> fst ` set token))"
proof -
  obtain entry options b where e: "v = JObj entry" "jget (lit ''options'') entry = JList options"
    "\<forall>opt\<in>set options. check_option queries opt = Inr ()" "get_or (lit ''required'') (JBool True) entry = JBool b"
    using check_set_Inr [OF assms] by blast
  have "(\<exists>opt\<in>set options. option_answered token opt) \<longleftrightarrow> (\<exists>opt\<in>set (set_options v). opt \<subseteq> fst ` set token)"
    using option_answered_iff [of queries] e(3) by (simp add: set_options_def e(1,2) cong: bex_cong)
  then show ?thesis by (simp add: set_answered_def set_required_def list_ex_iff e)
qed

lemma index_dcql_Inr:
  assumes "index_dcql (JObj d) = Inr queries"
  shows "\<exists>vs. jget (lit ''credentials'') d = JList vs \<and> index_entries [] vs = Inr queries \<and>
     (\<forall>sets. map_of d (lit ''credential_sets'') = Some sets \<longrightarrow> check_credential_sets sets queries = Inr ())"
proof -
  obtain vs where vs: "jget (lit ''credentials'') d = JList vs"
    using assms by (cases "jget (lit ''credentials'') d") (simp_all add: index_dcql_def as_object_def)
  then obtain qs where qs: "index_entries [] vs = Inr qs"
    "(case map_of d (lit ''credential_sets'') of
        None \<Rightarrow> Inr qs
      | Some sets \<Rightarrow> bindR (check_credential_sets sets qs) (\<lambda>_. Inr qs)) = Inr queries"
    using assms by (simp add: index_dcql_def as_object_def bindR_Inr split: if_split_asm) blast
  have "qs = queries \<and> (\<forall>sets. map_of d (lit ''credential_sets'') = Some sets \<longrightarrow> check_credential_sets sets queries = Inr ())"
    using qs(2) by (cases "map_of d (lit ''credential_sets'')") (auto simp: bindR_Inr)
  then show ?thesis using vs qs(1) by blast
qed

lemma check_credential_sets_Inr:
  assumes "check_credential_sets v queries = Inr u"
  shows "\<exists>sets. v = JList sets \<and> (\<forall>w\<in>set sets. check_credential_set queries w = Inr ())"
proof -
  obtain sets us where s: "v = JList sets" "mapR (check_credential_set queries) sets = Inr us"
    using assms by (cases v) (auto simp: check_credential_sets_def bindR_Inr split: if_split_asm)
  have "\<forall>w\<in>set sets. check_credential_set queries w = Inr ()"
    using s(2) unfolding mapR_Inr by (auto simp: list_all2_conv_all_nth in_set_conv_nth)
  then show ?thesis using s(1) by blast
qed

lemma completeness_satisfies:
  assumes "index_dcql (JObj d) = Inr queries"
  shows "check_completeness token queries d =
     (if satisfies (fst ` set queries) d (fst ` set token) then Inr () else Inl (Oid4 VpTokenIncomplete))"
proof (cases "map_of d (lit ''credential_sets'')")
  case None
  have "list_all (\<lambda>(qid, _). has_key qid token) queries \<longleftrightarrow> fst ` set queries \<subseteq> fst ` set token"
    by (simp add: list_all_iff has_key_def image_subset_iff split_beta)
  then show ?thesis by (simp add: check_completeness_def satisfies_def None)
next
  case (Some v)
  then obtain sets where s: "v = JList sets" "\<forall>w\<in>set sets. check_credential_set queries w = Inr ()"
    using index_dcql_Inr [OF assms] check_credential_sets_Inr by blast
  then have "list_all (set_answered token) sets \<longleftrightarrow> (\<forall>w\<in>set sets. set_required w \<longrightarrow> (\<exists>opt\<in>set (set_options w). opt \<subseteq> fst ` set token))"
    unfolding list_all_iff using set_answered_iff [of queries] by (simp cong: ball_cong)
  then show ?thesis by (simp add: check_completeness_def satisfies_def Some s(1))
qed

lemma indexed_query_ok:
  assumes "index_dcql (JObj d) = Inr queries" "map_of queries query_id = Some query"
  shows "query_ok (query_id, query)"
proof -
  obtain vs where "index_entries [] vs = Inr queries" using index_dcql_Inr [OF assms(1)] by blast
  then have "list_all query_ok queries" using index_entries_Inr by fastforce
  then show ?thesis using map_of_SomeD [OF assms(2)] by (auto simp: list_all_iff)
qed

section \<open>Properties\<close>

text \<open>(C16) Completeness as the protocol states it. A query the verifier may send has distinct ids, boolean flags and well-formed
  constraints, checked for every query whether answered or not; and the keys of a response pass the check exactly when they
  satisfy the request: every query where there are no credential sets, else for every required set all ids of one option.
  Otherwise the response is refused as incomplete.\<close>

theorem dcql_complete:
  assumes "index_dcql (JObj d) = Inr queries"
  shows "distinct (map fst queries) \<and> list_all query_ok queries \<and> jget (lit ''credentials'') d = JList (map (\<lambda>q. JObj (snd q)) queries) \<and>
     check_completeness token queries d =
       (if satisfies (fst ` set queries) d (fst ` set token) then Inr () else Inl (Oid4 VpTokenIncomplete))"
proof -
  obtain vs where q: "jget (lit ''credentials'') d = JList vs" "index_entries [] vs = Inr queries"
    using index_dcql_Inr [OF assms] by blast
  show ?thesis using index_entries_Inr [OF q(2)] q(1) completeness_satisfies [OF assms, of token] by simp
qed

definition ex_query :: jobj where
  "ex_query = [(lit ''credentials'', JList [JObj [(lit ''id'', JStr (lit ''a'')), (lit ''format'', JStr (lit ''dc+sd-jwt''))],
       JObj [(lit ''id'', JStr (lit ''b'')), (lit ''format'', JStr (lit ''ldp_vc''))]]),
     (lit ''credential_sets'', JList [JObj [(lit ''options'', JList [JList [JStr (lit ''a'')], JList [JStr (lit ''b'')]])]])]"

theorem dcql_complete_witness:
  "\<exists>queries. index_dcql (JObj ex_query) = Inr queries \<and> check_completeness [(lit ''b'', JNull)] queries ex_query = Inr () \<and>
     check_completeness [(lit ''c'', JNull)] queries ex_query = Inl (Oid4 VpTokenIncomplete)"
proof -
  have ab: "lit ''a'' \<noteq> lit ''b''" "lit ''a'' \<noteq> lit ''c''" "lit ''b'' \<noteq> lit ''c''" by (simp_all add: lit_def)
  obtain queries where q: "index_dcql (JObj ex_query) = Inr queries"
    by (simp add: index_dcql_def ex_query_def jget_def as_object_def index_entry_def is_jbool_def get_or_def check_constraint_def
        vct_values_def type_values_def dcql_meta_def has_key_def dcql_formats check_credential_sets_def check_credential_set_def
        check_option_def lit_def)
  have "satisfies (fst ` set queries) ex_query {lit ''b''}" "\<not> satisfies (fst ` set queries) ex_query {lit ''c''}"
    using ab by (simp_all add: satisfies_def ex_query_def set_options_def set_required_def get_or_def jget_def)
  then show ?thesis using dcql_complete [OF q] q by auto
qed

end
