(* ===== verification/Status_List.thy ===== *)
theory Status_List
  imports Codec
begin

unbundle bit_operations_syntax

text \<open>
  The two packed status lists: openvc/status/_index.py (the one rule for an index and a size),
  bitstring.py (W3C, one bit per status, most significant bit first) and the list codec of
  token_status_list.py (IETF, 1/2/4/8 bits per status, least significant first).
  Both meet the contract \<open>packed_list\<close>: a fixed number of cells, each holding a value up to a bound,
  where writing one cell changes that cell only.
\<close>

section \<open>Index and size (\_index.py)\<close>

definition MAX_DECOMPRESSED_BYTES :: nat where
  "MAX_DECOMPRESSED_BYTES = 16 * 1024 * 1024"

definition MAX_STATUS_INDEX :: nat where
  "MAX_STATUS_INDEX = MAX_DECOMPRESSED_BYTES * 8"

definition MAX_DIGITS :: nat where
  "MAX_DIGITS = length (decimal MAX_STATUS_INDEX)"

text \<open>\<open>value.lstrip("0") or "0"\<close>\<close>

definition strip_zeros :: "str \<Rightarrow> str" where
  "strip_zeros s = (let d = dropWhile (\<lambda>c. c = 48) s in if d = [] then [48] else d)"

definition check_index :: "bool \<Rightarrow> int \<Rightarrow> nat result" where
  "check_index capped n =
     (if n < 0 then Inl StatusListError
      else if capped \<and> int MAX_STATUS_INDEX \<le> n then Inl StatusListError
      else Inr (nat n))"

fun status_index :: "bool \<Rightarrow> bool \<Rightarrow> json \<Rightarrow> nat result" where
  "status_index allow_string capped (JStr s) =
     (if \<not> allow_string then Inl StatusListError
      else if \<not> is_digits s then Inl StatusListError
      else if MAX_DIGITS < length (strip_zeros s) then Inl StatusListError
      else check_index capped (int (nat_of_digits (strip_zeros s))))"
| "status_index allow_string capped (JInt n) = check_index capped n"
| "status_index allow_string capped v = Inl StatusListError"

fun packed_length :: "json \<Rightarrow> nat \<Rightarrow> nat result" where
  "packed_length (JInt sz) per_byte =
     (if sz < 0 then Inl StatusListError
      else let len = (nat sz + per_byte - 1) div per_byte
           in if MAX_DECOMPRESSED_BYTES < len then Inl StatusListError else Inr len)"
| "packed_length v per_byte = Inl StatusListError"

definition locate_status :: "json \<Rightarrow> nat \<Rightarrow> nat \<Rightarrow> (nat \<times> nat) result" where
  "locate_status index per_byte len =
     bindR (status_index False False index) (\<lambda>i.
       if len \<le> i div per_byte then Inl StatusListError
       else Inr (i div per_byte, i mod per_byte))"

section \<open>W3C bitstring (bitstring.py)\<close>

definition new_bitstring :: "json \<Rightarrow> bytes result" where
  "new_bitstring sz = bindR (packed_length sz 8) (\<lambda>n. Inr (replicate n 0))"

definition get_status_bit :: "bytes \<Rightarrow> json \<Rightarrow> nat result" where
  "get_status_bit bits index =
     bindR (locate_status index 8 (length bits)) (\<lambda>(byte_index, bit_index).
       Inr (unat (drop_bit (7 - bit_index) (bits ! byte_index) AND 1)))"

definition set_status_bit :: "bytes \<Rightarrow> json \<Rightarrow> json \<Rightarrow> bytes result" where
  "set_status_bit bits index value =
     bindR (locate_status index 8 (length bits)) (\<lambda>(byte_index, bit_index).
       let mask = push_bit (7 - bit_index) 1;
           b = bits ! byte_index
       in Inr (bits[byte_index := (if truthy value then b OR mask else b AND NOT mask)]))"

section \<open>IETF token status list (token\_status\_list.py)\<close>

definition STATUS_VALID :: nat where "STATUS_VALID = 0"

definition STATUS_INVALID :: nat where "STATUS_INVALID = 1"

definition STATUS_SUSPENDED :: nat where "STATUS_SUSPENDED = 2"

fun check_bits :: "json \<Rightarrow> nat result" where
  "check_bits (JInt n) = (if n \<in> {1, 2, 4, 8} then Inr (nat n) else Inl StatusListError)"
| "check_bits v = Inl StatusListError"

definition new_status_list :: "json \<Rightarrow> json \<Rightarrow> bytes result" where
  "new_status_list sz bits =
     bindR (check_bits bits) (\<lambda>b. bindR (packed_length sz (8 div b)) (\<lambda>n. Inr (replicate n 0)))"

definition get_status :: "bytes \<Rightarrow> json \<Rightarrow> json \<Rightarrow> nat result" where
  "get_status data index bits =
     bindR (check_bits bits) (\<lambda>b.
       bindR (locate_status index (8 div b) (length data)) (\<lambda>(byte_index, pos).
         let mask = push_bit b 1 - 1
         in Inr (unat (drop_bit (pos * b) (data ! byte_index) AND mask))))"

text \<open>A \<open>bool\<close> value is an \<open>int\<close> here: read as 0 or 1.\<close>

fun status_value :: "json \<Rightarrow> int option" where
  "status_value (JInt n) = Some n"
| "status_value (JBool b) = Some (if b then 1 else 0)"
| "status_value v = None"

definition set_status :: "bytes \<Rightarrow> json \<Rightarrow> json \<Rightarrow> json \<Rightarrow> bytes result" where
  "set_status data index value bits =
     bindR (check_bits bits) (\<lambda>b.
       bindR (status_index False False index) (\<lambda>i.
         case status_value value of
           None \<Rightarrow> Inl StatusListError
         | Some v \<Rightarrow>
             if v < 0 \<or> 2 ^ b - 1 < v then Inl StatusListError
             else bindR (locate_status (JInt (int i)) (8 div b) (length data)) (\<lambda>(byte_index, pos).
               let mask = push_bit b 1 - 1; shift = pos * b
               in Inr (data[byte_index :=
                    (data ! byte_index AND NOT (push_bit shift mask)) OR push_bit shift (word_of_int v)]))))"

section \<open>The contract of a packed list\<close>

text \<open>
  \<open>cells d\<close> statuses, numbered from 0, each in \<open>0..top\<close>. The operations are total on indices:
  an index at or past \<open>cells d\<close> is the error.
\<close>

text \<open>Setting every index of a list to one value, as an issuer does before publishing.\<close>

fun mark_all :: "(bytes \<Rightarrow> nat \<Rightarrow> nat \<Rightarrow> bytes result) \<Rightarrow> nat \<Rightarrow> nat list \<Rightarrow> bytes \<Rightarrow> bytes result" where
  "mark_all put v [] d = Inr d"
| "mark_all put v (i # is) d = bindR (put d i v) (mark_all put v is)"

locale packed_list =
  fixes cells :: "bytes \<Rightarrow> nat"
    and top :: nat
    and get :: "bytes \<Rightarrow> nat \<Rightarrow> nat result"
    and put :: "bytes \<Rightarrow> nat \<Rightarrow> nat \<Rightarrow> bytes result"
  assumes get_inside: "i < cells d \<Longrightarrow> \<exists>v. get d i = Inr v \<and> v \<le> top"
    and get_outside: "cells d \<le> i \<Longrightarrow> get d i = Inl StatusListError"
    and put_inside: "i < cells d \<Longrightarrow> v \<le> top \<Longrightarrow> \<exists>d'. put d i v = Inr d'"
    and put_outside: "cells d \<le> i \<Longrightarrow> put d i v = Inl StatusListError"
    and put_cells: "put d i v = Inr d' \<Longrightarrow> cells d' = cells d"
    and get_put_same: "put d i v = Inr d' \<Longrightarrow> v \<le> top \<Longrightarrow> get d' i = Inr v"
    and get_put_other: "put d i v = Inr d' \<Longrightarrow> j \<noteq> i \<Longrightarrow> get d' j = get d j"
begin

lemma mark_all_total:
  "\<forall>i\<in>set is. i < cells d \<Longrightarrow> v \<le> top \<Longrightarrow> \<exists>d'. mark_all put v is d = Inr d' \<and> cells d' = cells d"
proof (induction "is" arbitrary: d)
  case (Cons i "is")
  then obtain d1 where d1: "put d i v = Inr d1" using put_inside [of i d v] by auto
  then have "\<forall>i\<in>set is. i < cells d1" using Cons.prems put_cells by auto
  with Cons.IH Cons.prems(2) obtain d' where "mark_all put v is d1 = Inr d'" "cells d' = cells d1"
    by blast
  with d1 put_cells show ?case by auto
qed auto

lemma mark_all_get:
  "mark_all put v is d = Inr d' \<Longrightarrow> v \<le> top \<Longrightarrow>
     get d' j = (if j \<in> set is then Inr v else get d j)"
proof (induction "is" arbitrary: d)
  case (Cons i "is")
  then obtain d1 where d1: "put d i v = Inr d1" "mark_all put v is d1 = Inr d'"
    by (auto simp: result_simps)
  have "get d' j = (if j \<in> set is then Inr v else get d1 j)" using Cons d1 by blast
  moreover have "get d1 j = (if j = i then Inr v else get d j)"
    using d1 Cons.prems get_put_same get_put_other by auto
  ultimately show ?case by auto
qed auto

end

section \<open>Lemmas: indices\<close>

lemma strip_zeros_decimal: "strip_zeros (decimal n) = decimal n"
proof (cases "n = 0")
  case True
  then show ?thesis by (simp add: strip_zeros_def decimal.simps)
next
  case False
  then have "dropWhile (\<lambda>c. c = 48) (decimal n) = decimal n"
    using decimal_head [of n] by (cases "decimal n") auto
  then show ?thesis by (simp add: strip_zeros_def Let_def)
qed

lemma decimal_length_mono: "m \<le> n \<Longrightarrow> length (decimal m) \<le> length (decimal n)"
proof (induction n arbitrary: m rule: decimal.induct)
  case (1 n)
  show ?case
  proof (cases "n < 10 \<or> m < 10")
    case True
    with 1(2) show ?thesis
      by (auto simp: decimal.simps [of m] decimal.simps [of n] Suc_le_eq)
  next
    case False
    then have "length (decimal (m div 10)) \<le> length (decimal (n div 10))"
      using 1 by (simp add: div_le_mono)
    with False show ?thesis by (simp add: decimal.simps [of m] decimal.simps [of n])
  qed
qed

lemma status_index_decimal:
  "n < MAX_STATUS_INDEX \<Longrightarrow> status_index True True (JStr (decimal n)) = Inr n"
  using decimal_length_mono [of n MAX_STATUS_INDEX]
  by (simp add: is_digits_decimal strip_zeros_decimal nat_of_digits_decimal MAX_DIGITS_def check_index_def)

lemma check_index_Inr: "check_index c n = Inr i \<longleftrightarrow> n = int i \<and> (c \<longrightarrow> i < MAX_STATUS_INDEX)"
  by (auto simp: check_index_def)

lemma status_index_Inr_bound: "status_index a True v = Inr i \<Longrightarrow> i < MAX_STATUS_INDEX"
  by (cases v) (auto simp: check_index_Inr split: if_splits)

lemma status_index_error: "status_index a c v = Inl e \<Longrightarrow> e = StatusListError"
  by (cases v) (auto simp: check_index_def split: if_splits)

lemma locate_status_int [simp]:
  "locate_status (JInt (int i)) p len =
     (if i div p < len then Inr (i div p, i mod p) else Inl StatusListError)"
  by (simp add: locate_status_def check_index_def)

section \<open>Lemmas: bits\<close>

lemma and_one_bit: "unat (drop_bit k (w :: byte) AND 1) = of_bool (bit w k)"
proof -
  have "drop_bit k w AND 1 = of_bool (bit w k)"
    by (rule bit_eqI) (auto simp: bit_simps)
  then show ?thesis by simp
qed

lemma push_mask: "push_bit b 1 - 1 = (mask b :: byte)" "2 ^ b - 1 = (mask b :: byte)"
  by (simp_all add: mask_eq_exp_minus_1 push_bit_eq_mult)

lemma field_get_put_same:
  fixes w v :: byte
  assumes "shift + b \<le> 8" "take_bit b v = v"
  shows "take_bit b (drop_bit shift ((w AND NOT (push_bit shift (mask b))) OR push_bit shift v)) = v"
proof (rule bit_eqI)
  fix n
  assume n: "possible_bit TYPE(8 word) n"
  have "bit v n \<longleftrightarrow> n < b \<and> bit v n" using assms(2) by (metis bit_take_bit_iff)
  then show "bit (take_bit b (drop_bit shift ((w AND NOT (push_bit shift (mask b))) OR push_bit shift v))) n
      = bit v n"
    using assms(1) n by (auto simp: bit_simps)
qed

lemma field_get_put_other:
  fixes w v :: byte
  assumes "s' + b \<le> shift \<or> shift + b \<le> s'" "take_bit b v = v"
  shows "take_bit b (drop_bit s' ((w AND NOT (push_bit shift (mask b))) OR push_bit shift v)) =
         take_bit b (drop_bit s' w)"
proof (rule bit_eqI)
  fix n
  have *: "bit v k \<Longrightarrow> k < b" for k using assms(2) by (metis bit_take_bit_iff)
  show "bit (take_bit b (drop_bit s' ((w AND NOT (push_bit shift (mask b))) OR push_bit shift v))) n
      = bit (take_bit b (drop_bit s' w)) n"
    using assms(1) * [of "s' + n - shift"] bit_imp_le_length [of w "s' + n"]
    by (auto simp: bit_simps add.commute)
qed

lemma field_disjoint: "p \<noteq> q \<Longrightarrow> p * b + b \<le> q * b \<or> q * b + b \<le> p * b" for p q b :: nat
  by (metis add.commute linorder_neq_iff mult_Suc mult_le_mono1 Suc_leI)

lemma bits_cases: "b \<in> {1, 2, 4, 8} \<Longrightarrow> P 1 \<Longrightarrow> P 2 \<Longrightarrow> P 4 \<Longrightarrow> P 8 \<Longrightarrow> P b" for b :: nat
  by auto

lemma bits_per_byte: "b \<in> {1, 2, 4, 8} \<Longrightarrow> 0 < 8 div b \<and> 8 div b * b = 8" for b :: nat
  by auto

lemma check_bits_Inr: "check_bits v = Inr b \<Longrightarrow> v = JInt (int b) \<and> b \<in> {1, 2, 4, 8}"
  by (cases v) (auto split: if_splits)

lemma check_bits_ok [simp]: "b \<in> {1, 2, 4, 8} \<Longrightarrow> check_bits (JInt (int b)) = Inr b"
  by auto

lemma pos_field: "b \<in> {1, 2, 4, 8} \<Longrightarrow> p < 8 div b \<Longrightarrow> p * b + b \<le> 8" for p b :: nat
  using bits_per_byte [of b] by (metis Suc_leI add.commute mult_Suc mult_le_mono1)

section \<open>The lists meet the contract\<close>

definition w3c_get :: "bytes \<Rightarrow> nat \<Rightarrow> nat result" where
  "w3c_get d i = get_status_bit d (JInt (int i))"

definition w3c_put :: "bytes \<Rightarrow> nat \<Rightarrow> nat \<Rightarrow> bytes result" where
  "w3c_put d i v = set_status_bit d (JInt (int i)) (JInt (int v))"

definition ietf_get :: "nat \<Rightarrow> bytes \<Rightarrow> nat \<Rightarrow> nat result" where
  "ietf_get b d i = get_status d (JInt (int i)) (JInt (int b))"

definition ietf_put :: "nat \<Rightarrow> bytes \<Rightarrow> nat \<Rightarrow> nat \<Rightarrow> bytes result" where
  "ietf_put b d i v = set_status d (JInt (int i)) (JInt (int v)) (JInt (int b))"

lemma w3c_get_eq:
  "w3c_get d i = (if i < 8 * length d then Inr (of_bool (bit (d ! (i div 8)) (7 - i mod 8)))
                  else Inl StatusListError)"
  by (auto simp: w3c_get_def get_status_bit_def and_one_bit)

lemma w3c_put_eq:
  "w3c_put d i v =
     (if i < 8 * length d then
        Inr (d[i div 8 := (if v \<noteq> 0 then d ! (i div 8) OR push_bit (7 - i mod 8) 1
                           else d ! (i div 8) AND NOT (push_bit (7 - i mod 8) 1))])
      else Inl StatusListError)"
  by (auto simp: w3c_put_def set_status_bit_def)

lemma same_cell: "i div k = j div k \<Longrightarrow> i \<noteq> j \<Longrightarrow> i mod k \<noteq> j mod k" for i j k :: nat
  by (metis div_mult_mod_eq)

interpretation w3c: packed_list "\<lambda>d. 8 * length d" 1 w3c_get w3c_put
proof (unfold_locales, goal_cases)
  case (6 d i v d')
  then show ?case by (auto simp: w3c_get_eq w3c_put_eq bit_simps split: if_splits)
next
  case (7 d i v d' j)
  have "j div 8 = i div 8 \<Longrightarrow> 7 - j mod 8 \<noteq> 7 - i mod 8"
    using same_cell [of i 8 j] 7(2) mod_less_divisor [of 8 i] mod_less_divisor [of 8 j] by linarith
  with 7 show ?case by (auto simp: w3c_get_eq w3c_put_eq bit_simps nth_list_update split: if_splits)
qed (auto simp: w3c_get_eq w3c_put_eq split: if_splits)

lemma ietf_get_eq:
  assumes "b \<in> {1, 2, 4, 8}"
  shows "ietf_get b d i =
     (if i < 8 div b * length d
      then Inr (unat (take_bit b (drop_bit (i mod (8 div b) * b) (d ! (i div (8 div b))))))
      else Inl StatusListError)"
proof -
  have p: "0 < 8 div b" using bits_per_byte [OF assms] by simp
  show ?thesis
    by (simp add: ietf_get_def get_status_def check_bits_ok [OF assms] push_mask take_bit_eq_mask
        div_less_iff_less_mult [OF p] mult.commute del: check_bits.simps)
qed

lemma ietf_put_eq:
  assumes "b \<in> {1, 2, 4, 8}"
  shows "ietf_put b d i v =
     (if v < 2 ^ b \<and> i < 8 div b * length d
      then Inr (d[i div (8 div b) :=
             (d ! (i div (8 div b)) AND NOT (push_bit (i mod (8 div b) * b) (mask b)))
               OR push_bit (i mod (8 div b) * b) (of_nat v)])
      else Inl StatusListError)"
proof -
  have p: "0 < 8 div b" using bits_per_byte [OF assms] by simp
  have v: "2 ^ b - 1 < int v \<longleftrightarrow> \<not> v < 2 ^ b"
    by (metis add1_zle_eq diff_add_cancel not_less of_nat_less_iff of_nat_numeral of_nat_power zle_diff1_eq)
  show ?thesis
    by (simp add: ietf_put_def set_status_def check_bits_ok [OF assms] push_mask v
        div_less_iff_less_mult [OF p] mult.commute check_index_def Let_def del: check_bits.simps)
qed

lemma packed_list_ietf:
  assumes b: "b \<in> {1, 2, 4, 8}"
  shows "packed_list (\<lambda>d. 8 div b * length d) (2 ^ b - 1) (ietf_get b) (ietf_put b)"
proof -
  note per = bits_per_byte [OF b]
  have top: "v \<le> 2 ^ b - 1 \<longleftrightarrow> v < 2 ^ b" for v :: nat
    using zero_less_power [of "2::nat" b] by linarith
  have field: "i mod (8 div b) * b + b \<le> 8" for i using per pos_field [OF b] by simp
  have tb: "v < 2 ^ b \<Longrightarrow> take_bit b (of_nat v :: byte) = of_nat v" for v
    by (simp add: take_bit_of_nat take_bit_nat_eq_self)
  have un: "v < 2 ^ b \<Longrightarrow> unat (of_nat v :: byte) = v" for v
    using b by (auto simp: unat_of_nat)
  note eqs = ietf_get_eq [OF b] ietf_put_eq [OF b]
  show ?thesis
  proof (unfold_locales, goal_cases)
    case (1 i d)
    have "unat (take_bit b w) < 2 ^ b" for w :: byte
      by (metis take_bit_nat_less_exp unsigned_take_bit_eq)
    then have "unat (take_bit b w) \<le> 2 ^ b - 1" for w :: byte by (simp only: top)
    with 1 show ?case by (simp add: eqs)
  next
    case (6 d i v d')
    then have v: "v < 2 ^ b" and i: "i < 8 div b * length d" and d': "d' = d[i div (8 div b) :=
        (d ! (i div (8 div b)) AND NOT (push_bit (i mod (8 div b) * b) (mask b)))
          OR push_bit (i mod (8 div b) * b) (of_nat v)]"
      by (auto simp: eqs split: if_splits)
    have "i div (8 div b) < length d" using i per by (simp add: div_less_iff_less_mult mult.commute)
    with i show ?case
      by (simp only: eqs d' length_list_update if_True nth_list_update_eq
          field_get_put_same [OF field tb [OF v]] un [OF v])
  next
    case (7 d i v d' j)
    let ?k = "8 div b"
    have "j div ?k = i div ?k \<Longrightarrow>
        j mod ?k * b + b \<le> i mod ?k * b \<or> i mod ?k * b + b \<le> j mod ?k * b"
      using same_cell [of i ?k j] 7(2) field_disjoint by metis
    note disj = this
    from 7 have v: "v < 2 ^ b" and i: "i < ?k * length d" and d': "d' = d[i div ?k :=
        (d ! (i div ?k) AND NOT (push_bit (i mod ?k * b) (mask b)))
          OR push_bit (i mod ?k * b) (of_nat v)]"
      by (auto simp: eqs split: if_splits)
    have idx: "i div ?k < length d" using i per by (simp add: div_less_iff_less_mult mult.commute)
    show ?case
    proof (cases "j div ?k = i div ?k")
      case True
      with idx show ?thesis
        by (simp only: eqs d' length_list_update nth_list_update_eq
            field_get_put_other [OF disj [OF True] tb [OF v]])
    next
      case False
      then show ?thesis by (simp add: eqs d')
    qed
  qed (auto simp: eqs top [unfolded One_nat_def] split: if_splits)
qed

interpretation ietf1: packed_list "\<lambda>d. 8 div 1 * length d" "2 ^ 1 - 1" "ietf_get 1" "ietf_put 1"
  by (rule packed_list_ietf) simp

interpretation ietf2: packed_list "\<lambda>d. 8 div 2 * length d" "2 ^ 2 - 1" "ietf_get 2" "ietf_put 2"
  by (rule packed_list_ietf) simp

interpretation ietf4: packed_list "\<lambda>d. 8 div 4 * length d" "2 ^ 4 - 1" "ietf_get 4" "ietf_put 4"
  by (rule packed_list_ietf) simp

interpretation ietf8: packed_list "\<lambda>d. 8 div 8 * length d" "2 ^ 8 - 1" "ietf_get 8" "ietf_put 8"
  by (rule packed_list_ietf) simp

end
