(* ===== verification/Status_Check.thy ===== *)
theory Status_Check
  imports Status_List
begin

text \<open>
  Reading and publishing status: openvc/status/_decompress.py (bounded inflation), the wire codecs of
  bitstring.py and token_status_list.py, the check side of status_list.py and token_status_list.py,
  and the pointer builders of issue.py.

  Parameters for code outside the repository: \<open>read\<close> is \<open>GzipFile.read\<close> on the given compressed bytes,
  \<open>compress\<close> the matching compressor; a \<open>zlib\<close> record is a \<open>zlib.decompressobj\<close> (its state, one
  \<open>decompress(data, max_length)\<close> giving output, \<open>unconsumed_tail\<close> and the next state, and \<open>flush\<close>);
  \<open>resolve\<close> is the caller's resolver; \<open>pick\<close> is the iteration order of a Python set.
\<close>

section \<open>Bounded inflation (\_decompress.py)\<close>

definition CHUNK :: nat where
  "CHUNK = 65536"

definition gunzip_bounded :: "(bytes \<Rightarrow> nat \<Rightarrow> bytes result) \<Rightarrow> nat \<Rightarrow> bytes \<Rightarrow> bytes result" where
  "gunzip_bounded read max_out data =
     bindR (read data (max_out + 1)) (\<lambda>out.
       if max_out < length out then Inl DecompressionBomb else Inr out)"

record 'z zlib =
  z_init :: 'z
  z_decompress :: "'z \<Rightarrow> bytes \<Rightarrow> nat \<Rightarrow> (bytes \<times> bytes \<times> 'z) result"
  z_flush :: "'z \<Rightarrow> bytes result"

text \<open>The \<open>while True\<close> loop: \<open>None\<close> would be a loop that never breaks.\<close>

partial_function (option) inflate_loop ::
    "'z zlib \<Rightarrow> nat \<Rightarrow> 'z \<Rightarrow> bytes \<Rightarrow> bytes \<Rightarrow> (bytes \<times> 'z) result option" where
  "inflate_loop z max_out d out to_feed =
     (case z_decompress z d to_feed CHUNK of
        Inl e \<Rightarrow> Some (Inl e)
      | Inr r \<Rightarrow>
          (if max_out < length (out @ fst r) then Some (Inl DecompressionBomb)
           else if fst (snd r) \<noteq> [] then inflate_loop z max_out (snd (snd r)) (out @ fst r) (fst (snd r))
           else if fst r \<noteq> [] then inflate_loop z max_out (snd (snd r)) (out @ fst r) []
           else Some (Inr (out @ fst r, snd (snd r)))))"

definition inflate_bounded :: "'z zlib \<Rightarrow> nat \<Rightarrow> bytes \<Rightarrow> bytes result option" where
  "inflate_bounded z max_out data =
     (case inflate_loop z max_out (z_init z) [] data of
        None \<Rightarrow> None
      | Some (Inl e) \<Rightarrow> Some (Inl e)
      | Some (Inr (out, d)) \<Rightarrow>
          Some (bindR (z_flush z d) (\<lambda>rest.
            if max_out < length (out @ rest) then Inl DecompressionBomb else Inr (out @ rest))))"

section \<open>Wire forms\<close>

text \<open>A leading \<open>u\<close> is the multibase prefix of the current form; a legacy list has none.\<close>

definition strip_u :: "str \<Rightarrow> str" where
  "strip_u s = (if starts_with (lit ''u'') s then drop 1 s else s)"

definition decode_bitstring :: "(bytes \<Rightarrow> nat \<Rightarrow> bytes result) \<Rightarrow> str \<Rightarrow> bytes result" where
  "decode_bitstring read encoded_list =
     bindR (catchR (\<lambda>e. e \<in> {PyValueError, PyTypeError}) StatusListError (b64url_decode (strip_u encoded_list)))
       (\<lambda>compressed.
          catchR (\<lambda>e. e \<in> {PyOSError, PyEOFError, ZlibError, DecompressionBomb}) StatusListError
            (gunzip_bounded read MAX_DECOMPRESSED_BYTES compressed))"

definition encode_bitstring :: "(bytes \<Rightarrow> bytes) \<Rightarrow> bytes \<Rightarrow> str" where
  "encode_bitstring compress bits = lit ''u'' @ b64url_encode (compress bits)"

definition decode_status_list :: "'z zlib \<Rightarrow> str \<Rightarrow> bytes result option" where
  "decode_status_list z lst =
     (case catchR (\<lambda>e. e \<in> {PyValueError, PyTypeError}) StatusListError (b64url_decode lst) of
        Inl e \<Rightarrow> Some (Inl e)
      | Inr compressed \<Rightarrow>
          map_option (catchR (\<lambda>e. e \<in> {ZlibError, DecompressionBomb}) StatusListError)
            (inflate_bounded z MAX_DECOMPRESSED_BYTES compressed))"

definition encode_status_list :: "(bytes \<Rightarrow> bytes) \<Rightarrow> bytes \<Rightarrow> str" where
  "encode_status_list compress data = b64url_encode (compress data)"

section \<open>W3C credentialStatus (status\_list.py)\<close>

record status_entry =
  status_list_credential :: str
  se_index :: nat
  se_purpose :: str
  entry_type :: str

record status_entry_result =
  ser_entry :: status_entry
  is_set :: bool

record status_result =
  sr_revoked :: bool
  sr_suspended :: bool
  sr_entries :: "status_entry_result list"

definition ENTRY_TYPES :: "str list" where
  "ENTRY_TYPES = [lit ''BitstringStatusListEntry'', lit ''StatusList2021Entry'']"

definition PURPOSE_REVOCATION :: str where
  "PURPOSE_REVOCATION = lit ''revocation''"

definition PURPOSE_SUSPENSION :: str where
  "PURPOSE_SUSPENSION = lit ''suspension''"

fun objects_of :: "json list \<Rightarrow> jobj list result" where
  "objects_of [] = Inr []"
| "objects_of (JObj d # xs) = bindR (objects_of xs) (\<lambda>ds. Inr (d # ds))"
| "objects_of (x # xs) = Inl StatusListError"

fun as_entry_list :: "json \<Rightarrow> jobj list result" where
  "as_entry_list JNull = Inr []"
| "as_entry_list (JObj d) = Inr [d]"
| "as_entry_list (JList xs) = objects_of xs"
| "as_entry_list v = Inl StatusListError"

text \<open>The string members of an entry's \<open>type\<close>.\<close>

fun type_names :: "json \<Rightarrow> str list" where
  "type_names (JStr s) = [s]"
| "type_names (JList xs) = jstrs xs"
| "type_names v = []"

definition matched_types :: "jobj \<Rightarrow> str list" where
  "matched_types raw = filter (\<lambda>t. t \<in> set (type_names (jget (lit ''type'') raw))) ENTRY_TYPES"

text \<open>One iteration of the loop: \<open>None\<close> is \<open>continue\<close>.\<close>

definition parse_status_entry :: "(str list \<Rightarrow> str) \<Rightarrow> jobj \<Rightarrow> status_entry option result" where
  "parse_status_entry pick raw =
     (if jget (lit ''type'') raw \<in> {JNull, JStr [], JList []} then Inl StatusListError
      else if matched_types raw = [] then Inr None
      else
        let url = jget (lit ''statusListCredential'') raw;
            index = jget (lit ''statusListIndex'') raw
        in if \<not> truthy url \<or> index = JNull then Inl StatusListError
           else case url of
             JStr u \<Rightarrow>
               (case (case map_of raw (lit ''statusPurpose'') of
                        None \<Rightarrow> JStr PURPOSE_REVOCATION | Some p \<Rightarrow> p) of
                  JStr p \<Rightarrow>
                    bindR (status_index True True index) (\<lambda>i.
                      Inr (Some \<lparr>status_list_credential = u, se_index = i, se_purpose = p,
                                 entry_type = pick (matched_types raw)\<rparr>))
                | _ \<Rightarrow> Inl StatusListError)
           | _ \<Rightarrow> Inl StatusListError)"

fun parse_status_loop :: "(str list \<Rightarrow> str) \<Rightarrow> jobj list \<Rightarrow> status_entry list result" where
  "parse_status_loop pick [] = Inr []"
| "parse_status_loop pick (raw # raws) =
     bindR (parse_status_entry pick raw) (\<lambda>me.
       bindR (parse_status_loop pick raws) (\<lambda>es.
         Inr (case me of None \<Rightarrow> es | Some e \<Rightarrow> e # es)))"

definition parse_status_entries :: "(str list \<Rightarrow> str) \<Rightarrow> jobj \<Rightarrow> status_entry list result" where
  "parse_status_entries pick credential =
     bindR (as_entry_list (jget (lit ''credentialStatus'') credential)) (parse_status_loop pick)"

definition encoded_list :: "json \<Rightarrow> status_entry \<Rightarrow> str result" where
  "encoded_list status_vc entry =
     (case status_vc of
        JObj vc \<Rightarrow>
          (case jget (lit ''credentialSubject'') vc of
             JObj subject \<Rightarrow>
               (let list_purpose = jget (lit ''statusPurpose'') subject
                in if truthy list_purpose \<and> list_purpose \<noteq> JStr (se_purpose entry) then Inl StatusListError
                   else case jget (lit ''encodedList'') subject of
                     JStr encoded \<Rightarrow> if encoded = [] then Inl StatusListError else Inr encoded
                   | _ \<Rightarrow> Inl StatusListError)
           | _ \<Rightarrow> Inl StatusListError)
      | _ \<Rightarrow> Inl StatusListError)"

definition read_status_bit ::
    "(bytes \<Rightarrow> nat \<Rightarrow> bytes result) \<Rightarrow> json \<Rightarrow> status_entry \<Rightarrow> status_entry_result result" where
  "read_status_bit read status_vc entry =
     bindR (bindR (encoded_list status_vc entry) (decode_bitstring read)) (\<lambda>bits.
       bindR (get_status_bit bits (JInt (int (se_index entry)))) (\<lambda>b.
         Inr \<lparr>ser_entry = entry, is_set = (b \<noteq> 0)\<rparr>))"

definition tally_status :: "status_entry_result list \<Rightarrow> status_result" where
  "tally_status results =
     \<lparr>sr_revoked = list_ex (\<lambda>r. is_set r \<and> se_purpose (ser_entry r) = PURPOSE_REVOCATION) results,
      sr_suspended = list_ex (\<lambda>r. is_set r \<and> se_purpose (ser_entry r) = PURPOSE_SUSPENSION) results,
      sr_entries = results\<rparr>"

definition check_credential_status ::
    "(str list \<Rightarrow> str) \<Rightarrow> (bytes \<Rightarrow> nat \<Rightarrow> bytes result) \<Rightarrow> (str \<Rightarrow> json result) \<Rightarrow> jobj \<Rightarrow>
     status_result result" where
  "check_credential_status pick read resolve credential =
     bindR (parse_status_entries pick credential) (\<lambda>es.
       bindR (mapR (\<lambda>e. bindR (resolve (status_list_credential e)) (\<lambda>vc. read_status_bit read vc e)) es)
         (\<lambda>results. Inr (tally_status results)))"

section \<open>IETF status claim (token\_status\_list.py)\<close>

record token_status_ref =
  ref_uri :: str
  ref_index :: nat

record token_status_result =
  ts_ref :: token_status_ref
  ts_status :: nat
  ts_revoked :: bool
  ts_suspended :: bool

definition parse_token_status_ref :: "jobj \<Rightarrow> token_status_ref option result" where
  "parse_token_status_ref claims =
     (case jget (lit ''status'') claims of
        JObj status \<Rightarrow>
          (case jget (lit ''status_list'') status of
             JObj ref \<Rightarrow>
               (let uri = jget (lit ''uri'') ref; idx = jget (lit ''idx'') ref
                in if \<not> truthy uri \<or> idx = JNull then Inl StatusListError
                   else case uri of
                     JStr u \<Rightarrow> bindR (status_index False True idx) (\<lambda>i.
                       Inr (Some \<lparr>ref_uri = u, ref_index = i\<rparr>))
                   | _ \<Rightarrow> Inl StatusListError)
           | _ \<Rightarrow> Inr None)
      | _ \<Rightarrow> Inr None)"

definition status_list_claim :: "json \<Rightarrow> (int \<times> str) result" where
  "status_list_claim token_claims =
     (case token_claims of
        JObj claims \<Rightarrow>
          (case jget (lit ''status_list'') claims of
             JObj sl \<Rightarrow>
               (case jget (lit ''bits'') sl of
                  JInt bits \<Rightarrow>
                    (case jget (lit ''lst'') sl of
                       JStr lst \<Rightarrow> Inr (bits, lst)
                     | _ \<Rightarrow> Inl StatusListError)
                | _ \<Rightarrow> Inl StatusListError)
           | _ \<Rightarrow> Inl StatusListError)
      | _ \<Rightarrow> Inl StatusListError)"

definition token_status_of :: "'z zlib \<Rightarrow> token_status_ref \<Rightarrow> json \<Rightarrow> token_status_result result option" where
  "token_status_of z ref token_claims =
     (case status_list_claim token_claims of
        Inl e \<Rightarrow> Some (Inl e)
      | Inr (bits, lst) \<Rightarrow>
          map_option (\<lambda>data.
            bindR data (\<lambda>d.
              bindR (get_status d (JInt (int (ref_index ref))) (JInt bits)) (\<lambda>v.
                Inr \<lparr>ts_ref = ref, ts_status = v, ts_revoked = (v = STATUS_INVALID),
                     ts_suspended = (v = STATUS_SUSPENDED)\<rparr>)))
            (decode_status_list z lst))"

text \<open>\<open>Some (Inr None)\<close>: the token carries no reference.\<close>

definition check_token_status ::
    "'z zlib \<Rightarrow> (str \<Rightarrow> json result) \<Rightarrow> jobj \<Rightarrow> token_status_result option result option" where
  "check_token_status z resolve claims =
     (case parse_token_status_ref claims of
        Inl e \<Rightarrow> Some (Inl e)
      | Inr None \<Rightarrow> Some (Inr None)
      | Inr (Some ref) \<Rightarrow>
          (case resolve (ref_uri ref) of
             Inl e \<Rightarrow> Some (Inl e)
           | Inr token_claims \<Rightarrow>
               map_option (\<lambda>r. bindR r (\<lambda>v. Inr (Some v))) (token_status_of z ref token_claims)))"

section \<open>Pointer builders (issue.py)\<close>

fun text_of :: "json \<Rightarrow> str result" where
  "text_of (JStr s) = (if s = [] then Inl StatusListError else Inr s)"
| "text_of v = Inl StatusListError"

definition build_status_list_entry :: "json \<Rightarrow> json \<Rightarrow> json \<Rightarrow> json \<Rightarrow> jobj result" where
  "build_status_list_entry url index purpose ident =
     bindR (status_index False True index) (\<lambda>i.
     bindR (text_of url) (\<lambda>u.
     bindR (text_of purpose) (\<lambda>p.
     bindR (if ident = JNull then Inr None else bindR (text_of ident) (\<lambda>t. Inr (Some t))) (\<lambda>ident'.
       Inr ([(lit ''type'', JStr (lit ''BitstringStatusListEntry'')),
             (lit ''statusPurpose'', JStr p),
             (lit ''statusListIndex'', JStr (decimal i)),
             (lit ''statusListCredential'', JStr u)]
            @ (case ident' of None \<Rightarrow> [] | Some t \<Rightarrow> [(lit ''id'', JStr t)]))))))"

definition build_token_status_reference :: "json \<Rightarrow> json \<Rightarrow> jobj result" where
  "build_token_status_reference uri index =
     bindR (status_index False True index) (\<lambda>i.
     bindR (text_of uri) (\<lambda>u.
       Inr [(lit ''status'', JObj [(lit ''status_list'',
              JObj [(lit ''idx'', JInt (int i)), (lit ''uri'', JStr u)])])]))"

section \<open>Lemmas: inflation\<close>

text \<open>
  \<open>stream R\<close> is the documented behaviour of a decompression object: \<open>R d feed out\<close> says that an object in
  state \<open>d\<close>, given \<open>feed\<close>, still owes exactly \<open>out\<close>.
\<close>

definition zlib_stream :: "'z zlib \<Rightarrow> ('z \<Rightarrow> bytes \<Rightarrow> bytes \<Rightarrow> bool) \<Rightarrow> bool" where
  "zlib_stream z R \<longleftrightarrow>
     (\<forall>d feed out. R d feed out \<longrightarrow>
        (\<exists>chunk tail d' out'. z_decompress z d feed CHUNK = Inr (chunk, tail, d') \<and>
           out = chunk @ out' \<and> R d' tail out' \<and> (tail \<noteq> [] \<longrightarrow> chunk \<noteq> []))) \<and>
     (\<forall>d out. R d [] out \<longrightarrow> z_flush z d = Inr out)"

lemma inflate_loop_stream:
  assumes z: "zlib_stream z R"
  shows "R d feed rest \<Longrightarrow>
           inflate_loop z max_out d out feed = Some (Inl DecompressionBomb) \<and>
             max_out < length out + length rest \<or>
           (\<exists>d' out' rest'. inflate_loop z max_out d out feed = Some (Inr (out', d')) \<and>
             out' @ rest' = out @ rest \<and> R d' [] rest')"
proof (induction "length rest" arbitrary: d feed rest out rule: less_induct)
  case less
  obtain chunk tail d' rest' where
    s: "z_decompress z d feed CHUNK = Inr (chunk, tail, d')" "rest = chunk @ rest'"
      "R d' tail rest'" "tail \<noteq> [] \<longrightarrow> chunk \<noteq> []"
    using z less.prems unfolding zlib_stream_def by blast
  show ?case
  proof (cases "chunk = [] \<or> max_out < length (out @ chunk)")
    case True
    with s show ?thesis by (simp add: inflate_loop.simps [of z max_out d out feed]) auto
  next
    case False
    then have "length rest' < length rest" using s by simp
    from less.hyps [OF this s(3), of "out @ chunk"] s False show ?thesis
      by (simp add: inflate_loop.simps [of z max_out d out feed]) (cases "tail = []"; auto)
  qed
qed

lemma inflate_bounded_stream:
  assumes "zlib_stream z R" "R (z_init z) data out"
  shows "inflate_bounded z max_out data =
           Some (if length out \<le> max_out then Inr out else Inl DecompressionBomb)"
proof -
  have flush: "R d [] rest \<Longrightarrow> z_flush z d = Inr rest" for d rest
    using assms(1) unfolding zlib_stream_def by blast
  from inflate_loop_stream [OF assms, of max_out "[]"] show ?thesis
    using flush by (auto simp: inflate_bounded_def)
qed

section \<open>Lemmas: indices on the wire\<close>

lemma nat_of_digits_strip: "nat_of_digits (strip_zeros s) = nat_of_digits s"
proof -
  have "nat_of_digits (dropWhile (\<lambda>c. c = 48) s) = nat_of_digits s"
    by (induction s) (auto simp: nat_of_digits_zero)
  then show ?thesis
    by (cases "dropWhile (\<lambda>c. c = 48) s = []") (simp_all only: strip_zeros_def Let_def nat_of_digits_zero if_True if_False simp_thms)
qed

lemma nat_of_digits_ge: "48 < hd d \<Longrightarrow> d \<noteq> [] \<Longrightarrow> 10 ^ (length d - 1) \<le> nat_of_digits d"
proof (cases d)
  case (Cons c r)
  assume "48 < hd d"
  with Cons have "1 \<le> nat_of_digits [c]" by (simp add: nat_of_digits_def)
  then have "10 ^ length r * 1 \<le> 10 ^ length r * nat_of_digits [c]" by (intro mult_le_mono2)
  moreover have "nat_of_digits d = 10 ^ length r * nat_of_digits [c] + nat_of_digits r"
    using Cons nat_of_digits_append [of "[c]" r] by simp
  moreover have "length d - 1 = length r" using Cons by simp
  ultimately show ?thesis by (metis mult.right_neutral trans_le_add1)
qed simp

lemma decimal_length_rec:
  "n < 10 \<Longrightarrow> length (decimal n) = 1"
  "\<not> n < 10 \<Longrightarrow> length (decimal n) = Suc (length (decimal (n div 10)))"
  by (simp_all add: decimal.simps [of n])

lemma MAX_values: "MAX_STATUS_INDEX = 134217728" "MAX_DIGITS = 9" "MAX_DECOMPRESSED_BYTES = 16777216"
proof -
  show "MAX_STATUS_INDEX = 134217728" "MAX_DECOMPRESSED_BYTES = 16777216"
    by (simp_all add: MAX_STATUS_INDEX_def MAX_DECOMPRESSED_BYTES_def)
  moreover have "length (decimal 134217728) = 9" by (simp add: decimal_length_rec)
  ultimately show "MAX_DIGITS = 9" by (simp only: MAX_DIGITS_def)
qed

lemma strip_zeros_long:
  assumes "is_digits s" "MAX_DIGITS < length (strip_zeros s)"
  shows "MAX_STATUS_INDEX \<le> nat_of_digits s"
proof -
  let ?d = "dropWhile (\<lambda>c. c = 48) s"
  have d: "?d \<noteq> []" "strip_zeros s = ?d"
    using assms(2) by (cases "?d = []"; simp only: strip_zeros_def Let_def MAX_values if_True if_False; simp)+
  then have "hd ?d \<noteq> 48" "hd ?d \<in> set s"
    using hd_dropWhile [of "\<lambda>c. c = 48" s] hd_in_set [of ?d] set_dropWhileD by fast+
  with assms(1) have "48 < hd ?d" by (auto simp: is_digits_def list_all_iff le_neq_implies_less)
  then have "10 ^ (length ?d - 1) \<le> nat_of_digits (strip_zeros s)"
    using nat_of_digits_ge d by metis
  moreover have "(10::nat) ^ 9 \<le> 10 ^ (length ?d - 1)"
    using assms(2) d by (intro power_increasing) (auto simp: MAX_values)
  ultimately show ?thesis by (simp add: nat_of_digits_strip MAX_values)
qed

lemma status_index_iff:
  "status_index True True v = Inr i \<longleftrightarrow>
     i < MAX_STATUS_INDEX \<and>
     (v = JInt (int i) \<or> (\<exists>s. v = JStr s \<and> is_digits s \<and> nat_of_digits s = i))"
proof (cases v)
  case (JStr s)
  then show ?thesis
    using strip_zeros_long [of s] by (auto simp: check_index_Inr nat_of_digits_strip)
qed (auto simp: check_index_Inr)

section \<open>Lemmas: entries\<close>

lemma objects_of_Inr: "objects_of xs = Inr ds \<longleftrightarrow> xs = map JObj ds"
proof (induction xs arbitrary: ds rule: objects_of.induct)
  case (2 d xs)
  then show ?case by (auto simp: result_simps)
qed auto

lemma as_entry_list_Inr:
  "as_entry_list v = Inr ds \<longleftrightarrow>
     v = JNull \<and> ds = [] \<or> (\<exists>d. v = JObj d \<and> ds = [d]) \<or> v = JList (map JObj ds)"
  by (cases v) (auto simp: objects_of_Inr)

text \<open>What one well-formed entry of the array says.\<close>

definition describes :: "jobj \<Rightarrow> status_entry \<Rightarrow> bool" where
  "describes raw e \<longleftrightarrow>
     jget (lit ''statusListCredential'') raw = JStr (status_list_credential e) \<and>
     status_list_credential e \<noteq> [] \<and>
     status_index True True (jget (lit ''statusListIndex'') raw) = Inr (se_index e) \<and>
     (case map_of raw (lit ''statusPurpose'') of
        None \<Rightarrow> se_purpose e = PURPOSE_REVOCATION | Some p \<Rightarrow> p = JStr (se_purpose e))"

lemma parse_status_entry_Some:
  "parse_status_entry pick raw = Inr (Some e) \<Longrightarrow> matched_types raw \<noteq> [] \<and> describes raw e"
  by (auto simp: parse_status_entry_def describes_def Let_def bindR_Inr
      split: if_splits json.splits option.splits)

lemma parse_status_entry_None: "parse_status_entry pick raw = Inr None \<Longrightarrow> matched_types raw = []"
  by (auto simp: parse_status_entry_def Let_def bindR_Inr split: if_splits json.splits)

lemma parse_status_loop_complete:
  "parse_status_loop pick raws = Inr es \<Longrightarrow>
     list_all2 describes (filter (\<lambda>raw. matched_types raw \<noteq> []) raws) es"
proof (induction raws arbitrary: es)
  case (Cons raw raws)
  then obtain me es' where s: "parse_status_entry pick raw = Inr me" "parse_status_loop pick raws = Inr es'"
    "es = (case me of None \<Rightarrow> es' | Some e \<Rightarrow> e # es')" by (auto simp: result_simps)
  then show ?case
    using Cons.IH [OF s(2)] parse_status_entry_Some [of pick raw] parse_status_entry_None [of pick raw]
    by (cases me) auto
qed simp

lemma parse_status_entry_error: "parse_status_entry pick raw = Inl e \<Longrightarrow> e = StatusListError"
  by (auto simp: parse_status_entry_def Let_def bindR_Inl dest: status_index_error
      split: if_splits json.splits)

lemma parse_status_loop_error: "parse_status_loop pick raws = Inl e \<Longrightarrow> e = StatusListError"
  by (induction raws) (auto simp: result_simps dest: parse_status_entry_error)

text \<open>The bit one entry points at.\<close>

definition status_of ::
    "(bytes \<Rightarrow> nat \<Rightarrow> bytes result) \<Rightarrow> (str \<Rightarrow> json result) \<Rightarrow> status_entry \<Rightarrow> nat result" where
  "status_of read resolve e =
     bindR (resolve (status_list_credential e)) (\<lambda>vc.
       bindR (bindR (encoded_list vc e) (decode_bitstring read)) (\<lambda>bits.
         get_status_bit bits (JInt (int (se_index e)))))"

lemma read_status_bit_status_of:
  "bindR (resolve (status_list_credential e)) (\<lambda>vc. read_status_bit read vc e) =
     bindR (status_of read resolve e) (\<lambda>b. Inr \<lparr>ser_entry = e, is_set = (b \<noteq> 0)\<rparr>)"
  by (simp add: status_of_def read_status_bit_def bindR_assoc)

lemma check_status_results:
  assumes "check_credential_status pick read resolve cred = Inr r"
  obtains raws es where
    "as_entry_list (jget (lit ''credentialStatus'') cred) = Inr raws"
    "list_all2 describes (filter (\<lambda>raw. matched_types raw \<noteq> []) raws) es"
    "\<forall>e\<in>set es. isOk (status_of read resolve e)"
    "r = tally_status (map (\<lambda>e. \<lparr>ser_entry = e, is_set = (status_of read resolve e \<noteq> Inr 0)\<rparr>) es)"
proof -
  from assms obtain raws es rs where
    *: "as_entry_list (jget (lit ''credentialStatus'') cred) = Inr raws"
      "parse_status_loop pick raws = Inr es"
      "mapR (\<lambda>e. bindR (status_of read resolve e) (\<lambda>b. Inr \<lparr>ser_entry = e, is_set = (b \<noteq> 0)\<rparr>)) es = Inr rs"
      "r = tally_status rs"
    by (auto simp: check_credential_status_def parse_status_entries_def read_status_bit_status_of bindR_Inr)
  have "list_all2 (\<lambda>e x. isOk (status_of read resolve e) \<and>
      x = \<lparr>ser_entry = e, is_set = (status_of read resolve e \<noteq> Inr 0)\<rparr>) es rs"
    using *(3) unfolding mapR_Inr by (rule list_all2_mono) (auto simp: result_simps isOk_iff)
  then have "\<forall>e\<in>set es. isOk (status_of read resolve e)"
    "rs = map (\<lambda>e. \<lparr>ser_entry = e, is_set = (status_of read resolve e \<noteq> Inr 0)\<rparr>) es"
    by (auto simp: list_all2_conv_all_nth in_set_conv_nth intro: nth_equalityI)
  with * parse_status_loop_complete that show ?thesis by blast
qed

lemma check_one_entry:
  assumes "build_status_list_entry (JStr u) (JInt (int j)) (JStr p) JNull = Inr entry"
    and "jget (lit ''credentialStatus'') cred = JObj entry"
    and "resolve u = Inr (JObj vc)" "jget (lit ''credentialSubject'') vc = JObj s"
    and "jget (lit ''statusPurpose'') s = JStr p" "jget (lit ''encodedList'') s = JStr enc" "enc \<noteq> []"
    and "decode_bitstring read enc = Inr d" "get_status_bit d (JInt (int j)) = Inr b"
  shows "\<exists>r. check_credential_status pick read resolve cred = Inr r \<and>
           (sr_revoked r \<longleftrightarrow> p = PURPOSE_REVOCATION \<and> b \<noteq> 0) \<and>
           (sr_suspended r \<longleftrightarrow> p = PURPOSE_SUSPENSION \<and> b \<noteq> 0)"
proof -
  have e: "entry = [(lit ''type'', JStr (lit ''BitstringStatusListEntry'')), (lit ''statusPurpose'', JStr p),
      (lit ''statusListIndex'', JStr (decimal j)), (lit ''statusListCredential'', JStr u)]"
    "u \<noteq> []" "j < MAX_STATUS_INDEX"
    using assms(1) by (auto simp: build_status_list_entry_def result_simps check_index_Inr split: if_splits)
  define x where "x = \<lparr>status_list_credential = u, se_index = j, se_purpose = p,
    entry_type = pick [lit ''BitstringStatusListEntry'']\<rparr>"
  have "parse_status_entry pick entry = Inr (Some x)"
    using e status_index_decimal [of j]
    by (simp add: parse_status_entry_def matched_types_def ENTRY_TYPES_def dict_simps x_def)
  moreover have "status_of read resolve x = Inr b"
    using assms by (simp add: status_of_def encoded_list_def x_def)
  ultimately show ?thesis
    using assms(2) by (auto simp: check_credential_status_def parse_status_entries_def
        read_status_bit_status_of tally_status_def x_def)
qed

text \<open>A published list and a credential pointing at its index 9, whose bit is set.\<close>

definition demo_list_vc :: jobj where
  "demo_list_vc = [(lit ''credentialSubject'', JObj
     [(lit ''statusPurpose'', JStr PURPOSE_REVOCATION),
      (lit ''encodedList'', JStr (encode_bitstring (\<lambda>b. b) [0, 64]))])]"

definition demo_entry :: jobj where
  "demo_entry =
     [(lit ''type'', JStr (lit ''BitstringStatusListEntry'')), (lit ''statusPurpose'', JStr PURPOSE_REVOCATION),
      (lit ''statusListIndex'', JStr (decimal 9)), (lit ''statusListCredential'', JStr (lit ''https://s.example/1''))]"

definition demo_credential :: jobj where
  "demo_credential = [(lit ''credentialStatus'', JObj demo_entry)]"

lemma demo_build:
  "build_status_list_entry (JStr (lit ''https://s.example/1'')) (JInt (int 9)) (JStr PURPOSE_REVOCATION) JNull
     = Inr demo_entry"
  by (simp add: build_status_list_entry_def demo_entry_def check_index_def MAX_values PURPOSE_REVOCATION_def)

lemma demo_revoked:
  "\<exists>r. check_credential_status hd (\<lambda>b n. Inr (take n b)) (\<lambda>u. Inr (JObj demo_list_vc)) demo_credential = Inr r \<and>
     sr_revoked r \<and> \<not> sr_suspended r"
proof -
  let ?read = "\<lambda>b n. Inr (take n b)"
  have "decode_bitstring ?read (encode_bitstring (\<lambda>b. b) [0, 64]) = Inr [0, 64]"
    by (simp add: decode_bitstring_def encode_bitstring_def strip_u_def lit_def gunzip_bounded_def MAX_values)
  moreover have "get_status_bit [0, 64] (JInt (int 9)) = Inr 1"
    using w3c_get_eq [of "[0, 64]" 9] by (simp add: w3c_get_def bit_numeral_rec)
  ultimately show ?thesis
    using check_one_entry [OF demo_build, of demo_credential "\<lambda>u. Inr (JObj demo_list_vc)" demo_list_vc
        "[(lit ''statusPurpose'', JStr PURPOSE_REVOCATION),
          (lit ''encodedList'', JStr (encode_bitstring (\<lambda>b. b) [0, 64]))]"
        "encode_bitstring (\<lambda>b. b) [0, 64]" ?read "[0, 64]" 1 hd]
    by (simp add: demo_credential_def demo_list_vc_def dict_simps encode_bitstring_def
        PURPOSE_REVOCATION_def PURPOSE_SUSPENSION_def)
qed

section \<open>Properties\<close>

text \<open>A gzip list of up to 16 MiB survives publication and reading; a longer one is refused, not truncated.
  \<open>read\<close> and \<open>compress\<close> are the gzip library: reading back \<open>n\<close> bytes of a compressed value gives its first \<open>n\<close>.\<close>

theorem bitstring_roundtrip:
  assumes gzip: "\<And>b n. read (compress b) n = Inr (take n b)"
  shows "decode_bitstring read (encode_bitstring compress bits) =
           (if length bits \<le> MAX_DECOMPRESSED_BYTES then Inr bits else Inl StatusListError)"
  by (simp add: decode_bitstring_def encode_bitstring_def strip_u_def lit_def gunzip_bounded_def gzip)

theorem bitstring_roundtrip_witness:
  "decode_bitstring (\<lambda>b n. Inr (take n b)) (encode_bitstring (\<lambda>b. b) [1, 2, 255]) = Inr [1, 2, 255]"
  using bitstring_roundtrip [of "\<lambda>b n. Inr (take n b)" "\<lambda>b. b" "[1, 2, 255]"]
  by (simp add: MAX_DECOMPRESSED_BYTES_def)

text \<open>(C40) The chunked zlib loop always ends and is exact: on a stream that owes \<open>out\<close> it returns \<open>out\<close> when that fits the
  ceiling and the bomb error when it does not, however the library cuts its chunks.\<close>

theorem inflate_bounded_exact:
  assumes "zlib_stream z R" "R (z_init z) data out"
  shows "inflate_bounded z max_out data =
           Some (if length out \<le> max_out then Inr out else Inl DecompressionBomb)"
  using assms by (rule inflate_bounded_stream)

definition stored_zlib :: "bytes zlib" where
  "stored_zlib = \<lparr>z_init = [], z_decompress = (\<lambda>d feed n. Inr (take n (d @ feed), [], drop n (d @ feed))),
                  z_flush = Inr\<rparr>"

lemma stored_zlib_stream: "zlib_stream stored_zlib (\<lambda>d feed out. out = d @ feed)"
  by (auto simp: zlib_stream_def stored_zlib_def simp del: take_append drop_append)

theorem inflate_bounded_exact_witness:
  "inflate_bounded stored_zlib 2 [7, 8, 9] = Some (Inl DecompressionBomb) \<and>
   inflate_bounded stored_zlib 3 [7, 8, 9] = Some (Inr [7, 8, 9])"
  using inflate_bounded_exact [OF stored_zlib_stream, of "[7, 8, 9]" "[7, 8, 9]" 2]
    inflate_bounded_exact [OF stored_zlib_stream, of "[7, 8, 9]" "[7, 8, 9]" 3]
  by (simp add: stored_zlib_def)

text \<open>The index rule accepts exactly: a JSON integer, or a non-empty string of ASCII digits (leading zeros
  allowed), whose value is below the number of statuses of the largest list; the result is that value.\<close>

theorem status_index_exact:
  "status_index True True v = Inr i \<longleftrightarrow>
     i < MAX_STATUS_INDEX \<and>
     (v = JInt (int i) \<or> (\<exists>s. v = JStr s \<and> is_digits s \<and> nat_of_digits s = i))"
  by (rule status_index_iff)

text \<open>Revoking a set of indices in a fresh W3C list revokes exactly that set: every listed index reads 1 and every
  other cell of the list still reads 0.\<close>

theorem revoke_exactly:
  assumes "new_bitstring (JInt n) = Inr d" "\<forall>i\<in>set is. i < 8 * length d"
  shows "\<exists>d'. mark_all (\<lambda>d i v. set_status_bit d (JInt (int i)) (JInt (int v))) 1 is d = Inr d' \<and>
           (\<forall>j. get_status_bit d' (JInt (int j)) =
             (if j < 8 * length d then Inr (if j \<in> set is then 1 else 0) else Inl StatusListError))"
proof -
  have put: "(\<lambda>d i v. set_status_bit d (JInt (int i)) (JInt (int v))) = w3c_put"
    by (simp add: fun_eq_iff w3c_put_def)
  obtain d' where d': "mark_all w3c_put 1 is d = Inr d'"
    using w3c.mark_all_total [OF assms(2)] by blast
  have "w3c_get d j = (if j < 8 * length d then Inr 0 else Inl StatusListError)" for j
    using assms(1) by (auto simp: w3c_get_eq new_bitstring_def result_simps)
  then have "w3c_get d' j = (if j < 8 * length d then Inr (if j \<in> set is then 1 else 0) else Inl StatusListError)" for j
    using w3c.mark_all_get [OF d', of j] assms(2) by auto
  with d' show ?thesis by (auto simp: put w3c_get_def)
qed

theorem revoke_exactly_witness:
  "\<exists>d'. mark_all (\<lambda>d i v. set_status_bit d (JInt (int i)) (JInt (int v))) 1 [3, 9] [0, 0] = Inr d' \<and>
     get_status_bit d' (JInt 9) = Inr 1 \<and> get_status_bit d' (JInt 8) = Inr 0"
proof -
  have "new_bitstring (JInt 16) = Inr [0, 0]"
    by (simp add: new_bitstring_def MAX_DECOMPRESSED_BYTES_def numeral_2_eq_2)
  from revoke_exactly [OF this, of "[3, 9]"] obtain d' where
    d': "mark_all (\<lambda>d i v. set_status_bit d (JInt (int i)) (JInt (int v))) 1 [3, 9] [0, 0] = Inr d'"
    "\<And>j. get_status_bit d' (JInt (int j)) =
       (if j < 16 then Inr (if j \<in> {3, 9} then 1 else 0) else Inl StatusListError)"
    by auto
  from d'(2) [of 9] d'(2) [of 8] d'(1) show ?thesis by auto
qed

text \<open>For every width the IETF list behaves as an array of numbers: a write of a value that fits is read back, no other
  status changes, and the list keeps its length.\<close>

theorem token_list_array:
  assumes "b \<in> {1, 2, 4, 8}" "set_status d (JInt (int i)) (JInt (int v)) (JInt (int b)) = Inr d'"
  shows "v < 2 ^ b \<and> i < 8 div b * length d \<and> length d' = length d \<and>
         get_status d' (JInt (int j)) (JInt (int b)) =
           (if j = i then Inr v else get_status d (JInt (int j)) (JInt (int b)))"
proof -
  from assms(2) have put: "ietf_put b d i v = Inr d'" by (simp add: ietf_put_def)
  then have v: "v < 2 ^ b" "i < 8 div b * length d" and len: "length d' = length d"
    by (auto simp: ietf_put_eq [OF assms(1)] split: if_splits)
  then have "v \<le> 2 ^ b - 1" using zero_less_power [of "2::nat" b] by linarith
  then have "ietf_get b d' j = (if j = i then Inr v else ietf_get b d j)"
    using packed_list.get_put_same [OF packed_list_ietf [OF assms(1)] put]
      packed_list.get_put_other [OF packed_list_ietf [OF assms(1)] put] by auto
  with v len show ?thesis by (simp add: ietf_get_def)
qed

theorem token_list_array_witness:
  "\<exists>d'. set_status [0, 0] (JInt (int 5)) (JInt (int 2)) (JInt (int 2)) = Inr d' \<and>
     get_status d' (JInt (int 5)) (JInt (int 2)) = Inr 2"
proof -
  have "set_status [0, 0] (JInt (int 5)) (JInt (int 2)) (JInt (int 2)) = Inr [0, 8]"
    by (simp add: set_status_def check_index_def locate_status_def Let_def)
  from token_list_array [OF _ this, of 5] this show ?thesis by simp
qed

text \<open>Fail-closed reading of \<open>credentialStatus\<close>: when the check returns a verdict, the claim was absent, an object or an
  array of objects, every member that names a status-list type was parsed, resolved and read, and the credential is
  reported revoked exactly when one of those entries, of purpose revocation, points at a set bit.\<close>

theorem credential_status_fail_closed:
  assumes "check_credential_status pick read resolve cred = Inr r"
  shows "\<exists>raws es.
     (jget (lit ''credentialStatus'') cred = JNull \<and> raws = [] \<or>
      (\<exists>d. jget (lit ''credentialStatus'') cred = JObj d \<and> raws = [d]) \<or>
      jget (lit ''credentialStatus'') cred = JList (map JObj raws)) \<and>
     list_all2 describes (filter (\<lambda>raw. matched_types raw \<noteq> []) raws) es \<and>
     (\<forall>e\<in>set es. isOk (status_of read resolve e)) \<and>
     (sr_revoked r \<longleftrightarrow>
       (\<exists>e\<in>set es. se_purpose e = PURPOSE_REVOCATION \<and> status_of read resolve e \<noteq> Inr 0)) \<and>
     (sr_suspended r \<longleftrightarrow>
       (\<exists>e\<in>set es. se_purpose e = PURPOSE_SUSPENSION \<and> status_of read resolve e \<noteq> Inr 0))"
proof -
  from assms obtain raws es where
    *: "as_entry_list (jget (lit ''credentialStatus'') cred) = Inr raws"
      "list_all2 describes (filter (\<lambda>raw. matched_types raw \<noteq> []) raws) es"
      "\<forall>e\<in>set es. isOk (status_of read resolve e)"
      "r = tally_status (map (\<lambda>e. \<lparr>ser_entry = e, is_set = (status_of read resolve e \<noteq> Inr 0)\<rparr>) es)"
    by (rule check_status_results)
  then show ?thesis
    unfolding as_entry_list_Inr
    by (intro exI [of _ raws] exI [of _ es]) (auto simp: tally_status_def list_ex_iff)
qed


theorem credential_status_fail_closed_witness:
  "\<exists>r. check_credential_status hd (\<lambda>b n. Inr (take n b)) (\<lambda>u. Inr (JObj demo_list_vc)) demo_credential = Inr r \<and>
     sr_revoked r \<and> \<not> sr_suspended r"
proof -
  obtain r where r:
    "check_credential_status hd (\<lambda>b n. Inr (take n b)) (\<lambda>u. Inr (JObj demo_list_vc)) demo_credential = Inr r"
    "sr_revoked r" "\<not> sr_suspended r" using demo_revoked by blast
  from credential_status_fail_closed [OF r(1)] r show ?thesis by blast
qed

text \<open>Revocation end to end: after an issuer sets bit \<open>i\<close> of a list and publishes it gzipped under the
  revocation purpose, a credential whose entry the library built for index \<open>j\<close> of that list is reported revoked
  exactly when \<open>j = i\<close> or its bit was already set, and is never reported suspended.\<close>

lemma revocation_read:
  assumes gzip: "\<And>b n. read (compress b) n = Inr (take n b)"
    and set: "set_status_bit d (JInt (int i)) (JInt 1) = Inr d'" "length d \<le> MAX_DECOMPRESSED_BYTES"
    and entry: "build_status_list_entry (JStr u) (JInt (int j)) (JStr PURPOSE_REVOCATION) JNull = Inr entry"
    and cred: "jget (lit ''credentialStatus'') cred = JObj entry" "j < 8 * length d"
    and published: "resolve u = Inr (JObj vc)" "jget (lit ''credentialSubject'') vc = JObj s"
      "jget (lit ''statusPurpose'') s = JStr PURPOSE_REVOCATION"
      "jget (lit ''encodedList'') s = JStr (encode_bitstring compress d')"
  shows "\<exists>r. check_credential_status pick read resolve cred = Inr r \<and> \<not> sr_suspended r \<and>
           (sr_revoked r \<longleftrightarrow> j = i \<or> get_status_bit d (JInt (int j)) = Inr 1)"
proof -
  from set(1) have put: "w3c_put d i 1 = Inr d'" by (simp add: w3c_put_def)
  then have len: "length d' = length d" using w3c.put_cells by fastforce
  have read: "decode_bitstring read (encode_bitstring compress d') = Inr d'"
    using set(2) len
    by (simp add: decode_bitstring_def encode_bitstring_def strip_u_def lit_def gunzip_bounded_def gzip)
  have enc: "encode_bitstring compress d' \<noteq> []" by (simp add: encode_bitstring_def)
  obtain b where b: "get_status_bit d' (JInt (int j)) = Inr b" "b \<noteq> 0 \<longleftrightarrow> j = i \<or> get_status_bit d (JInt (int j)) = Inr 1"
    using w3c.get_put_same [OF put] w3c.get_put_other [OF put, of j] w3c.get_inside [OF cred(2)]
    by (cases "j = i") (auto simp: w3c_get_def le_Suc_eq)
  show ?thesis
    using b(2) check_one_entry [where resolve = resolve and pick = pick, OF entry cred(1) published enc read b(1)] by (auto simp: PURPOSE_SUSPENSION_def PURPOSE_REVOCATION_def)
qed

text \<open>IETF status end to end: after an issuer sets status \<open>i\<close> of a list to \<open>v\<close> and publishes it, a token
  carrying the reference the library built for \<open>i\<close> reads back exactly \<open>v\<close>, for every width; \<open>revoked\<close> and \<open>suspended\<close>
  are the values 1 and 2. The stream hypothesis says the inflater owes the published bytes.\<close>

lemma token_status_read:
  assumes zlib: "zlib_stream z R" "R (z_init z) (compress d') d'" "length d' \<le> MAX_DECOMPRESSED_BYTES"
    and set: "b \<in> {1, 2, 4, 8}" "set_status d (JInt (int i)) (JInt (int v)) (JInt (int b)) = Inr d'"
    and ref: "build_token_status_reference (JStr u) (JInt (int i)) = Inr claims"
    and published: "resolve u = Inr (JObj tok)"
      "jget (lit ''status_list'') tok = JObj [(lit ''bits'', JInt (int b)), (lit ''lst'', JStr (encode_status_list compress d'))]"
  shows "check_token_status z resolve claims =
           Some (Inr (Some \<lparr>ts_ref = \<lparr>ref_uri = u, ref_index = i\<rparr>, ts_status = v,
                            ts_revoked = (v = 1), ts_suspended = (v = 2)\<rparr>))"
proof -
  from ref have c: "claims = [(lit ''status'', JObj [(lit ''status_list'',
      JObj [(lit ''idx'', JInt (int i)), (lit ''uri'', JStr u)])])]" "u \<noteq> []" "i < MAX_STATUS_INDEX"
    by (auto simp: build_token_status_reference_def result_simps check_index_Inr split: if_splits)
  have put: "ietf_put b d i v = Inr d'" using set(2) by (simp add: ietf_put_def)
  then have "v \<le> 2 ^ b - 1"
    by (auto simp: ietf_put_eq [OF set(1)] Suc_le_eq le_diff_conv2 split: if_splits)
  then have get: "get_status d' (JInt (int i)) (JInt (int b)) = Inr v"
    using packed_list.get_put_same [OF packed_list_ietf [OF set(1)] put] by (simp add: ietf_get_def)
  have "decode_status_list z (encode_status_list compress d') = Some (Inr d')"
    using inflate_bounded_stream [OF zlib(1,2), of MAX_DECOMPRESSED_BYTES] zlib(3)
    by (simp add: decode_status_list_def encode_status_list_def)
  with c published get show ?thesis
    by (simp add: check_token_status_def parse_token_status_ref_def dict_simps check_index_def
        token_status_of_def status_list_claim_def STATUS_INVALID_def STATUS_SUSPENDED_def)
qed

end
