(* ===== verification/Sd_Unpack.thy ===== *)
theory Sd_Unpack
  imports Vc_Jwt
begin

text \<open>
  openvc/proof/sd_jwt.py, the recursive unpacking: \<open>_sd\<close> digests and array-element digests are replaced by the disclosed
  values while three accumulators are threaded through: the digests used, the digests seen, and where each disclosure
  landed. The recursion is not structural (a disclosed value is not part of the payload), so it is bounded by depth: the
  model counts the levels left, \<open>levels = _MAX_DEPTH + 1 - depth\<close>, and none left is the source's depth error.
\<close>

section \<open>State\<close>

type_synonym disclosures = "(str \<times> json list) list"

record unpack_state =
  us_used :: "str list"
  us_seen :: "str list"
  us_placed :: "(str option \<times> bool) list"

definition SD_MAX_DEPTH :: nat where
  "SD_MAX_DEPTH = 100"

definition sd_digests :: "json \<Rightarrow> str list result" where
  "sd_digests sd =
     (case sd of
        JNull \<Rightarrow> Inr []
      | JList xs \<Rightarrow> if list_all is_jstr xs then Inr (jstrs xs) else Inl SdJwtError
      | _ \<Rightarrow> Inl SdJwtError)"

text \<open>\<open>key if top is None else top\<close>\<close>

definition top_claim :: "str option \<Rightarrow> str \<Rightarrow> str option" where
  "top_claim tp key = (case tp of None \<Rightarrow> Some key | Some t \<Rightarrow> Some t)"

definition placement :: "str option \<Rightarrow> str \<Rightarrow> str option \<times> bool" where
  "placement tp name = (case tp of None \<Rightarrow> (Some name, False) | Some t \<Rightarrow> (Some t, True))"

text \<open>\<open>seen.add\<close>; and \<open>used.add\<close> with \<open>placed.append\<close>.\<close>

definition mark_seen :: "str \<Rightarrow> unpack_state \<Rightarrow> unpack_state" where
  "mark_seen digest st = st\<lparr>us_seen := digest # us_seen st\<rparr>"

definition mark_used :: "str \<Rightarrow> str option \<times> bool \<Rightarrow> unpack_state \<Rightarrow> unpack_state" where
  "mark_used digest p st = st\<lparr>us_used := digest # us_used st, us_placed := us_placed st @ [p]\<rparr>"

section \<open>Unpacking\<close>

text \<open>\<open>rec\<close> is the recursive call one level down: top-level claim, node, state.\<close>

type_synonym unpacker = "str option \<Rightarrow> json \<Rightarrow> unpack_state \<Rightarrow> (json \<times> unpack_state) result"

fun unpack_members :: "unpacker \<Rightarrow> str option \<Rightarrow> jobj \<Rightarrow> jobj \<Rightarrow> unpack_state \<Rightarrow> (jobj \<times> unpack_state) result" where
  "unpack_members rec tp result [] st = Inr (result, st)"
| "unpack_members rec tp result ((key, value) # items) st =
     (if key = lit ''_sd'' then unpack_members rec tp result items st
      else if key = lit ''...'' then Inl SdJwtError
      else bindR (rec (top_claim tp key) value st) (\<lambda>(v, st').
             unpack_members rec tp (AList.update key v result) items st'))"

definition object_disclosure :: "json list \<Rightarrow> jobj \<Rightarrow> (str \<times> json) result" where
  "object_disclosure disclosure result =
     (if length disclosure \<noteq> 3 then Inl SdJwtError
      else case text_opt (disclosure ! 1) of
             None \<Rightarrow> Inl SdJwtError
           | Some name \<Rightarrow>
               if name = lit ''_sd'' \<or> name = lit ''...'' then Inl SdJwtError
               else if has_key name result then Inl SdJwtError
               else Inr (name, disclosure ! 2))"

fun unpack_digests ::
    "unpacker \<Rightarrow> disclosures \<Rightarrow> str option \<Rightarrow> jobj \<Rightarrow> str list \<Rightarrow> unpack_state \<Rightarrow> (jobj \<times> unpack_state) result" where
  "unpack_digests rec D tp result [] st = Inr (result, st)"
| "unpack_digests rec D tp result (digest # ds) st =
     (if digest \<in> set (us_seen st) then Inl SdJwtError
      else case map_of D digest of
             None \<Rightarrow> unpack_digests rec D tp result ds (mark_seen digest st)
           | Some disclosure \<Rightarrow>
               bindR (object_disclosure disclosure result) (\<lambda>(name, value).
               bindR (rec (top_claim tp name) value (mark_used digest (placement tp name) (mark_seen digest st))) (\<lambda>(v, st').
                 unpack_digests rec D tp (AList.update name v result) ds st')))"

text \<open>\<open>isinstance(element, dict) and set(element) == {"..."}\<close>, and its member.\<close>

definition digest_element :: "json \<Rightarrow> json option" where
  "digest_element element =
     (case element of
        JObj d \<Rightarrow> if set (map fst d) = {lit ''...''} then Some (jget (lit ''...'') d) else None
      | _ \<Rightarrow> None)"

fun unpack_elements ::
    "unpacker \<Rightarrow> disclosures \<Rightarrow> str option \<Rightarrow> json list \<Rightarrow> unpack_state \<Rightarrow> (json list \<times> unpack_state) result" where
  "unpack_elements rec D tp [] st = Inr ([], st)"
| "unpack_elements rec D tp (element # es) st =
     (case digest_element element of
        None \<Rightarrow>
          bindR (rec tp element st) (\<lambda>(v, st').
          bindR (unpack_elements rec D tp es st') (\<lambda>(vs, st''). Inr (v # vs, st'')))
      | Some d \<Rightarrow>
          (case text_opt d of
             None \<Rightarrow> Inl SdJwtError
           | Some digest \<Rightarrow>
               if digest \<in> set (us_seen st) then Inl SdJwtError
               else case map_of D digest of
                      None \<Rightarrow> unpack_elements rec D tp es (mark_seen digest st)
                    | Some disclosure \<Rightarrow>
                        if length disclosure \<noteq> 2 then Inl SdJwtError
                        else
                          bindR (rec tp (disclosure ! 1) (mark_used digest (tp, True) (mark_seen digest st))) (\<lambda>(v, st').
                          bindR (unpack_elements rec D tp es st') (\<lambda>(vs, st''). Inr (v # vs, st'')))))"

fun unpack :: "disclosures \<Rightarrow> nat \<Rightarrow> unpacker" where
  "unpack D 0 tp node st = Inl SdJwtError"
| "unpack D (Suc levels) tp node st =
     (case node of
        JObj d \<Rightarrow>
          bindR (unpack_members (unpack D levels) tp [] d st) (\<lambda>(result, st1).
          bindR (sd_digests (jget (lit ''_sd'') d)) (\<lambda>ds.
          bindR (unpack_digests (unpack D levels) D tp result ds st1) (\<lambda>(result', st2). Inr (JObj result', st2))))
      | JList xs \<Rightarrow> bindR (unpack_elements (unpack D levels) D tp xs st) (\<lambda>(vs, st'). Inr (JList vs, st'))
      | _ \<Rightarrow> Inr (node, st))"

definition empty_state :: unpack_state where
  "empty_state = \<lparr>us_used = [], us_seen = [], us_placed = []\<rparr>"

definition unpack_root :: "disclosures \<Rightarrow> json \<Rightarrow> (json \<times> unpack_state) result" where
  "unpack_root D node = unpack D (SD_MAX_DEPTH + 1) None node empty_state"

section \<open>What the accumulators record\<close>

text \<open>
  A relation between the state before and after, which may depend on the top-level claim a node lies under: if it holds
  over no step, composes, holds over the updates, and carries over from what lies under a member, then it holds over a
  whole unpacking.
\<close>

locale unpack_relation =
  fixes D :: disclosures and R :: "str option \<Rightarrow> unpack_state \<Rightarrow> unpack_state \<Rightarrow> bool"
  assumes refl: "R tp st st"
    and trans: "R tp a b \<Longrightarrow> R tp b c \<Longrightarrow> R tp a c"
    and down: "R (top_claim tp key) a b \<Longrightarrow> R tp a b"
    and seen: "digest \<notin> set (us_seen st) \<Longrightarrow> R tp st (mark_seen digest st)"
    and used: "digest \<notin> set (us_seen st) \<Longrightarrow> map_of D digest \<noteq> None \<Longrightarrow>
                 p = placement tp name \<or> p = (tp, True) \<Longrightarrow> R tp st (mark_used digest p (mark_seen digest st))"
begin

definition keeps :: "unpacker \<Rightarrow> bool" where
  "keeps rec \<longleftrightarrow> (\<forall>tp v st w st'. rec tp v st = Inr (w, st') \<longrightarrow> R tp st st')"

lemma step: "keeps rec \<Longrightarrow> rec tp v st = Inr (w, st1) \<Longrightarrow> R tp st1 st' \<Longrightarrow> R tp st st'"
  unfolding keeps_def using trans by blast

lemma step_down: "keeps rec \<Longrightarrow> rec (top_claim tp key) v st = Inr (w, st1) \<Longrightarrow> R tp st1 st' \<Longrightarrow> R tp st st'"
  unfolding keeps_def using trans down by blast

lemma seen_step: "digest \<notin> set (us_seen st) \<Longrightarrow> R tp (mark_seen digest st) st' \<Longrightarrow> R tp st st'"
  by (rule trans [OF seen])

lemma members: "keeps rec \<Longrightarrow> unpack_members rec tp result items st = Inr (r, st') \<Longrightarrow> R tp st st'"
proof (induction items arbitrary: result st)
  case (Cons kv items)
  obtain key v where kv: "kv = (key, v)" by (cases kv)
  show ?case
  proof (cases "key = lit ''_sd''")
    case True
    with Cons kv show ?thesis by simp
  next
    case False
    with Cons.prems kv obtain w st1 where "rec (top_claim tp key) v st = Inr (w, st1)"
      "unpack_members rec tp (AList.update key w result) items st1 = Inr (r, st')"
      by (auto simp: bindR_Inr split: if_splits)
    then show ?thesis using step_down [OF Cons.prems(1)] Cons.IH [OF Cons.prems(1)] by blast
  qed
qed (simp add: refl)

lemma digests: "keeps rec \<Longrightarrow> unpack_digests rec D tp result ds st = Inr (r, st') \<Longrightarrow> R tp st st'"
proof (induction ds arbitrary: result st)
  case (Cons digest ds)
  then have n: "digest \<notin> set (us_seen st)" by (auto split: if_splits)
  show ?case
  proof (cases "map_of D digest")
    case None
    with Cons.prems n have "unpack_digests rec D tp result ds (mark_seen digest st) = Inr (r, st')" by simp
    then show ?thesis using seen_step [OF n] Cons.IH [OF Cons.prems(1)] by blast
  next
    case (Some disclosure)
    with Cons.prems n obtain name v w st1 where k:
      "rec (top_claim tp name) v (mark_used digest (placement tp name) (mark_seen digest st)) = Inr (w, st1)"
      "unpack_digests rec D tp (AList.update name w result) ds st1 = Inr (r, st')"
      by (auto simp: bindR_Inr)
    have "R tp st (mark_used digest (placement tp name) (mark_seen digest st))"
      using used [OF n, of "placement tp name"] Some by blast
    then show ?thesis using k step_down [OF Cons.prems(1) k(1)] Cons.IH [OF Cons.prems(1)] trans by blast
  qed
qed (simp add: refl)

lemma elements: "keeps rec \<Longrightarrow> unpack_elements rec D tp es st = Inr (vs, st') \<Longrightarrow> R tp st st'"
proof (induction es arbitrary: vs st)
  case (Cons e es)
  show ?case
  proof (cases "digest_element e")
    case None
    with Cons.prems obtain w vs' st1 where "rec tp e st = Inr (w, st1)" "unpack_elements rec D tp es st1 = Inr (vs', st')"
      by (auto simp: bindR_Inr)
    then show ?thesis using step [OF Cons.prems(1)] Cons.IH [OF Cons.prems(1)] by blast
  next
    case (Some d)
    with Cons.prems obtain digest where d: "text_opt d = Some digest" "digest \<notin> set (us_seen st)"
      by (auto split: option.splits if_splits)
    show ?thesis
    proof (cases "map_of D digest")
      case None
      with Cons.prems Some d have "unpack_elements rec D tp es (mark_seen digest st) = Inr (vs, st')" by simp
      then show ?thesis using seen_step [OF d(2)] Cons.IH [OF Cons.prems(1)] by blast
    next
      case (Some disclosure)
      with \<open>digest_element e = Some d\<close> Cons.prems d obtain w vs' st1 where k:
        "rec tp (disclosure ! 1) (mark_used digest (tp, True) (mark_seen digest st)) = Inr (w, st1)"
        "unpack_elements rec D tp es st1 = Inr (vs', st')"
        by (auto simp: bindR_Inr split: if_splits)
      have "R tp st (mark_used digest (tp, True) (mark_seen digest st))"
        using used [OF d(2), of "(tp, True)"] Some by blast
      then show ?thesis using k step [OF Cons.prems(1) k(1)] Cons.IH [OF Cons.prems(1)] trans by blast
    qed
  qed
qed (simp add: refl)

lemma unpack_keeps: "keeps (unpack D levels)"
proof (induction levels)
  case (Suc levels)
  have "R tp st st'" if "unpack D (Suc levels) tp v st = Inr (w, st')" for tp v st w st'
  proof (cases v)
    case (JObj d)
    with that obtain r st1 ds r' where "unpack_members (unpack D levels) tp [] d st = Inr (r, st1)"
      "unpack_digests (unpack D levels) D tp r ds st1 = Inr (r', st')"
      by (auto simp: bindR_Inr)
    then show ?thesis using members [OF Suc] digests [OF Suc] trans by blast
  next
    case (JList xs)
    with that obtain vs where "unpack_elements (unpack D levels) D tp xs st = Inr (vs, st')" by (auto simp: bindR_Inr)
    then show ?thesis by (rule elements [OF Suc])
  qed (use that refl in auto)
  then show ?case by (auto simp: keeps_def)
qed (simp add: keeps_def)

lemma unpack_R: "unpack D levels tp v st = Inr (w, st') \<Longrightarrow> R tp st st'"
  using unpack_keeps by (auto simp: keeps_def)

end

text \<open>Digests are only ever added, each once; a used digest was seen and has a disclosure; placements are appended.\<close>

definition grows :: "disclosures \<Rightarrow> unpack_state \<Rightarrow> unpack_state \<Rightarrow> bool" where
  "grows D st st' \<longleftrightarrow>
     set (us_seen st) \<subseteq> set (us_seen st') \<and> (distinct (us_seen st) \<longrightarrow> distinct (us_seen st')) \<and>
     (\<exists>ps us. us_placed st' = us_placed st @ ps \<and> us_used st' = us @ us_used st \<and> length us = length ps \<and>
        set us \<subseteq> set (us_seen st') - set (us_seen st) \<and> distinct us \<and> set us \<subseteq> dom (map_of D))"

interpretation grows: unpack_relation D "\<lambda>_. grows D" for D
proof unfold_locales
  show "grows D st st" for st by (simp add: grows_def)
next
  fix a b c
  assume ab: "grows D a b" and bc: "grows D b c"
  obtain p1 u1 where 1: "us_placed b = us_placed a @ p1" "us_used b = u1 @ us_used a" "length u1 = length p1"
    "set u1 \<subseteq> set (us_seen b) - set (us_seen a)" "distinct u1" "set u1 \<subseteq> dom (map_of D)"
    using ab unfolding grows_def by blast
  obtain p2 u2 where 2: "us_placed c = us_placed b @ p2" "us_used c = u2 @ us_used b" "length u2 = length p2"
    "set u2 \<subseteq> set (us_seen c) - set (us_seen b)" "distinct u2" "set u2 \<subseteq> dom (map_of D)"
    using bc unfolding grows_def by blast
  have s: "set (us_seen a) \<subseteq> set (us_seen b)" "set (us_seen b) \<subseteq> set (us_seen c)"
    "distinct (us_seen a) \<longrightarrow> distinct (us_seen c)" using ab bc by (auto simp: grows_def)
  show "grows D a c"
    unfolding grows_def
    by (intro conjI exI [of _ "p1 @ p2"] exI [of _ "u2 @ u1"]) (use s 1 2 in auto)
next
  show "digest \<notin> set (us_seen st) \<Longrightarrow> grows D st (mark_seen digest st)" for digest st
    by (auto simp: grows_def mark_seen_def)
next
  show "digest \<notin> set (us_seen st) \<Longrightarrow> map_of D digest \<noteq> None \<Longrightarrow> p = placement tp name \<or> p = (tp, True) \<Longrightarrow>
      grows D st (mark_used digest p (mark_seen digest st))" for digest st p tp name
    by (auto simp: grows_def mark_seen_def mark_used_def)
qed

text \<open>Beneath a top-level claim every disclosure is recorded as lying under that claim.\<close>

definition tagged :: "str option \<Rightarrow> unpack_state \<Rightarrow> unpack_state \<Rightarrow> bool" where
  "tagged tp st st' \<longleftrightarrow>
     (case tp of None \<Rightarrow> True | Some t \<Rightarrow> \<exists>m. us_placed st' = us_placed st @ replicate m (Some t, True))"

interpretation tagged: unpack_relation D tagged for D
proof unfold_locales
  show "tagged tp st st" for tp st by (auto simp: tagged_def split: option.splits intro: exI [of _ 0])
  show "tagged tp a b \<Longrightarrow> tagged tp b c \<Longrightarrow> tagged tp a c" for tp a b c
    by (auto simp: tagged_def split: option.splits simp flip: replicate_add)
  show "tagged (top_claim tp key) a b \<Longrightarrow> tagged tp a b" for tp key a b
    by (auto simp: tagged_def top_claim_def split: option.splits)
  show "tagged tp st (mark_seen digest st)" for tp st digest
    by (auto simp: tagged_def mark_seen_def split: option.splits intro: exI [of _ 0])
  show "p = placement tp name \<or> p = (tp, True) \<Longrightarrow> tagged tp st (mark_used digest p (mark_seen digest st))" for p tp name st digest
    by (auto simp: tagged_def mark_seen_def mark_used_def placement_def split: option.splits intro!: exI [of _ 1])
qed

section \<open>The undisclosed reading\<close>

text \<open>What a value reads as when nothing in it is disclosed: digests are dropped.\<close>

function erase :: "json \<Rightarrow> json" where
  "erase (JObj d) =
     JObj (foldl (\<lambda>r kv. AList.update (fst kv) (snd kv) r) []
             (map (\<lambda>kv. (fst kv, erase (snd kv))) (filter (\<lambda>kv. fst kv \<noteq> lit ''_sd'') d)))"
| "erase (JList xs) = JList (map erase (filter (\<lambda>x. digest_element x = None) xs))"
| "erase JNull = JNull"
| "erase (JBool b) = JBool b"
| "erase (JInt n) = JInt n"
| "erase (JFloat f) = JFloat f"
| "erase (JStr s) = JStr s"
  by pat_completeness auto
termination
proof (relation "measure size", goal_cases)
  case (2 d kv)
  then show ?case using size_member [of kv d] by simp
next
  case (3 xs x)
  then have "size x \<le> size_list size xs" using size_list_estimation' [of x xs "size x" size] by simp
  then show ?case by simp
qed simp

text \<open>A run is quiet when it places no disclosure; beneath a claim, a quiet run gives the undisclosed reading.\<close>

definition quiet :: "unpack_state \<Rightarrow> unpack_state \<Rightarrow> bool" where
  "quiet st st' \<longleftrightarrow> us_placed st' = us_placed st"

definition reads_erased :: "unpacker \<Rightarrow> bool" where
  "reads_erased rec \<longleftrightarrow> (\<forall>t v st w st'. rec (Some t) v st = Inr (w, st') \<longrightarrow> quiet st st' \<longrightarrow> w = erase v)"

lemma grows_placed: "grows D a b \<Longrightarrow> \<exists>ps. us_placed b = us_placed a @ ps"
  unfolding grows_def by blast

lemma quiet_split:
  assumes "grows D a b" "grows D b c" "quiet a c"
  shows "quiet a b \<and> quiet b c"
proof -
  obtain p q where "us_placed b = us_placed a @ p" "us_placed c = us_placed b @ q"
    using grows_placed [OF assms(1)] grows_placed [OF assms(2)] by blast
  moreover from this have "us_placed a = us_placed a @ p @ q" using assms(3) by (simp add: quiet_def)
  then have "p = [] \<and> q = []" by simp
  ultimately show ?thesis by (simp add: quiet_def)
qed

lemma not_quiet_used:
  assumes "grows D (mark_used digest p (mark_seen digest st)) st'"
  shows "\<not> quiet st st'"
proof -
  obtain ps where "us_placed st' = (us_placed st @ [p]) @ ps"
    using grows_placed [OF assms] by (auto simp: mark_used_def mark_seen_def)
  then have "length (us_placed st') \<noteq> length (us_placed st)" by simp
  then show ?thesis by (auto simp: quiet_def)
qed

lemma quiet_seen: "quiet (mark_seen digest st) st' \<longleftrightarrow> quiet st st'"
  by (simp add: quiet_def mark_seen_def)

lemma quiet_members:
  assumes "grows.keeps D rec" "reads_erased rec"
  shows "unpack_members rec (Some t) result items st = Inr (r, st') \<Longrightarrow> quiet st st' \<Longrightarrow>
    r = foldl (\<lambda>r kv. AList.update (fst kv) (snd kv) r) result
          (map (\<lambda>kv. (fst kv, erase (snd kv))) (filter (\<lambda>kv. fst kv \<noteq> lit ''_sd'') items))"
proof (induction items arbitrary: result st)
  case (Cons kv items)
  obtain key v where kv: "kv = (key, v)" by (cases kv)
  show ?case
  proof (cases "key = lit ''_sd''")
    case True
    with Cons kv show ?thesis by simp
  next
    case False
    with Cons.prems kv obtain w st1 where k: "rec (Some t) v st = Inr (w, st1)"
      "unpack_members rec (Some t) (AList.update key w result) items st1 = Inr (r, st')"
      by (auto simp: bindR_Inr top_claim_def split: if_splits)
    have "quiet st st1 \<and> quiet st1 st'"
      using quiet_split Cons.prems(2) grows.members [OF assms(1) k(2)] assms(1) k(1) unfolding grows.keeps_def by blast
    with k assms(2) have "w = erase v" by (auto simp: reads_erased_def)
    with k Cons.IH \<open>quiet st st1 \<and> quiet st1 st'\<close> False kv show ?thesis by simp
  qed
qed simp

lemma quiet_digests:
  assumes "grows.keeps D rec"
  shows "unpack_digests rec D tp result ds st = Inr (r, st') \<Longrightarrow> quiet st st' \<Longrightarrow> r = result"
proof (induction ds arbitrary: st)
  case (Cons digest ds)
  show ?case
  proof (cases "map_of D digest")
    case None
    with Cons show ?thesis by (auto simp: quiet_seen split: if_splits)
  next
    case (Some disclosure)
    with Cons.prems obtain name v w st1 where k:
      "rec (top_claim tp name) v (mark_used digest (placement tp name) (mark_seen digest st)) = Inr (w, st1)"
      "unpack_digests rec D tp (AList.update name w result) ds st1 = Inr (r, st')"
      by (auto simp: bindR_Inr split: if_splits)
    have "grows D (mark_used digest (placement tp name) (mark_seen digest st)) st'"
      using k assms grows.digests [OF assms k(2)] grows.trans unfolding grows.keeps_def by blast
    with Cons.prems show ?thesis using not_quiet_used by blast
  qed
qed simp

lemma quiet_elements:
  assumes "grows.keeps D rec" "reads_erased rec"
  shows "unpack_elements rec D (Some t) es st = Inr (vs, st') \<Longrightarrow> quiet st st' \<Longrightarrow>
    vs = map erase (filter (\<lambda>x. digest_element x = None) es)"
proof (induction es arbitrary: vs st)
  case (Cons e es)
  show ?case
  proof (cases "digest_element e")
    case None
    with Cons.prems obtain w vs' st1 where k: "rec (Some t) e st = Inr (w, st1)"
      "unpack_elements rec D (Some t) es st1 = Inr (vs', st')" "vs = w # vs'" by (auto simp: bindR_Inr)
    have q: "quiet st st1 \<and> quiet st1 st'"
      using quiet_split Cons.prems(2) grows.elements [OF assms(1) k(2)] assms(1) k(1) unfolding grows.keeps_def by blast
    with k assms(2) have "w = erase e" by (auto simp: reads_erased_def)
    with k q None Cons.IH show ?thesis by simp
  next
    case (Some d)
    with Cons.prems obtain digest where d: "text_opt d = Some digest" "digest \<notin> set (us_seen st)"
      by (auto split: option.splits if_splits)
    show ?thesis
    proof (cases "map_of D digest")
      case None
      with Cons Some d show ?thesis by (auto simp: quiet_seen)
    next
      case (Some disclosure)
      with \<open>digest_element e = Some d\<close> Cons.prems d obtain w vs' st1 where k:
        "rec (Some t) (disclosure ! 1) (mark_used digest (Some t, True) (mark_seen digest st)) = Inr (w, st1)"
        "unpack_elements rec D (Some t) es st1 = Inr (vs', st')"
        by (auto simp: bindR_Inr split: if_splits)
      have "grows D (mark_used digest (Some t, True) (mark_seen digest st)) st'"
        using k assms grows.elements [OF assms(1) k(2)] grows.trans unfolding grows.keeps_def by blast
      with Cons.prems show ?thesis using not_quiet_used by blast
    qed
  qed
qed simp

lemma unpack_erased: "reads_erased (unpack D levels)"
proof (induction levels)
  case (Suc levels)
  have "w = erase v" if u: "unpack D (Suc levels) (Some t) v st = Inr (w, st')" and q: "quiet st st'" for t v st w st'
  proof (cases v)
    case (JObj d)
    with u obtain r st1 ds r' where k: "unpack_members (unpack D levels) (Some t) [] d st = Inr (r, st1)"
      "unpack_digests (unpack D levels) D (Some t) r ds st1 = Inr (r', st')" "w = JObj r'"
      by (auto simp: bindR_Inr)
    have "quiet st st1 \<and> quiet st1 st'"
      using quiet_split q grows.members [OF grows.unpack_keeps k(1)] grows.digests [OF grows.unpack_keeps k(2)] by blast
    then show ?thesis
      using k JObj quiet_members [OF grows.unpack_keeps Suc k(1)] quiet_digests [OF grows.unpack_keeps k(2)] by simp
  next
    case (JList xs)
    with u obtain vs where "unpack_elements (unpack D levels) D (Some t) xs st = Inr (vs, st')" "w = JList vs"
      by (auto simp: bindR_Inr)
    then show ?thesis using JList quiet_elements [OF grows.unpack_keeps Suc _ q] by simp
  qed (use u in auto)
  then show ?case by (auto simp: reads_erased_def)
qed (simp add: reads_erased_def)

section \<open>The root\<close>

text \<open>A plaintext member of the root is unpacked on its own and kept: \<open>keeps_value\<close> says what the result holds for it.\<close>

definition keeps_value :: "disclosures \<Rightarrow> unpacker \<Rightarrow> unpack_state \<Rightarrow> jobj \<Rightarrow> str \<Rightarrow> json \<Rightarrow> bool" where
  "keeps_value D rec final r key v \<longleftrightarrow>
     (\<exists>w sta stb. rec (Some key) v sta = Inr (w, stb) \<and> map_of r key = Some w \<and> grows D stb final)"

lemma root_members:
  assumes "grows.keeps D rec"
  shows "unpack_members rec None result items st = Inr (r, st') \<Longrightarrow> distinct (map fst items) \<Longrightarrow>
     (\<forall>kv\<in>set items. fst kv \<noteq> lit ''_sd'' \<longrightarrow> keeps_value D rec st' r (fst kv) (snd kv)) \<and>
     (\<forall>k. k \<notin> fst ` set items \<or> k = lit ''_sd'' \<longrightarrow> map_of r k = map_of result k)"
proof (induction items arbitrary: result st)
  case (Cons kv items)
  obtain key v where kv: "kv = (key, v)" by (cases kv)
  show ?case
  proof (cases "key = lit ''_sd''")
    case True
    with Cons kv show ?thesis by auto
  next
    case False
    with Cons.prems kv obtain w st1 where k: "rec (Some key) v st = Inr (w, st1)"
      "unpack_members rec None (AList.update key w result) items st1 = Inr (r, st')"
      by (auto simp: bindR_Inr top_claim_def split: if_splits)
    have IH: "\<forall>kv\<in>set items. fst kv \<noteq> lit ''_sd'' \<longrightarrow> keeps_value D rec st' r (fst kv) (snd kv)"
      "\<forall>k. k \<notin> fst ` set items \<or> k = lit ''_sd'' \<longrightarrow> map_of r k = map_of (AList.update key w result) k"
      using Cons.IH [OF k(2)] Cons.prems(2) by auto
    have "key \<notin> fst ` set items" using Cons.prems(2) kv by auto
    then have "map_of r key = Some w" using IH(2) by (simp add: map_of_update)
    moreover have "grows D st1 st'" using grows.members [OF assms k(2)] .
    ultimately have "keeps_value D rec st' r key v" unfolding keeps_value_def using k(1) by blast
    with IH False kv show ?thesis by (auto simp: map_of_update)
  qed
qed simp

lemma object_disclosure_Inr:
  "object_disclosure disclosure result = Inr (name, v) \<Longrightarrow>
     \<not> has_key name result \<and> name \<noteq> lit ''_sd'' \<and> name \<noteq> lit ''...'' \<and> v = disclosure ! 2 \<and> disclosure ! 1 = JStr name"
  by (cases "disclosure ! 1") (auto simp: object_disclosure_def split: if_splits)

lemma root_digests:
  assumes "grows.keeps D rec"
  shows "unpack_digests rec D None r ds st = Inr (out, st') \<Longrightarrow>
     (\<forall>k w. map_of r k = Some w \<longrightarrow> map_of out k = Some w) \<and>
     (\<forall>k. map_of r k = None \<and> map_of out k \<noteq> None \<longrightarrow> (Some k, False) \<in> set (us_placed st')) \<and>
     map_of out (lit ''_sd'') = map_of r (lit ''_sd'')"
proof (induction ds arbitrary: r st)
  case (Cons digest ds)
  show ?case
  proof (cases "map_of D digest")
    case None
    with Cons show ?thesis by (auto split: if_splits)
  next
    case (Some disclosure)
    with Cons.prems obtain name v w st1 where o: "object_disclosure disclosure r = Inr (name, v)" and k:
      "rec (Some name) v (mark_used digest (Some name, False) (mark_seen digest st)) = Inr (w, st1)"
      "unpack_digests rec D None (AList.update name w r) ds st1 = Inr (out, st')"
      by (auto simp: bindR_Inr top_claim_def placement_def split: if_splits)
    note nm = object_disclosure_Inr [OF o]
    have IH: "\<forall>k u. map_of (AList.update name w r) k = Some u \<longrightarrow> map_of out k = Some u"
      "\<forall>k. map_of (AList.update name w r) k = None \<and> map_of out k \<noteq> None \<longrightarrow> (Some k, False) \<in> set (us_placed st')"
      "map_of out (lit ''_sd'') = map_of (AList.update name w r) (lit ''_sd'')"
      using Cons.IH [OF k(2)] by blast+
    have "grows D (mark_used digest (Some name, False) (mark_seen digest st)) st'"
      using k assms grows.digests [OF assms k(2)] grows.trans unfolding grows.keeps_def by blast
    then have p: "(Some name, False) \<in> set (us_placed st')"
      using grows_placed by (fastforce simp: mark_used_def)
    have "map_of out k = Some u" if "map_of r k = Some u" for k u
    proof -
      have "k \<noteq> name" using that nm by (auto simp: has_key_map_of)
      then show ?thesis using IH(1) that by (simp add: map_of_update)
    qed
    moreover have "(Some k, False) \<in> set (us_placed st')" if "map_of r k = None" "map_of out k \<noteq> None" for k
      using IH(2) p that by (cases "k = name") (auto simp: map_of_update)
    moreover have "map_of out (lit ''_sd'') = map_of r (lit ''_sd'')"
      using IH(3) nm by (auto simp: map_of_update)
    ultimately show ?thesis by blast
  qed
qed (auto)

lemma unpack_root_obj:
  assumes "unpack D (Suc n) None (JObj claims) st = Inr (w, st')" "dict_ok claims"
  obtains out where "w = JObj out"
    "\<And>key v. map_of claims key = Some v \<Longrightarrow> key \<noteq> lit ''_sd'' \<Longrightarrow> keeps_value D (unpack D n) st' out key v"
    "\<And>key. map_of claims key = None \<or> key = lit ''_sd'' \<Longrightarrow> map_of out key \<noteq> None \<Longrightarrow> (Some key, False) \<in> set (us_placed st')"
    "map_of out (lit ''_sd'') = None"
proof -
  obtain r st1 ds out where k: "unpack_members (unpack D n) None [] claims st = Inr (r, st1)"
    "unpack_digests (unpack D n) D None r ds st1 = Inr (out, st')" "w = JObj out"
    using assms(1) by (auto simp: bindR_Inr)
  note M = root_members [OF grows.unpack_keeps k(1)] and G = root_digests [OF grows.unpack_keeps k(2)]
  have d: "distinct (map fst claims)" using assms(2) by (simp add: dict_ok_def)
  have g: "grows D st1 st'" using grows.digests [OF grows.unpack_keeps k(2)] .
  have "keeps_value D (unpack D n) st' out key v" if "map_of claims key = Some v" "key \<noteq> lit ''_sd''" for key v
  proof -
    have "(key, v) \<in> set claims" using that(1) by (rule map_of_SomeD)
    then have "keeps_value D (unpack D n) st1 r key v" using M d that(2) by fastforce
    then show ?thesis unfolding keeps_value_def using G g grows.trans by blast
  qed
  moreover have n: "map_of r key = None" if "map_of claims key = None \<or> key = lit ''_sd''" for key
    using M d that by (auto simp: map_of_eq_None_iff)
  then have "(Some key, False) \<in> set (us_placed st')" if "map_of claims key = None \<or> key = lit ''_sd''" "map_of out key \<noteq> None" for key
    using G that by blast
  moreover have "map_of out (lit ''_sd'') = None" using G n [of "lit ''_sd''"] by auto
  ultimately show thesis using that k(3) by blast
qed

lemma tagged_placed:
  assumes "unpack D n (Some key) v sta = Inr (w, stb)" "grows D stb final" "\<forall>b. (Some key, b) \<notin> set (us_placed final)"
  shows "quiet sta stb"
proof -
  obtain m where m: "us_placed stb = us_placed sta @ replicate m (Some key, True)"
    using tagged.unpack_R [OF assms(1)] by (auto simp: tagged_def)
  obtain ps where "us_placed final = us_placed stb @ ps" using grows_placed [OF assms(2)] by blast
  with m assms(3) have "m = 0" by (cases m) auto
  with m show ?thesis by (simp add: quiet_def)
qed

lemma undisclosed_reading:
  assumes "unpack_root D (JObj claims) = Inr (JObj out, st')" "dict_ok claims" "\<forall>b. (Some key, b) \<notin> set (us_placed st')"
    "key \<noteq> lit ''_sd''"
  shows "map_of out key = map_option erase (map_of claims key)"
proof -
  have u: "unpack D (Suc SD_MAX_DEPTH) None (JObj claims) empty_state = Inr (JObj out, st')"
    using assms(1) unfolding unpack_root_def by simp
  show ?thesis
  proof (cases "map_of claims key")
    case None
    then show ?thesis using unpack_root_obj [OF u assms(2)] assms(3) by (metis json.inject(6) option.simps(8))
  next
    case (Some v)
    obtain w sta stb where k: "unpack D SD_MAX_DEPTH (Some key) v sta = Inr (w, stb)" "map_of out key = Some w" "grows D stb st'"
      using unpack_root_obj [OF u assms(2)] Some assms(4) unfolding keeps_value_def by (metis json.inject(6))
    have "w = erase v"
      using unpack_erased k(1) tagged_placed [OF k(1,3) assms(3)] unfolding reads_erased_def by blast
    with k Some show ?thesis by simp
  qed
qed

section \<open>Cleanliness\<close>

text \<open>No reserved member name is left at any depth.\<close>

fun clean :: "json \<Rightarrow> bool" where
  "clean (JList xs) = list_all clean xs"
| "clean (JObj d) = (\<not> has_key (lit ''_sd'') d \<and> \<not> has_key (lit ''...'') d \<and> list_all (\<lambda>kv. clean (snd kv)) d)"
| "clean _ = True"

definition cleans :: "unpacker \<Rightarrow> bool" where
  "cleans rec \<longleftrightarrow> (\<forall>tp v st w st'. rec tp v st = Inr (w, st') \<longrightarrow> clean w)"

lemma clean_update: "clean (JObj d) \<Longrightarrow> clean v \<Longrightarrow> k \<noteq> lit ''_sd'' \<Longrightarrow> k \<noteq> lit ''...'' \<Longrightarrow> clean (JObj (AList.update k v d))"
  by (induction d) (auto simp: has_key_def)

lemma clean_members:
  assumes "cleans rec"
  shows "unpack_members rec tp result items st = Inr (r, st') \<Longrightarrow> clean (JObj result) \<Longrightarrow> clean (JObj r)"
proof (induction items arbitrary: result st)
  case (Cons kv items)
  obtain key v where kv: "kv = (key, v)" by (cases kv)
  show ?case
  proof (cases "key = lit ''_sd''")
    case True
    with Cons kv show ?thesis by simp
  next
    case False
    with Cons.prems kv obtain w st1 where k: "key \<noteq> lit ''...''" "rec (top_claim tp key) v st = Inr (w, st1)"
      "unpack_members rec tp (AList.update key w result) items st1 = Inr (r, st')"
      by (auto simp: bindR_Inr split: if_splits)
    then have "clean w" using assms unfolding cleans_def by blast
    with k False Cons show ?thesis using clean_update by blast
  qed
qed simp

lemma clean_digests:
  assumes "cleans rec"
  shows "unpack_digests rec D tp result ds st = Inr (r, st') \<Longrightarrow> clean (JObj result) \<Longrightarrow> clean (JObj r)"
proof (induction ds arbitrary: result st)
  case (Cons digest ds)
  show ?case
  proof (cases "map_of D digest")
    case None
    with Cons show ?thesis by (auto split: if_splits)
  next
    case (Some disclosure)
    with Cons.prems obtain name v w st1 where k: "object_disclosure disclosure result = Inr (name, v)"
      "rec (top_claim tp name) v (mark_used digest (placement tp name) (mark_seen digest st)) = Inr (w, st1)"
      "unpack_digests rec D tp (AList.update name w result) ds st1 = Inr (r, st')"
      by (auto simp: bindR_Inr split: if_splits)
    then have "clean w" using assms unfolding cleans_def by blast
    with k object_disclosure_Inr [OF k(1)] Cons show ?thesis using clean_update by blast
  qed
qed simp

lemma clean_elements:
  assumes "cleans rec"
  shows "unpack_elements rec D tp es st = Inr (vs, st') \<Longrightarrow> list_all clean vs"
proof (induction es arbitrary: vs st)
  case (Cons e es)
  have c: "rec tp v st = Inr (w, st') \<Longrightarrow> clean w" for v st w st' using assms unfolding cleans_def by blast
  show ?case
    using Cons by (auto simp: bindR_Inr split: option.splits if_splits dest: c)
qed simp

lemma unpack_clean: "cleans (unpack D levels)"
proof (induction levels)
  case (Suc levels)
  have "clean w" if u: "unpack D (Suc levels) tp v st = Inr (w, st')" for tp v st w st'
  proof (cases v)
    case (JObj d)
    with u obtain r st1 ds r' where k: "unpack_members (unpack D levels) tp [] d st = Inr (r, st1)"
      "unpack_digests (unpack D levels) D tp r ds st1 = Inr (r', st')" "w = JObj r'"
      by (auto simp: bindR_Inr)
    then show ?thesis using clean_members [OF Suc k(1)] clean_digests [OF Suc k(2)] by (simp add: has_key_def)
  next
    case (JList xs)
    with u obtain vs where "unpack_elements (unpack D levels) D tp xs st = Inr (vs, st')" "w = JList vs"
      by (auto simp: bindR_Inr)
    then show ?thesis using clean_elements [OF Suc] by simp
  qed (use u in auto)
  then show ?case by (auto simp: cleans_def)
qed (simp add: cleans_def)

lemma unpack_sound_clean: "unpack_root D v = Inr (w, st) \<Longrightarrow> clean w"
  unfolding unpack_root_def using unpack_clean unfolding cleans_def by blast

section \<open>Errors\<close>

definition typed :: "unpacker \<Rightarrow> bool" where
  "typed rec \<longleftrightarrow> (\<forall>tp v st e. rec tp v st = Inl e \<longrightarrow> e = SdJwtError)"

lemma typed_members: "typed rec \<Longrightarrow> unpack_members rec tp result items st = Inl e \<Longrightarrow> e = SdJwtError"
proof (induction items arbitrary: result st)
  case (Cons kv items)
  then show ?case by (cases kv) (auto simp: bindR_Inl typed_def split: if_splits)
qed simp

lemma typed_digests: "typed rec \<Longrightarrow> unpack_digests rec D tp result ds st = Inl e \<Longrightarrow> e = SdJwtError"
proof (induction ds arbitrary: result st)
  case (Cons digest ds)
  have "object_disclosure d r = Inl x \<Longrightarrow> x = SdJwtError" for d r x
    by (auto simp: object_disclosure_def split: if_splits option.splits)
  with Cons show ?case by (auto simp: bindR_Inl typed_def split: if_splits option.splits)
qed simp

lemma typed_elements: "typed rec \<Longrightarrow> unpack_elements rec D tp es st = Inl e \<Longrightarrow> e = SdJwtError"
proof (induction es arbitrary: st)
  case (Cons x es)
  then show ?case by (auto simp: bindR_Inl typed_def split: if_splits option.splits)
qed simp

lemma sd_digests_error: "sd_digests v = Inl e \<Longrightarrow> e = SdJwtError"
  by (cases v) (auto simp: sd_digests_def split: if_splits)

lemma unpack_typed: "typed (unpack D levels)"
proof (induction levels)
  case (Suc levels)
  have "e = SdJwtError" if "unpack D (Suc levels) tp v st = Inl e" for tp v st e
    using that typed_members [OF Suc] typed_digests [OF Suc] typed_elements [OF Suc] sd_digests_error
    by (cases v) (auto simp: bindR_Inl)
  then show ?case by (auto simp: typed_def)
qed (simp add: typed_def)

section \<open>Properties\<close>

text \<open>(C17) Unpacking always ends, with the processed claims or \<open>SdJwtError\<close>. In a result no reserved member name is left at any
  depth; no digest is met twice and no disclosure is used twice; no plaintext claim is lost or replaced; and a top-level
  claim under which nothing was disclosed reads exactly as it would with no disclosure at all, whatever the holder
  presents.\<close>

theorem unpack_sound:
  assumes "dict_ok claims"
  shows "case unpack_root D (JObj claims) of
      Inl e \<Rightarrow> e = SdJwtError
    | Inr (w, st) \<Rightarrow>
        clean w \<and> distinct (us_seen st) \<and> distinct (us_used st) \<and> set (us_used st) \<subseteq> set (us_seen st) \<inter> dom (map_of D) \<and>
        length (us_placed st) = length (us_used st) \<and>
        (\<exists>out. w = JObj out \<and>
           (\<forall>key. key \<noteq> lit ''_sd'' \<longrightarrow>
              (map_of claims key \<noteq> None \<longrightarrow> map_of out key \<noteq> None) \<and>
              ((\<forall>b. (Some key, b) \<notin> set (us_placed st)) \<longrightarrow> map_of out key = map_option erase (map_of claims key))))"
proof (cases "unpack_root D (JObj claims)")
  case (Inl e)
  then show ?thesis using unpack_typed by (auto simp: typed_def unpack_root_def simp del: unpack.simps)
next
  case (Inr r)
  obtain w st where r: "r = (w, st)" by (cases r)
  have u: "unpack D (Suc SD_MAX_DEPTH) None (JObj claims) empty_state = Inr (w, st)"
    using Inr r by (simp add: unpack_root_def del: unpack.simps)
  have g: "grows D empty_state st" using grows.unpack_R [OF u] .
  have c: "clean w" using unpack_clean u unfolding cleans_def by blast
  obtain out where out: "w = JObj out"
    "\<And>key v. map_of claims key = Some v \<Longrightarrow> key \<noteq> lit ''_sd'' \<Longrightarrow> keeps_value D (unpack D SD_MAX_DEPTH) st out key v"
    using unpack_root_obj [OF u assms] by blast
  have "map_of out key \<noteq> None" if "map_of claims key \<noteq> None" "key \<noteq> lit ''_sd''" for key
    using out(2) that unfolding keeps_value_def by auto
  moreover have "map_of out key = map_option erase (map_of claims key)"
    if "\<forall>b. (Some key, b) \<notin> set (us_placed st)" "key \<noteq> lit ''_sd''" for key
    using undisclosed_reading [OF _ assms that] Inr r out(1) by simp
  ultimately have k: "\<exists>out. w = JObj out \<and> (\<forall>key. key \<noteq> lit ''_sd'' \<longrightarrow>
      (map_of claims key \<noteq> None \<longrightarrow> map_of out key \<noteq> None) \<and>
      ((\<forall>b. (Some key, b) \<notin> set (us_placed st)) \<longrightarrow> map_of out key = map_option erase (map_of claims key)))"
    using out(1) by blast
  from g obtain ps us where "us_placed st = ps" "us_used st = us" "length us = length ps" "distinct us"
    "set us \<subseteq> set (us_seen st)" "set us \<subseteq> dom (map_of D)" "distinct (us_seen st)"
    unfolding grows_def by (auto simp: empty_state_def)
  then show ?thesis using Inr r c k by simp
qed

theorem unpack_sound_witness:
  "\<exists>out st. unpack_root [(lit ''d'', [JStr [], JStr (lit ''name''), JInt 7])]
      (JObj [(lit ''exp'', JInt 5), (lit ''_sd'', JList [JStr (lit ''d'')])]) = Inr (JObj out, st) \<and>
    map_of out (lit ''exp'') = Some (JInt 5)"
proof -
  let ?D = "[(lit ''d'', [JStr [], JStr (lit ''name''), JInt 7])]"
  let ?c = "[(lit ''exp'', JInt 5), (lit ''_sd'', JList [JStr (lit ''d'')])]"
  have L: "SD_MAX_DEPTH + 1 = Suc (Suc 99)" by (simp add: SD_MAX_DEPTH_def)
  have "\<exists>out. unpack ?D (Suc (Suc n)) None (JObj ?c) empty_state =
      Inr (JObj out, \<lparr>us_used = [lit ''d''], us_seen = [lit ''d''], us_placed = [(Some (lit ''name''), False)]\<rparr>)" for n
    by (simp add: top_claim_def jget_def sd_digests_def object_disclosure_def has_key_def placement_def mark_seen_def
        mark_used_def empty_state_def)
  from this [of 99] obtain out where o: "unpack_root ?D (JObj ?c) = Inr (JObj out, \<lparr>us_used = [lit ''d''], us_seen = [lit ''d''], us_placed = [(Some (lit ''name''), False)]\<rparr>)"
    unfolding unpack_root_def L by blast
  have d: "dict_ok ?c" by (simp add: dict_ok_def)
  from unpack_sound [OF d, of ?D] o show ?thesis by auto
qed

end
