(* ===== verification/Sd_Jwt.thy ===== *)
theory Sd_Jwt
  imports Sd_Unpack
begin

text \<open>
  openvc/proof/sd_jwt.py: the SD-JWT VC suite around the unpacking: the disclosure rules, the VCDM readings of a payload,
  issuance, holder presentation, key binding and verification. Salts and decoys (\<open>secrets.token_bytes\<close>) are arguments.
\<close>

section \<open>Names\<close>

definition SD_HASHES :: "str list" where
  "SD_HASHES = [lit ''sha-256'', lit ''sha-384'', lit ''sha-512'']"

definition DEFAULT_HASH :: str where "DEFAULT_HASH = lit ''sha-256''"

definition ISSUER_TYP :: str where "ISSUER_TYP = lit ''dc+sd-jwt''"

definition KB_TYP :: str where "KB_TYP = lit ''kb+jwt''"

definition W3C_TYPS :: "str list" where
  "W3C_TYPS = [lit ''vc+sd-jwt'', lit ''vc+ld+json+sd-jwt'']"

definition ACCEPTED_ISSUER_TYP :: "str list" where
  "ACCEPTED_ISSUER_TYP = ISSUER_TYP # W3C_TYPS"

definition VCDM_CONTEXTS :: "str list" where
  "VCDM_CONTEXTS = [lit ''https://www.w3.org/ns/credentials/v2'', lit ''https://www.w3.org/2018/credentials/v1'']"

definition SD_JWT_VC_NON_DISCLOSABLE :: "str list" where
  "SD_JWT_VC_NON_DISCLOSABLE = [lit ''iss'', lit ''nbf'', lit ''exp'', lit ''cnf'', lit ''vct'', lit ''vct#integrity'',
                                lit ''aka_vcts'', lit ''status'']"

definition OPENVC_NON_DISCLOSABLE :: "str list" where
  "OPENVC_NON_DISCLOSABLE = [lit ''credentialStatus'', lit ''@context'']"

definition VCDM_VALIDITY_CLAIMS :: "str list" where
  "VCDM_VALIDITY_CLAIMS = [lit ''validFrom'', lit ''validUntil'', lit ''issuanceDate'', lit ''expirationDate'']"

section \<open>Disclosures\<close>

definition make_object_disclosure :: "jose \<Rightarrow> str \<Rightarrow> str \<Rightarrow> json \<Rightarrow> str" where
  "make_object_disclosure J salt name v = b64url_encode (jo_dumps J (JList [JStr salt, JStr name, v]))"

definition make_array_disclosure :: "jose \<Rightarrow> str \<Rightarrow> json \<Rightarrow> str" where
  "make_array_disclosure J salt v = b64url_encode (jo_dumps J (JList [JStr salt, v]))"

definition disclosure_digest :: "crypto \<Rightarrow> str \<Rightarrow> str \<Rightarrow> str result" where
  "disclosure_digest cr disclosure hash_name =
     (if hash_name \<notin> set SD_HASHES then Inl SdJwtError
      else if \<not> is_ascii disclosure then Inl PyUnicodeError
      else Inr (b64url_encode (digest_of cr hash_name (ascii_bytes disclosure))))"

definition parse_disclosure :: "jose \<Rightarrow> str \<Rightarrow> json list result" where
  "parse_disclosure J disclosure =
     bindR (catchR is_value_error SdJwtError (bindR (b64url_decode disclosure) (loads (jo_loads J)))) (\<lambda>v.
       case v of
         JList parsed \<Rightarrow> if length parsed \<in> {2, 3} then Inr parsed else Inl SdJwtError
       | _ \<Rightarrow> Inl SdJwtError)"

fun index_disclosures :: "jose \<Rightarrow> str \<Rightarrow> disclosures \<Rightarrow> str list \<Rightarrow> disclosures result" where
  "index_disclosures J hash_name by_digest [] = Inr by_digest"
| "index_disclosures J hash_name by_digest (disclosure # ds) =
     bindR (parse_disclosure J disclosure) (\<lambda>parsed.
     bindR (disclosure_digest (jo_crypto J) disclosure hash_name) (\<lambda>digest.
       if has_key digest by_digest then Inl SdJwtError
       else index_disclosures J hash_name (AList.update digest parsed by_digest) ds))"

definition disclosure_refused :: "str \<Rightarrow> bool \<Rightarrow> bool" where
  "disclosure_refused name vcdm =
     (name \<in> set SD_JWT_VC_NON_DISCLOSABLE \<or> name \<in> set OPENVC_NON_DISCLOSABLE \<or>
      vcdm \<and> name \<in> set VCDM_VALIDITY_CLAIMS)"

section \<open>Readings of a payload\<close>

definition check_aka_vcts :: "jobj \<Rightarrow> unit result" where
  "check_aka_vcts payload =
     (case jget (lit ''aka_vcts'') payload of
        JNull \<Rightarrow> Inr ()
      | JList aka \<Rightarrow>
          if aka = [] \<or> \<not> list_all (\<lambda>i. is_jstr i \<and> truthy i) aka then Inl ClaimsInvalid
          else if is_jstr (jget (lit ''vct'') payload) \<and> jget (lit ''vct'') payload \<in> set aka then Inl ClaimsInvalid
          else Inr ()
      | _ \<Rightarrow> Inl ClaimsInvalid)"

definition is_context :: "json \<Rightarrow> bool" where
  "is_context v = (case v of JStr s \<Rightarrow> s \<in> set VCDM_CONTEXTS | _ \<Rightarrow> False)"

definition declares_vcdm :: "jobj \<Rightarrow> bool" where
  "declares_vcdm claims =
     (case jget (lit ''@context'') claims of JList xs \<Rightarrow> list_ex is_context xs | v \<Rightarrow> is_context v)"

definition declares_credential :: "jobj \<Rightarrow> bool" where
  "declares_credential claims =
     (let names = (case jget (lit ''type'') claims of JList xs \<Rightarrow> xs | v \<Rightarrow> [v])
      in JStr (lit ''VerifiableCredential'') \<in> set names \<and> JStr (lit ''VerifiablePresentation'') \<notin> set names)"

definition vcdm_issuer :: "jobj \<Rightarrow> json" where
  "vcdm_issuer body =
     (let ids = issuer_identifiers (jget (lit ''issuer'') body)
      in if ids = [] \<or> \<not> list_all (\<lambda>i. is_jstr i \<and> truthy i) ids then JNull
         else if list_all (\<lambda>i. i = hd ids) ids then hd ids else JNull)"

definition may_use_vcdm_issuer :: "jobj \<Rightarrow> jobj \<Rightarrow> bool" where
  "may_use_vcdm_issuer body header =
     (if has_key (lit ''iss'') body then False
      else if \<not> has_key (lit ''typ'') header then True
      else case jget (lit ''typ'') header of JStr t \<Rightarrow> t \<in> set W3C_TYPS | _ \<Rightarrow> False)"

definition issuer_from_body :: "jobj \<Rightarrow> jobj \<Rightarrow> json" where
  "issuer_from_body body header =
     (if may_use_vcdm_issuer body header then vcdm_issuer body else jget (lit ''iss'') body)"

definition starts_with_base_context :: "jobj \<Rightarrow> bool" where
  "starts_with_base_context claims =
     (case jget (lit ''@context'') claims of
        JList xs \<Rightarrow> (case xs of [] \<Rightarrow> False | x # _ \<Rightarrow> is_context x)
      | v \<Rightarrow> is_context v)"

definition vcdm_conforms :: "jobj \<Rightarrow> bool" where
  "vcdm_conforms claims = (starts_with_base_context claims \<and> declares_credential claims)"

section \<open>The suite\<close>

record sd_suite =
  ss_leeway :: int
  ss_hash :: str
  ss_algs :: "str list"

definition new_sd_suite :: "json \<Rightarrow> str \<Rightarrow> json \<Rightarrow> sd_suite result" where
  "new_sd_suite leeway_s hash_name allow_pq =
     bindR (leeway_seconds SdJwtError leeway_s) (\<lambda>leeway.
       if hash_name \<notin> set SD_HASHES then Inl SdJwtError
       else case plain_bool allow_pq of
              None \<Rightarrow> Inl SdJwtError
            | Some pq \<Rightarrow> Inr \<lparr>ss_leeway = leeway, ss_hash = hash_name,
                              ss_algs = ALLOWED_ALGS @ (if pq then ALLOWED_ALGS_PQ else [])\<rparr>)"

text \<open>\<open>(issuer-jwt, [disclosures], kb-jwt)\<close>; empty parts in the middle are dropped.\<close>

definition sd_split :: "str \<Rightarrow> (str \<times> str list \<times> str) result" where
  "sd_split sd_jwt =
     (let parts = split_on 126 sd_jwt
      in if length parts < 2 then Inl MalformedToken
         else Inr (hd parts, filter (\<lambda>p. p \<noteq> []) (butlast (tl parts)), last parts))"

definition presented_text :: "str \<Rightarrow> str list \<Rightarrow> str" where
  "presented_text issuer_jwt disclosures = issuer_jwt @ [126] @ concat (map (\<lambda>d. d @ [126]) disclosures)"

definition decode_jws :: "jose \<Rightarrow> str \<Rightarrow> (jobj \<times> jobj \<times> bytes \<times> bytes) result" where
  "decode_jws J jws = parse_compact J jws"

definition sd_check_signature :: "jose \<Rightarrow> str \<Rightarrow> jobj \<Rightarrow> bytes \<Rightarrow> bytes \<Rightarrow> unit result" where
  "sd_check_signature J alg jwk signing_input signature =
     bindR (catchR is_key_backend_error ProofError (verify_signature (jo_crypto J) alg jwk signing_input signature))
       (\<lambda>ok. if \<not> ok then Inl SignatureInvalid else Inr ())"

definition sd_check_temporal :: "jose \<Rightarrow> sd_suite \<Rightarrow> jobj \<Rightarrow> bool \<Rightarrow> bool result" where
  "sd_check_temporal J suite claims check_temporal =
     check_jwt_temporal (jo_time J) claims (JInt (ss_leeway suite)) check_temporal"

definition sd_peek_issuer :: "jose \<Rightarrow> str \<Rightarrow> (str \<times> str option) result" where
  "sd_peek_issuer J sd_jwt =
     bindR (decode_jws J (takeWhile (\<lambda>c. c \<noteq> 126) sd_jwt)) (\<lambda>(header, payload, _, _).
       case text_opt (issuer_from_body payload header) of
         None \<Rightarrow> Inl MalformedToken
       | Some iss \<Rightarrow> if iss = [] then Inl MalformedToken else bindR (kid_of header) (\<lambda>kid. Inr (iss, kid)))"

section \<open>Issuance\<close>

fun take_disclosures :: "jose \<Rightarrow> str \<Rightarrow> bytes list \<Rightarrow> str list \<Rightarrow> jobj \<Rightarrow> (str list \<times> str list \<times> jobj) result" where
  "take_disclosures J hash_name salts [] payload = Inr ([], [], payload)"
| "take_disclosures J hash_name salts (name # names) payload =
     (case map_of payload name of
        None \<Rightarrow> Inl SdJwtError
      | Some v \<Rightarrow>
          (let disclosure = make_object_disclosure J (b64url_encode (hd salts)) name v
           in bindR (disclosure_digest (jo_crypto J) disclosure hash_name) (\<lambda>digest.
              bindR (take_disclosures J hash_name (tl salts) names (dict_del name payload)) (\<lambda>(ds, gs, p).
                Inr (disclosure # ds, digest # gs, p)))))"

text \<open>\<open>payload.setdefault(k, v)\<close>\<close>

definition setdefault :: "str \<Rightarrow> json \<Rightarrow> jobj \<Rightarrow> jobj" where
  "setdefault k v d = (if has_key k d then d else d @ [(k, v)])"

definition issue_payload :: "int \<Rightarrow> jobj \<Rightarrow> jobj option \<Rightarrow> str option \<Rightarrow> int option \<Rightarrow> jobj result" where
  "issue_payload now claims holder_jwk vct expires_in_s =
     (let p = setdefault (lit ''iat'') (JInt now) claims;
          p = (case vct of None \<Rightarrow> p | Some t \<Rightarrow> AList.update (lit ''vct'') (JStr t) p)
      in if \<not> truthy (jget (lit ''iss'') p) then Inl SdJwtError
         else if \<not> (is_jstr (jget (lit ''vct'') p) \<and> truthy (jget (lit ''vct'') p)) then Inl SdJwtError
         else bindR (check_aka_vcts p) (\<lambda>_.
           let p = (case expires_in_s of None \<Rightarrow> p | Some s \<Rightarrow> AList.update (lit ''exp'') (JInt (now + s)) p);
               p = (case holder_jwk of None \<Rightarrow> p | Some k \<Rightarrow> AList.update (lit ''cnf'') (JObj [(lit ''jwk'', JObj k)]) p)
           in Inr p))"

definition x5c_header :: "jobj \<Rightarrow> json list option \<Rightarrow> jobj result" where
  "x5c_header header x5c =
     (case x5c of
        None \<Rightarrow> Inr header
      | Some chain \<Rightarrow> if chain = [] \<or> \<not> list_all (\<lambda>c. is_jstr c \<and> truthy c) chain then Inl SdJwtError
                      else Inr (header @ [(lit ''x5c'', JList chain)]))"

text \<open>
  \<open>issue\<close>; \<open>salts\<close> and \<open>decoys\<close> are the random values it draws. The payload is judged as the verifier will parse it, which
  for a JSON value is the value itself.
\<close>

definition sd_issue ::
    "jose \<Rightarrow> sd_suite \<Rightarrow> jobj \<Rightarrow> signing_key \<Rightarrow> str list \<Rightarrow> jobj option \<Rightarrow> str option \<Rightarrow> int option \<Rightarrow> json list option \<Rightarrow>
     bytes list \<Rightarrow> bytes list \<Rightarrow> str result" where
  "sd_issue J suite claims key disclosable holder_jwk vct expires_in_s x5c salts decoys =
     (if sk_alg key \<notin> set (ss_algs suite) then Inl UnsupportedAlgorithm
      else
     bindR (issue_payload (num_trunc (jo_time J)) claims holder_jwk vct expires_in_s) (\<lambda>p.
       if list_ex (\<lambda>n. disclosure_refused n (declares_vcdm p)) disclosable then Inl SdJwtError
       else
     bindR (take_disclosures J (ss_hash suite) salts disclosable p) (\<lambda>(ds, gs, p).
       let digests = gs @ map b64url_encode decoys;
           p = (if digests = [] then p
                else AList.update (lit ''_sd_alg'') (JStr (ss_hash suite))
                       (AList.update (lit ''_sd'') (JList (map JStr (sort digests))) p))
       in
     bindR (x5c_header [(lit ''typ'', JStr ISSUER_TYP), (lit ''alg'', JStr (sk_alg key)), (lit ''kid'', JStr (sk_kid key))] x5c)
       (\<lambda>header.
     bindR (assemble_compact J header p key) (\<lambda>issuer_jwt. Inr (presented_text issuer_jwt ds))))))"

definition create_presentation :: "jose \<Rightarrow> sd_suite \<Rightarrow> str \<Rightarrow> signing_key \<Rightarrow> str \<Rightarrow> str \<Rightarrow> str result" where
  "create_presentation J suite sd_jwt holder_key audience nonce =
     (if sk_alg holder_key \<notin> set (ss_algs suite) then Inl UnsupportedAlgorithm
      else
     bindR (sd_split sd_jwt) (\<lambda>(issuer_jwt, disclosures, _).
       let presented = presented_text issuer_jwt disclosures
       in if \<not> is_ascii presented then Inl SdJwtError
          else
            let sd_hash = b64url_encode (digest_of (jo_crypto J) (ss_hash suite) (ascii_bytes presented))
            in bindR (assemble_compact J
                        [(lit ''typ'', JStr KB_TYP), (lit ''alg'', JStr (sk_alg holder_key))]
                        [(lit ''iat'', JInt (num_trunc (jo_time J))), (lit ''aud'', JStr audience),
                         (lit ''nonce'', JStr nonce), (lit ''sd_hash'', JStr sd_hash)] holder_key)
                 (\<lambda>kb. Inr (presented @ kb))))"

section \<open>Key binding\<close>

definition nonempty_str :: "json \<Rightarrow> bool" where
  "nonempty_str v = (is_jstr v \<and> truthy v)"

definition kb_policy :: "json \<Rightarrow> json \<Rightarrow> bool \<Rightarrow> str \<Rightarrow> bool result" where
  "kb_policy audience nonce required kb_jwt =
     (if required \<and> (audience = JNull \<or> nonce = JNull) then Inl ClaimsInvalid
      else if kb_jwt = [] then (if required then Inl ClaimsInvalid else Inr False)
      else if audience \<noteq> JNull \<or> nonce \<noteq> JNull then
        (if audience = JNull \<or> nonce = JNull then Inl ClaimsInvalid
         else if \<not> (nonempty_str audience \<and> nonempty_str nonce) then Inl ClaimsInvalid
         else Inr True)
      else Inr True)"

definition cnf_jwk :: "json \<Rightarrow> jobj result" where
  "cnf_jwk cnf =
     (case cnf of
        JObj d \<Rightarrow> as_object ClaimsInvalid (jget (lit ''jwk'') d)
      | _ \<Rightarrow> Inl ClaimsInvalid)"

definition kb_claims :: "jose \<Rightarrow> sd_suite \<Rightarrow> str \<Rightarrow> json \<Rightarrow> jobj result" where
  "kb_claims J suite kb_jwt cnf =
     bindR (decode_jws J kb_jwt) (\<lambda>(header, claims, signing_input, signature).
       if jget (lit ''typ'') header \<noteq> JStr KB_TYP then Inl SdJwtError
       else
     bindR (allowed_alg header (ss_algs suite)) (\<lambda>alg.
     bindR (reject_unknown_crit header) (\<lambda>_.
     bindR (cnf_jwk cnf) (\<lambda>jwk.
     bindR (sd_check_signature J alg jwk signing_input signature) (\<lambda>_. Inr claims)))))"

definition verify_key_binding ::
    "jose \<Rightarrow> sd_suite \<Rightarrow> str \<Rightarrow> str \<Rightarrow> str list \<Rightarrow> json \<Rightarrow> str \<Rightarrow> json \<Rightarrow> json \<Rightarrow> bool \<Rightarrow> num \<Rightarrow> int \<Rightarrow> bool result" where
  "verify_key_binding J suite kb_jwt issuer_jwt disclosures cnf hash_name audience nonce required current max_age_s =
     bindR (kb_policy audience nonce required kb_jwt) (\<lambda>present.
       if \<not> present then Inr False
       else
     bindR (kb_claims J suite kb_jwt cnf) (\<lambda>claims.
     bindR (check_iat_freshness (jget (lit ''iat'') claims) max_age_s (JInt (ss_leeway suite)) current) (\<lambda>_.
     bindR (check_numeric_dates claims [lit ''exp'', lit ''nbf'']) (\<lambda>_.
     bindR (check_jwt_temporal current claims (JInt (ss_leeway suite)) True) (\<lambda>_.
       if audience \<noteq> JNull \<and> jget (lit ''aud'') claims \<noteq> audience then Inl ClaimsInvalid
       else if nonce \<noteq> JNull \<and> jget (lit ''nonce'') claims \<noteq> nonce then Inl ClaimsInvalid
       else
         let presented = presented_text issuer_jwt disclosures
         in if \<not> is_ascii presented then Inl SdJwtError
            else if jget (lit ''sd_hash'') claims \<noteq>
                    JStr (b64url_encode (digest_of (jo_crypto J) hash_name (ascii_bytes presented)))
                 then Inl ClaimsInvalid
            else Inr True)))))"

section \<open>Verification\<close>

record sd_policy =
  sp_audience :: json
  sp_nonce :: json
  sp_require_kb :: bool
  sp_vct :: "str option"
  sp_temporal :: bool
  sp_kb_max_age :: json
  sp_now :: clock_pin

record verified_sd_jwt =
  sd_claims :: jobj
  sd_issuer :: str
  sd_vct :: "str option"
  sd_key_bound :: bool
  sd_confirmation :: json
  sd_expired :: bool
  sd_vcdm :: bool
  sd_typ :: "str option"

definition iss_and_hash :: "jobj \<Rightarrow> jobj \<Rightarrow> (str \<times> str) result" where
  "iss_and_hash claims header =
     (case text_opt (issuer_from_body claims header) of
        None \<Rightarrow> Inl ClaimsInvalid
      | Some iss \<Rightarrow>
          if iss = [] then Inl ClaimsInvalid
          else (case map_of claims (lit ''_sd_alg'') of
                  None \<Rightarrow> Inr (iss, DEFAULT_HASH)
                | Some v \<Rightarrow> (case text_opt v of
                               None \<Rightarrow> Inl SdJwtError
                             | Some a \<Rightarrow> if a \<in> set SD_HASHES then Inr (iss, a) else Inl SdJwtError)))"

text \<open>\<open>typ\<close> of the issuer JWT: absent, or an accepted string.\<close>

definition issuer_typ :: "jobj \<Rightarrow> str option result" where
  "issuer_typ header =
     (if \<not> has_key (lit ''typ'') header then Inr None
      else case text_opt (jget (lit ''typ'') header) of
             None \<Rightarrow> Inl SdJwtError
           | Some t \<Rightarrow> if t \<in> set ACCEPTED_ISSUER_TYP then Inr (Some t) else Inl SdJwtError)"

definition verify_issuer_jwt :: "jose \<Rightarrow> sd_suite \<Rightarrow> str \<Rightarrow> jobj \<Rightarrow> (jobj \<times> jobj \<times> str option) result" where
  "verify_issuer_jwt J suite issuer_jwt public_key_jwk =
     bindR (decode_jws J issuer_jwt) (\<lambda>(header, claims, signing_input, signature).
     bindR (allowed_alg header (ss_algs suite)) (\<lambda>alg.
     bindR (issuer_typ header) (\<lambda>typ.
     bindR (reject_unknown_crit header) (\<lambda>_.
     bindR (sd_check_signature J alg public_key_jwk signing_input signature) (\<lambda>_. Inr (header, claims, typ))))))"

definition process_disclosures :: "jose \<Rightarrow> str \<Rightarrow> str list \<Rightarrow> jobj \<Rightarrow> (jobj \<times> (str option \<times> bool) list) result" where
  "process_disclosures J hash_name disclosures claims =
     bindR (index_disclosures J hash_name [] disclosures) (\<lambda>by_digest.
     bindR (unpack_root by_digest (JObj claims)) (\<lambda>(unpacked, st).
       if \<not> list_all (\<lambda>kv. fst kv \<in> set (us_used st)) by_digest then Inl SdJwtError
       else bindR (as_object SdJwtError unpacked) (\<lambda>d. Inr (dict_del (lit ''_sd_alg'') d, us_placed st))))"

definition placement_refused :: "bool \<Rightarrow> str option \<times> bool \<Rightarrow> bool" where
  "placement_refused vcdm p = (case fst p of None \<Rightarrow> False | Some n \<Rightarrow> disclosure_refused n vcdm)"

definition check_profile :: "str option \<Rightarrow> jobj \<Rightarrow> unit result" where
  "check_profile typ unpacked =
     (if typ \<noteq> Some ISSUER_TYP then
        (if \<not> declares_vcdm unpacked then Inl SdJwtError
         else if typ = None \<and> (has_key (lit ''vc'') unpacked \<or> has_key (lit ''vp'') unpacked) then Inl SdJwtError
         else if \<not> vcdm_conforms unpacked then Inl SdJwtError
         else Inr ())
      else if \<not> nonempty_str (jget (lit ''vct'') unpacked) then Inl ClaimsInvalid
      else Inr ())"

definition check_processed ::
    "jose \<Rightarrow> sd_suite \<Rightarrow> sd_policy \<Rightarrow> str \<Rightarrow> str option \<Rightarrow> bool \<Rightarrow> jobj \<Rightarrow> (str option \<times> bool) list \<Rightarrow> bool result" where
  "check_processed J suite pol iss typ expired unpacked placed =
     (let vcdm = declares_vcdm unpacked
      in if list_ex (placement_refused vcdm) placed then Inl SdJwtError
         else
     bindR (check_profile typ unpacked) (\<lambda>_.
     bindR (sd_check_temporal J suite unpacked (sp_temporal pol)) (\<lambda>expired'.
     bindR (check_jwt_audience unpacked (sp_audience pol) False) (\<lambda>_.
     bindR (if vcdm
            then bindR (check_validity_window (jo_ts J) (jo_clock J) unpacked [] PinNone (JInt (ss_leeway suite)) (sp_temporal pol))
                   (\<lambda>w. bindR (reconcile (AList.update (lit ''iss'') (JStr iss) unpacked) unpacked) (\<lambda>_. Inr w))
            else Inr False) (\<lambda>window.
       if (case sp_vct pol of None \<Rightarrow> False | Some t \<Rightarrow> jget (lit ''vct'') unpacked \<noteq> JStr t) then Inl ClaimsInvalid
       else
     bindR (check_aka_vcts unpacked) (\<lambda>_. Inr (window \<or> expired' \<or> expired)))))))"

text \<open>With a required binding the KB-JWT is judged before \<open>exp\<close>/\<open>nbf\<close>; otherwise after everything else.\<close>

definition sd_first_checks ::
    "jose \<Rightarrow> sd_suite \<Rightarrow> sd_policy \<Rightarrow> (str \<Rightarrow> bool \<Rightarrow> bool result) \<Rightarrow> jobj \<Rightarrow> jobj \<Rightarrow> (str \<times> str \<times> bool \<times> bool) result" where
  "sd_first_checks J suite pol binding header claims =
     (if sp_require_kb pol
      then bindR (iss_and_hash claims header) (\<lambda>(iss, hash_name).
           bindR (binding hash_name True) (\<lambda>bound.
           bindR (sd_check_temporal J suite claims (sp_temporal pol)) (\<lambda>expired. Inr (iss, hash_name, bound, expired))))
      else bindR (sd_check_temporal J suite claims (sp_temporal pol)) (\<lambda>expired.
           bindR (iss_and_hash claims header) (\<lambda>(iss, hash_name). Inr (iss, hash_name, False, expired))))"

definition sd_after_signature ::
    "jose \<Rightarrow> sd_suite \<Rightarrow> sd_policy \<Rightarrow> (str \<Rightarrow> bool \<Rightarrow> bool result) \<Rightarrow> str list \<Rightarrow> jobj \<Rightarrow> jobj \<Rightarrow> str option \<Rightarrow> verified_sd_jwt result" where
  "sd_after_signature J suite pol binding disclosures header claims typ =
     bindR (sd_first_checks J suite pol binding header claims) (\<lambda>(iss, hash_name, bound, expired).
     bindR (process_disclosures J hash_name disclosures claims) (\<lambda>(unpacked, placed).
     bindR (check_processed J suite pol iss typ expired unpacked placed) (\<lambda>expired'.
     bindR (if sp_require_kb pol then Inr bound else binding hash_name False) (\<lambda>key_bound.
       Inr \<lparr>sd_claims = unpacked, sd_issuer = iss, sd_vct = text_opt (jget (lit ''vct'') unpacked),
            sd_key_bound = key_bound, sd_confirmation = jget (lit ''cnf'') claims, sd_expired = expired',
            sd_vcdm = declares_vcdm unpacked, sd_typ = typ\<rparr>))))"

text \<open>\<open>time.time() if now is None else utc_epoch(now)\<close>\<close>

definition sd_current :: "jose \<Rightarrow> clock_pin \<Rightarrow> num result" where
  "sd_current J now =
     (if now = PinNone then Inr (jo_time J) else bindR (utc_epoch (jo_time J) SdJwtError now) (\<lambda>t. Inr (NInt t)))"

definition sd_verify ::
    "jose \<Rightarrow> sd_suite \<Rightarrow> str \<Rightarrow> jobj \<Rightarrow> sd_policy \<Rightarrow> verified_sd_jwt result" where
  "sd_verify J suite presentation public_key_jwk pol =
     bindR (non_negative_seconds SdJwtError (sp_kb_max_age pol)) (\<lambda>max_age.
     bindR (sd_current J (sp_now pol)) (\<lambda>current.
     bindR (sd_split presentation) (\<lambda>(issuer_jwt, disclosures, kb_jwt).
     bindR (verify_issuer_jwt J suite issuer_jwt public_key_jwk) (\<lambda>(header, claims, typ).
       sd_after_signature J suite pol
         (\<lambda>hash_name required.
            verify_key_binding J suite kb_jwt issuer_jwt disclosures (jget (lit ''cnf'') claims) hash_name
              (sp_audience pol) (sp_nonce pol) required current max_age)
         disclosures header claims typ))))"

section \<open>Lemmas: verification\<close>

text \<open>The parser returns Python dicts: no repeated key.\<close>

definition parser_dicts :: "jose \<Rightarrow> bool" where
  "parser_dicts J \<longleftrightarrow> (\<forall>b d. jo_loads J b = Inr (JObj d) \<longrightarrow> dict_ok d)"

lemma decode_jws_dict: "parser_dicts J \<Longrightarrow> decode_jws J t = Inr (h, c, si, sg) \<Longrightarrow> dict_ok c"
  unfolding decode_jws_def parse_compact_Inr compact_parts_Inr
  by (auto simp: bindR_Inr loads_Inr parser_dicts_def)

lemma sd_signature_Inr: "sd_check_signature J alg jwk si sg = Inr u \<longleftrightarrow> verify_signature (jo_crypto J) alg jwk si sg = Inr True"
  by (auto simp: sd_check_signature_def bindR_Inr)

lemma issuer_jwt_Inr:
  "verify_issuer_jwt J suite t jwk = Inr (header, claims, typ) \<Longrightarrow>
     \<exists>si sg alg. decode_jws J t = Inr (header, claims, si, sg) \<and> jget (lit ''alg'') header = JStr alg \<and> alg \<in> set (ss_algs suite) \<and>
       \<not> has_key (lit ''crit'') header \<and> issuer_typ header = Inr typ \<and> verify_signature (jo_crypto J) alg jwk si sg = Inr True"
  by (auto simp: verify_issuer_jwt_def bindR_Inr allowed_alg_Inr crit_Inr sd_signature_Inr)

lemma process_Inr:
  "process_disclosures J h ds claims = Inr (unpacked, placed) \<Longrightarrow>
     \<exists>D out st. index_disclosures J h [] ds = Inr D \<and> unpack_root D (JObj claims) = Inr (JObj out, st) \<and>
       unpacked = dict_del (lit ''_sd_alg'') out \<and> placed = us_placed st \<and> fst ` set D \<subseteq> set (us_used st)"
  by (auto simp: process_disclosures_def bindR_Inr as_object_Inr list_all_iff split: if_splits)

lemma processed_Inr:
  "check_processed J suite pol iss typ expired unpacked placed = Inr e \<Longrightarrow>
     \<not> list_ex (placement_refused (declares_vcdm unpacked)) placed \<and> check_profile typ unpacked = Inr () \<and>
     check_jwt_audience unpacked (sp_audience pol) False = Inr () \<and>
     (\<exists>e1. sd_check_temporal J suite unpacked (sp_temporal pol) = Inr e1) \<and>
     (sp_temporal pol \<longrightarrow> \<not> expired \<longrightarrow> \<not> e)"
proof -
  assume "check_processed J suite pol iss typ expired unpacked placed = Inr e"
  then obtain e1 w where k: "\<not> list_ex (placement_refused (declares_vcdm unpacked)) placed" "check_profile typ unpacked = Inr ()"
    "sd_check_temporal J suite unpacked (sp_temporal pol) = Inr e1"
    "check_jwt_audience unpacked (sp_audience pol) False = Inr ()"
    "(if declares_vcdm unpacked
      then bindR (check_validity_window (jo_ts J) (jo_clock J) unpacked [] PinNone (JInt (ss_leeway suite)) (sp_temporal pol))
             (\<lambda>w. bindR (reconcile (AList.update (lit ''iss'') (JStr iss) unpacked) unpacked) (\<lambda>_. Inr w))
      else Inr False) = Inr w" "e = (w \<or> e1 \<or> expired)"
    unfolding check_processed_def Let_def by (auto simp: bindR_Inr [of "if _ then _ else _"] bindR_Inr [of "check_profile _ _"]
        bindR_Inr [of "sd_check_temporal _ _ _ _"] bindR_Inr [of "check_jwt_audience _ _ _"] bindR_Inr [of "check_aka_vcts _"]
        split: if_split_asm)
  have t: "sp_temporal pol \<Longrightarrow> \<not> e1"
    using k(3) temporal_enforced by (auto simp: sd_check_temporal_def)
  have "sp_temporal pol \<Longrightarrow> \<not> w"
    using k(5) by (auto simp: bindR_Inr window_Inr split: if_splits)
  with t k show ?thesis by auto
qed

text \<open>The stages of an accepted verification.\<close>

lemma after_signature_Inr:
  assumes "sd_after_signature J suite pol binding ds header claims ty = Inr r"
  obtains iss h expired placed where
    "iss_and_hash claims header = Inr (iss, h)" "sd_check_temporal J suite claims (sp_temporal pol) = Inr expired"
    "process_disclosures J h ds claims = Inr (sd_claims r, placed)"
    "check_processed J suite pol iss ty expired (sd_claims r) placed = Inr (sd_expired r)"
    "binding h (sp_require_kb pol) = Inr (sd_key_bound r)"
    "sd_issuer r = iss" "sd_vct r = text_opt (jget (lit ''vct'') (sd_claims r))" "sd_vcdm r = declares_vcdm (sd_claims r)"
    "sd_confirmation r = jget (lit ''cnf'') claims" "sd_typ r = ty"
proof -
  obtain iss h bound expired placed where f: "sd_first_checks J suite pol binding header claims = Inr (iss, h, bound, expired)"
    and k: "process_disclosures J h ds claims = Inr (sd_claims r, placed)"
      "check_processed J suite pol iss ty expired (sd_claims r) placed = Inr (sd_expired r)"
      "(if sp_require_kb pol then Inr bound else binding h False) = Inr (sd_key_bound r)"
      "sd_issuer r = iss" "sd_vct r = text_opt (jget (lit ''vct'') (sd_claims r))" "sd_vcdm r = declares_vcdm (sd_claims r)"
      "sd_confirmation r = jget (lit ''cnf'') claims" "sd_typ r = ty"
    using assms by (auto simp: sd_after_signature_def bindR_Inr)
  have "iss_and_hash claims header = Inr (iss, h)" "sd_check_temporal J suite claims (sp_temporal pol) = Inr expired"
    "sp_require_kb pol \<Longrightarrow> binding h True = Inr bound"
    using f by (auto simp: sd_first_checks_def bindR_Inr split: if_splits)
  then show thesis using k by (intro that) (auto split: if_splits)
qed

lemma sd_verify_Inr:
  assumes "sd_verify J suite pres jwk pol = Inr r"
  obtains max_age current issuer_jwt ds kb header claims ty where
    "sd_split pres = Inr (issuer_jwt, ds, kb)" "verify_issuer_jwt J suite issuer_jwt jwk = Inr (header, claims, ty)"
    "sd_current J (sp_now pol) = Inr current" "non_negative_seconds SdJwtError (sp_kb_max_age pol) = Inr max_age"
    "sd_after_signature J suite pol
         (\<lambda>hash_name required.
            verify_key_binding J suite kb issuer_jwt ds (jget (lit ''cnf'') claims) hash_name
              (sp_audience pol) (sp_nonce pol) required current max_age)
         ds header claims ty = Inr r"
  using assms by (auto simp: sd_verify_def bindR_Inr)

lemma refused_placement:
  "\<not> list_ex (placement_refused vcdm) placed \<Longrightarrow> disclosure_refused key vcdm \<Longrightarrow> (Some key, b) \<notin> set placed"
  by (auto simp: list_ex_iff placement_refused_def split: option.splits)

lemma index_error_free:
  "index_disclosures J h acc ds = Inr D \<Longrightarrow> dict_ok acc \<Longrightarrow>
     dict_ok D \<and> length D = length acc + length ds \<and> fst ` set acc \<subseteq> fst ` set D \<and>
     (\<forall>d\<in>set ds. \<exists>g. disclosure_digest (jo_crypto J) d h = Inr g \<and> has_key g D)"
proof (induction ds arbitrary: acc)
  case (Cons d ds)
  then obtain parsed g where k: "parse_disclosure J d = Inr parsed" "disclosure_digest (jo_crypto J) d h = Inr g"
    "\<not> has_key g acc" "index_disclosures J h (AList.update g parsed acc) ds = Inr D"
    by (auto simp: bindR_Inr split: if_splits)
  have n: "AList.update g parsed acc = acc @ [(g, parsed)]" using update_new [OF k(3)] .
  have IH: "dict_ok D \<and> length D = length (acc @ [(g, parsed)]) + length ds \<and> fst ` set (acc @ [(g, parsed)]) \<subseteq> fst ` set D \<and>
     (\<forall>d\<in>set ds. \<exists>g. disclosure_digest (jo_crypto J) d h = Inr g \<and> has_key g D)"
    using Cons.IH [OF k(4)] dict_ok_update [OF Cons.prems(2), of g parsed] unfolding n by blast
  then have "has_key g D" by (auto simp: has_key_def)
  with IH k(2) show ?case by auto
qed simp

section \<open>Lemmas: key binding\<close>

lemma key_bound_Inr:
  assumes "verify_key_binding J suite kb ij ds cnf h audience nonce required current age = Inr True"
  obtains header claims si sg alg holder where
    "decode_jws J kb = Inr (header, claims, si, sg)" "jget (lit ''typ'') header = JStr KB_TYP"
    "jget (lit ''alg'') header = JStr alg" "alg \<in> set (ss_algs suite)" "cnf_jwk cnf = Inr holder"
    "verify_signature (jo_crypto J) alg holder si sg = Inr True"
    "audience \<noteq> JNull \<longrightarrow> jget (lit ''aud'') claims = audience" "nonce \<noteq> JNull \<longrightarrow> jget (lit ''nonce'') claims = nonce"
    "audience = JNull \<longleftrightarrow> nonce = JNull" "required \<longrightarrow> nonempty_str audience \<and> nonempty_str nonce"
    "is_numeric_date (jget (lit ''iat'') claims)"
    "isOk (check_iat_freshness (jget (lit ''iat'') claims) age (JInt (ss_leeway suite)) current)"
    "jget (lit ''sd_hash'') claims = JStr (b64url_encode (digest_of (jo_crypto J) h (ascii_bytes (presented_text ij ds))))"
proof -
  have p: "kb_policy audience nonce required kb = Inr True"
    and q: "\<exists>claims t. kb_claims J suite kb cnf = Inr claims \<and>
      check_iat_freshness (jget (lit ''iat'') claims) age (JInt (ss_leeway suite)) current = Inr t \<and>
      (audience \<noteq> JNull \<longrightarrow> jget (lit ''aud'') claims = audience) \<and> (nonce \<noteq> JNull \<longrightarrow> jget (lit ''nonce'') claims = nonce) \<and>
      jget (lit ''sd_hash'') claims = JStr (b64url_encode (digest_of (jo_crypto J) h (ascii_bytes (presented_text ij ds))))"
    using assms unfolding verify_key_binding_def Let_def by (auto simp: bindR_Inr split: if_splits)
  from q obtain claims t where c: "kb_claims J suite kb cnf = Inr claims"
    "check_iat_freshness (jget (lit ''iat'') claims) age (JInt (ss_leeway suite)) current = Inr t"
    "audience \<noteq> JNull \<longrightarrow> jget (lit ''aud'') claims = audience" "nonce \<noteq> JNull \<longrightarrow> jget (lit ''nonce'') claims = nonce"
    "jget (lit ''sd_hash'') claims = JStr (b64url_encode (digest_of (jo_crypto J) h (ascii_bytes (presented_text ij ds))))" by blast
  from c(1) obtain header si sg alg holder where k: "decode_jws J kb = Inr (header, claims, si, sg)"
    "jget (lit ''typ'') header = JStr KB_TYP" "jget (lit ''alg'') header = JStr alg" "alg \<in> set (ss_algs suite)"
    "cnf_jwk cnf = Inr holder" "verify_signature (jo_crypto J) alg holder si sg = Inr True"
    by (auto simp: kb_claims_def bindR_Inr allowed_alg_Inr sd_signature_Inr split: if_splits)
  have "audience = JNull \<longleftrightarrow> nonce = JNull" "required \<longrightarrow> nonempty_str audience \<and> nonempty_str nonce"
    using p by (auto simp: kb_policy_def split: if_splits)
  with k c show thesis using iat_freshness_required [OF c(2)] by (intro that [OF k]) auto
qed

section \<open>Lemmas: presentation\<close>

lemma split_presented:
  "126 \<notin> set ij \<Longrightarrow> \<forall>d\<in>set ds. 126 \<notin> set d \<Longrightarrow> 126 \<notin> set kb \<Longrightarrow>
     split_on 126 (presented_text ij ds @ kb) = ij # ds @ [kb]"
proof -
  assume a: "126 \<notin> set ij" "\<forall>d\<in>set ds. 126 \<notin> set d" "126 \<notin> set kb"
  have "split_on 126 (concat (map (\<lambda>d. d @ [126]) ds) @ kb) = ds @ [kb]"
    using a(2,3) by (induction ds) (auto simp: split_on_append_sep split_on_noSep)
  with a(1) show ?thesis by (simp add: presented_text_def split_on_append_sep)
qed

lemma sd_split_Inr:
  assumes "sd_split t = Inr (ij, ds, kb)"
  shows "126 \<notin> set ij" "\<forall>d\<in>set ds. 126 \<notin> set d \<and> d \<noteq> []" "126 \<notin> set kb"
proof -
  let ?p = "split_on 126 t"
  have k: "2 \<le> length ?p" "ij = hd ?p" "ds = filter (\<lambda>p. p \<noteq> []) (butlast (tl ?p))" "kb = last ?p"
    using assms by (auto simp: sd_split_def Let_def split: if_splits)
  have "ij \<in> set ?p" "kb \<in> set ?p" using k by auto
  moreover have "set (butlast (tl ?p)) \<subseteq> set ?p" by (metis in_set_butlastD list.set_sel(2) split_on_nonempty subsetI)
  then have "\<forall>d\<in>set ds. d \<in> set ?p" using k(3) by auto
  ultimately show "126 \<notin> set ij" "\<forall>d\<in>set ds. 126 \<notin> set d \<and> d \<noteq> []" "126 \<notin> set kb"
    using split_on_no_sep_in_parts [of _ "126::nat" t] k(3) by auto
qed

lemma sd_split_presented:
  assumes "sd_split t = Inr (ij, ds, kb0)" "126 \<notin> set kb"
  shows "sd_split (presented_text ij ds @ kb) = Inr (ij, ds, kb)"
proof -
  have "split_on 126 (presented_text ij ds @ kb) = ij # ds @ [kb]"
    using sd_split_Inr [OF assms(1)] assms(2) by (intro split_presented) auto
  moreover have "filter (\<lambda>p. p \<noteq> []) ds = ds" using sd_split_Inr(2) [OF assms(1)] by (simp add: filter_id_conv)
  ultimately show ?thesis by (simp add: sd_split_def)
qed

lemma assembled_no_tilde: "assemble_compact J h p key = Inr t \<Longrightarrow> 126 \<notin> set t \<and> t \<noteq> []"
  by (auto simp: assemble_compact_def Let_def bindR_Inr json_segment_def)

definition kb_header :: "signing_key \<Rightarrow> jobj" where
  "kb_header key = [(lit ''typ'', JStr KB_TYP), (lit ''alg'', JStr (sk_alg key))]"

definition kb_payload :: "int \<Rightarrow> str \<Rightarrow> str \<Rightarrow> str \<Rightarrow> jobj" where
  "kb_payload t audience nonce sd_hash =
     [(lit ''iat'', JInt t), (lit ''aud'', JStr audience), (lit ''nonce'', JStr nonce), (lit ''sd_hash'', JStr sd_hash)]"

lemma kb_dates:
  assumes "0 \<le> ss_leeway suite" "ss_leeway suite \<le> MAX_LEEWAY_S" "0 \<le> max_age" "\<bar>t\<bar> \<le> 2 ^ 53"
  shows "check_iat_freshness (jget (lit ''iat'') (kb_payload t a n sdh)) max_age (JInt (ss_leeway suite)) (NInt t) = Inr t"
    "check_numeric_dates (kb_payload t a n sdh) [lit ''exp'', lit ''nbf''] = Inr ()"
    "check_jwt_temporal (NInt t) (kb_payload t a n sdh) (JInt (ss_leeway suite)) True = Inr False"
proof -
  have d: "is_numeric_date (JInt t)" using assms(4) by (rule numeric_date_int)
  show "check_iat_freshness (jget (lit ''iat'') (kb_payload t a n sdh)) max_age (JInt (ss_leeway suite)) (NInt t) = Inr t"
    using assms d by (auto simp: check_iat_freshness_def leeway_seconds_def kb_payload_def jget_def num_lt_def
        simp del: is_numeric_date.simps)
  show "check_numeric_dates (kb_payload t a n sdh) [lit ''exp'', lit ''nbf''] = Inr ()"
    by (simp add: check_numeric_dates_def kb_payload_def has_key_def)
  show "check_jwt_temporal (NInt t) (kb_payload t a n sdh) (JInt (ss_leeway suite)) True = Inr False"
    using assms d by (auto simp: check_jwt_temporal_def leeway_seconds_def check_numeric_dates_def past_by_def ahead_by_def
        kb_payload_def has_key_def jget_def num_lt_def simp del: is_numeric_date.simps)
qed

lemma presentation_bound:
  assumes "create_presentation J suite sd_jwt key audience nonce = Inr pres" "sd_split sd_jwt = Inr (ij, ds, kb0)"
    "backend_ok (jo_crypto J)" "signing_key_from_jwk (jo_crypto J) jwk kid = Inr key" "sk_public_jwk key = Inr pub"
    "jo_time J = NInt t" "\<bar>t\<bar> \<le> 2 ^ 53" "0 \<le> ss_leeway suite" "ss_leeway suite \<le> MAX_LEEWAY_S" "0 \<le> max_age"
    "audience \<noteq> []" "nonce \<noteq> []" "json_faithful J (JObj (kb_header key))"
    "json_faithful J (JObj (kb_payload t audience nonce (b64url_encode (digest_of (jo_crypto J) (ss_hash suite)
        (ascii_bytes (presented_text ij ds))))))"
  shows "\<exists>kb. sd_split pres = Inr (ij, ds, kb) \<and>
     verify_key_binding J suite kb ij ds (JObj [(lit ''jwk'', JObj pub)]) h (JStr audience) (JStr nonce) True (NInt t) max_age =
       (if digest_of (jo_crypto J) h (ascii_bytes (presented_text ij ds)) =
           digest_of (jo_crypto J) (ss_hash suite) (ascii_bytes (presented_text ij ds))
        then Inr True else Inl ClaimsInvalid)"
proof -
  let ?pt = "presented_text ij ds"
  let ?sdh = "b64url_encode (digest_of (jo_crypto J) (ss_hash suite) (ascii_bytes ?pt))"
  let ?p = "kb_payload t audience nonce ?sdh"
  have al: "sk_alg key \<in> set (ss_algs suite)" "is_ascii ?pt"
    using assms(1,2) by (auto simp: create_presentation_def Let_def split: if_splits)
  obtain kb where kb: "assemble_compact J (kb_header key) ?p key = Inr kb" "pres = ?pt @ kb"
    using assms(1,2,6) al by (auto simp: create_presentation_def Let_def bindR_Inr kb_header_def kb_payload_def)
  have sp: "sd_split pres = Inr (ij, ds, kb)"
    using sd_split_presented [OF assms(2)] assembled_no_tilde [OF kb(1)] kb(2) by blast
  have dep: "depth (JObj (kb_header key)) \<le> MAX_DEPTH" "depth (JObj ?p) \<le> MAX_DEPTH"
    by (simp_all add: kb_header_def kb_payload_def MAX_DEPTH_def)
  obtain sg where s: "sk_sign key (ascii_bytes (json_segment J (kb_header key) @ [46] @ json_segment J ?p)) = Inr sg"
    "parse_compact J kb = Inr (kb_header key, ?p, ascii_bytes (json_segment J (kb_header key) @ [46] @ json_segment J ?p), sg)"
    using parse_assembled [OF assms(13,14) dep kb(1)] by blast
  have v: "verify_signature (jo_crypto J) (sk_alg key) pub (ascii_bytes (json_segment J (kb_header key) @ [46] @ json_segment J ?p)) sg = Inr True"
    using key_roundtrip [OF assms(3,4) s(1)] assms(5) by auto
  have c: "kb_claims J suite kb (JObj [(lit ''jwk'', JObj pub)]) = Inr ?p"
    using s(2) v al(1)
    by (simp add: kb_claims_def decode_jws_def kb_header_def jget_def allowed_alg_def reject_unknown_crit_def has_key_def cnf_jwk_def
        as_object_def sd_check_signature_def)
  have pol: "kb_policy (JStr audience) (JStr nonce) True kb = Inr True"
    using assembled_no_tilde [OF kb(1)] assms(11,12) by (simp add: kb_policy_def nonempty_str_def)
  have eq: "b64url_encode a = b64url_encode b \<longleftrightarrow> a = b" for a b using b64url_encode_inj by blast
  have "verify_key_binding J suite kb ij ds (JObj [(lit ''jwk'', JObj pub)]) h (JStr audience) (JStr nonce) True (NInt t) max_age =
       (if digest_of (jo_crypto J) h (ascii_bytes ?pt) = digest_of (jo_crypto J) (ss_hash suite) (ascii_bytes ?pt)
        then Inr True else Inl ClaimsInvalid)"
    using kb_dates [OF assms(8,9,10,7)] al(2)
    by (simp add: verify_key_binding_def pol c) (simp add: kb_payload_def jget_def eq)
  with sp show ?thesis by blast
qed

section \<open>An example\<close>

text \<open>
  An issuer JWT without disclosures, bound to the example key, and the presentation its holder makes. The parser and printer
  know the four JSON objects involved.
\<close>

definition ex_suite :: sd_suite where
  "ex_suite = \<lparr>ss_leeway = 60, ss_hash = DEFAULT_HASH, ss_algs = ALLOWED_ALGS\<rparr>"

definition ex_pub :: jobj where "ex_pub = okp_jwk (replicate 32 7)"

definition ex_header :: jobj where
  "ex_header = [(lit ''typ'', JStr ISSUER_TYP), (lit ''alg'', JStr (lit ''EdDSA''))]"

definition ex_claims :: jobj where
  "ex_claims = [(lit ''iss'', JStr (lit ''i'')), (lit ''vct'', JStr (lit ''v'')), (lit ''cnf'', JObj [(lit ''jwk'', JObj ex_pub)])]"

definition ex_issuer_jwt :: str where
  "ex_issuer_jwt = (let t = b64url_encode [1] @ [46] @ b64url_encode [2] in t @ [46] @ b64url_encode (ascii_bytes t))"

definition ex_kb_header :: jobj where
  "ex_kb_header = [(lit ''typ'', JStr KB_TYP), (lit ''alg'', JStr (lit ''EdDSA''))]"

definition ex_kb :: jobj where
  "ex_kb = kb_payload 1000 (lit ''a'') (lit ''n'')
     (b64url_encode (digest_of toy_crypto DEFAULT_HASH (ascii_bytes (presented_text ex_issuer_jwt []))))"

definition ex_jose :: jose where
  "ex_jose = toy_jose
     \<lparr>jo_loads := \<lambda>b. if b = [1] then Inr (JObj ex_header) else if b = [2] then Inr (JObj ex_claims)
                      else if b = [3] then Inr (JObj ex_kb_header) else if b = [4] then Inr (JObj ex_kb) else Inl PyValueError,
      jo_dumps := \<lambda>v. if v = JObj ex_header then [1] else if v = JObj ex_claims then [2]
                      else if v = JObj ex_kb_header then [3] else [4]\<rparr>"

definition ex_policy :: sd_policy where
  "ex_policy = \<lparr>sp_audience = JStr (lit ''a''), sp_nonce = JStr (lit ''n''), sp_require_kb = True, sp_vct = Some (lit ''v''),
     sp_temporal = True, sp_kb_max_age = JInt 300, sp_now = PinNone\<rparr>"

lemma ex_distinct:
  "ex_kb_header \<noteq> ex_header" "ex_kb_header \<noteq> ex_claims" "ex_kb \<noteq> ex_header" "ex_kb \<noteq> ex_claims" "ex_kb \<noteq> ex_kb_header"
  by (simp_all add: ex_kb_header_def ex_header_def ex_claims_def ex_kb_def kb_payload_def KB_TYP_def ISSUER_TYP_def)

lemma ex_fields [simp]:
  "jo_crypto ex_jose = toy_crypto" "jo_time ex_jose = NInt 1000" "jo_clock ex_jose = 1000000000" "jo_ts ex_jose = (\<lambda>v. None)"
  "ss_leeway ex_suite = 60" "ss_hash ex_suite = DEFAULT_HASH" "ss_algs ex_suite = ALLOWED_ALGS"
  by (simp_all add: ex_jose_def toy_jose_def ex_suite_def)

lemma ex_faithful: "json_faithful ex_jose (JObj ex_kb_header)" "json_faithful ex_jose (JObj ex_kb)"
  using ex_distinct by (simp_all add: json_faithful_def ex_jose_def)

lemma ex_dicts: "parser_dicts ex_jose"
  by (auto simp: parser_dicts_def ex_jose_def ex_header_def ex_claims_def ex_kb_header_def ex_kb_def kb_payload_def dict_ok_def
      split: if_splits)

lemma ex_holder:
  "\<exists>key. signing_key_from_jwk toy_crypto toy_jwk (lit ''k'') = Inr key \<and> sk_alg key = lit ''EdDSA'' \<and>
     sk_public_jwk key = Inr ex_pub \<and> (\<forall>m. sk_sign key m = Inr m)"
  unfolding toy_jwk_def ed_private_witness ex_pub_def by (simp add: ed25519_key_def ED25519_ALG_NAMES_def) (simp add: toy_crypto_def)

lemma ex_issuer_chars: "126 \<notin> set ex_issuer_jwt" "is_ascii ex_issuer_jwt"
  using b64url_encode_ascii by (auto simp: ex_issuer_jwt_def Let_def is_ascii_def list_all_iff)

lemma ex_split: "sd_split (presented_text ex_issuer_jwt []) = Inr (ex_issuer_jwt, [], [])"
  using split_presented [of ex_issuer_jwt "[]" "[]"] ex_issuer_chars by (simp add: sd_split_def)

lemma ex_ascii: "is_ascii (presented_text ex_issuer_jwt [])"
  using ex_issuer_chars by (simp add: presented_text_def is_ascii_def)

lemma ex_presentation:
  assumes "signing_key_from_jwk toy_crypto toy_jwk (lit ''k'') = Inr key" "sk_alg key = lit ''EdDSA''" "\<forall>m. sk_sign key m = Inr m"
  shows "\<exists>pres. create_presentation ex_jose ex_suite (presented_text ex_issuer_jwt []) key (lit ''a'') (lit ''n'') = Inr pres"
    "kb_header key = ex_kb_header"
  using assms ex_ascii
  by (auto simp: create_presentation_def ex_split ALLOWED_ALGS_def assemble_compact_def kb_header_def ex_kb_header_def Let_def)

lemma ex_decode:
  "decode_jws ex_jose ex_issuer_jwt =
     Inr (ex_header, ex_claims, ascii_bytes (b64url_encode [1] @ [46] @ b64url_encode [2]),
          ascii_bytes (b64url_encode [1] @ [46] @ b64url_encode [2]))"
proof -
  have "bindR (b64url_decode (b64url_encode [1])) (loads (jo_loads ex_jose)) = Inr (JObj ex_header)"
    "bindR (b64url_decode (b64url_encode [2])) (loads (jo_loads ex_jose)) = Inr (JObj ex_claims)"
    by (simp_all add: loads_Inr ex_jose_def ex_header_def ex_claims_def ex_pub_def okp_jwk_def MAX_DEPTH_def)
  then show ?thesis
    unfolding decode_jws_def parse_compact_Inr compact_parts_Inr ex_issuer_jwt_def Let_def
    by (intro exI [of _ "b64url_encode [1]"] exI [of _ "b64url_encode [2]"]
        exI [of _ "b64url_encode (ascii_bytes (b64url_encode [1] @ [46] @ b64url_encode [2]))"]) simp
qed

lemma ex_issuer_verified: "verify_issuer_jwt ex_jose ex_suite ex_issuer_jwt ex_pub = Inr (ex_header, ex_claims, Some ISSUER_TYP)"
proof -
  have "verify_signature toy_crypto (lit ''EdDSA'') ex_pub m m = Inr True" for m
    by (simp add: verify_signature_def ED25519_ALG_NAMES_def ex_pub_def okp_jwk_def jwk_bytes_simps toy_crypto_def)
  then show ?thesis
    by (simp add: verify_issuer_jwt_def ex_decode ex_header_def jget_def allowed_alg_def ALLOWED_ALGS_def issuer_typ_def has_key_def
        ACCEPTED_ISSUER_TYP_def reject_unknown_crit_def sd_check_signature_def)
qed

lemma ex_processed: "process_disclosures ex_jose DEFAULT_HASH [] ex_claims = Inr (ex_claims, [])"
proof -
  have L: "SD_MAX_DEPTH + 1 = Suc (Suc (Suc (Suc 97)))" by (simp add: SD_MAX_DEPTH_def)
  have "unpack [] (Suc (Suc (Suc (Suc n)))) None (JObj ex_claims) empty_state = Inr (JObj ex_claims, empty_state)" for n
    by (simp add: ex_claims_def ex_pub_def okp_jwk_def top_claim_def jget_def sd_digests_def)
  then have "unpack_root [] (JObj ex_claims) = Inr (JObj ex_claims, empty_state)" unfolding unpack_root_def L by blast
  then show ?thesis
    by (simp add: process_disclosures_def as_object_def empty_state_def ex_claims_def)
qed

lemma ex_verified_vct:
  assumes "vct = None \<or> vct = Some (lit ''v'')"
  shows "\<exists>pres r kb. sd_verify ex_jose ex_suite pres ex_pub (ex_policy\<lparr>sp_vct := vct\<rparr>) = Inr r \<and> sd_key_bound r \<and> sd_claims r = ex_claims \<and>
     sd_typ r = Some ISSUER_TYP \<and> \<not> sd_vcdm r \<and> sd_issuer r = lit ''i'' \<and> pres = presented_text ex_issuer_jwt [] @ kb"
proof -
  obtain key where k: "signing_key_from_jwk toy_crypto toy_jwk (lit ''k'') = Inr key" "sk_alg key = lit ''EdDSA''"
    "sk_public_jwk key = Inr ex_pub" "\<forall>m. sk_sign key m = Inr m"
    using ex_holder by blast
  obtain pres where p: "create_presentation ex_jose ex_suite (presented_text ex_issuer_jwt []) key (lit ''a'') (lit ''n'') = Inr pres"
    using ex_presentation(1) [OF k(1,2,4)] by blast
  obtain kb where b: "sd_split pres = Inr (ex_issuer_jwt, [], kb)"
    "verify_key_binding ex_jose ex_suite kb ex_issuer_jwt [] (JObj [(lit ''jwk'', JObj ex_pub)]) DEFAULT_HASH (JStr (lit ''a''))
       (JStr (lit ''n'')) True (NInt 1000) 300 = Inr True"
    using presentation_bound [OF p ex_split, of toy_jwk "lit ''k''" ex_pub 1000 300 DEFAULT_HASH] k(1,3) ex_faithful
      ex_presentation(2) [OF k(1,2,4)] toy_ok
    by (auto simp: MAX_LEEWAY_S_def lit_def ex_kb_def)
  have cnf: "jget (lit ''cnf'') ex_claims = JObj [(lit ''jwk'', JObj ex_pub)]" by (simp add: ex_claims_def jget_def)
  have t: "sd_check_temporal ex_jose ex_suite ex_claims True = Inr False"
    by (simp add: sd_check_temporal_def check_jwt_temporal_def leeway_seconds_def MAX_LEEWAY_S_def check_numeric_dates_def
        past_by_def ahead_by_def ex_claims_def has_key_def jget_def)
  have i: "iss_and_hash ex_claims ex_header = Inr (lit ''i'', DEFAULT_HASH)"
    by (simp add: iss_and_hash_def issuer_from_body_def may_use_vcdm_issuer_def ex_claims_def has_key_def jget_def)
  have c: "check_processed ex_jose ex_suite (ex_policy\<lparr>sp_vct := vct\<rparr>) iss (Some ISSUER_TYP) False ex_claims [] = Inr False" for iss
    using t assms by (auto simp: check_processed_def ex_policy_def check_profile_def nonempty_str_def check_jwt_audience_def
        declares_vcdm_def is_context_def check_aka_vcts_def) (auto simp: ex_claims_def jget_def has_key_def lit_def is_context_def)
  have "\<not> declares_vcdm ex_claims" by (simp add: declares_vcdm_def ex_claims_def jget_def has_key_def is_context_def)
  then have "\<exists>r. sd_verify ex_jose ex_suite pres ex_pub (ex_policy\<lparr>sp_vct := vct\<rparr>) = Inr r \<and> sd_key_bound r \<and> sd_claims r = ex_claims \<and>
      sd_typ r = Some ISSUER_TYP \<and> \<not> sd_vcdm r \<and> sd_issuer r = lit ''i''"
    using b cnf t i c ex_processed
    by (simp add: sd_verify_def ex_issuer_verified sd_after_signature_def sd_first_checks_def)
      (simp add: ex_policy_def non_negative_seconds_def sd_current_def)
  moreover obtain kb' where "pres = presented_text ex_issuer_jwt [] @ kb'"
    using p by (auto simp: create_presentation_def ex_split bindR_Inr Let_def split: if_split_asm)
  ultimately show ?thesis by blast
qed

lemma ex_verified: "\<exists>pres r. sd_verify ex_jose ex_suite pres ex_pub ex_policy = Inr r \<and> sd_key_bound r"
proof -
  have "ex_policy\<lparr>sp_vct := Some (lit ''v'')\<rparr> = ex_policy" by (simp add: ex_policy_def)
  then show ?thesis using ex_verified_vct [of "Some (lit ''v'')"] by auto
qed

text \<open>The presentation ends in a KB-JWT for this audience and nonce, signed by the key the issuer bound to the holder.\<close>

definition kb_presents :: "jose \<Rightarrow> str \<Rightarrow> str \<Rightarrow> str \<Rightarrow> bool" where
  "kb_presents J pres audience nonce \<longleftrightarrow>
     (\<exists>suite jwk issuer_jwt ds kb header issued ty holder kbh claims si sg alg.
        sd_split pres = Inr (issuer_jwt, ds, kb) \<and> verify_issuer_jwt J suite issuer_jwt jwk = Inr (header, issued, ty) \<and>
        cnf_jwk (jget (lit ''cnf'') issued) = Inr holder \<and> decode_jws J kb = Inr (kbh, claims, si, sg) \<and>
        jget (lit ''alg'') kbh = JStr alg \<and> verify_signature (jo_crypto J) alg holder si sg = Inr True \<and>
        jget (lit ''aud'') claims = JStr audience \<and> jget (lit ''nonce'') claims = JStr nonce)"

lemma sd_binding_Inr:
  assumes "sd_verify J suite pres jwk pol = Inr r"
  obtains max_age current issuer_jwt ds kb header issued ty h where
    "sd_split pres = Inr (issuer_jwt, ds, kb)" "verify_issuer_jwt J suite issuer_jwt jwk = Inr (header, issued, ty)"
    "sd_current J (sp_now pol) = Inr current" "non_negative_seconds SdJwtError (sp_kb_max_age pol) = Inr max_age"
    "verify_key_binding J suite kb issuer_jwt ds (jget (lit ''cnf'') issued) h (sp_audience pol) (sp_nonce pol)
       (sp_require_kb pol) current max_age = Inr (sd_key_bound r)"
  by (rule sd_verify_Inr [OF assms], erule after_signature_Inr) (rule that)

lemma required_key_binding:
  assumes "sd_verify J suite pres jwk pol = Inr r" "sp_require_kb pol"
  shows "sd_key_bound r"
proof -
  obtain kb ij ds c h current max_age where "verify_key_binding J suite kb ij ds c h (sp_audience pol) (sp_nonce pol) (sp_require_kb pol) current max_age =
      Inr (sd_key_bound r)"
    by (rule sd_binding_Inr [OF assms(1)])
  then show ?thesis
    using assms(2) by (auto simp: verify_key_binding_def kb_policy_def bindR_Inr Let_def split: if_split_asm)
qed

lemma key_bound_presents:
  assumes "sd_verify J suite pres jwk pol = Inr r" "sd_key_bound r" "sp_audience pol = JStr a" "sp_nonce pol = JStr n"
  shows "kb_presents J pres a n"
proof -
  obtain max_age current issuer_jwt ds kb header issued ty h where a:
    "sd_split pres = Inr (issuer_jwt, ds, kb)" "verify_issuer_jwt J suite issuer_jwt jwk = Inr (header, issued, ty)"
    "verify_key_binding J suite kb issuer_jwt ds (jget (lit ''cnf'') issued) h (JStr a) (JStr n)
       (sp_require_kb pol) current max_age = Inr True"
    using assms(2-) by (rule_tac sd_binding_Inr [OF assms(1)]) simp
  obtain kbh claims si sg alg holder where k: "decode_jws J kb = Inr (kbh, claims, si, sg)"
    "jget (lit ''alg'') kbh = JStr alg" "cnf_jwk (jget (lit ''cnf'') issued) = Inr holder"
    "verify_signature (jo_crypto J) alg holder si sg = Inr True"
    "jget (lit ''aud'') claims = JStr a" "jget (lit ''nonce'') claims = JStr n"
    by (rule key_bound_Inr [OF a(3)]) simp
  show ?thesis unfolding kb_presents_def by (intro exI conjI) (rule a k)+
qed

section \<open>Properties\<close>



text \<open>(C14) What a verified key binding proves: the KB-JWT has its own type, is signed with an allowed algorithm by the key the
  issuer put in \<open>cnf\<close>, carries exactly the audience and nonce the verifier gave (both or neither; non-empty when required),
  a numeric \<open>iat\<close> within the window, and the hash of the issuer JWT and disclosures as they were presented.\<close>

theorem key_binding_proves:
  assumes "sd_verify J suite pres jwk pol = Inr r" "sd_key_bound r"
  shows "\<exists>issuer_jwt ds kb header issued ty claims si sg alg holder kbh h current max_age.
     sd_split pres = Inr (issuer_jwt, ds, kb) \<and> verify_issuer_jwt J suite issuer_jwt jwk = Inr (header, issued, ty) \<and>
     cnf_jwk (jget (lit ''cnf'') issued) = Inr holder \<and>
     decode_jws J kb = Inr (kbh, claims, si, sg) \<and> jget (lit ''typ'') kbh = JStr KB_TYP \<and>
     jget (lit ''alg'') kbh = JStr alg \<and> alg \<in> set (ss_algs suite) \<and>
     verify_signature (jo_crypto J) alg holder si sg = Inr True \<and>
     (sp_audience pol \<noteq> JNull \<longrightarrow> jget (lit ''aud'') claims = sp_audience pol \<and> jget (lit ''nonce'') claims = sp_nonce pol) \<and>
     (sp_require_kb pol \<longrightarrow> nonempty_str (sp_audience pol) \<and> nonempty_str (sp_nonce pol)) \<and>
     sd_current J (sp_now pol) = Inr current \<and> non_negative_seconds SdJwtError (sp_kb_max_age pol) = Inr max_age \<and>
     is_numeric_date (jget (lit ''iat'') claims) \<and>
     isOk (check_iat_freshness (jget (lit ''iat'') claims) max_age (JInt (ss_leeway suite)) current) \<and>
     jget (lit ''sd_hash'') claims = JStr (b64url_encode (digest_of (jo_crypto J) h (ascii_bytes (presented_text issuer_jwt ds))))"
proof -
  obtain max_age current issuer_jwt ds kb header issued ty where a:
    "sd_split pres = Inr (issuer_jwt, ds, kb)" "verify_issuer_jwt J suite issuer_jwt jwk = Inr (header, issued, ty)"
    "sd_current J (sp_now pol) = Inr current" "non_negative_seconds SdJwtError (sp_kb_max_age pol) = Inr max_age"
    "sd_after_signature J suite pol
         (\<lambda>hash_name required.
            verify_key_binding J suite kb issuer_jwt ds (jget (lit ''cnf'') issued) hash_name
              (sp_audience pol) (sp_nonce pol) required current max_age)
         ds header issued ty = Inr r"
    using sd_verify_Inr [OF assms(1)] by metis
  obtain h where "verify_key_binding J suite kb issuer_jwt ds (jget (lit ''cnf'') issued) h (sp_audience pol) (sp_nonce pol)
       (sp_require_kb pol) current max_age = Inr (sd_key_bound r)"
    using after_signature_Inr [OF a(5)] by metis
  then have b: "verify_key_binding J suite kb issuer_jwt ds (jget (lit ''cnf'') issued) h (sp_audience pol) (sp_nonce pol)
       (sp_require_kb pol) current max_age = Inr True" using assms(2) by simp
  obtain kbh claims si sg alg holder where k: "decode_jws J kb = Inr (kbh, claims, si, sg)" "jget (lit ''typ'') kbh = JStr KB_TYP"
    "jget (lit ''alg'') kbh = JStr alg" "alg \<in> set (ss_algs suite)" "cnf_jwk (jget (lit ''cnf'') issued) = Inr holder"
    "verify_signature (jo_crypto J) alg holder si sg = Inr True"
    "sp_audience pol \<noteq> JNull \<longrightarrow> jget (lit ''aud'') claims = sp_audience pol" "sp_nonce pol \<noteq> JNull \<longrightarrow> jget (lit ''nonce'') claims = sp_nonce pol"
    "sp_audience pol = JNull \<longleftrightarrow> sp_nonce pol = JNull" "sp_require_kb pol \<longrightarrow> nonempty_str (sp_audience pol) \<and> nonempty_str (sp_nonce pol)"
    "is_numeric_date (jget (lit ''iat'') claims)"
    "isOk (check_iat_freshness (jget (lit ''iat'') claims) max_age (JInt (ss_leeway suite)) current)"
    "jget (lit ''sd_hash'') claims = JStr (b64url_encode (digest_of (jo_crypto J) h (ascii_bytes (presented_text issuer_jwt ds))))"
    using key_bound_Inr [OF b] by metis
  show ?thesis
    by (intro exI conjI) (rule a k | (use k in blast))+
qed

theorem key_binding_proves_witness:
  "\<exists>pres r ij ds kb kbh claims si sg. sd_verify ex_jose ex_suite pres ex_pub ex_policy = Inr r \<and>
     sd_split pres = Inr (ij, ds, kb) \<and> decode_jws ex_jose kb = Inr (kbh, claims, si, sg) \<and>
     jget (lit ''aud'') claims = JStr (lit ''a'') \<and> jget (lit ''nonce'') claims = JStr (lit ''n'')"
proof -
  obtain pres r where v: "sd_verify ex_jose ex_suite pres ex_pub ex_policy = Inr r" "sd_key_bound r" using ex_verified by blast
  have "sp_audience ex_policy = JStr (lit ''a'')" "sp_nonce ex_policy = JStr (lit ''n'')" by (simp_all add: ex_policy_def)
  with key_binding_proves [OF v] v(1) show ?thesis by (metis json.distinct(7))
qed

text \<open>(C32) Holder to verifier: a presentation made with a loaded holder key splits into the same issuer JWT and disclosures, and
  its KB-JWT is accepted for the same audience and nonce by a verifier that knows the holder's public key from \<open>cnf\<close>, when
  the hash named by the issuer JWT gives the same digest as the holder suite's own hash; with another digest it is refused.
  The holder side never reads the issuer JWT's \<open>_sd_alg\<close>.\<close>

theorem presentation_binding:
  assumes "create_presentation J suite sd_jwt key audience nonce = Inr pres" "sd_split sd_jwt = Inr (ij, ds, kb0)"
    "backend_ok (jo_crypto J)" "signing_key_from_jwk (jo_crypto J) jwk kid = Inr key" "sk_public_jwk key = Inr pub"
    "jo_time J = NInt t" "\<bar>t\<bar> \<le> 2 ^ 53" "0 \<le> ss_leeway suite" "ss_leeway suite \<le> MAX_LEEWAY_S" "0 \<le> max_age"
    "audience \<noteq> []" "nonce \<noteq> []" "json_faithful J (JObj (kb_header key))"
    "json_faithful J (JObj (kb_payload t audience nonce (b64url_encode (digest_of (jo_crypto J) (ss_hash suite)
        (ascii_bytes (presented_text ij ds))))))"
  shows "\<exists>kb. sd_split pres = Inr (ij, ds, kb) \<and>
     verify_key_binding J suite kb ij ds (JObj [(lit ''jwk'', JObj pub)]) h (JStr audience) (JStr nonce) True (NInt t) max_age =
       (if digest_of (jo_crypto J) h (ascii_bytes (presented_text ij ds)) =
           digest_of (jo_crypto J) (ss_hash suite) (ascii_bytes (presented_text ij ds))
        then Inr True else Inl ClaimsInvalid)"
  by (rule presentation_bound [OF assms])

theorem presentation_binding_witness:
  "\<exists>key pres kb. create_presentation ex_jose ex_suite (presented_text ex_issuer_jwt []) key (lit ''a'') (lit ''n'') = Inr pres \<and>
     sd_split pres = Inr (ex_issuer_jwt, [], kb) \<and>
     verify_key_binding ex_jose ex_suite kb ex_issuer_jwt [] (JObj [(lit ''jwk'', JObj ex_pub)]) DEFAULT_HASH (JStr (lit ''a''))
       (JStr (lit ''n'')) True (NInt 1000) 300 = Inr True"
proof -
  obtain key where k: "signing_key_from_jwk toy_crypto toy_jwk (lit ''k'') = Inr key" "sk_alg key = lit ''EdDSA''"
    "sk_public_jwk key = Inr ex_pub" "\<forall>m. sk_sign key m = Inr m"
    using ex_holder by blast
  obtain pres where p: "create_presentation ex_jose ex_suite (presented_text ex_issuer_jwt []) key (lit ''a'') (lit ''n'') = Inr pres"
    using ex_presentation(1) [OF k(1,2,4)] by blast
  show ?thesis
    using presentation_binding [OF p ex_split, of toy_jwk "lit ''k''" ex_pub 1000 300 DEFAULT_HASH] k(1,3) ex_faithful
      ex_presentation(2) [OF k(1,2,4)] toy_ok p
    by (auto simp: MAX_LEEWAY_S_def lit_def ex_kb_def)
qed

end
