(* ===== verification/Cred_Schema.thy ===== *)
theory Cred_Schema
  imports Vc_Jwt
begin

text \<open>
  openvc/schema.py: parsing \<open>credentialSchema\<close>, the \<open>digestSRI\<close> pin over the fetched bytes, the schema wrapped in its own
  credential, and the validation loop. The \<open>jsonschema\<close> processor is a parameter, \<open>js\<close>, which says how a run on a schema and
  an instance ends; the schema fetch and the verifier of an inner credential are arguments, as in the source.
\<close>

section \<open>Standard base64 and words\<close>

text \<open>\<open>base64.b64decode(text)\<close>: as \<open>urlsafe_b64decode\<close>, but \<open>-\<close> and \<open>_\<close> are outside the alphabet and skipped.\<close>

definition b64decode :: "str \<Rightarrow> bytes result" where
  "b64decode s = urlsafe_b64decode (filter (\<lambda>c. c \<noteq> 45 \<and> c \<noteq> 95) s)"

text \<open>\<open>s.split()\<close>\<close>

fun words_from :: "str \<Rightarrow> str \<Rightarrow> str list" where
  "words_from acc [] = (if acc = [] then [] else [rev acc])"
| "words_from acc (c # s) =
     (if py_space c then (if acc = [] then words_from [] s else rev acc # words_from [] s)
      else words_from (c # acc) s)"

definition py_words :: "str \<Rightarrow> str list" where
  "py_words s = words_from [] s"

text \<open>\<open>s.partition(c)\<close>, without the separator.\<close>

definition partition_at :: "nat \<Rightarrow> str \<Rightarrow> str \<times> str" where
  "partition_at c s = (takeWhile (\<lambda>x. x \<noteq> c) s, drop 1 (dropWhile (\<lambda>x. x \<noteq> c) s))"

section \<open>References\<close>

definition SCHEMA_TYPE_JSON :: str where "SCHEMA_TYPE_JSON = lit ''JsonSchema''"

definition SCHEMA_TYPE_JSON_CREDENTIAL :: str where "SCHEMA_TYPE_JSON_CREDENTIAL = lit ''JsonSchemaCredential''"

definition KNOWN_SCHEMA_TYPES :: "str list" where
  "KNOWN_SCHEMA_TYPES = [SCHEMA_TYPE_JSON, SCHEMA_TYPE_JSON_CREDENTIAL]"

record schema_ref =
  sr_id :: str
  sr_type :: str
  sr_sri :: "str option"

record schema_result =
  sv_validated :: bool
  sv_schemas :: "str list"

abbreviation schema_failed :: exc where "schema_failed \<equiv> Schema SchemaResolutionError"

definition schema_entries :: "json \<Rightarrow> jobj list result" where
  "schema_entries raw =
     (case raw of
        JNull \<Rightarrow> Inr []
      | JObj d \<Rightarrow> Inr [d]
      | JList xs \<Rightarrow> mapR (as_object schema_failed) xs
      | _ \<Rightarrow> Inl schema_failed)"

definition chosen_type :: "str list \<Rightarrow> str" where
  "chosen_type types =
     (case filter (\<lambda>t. t \<in> set KNOWN_SCHEMA_TYPES) types of
        t # _ \<Rightarrow> t
      | [] \<Rightarrow> (case types of t # _ \<Rightarrow> t | [] \<Rightarrow> []))"

definition schema_type_names :: "json \<Rightarrow> str list result" where
  "schema_type_names stype =
     (case stype of
        JStr t \<Rightarrow> Inr [t]
      | JList xs \<Rightarrow> if list_all is_jstr xs then Inr (jstrs xs) else Inl schema_failed
      | _ \<Rightarrow> Inl schema_failed)"

definition schema_pin :: "json \<Rightarrow> str option result" where
  "schema_pin sri =
     (if sri = JNull then Inr None else case text_opt sri of None \<Rightarrow> Inl schema_failed | Some t \<Rightarrow> Inr (Some t))"

definition parse_schema_ref :: "jobj \<Rightarrow> schema_ref result" where
  "parse_schema_ref raw =
     (case text_opt (jget (lit ''id'') raw) of
        None \<Rightarrow> Inl schema_failed
      | Some sid \<Rightarrow>
          if sid = [] then Inl schema_failed
          else bindR (schema_type_names (jget (lit ''type'') raw)) (\<lambda>types.
            if chosen_type types = [] then Inl schema_failed
            else bindR (schema_pin (jget (lit ''digestSRI'') raw)) (\<lambda>sri.
              Inr \<lparr>sr_id = sid, sr_type = chosen_type types, sr_sri = sri\<rparr>)))"

definition parse_credential_schemas :: "jobj \<Rightarrow> schema_ref list result" where
  "parse_credential_schemas credential =
     bindR (schema_entries (jget (lit ''credentialSchema'') credential)) (mapR parse_schema_ref)"

section \<open>Integrity\<close>

definition SRI_HASHES :: "(str \<times> str) list" where
  "SRI_HASHES = [(lit ''sha256'', lit ''sha-256''), (lit ''sha384'', lit ''sha-384''), (lit ''sha512'', lit ''sha-512'')]"

fun sri_options :: "str list \<Rightarrow> (str \<times> bytes) list" where
  "sri_options [] = []"
| "sri_options (token # ts) =
     (let (alg, b64) = partition_at 45 token
      in if has_key alg SRI_HASHES \<and> b64 \<noteq> []
         then (case b64decode b64 of Inl e \<Rightarrow> sri_options ts | Inr d \<Rightarrow> (alg, d) # sri_options ts)
         else sri_options ts)"

definition sri_digest :: "crypto \<Rightarrow> str \<Rightarrow> bytes \<Rightarrow> bytes" where
  "sri_digest cr alg data = digest_of cr (the (map_of SRI_HASHES alg)) data"

text \<open>\<open>max(alg for alg, _ in options)\<close>\<close>

definition strongest_alg :: "(str \<times> bytes) list \<Rightarrow> str" where
  "strongest_alg options = foldl max (fst (hd options)) (map fst (tl options))"

definition verify_sri :: "crypto \<Rightarrow> bytes \<Rightarrow> str \<Rightarrow> unit result" where
  "verify_sri cr data integrity =
     (let options = sri_options (py_words integrity)
      in if options = [] then Inl schema_failed
         else if list_ex (\<lambda>(alg, expected). alg = strongest_alg options \<and> sri_digest cr alg data = expected) options
         then Inr () else Inl schema_failed)"

definition require_known_schema_type :: "schema_ref \<Rightarrow> unit result" where
  "require_known_schema_type ref =
     (if sr_type ref \<in> set KNOWN_SCHEMA_TYPES then Inr () else Inl (Schema UnsupportedSchemaType))"

text \<open>The resolver's answer is bytes, or another object (\<open>None\<close>).\<close>

definition prepare_schema_bytes :: "crypto \<Rightarrow> schema_ref \<Rightarrow> bytes option \<Rightarrow> bytes result" where
  "prepare_schema_bytes cr ref raw =
     (case raw of
        None \<Rightarrow> Inl schema_failed
      | Some data \<Rightarrow>
          (case sr_sri ref of
             None \<Rightarrow> Inr data
           | Some sri \<Rightarrow> if sri = [] then Inr data else bindR (verify_sri cr data sri) (\<lambda>_. Inr data)))"

section \<open>Resolution\<close>

definition extract_json_schema :: "jobj \<Rightarrow> jobj" where
  "extract_json_schema resource =
     (case jget (lit ''jsonSchema'') resource of JObj d \<Rightarrow> d | _ \<Rightarrow> resource)"

definition parse_schema_resource :: "(bytes \<Rightarrow> json result) \<Rightarrow> bytes \<Rightarrow> jobj result" where
  "parse_schema_resource json_loads raw =
     bindR (catchR is_value_error schema_failed (loads json_loads raw)) (as_object schema_failed)"

definition subject_schema :: "json \<Rightarrow> json" where
  "subject_schema s = (case s of JObj d \<Rightarrow> jget (lit ''jsonSchema'') d | _ \<Rightarrow> JNull)"

text \<open>The subject that carries the schema: the object itself, or the first of an array with a \<open>jsonSchema\<close> object.\<close>

definition schema_subject :: "json \<Rightarrow> json" where
  "schema_subject subject =
     (case subject of
        JList xs \<Rightarrow> (case filter (\<lambda>s. is_jobj (subject_schema s)) xs of s # _ \<Rightarrow> s | [] \<Rightarrow> JNull)
      | _ \<Rightarrow> subject)"

definition json_schema_from_verified_credential :: "jobj \<Rightarrow> jobj result" where
  "json_schema_from_verified_credential inner =
     (let types = (case jget (lit ''type'') inner of JStr t \<Rightarrow> [JStr t] | JList xs \<Rightarrow> xs | _ \<Rightarrow> [])
      in if JStr SCHEMA_TYPE_JSON_CREDENTIAL \<notin> set types then Inl schema_failed
         else as_object schema_failed (subject_schema (schema_subject (jget (lit ''credentialSubject'') inner))))"

definition is_did_error :: "exc \<Rightarrow> bool" where
  "is_did_error e = (e \<in> {DidError, UnsupportedDidMethod, DidResolutionError, DidWebvhError, UnsafeUrlError})"

definition is_schema_error :: "exc \<Rightarrow> bool" where
  "is_schema_error e = (case e of Schema s \<Rightarrow> True | _ \<Rightarrow> False)"

text \<open>\<open>except OpenvcError\<close>\<close>

definition is_openvc_error :: "exc \<Rightarrow> bool" where
  "is_openvc_error e =
     (e \<notin> {JcsError, DecompressionBomb, PyValueError, PyTypeError, PyKeyError, PyOverflowError, PyUnicodeError,
             PyOSError, PyEOFError, ZlibError, PyAttributeError} \<and> (case e of Foreign n \<Rightarrow> False | _ \<Rightarrow> True))"

definition schema_from_credential :: "(bytes \<Rightarrow> jobj result) option \<Rightarrow> bytes \<Rightarrow> jobj result" where
  "schema_from_credential verify_inner raw =
     (case verify_inner of
        None \<Rightarrow> Inl (Schema UnsupportedSchemaType)
      | Some verify \<Rightarrow>
          bindR (catchR is_openvc_error schema_failed (verify raw)) json_schema_from_verified_credential)"

definition resolve_schema ::
    "jose \<Rightarrow> (str \<Rightarrow> bytes option result) \<Rightarrow> (bytes \<Rightarrow> jobj result) option \<Rightarrow> schema_ref \<Rightarrow> jobj result" where
  "resolve_schema J fetch verify_inner ref =
     bindR (require_known_schema_type ref) (\<lambda>_.
     bindR (catchR (\<lambda>e. is_schema_error e \<or> is_did_error e) schema_failed (fetch (sr_id ref))) (\<lambda>raw.
     bindR (prepare_schema_bytes (jo_crypto J) ref raw) (\<lambda>data.
       if sr_type ref = SCHEMA_TYPE_JSON_CREDENTIAL then schema_from_credential verify_inner data
       else bindR (parse_schema_resource (jo_loads J) data) (\<lambda>r. Inr (extract_json_schema r)))))"

section \<open>Validation\<close>

text \<open>How a run of the processor ends: it rejects the schema, raises on a value or an unresolvable reference, runs out of stack, or lists errors.\<close>

datatype js_outcome = JsBadSchema | JsInvalid | JsUnresolvable | JsTooDeep | JsErrors nat

definition validate_instance :: "(jobj \<Rightarrow> jobj \<Rightarrow> js_outcome) \<Rightarrow> jobj \<Rightarrow> jobj \<Rightarrow> unit result" where
  "validate_instance js instance schema =
     (if \<not> is_jstr (jget (lit ''$schema'') schema) then Inl schema_failed
      else case js schema instance of
             JsBadSchema \<Rightarrow> Inl schema_failed
           | JsInvalid \<Rightarrow> Inl (Schema SchemaValidationError)
           | JsUnresolvable \<Rightarrow> Inl schema_failed
           | JsTooDeep \<Rightarrow> Inl schema_failed
           | JsErrors n \<Rightarrow> if n \<noteq> 0 then Inl (Schema SchemaValidationError) else Inr ())"

fun schema_loop ::
    "jose \<Rightarrow> (jobj \<Rightarrow> jobj \<Rightarrow> js_outcome) \<Rightarrow> jobj \<Rightarrow> (str \<Rightarrow> bytes option result) \<Rightarrow> (bytes \<Rightarrow> jobj result) option \<Rightarrow>
     str list \<Rightarrow> schema_ref list \<Rightarrow> str list result" where
  "schema_loop J js credential fetch verify_inner applied [] = Inr applied"
| "schema_loop J js credential fetch verify_inner applied (ref # refs) =
     bindR (resolve_schema J fetch verify_inner ref) (\<lambda>schema.
     bindR (validate_instance js credential schema) (\<lambda>_.
       schema_loop J js credential fetch verify_inner (applied @ [sr_id ref]) refs))"

definition validate_credential_schema ::
    "jose \<Rightarrow> (jobj \<Rightarrow> jobj \<Rightarrow> js_outcome) \<Rightarrow> jobj \<Rightarrow> (str \<Rightarrow> bytes option result) \<Rightarrow> (bytes \<Rightarrow> jobj result) option \<Rightarrow>
     schema_result result" where
  "validate_credential_schema J js credential fetch verify_inner =
     bindR (parse_credential_schemas credential) (\<lambda>refs.
     bindR (schema_loop J js credential fetch verify_inner [] refs) (\<lambda>applied.
       Inr \<lparr>sv_validated = (applied \<noteq> []), sv_schemas = applied\<rparr>))"

section \<open>Lemmas\<close>

lemma mapR_Inl_ex: "mapR f xs = Inl e \<Longrightarrow> \<exists>x\<in>set xs. f x = Inl e"
  by (induction xs) (auto simp: bindR_Inl)

lemma as_object_Inl: "as_object e v = Inl x \<longleftrightarrow> \<not> is_jobj v \<and> x = e"
  by (cases v) (auto simp: as_object_def)

lemma type_names_error: "schema_type_names v = Inl e \<Longrightarrow> e = schema_failed"
  by (cases v) (auto simp: schema_type_names_def split: if_splits)

lemma parse_schema_ref_error: "parse_schema_ref raw = Inl e \<Longrightarrow> e = schema_failed"
  by (auto simp: parse_schema_ref_def schema_pin_def bindR_Inl dest: type_names_error split: option.splits if_splits)

lemma parse_schemas_error: "parse_credential_schemas c = Inl e \<Longrightarrow> e = schema_failed"
proof -
  assume a: "parse_credential_schemas c = Inl e"
  have "schema_entries v = Inl e \<Longrightarrow> e = schema_failed" for v e
    by (cases v) (auto simp: schema_entries_def as_object_Inl dest!: mapR_Inl_ex)
  with a show ?thesis
    by (auto simp: parse_credential_schemas_def bindR_Inl dest!: mapR_Inl_ex dest: parse_schema_ref_error)
qed

lemma foldl_max: "x \<in> set (a # xs) \<Longrightarrow> x \<le> foldl max a xs" for a :: "'b :: linorder"
proof (induction xs arbitrary: a x)
  case (Cons y ys)
  then have "x \<le> max a y \<or> x \<in> set ys" by auto
  moreover have "max a y \<le> foldl max (max a y) ys" using Cons.IH [of "max a y" "max a y"] by simp
  ultimately show ?case using Cons.IH [of x "max a y"] order_trans by (metis foldl_Cons list.set_intros(2))
qed simp

text \<open>What a pinned resource satisfies: it matches an option, of an algorithm no other option exceeds.\<close>

definition sri_matches :: "crypto \<Rightarrow> str \<Rightarrow> bytes \<Rightarrow> bool" where
  "sri_matches cr integrity data \<longleftrightarrow>
     (\<exists>alg expected. (alg, expected) \<in> set (sri_options (py_words integrity)) \<and> sri_digest cr alg data = expected \<and>
        (\<forall>other\<in>set (sri_options (py_words integrity)). fst other \<le> alg))"

lemma strongest_alg_max: "other \<in> set options \<Longrightarrow> fst other \<le> strongest_alg options"
  using foldl_max [of "fst other" "fst (hd options)" "map fst (tl options)"] by (cases options) (auto simp: strongest_alg_def)

lemma verify_sri_Inr: "verify_sri cr data integrity = Inr () \<Longrightarrow> sri_matches cr integrity data"
proof -
  let ?os = "sri_options (py_words integrity)"
  assume "verify_sri cr data integrity = Inr ()"
  then have "list_ex (\<lambda>(alg, expected). alg = strongest_alg ?os \<and> sri_digest cr alg data = expected) ?os"
    by (simp add: verify_sri_def Let_def split: if_split_asm)
  then obtain alg expected where "(alg, expected) \<in> set ?os" "alg = strongest_alg ?os" "sri_digest cr alg data = expected"
    unfolding list_ex_iff by blast
  then show ?thesis using strongest_alg_max unfolding sri_matches_def by blast
qed

definition pin_holds :: "crypto \<Rightarrow> schema_ref \<Rightarrow> bytes \<Rightarrow> bool" where
  "pin_holds cr ref data = (case sr_sri ref of None \<Rightarrow> True | Some sri \<Rightarrow> if sri = [] then True else sri_matches cr sri data)"

lemma prepare_Inr: "prepare_schema_bytes cr ref raw = Inr data \<Longrightarrow> raw = Some data \<and> pin_holds cr ref data"
  by (auto simp: prepare_schema_bytes_def pin_holds_def bindR_Inr dest: verify_sri_Inr split: option.splits if_splits)

lemma prepare_error: "prepare_schema_bytes cr ref raw = Inl e \<Longrightarrow> e = schema_failed"
  by (auto simp: prepare_schema_bytes_def verify_sri_def Let_def bindR_Inl split: option.splits if_splits list.splits prod.splits)

text \<open>Where the schema of an entry comes from: the pinned bytes, parsed, or a verified schema credential.\<close>

definition schema_source :: "jose \<Rightarrow> (bytes \<Rightarrow> jobj result) option \<Rightarrow> schema_ref \<Rightarrow> bytes \<Rightarrow> jobj \<Rightarrow> bool" where
  "schema_source J verify_inner ref data schema =
     (if sr_type ref = SCHEMA_TYPE_JSON_CREDENTIAL
      then (\<exists>verify inner. verify_inner = Some verify \<and> verify data = Inr inner \<and> json_schema_from_verified_credential inner = Inr schema)
      else sr_type ref = SCHEMA_TYPE_JSON \<and> (\<exists>r. loads (jo_loads J) data = Inr (JObj r) \<and> schema = extract_json_schema r))"

lemma resolve_schema_Inr:
  assumes "resolve_schema J fetch verify_inner ref = Inr schema"
  shows "\<exists>data. fetch (sr_id ref) = Inr (Some data) \<and> pin_holds (jo_crypto J) ref data \<and> schema_source J verify_inner ref data schema"
proof -
  obtain raw data where k: "sr_type ref \<in> set KNOWN_SCHEMA_TYPES" "fetch (sr_id ref) = Inr raw"
    "prepare_schema_bytes (jo_crypto J) ref raw = Inr data"
    "(if sr_type ref = SCHEMA_TYPE_JSON_CREDENTIAL then schema_from_credential verify_inner data
       else bindR (parse_schema_resource (jo_loads J) data) (\<lambda>r. Inr (extract_json_schema r))) = Inr schema"
    using assms by (auto simp: resolve_schema_def bindR_Inr require_known_schema_type_def split: if_split_asm)
  have "schema_source J verify_inner ref data schema"
    using k(1,4) by (auto simp: schema_source_def KNOWN_SCHEMA_TYPES_def schema_from_credential_def parse_schema_resource_def bindR_Inr
        as_object_Inr split: if_splits option.splits)
  with k prepare_Inr [OF k(3)] show ?thesis by blast
qed

lemma validate_instance_Inr:
  "validate_instance js v schema = Inr u \<longleftrightarrow> is_jstr (jget (lit ''$schema'') schema) \<and> js schema v = JsErrors 0"
  by (auto simp: validate_instance_def split: js_outcome.splits)

lemma schema_loop_Inr:
  "schema_loop J js c fetch vi applied refs = Inr out \<Longrightarrow>
     out = applied @ map sr_id refs \<and>
     (\<forall>ref\<in>set refs. \<exists>schema. resolve_schema J fetch vi ref = Inr schema \<and> validate_instance js c schema = Inr ())"
  by (induction refs arbitrary: applied) (fastforce simp: bindR_Inr)+

text \<open>The injected callables raise within their documented families.\<close>

definition schema_callables_typed :: "jose \<Rightarrow> (str \<Rightarrow> bytes option result) \<Rightarrow> (bytes \<Rightarrow> jobj result) option \<Rightarrow> bool" where
  "schema_callables_typed J fetch verify_inner \<longleftrightarrow>
     parser_typed J \<and> (\<forall>u e. fetch u = Inl e \<longrightarrow> is_schema_error e \<or> is_did_error e) \<and>
     (\<forall>verify raw e. verify_inner = Some verify \<longrightarrow> verify raw = Inl e \<longrightarrow> is_openvc_error e)"

lemma schema_failed_typed [simp]: "is_schema_error (Schema s)"
  by (simp add: is_schema_error_def)

lemma parse_resource_error: "parser_typed J \<Longrightarrow> parse_schema_resource (jo_loads J) raw = Inl e \<Longrightarrow> is_schema_error e"
  by (auto simp: parse_schema_resource_def bindR_Inl catchR_Inl loads_error as_object_Inl)

lemma resolve_schema_error:
  assumes "schema_callables_typed J fetch verify_inner" "resolve_schema J fetch verify_inner ref = Inl e"
  shows "is_schema_error e"
proof -
  have f: "catchR (\<lambda>e. is_schema_error e \<or> is_did_error e) schema_failed (fetch u) = Inl e \<Longrightarrow> is_schema_error e" for u e
    using assms(1) by (auto simp: catchR_Inl schema_callables_typed_def)
  have c: "schema_from_credential verify_inner raw = Inl e \<Longrightarrow> is_schema_error e" for raw e
    using assms(1) by (auto simp: schema_from_credential_def schema_callables_typed_def bindR_Inl catchR_Inl
        json_schema_from_verified_credential_def Let_def as_object_Inl split: option.splits if_splits)
  have p: "parse_schema_resource (jo_loads J) raw = Inl e \<Longrightarrow> is_schema_error e" for raw e
    using parse_resource_error assms(1) by (auto simp: schema_callables_typed_def)
  show ?thesis
    using assms(2) by (auto simp: resolve_schema_def require_known_schema_type_def bindR_Inl [of "if _ then _ else _"]
        bindR_Inl [of "catchR _ _ _"] bindR_Inl [of "prepare_schema_bytes _ _ _"] bindR_Inl [of "parse_schema_resource _ _"]
        dest: f c p prepare_error split: if_splits)
qed

lemma validate_instance_error: "validate_instance js v schema = Inl e \<Longrightarrow> is_schema_error e"
  by (auto simp: validate_instance_def split: if_splits js_outcome.splits)

lemma schema_loop_error:
  "schema_callables_typed J fetch vi \<Longrightarrow> schema_loop J js c fetch vi applied refs = Inl e \<Longrightarrow> is_schema_error e"
  by (induction refs arbitrary: applied) (auto simp: bindR_Inl dest: resolve_schema_error validate_instance_error)

section \<open>Properties\<close>


definition ex_schema_jose :: jose where
  "ex_schema_jose = toy_jose\<lparr>jo_loads := \<lambda>b. if b = [1] then Inr (JObj [(lit ''$schema'', JStr (lit ''s''))]) else Inl PyValueError\<rparr>"

definition ex_schema_credential :: jobj where
  "ex_schema_credential = [(lit ''credentialSchema'', JObj [(lit ''id'', JStr (lit ''u'')), (lit ''type'', JStr (lit ''JsonSchema''))])]"

lemma ex_schema_typed: "schema_callables_typed ex_schema_jose (\<lambda>u. Inr (Some [1])) None"
  by (auto simp: schema_callables_typed_def parser_typed_def ex_schema_jose_def is_value_error_def split: if_splits)

lemma ex_schema_parsed:
  "parse_credential_schemas ex_schema_credential = Inr [\<lparr>sr_id = lit ''u'', sr_type = SCHEMA_TYPE_JSON, sr_sri = None\<rparr>]"
  by (simp add: parse_credential_schemas_def ex_schema_credential_def jget_def schema_entries_def parse_schema_ref_def schema_type_names_def
      chosen_type_def KNOWN_SCHEMA_TYPES_def schema_pin_def SCHEMA_TYPE_JSON_def SCHEMA_TYPE_JSON_CREDENTIAL_def)

lemma ex_schema_resolved:
  "resolve_schema ex_schema_jose (\<lambda>u. Inr (Some [1])) None \<lparr>sr_id = lit ''u'', sr_type = SCHEMA_TYPE_JSON, sr_sri = None\<rparr> =
     Inr [(lit ''$schema'', JStr (lit ''s''))]"
proof -
  have l: "loads (jo_loads ex_schema_jose) [1] = Inr (JObj [(lit ''$schema'', JStr (lit ''s''))])"
    by (simp add: loads_Inr ex_schema_jose_def MAX_DEPTH_def)
  show ?thesis
    by (simp add: resolve_schema_def require_known_schema_type_def KNOWN_SCHEMA_TYPES_def prepare_schema_bytes_def
        SCHEMA_TYPE_JSON_def SCHEMA_TYPE_JSON_CREDENTIAL_def parse_schema_resource_def l as_object_def extract_json_schema_def jget_def)
qed


end
