(* ===== verification/Cbor.thy ===== *)
theory Cbor
  imports Codec "HOL-Library.List_Lexorder" "HOL-Library.Multiset"
begin

text \<open>
  openvc/cbor.py: the bounded CBOR codec of the COSE/mdoc profile. \<open>encode\<close> is the deterministic encoder
  (shortest heads, maps sorted by their encoded keys); \<open>decode_at\<close> is the index-based decoder with its depth
  bound, which records on every tag the exact bytes it was decoded from. The map keys are the ones the
  encoder documents and the decoder admits: integers, bytes and text. \<open>COther\<close> is an object of any
  type the encoder has no branch for.
\<close>

section \<open>Values\<close>

datatype ckey = KInt int | KBytes bytes | KText str

datatype cbor =
    CNull
  | CBool bool
  | CInt int
  | CBytes bytes
  | CText str
  | CList "cbor list"
  | CMap "(ckey \<times> cbor) list"
  | CTag int cbor "bytes option"
  | CRaw bytes
  | COther

definition CBOR_MAX_DEPTH :: nat where
  "CBOR_MAX_DEPTH = 64"

section \<open>Encoding\<close>

text \<open>\<open>mt | n\<close> is a sum, since \<open>mt\<close> is a multiple of 32. A negative \<open>n\<close> fails in \<open>bytearray.append\<close>.\<close>

definition head_bytes :: "nat \<Rightarrow> int \<Rightarrow> bytes result" where
  "head_bytes major n =
     (let mt = 32 * major; v = nat n
      in if n < 0 then Inl PyValueError
         else if n < 24 then Inr [of_nat (mt + v)]
         else if n < 2 ^ 8 then Inr [of_nat (mt + 24), of_nat v]
         else if n < 2 ^ 16 then Inr (of_nat (mt + 25) # to_bytes 2 v)
         else if n < 2 ^ 32 then Inr (of_nat (mt + 26) # to_bytes 4 v)
         else if n < 2 ^ 64 then Inr (of_nat (mt + 27) # to_bytes 8 v)
         else Inl CborError)"

definition head_then :: "nat \<Rightarrow> int \<Rightarrow> bytes result \<Rightarrow> bytes result" where
  "head_then major n body = bindR (head_bytes major n) (\<lambda>h. bindR body (\<lambda>b. Inr (h @ b)))"

definition encode_int :: "int \<Rightarrow> bytes result" where
  "encode_int n = (if n < 0 then head_bytes 1 (- 1 - n) else head_bytes 0 n)"

definition encode_bstr :: "bytes \<Rightarrow> bytes result" where
  "encode_bstr b = head_then 2 (int (length b)) (Inr b)"

definition encode_tstr :: "str \<Rightarrow> bytes result" where
  "encode_tstr s = bindR (utf8_encode s) (\<lambda>raw. head_then 3 (int (length raw)) (Inr raw))"

fun encode_key :: "ckey \<Rightarrow> bytes result" where
  "encode_key (KInt n) = encode_int n"
| "encode_key (KBytes b) = encode_bstr b"
| "encode_key (KText s) = encode_tstr s"

text \<open>\<open>sorted((encode(k), v) ...)\<close>: the encoded keys are pairwise distinct, so the values are never compared.\<close>

definition sorted_items :: "(ckey \<times> 'a) list \<Rightarrow> (bytes \<times> 'a) list result" where
  "sorted_items kvs =
     bindR (mapR (\<lambda>kv. bindR (encode_key (fst kv)) (\<lambda>ek. Inr (ek, snd kv))) kvs)
       (\<lambda>ps. Inr (sort_key fst ps))"

lemma sorted_items_values: "sorted_items kvs = Inr ps \<Longrightarrow> snd ` set ps = snd ` set kvs"
proof -
  have "mapR (\<lambda>kv. bindR (encode_key (fst kv)) (\<lambda>ek. Inr (ek, snd kv))) kvs = Inr qs \<Longrightarrow>
      map snd qs = map snd kvs" for qs
    by (induction kvs arbitrary: qs) (auto simp: result_simps)
  moreover assume "sorted_items kvs = Inr ps"
  ultimately obtain qs where "map snd qs = map snd kvs" "ps = sort_key fst qs"
    by (auto simp: sorted_items_def result_simps)
  then show ?thesis by (metis list.set_map set_sort)
qed

function encode :: "cbor \<Rightarrow> bytes result" where
  "encode CNull = Inr [246]"
| "encode (CBool b) = Inr [if b then 245 else 244]"
| "encode (CRaw b) = Inr b"
| "encode (CTag t v raw) = head_then 6 t (encode v)"
| "encode (CInt n) = encode_int n"
| "encode (CBytes b) = encode_bstr b"
| "encode (CText s) = encode_tstr s"
| "encode (CList vs) = head_then 4 (int (length vs)) (bindR (mapR encode vs) (\<lambda>bs. Inr (concat bs)))"
| "encode (CMap kvs) =
     bindR (sorted_items kvs) (\<lambda>ps.
       head_then 5 (int (length ps))
         (bindR (mapR (\<lambda>p. bindR (encode (snd p)) (\<lambda>b. Inr (fst p @ b))) ps) (\<lambda>bs. Inr (concat bs))))"
| "encode COther = Inl CborError"
  by pat_completeness auto
termination
proof (relation "measure size", goal_cases)
  case (4 kvs ps p)
  then obtain kv where "kv \<in> set kvs" "snd p = snd kv"
    using sorted_items_values [of kvs ps] by (metis imageE image_eqI)
  then have "size (snd p) < size_list (size_prod (\<lambda>_. 0) size) kvs + 1"
    by (induction kvs) auto
  then show ?case by simp
qed (auto simp: size_list_estimation' less_Suc_eq_le)

section \<open>Decoding\<close>

definition arg_width :: "nat \<Rightarrow> nat option" where
  "arg_width info = map_of [(24, 1), (25, 2), (26, 4), (27, 8)] info"

definition read_head :: "bytes \<Rightarrow> nat \<Rightarrow> (nat \<times> nat \<times> nat) result" where
  "read_head data i =
     (if length data \<le> i then Inl CborError
      else let ib = unat (data ! i); major = ib div 32; info = ib mod 32
           in if info < 24 then Inr (major, info, i + 1)
              else case arg_width info of
                None \<Rightarrow> Inl CborError
              | Some k \<Rightarrow>
                  if length data < i + 1 + k then Inl CborError
                  else Inr (major, from_bytes (take k (drop (i + 1) data)), i + 1 + k))"

fun as_key :: "cbor \<Rightarrow> ckey result" where
  "as_key (CInt n) = Inr (KInt n)"
| "as_key (CBytes b) = Inr (KBytes b)"
| "as_key (CText s) = Inr (KText s)"
| "as_key v = Inl CborError"

text \<open>
  The branches of \<open>_decode_at\<close> that read no nested item: integers, byte and text strings, and the three simple
  values, which are gated on the information bits of the first byte.
\<close>

definition decode_leaf :: "bytes \<Rightarrow> nat \<Rightarrow> nat \<Rightarrow> nat \<Rightarrow> nat \<Rightarrow> (cbor \<times> nat) result" where
  "decode_leaf data start major n i =
     (if major = 0 then Inr (CInt (int n), i)
      else if major = 1 then Inr (CInt (- 1 - int n), i)
      else if major = 2 then
        (if length data < i + n then Inl CborError else Inr (CBytes (take n (drop i data)), i + n))
      else if major = 3 then
        (if length data < i + n then Inl CborError
         else bindR (catchR (\<lambda>e. e = PyUnicodeError) CborError (utf8_decode (take n (drop i data))))
           (\<lambda>s. Inr (CText s, i + n)))
      else let info = unat (data ! start) mod 32
           in if info = 20 then Inr (CBool False, i)
              else if info = 21 then Inr (CBool True, i)
              else if info = 22 then Inr (CNull, i)
              else Inl CborError)"

text \<open>
  \<open>_decode_at\<close> with its two \<open>for _ in range(n)\<close> loops; \<open>dep\<close> in a loop is the depth of the items.
  \<open>n\<close> is attacker-chosen and up to \<open>2\<^sup>64\<close>.
\<close>

function decode_at :: "bytes \<Rightarrow> nat \<Rightarrow> nat \<Rightarrow> (cbor \<times> nat) result"
  and decode_list :: "bytes \<Rightarrow> nat \<Rightarrow> nat \<Rightarrow> nat \<Rightarrow> (cbor list \<times> nat) result"
  and decode_map :: "bytes \<Rightarrow> nat \<Rightarrow> nat \<Rightarrow> nat \<Rightarrow> (ckey \<times> cbor) list \<Rightarrow> ((ckey \<times> cbor) list \<times> nat) result"
where
  "decode_at data start dep =
     (if CBOR_MAX_DEPTH < dep then Inl CborError
      else bindR (read_head data start) (\<lambda>(major, n, i).
        if major = 4 then bindR (decode_list data n i (dep + 1)) (\<lambda>(vs, j). Inr (CList vs, j))
        else if major = 5 then bindR (decode_map data n i (dep + 1) []) (\<lambda>(m, j). Inr (CMap m, j))
        else if major = 6 then
          bindR (decode_at data i (dep + 1)) (\<lambda>(v, j).
            Inr (CTag (int n) v (Some (take (j - start) (drop start data))), j))
        else decode_leaf data start major n i))"
| "decode_list data n i dep =
     (if n = 0 then Inr ([], i)
      else bindR (decode_at data i dep) (\<lambda>(v, j).
        bindR (decode_list data (n - 1) j dep) (\<lambda>(vs, k). Inr (v # vs, k))))"
| "decode_map data n i dep out =
     (if n = 0 then Inr (out, i)
      else bindR (decode_at data i dep) (\<lambda>(key, j).
        bindR (decode_at data j dep) (\<lambda>(v, k).
          bindR (as_key key) (\<lambda>ck.
            if has_key ck out then Inl CborError
            else decode_map data (n - 1) k dep (AList.update ck v out)))))"
  by pat_completeness auto
termination
  by (relation "inv_image (less_than <*lex*> less_than)
        (\<lambda>x. case x of Inl (data, i, d) \<Rightarrow> (66 - d, 0)
                     | Inr (Inl (data, n, i, d)) \<Rightarrow> (66 - d, Suc n)
                     | Inr (Inr (data, n, i, d, out)) \<Rightarrow> (66 - d, Suc n))")
     (auto simp: CBOR_MAX_DEPTH_def)

definition decode :: "bytes \<Rightarrow> cbor result" where
  "decode data =
     bindR (decode_at data 0 0) (\<lambda>(v, i). if i \<noteq> length data then Inl CborError else Inr v)"

definition decode_from :: "bytes \<Rightarrow> nat \<Rightarrow> (cbor \<times> nat) result" where
  "decode_from data offset = decode_at data offset 0"


section \<open>Specification\<close>

text \<open>Containers and tags around the deepest item.\<close>

fun cdepth :: "cbor \<Rightarrow> nat" where
  "cdepth (CList vs) = fold max (map (\<lambda>v. Suc (cdepth v)) vs) 0"
| "cdepth (CMap kvs) = fold max (map (\<lambda>kv. Suc (cdepth (snd kv))) kvs) 0"
| "cdepth (CTag t v raw) = Suc (cdepth v)"
| "cdepth _ = 0"

text \<open>Values built from the profile: no verbatim bytes, no foreign object, distinct keys in every map.\<close>

fun plain :: "cbor \<Rightarrow> bool" where
  "plain (CList vs) = list_all plain vs"
| "plain (CMap kvs) = (dict_ok kvs \<and> list_all (\<lambda>kv. plain (snd kv)) kvs)"
| "plain (CTag t v raw) = plain v"
| "plain (CRaw b) = False"
| "plain COther = False"
| "plain _ = True"

definition key_bytes :: "ckey \<Rightarrow> bytes" where
  "key_bytes k = (case encode_key k of Inl e \<Rightarrow> [] | Inr b \<Rightarrow> b)"

text \<open>The canonical form: every map in the order of its encoded keys, every tag with its own encoding.\<close>

fun canon :: "cbor \<Rightarrow> cbor" where
  "canon (CList vs) = CList (map canon vs)"
| "canon (CMap kvs) = CMap (sort_key (\<lambda>kv. key_bytes (fst kv)) (map (\<lambda>kv. (fst kv, canon (snd kv))) kvs))"
| "canon (CTag t v raw) = CTag t (canon v) (case encode (CTag t v raw) of Inl e \<Rightarrow> None | Inr b \<Rightarrow> Some b)"
| "canon v = v"

section \<open>Heads\<close>

lemma nth_of_drop: "drop i data = x # r \<Longrightarrow> data ! i = x \<and> i < length data \<and> drop (Suc i) data = r"
  by (metis Cons_nth_drop_Suc drop_all linorder_not_le list.distinct(1) list.sel(1) list.sel(3) nth_via_drop tl_drop drop_Suc)

lemma unat_head: "major < 8 \<Longrightarrow> info < 32 \<Longrightarrow> unat (of_nat (32 * major + info) :: byte) = 32 * major + info"
  by (rule unat_byte) simp

lemma read_head_arg:
  assumes "drop i data = of_nat (32 * major + info) # to_bytes k v @ r" "major < 8" "info < 32"
    and "arg_width info = Some k" "v < 256 ^ k"
  shows "read_head data i = Inr (major, v, i + 1 + k) \<and> unat (data ! i) = 32 * major + info"
proof -
  have *: "data ! i = of_nat (32 * major + info)" "i < length data" "drop (Suc i) data = to_bytes k v @ r"
    using nth_of_drop [OF assms(1)] by auto
  then have "unat (data ! i) = 32 * major + info" using unat_head [OF assms(2,3)] by (simp only:)
  moreover have "length data - Suc i = k + length r" using arg_cong [OF *(3), of length] by simp
  moreover have "24 \<le> info" using assms(4) by (auto simp: arg_width_def split: if_splits)
  ultimately show ?thesis
    using assms(3-) * by (auto simp: read_head_def Let_def from_to_bytes simp del: to_bytes.simps)
qed

lemma read_head_append:
  assumes "head_bytes major n = Inr h" "major < 8" "drop i data = h @ r"
  shows "read_head data i = Inr (major, nat n, i + length h) \<and> 0 \<le> n \<and> h \<noteq> []"
proof -
  consider "0 \<le> n" "n < 24" "h = [of_nat (32 * major + nat n)]"
    | k info where "24 \<le> n" "nat n < 256 ^ k" "arg_width info = Some k"
      "info < 32" "h = of_nat (32 * major + info) # to_bytes k (nat n)"
  proof (cases "n < 24")
    case True
    with assms(1) that(1) show ?thesis by (auto simp: head_bytes_def Let_def split: if_splits)
  next
    case False
    note big = that(2) [OF leI [OF False]]
    consider "n < 2 ^ 8" | "\<not> n < 2 ^ 8" "n < 2 ^ 16" | "\<not> n < 2 ^ 16" "n < 2 ^ 32"
      | "\<not> n < 2 ^ 32" "n < 2 ^ 64" | "\<not> n < 2 ^ 64" by linarith
    then show ?thesis
    proof cases
      case 1 with False assms(1) big [of 1 24] show ?thesis by (simp add: head_bytes_def arg_width_def Let_def nat_less_iff)
    next
      case 2 with False assms(1) big [of 2 25] show ?thesis
        by (simp add: head_bytes_def arg_width_def Let_def nat_less_iff del: to_bytes.simps)
    next
      case 3 with False assms(1) big [of 4 26] show ?thesis
        by (simp add: head_bytes_def arg_width_def Let_def nat_less_iff del: to_bytes.simps)
    next
      case 4 with False assms(1) big [of 8 27] show ?thesis
        by (simp add: head_bytes_def arg_width_def Let_def nat_less_iff del: to_bytes.simps)
    next
      case 5 with False assms(1) show ?thesis by (simp add: head_bytes_def Let_def)
    qed
  qed
  then show ?thesis
  proof cases
    case 1
    then have n: "nat n < 24" by linarith
    have d: "data ! i = of_nat (32 * major + nat n)" "i < length data"
      using nth_of_drop [of i data] assms(3) unfolding 1(3) by auto
    then have "unat (data ! i) = 32 * major + nat n"
      using unat_head [OF assms(2), of "nat n"] n by (simp only:)
    with d(2) n 1 show ?thesis by (simp add: read_head_def Let_def)
  next
    case (2 k info)
    then show ?thesis using read_head_arg [of i data major info k "nat n" r] assms(2,3) by simp
  qed
qed

section \<open>Round trip\<close>

declare decode_at.simps [simp del] decode_list.simps [simp del] decode_map.simps [simp del]

lemma drop_append_length: "drop i data = a @ r \<Longrightarrow> drop (i + length a) data = r"
  by (metis add.commute append_eq_conv_conj drop_drop)

lemma length_of_drop: "drop i data = a @ r \<Longrightarrow> a \<noteq> [] \<or> i \<le> length data \<Longrightarrow> length data = i + length a + length r"
proof -
  assume "drop i data = a @ r" "a \<noteq> [] \<or> i \<le> length data"
  then have "length data - i = length a + length r" "0 < length a \<or> i \<le> length data"
    using length_drop [of i data] by auto
  then show ?thesis by linarith
qed

lemma decode_list_Suc:
  "decode_list data (Suc n) i d =
     bindR (decode_at data i d) (\<lambda>(v, j). bindR (decode_list data n j d) (\<lambda>(vs, k). Inr (v # vs, k)))"
  by (subst decode_list.simps) simp

lemma decode_map_Suc:
  "decode_map data (Suc n) i d out =
     bindR (decode_at data i d) (\<lambda>(key, j). bindR (decode_at data j d) (\<lambda>(v, k). bindR (as_key key) (\<lambda>ck.
       if has_key ck out then Inl CborError else decode_map data n k d (AList.update ck v out))))"
  by (subst decode_map.simps) (simp cong: if_cong)

lemma decode_int:
  assumes "encode_int n = Inr b" "d \<le> CBOR_MAX_DEPTH" "drop i data = b @ r"
  shows "decode_at data i d = Inr (CInt n, i + length b)"
proof (cases "n < 0")
  case True
  then show ?thesis
    using assms read_head_append [of 1 "- 1 - n" b i data r]
    by (simp add: encode_int_def decode_at.simps [of data i] decode_leaf_def)
next
  case False
  then show ?thesis
    using assms read_head_append [of 0 n b i data r]
    by (simp add: encode_int_def decode_at.simps [of data i] decode_leaf_def)
qed

lemma decode_simple:
  assumes "drop i data = b # r" "d \<le> CBOR_MAX_DEPTH"
  shows "b = 246 \<Longrightarrow> decode_at data i d = Inr (CNull, Suc i)"
    "b = 245 \<Longrightarrow> decode_at data i d = Inr (CBool True, Suc i)"
    "b = 244 \<Longrightarrow> decode_at data i d = Inr (CBool False, Suc i)"
  using nth_of_drop [OF assms(1)] assms(2) by (auto simp: decode_at.simps [of data i] decode_leaf_def read_head_def Let_def)

lemma head_then_Inr:
  "head_then m n body = Inr b \<longleftrightarrow> (\<exists>h c. head_bytes m n = Inr h \<and> body = Inr c \<and> b = h @ c)"
  by (auto simp: head_then_def result_simps)

lemma decode_bstr:
  assumes "encode_bstr s = Inr b" "d \<le> CBOR_MAX_DEPTH" "drop i data = b @ r"
  shows "decode_at data i d = Inr (CBytes s, i + length b)"
proof -
  obtain h where h: "head_bytes 2 (int (length s)) = Inr h" "b = h @ s"
    using assms(1) by (auto simp: encode_bstr_def head_then_Inr)
  then have *: "drop i data = h @ (s @ r)" using assms(3) by simp
  then show ?thesis
    using h assms(2) read_head_append [OF h(1) _ *] drop_append_length [OF *] length_of_drop [OF *]
    by (simp add: decode_at.simps [of data i] decode_leaf_def)
qed

lemma decode_tstr:
  assumes "encode_tstr s = Inr b" "d \<le> CBOR_MAX_DEPTH" "drop i data = b @ r"
  shows "decode_at data i d = Inr (CText s, i + length b)"
proof -
  obtain h u where h: "head_bytes 3 (int (length u)) = Inr h" "b = h @ u" "utf8_encode s = Inr u"
    using assms(1) by (auto simp: encode_tstr_def head_then_Inr result_simps)
  then have *: "drop i data = h @ (u @ r)" using assms(3) by simp
  then show ?thesis
    using h assms(2) read_head_append [OF h(1) _ *] drop_append_length [OF *] length_of_drop [OF *]
    by (simp add: decode_at.simps [of data i] decode_leaf_def utf8_decode_encode)
qed

fun key_value :: "ckey \<Rightarrow> cbor" where
  "key_value (KInt n) = CInt n"
| "key_value (KBytes b) = CBytes b"
| "key_value (KText s) = CText s"

lemma as_key_value [simp]: "as_key (key_value k) = Inr k"
  by (cases k) auto

lemma decode_key:
  "encode_key k = Inr b \<Longrightarrow> d \<le> CBOR_MAX_DEPTH \<Longrightarrow> drop i data = b @ r \<Longrightarrow>
     decode_at data i d = Inr (key_value k, i + length b)"
  by (cases k) (auto simp: decode_int decode_bstr decode_tstr)

lemma encode_key_inj: "encode_key k = Inr b \<Longrightarrow> encode_key k' = Inr b \<Longrightarrow> k = k'"
  using decode_key [of k b 0 0 b "[]"] decode_key [of k' b 0 0 b "[]"]
  by (metis Inr_inject as_key_value append_Nil2 drop0 prod.inject zero_le)

definition decodes :: "cbor \<Rightarrow> bool" where
  "decodes v \<longleftrightarrow> (\<forall>b d i data r. encode v = Inr b \<longrightarrow> d + cdepth v \<le> CBOR_MAX_DEPTH \<longrightarrow>
     drop i data = b @ r \<longrightarrow> decode_at data i d = Inr (canon v, i + length b))"

lemma decode_list_encode:
  "\<forall>v\<in>set vs. decodes v \<and> d + cdepth v \<le> CBOR_MAX_DEPTH \<Longrightarrow> mapR encode vs = Inr bs \<Longrightarrow>
     drop i data = concat bs @ r \<Longrightarrow>
     decode_list data (length vs) i d = Inr (map canon vs, i + length (concat bs))"
proof (induction vs arbitrary: i bs)
  case Nil
  then show ?case by (simp add: decode_list.simps)
next
  case (Cons v vs)
  then obtain b bs' where b: "encode v = Inr b" "mapR encode vs = Inr bs'" "bs = b # bs'"
    by (auto simp: result_simps)
  then have i: "drop i data = b @ (concat bs' @ r)" using Cons.prems by simp
  then have "decode_at data i d = Inr (canon v, i + length b)"
    using Cons.prems b unfolding decodes_def by auto
  moreover have "decode_list data (length vs) (i + length b) d =
      Inr (map canon vs, i + length b + length (concat bs'))"
    using Cons b drop_append_length [OF i] by simp
  ultimately show ?case using b by (simp add: decode_list_Suc)
qed

lemma decode_map_encode:
  "\<forall>kv\<in>set kvs. decodes (snd kv) \<and> d + cdepth (snd kv) \<le> CBOR_MAX_DEPTH \<and> isOk (encode_key (fst kv)) \<Longrightarrow>
     mapR (\<lambda>kv. bindR (encode (snd kv)) (\<lambda>b. Inr (key_bytes (fst kv) @ b))) kvs = Inr bs \<Longrightarrow>
     distinct (map fst (out @ kvs)) \<Longrightarrow> drop i data = concat bs @ r \<Longrightarrow>
     decode_map data (length kvs) i d out =
       Inr (out @ map (\<lambda>kv. (fst kv, canon (snd kv))) kvs, i + length (concat bs))"
proof (induction kvs arbitrary: i bs out)
  case Nil
  then show ?case by (simp add: decode_map.simps)
next
  case (Cons kv kvs)
  then obtain b bs' where b: "encode (snd kv) = Inr b" "bs = (key_bytes (fst kv) @ b) # bs'"
    "mapR (\<lambda>kv. bindR (encode (snd kv)) (\<lambda>b. Inr (key_bytes (fst kv) @ b))) kvs = Inr bs'"
    by (auto simp: result_simps)
  let ?k = "key_bytes (fst kv)"
  have i: "drop i data = ?k @ (b @ (concat bs' @ r))" using Cons.prems b by simp
  have j: "drop (i + length ?k) data = b @ (concat bs' @ r)" by (rule drop_append_length [OF i])
  have d: "d \<le> CBOR_MAX_DEPTH" using Cons.prems(1) by (auto dest: add_leD1)
  have "encode_key (fst kv) = Inr ?k" using Cons.prems(1) by (auto simp: key_bytes_def isOk_iff)
  from decode_key [OF this d i] have 1: "decode_at data i d = Inr (key_value (fst kv), i + length ?k)" .
  have 2: "decode_at data (i + length ?k) d = Inr (canon (snd kv), i + length ?k + length b)"
    using Cons.prems(1) b(1) j unfolding decodes_def by auto
  have new: "\<not> has_key (fst kv) out" using Cons.prems(3) by (auto simp: has_key_def)
  have "decode_map data (length kvs) (i + length ?k + length b) d (out @ [(fst kv, canon (snd kv))]) =
     Inr ((out @ [(fst kv, canon (snd kv))]) @ map (\<lambda>kv. (fst kv, canon (snd kv))) kvs,
          i + length ?k + length b + length (concat bs'))"
    using Cons.prems b drop_append_length [OF j] by (intro Cons.IH) auto
  with 1 2 new b show ?case
    by (simp add: decode_map_Suc update_new add.assoc)
qed

lemma sorted_items_eq:
  assumes "sorted_items kvs = Inr ps"
  shows "ps = map (\<lambda>kv. (key_bytes (fst kv), snd kv)) (sort_key (\<lambda>kv. key_bytes (fst kv)) kvs)"
    and "\<forall>kv\<in>set kvs. isOk (encode_key (fst kv))"
proof -
  obtain qs where qs: "mapR (\<lambda>kv. bindR (encode_key (fst kv)) (\<lambda>ek. Inr (ek, snd kv))) kvs = Inr qs"
    "ps = sort_key fst qs" using assms by (auto simp: sorted_items_def result_simps)
  from qs(1) have "qs = map (\<lambda>kv. (key_bytes (fst kv), snd kv)) kvs \<and> (\<forall>kv\<in>set kvs. isOk (encode_key (fst kv)))"
    by (induction kvs arbitrary: qs) (auto simp: result_simps key_bytes_def isOk_iff)
  with qs(2) show "ps = map (\<lambda>kv. (key_bytes (fst kv), snd kv)) (sort_key (\<lambda>kv. key_bytes (fst kv)) kvs)"
    "\<forall>kv\<in>set kvs. isOk (encode_key (fst kv))" by (simp_all add: sort_key_map)
qed


lemma sorted_items_total:
  assumes "\<forall>kv\<in>set kvs. isOk (encode_key (fst kv))"
  shows "sorted_items kvs =
    Inr (map (\<lambda>kv. (key_bytes (fst kv), snd kv)) (sort_key (\<lambda>kv. key_bytes (fst kv)) kvs))"
proof -
  have "mapR (\<lambda>kv. bindR (encode_key (fst kv)) (\<lambda>ek. Inr (ek, snd kv))) kvs =
      Inr (map (\<lambda>kv. (key_bytes (fst kv), snd kv)) kvs)"
    using assms by (induction kvs) (auto simp: isOk_iff key_bytes_def)
  then show ?thesis by (simp add: sorted_items_def sort_key_map)
qed

lemma dict_ok_keys: "mset kvs = mset kvs' \<Longrightarrow> dict_ok kvs \<longleftrightarrow> dict_ok kvs'"
  unfolding dict_ok_def using mset_eq_imp_distinct_iff [of "map fst kvs" "map fst kvs'"] by simp

lemma decodes_plain: "plain v \<Longrightarrow> decodes v"
proof (induction v rule: encode.induct)
  case (4 t v raw)
  show ?case unfolding decodes_def
  proof (intro allI impI)
    fix b d i data r
    assume e: "encode (CTag t v raw) = Inr b" and d: "d + cdepth (CTag t v raw) \<le> CBOR_MAX_DEPTH"
      and i: "drop i data = b @ r"
    from e obtain h c where h: "head_bytes 6 t = Inr h" "encode v = Inr c" "b = h @ c"
      by (auto simp: head_then_Inr)
    then have *: "drop i data = h @ (c @ r)" using i by simp
    have "decode_at data (i + length h) (Suc d) = Inr (canon v, i + length h + length c)"
      using 4 h(2) d drop_append_length [OF *] unfolding decodes_def by auto
    moreover have "take (length h + length c) (drop i data) = b" using i h(3) by simp
    ultimately show "decode_at data i d = Inr (canon (CTag t v raw), i + length b)"
      using h e d read_head_append [OF h(1) _ *] by (simp add: decode_at.simps [of data i] decode_leaf_def head_then_def)
  qed
next
  case (8 vs)
  show ?case unfolding decodes_def
  proof (intro allI impI)
    fix b d i data r
    assume e: "encode (CList vs) = Inr b" and d: "d + cdepth (CList vs) \<le> CBOR_MAX_DEPTH"
      and i: "drop i data = b @ r"
    from e obtain h bs where h: "head_bytes 4 (int (length vs)) = Inr h" "mapR encode vs = Inr bs"
      "b = h @ concat bs" by (auto simp: head_then_Inr result_simps)
    then have *: "drop i data = h @ (concat bs @ r)" using i by simp
    have "\<forall>v\<in>set vs. decodes v \<and> Suc d + cdepth v \<le> CBOR_MAX_DEPTH"
    proof (cases "vs = []")
      case False
      from d have "fold max (map (\<lambda>v. Suc (cdepth v)) vs) 0 \<le> CBOR_MAX_DEPTH - d" "d \<le> CBOR_MAX_DEPTH"
        by auto
      then show ?thesis using 8 by (auto simp: fold_max_le list_all_iff)
    qed simp
    from decode_list_encode [OF this h(2) drop_append_length [OF *]]
    show "decode_at data i d = Inr (canon (CList vs), i + length b)"
      using h d read_head_append [OF h(1) _ *] by (simp add: decode_at.simps [of data i] decode_leaf_def)
  qed
next
  case (9 kvs)
  let ?qs = "sort_key (\<lambda>kv. key_bytes (fst kv)) kvs"
  show ?case unfolding decodes_def
  proof (intro allI impI)
    fix b d i data r
    assume e: "encode (CMap kvs) = Inr b" and d: "d + cdepth (CMap kvs) \<le> CBOR_MAX_DEPTH"
      and i: "drop i data = b @ r"
    from e obtain ps h bs where ps: "sorted_items kvs = Inr ps"
      and h: "head_bytes 5 (int (length ps)) = Inr h" "b = h @ concat bs"
      "mapR (\<lambda>p. bindR (encode (snd p)) (\<lambda>b. Inr (fst p @ b))) ps = Inr bs"
      by (auto simp: head_then_Inr result_simps)
    note q = sorted_items_eq [OF ps]
    have bs: "mapR (\<lambda>kv. bindR (encode (snd kv)) (\<lambda>b. Inr (key_bytes (fst kv) @ b))) ?qs = Inr bs"
      using h(3) unfolding q(1) by (simp add: mapR_map comp_def)
    have *: "drop i data = h @ (concat bs @ r)" using i h by simp
    from d have "fold max (map (\<lambda>kv. Suc (cdepth (snd kv))) kvs) 0 \<le> CBOR_MAX_DEPTH - d" "d \<le> CBOR_MAX_DEPTH"
      by auto
    then have dep: "\<forall>kv\<in>set kvs. Suc d + cdepth (snd kv) \<le> CBOR_MAX_DEPTH" by (auto simp: fold_max_le)
    have "decodes (snd kv)" if "kv \<in> set kvs" for kv
    proof -
      have "snd kv \<in> snd ` set ps" using sorted_items_values [OF ps] that by blast
      then obtain p where "p \<in> set ps" "snd p = snd kv" by auto
      then show ?thesis using 9 ps that by (metis list_all_iff plain.simps(2))
    qed
    then have "\<forall>kv\<in>set ?qs. decodes (snd kv) \<and> Suc d + cdepth (snd kv) \<le> CBOR_MAX_DEPTH \<and> isOk (encode_key (fst kv))"
      using dep q(2) by simp
    from decode_map_encode [OF this bs _ drop_append_length [OF *], of "[]"]
    show "decode_at data i d = Inr (canon (CMap kvs), i + length b)"
      using h d read_head_append [OF h(1) _ *] 9(2) dict_ok_keys [of "?qs" kvs]
      by (simp add: decode_at.simps [of data i] decode_leaf_def sort_key_map dict_ok_def q(1))
  qed
next
  case (1)
  then show ?case by (auto simp: decodes_def decode_simple)
next
  case (2 b)
  then show ?case by (cases b) (auto simp: decodes_def decode_simple)
qed (auto simp: decodes_def decode_int decode_bstr decode_tstr)


section \<open>What the decoder guarantees\<close>

lemma read_head_bounds: "read_head data i = Inr (m, n, j) \<Longrightarrow> i < j \<and> j \<le> length data"
  by (auto simp: read_head_def Let_def split: if_splits option.splits)

lemma read_head_error: "read_head data i = Inl e \<Longrightarrow> e = CborError"
  by (auto simp: read_head_def Let_def split: if_splits option.splits)

lemma as_key_error: "as_key v = Inl e \<Longrightarrow> e = CborError"
  by (cases v) auto

lemma utf8_decode_error: "utf8_decode b = Inl e \<Longrightarrow> e = PyUnicodeError"
  by (auto simp: utf8_decode_def split: option.splits)


lemma decode_leaf_error: "decode_leaf data s m n i = Inl e \<Longrightarrow> e = CborError"
  by (auto simp: decode_leaf_def result_simps Let_def split: if_splits dest: utf8_decode_error)

lemma decode_leaf_bounds: "decode_leaf data s m n i = Inr (v, j) \<Longrightarrow> i \<le> length data \<Longrightarrow> i \<le> j \<and> j \<le> length data"
  by (auto simp: decode_leaf_def result_simps Let_def split: if_splits)

lemma decode_error:
  "decode_at data i d = Inl e \<Longrightarrow> e = CborError"
  "decode_list data n i d = Inl e \<Longrightarrow> e = CborError"
  "decode_map data n i d out = Inl e \<Longrightarrow> e = CborError"
proof (induction data i d and data n i d and data n i d out rule: decode_at_decode_list_decode_map.induct)
  case (1 data start d)
  show ?case
  proof (cases "CBOR_MAX_DEPTH < d")
    case False
    show ?thesis
    proof (cases "read_head data start")
      case (Inr h)
      obtain m n i where h: "h = (m, n, i)" by (cases h)
      note IH = 1(1-3) [OF False Inr [unfolded h] refl refl, unfolded Suc_eq_plus1 [symmetric]]
      from 1(4) False Inr h show ?thesis
        by (subst (asm) decode_at.simps)
           (auto simp: result_simps split: if_splits
             dest: IH(1) IH(2) [rotated 2] IH(3) [rotated 3] decode_leaf_error)
    qed (use 1(4) False read_head_error in \<open>auto simp: decode_at.simps\<close>)
  qed (use 1(4) in \<open>simp add: decode_at.simps\<close>)
next
  case (2 data n i d)
  show ?case
  proof (cases n)
    case (Suc k)
    with 2 show ?thesis by (fastforce simp: decode_list_Suc result_simps)
  qed (use 2(3) in \<open>simp add: decode_list.simps\<close>)
next
  case (3 data n i d out)
  show ?case
  proof (cases n)
    case (Suc k)
    with 3 as_key_error show ?thesis by (fastforce simp: decode_map_Suc result_simps split: if_splits)
  qed (use 3(4) in \<open>simp add: decode_map.simps\<close>)
qed

text \<open>
  The grammar the decoder accepts, as a relation: \<open>item data s d v j\<close> says that the bytes of \<open>data\<close> from \<open>s\<close> to \<open>j\<close>
  are one item of value \<open>v\<close> at depth \<open>d\<close>.
\<close>

inductive item :: "bytes \<Rightarrow> nat \<Rightarrow> nat \<Rightarrow> cbor \<Rightarrow> nat \<Rightarrow> bool"
  and items :: "bytes \<Rightarrow> nat \<Rightarrow> nat \<Rightarrow> nat \<Rightarrow> cbor list \<Rightarrow> nat \<Rightarrow> bool"
  and entries :: "bytes \<Rightarrow> nat \<Rightarrow> nat \<Rightarrow> nat \<Rightarrow> (ckey \<times> cbor) list \<Rightarrow> (ckey \<times> cbor) list \<Rightarrow> nat \<Rightarrow> bool"
where
  leaf: "d \<le> CBOR_MAX_DEPTH \<Longrightarrow> read_head data s = Inr (m, n, i) \<Longrightarrow> m \<notin> {4, 5, 6} \<Longrightarrow>
    decode_leaf data s m n i = Inr (v, j) \<Longrightarrow> item data s d v j"
| array: "d \<le> CBOR_MAX_DEPTH \<Longrightarrow> read_head data s = Inr (4, n, i) \<Longrightarrow>
    items data n i (Suc d) vs j \<Longrightarrow> item data s d (CList vs) j"
| cmap: "d \<le> CBOR_MAX_DEPTH \<Longrightarrow> read_head data s = Inr (5, n, i) \<Longrightarrow>
    entries data n i (Suc d) [] kvs j \<Longrightarrow> item data s d (CMap kvs) j"
| tag: "d \<le> CBOR_MAX_DEPTH \<Longrightarrow> read_head data s = Inr (6, n, i) \<Longrightarrow> item data i (Suc d) v j \<Longrightarrow>
    item data s d (CTag (int n) v (Some (take (j - s) (drop s data)))) j"
| items_0: "items data 0 i d [] i"
| items_Suc: "item data i d v j \<Longrightarrow> items data n j d vs k \<Longrightarrow> items data (Suc n) i d (v # vs) k"
| entries_0: "entries data 0 i d out out i"
| entries_Suc: "item data i d (key_value ck) j \<Longrightarrow> item data j d v k \<Longrightarrow> \<not> has_key ck out \<Longrightarrow>
    entries data n k d (AList.update ck v out) m l \<Longrightarrow> entries data (Suc n) i d out m l"

lemma as_key_Inr: "as_key v = Inr k \<longleftrightarrow> v = key_value k"
  by (cases v; cases k) auto

lemma decode_sound:
  "decode_at data i d = Inr (v, j) \<Longrightarrow> item data i d v j"
  "decode_list data n i d = Inr (vs, j) \<Longrightarrow> items data n i d vs j"
  "decode_map data n i d out = Inr (m, j) \<Longrightarrow> entries data n i d out m j"
proof (induction data i d and data n i d and data n i d out arbitrary: v j and vs j and m j
    rule: decode_at_decode_list_decode_map.induct)
  case (1 data start d)
  from 1(4) obtain m n i where h: "read_head data start = Inr (m, n, i)" "\<not> CBOR_MAX_DEPTH < d"
    by (auto simp: decode_at.simps [of data start] result_simps split: if_splits)
  note IH = 1(1-3) [OF h(2,1) refl refl, unfolded Suc_eq_plus1 [symmetric]]
  from h have d: "d \<le> CBOR_MAX_DEPTH" by simp
  consider vs where "m = 4" "decode_list data n i (Suc d) = Inr (vs, j)" "v = CList vs"
    | kvs where "m = 5" "decode_map data n i (Suc d) [] = Inr (kvs, j)" "v = CMap kvs"
    | w where "m = 6" "decode_at data i (Suc d) = Inr (w, j)" "v = CTag (int n) w (Some (take (j - start) (drop start data)))"
    | "m \<notin> {4, 5, 6}" "decode_leaf data start m n i = Inr (v, j)"
    using 1(4) h by (auto simp: decode_at.simps [of data start] result_simps split: if_splits)
  then show ?case
  proof cases
    case 1 with IH(1) h(1) d show ?thesis by (auto intro: array)
  next
    case 2 with IH(2) h(1) d show ?thesis by (auto intro: cmap)
  next
    case 3 with IH(3) h(1) d show ?thesis by (auto intro: tag)
  next
    case 4 with h(1) d show ?thesis by (intro leaf)
  qed
next
  case (2 data n i d)
  show ?case
  proof (cases n)
    case (Suc k)
    with 2 show ?thesis by (fastforce simp: decode_list_Suc result_simps intro: items_Suc)
  qed (use 2(3) in \<open>auto simp: decode_list.simps intro: items_0\<close>)
next
  case (3 data n i d out)
  show ?case
  proof (cases n)
    case (Suc k)
    with 3 show ?thesis
      by (fastforce simp: decode_map_Suc result_simps as_key_Inr split: if_splits intro: entries_Suc)
  qed (use 3(4) in \<open>auto simp: decode_map.simps intro: entries_0\<close>)
qed

lemma decode_complete:
  "item data i d v j \<Longrightarrow> decode_at data i d = Inr (v, j)"
  "items data n i d vs j \<Longrightarrow> decode_list data n i d = Inr (vs, j)"
  "entries data n i d out m j \<Longrightarrow> decode_map data n i d out = Inr (m, j)"
  by (induction rule: item_items_entries.inducts)
     (simp_all add: decode_at.simps decode_list_Suc decode_map_Suc decode_list.simps [of _ 0] decode_map.simps [of _ 0])


lemma item_bounds:
  "item data i d v j \<Longrightarrow> i < j \<and> j \<le> length data"
  "items data n i d vs j \<Longrightarrow> (i \<le> length data \<longrightarrow> i + n \<le> j \<and> j \<le> length data) \<and> length vs = n"
  "entries data n i d out m j \<Longrightarrow> i \<le> length data \<longrightarrow> i + 2 * n \<le> j \<and> j \<le> length data"
  by (induction rule: item_items_entries.inducts) (auto dest!: read_head_bounds dest: decode_leaf_bounds)

lemma cdepth_leaf: "decode_leaf data s m n i = Inr (v, j) \<Longrightarrow> cdepth v = 0 \<and> plain v"
  by (auto simp: decode_leaf_def result_simps Let_def split: if_splits)

lemma set_update: "\<not> has_key k d \<Longrightarrow> set (AList.update k v d) = insert (k, v) (set d)"
  by (simp add: update_new)

lemma item_shape:
  "item data i d v j \<Longrightarrow> plain v \<and> d + cdepth v \<le> CBOR_MAX_DEPTH"
  "items data n i d vs j \<Longrightarrow> \<forall>v\<in>set vs. plain v \<and> d + cdepth v \<le> CBOR_MAX_DEPTH"
  "entries data n i d out m j \<Longrightarrow> dict_ok out \<and> (\<forall>kv\<in>set out. plain (snd kv) \<and> d + cdepth (snd kv) \<le> CBOR_MAX_DEPTH)
     \<longrightarrow> dict_ok m \<and> (\<forall>kv\<in>set m. plain (snd kv) \<and> d + cdepth (snd kv) \<le> CBOR_MAX_DEPTH)"
proof (induction rule: item_items_entries.inducts)
  case (leaf d data s m n i v j)
  then show ?case using cdepth_leaf by auto
next
  case (array d data s n i vs j)
  then have "fold max (map (\<lambda>v. Suc (cdepth v)) vs) 0 \<le> CBOR_MAX_DEPTH - d" by (auto simp: fold_max_le)
  with array show ?case by (auto simp: list_all_iff)
next
  case (cmap d data s n i kvs j)
  then have "fold max (map (\<lambda>kv. Suc (cdepth (snd kv))) kvs) 0 \<le> CBOR_MAX_DEPTH - d"
    by (auto simp: fold_max_le dict_ok_def)
  with cmap show ?case by (auto simp: list_all_iff dict_ok_def)
qed (auto simp: set_update dict_ok_update)

text \<open>An item depends on its own bytes only: not on what surrounds it, nor on how deep it stands.\<close>

definition slice :: "nat \<Rightarrow> nat \<Rightarrow> bytes \<Rightarrow> bytes" where
  "slice i j data = take (j - i) (drop i data)"

lemma length_slice [simp]: "i \<le> j \<Longrightarrow> j \<le> length data \<Longrightarrow> length (slice i j data) = j - i"
  by (simp add: slice_def)

lemma slice_nth: "s \<le> i \<Longrightarrow> i < hi \<Longrightarrow> hi \<le> length data \<Longrightarrow> slice s hi data ! (i - s) = data ! i"
  by (simp add: slice_def)

lemma slice_take:
  "s \<le> i \<Longrightarrow> i + n \<le> hi \<Longrightarrow> hi \<le> length data \<Longrightarrow> take n (drop (i - s) (slice s hi data)) = take n (drop i data)"
  by (simp add: slice_def drop_take)

lemma read_head_slice:
  assumes "read_head data i = Inr (m, n, j)" "s \<le> i" "j \<le> hi" "hi \<le> length data"
  shows "read_head (slice s hi data) (i - s) = Inr (m, n, j - s)"
proof -
  have i: "i < hi" using assms read_head_bounds by fastforce
  have "slice s hi data ! (i - s) = data ! i" using assms i by (intro slice_nth) auto
  moreover have "take k (drop (Suc (i - s)) (slice s hi data)) = take k (drop (Suc i) data)"
    if "Suc i + k \<le> hi" for k
    using slice_take [of s "Suc i" k hi data] assms that by (simp add: Suc_diff_le)
  moreover have "length (slice s hi data) = hi - s" using assms i by simp
  moreover have "\<not> hi - s \<le> i - s" "hi - s < Suc (i - s) + k \<longleftrightarrow> hi < Suc i + k"
    "Suc (i - s) + k = Suc i + k - s" for k using assms(2) i by auto
  ultimately show ?thesis using assms(1,3,4) i Suc_diff_le [OF assms(2)]
    by (auto simp: read_head_def Let_def split: if_splits option.splits)
qed

lemma decode_leaf_slice:
  assumes "decode_leaf data q m n i = Inr (v, j)" "s \<le> q" "q < i" "j \<le> hi" "hi \<le> length data" "i \<le> length data"
  shows "decode_leaf (slice s hi data) (q - s) m n (i - s) = Inr (v, j - s)"
proof -
  have ij: "i \<le> j" using decode_leaf_bounds assms by blast
  then have "slice s hi data ! (q - s) = data ! q" using assms by (intro slice_nth) auto
  moreover have "take n (drop (i - s) (slice s hi data)) = take n (drop i data)" if "i + n \<le> hi"
    using assms that by (intro slice_take) auto
  moreover have "length (slice s hi data) = hi - s" using assms ij by simp
  ultimately show ?thesis using assms ij
    by (auto simp: decode_leaf_def Let_def result_simps split: if_splits)
qed

lemma item_slice:
  "item data i d v j \<Longrightarrow> s \<le> i \<Longrightarrow> j \<le> hi \<Longrightarrow> hi \<le> length data \<Longrightarrow> c \<le> d \<Longrightarrow>
     item (slice s hi data) (i - s) (d - c) v (j - s)"
  "items data n i d vs j \<Longrightarrow> s \<le> i \<Longrightarrow> i \<le> hi \<Longrightarrow> j \<le> hi \<Longrightarrow> hi \<le> length data \<Longrightarrow> c \<le> d \<Longrightarrow>
     items (slice s hi data) n (i - s) (d - c) vs (j - s)"
  "entries data n i d out m j \<Longrightarrow> s \<le> i \<Longrightarrow> i \<le> hi \<Longrightarrow> j \<le> hi \<Longrightarrow> hi \<le> length data \<Longrightarrow> c \<le> d \<Longrightarrow>
     entries (slice s hi data) n (i - s) (d - c) out m (j - s)"
proof (induction rule: item_items_entries.inducts)
  case (leaf d data q m n i v j)
  note b = read_head_bounds [OF leaf(2)]
  then have "i \<le> j" using decode_leaf_bounds [OF leaf(4)] by simp
  then show ?case
    using leaf b read_head_slice [OF leaf(2) leaf(5)] decode_leaf_slice [OF leaf(4) leaf(5)]
    by (intro item_items_entries.leaf [of _ _ _ m n "i - s"]) auto
next
  case (array d data q n i vs j)
  have "i \<le> j" using item_bounds(2) [OF array(3)] read_head_bounds [OF array(2)] by auto
  then show ?case
    using array read_head_bounds [OF array(2)] read_head_slice [OF array(2) array(5), of hi]
    by (intro item_items_entries.array [of _ _ _ n "i - s"]) (auto simp: Suc_diff_le)
next
  case (cmap d data q n i kvs j)
  have "i \<le> j" using item_bounds(3) [OF cmap(3)] read_head_bounds [OF cmap(2)] by auto
  then show ?case
    using cmap read_head_bounds [OF cmap(2)] read_head_slice [OF cmap(2) cmap(5), of hi]
    by (intro item_items_entries.cmap [of _ _ _ n "i - s"]) (auto simp: Suc_diff_le)
next
  case (tag d data q n i v j)
  have ij: "i < j" "q < i" using item_bounds(1) [OF tag(3)] read_head_bounds [OF tag(2)] by auto
  have "take (j - s - (q - s)) (drop (q - s) (slice s hi data)) = take (j - q) (drop q data)"
    using tag ij slice_take [of s q "j - q" hi data] by simp
  moreover have "item (slice s hi data) (q - s) (d - c)
      (CTag (int n) v (Some (take (j - s - (q - s)) (drop (q - s) (slice s hi data))))) (j - s)"
    using tag ij read_head_slice [OF tag(2) tag(5), of hi]
    by (intro item_items_entries.tag [of _ _ _ n "i - s"]) (auto simp: Suc_diff_le)
  ultimately show ?case by simp
next
  case (items_Suc data i d v j n vs k)
  then have "j \<le> k" using item_bounds(1) [OF items_Suc(1)] item_bounds(2) [OF items_Suc(2)] by auto
  with items_Suc item_bounds(1) [OF items_Suc(1)] show ?case
    by (intro item_items_entries.items_Suc [of _ _ _ _ "j - s"]) auto
next
  case (entries_Suc data i d ck j v k out n m l)
  note b = item_bounds(1) [OF entries_Suc(1)] item_bounds(1) [OF entries_Suc(2)]
  then have "k \<le> l" using item_bounds(3) [OF entries_Suc(4)] by auto
  with entries_Suc b show ?case
    by (intro item_items_entries.entries_Suc [of _ _ _ ck "j - s" v "k - s"]) auto
qed (auto intro: items_0 entries_0)

text \<open>Every tagged item inside a value.\<close>

fun tags :: "cbor \<Rightarrow> cbor list" where
  "tags (CList vs) = concat (map tags vs)"
| "tags (CMap kvs) = concat (map (\<lambda>kv. tags (snd kv)) kvs)"
| "tags (CTag t v raw) = CTag t v raw # tags v"
| "tags _ = []"

definition received :: "bytes \<Rightarrow> cbor \<Rightarrow> bool" where
  "received data t \<longleftrightarrow> (\<exists>s d n v j. item data s d t j \<and> t = CTag n v (Some (slice s j data)))"

lemma item_tags:
  "item data i d v j \<Longrightarrow> list_all (received data) (tags v)"
  "items data n i d vs j \<Longrightarrow> \<forall>v\<in>set vs. list_all (received data) (tags v)"
  "entries data n i d out m j \<Longrightarrow> \<forall>kv\<in>set out. list_all (received data) (tags (snd kv)) \<Longrightarrow>
     \<forall>kv\<in>set m. list_all (received data) (tags (snd kv))"
proof (induction rule: item_items_entries.inducts)
  case (leaf d data s m n i v j)
  then show ?case by (auto simp: decode_leaf_def result_simps Let_def split: if_splits)
next
  case (tag d data s n i v j)
  then show ?case
    using item_items_entries.tag [OF tag(1-3)] by (auto simp: received_def slice_def)
qed (auto simp: list_all_iff set_update)

lemma decode_iff: "decode data = Inr v \<longleftrightarrow> item data 0 0 v (length data)"
proof
  assume "decode data = Inr v"
  then have "decode_at data 0 0 = Inr (v, length data)"
    by (auto simp: decode_def bindR_Inr split: if_splits)
  then show "item data 0 0 v (length data)" by (rule decode_sound(1))
next
  assume "item data 0 0 v (length data)"
  then have "decode_at data 0 0 = Inr (v, length data)" by (rule decode_complete(1))
  then show "decode data = Inr v" by (simp add: decode_def)
qed

lemma received_decode:
  assumes "received data t"
  obtains n v raw pre post where "t = CTag n v (Some raw)" "decode raw = Inr t" "data = pre @ raw @ post"
proof -
  from assms obtain s d n v j where t: "item data s d t j" "t = CTag n v (Some (slice s j data))"
    by (auto simp: received_def)
  note b = item_bounds(1) [OF t(1)]
  have "item (slice s j data) (s - s) (d - d) t (j - s)"
    using b by (intro item_slice(1) [OF t(1)]) auto
  then have "decode (slice s j data) = Inr t" using b by (simp add: decode_iff)
  moreover have "data = take s data @ slice s j data @ drop j data"
    using b by (simp add: slice_def) (metis append_take_drop_id drop_drop le_add_diff_inverse2 less_imp_le)
  ultimately show ?thesis using that t(2) by blast
qed


section \<open>Properties\<close>

text \<open>(C39) Round trip: what the encoder produces for a value of the profile nested at most 64 deep, the decoder reads
  back as that value, with its maps in the order of their encoded keys and every tag carrying its own bytes.\<close>

theorem cbor_roundtrip:
  assumes "encode v = Inr b" "plain v" "cdepth v \<le> 64"
  shows "decode b = Inr (canon v)"
  using decodes_plain [OF assms(2)] assms(1,3)
  by (auto simp: decodes_def decode_def CBOR_MAX_DEPTH_def dest: spec [of _ b])

theorem cbor_roundtrip_witness:
  "decode [162, 1, 246, 24, 100, 130, 65, 7, 32] = Inr (CMap [(KInt 1, CNull), (KInt 100, CList [CBytes [7], CInt (- 1)])])"
proof -
  let ?v = "CMap [(KInt 100, CList [CBytes [7], CInt (- 1)]), (KInt 1, CNull)]"
  have k: "key_bytes (KInt 100) = [24, 100]" "key_bytes (KInt 1) = [1]"
    by (simp_all add: key_bytes_def encode_int_def head_bytes_def Let_def)
  have "encode ?v = Inr [162, 1, 246, 24, 100, 130, 65, 7, 32]"
    by (simp add: sorted_items_def encode_int_def encode_bstr_def head_then_def head_bytes_def Let_def)
  then have "decode [162, 1, 246, 24, 100, 130, 65, 7, 32] = Inr (canon ?v)"
    by (rule cbor_roundtrip) (simp_all add: dict_ok_def)
  then show ?thesis by (simp add: k)
qed

text \<open>Deterministic encoding: two dicts with the same entries in any insertion order encode to the same bytes (or
  both fail).\<close>

theorem cbor_deterministic:
  assumes "encode (CMap kvs) = Inr b" "dict_ok kvs" "mset kvs = mset kvs'"
  shows "encode (CMap kvs') = Inr b"
proof -
  obtain ps where ps: "sorted_items kvs = Inr ps" using assms(1) by (auto simp: result_simps)
  note q = sorted_items_eq [OF ps]
  have ok: "\<forall>kv\<in>set kvs'. isOk (encode_key (fst kv))" using q(2) mset_eq_setD [OF assms(3)] by simp
  have inj: "inj_on (\<lambda>kv. key_bytes (fst kv)) (set kvs)"
  proof (rule inj_onI)
    fix x y assume *: "x \<in> set kvs" "y \<in> set kvs" "key_bytes (fst x) = key_bytes (fst y)"
    then obtain a b where "encode_key (fst x) = Inr a" "encode_key (fst y) = Inr b"
      using q(2) by (meson isOk_iff)
    then have "fst x = fst y" using *(3) encode_key_inj by (auto simp: key_bytes_def)
    with * assms(2) show "x = y" by (metis dict_ok_def map_of_is_SomeI option.inject prod.collapse)
  qed
  have "sort_key (\<lambda>kv. key_bytes (fst kv)) kvs = sort_key (\<lambda>kv. key_bytes (fst kv)) kvs'"
    using assms(2,3) inj mset_eq_setD [OF assms(3)] mset_eq_imp_distinct_iff [OF assms(3)]
    by (intro map_sorted_distinct_set_unique [of "\<lambda>kv. key_bytes (fst kv)"])
       (auto simp: dict_ok_def distinct_map)
  moreover have "sorted_items kvs' =
      Inr (map (\<lambda>kv. (key_bytes (fst kv), snd kv)) (sort_key (\<lambda>kv. key_bytes (fst kv)) kvs'))"
    using ok by (rule sorted_items_total)
  ultimately show ?thesis using assms(1) ps q(1) by simp
qed

theorem cbor_deterministic_witness:
  "encode (CMap [(KInt 1, CNull), (KInt 100, CNull)]) = Inr [162, 1, 246, 24, 100, 246]"
proof -
  have "encode (CMap [(KInt 100, CNull), (KInt 1, CNull)]) = Inr [162, 1, 246, 24, 100, 246]"
    by (simp add: sorted_items_def encode_int_def head_then_def head_bytes_def Let_def)
  then show ?thesis by (rule cbor_deterministic) (simp_all add: dict_ok_def)
qed

text \<open>Fail-closed decoding of arbitrary bytes: the decoder returns on every input, raises nothing but \<open>CborError\<close>, and
  a value it returns is nested at most 64 deep and has no duplicate map key.\<close>

theorem cbor_decode_safe:
  "(\<exists>v. decode data = Inr v \<and> plain v \<and> cdepth v \<le> 64) \<or> decode data = Inl CborError"
proof (cases "decode data")
  case (Inl e)
  then show ?thesis by (auto simp: decode_def result_simps split: if_splits dest: decode_error(1))
next
  case (Inr v)
  then have "item data 0 0 v (length data)" by (simp add: decode_iff)
  from item_shape(1) [OF this] Inr show ?thesis by (auto simp: CBOR_MAX_DEPTH_def)
qed

text \<open>Bytes as received: every tagged item inside a decoded value carries bytes that are a contiguous part of the
  input and that decode, on their own, to exactly that tagged item.\<close>

theorem cbor_raw_exact:
  assumes "decode data = Inr v" "t \<in> set (tags v)"
  shows "\<exists>n w raw pre post. t = CTag n w (Some raw) \<and> decode raw = Inr t \<and> data = pre @ raw @ post"
proof -
  have "received data t"
    using item_tags(1) [of data 0 0 v "length data"] assms by (auto simp: decode_iff list_all_iff)
  then show ?thesis by (meson received_decode)
qed

theorem cbor_raw_exact_witness:
  "decode [129, 198, 24, 5] = Inr (CList [CTag 6 (CInt 5) (Some [198, 24, 5])]) \<and>
   decode [198, 24, 5] = Inr (CTag 6 (CInt 5) (Some [198, 24, 5]))"
proof -
  have d: "decode [129, 198, 24, 5] = Inr (CList [CTag 6 (CInt 5) (Some [198, 24, 5])])"
    by (simp add: decode_def decode_at.simps [of _ 0 0] decode_at.simps [of _ "Suc 0" "Suc 0"]
        decode_at.simps [of _ "Suc (Suc 0)" "Suc (Suc 0)"] decode_list_Suc decode_list.simps [of _ 0] read_head_def
        arg_width_def decode_leaf_def from_bytes_def CBOR_MAX_DEPTH_def)
  from cbor_raw_exact [OF this] d show ?thesis by auto
qed

text \<open>A length cannot outrun its bytes: an accepted array of \<open>n\<close> items occupies at least \<open>n + 1\<close> bytes, so
  the number of items the decoder materialises never exceeds the size of the input.\<close>

theorem cbor_array_bounded:
  assumes "decode data = Inr (CList vs)"
  shows "length vs < length data"
proof -
  from assms have "item data 0 0 (CList vs) (length data)" by (simp add: decode_iff)
  then show ?thesis
  proof cases
    case (leaf m n i)
    then show ?thesis by (auto simp: decode_leaf_def result_simps Let_def split: if_splits)
  next
    case (array n i)
    then show ?thesis using item_bounds(2) [OF array(3)] read_head_bounds [OF array(2)] by auto
  qed
qed

theorem cbor_array_bounded_witness: "decode [129, 5] = Inr (CList [CInt 5]) \<and> length [CInt 5] < length [129, 5 :: byte]"
proof -
  have d: "decode [129, 5] = Inr (CList [CInt 5])"
    by (simp add: decode_def decode_at.simps decode_list_Suc decode_list.simps [of _ 0] read_head_def
        decode_leaf_def CBOR_MAX_DEPTH_def)
  from cbor_array_bounded [OF this] d show ?thesis by simp
qed

end
