(* ===== verification/Issuer_Key.thy ===== *)
theory Issuer_Key
  imports Cred_Schema Cbor
begin

text \<open>
  Keys of issuers that are not DIDs: openvc/jwt_vc_issuer.py, which finds the key of an https issuer through its well-known
  metadata, and openvc/x5c.py, which takes it from a certificate chain. Parsing and path validation of certificates are
  the parameter record \<open>x509\<close>; a certificate is a handle. \<open>ip_literal\<close> says whether the text between brackets of a URL host is
  an address the standard library accepts.
\<close>

section \<open>URL parsing\<close>

text \<open>
  \<open>urlparse\<close> of a text without white space, control characters, \<open>;\<close>, \<open>?\<close> and \<open>#\<close>, which the caller has refused:
  scheme, authority and path. \<open>None\<close> is \<open>ValueError\<close>.
\<close>

record url =
  u_scheme :: str
  u_netloc :: str
  u_path :: str

definition scheme_char :: "nat \<Rightarrow> bool" where
  "scheme_char c = (is_alnum c \<or> c \<in> {43, 45, 46})"

definition url_scheme :: "str \<Rightarrow> str \<times> str" where
  "url_scheme s =
     (let p = takeWhile (\<lambda>c. c \<noteq> 58) s
      in if p \<noteq> [] \<and> p \<noteq> s \<and> list_all scheme_char p \<and> is_alnum (hd p) \<and> \<not> (48 \<le> hd p \<and> hd p \<le> 57)
         then (lower p, drop (Suc (length p)) s) else ([], s))"

definition brackets_ok :: "(str \<Rightarrow> bool) \<Rightarrow> str \<Rightarrow> bool" where
  "brackets_ok ip_literal netloc = ((91 \<in> set netloc) = (93 \<in> set netloc) \<and> (91 \<in> set netloc \<longrightarrow> ip_literal netloc))"

definition urlparse :: "(str \<Rightarrow> bool) \<Rightarrow> str \<Rightarrow> url option" where
  "urlparse ip_literal s =
     (let (scheme, rest) = url_scheme s
      in if starts_with (lit ''//'') rest
         then (let netloc = takeWhile (\<lambda>c. c \<noteq> 47) (drop 2 rest)
               in if brackets_ok ip_literal netloc
                  then Some \<lparr>u_scheme = scheme, u_netloc = netloc, u_path = dropWhile (\<lambda>c. c \<noteq> 47) (drop 2 rest)\<rparr>
                  else None)
         else Some \<lparr>u_scheme = scheme, u_netloc = [], u_path = rest\<rparr>)"

text \<open>\<open>netloc.rpartition("@")[2]\<close>\<close>

definition host_info :: "str \<Rightarrow> str" where
  "host_info netloc = rev (takeWhile (\<lambda>c. c \<noteq> 64) (rev netloc))"

definition raw_host_port :: "str \<Rightarrow> str \<times> str" where
  "raw_host_port netloc =
     (let info = host_info netloc
      in if 91 \<in> set info
         then (let (host, after) = partition_at 93 (snd (partition_at 91 info)) in (host, snd (partition_at 58 after)))
         else partition_at 58 info)"

definition url_hostname :: "url \<Rightarrow> str option" where
  "url_hostname u =
     (let host = fst (raw_host_port (u_netloc u))
      in if host = [] then None
         else Some (lower (takeWhile (\<lambda>c. c \<noteq> 37) host) @ dropWhile (\<lambda>c. c \<noteq> 37) host))"

text \<open>\<open>.port\<close>: \<open>None\<close> without one, \<open>ValueError\<close> unless it is a decimal number up to 65535.\<close>

definition url_port :: "url \<Rightarrow> nat option result" where
  "url_port u =
     (let port = snd (raw_host_port (u_netloc u))
      in if port = [] then Inr None
         else if is_digits port \<and> nat_of_digits port \<le> 65535 then Inr (Some (nat_of_digits port)) else Inl PyValueError)"

definition has_userinfo :: "url \<Rightarrow> bool" where
  "has_userinfo u = (64 \<in> set (u_netloc u))"

section \<open>The https issuer\<close>

definition WELL_KNOWN :: str where "WELL_KNOWN = lit ''/.well-known/jwt-vc-issuer''"

definition DOT_SEGMENTS :: "str list" where
  "DOT_SEGMENTS = [lit ''.'', lit ''..'', lit ''%2e'', lit ''.%2e'', lit ''%2e.'', lit ''%2e%2e'']"

definition raw_url_disagreement :: "str \<Rightarrow> bool" where
  "raw_url_disagreement s = (\<not> is_ascii s \<or> 92 \<in> set s \<or> list_ex (\<lambda>c. c \<in> set s) [59, 63, 35])"

definition parsed_url_disagreement :: "url \<Rightarrow> nat option \<Rightarrow> bool" where
  "parsed_url_disagreement u port =
     (37 \<in> set (u_netloc u) \<or> port = Some 0 \<or> list_ex (\<lambda>seg. lower seg \<in> set DOT_SEGMENTS) (split_on 47 (u_path u)))"

definition parse_https_issuer :: "(str \<Rightarrow> bool) \<Rightarrow> str \<Rightarrow> url result" where
  "parse_https_issuer ip_literal iss =
     (if list_ex (\<lambda>c. c < 33 \<or> c = 127) iss then Inl JwtVcIssuerError
      else if raw_url_disagreement iss then Inl JwtVcIssuerError
      else case urlparse ip_literal iss of
             None \<Rightarrow> Inl JwtVcIssuerError
           | Some u \<Rightarrow>
               bindR (catchR is_value_error JwtVcIssuerError (url_port u)) (\<lambda>port.
                 if u_scheme u \<noteq> lit ''https'' then Inl JwtVcIssuerError
                 else if (case url_hostname u of None \<Rightarrow> True | Some h \<Rightarrow> list_all (\<lambda>c. c = 46) h) then Inl JwtVcIssuerError
                 else if has_userinfo u then Inl JwtVcIssuerError
                 else if parsed_url_disagreement u port then Inl JwtVcIssuerError
                 else Inr u))"

definition jwt_vc_issuer_metadata_url :: "(str \<Rightarrow> bool) \<Rightarrow> str \<Rightarrow> str result" where
  "jwt_vc_issuer_metadata_url ip_literal iss =
     bindR (parse_https_issuer ip_literal iss) (\<lambda>u.
       Inr (lit ''https://'' @ u_netloc u @ WELL_KNOWN @ (if u_path u = lit ''/'' then [] else u_path u)))"

definition public_keys :: "json list \<Rightarrow> jobj list" where
  "public_keys keys = concat (map (\<lambda>k. case k of JObj d \<Rightarrow> if has_key (lit ''d'') d then [] else [d] | _ \<Rightarrow> []) keys)"

definition select_key :: "json list \<Rightarrow> str option \<Rightarrow> jobj result" where
  "select_key keys kid =
     (case public_keys keys of
        [] \<Rightarrow> Inl JwtVcIssuerError
      | candidates \<Rightarrow>
          (case kid of
             Some k \<Rightarrow> (case filter (\<lambda>d. jget (lit ''kid'') d = JStr k) candidates of d # _ \<Rightarrow> Inr d | [] \<Rightarrow> Inl JwtVcIssuerError)
           | None \<Rightarrow> (case candidates of [d] \<Rightarrow> Inr d | _ \<Rightarrow> Inl JwtVcIssuerError)))"

text \<open>The inline key set, or the URL to fetch it from.\<close>

definition inline_jwks_or_uri :: "json \<Rightarrow> str \<Rightarrow> (json + str) result" where
  "inline_jwks_or_uri metadata iss =
     bindR (as_object JwtVcIssuerError metadata) (\<lambda>m.
       if nesting_exceeds metadata MAX_DEPTH then Inl JwtVcIssuerError
       else if jget (lit ''issuer'') m \<noteq> JStr iss then Inl JwtVcIssuerError
       else if jget (lit ''jwks'') m \<noteq> JNull then Inr (Inl (jget (lit ''jwks'') m))
       else case text_opt (jget (lit ''jwks_uri'') m) of None \<Rightarrow> Inl JwtVcIssuerError | Some u \<Rightarrow> Inr (Inr u))"

definition key_from_jwks :: "json \<Rightarrow> str option \<Rightarrow> jobj result" where
  "key_from_jwks jwks kid =
     (if nesting_exceeds jwks MAX_DEPTH then Inl JwtVcIssuerError
      else case (case jwks of JObj d \<Rightarrow> jget (lit ''keys'') d | _ \<Rightarrow> JNull) of
             JList keys \<Rightarrow> if keys = [] then Inl JwtVcIssuerError else select_key keys kid
           | _ \<Rightarrow> Inl JwtVcIssuerError)"

definition resolve_jwt_vc_issuer_key ::
    "(str \<Rightarrow> bool) \<Rightarrow> (str \<Rightarrow> json result) \<Rightarrow> str \<Rightarrow> str option \<Rightarrow> jobj result" where
  "resolve_jwt_vc_issuer_key ip_literal fetch iss kid =
     bindR (jwt_vc_issuer_metadata_url ip_literal iss) (\<lambda>u.
     bindR (fetch u) (\<lambda>metadata.
     bindR (inline_jwks_or_uri metadata iss) (\<lambda>src.
     bindR (case src of Inl jwks \<Rightarrow> Inr jwks | Inr uri \<Rightarrow> fetch uri) (\<lambda>jwks.
       key_from_jwks jwks kid))))"

section \<open>Certificate chains\<close>

datatype cert_key = EcKey str nat nat | EdKey bytes | OtherKey

record x509 =
  x_load :: "bytes \<Rightarrow> nat option"
  x_path :: "nat list \<Rightarrow> int \<Rightarrow> nat \<Rightarrow> nat list \<Rightarrow> bool"
  x_san :: "nat \<Rightarrow> (str list \<times> str list) option"
  x_key :: "nat \<Rightarrow> cert_key"
  x_eku :: "nat \<Rightarrow> str list option"
  x_window :: "nat \<Rightarrow> int \<times> int"

definition load_x5c_entry :: "x509 \<Rightarrow> json \<Rightarrow> nat result" where
  "load_x5c_entry X entry =
     (case text_opt entry of
        None \<Rightarrow> Inl X5cError
      | Some t \<Rightarrow> (case b64decode t of
                     Inl e \<Rightarrow> Inl X5cError
                   | Inr der \<Rightarrow> (case x_load X der of None \<Rightarrow> Inl X5cError | Some c \<Rightarrow> Inr c)))"

definition load_x5c_chain :: "x509 \<Rightarrow> json \<Rightarrow> nat list result" where
  "load_x5c_chain X x5c =
     (case x5c of JList xs \<Rightarrow> if xs = [] then Inl X5cError else mapR (load_x5c_entry X) xs | _ \<Rightarrow> Inl X5cError)"

definition check_issuer_binding :: "(str \<Rightarrow> bool) \<Rightarrow> x509 \<Rightarrow> nat \<Rightarrow> str \<Rightarrow> unit result" where
  "check_issuer_binding ip_literal X leaf iss =
     (case x_san X leaf of
        None \<Rightarrow> Inl X5cError
      | Some (uris, dns) \<Rightarrow>
          if iss \<in> set uris then Inr ()
          else (case parse_https_issuer ip_literal iss of
                  Inl e \<Rightarrow> Inl X5cError
                | Inr u \<Rightarrow> (case url_hostname u of
                              None \<Rightarrow> Inl X5cError
                            | Some host \<Rightarrow> if host \<noteq> [] \<and> host \<in> set dns then Inr () else Inl X5cError)))"

definition leaf_p256_jwk :: "x509 \<Rightarrow> nat \<Rightarrow> jobj result" where
  "leaf_p256_jwk X leaf =
     (case x_key X leaf of
        EcKey curve x y \<Rightarrow> if curve = lit ''P-256'' then Inr (ec_jwk curve 32 (x, y)) else Inl X5cError
      | _ \<Rightarrow> Inl X5cError)"

text \<open>A trust anchor that is not a certificate is \<open>None\<close> and left out; \<open>x_path\<close> is the library's path validation.\<close>

definition validate_cert_chain :: "x509 \<Rightarrow> int \<Rightarrow> nat \<Rightarrow> nat list \<Rightarrow> nat option list \<Rightarrow> clock_pin \<Rightarrow> unit result" where
  "validate_cert_chain X clock leaf intermediates trust_anchors now =
     (let anchors = map the (filter (\<lambda>a. a \<noteq> None) trust_anchors)
      in if anchors = [] then Inl X5cError
         else bindR (utc_instant clock X5cError now) (\<lambda>t.
           if x_path X anchors t leaf intermediates then Inr () else Inl X5cError))"

definition resolve_x5c_key ::
    "(str \<Rightarrow> bool) \<Rightarrow> x509 \<Rightarrow> int \<Rightarrow> json \<Rightarrow> str \<Rightarrow> nat option list \<Rightarrow> clock_pin \<Rightarrow> jobj result" where
  "resolve_x5c_key ip_literal X clock x5c iss trust_anchors now =
     bindR (load_x5c_chain X x5c) (\<lambda>chain.
     bindR (validate_cert_chain X clock (hd chain) (tl chain) trust_anchors now) (\<lambda>_.
     bindR (check_issuer_binding ip_literal X (hd chain) iss) (\<lambda>_. leaf_p256_jwk X (hd chain))))"

section \<open>The mdoc signer\<close>

definition MDOC_DS_EKU_OID :: str where "MDOC_DS_EKU_OID = lit ''1.0.18013.5.1.2''"

definition load_der_entry :: "x509 \<Rightarrow> cbor \<Rightarrow> nat result" where
  "load_der_entry X der =
     (case der of CBytes b \<Rightarrow> (case x_load X b of None \<Rightarrow> Inl X5cError | Some c \<Rightarrow> Inr c) | _ \<Rightarrow> Inl X5cError)"

definition load_der_chain :: "x509 \<Rightarrow> cbor \<Rightarrow> nat list result" where
  "load_der_chain X x5chain =
     (case x5chain of CList xs \<Rightarrow> if xs = [] then Inl X5cError else mapR (load_der_entry X) xs | _ \<Rightarrow> Inl X5cError)"

definition leaf_public_jwk :: "x509 \<Rightarrow> nat \<Rightarrow> jobj result" where
  "leaf_public_jwk X leaf =
     (case x_key X leaf of
        EcKey curve x y \<Rightarrow>
          (if curve = lit ''P-256'' then Inr (ec_jwk curve 32 (x, y))
           else if curve = lit ''P-384'' then Inr (ec_jwk curve 48 (x, y))
           else Inl X5cError)
      | EdKey raw \<Rightarrow> Inr (okp_jwk raw)
      | OtherKey \<Rightarrow> Inl X5cError)"

definition require_mdoc_ds_eku :: "x509 \<Rightarrow> nat \<Rightarrow> unit result" where
  "require_mdoc_ds_eku X leaf =
     (case x_eku X leaf of
        None \<Rightarrow> Inl X5cError
      | Some eku \<Rightarrow> if MDOC_DS_EKU_OID \<in> set eku then Inr () else Inl X5cError)"

definition check_mdoc_signed_within_ds_validity :: "x509 \<Rightarrow> cbor \<Rightarrow> int \<Rightarrow> unit result" where
  "check_mdoc_signed_within_ds_validity X x5chain signed_at =
     bindR (load_der_chain X x5chain) (\<lambda>chain.
       let (nb, na) = x_window X (hd chain) in if nb \<le> signed_at \<and> signed_at \<le> na then Inr () else Inl X5cError)"

definition resolve_mdoc_signer_key :: "x509 \<Rightarrow> int \<Rightarrow> cbor \<Rightarrow> nat option list \<Rightarrow> clock_pin \<Rightarrow> jobj result" where
  "resolve_mdoc_signer_key X clock x5chain trust_anchors now =
     bindR (load_der_chain X x5chain) (\<lambda>chain.
     bindR (validate_cert_chain X clock (hd chain) (tl chain) trust_anchors now) (\<lambda>_.
     bindR (require_mdoc_ds_eku X (hd chain)) (\<lambda>_. leaf_public_jwk X (hd chain))))"

section \<open>Lemmas\<close>

lemma url_scheme_split: "url_scheme s = (scheme, rest) \<Longrightarrow> scheme \<noteq> [] \<Longrightarrow> \<exists>p. s = p @ 58 # rest \<and> lower p = scheme"
proof -
  let ?p = "takeWhile (\<lambda>c. c \<noteq> 58) s"
  assume a: "url_scheme s = (scheme, rest)" "scheme \<noteq> []"
  then have k: "?p \<noteq> s" "scheme = lower ?p" "rest = drop (Suc (length ?p)) s"
    by (auto simp: url_scheme_def Let_def split: if_splits)
  from k(1) obtain t where d: "dropWhile (\<lambda>c. c \<noteq> 58) s = 58 # t"
    by (cases "dropWhile (\<lambda>c. c \<noteq> 58) s")
      (metis append_Nil2 takeWhile_dropWhile_id, metis (mono_tags, lifting) dropWhile_eq_Cons_conv)
  have s: "s = ?p @ 58 # t" using d takeWhile_dropWhile_id [of "\<lambda>c. c \<noteq> 58" s] by simp
  then have "rest = t" using k(3) by (metis append_Cons append_Nil append_assoc append_eq_conv_conj length_append_singleton)
  with s k(2) show ?thesis by metis
qed

lemma urlparse_split:
  assumes "urlparse ip s = Some u" "u_scheme u \<noteq> []" "u_netloc u \<noteq> []"
  shows "\<exists>p. s = p @ lit ''://'' @ u_netloc u @ u_path u \<and> lower p = u_scheme u \<and> 47 \<notin> set (u_netloc u) \<and>
     (u_path u = [] \<or> hd (u_path u) = 47)"
proof -
  obtain scheme rest where r: "url_scheme s = (scheme, rest)" by (cases "url_scheme s")
  with assms have k: "scheme = u_scheme u" "starts_with (lit ''//'') rest" "u_netloc u = takeWhile (\<lambda>c. c \<noteq> 47) (drop 2 rest)"
    "u_path u = dropWhile (\<lambda>c. c \<noteq> 47) (drop 2 rest)"
    by (auto simp: urlparse_def Let_def split: if_splits)
  obtain p where p: "s = p @ 58 # rest" "lower p = scheme" using url_scheme_split [OF r] k(1) assms(2) by auto
  have "rest = lit ''//'' @ drop 2 rest" using k(2) by (auto simp: starts_with_iff lit_def)
  also have "drop 2 rest = u_netloc u @ u_path u" using k(3,4) by simp
  finally have "s = p @ lit ''://'' @ u_netloc u @ u_path u" using p(1) by (simp add: lit_def)
  moreover have "47 \<notin> set (u_netloc u)" using k(3) by (auto dest: set_takeWhileD)
  moreover have "u_path u = [] \<or> hd (u_path u) = 47" using k(4) by (metis (mono_tags) hd_dropWhile)
  ultimately show ?thesis using p(2) k(1) by blast
qed

lemma hostname_netloc: "url_hostname u = Some h \<Longrightarrow> u_netloc u \<noteq> []"
  by (auto simp: url_hostname_def raw_host_port_def host_info_def partition_at_def Let_def split: if_splits)

lemma parse_https_issuer_Inr:
  assumes "parse_https_issuer ip iss = Inr u"
  shows "\<exists>p. iss = p @ lit ''://'' @ u_netloc u @ u_path u \<and> lower p = lit ''https'' \<and>
     u_netloc u \<noteq> [] \<and> (\<forall>c\<in>{47, 64, 37, 92}. c \<notin> set (u_netloc u)) \<and> (u_path u = [] \<or> hd (u_path u) = 47) \<and>
     (\<forall>seg\<in>set (split_on 47 (u_path u)). lower seg \<notin> set DOT_SEGMENTS)"
proof -
  have k: "\<not> raw_url_disagreement iss" "urlparse ip iss = Some u" "u_scheme u = lit ''https''" "\<exists>h. url_hostname u = Some h"
    "\<not> has_userinfo u" "\<exists>port. \<not> parsed_url_disagreement u port"
    using assms by (auto simp: parse_https_issuer_def bindR_Inr split: if_splits option.splits)
  have n: "u_netloc u \<noteq> []" using k(4) hostname_netloc by blast
  obtain p where p: "iss = p @ lit ''://'' @ u_netloc u @ u_path u" "lower p = u_scheme u" "47 \<notin> set (u_netloc u)"
    "u_path u = [] \<or> hd (u_path u) = 47"
    using urlparse_split [OF k(2)] k(3) n by (auto simp: lit_def)
  have "92 \<notin> set iss" using k(1) by (simp add: raw_url_disagreement_def)
  then have "92 \<notin> set (u_netloc u)" using p(1) by (metis UnCI set_append)
  moreover have "64 \<notin> set (u_netloc u)" "37 \<notin> set (u_netloc u)" "\<forall>seg\<in>set (split_on 47 (u_path u)). lower seg \<notin> set DOT_SEGMENTS"
    using k(5,6) by (auto simp: has_userinfo_def parsed_url_disagreement_def list_ex_iff)
  ultimately show ?thesis using p k(3) n by auto
qed

lemma metadata_url_Inr:
  assumes "jwt_vc_issuer_metadata_url ip iss = Inr u"
  shows "\<exists>p netloc path. iss = p @ lit ''://'' @ netloc @ path \<and> lower p = lit ''https'' \<and> netloc \<noteq> [] \<and>
     (\<forall>c\<in>{47, 64, 37, 92}. c \<notin> set netloc) \<and> (path = [] \<or> hd path = 47) \<and>
     (\<forall>seg\<in>set (split_on 47 path). lower seg \<notin> set DOT_SEGMENTS) \<and>
     u = lit ''https://'' @ netloc @ WELL_KNOWN @ (if path = lit ''/'' then [] else path)"
proof -
  obtain v where "parse_https_issuer ip iss = Inr v"
    "u = lit ''https://'' @ u_netloc v @ WELL_KNOWN @ (if u_path v = lit ''/'' then [] else u_path v)"
    using assms by (auto simp: jwt_vc_issuer_metadata_url_def bindR_Inr)
  with parse_https_issuer_Inr show ?thesis by metis
qed

lemma public_keys_set: "d \<in> set (public_keys keys) \<longleftrightarrow> JObj d \<in> set keys \<and> \<not> has_key (lit ''d'') d"
proof
  assume "d \<in> set (public_keys keys)"
  then obtain k where "k \<in> set keys" "d \<in> set (case k of JObj d \<Rightarrow> if has_key (lit ''d'') d then [] else [d] | _ \<Rightarrow> [])"
    by (auto simp: public_keys_def)
  then show "JObj d \<in> set keys \<and> \<not> has_key (lit ''d'') d" by (cases k) (auto split: if_splits)
next
  assume "JObj d \<in> set keys \<and> \<not> has_key (lit ''d'') d"
  then show "d \<in> set (public_keys keys)" by (auto simp: public_keys_def intro: bexI [of _ "JObj d"])
qed

lemma select_key_Inr:
  assumes "select_key keys kid = Inr jwk"
  shows "JObj jwk \<in> set keys" "\<not> has_key (lit ''d'') jwk"
    "case kid of Some k \<Rightarrow> jget (lit ''kid'') jwk = JStr k | None \<Rightarrow> public_keys keys = [jwk]"
proof -
  obtain c cs where c: "public_keys keys = c # cs" using assms by (cases "public_keys keys") (auto simp: select_key_def)
  have "jwk \<in> set (public_keys keys) \<and> (case kid of Some k \<Rightarrow> jget (lit ''kid'') jwk = JStr k | None \<Rightarrow> public_keys keys = [jwk])"
  proof (cases kid)
    case None
    then show ?thesis using assms c by (auto simp: select_key_def split: list.splits)
  next
    case (Some k)
    then obtain ds where "filter (\<lambda>d. jget (lit ''kid'') d = JStr k) (c # cs) = jwk # ds"
      using assms c by (auto simp: select_key_def split: list.splits)
    then have "jwk \<in> set (filter (\<lambda>d. jget (lit ''kid'') d = JStr k) (c # cs))" by simp
    with Some c show ?thesis by (simp only: set_filter) auto
  qed
  then show "JObj jwk \<in> set keys" "\<not> has_key (lit ''d'') jwk"
    "case kid of Some k \<Rightarrow> jget (lit ''kid'') jwk = JStr k | None \<Rightarrow> public_keys keys = [jwk]"
    by (auto simp: public_keys_set)
qed

lemma key_from_jwks_Inr:
  "key_from_jwks jwks kid = Inr jwk \<Longrightarrow> \<exists>d keys. jwks = JObj d \<and> jget (lit ''keys'') d = JList keys \<and> select_key keys kid = Inr jwk"
  by (cases jwks) (auto simp: key_from_jwks_def split: if_splits json.split_asm)

lemma inline_Inr:
  "inline_jwks_or_uri metadata iss = Inr src \<Longrightarrow> \<exists>m. metadata = JObj m \<and> jget (lit ''issuer'') m = JStr iss \<and>
     (case src of Inl jwks \<Rightarrow> jwks = jget (lit ''jwks'') m | Inr uri \<Rightarrow> jget (lit ''jwks'') m = JNull \<and> jget (lit ''jwks_uri'') m = JStr uri)"
proof -
  have t: "text_opt v = Some x \<longleftrightarrow> v = JStr x" for v x by (cases v) auto
  assume "inline_jwks_or_uri metadata iss = Inr src"
  then show ?thesis by (auto simp: inline_jwks_or_uri_def bindR_Inr as_object_Inr t split: if_splits option.splits)
qed

section \<open>Properties\<close>


text \<open>An issuer and its metadata.\<close>

definition ex_iss :: str where "ex_iss = lit ''https://a.b''"

definition ex_metadata :: json where
  "ex_metadata = JObj [(lit ''issuer'', JStr ex_iss), (lit ''jwks'', JObj [(lit ''keys'', JList [JObj [(lit ''kid'', JStr (lit ''k''))]])])]"

lemma ex_metadata_url: "jwt_vc_issuer_metadata_url (\<lambda>_. False) ex_iss = Inr (lit ''https://a.b/.well-known/jwt-vc-issuer'')"
  by (code_simp)


text \<open>A key taken from a certificate chain belongs to a leaf whose path validates to a given anchor at the evaluation instant
  and whose subject alternative names hold the issuer: its exact URI, or as a DNS name the host of a clean https issuer. Only
  P-256 keys come out, and every failure is an \<open>X5cError\<close>.\<close>

theorem x5c_key_bound:
  "case resolve_x5c_key ip X clock x5c iss trust_anchors now of
     Inl e \<Rightarrow> e = X5cError
   | Inr jwk \<Rightarrow> (\<exists>xs chain uris dns t x y. x5c = JList xs \<and> list_all2 (\<lambda>e c. load_x5c_entry X e = Inr c) xs chain \<and> chain \<noteq> [] \<and>
        utc_instant clock X5cError now = Inr t \<and>
        x_path X (map the (filter (\<lambda>a. a \<noteq> None) trust_anchors)) t (hd chain) (tl chain) \<and>
        x_san X (hd chain) = Some (uris, dns) \<and>
        (iss \<in> set uris \<or> (\<exists>u host. parse_https_issuer ip iss = Inr u \<and> url_hostname u = Some host \<and> host \<in> set dns)) \<and>
        x_key X (hd chain) = EcKey (lit ''P-256'') x y \<and> jwk = ec_jwk (lit ''P-256'') 32 (x, y))"
proof (cases "resolve_x5c_key ip X clock x5c iss trust_anchors now")
  case (Inl e)
  have l: "load_x5c_chain X v = Inl e \<Longrightarrow> e = X5cError" for v e
    by (cases v) (auto simp: load_x5c_chain_def load_x5c_entry_def dest!: mapR_Inl_ex split: if_splits option.splits sum.splits)
  have u: "utc_instant clock X5cError now = Inl e \<Longrightarrow> e = X5cError" for e
    by (cases now) (auto split: if_splits)
  have v: "validate_cert_chain X clock c cs trust_anchors now = Inl e \<Longrightarrow> e = X5cError" for c cs e
    by (auto simp: validate_cert_chain_def Let_def bindR_Inl dest: u split: if_splits)
  have b: "check_issuer_binding ip X c iss = Inl e \<Longrightarrow> e = X5cError" for c e
    by (auto simp: check_issuer_binding_def split: if_splits option.splits sum.splits)
  have p: "leaf_p256_jwk X c = Inl e \<Longrightarrow> e = X5cError" for c e
    by (auto simp: leaf_p256_jwk_def split: if_splits cert_key.splits)
  from Inl show ?thesis by (auto simp: resolve_x5c_key_def bindR_Inl dest: l v b p)
next
  case (Inr jwk)
  then obtain chain where c: "load_x5c_chain X x5c = Inr chain" "validate_cert_chain X clock (hd chain) (tl chain) trust_anchors now = Inr ()"
    "check_issuer_binding ip X (hd chain) iss = Inr ()" "leaf_p256_jwk X (hd chain) = Inr jwk"
    by (auto simp: resolve_x5c_key_def bindR_Inr)
  obtain xs where x: "x5c = JList xs" "list_all2 (\<lambda>e c. load_x5c_entry X e = Inr c) xs chain" "xs \<noteq> []"
    using c(1) by (cases x5c) (auto simp: load_x5c_chain_def mapR_Inr split: if_splits)
  obtain t where t: "utc_instant clock X5cError now = Inr t" "x_path X (map the (filter (\<lambda>a. a \<noteq> None) trust_anchors)) t (hd chain) (tl chain)"
    using c(2) by (auto simp: validate_cert_chain_def Let_def bindR_Inr split: if_splits)
  obtain uris dns where s: "x_san X (hd chain) = Some (uris, dns)"
    "iss \<in> set uris \<or> (\<exists>u host. parse_https_issuer ip iss = Inr u \<and> url_hostname u = Some host \<and> host \<in> set dns)"
    using c(3) by (auto simp: check_issuer_binding_def split: if_splits option.splits sum.splits)
  obtain a b where "x_key X (hd chain) = EcKey (lit ''P-256'') a b" "jwk = ec_jwk (lit ''P-256'') 32 (a, b)"
    using c(4) by (auto simp: leaf_p256_jwk_def split: if_splits cert_key.splits)
  moreover have "chain \<noteq> []" using x(2,3) by auto
  ultimately show ?thesis using Inr x(1,2) t s by auto
qed

end
