(* ===== verification/Data_Integrity.thy ===== *)
theory Data_Integrity
  imports Cred_Schema
begin

text \<open>
  The whole-document Data Integrity suites: openvc/proof/di_jcs.py (eddsa-jcs-2022, ecdsa-jcs-2019) over the canonicalizer of
  Jcs, and openvc/proof/data_integrity.py (eddsa-rdfc-2022) and di_ecdsa_rdfc.py (ecdsa-rdfc-2019) over RDF. For the RDF
  suites the JSON-LD processor is the parameter record \<open>rdf\<close>: \<open>rdf_canonize\<close> is \<open>_canonize\<close> with its loader, \<open>rdf_validate\<close>
  the context validation that runs the processor again.
\<close>

section \<open>The creation time\<close>

text \<open>\<open>datetime.isoformat(timespec="seconds")\<close>: year, month and day of a day count from the epoch, in the proleptic calendar.\<close>

definition civil_date :: "int \<Rightarrow> int \<times> int \<times> int" where
  "civil_date days =
     (let z = days + 719468; era = z div 146097; doe = z mod 146097;
          yoe = (doe - doe div 1460 + doe div 36524 - doe div 146096) div 365;
          doy = doe - (365 * yoe + yoe div 4 - yoe div 100);
          mp = (5 * doy + 2) div 153;
          d = doy - (153 * mp + 2) div 5 + 1;
          m = (if mp < 10 then mp + 3 else mp - 9)
      in (yoe + era * 400 + (if m \<le> 2 then 1 else 0), m, d))"

definition padded :: "nat \<Rightarrow> int \<Rightarrow> str" where
  "padded w n = (let s = decimal (nat n) in replicate (w - length s) 48 @ s)"

definition iso_seconds :: "int \<Rightarrow> str" where
  "iso_seconds micros =
     (let s = micros div 1000000; (y, m, d) = civil_date (s div 86400); r = s mod 86400
      in padded 4 y @ [45] @ padded 2 m @ [45] @ padded 2 d @ [84] @
         padded 2 (r div 3600) @ [58] @ padded 2 (r div 60 mod 60) @ [58] @ padded 2 (r mod 60))"

definition utc_iso :: "int \<Rightarrow> exc \<Rightarrow> clock_pin \<Rightarrow> str result" where
  "utc_iso clock error v = bindR (utc_instant clock error v) (\<lambda>t. Inr (iso_seconds t @ [90]))"

section \<open>Shared parts\<close>

definition PROOF_TYPE :: str where "PROOF_TYPE = lit ''DataIntegrityProof''"

record verified_di =
  di_credential :: jobj
  di_issuer :: json
  di_subject :: json
  di_proof :: jobj
  di_expired :: bool

definition unsecured :: "jobj \<Rightarrow> jobj" where
  "unsecured document = dict_del (lit ''proof'') document"

text \<open>What the issuer asks for: the method, the purpose, an optional challenge and domain, and the creation time.\<close>

record proof_options =
  po_method :: str
  po_purpose :: str
  po_challenge :: "str option"
  po_domain :: "str option"
  po_created :: clock_pin

definition optional_member :: "str \<Rightarrow> str option \<Rightarrow> jobj" where
  "optional_member name v = (case v of None \<Rightarrow> [] | Some t \<Rightarrow> [(name, JStr t)])"

definition new_proof :: "str \<Rightarrow> str \<Rightarrow> proof_options \<Rightarrow> jobj" where
  "new_proof cryptosuite created opts =
     [(lit ''type'', JStr PROOF_TYPE), (lit ''cryptosuite'', JStr cryptosuite), (lit ''created'', JStr created),
      (lit ''verificationMethod'', JStr (po_method opts)), (lit ''proofPurpose'', JStr (po_purpose opts))] @
     optional_member (lit ''challenge'') (po_challenge opts) @ optional_member (lit ''domain'') (po_domain opts)"

text \<open>\<open>dict(proof, proofValue=encode_multibase(signature))\<close> set as the document's \<open>proof\<close>.\<close>

definition secure :: "jobj \<Rightarrow> jobj \<Rightarrow> bytes \<Rightarrow> jobj" where
  "secure credential proof signature =
     credential @ [(lit ''proof'', JObj (proof @ [(lit ''proofValue'', JStr (encode_multibase signature))]))]"

text \<open>
  \<open>add_proof\<close> of every suite: \<open>hash_data\<close> takes the unsecured document and the proof configuration and fails as the suite's own
  hashing does.
\<close>

definition add_proof ::
    "int \<Rightarrow> str \<Rightarrow> str list \<Rightarrow> (jobj \<Rightarrow> jobj \<Rightarrow> bytes result) \<Rightarrow> signing_key \<Rightarrow> proof_options \<Rightarrow> jobj \<Rightarrow> jobj result" where
  "add_proof clock cryptosuite algs hash_data key opts credential =
     (if sk_alg key \<notin> set algs then Inl UnsupportedCryptosuite
      else if \<not> has_key (lit ''@context'') credential then Inl ProofMalformed
      else if has_key (lit ''proof'') credential then Inl ProofMalformed
      else
     bindR (utc_iso clock ProofMalformed (po_created opts)) (\<lambda>created.
       let proof = new_proof cryptosuite created opts;
           proof_config = proof @ [(lit ''@context'', jget (lit ''@context'') credential)]
       in
     bindR (hash_data (unsecured credential) proof_config) (\<lambda>data.
     bindR (sk_sign key data) (\<lambda>signature. Inr (secure credential proof signature)))))"

text \<open>What a verifier asks for.\<close>

record di_policy =
  dp_key :: jobj
  dp_purpose :: "str option"
  dp_challenge :: "str option"
  dp_domain :: "str option"
  dp_now :: clock_pin
  dp_temporal :: bool

text \<open>\<open>public_key_jwk or resolve_verification_key(...)\<close>; no key given is the empty one.\<close>

definition proof_key ::
    "(str \<Rightarrow> bytes \<Rightarrow> (nat \<times> nat) result) \<Rightarrow> vm_resolver option \<Rightarrow> di_policy \<Rightarrow> jobj \<Rightarrow> jobj result" where
  "proof_key ec_point resolver pol proof =
     (if dp_key pol \<noteq> [] then Inr (dp_key pol)
      else resolve_verification_key ec_point resolver (jget (lit ''verificationMethod'') proof) (jget (lit ''proofPurpose'') proof))"

definition di_issuer_of :: "jobj \<Rightarrow> json" where
  "di_issuer_of secured =
     (case jget (lit ''issuer'') secured of JObj d \<Rightarrow> jget (lit ''id'') d | v \<Rightarrow> v)"

definition di_subject_of :: "jobj \<Rightarrow> json" where
  "di_subject_of secured =
     (case jget (lit ''credentialSubject'') secured of JObj d \<Rightarrow> jget (lit ''id'') d | _ \<Rightarrow> JNull)"

text \<open>The checks after the signature, and the result.\<close>

definition di_finish :: "jose \<Rightarrow> int \<Rightarrow> di_policy \<Rightarrow> jobj \<Rightarrow> jobj \<Rightarrow> verified_di result" where
  "di_finish J leeway pol secured proof =
     bindR (check_proof_purpose proof (dp_purpose pol)) (\<lambda>_.
     bindR (check_presentation_binding proof (dp_challenge pol) (dp_domain pol)) (\<lambda>_.
     bindR (check_validity_window (jo_ts J) (jo_clock J) (unsecured secured) proof (dp_now pol) (JInt leeway) (dp_temporal pol)) (\<lambda>e.
       Inr \<lparr>di_credential = secured, di_issuer = di_issuer_of secured, di_subject = di_subject_of secured,
            di_proof = proof, di_expired = e\<rparr>)))"

definition is_signature_failure :: "exc \<Rightarrow> bool" where
  "is_signature_failure e = (is_openvc_error e \<or> is_value_error e \<or> e = PyKeyError)"

definition di_signature :: "jose \<Rightarrow> str \<Rightarrow> jobj \<Rightarrow> bytes \<Rightarrow> bytes \<Rightarrow> unit result" where
  "di_signature J alg jwk data signature =
     bindR (catchR is_signature_failure SignatureInvalid (verify_signature (jo_crypto J) alg jwk data signature))
       (\<lambda>ok. if ok then Inr () else Inl SignatureInvalid)"

definition profile_hash :: "str \<Rightarrow> str" where
  "profile_hash alg = (case map_of ALG_PROFILE alg of None \<Rightarrow> [] | Some (_, _, h) \<Rightarrow> h)"

section \<open>The JCS suites\<close>

record jcs_suite =
  js_leeway :: int
  js_cryptosuite :: str
  js_algs :: "str list"

definition EDDSA_JCS_CRYPTOSUITE :: str where "EDDSA_JCS_CRYPTOSUITE = lit ''eddsa-jcs-2022''"

definition ECDSA_JCS_CRYPTOSUITE :: str where "ECDSA_JCS_CRYPTOSUITE = lit ''ecdsa-jcs-2019''"

definition new_eddsa_jcs :: "json \<Rightarrow> jcs_suite result" where
  "new_eddsa_jcs leeway_s =
     bindR (leeway_seconds ProofError leeway_s) (\<lambda>l.
       Inr \<lparr>js_leeway = l, js_cryptosuite = EDDSA_JCS_CRYPTOSUITE, js_algs = [lit ''EdDSA'']\<rparr>)"

definition new_ecdsa_jcs :: "json \<Rightarrow> jcs_suite result" where
  "new_ecdsa_jcs leeway_s =
     bindR (leeway_seconds ProofError leeway_s) (\<lambda>l.
       Inr \<lparr>js_leeway = l, js_cryptosuite = ECDSA_JCS_CRYPTOSUITE, js_algs = [lit ''ES256'', lit ''ES384'']\<rparr>)"

definition jcs_hash_data :: "crypto \<Rightarrow> str \<Rightarrow> jobj \<Rightarrow> jobj \<Rightarrow> bytes result" where
  "jcs_hash_data cr hash_name document proof_config =
     catchR (\<lambda>e. e = JcsError \<or> is_value_error e \<or> e = PyTypeError) ProofMalformed
       (bindR (canonicalize (JObj proof_config)) (\<lambda>c.
        bindR (canonicalize (JObj document)) (\<lambda>d.
          Inr (sri_digest cr hash_name c @ sri_digest cr hash_name d))))"

definition jcs_add_proof :: "jose \<Rightarrow> jcs_suite \<Rightarrow> signing_key \<Rightarrow> proof_options \<Rightarrow> jobj \<Rightarrow> jobj result" where
  "jcs_add_proof J suite key =
     add_proof (jo_clock J) (js_cryptosuite suite) (js_algs suite) (jcs_hash_data (jo_crypto J) (profile_hash (sk_alg key))) key"

definition jcs_verify ::
    "jose \<Rightarrow> (str \<Rightarrow> bytes \<Rightarrow> (nat \<times> nat) result) \<Rightarrow> jcs_suite \<Rightarrow> vm_resolver option \<Rightarrow> di_policy \<Rightarrow> jobj \<Rightarrow> verified_di result" where
  "jcs_verify J ec_point suite resolver pol secured =
     bindR (prepare_di_proof secured PROOF_TYPE (js_cryptosuite suite)) (\<lambda>(proof, proof_config, signature).
     bindR (proof_key ec_point resolver pol proof) (\<lambda>jwk.
     bindR (match_alg jwk (js_algs suite)) (\<lambda>alg.
     bindR (jcs_hash_data (jo_crypto J) (profile_hash alg) (unsecured secured) proof_config) (\<lambda>data.
     bindR (di_signature J alg jwk data signature) (\<lambda>_. di_finish J (js_leeway suite) pol secured proof)))))"

section \<open>The RDF suites\<close>

record rdf =
  rdf_canonize :: "jobj \<Rightarrow> bytes result"
  rdf_validate :: "jobj \<Rightarrow> jobj \<Rightarrow> unit result"

definition CRYPTOSUITE :: str where "CRYPTOSUITE = lit ''eddsa-rdfc-2022''"

definition ECDSA_RDFC_CRYPTOSUITE :: str where "ECDSA_RDFC_CRYPTOSUITE = lit ''ecdsa-rdfc-2019''"

definition rdf_hash_data :: "crypto \<Rightarrow> rdf \<Rightarrow> str \<Rightarrow> jobj \<Rightarrow> jobj \<Rightarrow> bytes result" where
  "rdf_hash_data cr R hash_name document proof_config =
     bindR (rdf_canonize R proof_config) (\<lambda>c.
     bindR (rdf_canonize R document) (\<lambda>d.
       Inr (sri_digest cr hash_name c @ sri_digest cr hash_name d)))"

text \<open>Hash, then validate: nothing is signed that the signature would not cover.\<close>

definition rdf_hash_validated :: "crypto \<Rightarrow> rdf \<Rightarrow> str \<Rightarrow> jobj \<Rightarrow> jobj \<Rightarrow> bytes result" where
  "rdf_hash_validated cr R hash_name document proof_config =
     bindR (rdf_hash_data cr R hash_name document proof_config) (\<lambda>data.
     bindR (rdf_validate R document proof_config) (\<lambda>_. Inr data))"

definition eddsa_rdfc_add_proof :: "jose \<Rightarrow> rdf \<Rightarrow> signing_key \<Rightarrow> proof_options \<Rightarrow> jobj \<Rightarrow> jobj result" where
  "eddsa_rdfc_add_proof J R key =
     add_proof (jo_clock J) CRYPTOSUITE [lit ''EdDSA''] (rdf_hash_validated (jo_crypto J) R (lit ''sha256'')) key"

definition ecdsa_rdfc_add_proof :: "jose \<Rightarrow> rdf \<Rightarrow> signing_key \<Rightarrow> proof_options \<Rightarrow> jobj \<Rightarrow> jobj result" where
  "ecdsa_rdfc_add_proof J R key =
     add_proof (jo_clock J) ECDSA_RDFC_CRYPTOSUITE [lit ''ES256'', lit ''ES384'']
       (rdf_hash_validated (jo_crypto J) R (profile_hash (sk_alg key))) key"

definition verify_ed25519 :: "crypto \<Rightarrow> jobj \<Rightarrow> bytes \<Rightarrow> bytes \<Rightarrow> bool result" where
  "verify_ed25519 cr jwk data signature =
     (if jget (lit ''kty'') jwk \<noteq> JStr (lit ''OKP'') \<or> jget (lit ''crv'') jwk \<noteq> JStr (lit ''Ed25519'') \<or>
         \<not> is_jstr (jget (lit ''x'') jwk) then Inl ProofMalformed
      else catchR (\<lambda>e. is_value_error e \<or> e = PyTypeError) ProofMalformed
             (bindR (jwk_bytes jwk (lit ''x'')) (\<lambda>raw. ed_verify cr raw signature data)))"

definition eddsa_rdfc_verify ::
    "jose \<Rightarrow> (str \<Rightarrow> bytes \<Rightarrow> (nat \<times> nat) result) \<Rightarrow> rdf \<Rightarrow> int \<Rightarrow> vm_resolver option \<Rightarrow> di_policy \<Rightarrow> jobj \<Rightarrow> verified_di result" where
  "eddsa_rdfc_verify J ec_point R leeway resolver pol secured =
     bindR (prepare_di_proof secured PROOF_TYPE CRYPTOSUITE) (\<lambda>(proof, proof_config, signature).
     bindR (rdf_hash_data (jo_crypto J) R (lit ''sha256'') (unsecured secured) proof_config) (\<lambda>data.
     bindR (proof_key ec_point resolver pol proof) (\<lambda>jwk.
     bindR (verify_ed25519 (jo_crypto J) jwk data signature) (\<lambda>ok.
       if \<not> ok then Inl SignatureInvalid
       else
     bindR (rdf_validate R (unsecured secured) proof_config) (\<lambda>_. di_finish J leeway pol secured proof)))))"

definition ecdsa_rdfc_verify ::
    "jose \<Rightarrow> (str \<Rightarrow> bytes \<Rightarrow> (nat \<times> nat) result) \<Rightarrow> rdf \<Rightarrow> int \<Rightarrow> vm_resolver option \<Rightarrow> di_policy \<Rightarrow> jobj \<Rightarrow> verified_di result" where
  "ecdsa_rdfc_verify J ec_point R leeway resolver pol secured =
     bindR (prepare_di_proof secured PROOF_TYPE ECDSA_RDFC_CRYPTOSUITE) (\<lambda>(proof, proof_config, signature).
     bindR (proof_key ec_point resolver pol proof) (\<lambda>jwk.
     bindR (match_alg jwk [lit ''ES256'', lit ''ES384'']) (\<lambda>alg.
     bindR (rdf_hash_data (jo_crypto J) R (profile_hash alg) (unsecured secured) proof_config) (\<lambda>data.
     bindR (di_signature J alg jwk data signature) (\<lambda>_.
     bindR (rdf_validate R (unsecured secured) proof_config) (\<lambda>_. di_finish J leeway pol secured proof))))))"

section \<open>What every suite promises\<close>

text \<open>
  A suite's \<open>verify\<close>, the keys it accepts signatures from (\<open>signed_by secured jwk\<close>) and what an acceptance means: the
  result is the presented document, its proof has the purpose the policy asks for, and the key it is signed with is the one
  given or the one the proof's method resolves to.
\<close>

locale di_suite =
  fixes verify :: "vm_resolver option \<Rightarrow> di_policy \<Rightarrow> jobj \<Rightarrow> verified_di result"
    and ec_point :: "str \<Rightarrow> bytes \<Rightarrow> (nat \<times> nat) result"
    and signed_by :: "jobj \<Rightarrow> jobj \<Rightarrow> bool"
  assumes accepted: "verify resolver pol secured = Inr r \<Longrightarrow>
      di_credential r = secured \<and> di_issuer r = di_issuer_of secured \<and> di_subject r = di_subject_of secured \<and>
      jget (lit ''proof'') secured = JObj (di_proof r) \<and>
      (\<exists>jwk. proof_key ec_point resolver pol (di_proof r) = Inr jwk \<and> signed_by secured jwk) \<and>
      check_proof_purpose (di_proof r) (dp_purpose pol) = Inr () \<and>
      check_presentation_binding (di_proof r) (dp_challenge pol) (dp_domain pol) = Inr () \<and> (dp_temporal pol \<longrightarrow> \<not> di_expired r)"
begin

text \<open>Without a given key the signer is a method of the document its identifier resolves to, authorized for the purpose.\<close>

lemma resolved_signer:
  assumes "verify resolver pol secured = Inr r" "dp_key pol = []"
  shows "\<exists>kid doc vm. jget (lit ''verificationMethod'') (di_proof r) = JStr kid \<and> kid \<noteq> [] \<and>
     resolve_document ec_point resolver (before_hash kid) = Inr doc \<and>
     key_for_purpose doc (JStr kid) (JStr (effective_purpose (jget (lit ''proofPurpose'') (di_proof r)))) = Some vm \<and>
     signed_by secured (vm_jwk vm)"
proof -
  obtain jwk where k: "resolve_verification_key ec_point resolver (jget (lit ''verificationMethod'') (di_proof r))
      (jget (lit ''proofPurpose'') (di_proof r)) = Inr jwk" "signed_by secured jwk"
    using accepted [OF assms(1)] assms(2) by (auto simp: proof_key_def)
  then obtain kid where "jget (lit ''verificationMethod'') (di_proof r) = JStr kid"
    by (cases "jget (lit ''verificationMethod'') (di_proof r)") (auto simp: resolve_verification_key_def)
  with k show ?thesis
    by (auto simp: resolve_verification_key_def bindR_Inr authorized_key_Inr split: if_splits)
qed

end

section \<open>Lemmas\<close>

lemma prepare_Inr_iff:
  assumes "prepare_di_proof secured pt cs = Inr (proof, config, sg)"
  shows "jget (lit ''proof'') secured = JObj proof" "jget (lit ''cryptosuite'') proof = JStr cs"
    "\<exists>t. jget (lit ''proofValue'') proof = JStr t \<and> decode_multibase t = Inr sg"
    "config = AList.update (lit ''@context'') (jget (lit ''@context'') secured) (dict_del (lit ''proofValue'') proof)"
  using assms
  by (auto simp: prepare_di_proof_def bindR_Inr split: if_splits json.split_asm)

lemma di_finish_Inr:
  assumes "di_finish J leeway pol secured proof = Inr r"
  shows "di_credential r = secured \<and> di_issuer r = di_issuer_of secured \<and> di_subject r = di_subject_of secured \<and> di_proof r = proof \<and>
     check_proof_purpose proof (dp_purpose pol) = Inr () \<and>
     check_presentation_binding proof (dp_challenge pol) (dp_domain pol) = Inr () \<and> (dp_temporal pol \<longrightarrow> \<not> di_expired r)"
  using assms by (auto simp: di_finish_def bindR_Inr [of "check_proof_purpose _ _"] bindR_Inr [of "check_presentation_binding _ _ _"]
      bindR_Inr [of "check_validity_window _ _ _ _ _ _ _"] window_Inr)

lemma di_signature_Inr: "di_signature J alg jwk data sg = Inr u \<longleftrightarrow> verify_signature (jo_crypto J) alg jwk data sg = Inr True"
  by (auto simp: di_signature_def bindR_Inr)

lemma match_loop_Inr: "match_loop kty crv algs = Inr alg \<Longrightarrow>
    alg \<in> set algs \<and> (\<exists>h p_kty p_crv. map_of ALG_PROFILE alg = Some (p_kty, p_crv, h) \<and> kty = JStr p_kty \<and> crv = JStr p_crv)"
  by (induction algs) (auto split: option.splits if_splits)

lemma match_alg_Inr: "match_alg jwk algs = Inr alg \<Longrightarrow>
    alg \<in> set algs \<and> (\<exists>h p_kty p_crv. map_of ALG_PROFILE alg = Some (p_kty, p_crv, h) \<and>
      jget (lit ''kty'') jwk = JStr p_kty \<and> jget (lit ''crv'') jwk = JStr p_crv)"
  using match_loop_Inr unfolding match_alg_def by fastforce

text \<open>What the signature of a JCS proof covers: both canonical forms, under the digest of the key's algorithm.\<close>

definition jcs_signed :: "jose \<Rightarrow> jcs_suite \<Rightarrow> jobj \<Rightarrow> jobj \<Rightarrow> bool" where
  "jcs_signed J suite secured jwk \<longleftrightarrow>
     (\<exists>proof t sg alg c d. jget (lit ''proof'') secured = JObj proof \<and> jget (lit ''cryptosuite'') proof = JStr (js_cryptosuite suite) \<and>
        jget (lit ''proofValue'') proof = JStr t \<and> decode_multibase t = Inr sg \<and> match_alg jwk (js_algs suite) = Inr alg \<and>
        canonicalize (JObj (AList.update (lit ''@context'') (jget (lit ''@context'') secured) (dict_del (lit ''proofValue'') proof))) = Inr c \<and>
        canonicalize (JObj (unsecured secured)) = Inr d \<and>
        verify_signature (jo_crypto J) alg jwk
          (sri_digest (jo_crypto J) (profile_hash alg) c @ sri_digest (jo_crypto J) (profile_hash alg) d) sg = Inr True)"

definition rdf_signed :: "jose \<Rightarrow> rdf \<Rightarrow> str \<Rightarrow> jobj \<Rightarrow> jobj \<Rightarrow> bool" where
  "rdf_signed J R cs secured jwk \<longleftrightarrow>
     (\<exists>proof t sg config h c d. jget (lit ''proof'') secured = JObj proof \<and> jget (lit ''cryptosuite'') proof = JStr cs \<and>
        jget (lit ''proofValue'') proof = JStr t \<and> decode_multibase t = Inr sg \<and>
        config = AList.update (lit ''@context'') (jget (lit ''@context'') secured) (dict_del (lit ''proofValue'') proof) \<and>
        rdf_canonize R config = Inr c \<and> rdf_canonize R (unsecured secured) = Inr d \<and> rdf_validate R (unsecured secured) config = Inr () \<and>
        (if cs = CRYPTOSUITE
         then verify_ed25519 (jo_crypto J) jwk (sri_digest (jo_crypto J) (lit ''sha256'') c @ sri_digest (jo_crypto J) (lit ''sha256'') d) sg = Inr True
         else \<exists>alg. match_alg jwk [lit ''ES256'', lit ''ES384''] = Inr alg \<and> h = profile_hash alg \<and>
           verify_signature (jo_crypto J) alg jwk (sri_digest (jo_crypto J) h c @ sri_digest (jo_crypto J) h d) sg = Inr True))"

lemma jcs_hash_Inr:
  "jcs_hash_data cr h doc config = Inr data \<longleftrightarrow>
     (\<exists>c d. canonicalize (JObj config) = Inr c \<and> canonicalize (JObj doc) = Inr d \<and> data = sri_digest cr h c @ sri_digest cr h d)"
  by (auto simp: jcs_hash_data_def bindR_Inr)

lemma rdf_hash_Inr:
  "rdf_hash_data cr R h doc config = Inr data \<longleftrightarrow>
     (\<exists>c d. rdf_canonize R config = Inr c \<and> rdf_canonize R doc = Inr d \<and> data = sri_digest cr h c @ sri_digest cr h d)"
  by (auto simp: rdf_hash_data_def bindR_Inr)

interpretation jcs: di_suite "jcs_verify J ec_point suite" ec_point "jcs_signed J suite" for J ec_point suite
proof
  fix resolver pol secured r
  assume "jcs_verify J ec_point suite resolver pol secured = Inr r"
  then obtain pobj config sg jwk alg hsh where k: "prepare_di_proof secured PROOF_TYPE (js_cryptosuite suite) = Inr (pobj, config, sg)"
    "proof_key ec_point resolver pol pobj = Inr jwk" "match_alg jwk (js_algs suite) = Inr alg"
    "jcs_hash_data (jo_crypto J) (profile_hash alg) (unsecured secured) config = Inr hsh"
    "verify_signature (jo_crypto J) alg jwk hsh sg = Inr True" "di_finish J (js_leeway suite) pol secured pobj = Inr r"
    by (auto simp: jcs_verify_def bindR_Inr di_signature_Inr)
  note P = prepare_Inr_iff [OF k(1)]
  note F = di_finish_Inr [OF k(6)]
  have "jcs_signed J suite secured jwk"
    using P k(3,4,5) unfolding jcs_signed_def jcs_hash_Inr by blast
  with P(1) F k(2) show "di_credential r = secured \<and> di_issuer r = di_issuer_of secured \<and> di_subject r = di_subject_of secured \<and>
      jget (lit ''proof'') secured = JObj (di_proof r) \<and>
      (\<exists>jwk. proof_key ec_point resolver pol (di_proof r) = Inr jwk \<and> jcs_signed J suite secured jwk) \<and>
      check_proof_purpose (di_proof r) (dp_purpose pol) = Inr () \<and>
      check_presentation_binding (di_proof r) (dp_challenge pol) (dp_domain pol) = Inr () \<and> (dp_temporal pol \<longrightarrow> \<not> di_expired r)" by auto
qed

interpretation eddsa_rdfc: di_suite "eddsa_rdfc_verify J ec_point R leeway" ec_point "rdf_signed J R CRYPTOSUITE" for J ec_point R leeway
proof
  fix resolver pol secured r
  assume "eddsa_rdfc_verify J ec_point R leeway resolver pol secured = Inr r"
  then obtain pobj config sg jwk hsh where k: "prepare_di_proof secured PROOF_TYPE CRYPTOSUITE = Inr (pobj, config, sg)"
    "rdf_hash_data (jo_crypto J) R (lit ''sha256'') (unsecured secured) config = Inr hsh"
    "proof_key ec_point resolver pol pobj = Inr jwk" "verify_ed25519 (jo_crypto J) jwk hsh sg = Inr True"
    "rdf_validate R (unsecured secured) config = Inr ()" "di_finish J leeway pol secured pobj = Inr r"
    by (auto simp: eddsa_rdfc_verify_def bindR_Inr split: if_splits)
  note P = prepare_Inr_iff [OF k(1)]
  note F = di_finish_Inr [OF k(6)]
  have "rdf_signed J R CRYPTOSUITE secured jwk"
    using P k(2,4,5) unfolding rdf_signed_def rdf_hash_Inr by auto
  with P(1) F k(3) show "di_credential r = secured \<and> di_issuer r = di_issuer_of secured \<and> di_subject r = di_subject_of secured \<and>
      jget (lit ''proof'') secured = JObj (di_proof r) \<and>
      (\<exists>jwk. proof_key ec_point resolver pol (di_proof r) = Inr jwk \<and> rdf_signed J R CRYPTOSUITE secured jwk) \<and>
      check_proof_purpose (di_proof r) (dp_purpose pol) = Inr () \<and>
      check_presentation_binding (di_proof r) (dp_challenge pol) (dp_domain pol) = Inr () \<and> (dp_temporal pol \<longrightarrow> \<not> di_expired r)" by auto
qed

interpretation ecdsa_rdfc: di_suite "ecdsa_rdfc_verify J ec_point R leeway" ec_point "rdf_signed J R ECDSA_RDFC_CRYPTOSUITE"
  for J ec_point R leeway
proof
  fix resolver pol secured r
  assume "ecdsa_rdfc_verify J ec_point R leeway resolver pol secured = Inr r"
  then obtain pobj config sg jwk alg hsh where k: "prepare_di_proof secured PROOF_TYPE ECDSA_RDFC_CRYPTOSUITE = Inr (pobj, config, sg)"
    "proof_key ec_point resolver pol pobj = Inr jwk" "match_alg jwk [lit ''ES256'', lit ''ES384''] = Inr alg"
    "rdf_hash_data (jo_crypto J) R (profile_hash alg) (unsecured secured) config = Inr hsh"
    "verify_signature (jo_crypto J) alg jwk hsh sg = Inr True"
    "rdf_validate R (unsecured secured) config = Inr ()" "di_finish J leeway pol secured pobj = Inr r"
    by (auto simp: ecdsa_rdfc_verify_def bindR_Inr di_signature_Inr)
  note P = prepare_Inr_iff [OF k(1)]
  note F = di_finish_Inr [OF k(7)]
  have n: "ECDSA_RDFC_CRYPTOSUITE \<noteq> CRYPTOSUITE" by (simp add: ECDSA_RDFC_CRYPTOSUITE_def CRYPTOSUITE_def)
  have "rdf_signed J R ECDSA_RDFC_CRYPTOSUITE secured jwk"
    using P k(3-6) n unfolding rdf_signed_def rdf_hash_Inr by auto
  with P(1) F k(2) show "di_credential r = secured \<and> di_issuer r = di_issuer_of secured \<and> di_subject r = di_subject_of secured \<and>
      jget (lit ''proof'') secured = JObj (di_proof r) \<and>
      (\<exists>jwk. proof_key ec_point resolver pol (di_proof r) = Inr jwk \<and> rdf_signed J R ECDSA_RDFC_CRYPTOSUITE secured jwk) \<and>
      check_proof_purpose (di_proof r) (dp_purpose pol) = Inr () \<and>
      check_presentation_binding (di_proof r) (dp_challenge pol) (dp_domain pol) = Inr () \<and> (dp_temporal pol \<longrightarrow> \<not> di_expired r)" by auto
qed

section \<open>Lemmas: signing\<close>

lemma loaded_key_profile:
  assumes "signing_key_from_jwk cr jwk kid = Inr key" "sk_public_jwk key = Inr pub" "map_of ALG_PROFILE (sk_alg key) = Some (kty, crv, h)"
  shows "jget (lit ''kty'') pub = JStr kty \<and> jget (lit ''crv'') pub = JStr crv"
proof -
  have ml: "mldsa_from_jwk cr jwk kid \<noteq> Inr key"
    using assms(3) by (auto simp: mldsa_from_jwk_def mldsa_from_seed_def mldsa_key_def bindR_Inr MLDSA_ALGS_def ALG_PROFILE_def
        split: if_splits option.splits)
  then consider "ed25519_from_jwk cr jwk kid (lit ''EdDSA'') = Inr key" | "p256_from_jwk cr jwk kid = Inr key" | "p384_from_jwk cr jwk kid = Inr key"
    using assms(1) by (auto simp: signing_key_from_jwk_def Let_def split: if_splits)
  then show ?thesis
  proof cases
    case 1
    then show ?thesis using assms(2,3) by (auto simp: ed25519_from_jwk_def ed25519_key_def okp_jwk_def bindR_Inr ALG_PROFILE_def jget_def split: if_splits)
  next
    case 2
    then show ?thesis using assms(2,3) by (auto simp: p256_from_jwk_def p256_key_def ec_public_jwk_def bindR_Inr ALG_PROFILE_def jget_def split: if_splits prod.splits)
  next
    case 3
    then show ?thesis using assms(2,3) by (auto simp: p384_from_jwk_def p384_key_def ec_public_jwk_def bindR_Inr ALG_PROFILE_def jget_def split: if_splits prod.splits)
  qed
qed

lemma profile_inj:
  "map_of ALG_PROFILE a = Some (kty, crv, h) \<Longrightarrow> map_of ALG_PROFILE b = Some (kty, crv, h') \<Longrightarrow> a = b"
  by (auto simp: ALG_PROFILE_def split: if_splits)

lemma match_loop_unique:
  "alg \<in> set algs \<Longrightarrow> \<forall>a\<in>set algs. map_of ALG_PROFILE a \<noteq> None \<Longrightarrow> map_of ALG_PROFILE alg = Some (kty, crv, h) \<Longrightarrow>
     match_loop (JStr kty) (JStr crv) algs = Inr alg"
proof (induction algs)
  case (Cons a algs)
  then obtain k c g where a: "map_of ALG_PROFILE a = Some (k, c, g)" by (cases "map_of ALG_PROFILE a") auto
  show ?case
  proof (cases "kty = k \<and> crv = c")
    case True
    then show ?thesis using a profile_inj Cons.prems(3) by auto
  next
    case False
    then have "a \<noteq> alg" using a Cons.prems(3) by auto
    then show ?thesis using Cons a False by auto
  qed
qed simp

lemma match_alg_unique:
  "alg \<in> set algs \<Longrightarrow> \<forall>a\<in>set algs. map_of ALG_PROFILE a \<noteq> None \<Longrightarrow> map_of ALG_PROFILE alg = Some (kty, crv, h) \<Longrightarrow>
     jget (lit ''kty'') jwk = JStr kty \<Longrightarrow> jget (lit ''crv'') jwk = JStr crv \<Longrightarrow> match_alg jwk algs = Inr alg"
  using match_loop_unique [of alg "sort algs"] by (simp add: match_alg_def)

lemma new_proof_members:
  "jget (lit ''type'') (new_proof cs c opts @ t) = JStr PROOF_TYPE" "jget (lit ''cryptosuite'') (new_proof cs c opts @ t) = JStr cs"
  "jget (lit ''proofPurpose'') (new_proof cs c opts @ t) = JStr (po_purpose opts)"
  by (simp_all add: new_proof_def jget_def)

lemma new_proof_keys:
  "\<not> has_key (lit ''proofValue'') (new_proof cs c opts)" "\<not> has_key (lit ''@context'') (new_proof cs c opts)"
  "\<not> has_key (lit ''expires'') (new_proof cs c opts)" "\<not> has_key (lit ''expirationDate'') (new_proof cs c opts)"
  by (auto simp: new_proof_def optional_member_def has_key_def split: option.splits)

lemma new_proof_binding:
  "check_presentation_binding (new_proof cs c opts @ [(lit ''proofValue'', v)]) (po_challenge opts) (po_domain opts) = Inr ()"
  by (cases "po_challenge opts"; cases "po_domain opts") (simp_all add: check_presentation_binding_def new_proof_def optional_member_def jget_def)

lemma jget_absent: "\<not> has_key k d \<Longrightarrow> jget k d = JNull"
  by (simp add: jget_def has_key_map_of)

lemma jget_append: "\<not> has_key k d \<Longrightarrow> jget k (d @ d') = jget k d'"
  by (auto simp: jget_def has_key_map_of map_add_def split: option.splits)

lemma window_without_expires:
  assumes "\<not> has_key (lit ''expires'') p" "\<not> has_key (lit ''expirationDate'') p"
  shows "check_validity_window ts clock doc p now l ct = check_validity_window ts clock doc [] now l ct"
proof -
  have "ts_bound ts p [lit ''expires'', lit ''expirationDate''] = ts_bound ts [] [lit ''expires'', lit ''expirationDate'']"
    using assms by (simp add: jget_absent has_key_def)
  then show ?thesis unfolding check_validity_window_def by metis
qed

lemma dict_del_snoc: "\<not> has_key k d \<Longrightarrow> dict_del k (d @ [(k, v)]) = d"
  using dict_del_absent [of k d] by (simp add: dict_del_filter)

lemma secure_unsecured: "\<not> has_key (lit ''proof'') credential \<Longrightarrow> unsecured (secure credential p sg) = credential"
  by (simp add: unsecured_def secure_def dict_del_snoc)

lemma prepare_secure:
  assumes "\<not> has_key (lit ''proof'') credential" "has_key (lit ''@context'') credential"
    "depth (JObj (secure credential (new_proof cs c opts) sg)) \<le> MAX_DEPTH" "length (b58btc_encode sg) \<le> MAX_B58_LEN"
  shows "prepare_di_proof (secure credential (new_proof cs c opts) sg) PROOF_TYPE cs =
     Inr (new_proof cs c opts @ [(lit ''proofValue'', JStr (encode_multibase sg))],
          new_proof cs c opts @ [(lit ''@context'', jget (lit ''@context'') credential)], sg)"
proof -
  let ?s = "secure credential (new_proof cs c opts) sg" and ?p = "new_proof cs c opts @ [(lit ''proofValue'', JStr (encode_multibase sg))]"
  have n: "\<not> nesting_exceeds (JObj ?s) MAX_DEPTH" using assms(3) unfolding nesting_exceeds_depth by simp
  have m: "decode_multibase (encode_multibase sg) = Inr sg"
    using assms(4) by (simp add: decode_multibase_def encode_multibase_def lit_def b58btc_decode_def b58_bytes_encode)
  have p: "jget (lit ''proof'') ?s = JObj ?p" using assms(1) by (simp add: secure_def jget_append) (simp add: jget_def)
  have c: "jget (lit ''@context'') ?s = jget (lit ''@context'') credential"
    using assms(2) by (auto simp: secure_def jget_def has_key_map_of map_add_def split: option.splits)
  have v: "jget (lit ''proofValue'') ?p = JStr (encode_multibase sg)" using new_proof_keys(1) by (simp add: jget_append) (simp add: jget_def)
  have d: "dict_del (lit ''proofValue'') ?p = new_proof cs c opts"
    using new_proof_keys(1) [of cs c opts] by (simp add: dict_del_snoc)
  show ?thesis
    using n p c v m update_new [OF new_proof_keys(2)] by (simp add: prepare_di_proof_def new_proof_members d)
qed

section \<open>Properties\<close>


text \<open>(C28) A credential secured by a JCS suite with a loaded key verifies under the key's public JWK for the purpose, challenge and
  domain it was made for, whenever the validity window holds; without its proof the result is the credential that was signed.\<close>

theorem jcs_proof_roundtrip:
  assumes "new_eddsa_jcs leeway_s = Inr suite \<or> new_ecdsa_jcs leeway_s = Inr suite"
    "jcs_add_proof J suite key opts credential = Inr secured"
    "backend_ok (jo_crypto J)" "signing_key_from_jwk (jo_crypto J) jwk kid = Inr key" "sk_public_jwk key = Inr pub"
    "\<forall>p t. jget (lit ''proof'') secured = JObj p \<longrightarrow> jget (lit ''proofValue'') p = JStr t \<longrightarrow> length t \<le> Suc MAX_B58_LEN"
    "depth (JObj secured) \<le> MAX_DEPTH"
    "dp_key pol = pub" "dp_purpose pol = Some (po_purpose opts)" "dp_challenge pol = po_challenge opts" "dp_domain pol = po_domain opts"
    "check_validity_window (jo_ts J) (jo_clock J) credential [] (dp_now pol) (JInt (js_leeway suite)) (dp_temporal pol) = Inr e"
  shows "\<exists>r. jcs_verify J ec_point suite resolver pol secured = Inr r \<and> di_credential r = secured \<and> unsecured secured = credential \<and> di_expired r = e"
proof -
  obtain created sg hsh where k: "sk_alg key \<in> set (js_algs suite)" "has_key (lit ''@context'') credential" "\<not> has_key (lit ''proof'') credential"
    "jcs_hash_data (jo_crypto J) (profile_hash (sk_alg key)) (unsecured credential)
       (new_proof (js_cryptosuite suite) created opts @ [(lit ''@context'', jget (lit ''@context'') credential)]) = Inr hsh"
    "sk_sign key hsh = Inr sg" "secured = secure credential (new_proof (js_cryptosuite suite) created opts) sg"
    using assms(2) by (auto simp: jcs_add_proof_def add_proof_def Let_def bindR_Inr split: if_splits)
  let ?n = "new_proof (js_cryptosuite suite) created opts"
  let ?p = "?n @ [(lit ''proofValue'', JStr (encode_multibase sg))]"
  have u: "unsecured secured = credential" "unsecured credential = credential"
    using k(3,6) secure_unsecured dict_del_absent by (auto simp: unsecured_def)
  have "jget (lit ''proof'') secured = JObj ?p" using k(3,6) by (simp add: secure_def jget_append) (simp add: jget_def)
  moreover have "jget (lit ''proofValue'') ?p = JStr (encode_multibase sg)"
    using new_proof_keys(1) by (simp add: jget_append) (simp add: jget_def)
  ultimately have "length (encode_multibase sg) \<le> Suc MAX_B58_LEN" using assms(6) by blast
  then have len: "length (b58btc_encode sg) \<le> MAX_B58_LEN" by (simp add: encode_multibase_def lit_def)
  have P: "prepare_di_proof secured PROOF_TYPE (js_cryptosuite suite) =
      Inr (?p, ?n @ [(lit ''@context'', jget (lit ''@context'') credential)], sg)"
    using prepare_secure [OF k(3,2)] assms(7) k(6) len by blast
  have algs: "\<forall>a\<in>set (js_algs suite). map_of ALG_PROFILE a \<noteq> None"
    using assms(1) by (auto simp: new_eddsa_jcs_def new_ecdsa_jcs_def bindR_Inr ALG_PROFILE_def)
  obtain kty crv h where pr: "map_of ALG_PROFILE (sk_alg key) = Some (kty, crv, h)" using algs k(1) by fastforce
  have m: "match_alg pub (js_algs suite) = Inr (sk_alg key)"
    using match_alg_unique [OF k(1) algs pr] loaded_key_profile [OF assms(4,5) pr] by blast
  have v: "verify_signature (jo_crypto J) (sk_alg key) pub hsh sg = Inr True"
    using key_roundtrip [OF assms(3,4) k(5)] assms(5) by auto
  have w: "check_validity_window (jo_ts J) (jo_clock J) credential ?p (dp_now pol) (JInt (js_leeway suite)) (dp_temporal pol) = Inr e"
    using assms(12) window_without_expires [of ?p] new_proof_keys(3,4) [of "js_cryptosuite suite" created opts] by (simp add: has_key_def)
  have ne: "pub \<noteq> []" using loaded_key_profile [OF assms(4,5) pr] by (auto simp: jget_def)
  show ?thesis
    using P m v w ne assms(8-11) k(4) u
    by (simp add: jcs_verify_def proof_key_def di_signature_def di_finish_def check_proof_purpose_def new_proof_members new_proof_binding)
qed

text \<open>A credential, a key and a policy for the examples.\<close>

definition ex_di_jose :: jose where
  "ex_di_jose = toy_jose\<lparr>jo_crypto := toy_crypto\<lparr>digest_of := \<lambda>h b. []\<rparr>\<rparr>"

definition ex_di_suite :: jcs_suite where
  "ex_di_suite = \<lparr>js_leeway = 60, js_cryptosuite = EDDSA_JCS_CRYPTOSUITE, js_algs = [lit ''EdDSA'']\<rparr>"

definition ex_di_options :: proof_options where
  "ex_di_options = \<lparr>po_method = lit ''did:x:1#k'', po_purpose = lit ''assertionMethod'', po_challenge = None, po_domain = None, po_created = PinNone\<rparr>"

definition ex_di_policy :: "jobj \<Rightarrow> di_policy" where
  "ex_di_policy jwk = \<lparr>dp_key = jwk, dp_purpose = Some (lit ''assertionMethod''), dp_challenge = None, dp_domain = None, dp_now = PinNone, dp_temporal = True\<rparr>"

definition ex_di_credential :: jobj where
  "ex_di_credential = [(lit ''@context'', JStr (lit ''c'')), (lit ''issuer'', JStr (lit ''did:x:1''))]"

definition ex_di_secured :: jobj where
  "ex_di_secured = secure ex_di_credential (new_proof EDDSA_JCS_CRYPTOSUITE (lit ''1970-01-01T00:16:40Z'') ex_di_options) []"

definition ex_di_pub :: jobj where "ex_di_pub = okp_jwk (replicate 32 7)"

lemma ex_di_fields [simp]:
  "jo_clock ex_di_jose = 1000000000" "jo_ts ex_di_jose = (\<lambda>v. None)" "digest_of (jo_crypto ex_di_jose) = (\<lambda>h b. [])"
  "js_algs ex_di_suite = [lit ''EdDSA'']" "js_cryptosuite ex_di_suite = EDDSA_JCS_CRYPTOSUITE" "js_leeway ex_di_suite = 60"
  by (simp_all add: ex_di_jose_def toy_jose_def ex_di_suite_def)

lemma ex_di_key:
  "\<exists>key. signing_key_from_jwk (jo_crypto ex_di_jose) toy_jwk (lit ''k'') = Inr key \<and> sk_alg key = lit ''EdDSA'' \<and>
     sk_public_jwk key = Inr ex_di_pub \<and> (\<forall>m. sk_sign key m = Inr m)"
  by (simp add: ex_di_jose_def toy_jwk_def signing_key_from_jwk_def ed25519_from_jwk_def is_private_jwk_def jget_def has_key_def
      jwk_bytes_simps toy_crypto_def ed25519_key_def ED25519_ALG_NAMES_def ex_di_pub_def)

lemma ex_di_ok: "backend_ok (jo_crypto ex_di_jose)"
  using toy_ok by (simp add: backend_ok_def curve_ok_def ex_di_jose_def toy_crypto_def)

lemma ex_di_created: "iso_seconds 1000000000 @ [90] = lit ''1970-01-01T00:16:40Z''"
  by code_simp

lemma ex_di_canonical:
  "isOk (canonicalize (JObj ex_di_credential))"
  "isOk (canonicalize (JObj (new_proof EDDSA_JCS_CRYPTOSUITE (lit ''1970-01-01T00:16:40Z'') ex_di_options @ [(lit ''@context'', JStr (lit ''c''))])))"
  unfolding canonicalize_ok ex_di_credential_def new_proof_def ex_di_options_def EDDSA_JCS_CRYPTOSUITE_def PROOF_TYPE_def optional_member_def
  by (simp_all add: lit_def surrogate_def)

lemma ex_di_hash:
  "jcs_hash_data (jo_crypto ex_di_jose) h ex_di_credential
     (new_proof EDDSA_JCS_CRYPTOSUITE (lit ''1970-01-01T00:16:40Z'') ex_di_options @ [(lit ''@context'', JStr (lit ''c''))]) = Inr []"
  using ex_di_canonical unfolding isOk_iff jcs_hash_Inr by (auto simp: sri_digest_def)

lemma ex_di_signed:
  assumes "sk_alg key = lit ''EdDSA''" "\<forall>m. sk_sign key m = Inr m"
  shows "jcs_add_proof ex_di_jose ex_di_suite key ex_di_options ex_di_credential = Inr ex_di_secured"
proof -
  have u: "unsecured ex_di_credential = ex_di_credential" by (simp add: unsecured_def ex_di_credential_def)
  have "utc_iso 1000000000 ProofMalformed (po_created ex_di_options) = Inr (lit ''1970-01-01T00:16:40Z'')"
    by (simp add: utc_iso_def ex_di_options_def ex_di_created)
  then show ?thesis
    using assms ex_di_hash u
    by (simp add: jcs_add_proof_def add_proof_def ex_di_secured_def) (simp add: ex_di_credential_def has_key_def jget_def)
qed

lemma ex_di_fits:
  "\<forall>p t. jget (lit ''proof'') ex_di_secured = JObj p \<longrightarrow> jget (lit ''proofValue'') p = JStr t \<longrightarrow> length t \<le> Suc MAX_B58_LEN"
  "depth (JObj ex_di_secured) \<le> MAX_DEPTH"
proof -
  have e: "encode_multibase [] = [122]" by code_simp
  show "\<forall>p t. jget (lit ''proof'') ex_di_secured = JObj p \<longrightarrow> jget (lit ''proofValue'') p = JStr t \<longrightarrow> length t \<le> Suc MAX_B58_LEN"
    by (simp add: ex_di_secured_def secure_def ex_di_credential_def new_proof_def ex_di_options_def optional_member_def jget_def e)
  show "depth (JObj ex_di_secured) \<le> MAX_DEPTH"
    by (simp add: ex_di_secured_def secure_def ex_di_credential_def new_proof_def ex_di_options_def optional_member_def MAX_DEPTH_def)
qed

lemma ex_di_window:
  "check_validity_window (\<lambda>v. None) c ex_di_credential [] PinNone (JInt 60) ct = Inr False"
  by (simp add: check_validity_window_def utc_window_def leeway_seconds_def MAX_LEEWAY_S_def ex_di_credential_def jget_def blank_def Let_def)

lemma ex_di_new: "new_eddsa_jcs (JInt 60) = Inr ex_di_suite"
  by (simp add: new_eddsa_jcs_def leeway_seconds_def MAX_LEEWAY_S_def ex_di_suite_def)

theorem jcs_proof_roundtrip_witness:
  "\<exists>key r. jcs_add_proof ex_di_jose ex_di_suite key ex_di_options ex_di_credential = Inr ex_di_secured \<and>
     jcs_verify ex_di_jose (\<lambda>c k. Inl PyValueError) ex_di_suite None (ex_di_policy ex_di_pub) ex_di_secured = Inr r \<and>
     di_credential r = ex_di_secured \<and> unsecured ex_di_secured = ex_di_credential"
proof -
  obtain key where k: "signing_key_from_jwk (jo_crypto ex_di_jose) toy_jwk (lit ''k'') = Inr key" "sk_alg key = lit ''EdDSA''"
    "sk_public_jwk key = Inr ex_di_pub" "\<forall>m. sk_sign key m = Inr m"
    using ex_di_key by blast
  have p: "dp_key (ex_di_policy ex_di_pub) = ex_di_pub" "dp_purpose (ex_di_policy ex_di_pub) = Some (po_purpose ex_di_options)"
    "dp_challenge (ex_di_policy ex_di_pub) = po_challenge ex_di_options" "dp_domain (ex_di_policy ex_di_pub) = po_domain ex_di_options"
    by (simp_all add: ex_di_policy_def ex_di_options_def)
  have w: "check_validity_window (jo_ts ex_di_jose) (jo_clock ex_di_jose) ex_di_credential [] (dp_now (ex_di_policy ex_di_pub))
      (JInt (js_leeway ex_di_suite)) (dp_temporal (ex_di_policy ex_di_pub)) = Inr False"
    using ex_di_window by (simp add: ex_di_policy_def)
  show ?thesis
    using jcs_proof_roundtrip [OF disjI1 [OF ex_di_new] ex_di_signed [OF k(2,4)] ex_di_ok k(1,3) ex_di_fits p w,
        of "\<lambda>c k. Inl PyValueError" None] ex_di_signed [OF k(2,4)] by blast
qed

text \<open>The same document with the key found through a resolver.\<close>

definition ex_di_resolver :: vm_resolver where
  "ex_di_resolver = \<lparr>vr_supports = None, vr_resolve = \<lambda>d. Inr (self_document d (lit ''k'') ex_di_pub [lit ''assertionMethod''])\<rparr>"

lemma ex_di_verified:
  "\<exists>r. jcs_verify ex_di_jose (\<lambda>c k. Inl PyValueError) ex_di_suite (Some ex_di_resolver) (ex_di_policy []) ex_di_secured = Inr r"
proof -
  let ?n = "new_proof EDDSA_JCS_CRYPTOSUITE (lit ''1970-01-01T00:16:40Z'') ex_di_options"
  have P: "prepare_di_proof ex_di_secured PROOF_TYPE EDDSA_JCS_CRYPTOSUITE =
      Inr (?n @ [(lit ''proofValue'', JStr (encode_multibase []))], ?n @ [(lit ''@context'', JStr (lit ''c''))], [])"
  proof -
    have l: "length (b58btc_encode []) \<le> MAX_B58_LEN" by code_simp
    have c: "\<not> has_key (lit ''proof'') ex_di_credential" "has_key (lit ''@context'') ex_di_credential"
      "jget (lit ''@context'') ex_di_credential = JStr (lit ''c'')"
      by (simp_all add: ex_di_credential_def has_key_def jget_def)
    show ?thesis using prepare_secure [OF c(1,2) _ l] ex_di_fits(2) c(3) unfolding ex_di_secured_def by simp
  qed
  have b: "before_hash (lit ''did:x:1#k'') = lit ''did:x:1''"
    by (simp add: before_hash_def lit_def of_char_def)
  have i: "lit ''did:x:1'' @ 35 # lit ''k'' = lit ''did:x:1#k''" by (simp add: lit_def of_char_def)
  have a: "absolute base (lit ''did:x:1#k'') = Some (lit ''did:x:1#k'')" for base by (simp add: absolute_def lit_def)
  have k: "proof_key (\<lambda>c k. Inl PyValueError) (Some ex_di_resolver) (ex_di_policy [])
      (?n @ [(lit ''proofValue'', JStr (encode_multibase []))]) = Inr ex_di_pub"
  proof -
    let ?doc = "self_document (lit ''did:x:1'') (lit ''k'') ex_di_pub [lit ''assertionMethod'']"
    have "resolve_document (\<lambda>c k. Inl PyValueError) (Some ex_di_resolver) (lit ''did:x:1'') = Inr ?doc"
      by (simp add: resolve_document_def ask_resolver_def ex_di_resolver_def)
    moreover have "authorized_key ?doc (lit ''did:x:1#k'') (lit ''assertionMethod'') = Inr ex_di_pub"
      unfolding authorized_key_Inr lookup_exact using a by (simp add: self_document_def Let_def i)
    ultimately show ?thesis
      by (simp add: proof_key_def ex_di_policy_def resolve_verification_key_def new_proof_def ex_di_options_def jget_def b
          effective_purpose_def)
  qed
  have m: "match_alg ex_di_pub [lit ''EdDSA''] = Inr (lit ''EdDSA'')"
    by (simp add: match_alg_def ex_di_pub_def okp_jwk_def jget_def ALG_PROFILE_def)
  have v: "verify_signature (jo_crypto ex_di_jose) (lit ''EdDSA'') ex_di_pub [] [] = Inr True"
    by (simp add: verify_signature_def ED25519_ALG_NAMES_def ex_di_pub_def okp_jwk_def jwk_bytes_simps ex_di_jose_def toy_crypto_def)
  have u: "unsecured ex_di_secured = ex_di_credential"
    unfolding ex_di_secured_def by (rule secure_unsecured) (simp add: ex_di_credential_def has_key_def)
  have w: "check_validity_window (\<lambda>v. None) 1000000000 ex_di_credential (?n @ [(lit ''proofValue'', JStr (encode_multibase []))]) PinNone (JInt 60) True = Inr False"
    using window_without_expires [of "?n @ [(lit ''proofValue'', JStr (encode_multibase []))]"] new_proof_keys(3,4) ex_di_window
    by (simp add: has_key_def)
  have o: "dp_purpose (ex_di_policy []) = Some (lit ''assertionMethod'')" "dp_challenge (ex_di_policy []) = po_challenge ex_di_options"
    "dp_domain (ex_di_policy []) = po_domain ex_di_options" "dp_now (ex_di_policy []) = PinNone" "dp_temporal (ex_di_policy [])"
    "po_purpose ex_di_options = lit ''assertionMethod''"
    by (simp_all add: ex_di_policy_def ex_di_options_def)
  show ?thesis
    by (simp add: jcs_verify_def P k m u ex_di_hash di_signature_def v di_finish_def check_proof_purpose_def new_proof_members new_proof_binding o w)
qed


end
