(* ===== verification/Pipeline.thy ===== *)
theory Pipeline
  imports Status_Check Sd_Jwt Issuer_Key Data_Integrity
begin

text \<open>
  openvc/verify.py: format detection, key resolution, the per-format handlers, status and schema policy, the envelope and the
  batch. \<open>venv\<close> is what the package calls outside itself and the parts of it that are parameters here (the RDF-based
  ecdsa-sd-2023 suite and type expansion, the IETF list decoder, which may not terminate on a misbehaving decompressor);
  \<open>resolvers\<close> is what the caller passes.
\<close>

section \<open>Formats\<close>

definition FORMAT_VC_JWT :: str where "FORMAT_VC_JWT = lit ''vc-jwt''"
definition FORMAT_SD_JWT_VC :: str where "FORMAT_SD_JWT_VC = lit ''sd-jwt-vc''"
definition FORMAT_DI_EDDSA :: str where "FORMAT_DI_EDDSA = lit ''data-integrity:eddsa-rdfc-2022''"
definition FORMAT_DI_ECDSA_SD :: str where "FORMAT_DI_ECDSA_SD = lit ''data-integrity:ecdsa-sd-2023''"
definition FORMAT_DI_EDDSA_JCS :: str where "FORMAT_DI_EDDSA_JCS = lit ''data-integrity:eddsa-jcs-2022''"
definition FORMAT_DI_ECDSA_JCS :: str where "FORMAT_DI_ECDSA_JCS = lit ''data-integrity:ecdsa-jcs-2019''"
definition FORMAT_DI_ECDSA_RDFC :: str where "FORMAT_DI_ECDSA_RDFC = lit ''data-integrity:ecdsa-rdfc-2019''"
definition FORMAT_ENVELOPED :: str where "FORMAT_ENVELOPED = lit ''enveloped-verifiable-credential''"

lemmas format_defs = FORMAT_VC_JWT_def FORMAT_SD_JWT_VC_def FORMAT_DI_EDDSA_def FORMAT_DI_ECDSA_SD_def FORMAT_DI_EDDSA_JCS_def
  FORMAT_DI_ECDSA_JCS_def FORMAT_DI_ECDSA_RDFC_def FORMAT_ENVELOPED_def

definition CRYPTOSUITE_FORMAT :: "(str \<times> str) list" where
  "CRYPTOSUITE_FORMAT =
     [(lit ''eddsa-rdfc-2022'', FORMAT_DI_EDDSA), (lit ''ecdsa-sd-2023'', FORMAT_DI_ECDSA_SD), (lit ''eddsa-jcs-2022'', FORMAT_DI_EDDSA_JCS),
      (lit ''ecdsa-jcs-2019'', FORMAT_DI_ECDSA_JCS), (lit ''ecdsa-rdfc-2019'', FORMAT_DI_ECDSA_RDFC)]"

abbreviation unknown_format :: exc where "unknown_format \<equiv> Verify UnknownCredentialFormat"

text \<open>\<open>credential.get("type", [])\<close> as a list of names; \<open>None\<close> for a value that is neither a string nor an array.\<close>

definition declared_types :: "jobj \<Rightarrow> json list option" where
  "declared_types credential =
     (case map_of credential (lit ''type'') of
        None \<Rightarrow> Some []
      | Some v \<Rightarrow> (case v of JStr t \<Rightarrow> Some [JStr t] | JList xs \<Rightarrow> Some xs | _ \<Rightarrow> None))"

definition object_format :: "jobj \<Rightarrow> str result" where
  "object_format credential =
     (case declared_types credential of
        None \<Rightarrow> Inl unknown_format
      | Some types \<Rightarrow>
          if JStr (lit ''EnvelopedVerifiableCredential'') \<in> set types then Inr FORMAT_ENVELOPED
          else case jget (lit ''proof'') credential of
                 JObj proof \<Rightarrow>
                   (case text_opt (jget (lit ''cryptosuite'') proof) of
                      None \<Rightarrow> Inl unknown_format
                    | Some c \<Rightarrow> (case map_of CRYPTOSUITE_FORMAT c of None \<Rightarrow> Inl unknown_format | Some f \<Rightarrow> Inr f))
               | _ \<Rightarrow> Inl unknown_format)"

definition detect_format :: "json \<Rightarrow> str result" where
  "detect_format credential =
     (case credential of
        JStr s \<Rightarrow>
          (if 126 \<in> set s then Inr FORMAT_SD_JWT_VC
           else if count_list s 46 = 2 then Inr FORMAT_VC_JWT
           else Inl unknown_format)
      | JObj d \<Rightarrow> object_format d
      | _ \<Rightarrow> Inl unknown_format)"

section \<open>The environment\<close>

record venv =
  v_jose :: jose
  v_loads_text :: "str \<Rightarrow> json result"
  v_pyjwt :: pyjwt
  v_ec_point :: "str \<Rightarrow> bytes \<Rightarrow> (nat \<times> nat) result"
  v_ip :: "str \<Rightarrow> bool"
  v_x509 :: x509
  v_js :: "jobj \<Rightarrow> jobj \<Rightarrow> js_outcome"
  v_pick :: "str list \<Rightarrow> str"
  v_read :: "bytes \<Rightarrow> nat \<Rightarrow> bytes result"
  v_token :: "(str \<Rightarrow> json result) \<Rightarrow> jobj \<Rightarrow> token_status_result option result"
  v_rdf :: rdf
  v_ecdsa_sd :: "int \<Rightarrow> vm_resolver option \<Rightarrow> di_policy \<Rightarrow> jobj \<Rightarrow> verified_di result"
  v_missing_types :: "jobj \<Rightarrow> str list \<Rightarrow> str list result"

record resolvers =
  r_did :: vm_resolver
  r_status :: "(str \<Rightarrow> json result) option"
  r_token :: "(str \<Rightarrow> json result) option"
  r_schema :: "(str \<Rightarrow> bytes option result) option"
  r_issuer :: "(str \<Rightarrow> json result) option"
  r_anchors :: "nat option list option"

record vpolicy =
  vp_leeway :: json
  vp_types :: "str list"
  vp_vct :: "str option"
  vp_audience :: json
  vp_nonce :: json
  vp_require_kb :: bool
  vp_purpose :: str
  vp_require_status :: bool
  vp_require_schema :: bool
  vp_now :: clock_pin
  vp_bind_status :: bool
  vp_allowlist :: "str list"
  vp_not_expired :: bool
  vp_not_revoked :: bool
  vp_kb_max_age :: json

text \<open>\<open>__post_init__\<close>, and the default policy.\<close>

definition new_policy :: "vpolicy \<Rightarrow> vpolicy result" where
  "new_policy p =
     bindR (leeway_seconds (Verify InvalidPolicy) (vp_leeway p)) (\<lambda>_.
     bindR (non_negative_seconds (Verify InvalidPolicy) (vp_kb_max_age p)) (\<lambda>_. Inr p))"

definition default_policy :: vpolicy where
  "default_policy =
     \<lparr>vp_leeway = JInt DEFAULT_LEEWAY_S, vp_types = [], vp_vct = None, vp_audience = JNull, vp_nonce = JNull, vp_require_kb = False,
      vp_purpose = lit ''assertionMethod'', vp_require_status = True, vp_require_schema = False, vp_now = PinNone,
      vp_bind_status = False, vp_allowlist = [], vp_not_expired = True, vp_not_revoked = True, vp_kb_max_age = JInt DEFAULT_KB_MAX_AGE_S\<rparr>"

definition schema_inner_policy :: "vpolicy \<Rightarrow> vpolicy" where
  "schema_inner_policy p =
     default_policy\<lparr>vp_leeway := vp_leeway p, vp_require_status := vp_require_status p, vp_now := vp_now p,
       vp_bind_status := vp_bind_status p, vp_allowlist := vp_allowlist p, vp_kb_max_age := vp_kb_max_age p\<rparr>"

datatype status_outcome = W3cStatus status_result | IetfStatus token_status_result

text \<open>The outcome; of \<open>raw\<close>, the suite's own result, only an SD-JWT's is read by another module.\<close>

record verification_result =
  res_format :: str
  res_credential :: jobj
  res_issuer :: json
  res_subject :: json
  res_claims :: "jobj option"
  res_key_bound :: "bool option"
  res_status :: "status_outcome option"
  res_schema :: "schema_result option"
  res_expired :: bool
  res_raw :: "verified_sd_jwt option"

section \<open>The envelope\<close>

definition contains_text :: "str \<Rightarrow> str \<Rightarrow> bool" where
  "contains_text sub s = list_ex (\<lambda>i. starts_with sub (drop i s)) [0..<Suc (length s)]"

definition decode_payload :: "venv \<Rightarrow> str list \<Rightarrow> str \<Rightarrow> str result" where
  "decode_payload V params payload =
     (if lit ''base64'' \<in> set (tl params) then bindR (b64decode payload) utf8_decode else Inr payload)"

definition enveloped_value :: "venv \<Rightarrow> str \<Rightarrow> str \<Rightarrow> json result" where
  "enveloped_value V media payload =
     (if media \<in> {lit ''application/vc+jwt'', lit ''application/jwt''} then Inr (JStr payload)
      else if contains_text (lit ''sd-jwt'') media then Inr (JStr payload)
      else if media \<in> {lit ''application/vc+ld+json'', lit ''application/vc'', lit ''application/ld+json''}
      then loads (v_loads_text V) payload
      else Inl unknown_format)"

definition unwrap_enveloped :: "venv \<Rightarrow> jobj \<Rightarrow> json result" where
  "unwrap_enveloped V doc =
     (case text_opt (jget (lit ''id'') doc) of
        None \<Rightarrow> Inl unknown_format
      | Some eid \<Rightarrow>
          if \<not> starts_with (lit ''data:'') eid then Inl unknown_format
          else let (meta, payload) = partition_at 44 (drop 5 eid); params = split_on 59 meta
               in if payload = [] then Inl unknown_format
                  else catchR is_value_error unknown_format
                         (bindR (decode_payload V params payload) (enveloped_value V (hd params))))"

section \<open>Keys\<close>

definition resolve_jose_key :: "venv \<Rightarrow> resolvers \<Rightarrow> str \<Rightarrow> str option \<Rightarrow> jobj result" where
  "resolve_jose_key V R iss kid =
     (if starts_with (lit ''https://'') iss
      then (case r_issuer R of
              None \<Rightarrow> Inl KeyResolutionFailed
            | Some fetch \<Rightarrow> catchR (\<lambda>e. e = JwtVcIssuerError \<or> is_did_error e) KeyResolutionFailed
                              (resolve_jwt_vc_issuer_key (v_ip V) fetch iss kid))
      else bindR (catchR is_did_error KeyResolutionFailed (vr_resolve (r_did R) iss)) (\<lambda>doc.
             case key_by_kid doc (case kid of None \<Rightarrow> JNull | Some k \<Rightarrow> JStr k) of
               None \<Rightarrow> Inl KeyResolutionFailed
             | Some vm \<Rightarrow> Inr (vm_jwk vm)))"

definition resolve_jose_key_with_x5c ::
    "venv \<Rightarrow> resolvers \<Rightarrow> clock_pin \<Rightarrow> bool \<Rightarrow> str \<Rightarrow> str \<Rightarrow> str option \<Rightarrow> jobj result" where
  "resolve_jose_key_with_x5c V R now sd_jwt token iss kid =
     (case r_anchors R of
        None \<Rightarrow> resolve_jose_key V R iss kid
      | Some anchors \<Rightarrow>
          bindR (parse_compact (v_jose V) (if sd_jwt then takeWhile (\<lambda>c. c \<noteq> 126) token else token)) (\<lambda>(header, _, _, _).
            if truthy (jget (lit ''x5c'') header)
            then catchR (\<lambda>e. e = X5cError) KeyResolutionFailed
                   (resolve_x5c_key (v_ip V) (v_x509 V) (jo_clock (v_jose V)) (jget (lit ''x5c'') header) iss anchors now)
            else resolve_jose_key V R iss kid))"

definition bind_issuer_to_verification_method :: "verified_di \<Rightarrow> unit result" where
  "bind_issuer_to_verification_method verified =
     (case text_opt (di_issuer verified) of
        None \<Rightarrow> Inl (Verify IssuerBindingError)
      | Some issuer \<Rightarrow>
          if issuer = [] then Inl (Verify IssuerBindingError)
          else case text_opt (jget (lit ''verificationMethod'') (di_proof verified)) of
                 None \<Rightarrow> Inl (Verify IssuerBindingError)
               | Some vm \<Rightarrow> if before_hash vm \<noteq> issuer then Inl (Verify IssuerBindingError) else Inr ())"

section \<open>Types\<close>

definition pipeline_types :: "jobj \<Rightarrow> str list \<Rightarrow> unit result" where
  "pipeline_types credential expected =
     (if list_all (\<lambda>t. JStr t \<in> set (case declared_types credential of None \<Rightarrow> [] | Some xs \<Rightarrow> xs)) expected
      then Inr () else Inl (Verify TypeMismatch))"

definition RDF_DI_FORMATS :: "str list" where
  "RDF_DI_FORMATS = [FORMAT_DI_EDDSA, FORMAT_DI_ECDSA_RDFC, FORMAT_DI_ECDSA_SD]"

definition check_di_types :: "venv \<Rightarrow> jobj \<Rightarrow> str list \<Rightarrow> str \<Rightarrow> unit result" where
  "check_di_types V credential expected fmt =
     (if fmt \<notin> set RDF_DI_FORMATS then pipeline_types credential expected
      else if expected = [] then Inr ()
      else bindR (v_missing_types V credential expected) (\<lambda>missing.
             if missing \<noteq> [] then Inl (Verify TypeMismatch) else Inr ()))"

definition check_sd_jwt_types :: "verified_sd_jwt \<Rightarrow> str list \<Rightarrow> unit result" where
  "check_sd_jwt_types verified expected =
     (if sd_vcdm verified then pipeline_types (sd_claims verified) expected
      else if expected \<noteq> [] then Inl (Verify TypeMismatch) else Inr ())"

section \<open>Status\<close>

definition enforce_status_issuer :: "vpolicy \<Rightarrow> json \<Rightarrow> str \<Rightarrow> str \<Rightarrow> unit result" where
  "enforce_status_issuer pol status_obj field credential_issuer =
     (let si = (case status_obj of JObj d \<Rightarrow> jget field d | _ \<Rightarrow> JNull);
          si = (case si of JObj d \<Rightarrow> jget (lit ''id'') d | _ \<Rightarrow> si)
      in case text_opt si of
           None \<Rightarrow> Inl (Verify StatusListIssuerUntrusted)
         | Some s \<Rightarrow>
             if s = [] then Inl (Verify StatusListIssuerUntrusted)
             else if s = credential_issuer \<or> s \<in> set (vp_allowlist pol) then Inr ()
             else Inl (Verify StatusListIssuerUntrusted))"

definition bind_status_issuer :: "vpolicy \<Rightarrow> str \<Rightarrow> str \<Rightarrow> (str \<Rightarrow> json result) option \<Rightarrow> (str \<Rightarrow> json result) option" where
  "bind_status_issuer pol field credential_issuer inner =
     map_option (\<lambda>resolve uri. bindR (resolve uri) (\<lambda>obj.
       bindR (enforce_status_issuer pol obj field credential_issuer) (\<lambda>_. Inr obj))) inner"

text \<open>The two resolvers after the binding, which needs an issuer.\<close>

definition status_resolvers ::
    "vpolicy \<Rightarrow> json \<Rightarrow> resolvers \<Rightarrow> ((str \<Rightarrow> json result) option \<times> (str \<Rightarrow> json result) option) result" where
  "status_resolvers pol credential_issuer R =
     (if \<not> vp_bind_status pol then Inr (r_status R, r_token R)
      else case text_opt credential_issuer of
             None \<Rightarrow> Inl (Verify StatusListIssuerUntrusted)
           | Some iss \<Rightarrow>
               if iss = [] then Inl (Verify StatusListIssuerUntrusted)
               else Inr (bind_status_issuer pol (lit ''issuer'') iss (r_status R), bind_status_issuer pol (lit ''iss'') iss (r_token R)))"

definition fail_closed :: "vpolicy \<Rightarrow> unit result" where
  "fail_closed pol = (if vp_require_status pol then Inl (Verify StatusUnavailable) else Inr ())"

definition check_w3c_status ::
    "venv \<Rightarrow> vpolicy \<Rightarrow> (str \<Rightarrow> json result) option \<Rightarrow> jobj \<Rightarrow> status_result option result" where
  "check_w3c_status V pol resolve source =
     bindR (parse_status_entries (v_pick V) source) (\<lambda>entries.
       if entries \<noteq> [] then
         (case resolve of
            None \<Rightarrow> bindR (fail_closed pol) (\<lambda>_. Inr None)
          | Some res \<Rightarrow>
              bindR (check_credential_status (v_pick V) (v_read V) res source) (\<lambda>w3c.
                if sr_revoked w3c \<and> vp_not_revoked pol then Inl CredentialRevoked
                else if sr_suspended w3c then Inl CredentialSuspended
                else Inr (Some w3c)))
       else if truthy (jget (lit ''credentialStatus'') source) then bindR (fail_closed pol) (\<lambda>_. Inr None)
       else Inr None)"

definition check_ietf_status ::
    "venv \<Rightarrow> vpolicy \<Rightarrow> (str \<Rightarrow> json result) option \<Rightarrow> jobj \<Rightarrow> token_status_result option result" where
  "check_ietf_status V pol resolve source =
     bindR (parse_token_status_ref source) (\<lambda>ref.
       case ref of
         Some _ \<Rightarrow>
           (case resolve of
              None \<Rightarrow> bindR (fail_closed pol) (\<lambda>_. Inr None)
            | Some res \<Rightarrow>
                bindR (v_token V res source) (\<lambda>ietf.
                  case ietf of
                    None \<Rightarrow> Inr None
                  | Some t \<Rightarrow>
                      if ts_revoked t \<and> vp_not_revoked pol then Inl CredentialRevoked
                      else if ts_suspended t then Inl CredentialSuspended
                      else Inr (Some t)))
       | None \<Rightarrow>
           if jget (lit ''status'') source \<noteq> JNull then bindR (fail_closed pol) (\<lambda>_. Inr None) else Inr None)"

definition check_status ::
    "venv \<Rightarrow> resolvers \<Rightarrow> vpolicy \<Rightarrow> jobj \<Rightarrow> jobj \<Rightarrow> json \<Rightarrow> status_outcome option result" where
  "check_status V R pol w3c_source ietf_source credential_issuer =
     bindR (status_resolvers pol credential_issuer R) (\<lambda>(lists, tokens).
     bindR (check_w3c_status V pol lists w3c_source) (\<lambda>w3c.
     bindR (check_ietf_status V pol tokens ietf_source) (\<lambda>ietf.
       Inr (case w3c of Some w \<Rightarrow> Some (W3cStatus w) | None \<Rightarrow> map_option IetfStatus ietf))))"

section \<open>Schema\<close>

definition check_schema ::
    "venv \<Rightarrow> resolvers \<Rightarrow> vpolicy \<Rightarrow> (bytes \<Rightarrow> jobj result) \<Rightarrow> jobj \<Rightarrow> schema_result option result" where
  "check_schema V R pol verify_inner credential =
     (if \<not> truthy (jget (lit ''credentialSchema'') credential) then Inr None
      else case r_schema R of
             None \<Rightarrow> if vp_require_schema pol then Inl (Schema SchemaUnavailable) else Inr None
           | Some fetch \<Rightarrow>
               bindR (validate_credential_schema (v_jose V) (v_js V) credential fetch (Some verify_inner)) (\<lambda>r. Inr (Some r)))"

section \<open>The handlers\<close>

definition opt_json :: "str option \<Rightarrow> json" where
  "opt_json v = (case v of None \<Rightarrow> JNull | Some s \<Rightarrow> JStr s)"

definition verify_vc_jwt ::
    "venv \<Rightarrow> resolvers \<Rightarrow> vpolicy \<Rightarrow> (bytes \<Rightarrow> jobj result) \<Rightarrow> str \<Rightarrow> verification_result result" where
  "verify_vc_jwt V R pol verify_inner token =
     bindR (new_vc_suite (vp_leeway pol) (JBool False) (JBool False)) (\<lambda>suite.
     bindR (vc_peek_issuer (v_jose V) token) (\<lambda>(iss, kid).
     bindR (resolve_jose_key_with_x5c V R (vp_now pol) False token iss kid) (\<lambda>jwk.
     bindR (vc_verify (v_jose V) (v_pyjwt V) suite token (JObj jwk) [] (vp_audience pol) (vp_not_expired pol)) (\<lambda>verified.
     bindR (pipeline_types (vc_credential verified) (vp_types pol)) (\<lambda>_.
     bindR (check_status V R pol (vc_credential verified) (vc_claims verified) (JStr (vc_issuer verified))) (\<lambda>status.
     bindR (check_schema V R pol verify_inner (vc_credential verified)) (\<lambda>schema.
       Inr \<lparr>res_format = FORMAT_VC_JWT, res_credential = vc_credential verified, res_issuer = JStr (vc_issuer verified),
            res_subject = opt_json (vc_subject verified), res_claims = Some (vc_claims verified), res_key_bound = None,
            res_status = status, res_schema = schema, res_expired = vc_expired verified, res_raw = None\<rparr>)))))))"

text \<open>The audience and nonce a KB-JWT is held to: the enclosing presentation's, or the policy's.\<close>

definition kb_terms :: "vpolicy \<Rightarrow> (json \<times> json) option \<Rightarrow> (json \<times> json) result" where
  "kb_terms pol kb_binding =
     (case kb_binding of
        None \<Rightarrow> Inr (vp_audience pol, vp_nonce pol)
      | Some (a, n) \<Rightarrow> if nonempty_str a \<and> nonempty_str n then Inr (a, n) else Inl ClaimsInvalid)"

definition verify_sd_jwt ::
    "venv \<Rightarrow> resolvers \<Rightarrow> vpolicy \<Rightarrow> (bytes \<Rightarrow> jobj result) \<Rightarrow> (json \<times> json) option \<Rightarrow> str \<Rightarrow> verification_result result" where
  "verify_sd_jwt V R pol verify_inner kb_binding sd_jwt =
     bindR (new_sd_suite (vp_leeway pol) DEFAULT_HASH (JBool False)) (\<lambda>suite.
     bindR (sd_peek_issuer (v_jose V) sd_jwt) (\<lambda>(iss, kid).
     bindR (resolve_jose_key_with_x5c V R (vp_now pol) True sd_jwt iss kid) (\<lambda>jwk.
     bindR (kb_terms pol kb_binding) (\<lambda>(audience, nonce).
     bindR (sd_verify (v_jose V) suite sd_jwt jwk
              \<lparr>sp_audience = audience, sp_nonce = nonce, sp_require_kb = vp_require_kb pol, sp_vct = vp_vct pol,
               sp_temporal = vp_not_expired pol, sp_kb_max_age = vp_kb_max_age pol, sp_now = vp_now pol\<rparr>) (\<lambda>verified.
     bindR (check_sd_jwt_types verified (vp_types pol)) (\<lambda>_.
     bindR (check_status V R pol (sd_claims verified) (sd_claims verified) (JStr (sd_issuer verified))) (\<lambda>status.
     bindR (check_schema V R pol verify_inner (sd_claims verified)) (\<lambda>schema.
       Inr \<lparr>res_format = FORMAT_SD_JWT_VC, res_credential = sd_claims verified, res_issuer = JStr (sd_issuer verified),
            res_subject = opt_json (text_opt (jget (lit ''sub'') (sd_claims verified))), res_claims = Some (sd_claims verified),
            res_key_bound = Some (sd_key_bound verified), res_status = status, res_schema = schema,
            res_expired = sd_expired verified, res_raw = Some verified\<rparr>))))))))"

definition di_suite_verify ::
    "venv \<Rightarrow> str \<Rightarrow> json \<Rightarrow> vm_resolver option \<Rightarrow> di_policy \<Rightarrow> jobj \<Rightarrow> verified_di result" where
  "di_suite_verify V fmt leeway_s resolver dpol doc =
     (if fmt = FORMAT_DI_ECDSA_SD
      then bindR (leeway_seconds ProofError leeway_s) (\<lambda>l. v_ecdsa_sd V l resolver dpol doc)
      else if fmt = FORMAT_DI_EDDSA_JCS
      then bindR (new_eddsa_jcs leeway_s) (\<lambda>suite. jcs_verify (v_jose V) (v_ec_point V) suite resolver dpol doc)
      else if fmt = FORMAT_DI_ECDSA_JCS
      then bindR (new_ecdsa_jcs leeway_s) (\<lambda>suite. jcs_verify (v_jose V) (v_ec_point V) suite resolver dpol doc)
      else if fmt = FORMAT_DI_ECDSA_RDFC
      then bindR (leeway_seconds ProofError leeway_s) (\<lambda>l. ecdsa_rdfc_verify (v_jose V) (v_ec_point V) (v_rdf V) l resolver dpol doc)
      else bindR (leeway_seconds ProofError leeway_s) (\<lambda>l. eddsa_rdfc_verify (v_jose V) (v_ec_point V) (v_rdf V) l resolver dpol doc))"

definition pipeline_di_policy :: "vpolicy \<Rightarrow> di_policy" where
  "pipeline_di_policy pol =
     \<lparr>dp_key = [], dp_purpose = Some (vp_purpose pol), dp_challenge = None, dp_domain = None, dp_now = vp_now pol,
      dp_temporal = vp_not_expired pol\<rparr>"

definition verify_data_integrity ::
    "venv \<Rightarrow> resolvers \<Rightarrow> vpolicy \<Rightarrow> (bytes \<Rightarrow> jobj result) \<Rightarrow> str \<Rightarrow> jobj \<Rightarrow> verification_result result" where
  "verify_data_integrity V R pol verify_inner fmt doc =
     bindR (di_suite_verify V fmt (vp_leeway pol) (Some (r_did R)) (pipeline_di_policy pol) doc) (\<lambda>verified.
     bindR (bind_issuer_to_verification_method verified) (\<lambda>_.
     bindR (check_di_types V (di_credential verified) (vp_types pol) fmt) (\<lambda>_.
     bindR (check_status V R pol (di_credential verified) (di_credential verified) (di_issuer verified)) (\<lambda>status.
     bindR (check_schema V R pol verify_inner (di_credential verified)) (\<lambda>schema.
       Inr \<lparr>res_format = fmt, res_credential = di_credential verified, res_issuer = di_issuer verified,
            res_subject = di_subject verified, res_claims = None, res_key_bound = None, res_status = status,
            res_schema = schema, res_expired = di_expired verified, res_raw = None\<rparr>)))))"

section \<open>Dispatch\<close>

definition reject_deep_credential :: "json \<Rightarrow> unit result" where
  "reject_deep_credential credential =
     (if \<not> is_jstr credential \<and> nesting_exceeds credential MAX_DEPTH then Inl unknown_format else Inr ())"

definition handle ::
    "venv \<Rightarrow> resolvers \<Rightarrow> vpolicy \<Rightarrow> (bytes \<Rightarrow> jobj result) \<Rightarrow> (json \<times> json) option \<Rightarrow> str \<Rightarrow> json \<Rightarrow> verification_result result" where
  "handle V R pol verify_inner kb_binding fmt credential =
     (case credential of
        JStr token \<Rightarrow>
          (if fmt = FORMAT_VC_JWT then verify_vc_jwt V R pol verify_inner token
           else verify_sd_jwt V R pol verify_inner kb_binding token)
      | JObj doc \<Rightarrow> verify_data_integrity V R pol verify_inner fmt doc
      | _ \<Rightarrow> Inl unknown_format)"

text \<open>
  \<open>verify_credential\<close> and \<open>_verify_by_format\<close>: \<open>levels\<close> is how many envelopes may still be opened (\<open>2 - _depth\<close>), and
  \<open>inner levels\<close> the verifier of a schema credential at that depth.
\<close>

fun dispatch ::
    "venv \<Rightarrow> resolvers \<Rightarrow> vpolicy \<Rightarrow> (json \<times> json) option \<Rightarrow> (nat \<Rightarrow> bytes \<Rightarrow> jobj result) \<Rightarrow> nat \<Rightarrow> json \<Rightarrow> verification_result result" where
  "dispatch V R pol kb_binding inner levels credential =
     bindR (reject_deep_credential credential) (\<lambda>_.
     bindR (detect_format credential) (\<lambda>fmt.
       if fmt = FORMAT_ENVELOPED
       then (case levels of
               0 \<Rightarrow> Inl unknown_format
             | Suc n \<Rightarrow> bindR (unwrap_enveloped V (case credential of JObj d \<Rightarrow> d | _ \<Rightarrow> [])) (dispatch V R pol kb_binding inner n))
       else handle V R pol (inner levels) kb_binding fmt credential))"

declare dispatch.simps [simp del]

definition bytes_to_credential :: "venv \<Rightarrow> bytes \<Rightarrow> json result" where
  "bytes_to_credential V raw =
     bindR (catchR is_value_error unknown_format (utf8_decode raw)) (\<lambda>text.
       case loads (v_loads_text V) text of
         Inr (JObj d) \<Rightarrow> Inr (JObj d)
       | Inr _ \<Rightarrow> Inr (JStr text)
       | Inl e \<Rightarrow> if is_value_error e then Inr (JStr text) else Inl e)"

text \<open>
  \<open>_make_schema_verifier\<close>: the schema credential goes through the pipeline with schema validation off, so the innermost
  verifier is never asked (lemma \<open>inner_unused\<close>).
\<close>

definition schema_verifier :: "venv \<Rightarrow> resolvers \<Rightarrow> vpolicy \<Rightarrow> nat \<Rightarrow> bytes \<Rightarrow> jobj result" where
  "schema_verifier V R pol levels raw =
     bindR (bytes_to_credential V raw) (\<lambda>c.
     bindR (dispatch V (R\<lparr>r_schema := None\<rparr>) (schema_inner_policy pol) None (\<lambda>_ _. Inl OpenvcError) (levels - 1) c) (\<lambda>r.
       Inr (res_credential r)))"

definition verify_credential ::
    "venv \<Rightarrow> resolvers \<Rightarrow> vpolicy \<Rightarrow> (json \<times> json) option \<Rightarrow> json \<Rightarrow> verification_result result" where
  "verify_credential V R pol kb_binding credential = dispatch V R pol kb_binding (schema_verifier V R pol) 2 credential"

section \<open>Batches\<close>

record batch_result =
  br_index :: nat
  br_result :: "verification_result result"

text \<open>
  The loop of \<open>verify_many\<close>: an \<open>OpenvcError\<close> becomes the item's outcome, anything else leaves the loop. The per-call caches
  answer what the wrapped resolvers answer (Ttl\_Cache), so the resolvers here are the caller's.
\<close>

fun verify_loop :: "venv \<Rightarrow> resolvers \<Rightarrow> vpolicy \<Rightarrow> nat \<Rightarrow> json list \<Rightarrow> batch_result list result" where
  "verify_loop V R pol index [] = Inr []"
| "verify_loop V R pol index (credential # rest) =
     (let r = verify_credential V R pol None credential
      in case r of
           Inl e \<Rightarrow>
             (if is_openvc_error e
              then bindR (verify_loop V R pol (Suc index) rest) (\<lambda>out. Inr (\<lparr>br_index = index, br_result = r\<rparr> # out))
              else Inl e)
         | Inr _ \<Rightarrow> bindR (verify_loop V R pol (Suc index) rest) (\<lambda>out. Inr (\<lparr>br_index = index, br_result = r\<rparr> # out)))"

definition verify_many :: "venv \<Rightarrow> resolvers \<Rightarrow> vpolicy \<Rightarrow> json list \<Rightarrow> batch_result list result" where
  "verify_many V R pol credentials = verify_loop V R pol 0 credentials"

section \<open>Lemmas: the key is the issuer's\<close>

text \<open>What the code relies on: PyJWT returns the payload the token carries.\<close>

definition pyjwt_payload :: "jose \<Rightarrow> pyjwt \<Rightarrow> bool" where
  "pyjwt_payload J P \<longleftrightarrow>
     (\<forall>token key alg l aud e claims. pj_decode P token key alg l aud e = Inr claims \<longrightarrow>
        (\<exists>h p s. split_on 46 token = [h, p, s] \<and> bindR (b64url_decode p) (loads (jo_loads J)) = Inr (JObj claims)))"

lemma peeked_reconciled:
  assumes "peeked_issuer payload = JStr iss" "iss \<noteq> []" "jget (lit ''vc'') payload = JObj vc" "reconcile payload vc = Inr (iss', sub)"
  shows "iss' = iss"
proof -
  have r: "jget (lit ''iss'') payload = JStr iss'"
    "has_key (lit ''issuer'') vc \<longrightarrow> (\<forall>n\<in>set (issuer_identifiers (jget (lit ''issuer'') vc)). n = JStr iss')"
    using reconcile_Inr [OF assms(4)] by auto
  show ?thesis
  proof (cases "iss' = []")
    case False
    then show ?thesis using r(1) assms(1) by (simp add: peeked_issuer_def)
  next
    case True
    let ?v = "jget (lit ''issuer'') vc"
    have v: "(case ?v of JObj d \<Rightarrow> jget (lit ''id'') d | _ \<Rightarrow> ?v) = JStr iss"
      using assms(1,3) r(1) True unfolding peeked_issuer_def Let_def by (cases ?v) simp_all
    then have k: "has_key (lit ''issuer'') vc"
      by (cases "has_key (lit ''issuer'') vc") (auto simp: jget_absent)
    have "JStr iss \<in> set (issuer_identifiers ?v)"
    proof (cases ?v)
      case (JObj d)
      then have "jget (lit ''id'') d = JStr iss" using v by simp
      moreover from this have "has_key (lit ''id'') d" by (cases "has_key (lit ''id'') d") (auto simp: jget_absent)
      ultimately show ?thesis using JObj by (simp add: issuer_identifiers_def)
    qed (use v in \<open>auto simp: issuer_identifiers_def\<close>)
    then show ?thesis using r(2) k by auto
  qed
qed

lemma text_opt_Some [simp]: "text_opt v = Some x \<longleftrightarrow> v = JStr x"
  by (cases v) auto

lemma vc_peek_Inr:
  assumes "vc_peek_issuer J token = Inr (iss, kid)"
  shows "\<exists>h p s payload. split_on 46 token = [h, p, s] \<and> json_of_segment J p = Inr (JObj payload) \<and>
     peeked_issuer payload = JStr iss \<and> iss \<noteq> []"
proof -
  obtain h p s hv pv where a: "vc_split token = Inr (h, p, s)" "json_of_segment J p = Inr pv"
    "(case both_objects hv pv of
         None \<Rightarrow> Inl MalformedToken
       | Some (header, payload) \<Rightarrow>
           (case text_opt (peeked_issuer payload) of
              None \<Rightarrow> Inl MalformedToken
            | Some iss \<Rightarrow> if iss = [] then Inl MalformedToken else bindR (kid_of header) (\<lambda>kid. Inr (iss, kid)))) = Inr (iss, kid)"
    using assms by (auto simp: vc_peek_issuer_def bindR_Inr)
  then obtain header payload where b: "both_objects hv pv = Some (header, payload)"
    by (cases "both_objects hv pv") auto
  then have k: "vc_split token = Inr (h, p, s)" "json_of_segment J p = Inr pv" "both_objects hv pv = Some (header, payload)"
    "peeked_issuer payload = JStr iss" "iss \<noteq> []"
    using a by (auto simp: bindR_Inr split: option.split_asm if_split_asm)
  have "pv = JObj payload" using k(3) by (simp add: both_objects_Some)
  moreover have "split_on 46 token = [h, p, s]"
    using k(1) by (auto simp: vc_split_def split: if_splits list.splits)
  ultimately show ?thesis using k by blast
qed

lemma classic_payload:
  "pyjwt_payload J P \<Longrightarrow> verify_classic P suite token alg jwk aud ct = Inr (claims, je) \<Longrightarrow>
     \<exists>h p s. split_on 46 token = [h, p, s] \<and> bindR (b64url_decode p) (loads (jo_loads J)) = Inr (JObj claims)"
  unfolding pyjwt_payload_def
  by (auto simp: verify_classic_def vc_decode_def bindR_Inr split: option.splits sum.splits decode_error.splits if_splits)

lemma vc_issuer_peeked:
  assumes "pyjwt_payload J P" "set (vs_algs suite) \<inter> set ALLOWED_ALGS_PQ = {}"
    "vc_peek_issuer J token = Inr (iss, kid)" "vc_verify J P suite token jwk types aud ct = Inr r"
  shows "vc_issuer r = iss"
proof -
  obtain alg claims je where g: "vc_gate J suite token aud = Inr alg" "vc_signature_step J P suite token alg jwk aud ct = Inr (claims, je)"
    "vc_finish J suite claims je aud types ct = Inr r"
    using assms(4) by (auto simp: vc_verify_def bindR_Inr)
  have "alg \<in> set (vs_algs suite)" using vc_gate_Inr [OF g(1)] by blast
  then have "alg \<notin> set ALLOWED_ALGS_PQ" using assms(2) by blast
  then have "verify_classic P suite token alg jwk aud ct = Inr (claims, je)"
    using g(2) by (simp add: vc_signature_step_def)
  then obtain h p s where c: "split_on 46 token = [h, p, s]" "bindR (b64url_decode p) (loads (jo_loads J)) = Inr (JObj claims)"
    using classic_payload [OF assms(1)] by blast
  obtain payload where p: "json_of_segment J p = Inr (JObj payload)" "peeked_issuer payload = JStr iss" "iss \<noteq> []"
    using vc_peek_Inr [OF assms(3)] c(1) by auto
  have "payload = claims" using p(1) c(2) by (simp add: json_of_segment_def)
  then show ?thesis using peeked_reconciled [OF p(2,3)] vc_finish_Inr [OF g(3)] by blast
qed

lemma hd_split_on: "hd (split_on c s) = takeWhile (\<lambda>x. x \<noteq> c) s"
  by (induction c s rule: split_on.induct) (auto split: list.splits)

lemma sd_issuer_peeked:
  assumes "sd_peek_issuer J t = Inr (iss, kid)" "sd_verify J suite t jwk pol = Inr r"
  shows "sd_issuer r = iss"
proof -
  obtain max_age current ij ds kb header claims ty where a:
    "sd_split t = Inr (ij, ds, kb)" "verify_issuer_jwt J suite ij jwk = Inr (header, claims, ty)"
    "sd_after_signature J suite pol
         (\<lambda>hash_name required.
            verify_key_binding J suite kb ij ds (jget (lit ''cnf'') claims) hash_name
              (sp_audience pol) (sp_nonce pol) required current max_age)
         ds header claims ty = Inr r"
    using sd_verify_Inr [OF assms(2)] by metis
  obtain h where i: "iss_and_hash claims header = Inr (sd_issuer r, h)" using after_signature_Inr [OF a(3)] by metis
  have "ij = takeWhile (\<lambda>c. c \<noteq> 126) t" using a(1) by (auto simp: sd_split_def Let_def hd_split_on split: if_splits)
  moreover obtain si sg where "decode_jws J ij = Inr (header, claims, si, sg)" using issuer_jwt_Inr [OF a(2)] by blast
  ultimately have "issuer_from_body claims header = JStr iss"
    using assms(1) by (auto simp: sd_peek_issuer_def bindR_Inr split: option.splits if_splits)
  then show ?thesis using i by (auto simp: iss_and_hash_def split: option.splits if_splits)
qed

section \<open>Lemmas: what an accepted result went through\<close>

text \<open>The key of a compact credential: from the issuer's document or metadata, or from a certificate chain naming it.\<close>

definition issuer_key :: "venv \<Rightarrow> resolvers \<Rightarrow> clock_pin \<Rightarrow> str \<Rightarrow> jobj \<Rightarrow> bool" where
  "issuer_key V R now iss jwk \<longleftrightarrow>
     (\<exists>fetch kid. starts_with (lit ''https://'') iss \<and> r_issuer R = Some fetch \<and>
        resolve_jwt_vc_issuer_key (v_ip V) fetch iss kid = Inr jwk) \<or>
     (\<exists>doc kid vm. \<not> starts_with (lit ''https://'') iss \<and> vr_resolve (r_did R) iss = Inr doc \<and> key_by_kid doc kid = Some vm \<and>
        jwk = vm_jwk vm) \<or>
     (\<exists>anchors x5c. r_anchors R = Some anchors \<and>
        resolve_x5c_key (v_ip V) (v_x509 V) (jo_clock (v_jose V)) x5c iss anchors now = Inr jwk)"

lemma jose_key_issuer: "resolve_jose_key V R iss kid = Inr jwk \<Longrightarrow> issuer_key V R now iss jwk"
  unfolding issuer_key_def resolve_jose_key_def
  by (auto simp: bindR_Inr simp del: key_by_kid.simps split: option.split_asm if_split_asm)

lemma jose_key_x5c_issuer: "resolve_jose_key_with_x5c V R now sd token iss kid = Inr jwk \<Longrightarrow> issuer_key V R now iss jwk"
  using jose_key_issuer [of V R iss kid jwk now]
  by (auto simp: resolve_jose_key_with_x5c_def bindR_Inr issuer_key_def split: option.splits if_splits)

lemma vc_algs_classic: "new_vc_suite l (JBool False) (JBool False) = Inr suite \<Longrightarrow> set (vs_algs suite) \<inter> set ALLOWED_ALGS_PQ = {}"
  by (auto simp: new_vc_suite_def bindR_Inr ALLOWED_ALGS_def ALLOWED_ALGS_PQ_def Let_def lit_def)

lemma object_format_data_integrity:
  "object_format d = Inr fmt \<Longrightarrow> fmt \<noteq> FORMAT_ENVELOPED \<Longrightarrow>
     fmt \<in> {FORMAT_DI_EDDSA, FORMAT_DI_ECDSA_SD, FORMAT_DI_EDDSA_JCS, FORMAT_DI_ECDSA_JCS, FORMAT_DI_ECDSA_RDFC}"
  by (auto simp: object_format_def CRYPTOSUITE_FORMAT_def split: option.splits if_splits json.split_asm)

lemma dispatch_handled:
  "dispatch V R pol kb inner levels c = Inr r \<Longrightarrow>
     \<exists>c' fmt n. detect_format c' = Inr fmt \<and> fmt \<noteq> FORMAT_ENVELOPED \<and> handle V R pol (inner n) kb fmt c' = Inr r"
proof (induction levels arbitrary: c)
  case 0
  then show ?case by (subst (asm) dispatch.simps) (auto simp: bindR_Inr split: if_splits)
next
  case (Suc n)
  from Suc.prems show ?case
    by (subst (asm) dispatch.simps) (use Suc.IH in \<open>auto simp: bindR_Inr split: if_splits\<close>)
qed

lemma dispatch_direct:
  "dispatch V R pol kb inner levels c = Inr r \<Longrightarrow> detect_format c = Inr fmt \<Longrightarrow> fmt \<noteq> FORMAT_ENVELOPED \<Longrightarrow>
     handle V R pol (inner levels) kb fmt c = Inr r"
  by (subst (asm) dispatch.simps) (auto simp: bindR_Inr)

text \<open>The claims that may carry an IETF status: the token's, or the credential's own where there are none.\<close>

definition status_claims :: "verification_result \<Rightarrow> jobj" where
  "status_claims r = (case res_claims r of Some c \<Rightarrow> c | None \<Rightarrow> res_credential r)"

lemma handle_status:
  assumes "handle V R pol inner kb fmt c = Inr r"
  shows "check_status V R pol (res_credential r) (status_claims r) (res_issuer r) = Inr (res_status r) \<and>
     check_schema V R pol inner (res_credential r) = Inr (res_schema r)"
  using assms
  by (cases c) (auto simp: handle_def verify_vc_jwt_def verify_sd_jwt_def verify_data_integrity_def bindR_Inr status_claims_def
      split: if_splits)

text \<open>Status: a declared status was read, through the bound resolver.\<close>

lemma w3c_checked:
  assumes "check_w3c_status V pol lres source = Inr w" "vp_require_status pol" "truthy (jget (lit ''credentialStatus'') source)"
  shows "\<exists>res st. lres = Some res \<and> check_credential_status (v_pick V) (v_read V) res source = Inr st \<and> w = Some st \<and>
     \<not> sr_suspended st \<and> (vp_not_revoked pol \<longrightarrow> \<not> sr_revoked st)"
  using assms by (auto simp: check_w3c_status_def fail_closed_def bindR_Inr split: if_splits option.splits)

text \<open>What the pipeline's status reader is: the checker of the status package, where it returns.\<close>

definition token_reader :: "'z zlib \<Rightarrow> venv \<Rightarrow> bool" where
  "token_reader z V \<longleftrightarrow> (\<forall>res claims. check_token_status z res claims = Some (v_token V res claims))"

lemma token_present:
  "parse_token_status_ref claims = Inr (Some ref) \<Longrightarrow> check_token_status z res claims = Some (Inr t) \<Longrightarrow> t \<noteq> None"
  by (auto simp: check_token_status_def bindR_Inr split: sum.splits)

lemma ietf_checked:
  assumes "token_reader z V" "check_ietf_status V pol tokens source = Inr t" "vp_require_status pol"
    "jget (lit ''status'') source \<noteq> JNull"
  shows "\<exists>res st. tokens = Some res \<and> check_token_status z res source = Some (Inr (Some st)) \<and> t = Some st \<and>
     \<not> ts_suspended st \<and> (vp_not_revoked pol \<longrightarrow> \<not> ts_revoked st)"
proof -
  have t: "check_token_status z res source = Some (v_token V res source)" for res
    using assms(1) by (simp add: token_reader_def)
  obtain ref where r: "parse_token_status_ref source = Inr (Some ref)"
    using assms(2-4) by (auto simp: check_ietf_status_def fail_closed_def bindR_Inr split: option.splits if_splits)
  obtain res x where x: "tokens = Some res" "v_token V res source = Inr x"
    "(case x of None \<Rightarrow> Inr None | Some t \<Rightarrow>
        if ts_revoked t \<and> vp_not_revoked pol then Inl CredentialRevoked
        else if ts_suspended t then Inl CredentialSuspended else Inr (Some t)) = Inr t"
    using assms(2,3) r by (auto simp: check_ietf_status_def fail_closed_def bindR_Inr split: option.splits)
  have "x \<noteq> None" using token_present [OF r] t [of res] x(2) by simp
  then show ?thesis using x t [of res] by (auto split: if_splits)
qed

lemma bound_resolver:
  "bind_status_issuer pol field iss inner = Some res \<Longrightarrow> res uri = Inr obj \<Longrightarrow>
     (\<exists>f. inner = Some f \<and> f uri = Inr obj) \<and> enforce_status_issuer pol obj field iss = Inr ()"
  by (auto simp: bind_status_issuer_def bindR_Inr)

text \<open>The issuer a status list names.\<close>

definition list_issuer :: "str \<Rightarrow> json \<Rightarrow> json" where
  "list_issuer field obj =
     (let si = (case obj of JObj d \<Rightarrow> jget field d | _ \<Rightarrow> JNull) in case si of JObj d \<Rightarrow> jget (lit ''id'') d | _ \<Rightarrow> si)"

lemma enforced_issuer:
  "enforce_status_issuer pol obj field iss = Inr () \<longleftrightarrow> (\<exists>s. list_issuer field obj = JStr s \<and> s \<noteq> [] \<and> (s = iss \<or> s \<in> set (vp_allowlist pol)))"
  by (auto simp: enforce_status_issuer_def list_issuer_def Let_def split: option.splits if_splits)

lemma status_resolvers_bound:
  assumes "status_resolvers pol issuer R = Inr (lres, tokens)" "vp_bind_status pol"
  shows "\<exists>iss. issuer = JStr iss \<and> iss \<noteq> [] \<and>
     (\<forall>res uri obj. lres = Some res \<longrightarrow> res uri = Inr obj \<longrightarrow>
        (\<exists>s. list_issuer (lit ''issuer'') obj = JStr s \<and> (s = iss \<or> s \<in> set (vp_allowlist pol)))) \<and>
     (\<forall>res uri obj. tokens = Some res \<longrightarrow> res uri = Inr obj \<longrightarrow>
        (\<exists>s. list_issuer (lit ''iss'') obj = JStr s \<and> (s = iss \<or> s \<in> set (vp_allowlist pol))))"
proof -
  obtain iss where i: "issuer = JStr iss" "iss \<noteq> []"
    "lres = bind_status_issuer pol (lit ''issuer'') iss (r_status R)" "tokens = bind_status_issuer pol (lit ''iss'') iss (r_token R)"
    using assms by (auto simp: status_resolvers_def split: option.splits if_splits)
  have e: "bind_status_issuer pol field iss inner = Some res \<Longrightarrow> res uri = Inr obj \<Longrightarrow>
      \<exists>s. list_issuer field obj = JStr s \<and> (s = iss \<or> s \<in> set (vp_allowlist pol))" for field inner res uri obj
    using bound_resolver enforced_issuer by blast
  show ?thesis using i(1,2) e unfolding i(3,4) by blast
qed

text \<open>With schema validation off the schema verifier is never asked.\<close>

lemma inner_unused_schema: "r_schema R = None \<Longrightarrow> check_schema V R pol inner c = check_schema V R pol inner' c"
  by (simp add: check_schema_def)

lemma inner_unused_handle: "r_schema R = None \<Longrightarrow> handle V R pol inner kb fmt c = handle V R pol inner' kb fmt c"
  by (cases c) (simp_all add: handle_def verify_vc_jwt_def verify_sd_jwt_def verify_data_integrity_def inner_unused_schema [of R V pol inner _ inner'])

lemma inner_unused:
  assumes "r_schema R = None"
  shows "dispatch V R pol kb inner levels c = dispatch V R pol kb inner' levels c"
proof (induction levels arbitrary: c)
  case 0
  have "handle V R pol (inner 0) kb = handle V R pol (inner' 0) kb" by (intro ext inner_unused_handle assms)
  then show ?case by (subst (1 2) dispatch.simps) (simp cong: if_cong)
next
  case (Suc n)
  have "handle V R pol (inner (Suc n)) kb = handle V R pol (inner' (Suc n)) kb" by (intro ext inner_unused_handle assms)
  moreover have "dispatch V R pol kb inner n = dispatch V R pol kb inner' n" by (intro ext Suc.IH)
  ultimately show ?case by (subst (1 2) dispatch.simps) (simp cong: if_cong)
qed

text \<open>Batches: the outcomes are the single verifications.\<close>

lemma verify_loop_Inr:
  "verify_loop V R pol n cs = Inr out \<longleftrightarrow>
     out = map (\<lambda>(i, c). \<lparr>br_index = i, br_result = verify_credential V R pol None c\<rparr>) (zip [n..<n + length cs] cs) \<and>
     (\<forall>c e. c \<in> set cs \<and> verify_credential V R pol None c = Inl e \<longrightarrow> is_openvc_error e)"
proof (induction cs arbitrary: n out)
  case (Cons c cs)
  have z: "zip [n..<n + length (c # cs)] (c # cs) = (n, c) # zip [Suc n..<Suc n + length cs] cs"
    by (simp add: upt_conv_Cons del: upt_Suc)
  show ?case
  proof (cases "verify_credential V R pol None c")
    case (Inl e)
    then show ?thesis using Cons.IH [of "Suc n"] unfolding z by (auto simp: bindR_Inr Let_def)
  next
    case (Inr r)
    then show ?thesis using Cons.IH [of "Suc n"] unfolding z by (auto simp: bindR_Inr Let_def)
  qed
qed auto

text \<open>The document is signed under one of the whole-document suites.\<close>

definition di_signed :: "venv \<Rightarrow> jobj \<Rightarrow> jobj \<Rightarrow> bool" where
  "di_signed V doc jwk \<longleftrightarrow>
     (\<exists>suite. jcs_signed (v_jose V) suite doc jwk) \<or> rdf_signed (v_jose V) (v_rdf V) CRYPTOSUITE doc jwk \<or>
     rdf_signed (v_jose V) (v_rdf V) ECDSA_RDFC_CRYPTOSUITE doc jwk"

lemma di_suite_document:
  assumes "di_suite_verify V fmt l resolver dpol doc = Inr v" "fmt \<noteq> FORMAT_DI_ECDSA_SD" "dp_key dpol = []"
  shows "di_credential v = doc \<and> jget (lit ''proof'') doc = JObj (di_proof v) \<and> di_issuer v = di_issuer_of doc \<and>
     check_proof_purpose (di_proof v) (dp_purpose dpol) = Inr () \<and>
     check_presentation_binding (di_proof v) (dp_challenge dpol) (dp_domain dpol) = Inr () \<and> (dp_temporal dpol \<longrightarrow> \<not> di_expired v) \<and>
     (\<exists>kid d vm. jget (lit ''verificationMethod'') (di_proof v) = JStr kid \<and>
        resolve_document (v_ec_point V) resolver (before_hash kid) = Inr d \<and>
        key_for_purpose d (JStr kid) (JStr (effective_purpose (jget (lit ''proofPurpose'') (di_proof v)))) = Some vm \<and>
        di_signed V doc (vm_jwk vm))"
proof -
  consider (jcs) suite where "jcs_verify (v_jose V) (v_ec_point V) suite resolver dpol doc = Inr v"
    | (ecdsa) n where "ecdsa_rdfc_verify (v_jose V) (v_ec_point V) (v_rdf V) n resolver dpol doc = Inr v"
    | (eddsa) n where "eddsa_rdfc_verify (v_jose V) (v_ec_point V) (v_rdf V) n resolver dpol doc = Inr v"
    using assms(1,2) by (auto simp: di_suite_verify_def bindR_Inr split: if_splits)
  then show ?thesis
  proof cases
    case jcs
    from jcs.accepted [OF jcs] jcs.resolved_signer [OF jcs assms(3)] show ?thesis unfolding di_signed_def by blast
  next
    case ecdsa
    from ecdsa_rdfc.accepted [OF ecdsa] ecdsa_rdfc.resolved_signer [OF ecdsa assms(3)] show ?thesis unfolding di_signed_def by blast
  next
    case eddsa
    from eddsa_rdfc.accepted [OF eddsa] eddsa_rdfc.resolved_signer [OF eddsa assms(3)] show ?thesis unfolding di_signed_def by blast
  qed
qed

text \<open>What the signature of a compact credential was checked with, by format.\<close>

definition compact_verified :: "venv \<Rightarrow> vpolicy \<Rightarrow> (json \<times> json) option \<Rightarrow> str \<Rightarrow> jobj \<Rightarrow> verification_result \<Rightarrow> bool" where
  "compact_verified V pol kb token jwk r \<longleftrightarrow>
     (if res_format r = FORMAT_VC_JWT
      then \<exists>suite v. new_vc_suite (vp_leeway pol) (JBool False) (JBool False) = Inr suite \<and>
             vc_verify (v_jose V) (v_pyjwt V) suite token (JObj jwk) [] (vp_audience pol) (vp_not_expired pol) = Inr v \<and>
             res_credential r = vc_credential v
      else \<exists>suite spol v. new_sd_suite (vp_leeway pol) DEFAULT_HASH (JBool False) = Inr suite \<and>
             sd_verify (v_jose V) suite token jwk spol = Inr v \<and> res_credential r = sd_claims v \<and>
             kb_terms pol kb = Inr (sp_audience spol, sp_nonce spol) \<and>
             sp_require_kb spol = vp_require_kb pol \<and> sp_temporal spol = vp_not_expired pol)"

lemma vc_jwt_handled:
  assumes "pyjwt_payload (v_jose V) (v_pyjwt V)" "verify_vc_jwt V R pol inner token = Inr r"
  shows "\<exists>iss jwk. res_issuer r = JStr iss \<and> issuer_key V R (vp_now pol) iss jwk \<and> compact_verified V pol kb token jwk r"
proof -
  obtain suite iss kid jwk v where k: "new_vc_suite (vp_leeway pol) (JBool False) (JBool False) = Inr suite"
    "vc_peek_issuer (v_jose V) token = Inr (iss, kid)" "resolve_jose_key_with_x5c V R (vp_now pol) False token iss kid = Inr jwk"
    "vc_verify (v_jose V) (v_pyjwt V) suite token (JObj jwk) [] (vp_audience pol) (vp_not_expired pol) = Inr v"
    "res_format r = FORMAT_VC_JWT" "res_issuer r = JStr (vc_issuer v)" "res_credential r = vc_credential v"
    using assms(2) by (auto simp: verify_vc_jwt_def bindR_Inr)
  have "vc_issuer v = iss" by (rule vc_issuer_peeked [OF assms(1) vc_algs_classic [OF k(1)] k(2,4)])
  then show ?thesis using k jose_key_x5c_issuer [OF k(3)] unfolding compact_verified_def by auto
qed

lemma sd_jwt_handled:
  assumes "verify_sd_jwt V R pol inner kb token = Inr r"
  shows "\<exists>iss jwk. res_issuer r = JStr iss \<and> issuer_key V R (vp_now pol) iss jwk \<and> compact_verified V pol kb token jwk r"
proof -
  obtain suite iss kid jwk a n v where k: "new_sd_suite (vp_leeway pol) DEFAULT_HASH (JBool False) = Inr suite"
    "sd_peek_issuer (v_jose V) token = Inr (iss, kid)" "resolve_jose_key_with_x5c V R (vp_now pol) True token iss kid = Inr jwk"
    "sd_verify (v_jose V) suite token jwk
       \<lparr>sp_audience = a, sp_nonce = n, sp_require_kb = vp_require_kb pol, sp_vct = vp_vct pol,
        sp_temporal = vp_not_expired pol, sp_kb_max_age = vp_kb_max_age pol, sp_now = vp_now pol\<rparr> = Inr v"
    "res_format r = FORMAT_SD_JWT_VC" "res_issuer r = JStr (sd_issuer v)" "res_credential r = sd_claims v" "kb_terms pol kb = Inr (a, n)"
    using assms by (auto simp: verify_sd_jwt_def bindR_Inr)
  have "FORMAT_SD_JWT_VC \<noteq> FORMAT_VC_JWT" by (simp add: format_defs lit_def)
  then have "compact_verified V pol kb token jwk r"
    unfolding compact_verified_def using k(1,4,5,7,8) by fastforce
  then show ?thesis using k(6) jose_key_x5c_issuer [OF k(3)] sd_issuer_peeked [OF k(2,4)] by blast
qed

section \<open>Examples\<close>

text \<open>A signed token whose credential is revoked on the list of Status\_Check, and a policy that waives revocation.\<close>

definition ex_payload :: jobj where
  "ex_payload = [(lit ''iss'', JStr (lit ''did:x:1'')), (lit ''vc'', JObj demo_credential)]"

definition ex_env :: venv where
  "ex_env = \<lparr>v_jose = toy_jose\<lparr>jo_loads := \<lambda>b. if b = [1] then Inr (JObj toy_header) else if b = [2] then Inr (JObj ex_payload) else Inl PyValueError\<rparr>,
     v_loads_text = (\<lambda>t. Inl PyValueError),
     v_pyjwt = \<lparr>pj_load = (\<lambda>a k. Inr 0), pj_secp256k1 = (\<lambda>p. Inr 0),
       pj_decode = (\<lambda>t k a l aud e. if t = toy_token then Inr ex_payload else Inl OtherJwtError)\<rparr>,
     v_ec_point = (\<lambda>c k. Inl PyValueError), v_ip = (\<lambda>h. False),
     v_x509 = \<lparr>x_load = (\<lambda>b. None), x_path = (\<lambda>a b c d. False), x_san = (\<lambda>c. None), x_key = (\<lambda>c. OtherKey), x_eku = (\<lambda>c. None), x_window = (\<lambda>c. (0, 0))\<rparr>,
     v_js = (\<lambda>a b. JsErrors 0), v_pick = hd, v_read = (\<lambda>b n. Inr (take n b)),
     v_token = (\<lambda>res claims. the (check_token_status stored_zlib res claims)),
     v_rdf = \<lparr>rdf_canonize = (\<lambda>d. Inl ProofError), rdf_validate = (\<lambda>d c. Inr ())\<rparr>,
     v_ecdsa_sd = (\<lambda>l r p d. Inl ProofError), v_missing_types = (\<lambda>d t. Inr [])\<rparr>"

definition ex_resolvers :: resolvers where
  "ex_resolvers = \<lparr>r_did = ex_di_resolver, r_status = Some (\<lambda>u. Inr (JObj demo_list_vc)), r_token = None, r_schema = None,
     r_issuer = None, r_anchors = None\<rparr>"

definition ex_policy :: vpolicy where
  "ex_policy = default_policy\<lparr>vp_not_revoked := False\<rparr>"

lemma ex_env_fields [simp]:
  "v_pick ex_env = hd" "v_read ex_env = (\<lambda>b n. Inr (take n b))" "v_token ex_env = (\<lambda>res claims. the (check_token_status stored_zlib res claims))"
  "jo_clock (v_jose ex_env) = 1000000000" "jo_ts (v_jose ex_env) = (\<lambda>v. None)" "v_ip ex_env = (\<lambda>h. False)"
  by (simp_all add: ex_env_def toy_jose_def)

lemma ex_resolver_fields [simp]:
  "r_did ex_resolvers = ex_di_resolver" "r_status ex_resolvers = Some (\<lambda>u. Inr (JObj demo_list_vc))" "r_token ex_resolvers = None"
  "r_schema ex_resolvers = None" "r_issuer ex_resolvers = None" "r_anchors ex_resolvers = None"
  by (simp_all add: ex_resolvers_def)

lemma ex_policy_fields [simp]:
  "vp_leeway ex_policy = JInt 60" "vp_types ex_policy = []" "vp_audience ex_policy = JNull" "vp_purpose ex_policy = lit ''assertionMethod''"
  "vp_require_status ex_policy" "vp_now ex_policy = PinNone" "\<not> vp_bind_status ex_policy" "vp_not_expired ex_policy" "\<not> vp_not_revoked ex_policy"
  by (simp_all add: ex_policy_def default_policy_def DEFAULT_LEEWAY_S_def)

lemma ex_payload_depth: "depth (JObj ex_payload) \<le> MAX_DEPTH"
  by (simp add: ex_payload_def demo_credential_def demo_entry_def MAX_DEPTH_def)

lemma ex_pyjwt: "pyjwt_payload (v_jose ex_env) (v_pyjwt ex_env)"
proof -
  have "split_on 46 toy_token = [b64url_encode [1], b64url_encode [2], []]" by (simp add: toy_token_def split_on_append_sep)
  then show ?thesis using ex_payload_depth
    by (auto simp: pyjwt_payload_def ex_env_def loads_Inr bindR_Inr split: if_splits)
qed

lemma ex_token_reader: "token_reader stored_zlib ex_env"
proof -
  have "inflate_bounded stored_zlib n data \<noteq> None" for n data
    using inflate_bounded_stream [OF stored_zlib_stream] by simp
  then have "decode_status_list stored_zlib l \<noteq> None" for l by (simp add: decode_status_list_def split: sum.splits)
  then have "check_token_status stored_zlib res claims \<noteq> None" for res claims
    by (simp add: check_token_status_def token_status_of_def split: sum.splits option.splits)
  then show ?thesis by (auto simp: token_reader_def)
qed

lemma toy_token_text: "toy_token = lit ''AQ.Ag.''"
  by code_simp

lemma ex_format: "detect_format (JStr toy_token) = Inr FORMAT_VC_JWT"
  unfolding toy_token_text by (simp add: detect_format_def lit_def)

lemma ex_suite_new: "new_vc_suite (JInt 60) (JBool False) (JBool False) = Inr toy_suite"
  by (simp add: new_vc_suite_def leeway_seconds_def MAX_LEEWAY_S_def toy_suite_def ALLOWED_ALGS_def ALLOWED_ALGS_ES256K_def Let_def)

lemma ex_segments:
  "split_on 46 toy_token = [b64url_encode [1], b64url_encode [2], []]" "is_ascii toy_token"
  "json_of_segment (v_jose ex_env) (b64url_encode [1]) = Inr (JObj toy_header)"
  "json_of_segment (v_jose ex_env) (b64url_encode [2]) = Inr (JObj ex_payload)"
  using toy_depth ex_payload_depth b64url_encode_ascii
  by (simp_all add: toy_token_def split_on_append_sep json_of_segment_def loads_Inr ex_env_def)
     (fastforce simp: is_ascii_def list_all_iff)

lemma ex_peek: "vc_peek_issuer (v_jose ex_env) toy_token = Inr (lit ''did:x:1'', None)"
  using ex_segments
  by (simp add: vc_peek_issuer_def vc_split_def both_objects_def peeked_issuer_def ex_payload_def jget_def kid_of_def toy_header_def Let_def)

lemma ex_key: "resolve_jose_key_with_x5c ex_env ex_resolvers PinNone False toy_token (lit ''did:x:1'') None = Inr ex_di_pub"
proof -
  have "\<not> starts_with (lit ''https://'') (lit ''did:x:1'')" by (simp add: lit_def)
  then show ?thesis
    by (simp add: resolve_jose_key_with_x5c_def resolve_jose_key_def ex_di_resolver_def self_document_def Let_def)
qed

lemma ex_gate: "vc_gate (v_jose ex_env) toy_suite toy_token JNull = Inr (lit ''EdDSA'')"
proof -
  have "\<not> marked (JObj ex_payload)"
    by (simp add: ex_payload_def demo_credential_def demo_entry_def marker_names_def has_key_def)
  then show ?thesis
    using ex_segments
    by (simp add: vc_gate_def vc_split_def vc_peek_claims_def check_expected_audience_def as_object_def allowed_alg_def
        reject_unknown_crit_def reject_sd_jwt_typ_def reject_sd_jwt_payload_def carries_sd_jwt_marker_def marker_loop_marked
        check_numeric_dates_def toy_header_def jget_def has_key_def toy_suite_def ALLOWED_ALGS_def)
       (simp add: ex_payload_def)
qed

lemma ex_vc_verify:
  "vc_verify (v_jose ex_env) (v_pyjwt ex_env) toy_suite toy_token (JObj ex_di_pub) [] JNull True =
     Inr \<lparr>vc_credential = demo_credential, vc_issuer = lit ''did:x:1'', vc_subject = None, vc_claims = ex_payload, vc_expired = False\<rparr>"
proof -
  have k: "vc_signature_step (v_jose ex_env) (v_pyjwt ex_env) toy_suite toy_token (lit ''EdDSA'') (JObj ex_di_pub) JNull True = Inr (ex_payload, False)"
    by (simp add: vc_signature_step_def ALLOWED_ALGS_PQ_def verify_classic_def jwk_to_key_def ex_di_pub_def okp_jwk_def jget_def EC_CRV_def
        vc_decode_def ex_env_def)
  have l: "vs_leeway toy_suite = 60" by (simp add: toy_suite_def)
  have w: "check_validity_window (\<lambda>v. None) c demo_credential [] PinNone (JInt 60) True = Inr False" for c
    by (simp add: check_validity_window_def utc_window_def leeway_seconds_def MAX_LEEWAY_S_def jget_def blank_def Let_def demo_credential_def)
  show ?thesis
    using w l by (simp add: vc_verify_def ex_gate k vc_finish_def check_jwt_audience_def check_expected_audience_def)
      (simp add: ex_payload_def has_key_def as_object_def jget_def reconcile_def subject_id_def check_types_def Let_def demo_credential_def)
qed

lemma ex_vc_accepted:
  "\<exists>r. verify_credential ex_env ex_resolvers ex_policy None (JStr toy_token) = Inr r \<and> res_credential r = demo_credential \<and>
     res_issuer r = JStr (lit ''did:x:1'')"
proof -
  obtain st where st: "check_credential_status hd (\<lambda>b n. Inr (take n b)) (\<lambda>u. Inr (JObj demo_list_vc)) demo_credential = Inr st"
    "\<not> sr_suspended st" using demo_revoked by blast
  obtain es where es: "parse_status_entries hd demo_credential = Inr es"
    using st(1) by (auto simp: check_credential_status_def bindR_Inr)
  have w: "\<exists>x. check_w3c_status ex_env ex_policy (Some (\<lambda>u. Inr (JObj demo_list_vc))) demo_credential = Inr x"
  proof -
    have "es \<noteq> []" using es
      by (auto simp: parse_status_entries_def demo_credential_def demo_entry_def parse_status_entry_def matched_types_def ENTRY_TYPES_def
          dict_simps bindR_Inr split: option.splits)
    then show ?thesis using es st by (simp add: check_w3c_status_def)
  qed
  have t: "check_ietf_status ex_env ex_policy None ex_payload = Inr None"
    by (simp add: check_ietf_status_def parse_token_status_ref_def ex_payload_def jget_def)
  have s: "\<exists>x. check_status ex_env ex_resolvers ex_policy demo_credential ex_payload (JStr (lit ''did:x:1'')) = Inr x"
    using w t by (auto simp: check_status_def status_resolvers_def)
  have c: "check_schema ex_env ex_resolvers ex_policy i demo_credential = Inr None" for i
    by (simp add: check_schema_def demo_credential_def jget_def)
  have v: "\<exists>r. verify_vc_jwt ex_env ex_resolvers ex_policy i toy_token = Inr r \<and> res_credential r = demo_credential \<and>
     res_issuer r = JStr (lit ''did:x:1'')" for i
    using s by (auto simp: verify_vc_jwt_def ex_suite_new ex_peek ex_key ex_vc_verify pipeline_types_def c)
  have "FORMAT_VC_JWT \<noteq> FORMAT_ENVELOPED" by (simp add: format_defs lit_def)
  then show ?thesis using v unfolding verify_credential_def
    by (subst dispatch.simps) (simp add: reject_deep_credential_def ex_format handle_def)
qed

text \<open>The document of Data\_Integrity's example, signed by its issuer.\<close>

definition ex_di_env :: venv where
  "ex_di_env = ex_env\<lparr>v_jose := ex_di_jose\<rparr>"

lemma ex_di_object: "object_format ex_di_secured = Inr FORMAT_DI_EDDSA_JCS"
  by (simp add: object_format_def declared_types_def ex_di_secured_def secure_def ex_di_credential_def new_proof_def jget_def
      CRYPTOSUITE_FORMAT_def EDDSA_JCS_CRYPTOSUITE_def)

lemma ex_di_accepted:
  "\<exists>r. verify_credential ex_di_env ex_resolvers ex_policy None (JObj ex_di_secured) = Inr r"
proof -
  have f: "detect_format (JObj ex_di_secured) = Inr FORMAT_DI_EDDSA_JCS" by (simp add: detect_format_def ex_di_object)
  have p: "pipeline_di_policy ex_policy = ex_di_policy []" by (simp add: pipeline_di_policy_def ex_di_policy_def)
  obtain v where v: "jcs_verify ex_di_jose (\<lambda>c k. Inl PyValueError) ex_di_suite (Some ex_di_resolver) (ex_di_policy []) ex_di_secured = Inr v"
    using ex_di_verified by blast
  have e: "v_jose ex_di_env = ex_di_jose" "v_ec_point ex_di_env = (\<lambda>c k. Inl PyValueError)" by (simp_all add: ex_di_env_def ex_env_def)
  have s: "di_suite_verify ex_di_env FORMAT_DI_EDDSA_JCS (JInt 60) (Some ex_di_resolver) (ex_di_policy []) ex_di_secured = Inr v"
    using v e by (simp add: di_suite_verify_def format_defs ex_di_new)
  note A = jcs.accepted [OF v]
  have vm: "jget (lit ''proof'') ex_di_secured = JObj q \<Longrightarrow> jget (lit ''verificationMethod'') q = JStr (lit ''did:x:1#k'')" for q
    by (auto simp: ex_di_secured_def secure_def ex_di_credential_def new_proof_def ex_di_options_def jget_def)
  have i: "di_issuer_of ex_di_secured = JStr (lit ''did:x:1'')"
    by (simp add: di_issuer_of_def ex_di_secured_def secure_def ex_di_credential_def jget_def)
  have b: "bind_issuer_to_verification_method v = Inr ()"
    using A vm i by (simp add: bind_issuer_to_verification_method_def) (simp add: before_hash_def lit_def)
  have m: "jget (lit ''credentialStatus'') ex_di_secured = JNull" "jget (lit ''status'') ex_di_secured = JNull"
    "jget (lit ''credentialSchema'') ex_di_secured = JNull"
    by (simp_all add: ex_di_secured_def secure_def ex_di_credential_def jget_def)
  have c: "check_status ex_di_env ex_resolvers ex_policy ex_di_secured ex_di_secured (JStr (lit ''did:x:1'')) = Inr None"
    using m by (simp add: check_status_def status_resolvers_def check_w3c_status_def parse_status_entries_def check_ietf_status_def
        parse_token_status_ref_def)
  have t: "check_di_types ex_di_env ex_di_secured [] FORMAT_DI_EDDSA_JCS = Inr ()"
    by (simp add: check_di_types_def RDF_DI_FORMATS_def format_defs pipeline_types_def)
  have h: "\<exists>r. handle ex_di_env ex_resolvers ex_policy j None FORMAT_DI_EDDSA_JCS (JObj ex_di_secured) = Inr r" for j
    using A i s b c t m by (simp add: handle_def verify_data_integrity_def p check_schema_def)
  have d: "\<not> nesting_exceeds (JObj ex_di_secured) MAX_DEPTH" using ex_di_fits(2) by (simp add: nesting_exceeds_depth)
  have "FORMAT_DI_EDDSA_JCS \<noteq> FORMAT_ENVELOPED" by (simp add: format_defs lit_def)
  then show ?thesis using h d f unfolding verify_credential_def
    by (subst dispatch.simps) (simp add: reject_deep_credential_def)
qed

text \<open>The token of the first example, in an envelope.\<close>

definition ex_envelope :: jobj where
  "ex_envelope = [(lit ''type'', JStr (lit ''EnvelopedVerifiableCredential'')), (lit ''id'', JStr (lit ''data:application/vc+jwt,AQ.Ag.''))]"

lemma ex_enveloped:
  "object_format ex_envelope = Inr FORMAT_ENVELOPED" "\<not> nesting_exceeds (JObj ex_envelope) MAX_DEPTH"
  "unwrap_enveloped ex_env ex_envelope = Inr (JStr toy_token)"
proof -
  show "object_format ex_envelope = Inr FORMAT_ENVELOPED" by (simp add: object_format_def declared_types_def ex_envelope_def)
  show "\<not> nesting_exceeds (JObj ex_envelope) MAX_DEPTH" by (simp add: nesting_exceeds_depth ex_envelope_def MAX_DEPTH_def)
  show "unwrap_enveloped ex_env ex_envelope = Inr (JStr toy_token)"
    unfolding toy_token_text
    by (simp add: unwrap_enveloped_def ex_envelope_def jget_def partition_at_def Let_def decode_payload_def enveloped_value_def lit_def)
qed

section \<open>Properties\<close>

text \<open>(C2) A compact credential is trusted only under a key of the issuer it names: what the pipeline accepts from a token, and
  reports as its issuer, was verified with a key that the issuer's DID document or its https metadata publishes, or that a
  certificate chain to an accepted anchor binds to that issuer. The unverified issuer read to find the key and the verified
  one are the same. PyJWT is taken to return the payload of the token it is given.\<close>

theorem compact_key_of_issuer:
  assumes "pyjwt_payload (v_jose V) (v_pyjwt V)" "verify_credential V R pol kb (JStr token) = Inr r"
  shows "\<exists>iss jwk. res_issuer r = JStr iss \<and> issuer_key V R (vp_now pol) iss jwk \<and> compact_verified V pol kb token jwk r"
proof -
  obtain fmt where f: "detect_format (JStr token) = Inr fmt" "fmt \<in> {FORMAT_VC_JWT, FORMAT_SD_JWT_VC}"
    using assms(2) unfolding verify_credential_def
    by (subst (asm) dispatch.simps) (auto simp: bindR_Inr detect_format_def split: if_splits)
  then have "fmt \<noteq> FORMAT_ENVELOPED" by (auto simp: format_defs lit_def)
  then have "handle V R pol (schema_verifier V R pol 2) kb fmt (JStr token) = Inr r"
    using dispatch_direct [OF _ f(1)] assms(2) unfolding verify_credential_def by blast
  then show ?thesis
    using vc_jwt_handled [OF assms(1)] sd_jwt_handled by (auto simp: handle_def split: if_splits)
qed

theorem compact_key_of_issuer_witness:
  "\<exists>r jwk. verify_credential ex_env ex_resolvers ex_policy None (JStr toy_token) = Inr r \<and> res_issuer r = JStr (lit ''did:x:1'') \<and>
     issuer_key ex_env ex_resolvers PinNone (lit ''did:x:1'') jwk \<and> compact_verified ex_env ex_policy None toy_token jwk r"
proof -
  obtain r where r: "verify_credential ex_env ex_resolvers ex_policy None (JStr toy_token) = Inr r" "res_issuer r = JStr (lit ''did:x:1'')"
    using ex_vc_accepted by blast
  with compact_key_of_issuer [OF ex_pyjwt r(1)] show ?thesis by auto
qed

text \<open>(C15) A credential with an embedded proof is accepted only when its issuer signed it: the DID of the proof's verification
  method is the issuer the result reports, the key is a method of the document that DID resolves to which the proof's
  purpose authorizes, the purpose is the one the policy names, and it has not expired unless the policy waives that. (The
  selective-disclosure suite is a parameter of the model and left out.)\<close>

theorem embedded_proof_of_issuer:
  assumes "verify_credential V R pol kb (JObj doc) = Inr r" "object_format doc = Inr fmt" "fmt \<notin> {FORMAT_ENVELOPED, FORMAT_DI_ECDSA_SD}"
  shows "\<exists>pobj issuer kid d vm. res_credential r = doc \<and> jget (lit ''proof'') doc = JObj pobj \<and>
     res_issuer r = JStr issuer \<and> di_issuer_of doc = JStr issuer \<and> issuer \<noteq> [] \<and>
     jget (lit ''verificationMethod'') pobj = JStr kid \<and> before_hash kid = issuer \<and>
     resolve_document (v_ec_point V) (Some (r_did R)) issuer = Inr d \<and>
     key_for_purpose d (JStr kid) (JStr (effective_purpose (jget (lit ''proofPurpose'') pobj))) = Some vm \<and> di_signed V doc (vm_jwk vm) \<and>
     check_proof_purpose pobj (Some (vp_purpose pol)) = Inr () \<and> (vp_not_expired pol \<longrightarrow> \<not> res_expired r)"
proof -
  have "handle V R pol (schema_verifier V R pol 2) kb fmt (JObj doc) = Inr r"
    using dispatch_direct [of V R pol kb _ 2 "JObj doc" r fmt] assms unfolding verify_credential_def
    by (auto simp: detect_format_def)
  then obtain v where v: "di_suite_verify V fmt (vp_leeway pol) (Some (r_did R)) (pipeline_di_policy pol) doc = Inr v"
    "bind_issuer_to_verification_method v = Inr ()" "res_credential r = di_credential v" "res_issuer r = di_issuer v"
    "res_expired r = di_expired v"
    by (auto simp: handle_def verify_data_integrity_def bindR_Inr)
  have p: "dp_key (pipeline_di_policy pol) = []" "dp_purpose (pipeline_di_policy pol) = Some (vp_purpose pol)"
    "dp_temporal (pipeline_di_policy pol) = vp_not_expired pol" by (simp_all add: pipeline_di_policy_def)
  obtain issuer kid where b: "di_issuer v = JStr issuer" "issuer \<noteq> []" "jget (lit ''verificationMethod'') (di_proof v) = JStr kid"
    "before_hash kid = issuer"
    using v(2) by (auto simp: bind_issuer_to_verification_method_def split: option.splits if_splits)
  show ?thesis using di_suite_document [OF v(1) _ p(1)] assms(3) b v(3-5) p(2,3) by fastforce
qed

theorem embedded_proof_of_issuer_witness:
  "\<exists>r issuer. verify_credential ex_di_env ex_resolvers ex_policy None (JObj ex_di_secured) = Inr r \<and> res_issuer r = JStr issuer \<and>
     res_credential r = ex_di_secured \<and> \<not> res_expired r"
proof -
  obtain r where r: "verify_credential ex_di_env ex_resolvers ex_policy None (JObj ex_di_secured) = Inr r"
    using ex_di_accepted by blast
  have "FORMAT_DI_EDDSA_JCS \<notin> {FORMAT_ENVELOPED, FORMAT_DI_ECDSA_SD}" by (simp add: format_defs lit_def)
  with embedded_proof_of_issuer [OF r ex_di_object] r show ?thesis by auto
qed

text \<open>(C10) Status fails closed. Under a policy that requires status, an accepted credential that declares one was checked against
  the list it points to, in either encoding: it is not suspended, and not revoked unless the policy waives revocation. When the
  policy binds list issuers, every list the check was given names the credential's issuer or an allowed one. The pipeline's
  IETF reader is taken to be the checker of the status package wherever that returns.\<close>

theorem accepted_status_checked:
  assumes "token_reader z V" "vp_require_status pol" "verify_credential V R pol kb c = Inr r"
  shows "\<exists>lres tres. status_resolvers pol (res_issuer r) R = Inr (lres, tres) \<and>
     (truthy (jget (lit ''credentialStatus'') (res_credential r)) \<longrightarrow>
        (\<exists>res st. lres = Some res \<and> check_credential_status (v_pick V) (v_read V) res (res_credential r) = Inr st \<and>
           res_status r = Some (W3cStatus st) \<and> \<not> sr_suspended st \<and> (vp_not_revoked pol \<longrightarrow> \<not> sr_revoked st))) \<and>
     (jget (lit ''status'') (status_claims r) \<noteq> JNull \<longrightarrow>
        (\<exists>res st. tres = Some res \<and> check_token_status z res (status_claims r) = Some (Inr (Some st)) \<and>
           \<not> ts_suspended st \<and> (vp_not_revoked pol \<longrightarrow> \<not> ts_revoked st))) \<and>
     (vp_bind_status pol \<longrightarrow> (\<exists>iss. res_issuer r = JStr iss \<and>
        (\<forall>res uri obj. lres = Some res \<longrightarrow> res uri = Inr obj \<longrightarrow>
           (\<exists>s. list_issuer (lit ''issuer'') obj = JStr s \<and> (s = iss \<or> s \<in> set (vp_allowlist pol)))) \<and>
        (\<forall>res uri obj. tres = Some res \<longrightarrow> res uri = Inr obj \<longrightarrow>
           (\<exists>s. list_issuer (lit ''iss'') obj = JStr s \<and> (s = iss \<or> s \<in> set (vp_allowlist pol))))))"
proof -
  obtain inner fmt c' where h: "handle V R pol inner kb fmt c' = Inr r"
    using dispatch_handled assms(3) unfolding verify_credential_def by blast
  obtain lres tres w t where s: "status_resolvers pol (res_issuer r) R = Inr (lres, tres)"
    "check_w3c_status V pol lres (res_credential r) = Inr w" "check_ietf_status V pol tres (status_claims r) = Inr t"
    "res_status r = (case w of Some w \<Rightarrow> Some (W3cStatus w) | None \<Rightarrow> map_option IetfStatus t)"
    using handle_status [OF h] by (auto simp: check_status_def bindR_Inr)
  have w: "truthy (jget (lit ''credentialStatus'') (res_credential r)) \<Longrightarrow>
      \<exists>res st. lres = Some res \<and> check_credential_status (v_pick V) (v_read V) res (res_credential r) = Inr st \<and>
         res_status r = Some (W3cStatus st) \<and> \<not> sr_suspended st \<and> (vp_not_revoked pol \<longrightarrow> \<not> sr_revoked st)"
    using w3c_checked [OF s(2) assms(2)] s(4) by auto
  show ?thesis
    using s(1) w ietf_checked [OF assms(1) s(3) assms(2)] status_resolvers_bound [OF s(1)] by blast
qed

theorem accepted_status_checked_witness:
  "\<exists>r st. verify_credential ex_env ex_resolvers ex_policy None (JStr toy_token) = Inr r \<and>
     truthy (jget (lit ''credentialStatus'') (res_credential r)) \<and> res_status r = Some (W3cStatus st) \<and> \<not> sr_suspended st"
proof -
  obtain r where r: "verify_credential ex_env ex_resolvers ex_policy None (JStr toy_token) = Inr r" "res_credential r = demo_credential"
    using ex_vc_accepted by blast
  have t: "truthy (jget (lit ''credentialStatus'') (res_credential r))"
    by (simp add: r(2) demo_credential_def demo_entry_def jget_def)
  have q: "vp_require_status ex_policy" by simp
  from accepted_status_checked [OF ex_token_reader q r(1)] t r(1) show ?thesis by blast
qed




end
