(* ===== verification/Vp_Jwt.thy ===== *)
theory Vp_Jwt
  imports Pipeline
begin

text \<open>
  openvc/proof/vp\_jwt.py: a holder's presentation as a signed JWT, bound to a verifier and a nonce, whose embedded credentials
  each go through the pipeline of \<open>verify.py\<close>.
\<close>

section \<open>The suite\<close>

definition VP_CONTEXT :: str where "VP_CONTEXT = lit ''https://www.w3.org/ns/credentials/v2''"

record verified_presentation =
  pv_holder :: str
  pv_credentials :: "verification_result list"
  pv_claims :: jobj
  pv_vp :: jobj

definition new_vp_suite :: "json \<Rightarrow> int result" where
  "new_vp_suite leeway_s = leeway_seconds ProofError leeway_s"

text \<open>\<open>payload.get("iss") or vp.get("holder")\<close>\<close>

definition claimed_holder :: "jobj \<Rightarrow> json" where
  "claimed_holder payload =
     (if truthy (jget (lit ''iss'') payload) then jget (lit ''iss'') payload
      else case jget (lit ''vp'') payload of JObj vp \<Rightarrow> jget (lit ''holder'') vp | _ \<Rightarrow> JNull)"

definition holder_and_kid :: "jobj \<Rightarrow> jobj \<Rightarrow> (str option \<times> str option) result" where
  "holder_and_kid header payload =
     bindR (kid_of header) (\<lambda>kid. Inr (text_opt (claimed_holder payload), kid))"

definition peek_holder :: "jose \<Rightarrow> str \<Rightarrow> (str option \<times> str option) result" where
  "peek_holder J vp_jwt = bindR (parse_compact J vp_jwt) (\<lambda>(header, payload, _, _). holder_and_kid header payload)"

section \<open>Holder presentation\<close>

definition vp_payload :: "int \<Rightarrow> str \<Rightarrow> json list \<Rightarrow> str \<Rightarrow> str \<Rightarrow> int option \<Rightarrow> jobj" where
  "vp_payload now holder_id credentials audience nonce expires_in_s =
     (let vp = [(lit ''@context'', JList [JStr VP_CONTEXT]), (lit ''type'', JList [JStr (lit ''VerifiablePresentation'')]),
                (lit ''verifiableCredential'', JList credentials), (lit ''holder'', JStr holder_id)];
          p = [(lit ''iss'', JStr holder_id), (lit ''aud'', JStr audience), (lit ''nonce'', JStr nonce), (lit ''nbf'', JInt now),
               (lit ''iat'', JInt now), (lit ''vp'', JObj vp)]
      in (case expires_in_s of None \<Rightarrow> p | Some s \<Rightarrow> p @ [(lit ''exp'', JInt (now + s))]))"

definition vp_header :: "signing_key \<Rightarrow> jobj" where
  "vp_header key = [(lit ''alg'', JStr (sk_alg key)), (lit ''typ'', JStr (lit ''JWT'')), (lit ''kid'', JStr (sk_kid key))]"

definition vp_sign ::
    "jose \<Rightarrow> json list \<Rightarrow> signing_key \<Rightarrow> str \<Rightarrow> str \<Rightarrow> str option \<Rightarrow> int option \<Rightarrow> str result" where
  "vp_sign J credentials holder_key audience nonce holder expires_in_s =
     (let holder_id = (case holder of Some h \<Rightarrow> if h = [] then before_hash (sk_kid holder_key) else h
                                    | None \<Rightarrow> before_hash (sk_kid holder_key))
      in sign_compact J (vp_header holder_key)
           (vp_payload (num_trunc (jo_time J)) holder_id credentials audience nonce expires_in_s) holder_key ALLOWED_ALGS)"

section \<open>Verification\<close>

record vp_request =
  vq_audience :: str
  vq_nonce :: str
  vq_key :: "jobj option"
  vq_expected_holder :: "str option"
  vq_holder_binding :: bool

definition resolve_holder_key :: "venv \<Rightarrow> resolvers \<Rightarrow> jobj \<Rightarrow> jobj \<Rightarrow> jobj result" where
  "resolve_holder_key V R header payload =
     bindR (holder_and_kid header payload) (\<lambda>(holder, kid).
       case holder of
         None \<Rightarrow> Inl MalformedToken
       | Some h \<Rightarrow>
           if h = [] then Inl MalformedToken
           else catchR (\<lambda>e. e = KeyResolutionFailed) ClaimsInvalid (resolve_jose_key V (R\<lparr>r_issuer := None\<rparr>) h kid))"

definition vp_check_audience :: "json \<Rightarrow> str \<Rightarrow> unit result" where
  "vp_check_audience aud expected =
     (if aud = JStr expected \<or> (case aud of JList xs \<Rightarrow> JStr expected \<in> set xs | _ \<Rightarrow> False) then Inr () else Inl ClaimsInvalid)"

text \<open>What is asked of the presentation before a key is looked up.\<close>

definition vp_gate :: "jose \<Rightarrow> str \<Rightarrow> (jobj \<times> jobj) result" where
  "vp_gate J vp_jwt =
     bindR (parse_compact J vp_jwt) (\<lambda>(header, payload, _, _).
     bindR (allowed_alg header ALLOWED_ALGS) (\<lambda>_.
     bindR (reject_unknown_crit header) (\<lambda>_.
     bindR (reject_sd_jwt_typ header) (\<lambda>_.
     bindR (reject_sd_jwt_payload payload) (\<lambda>_. Inr (header, payload))))))"

text \<open>The claims: who presents, to whom, and against which challenge.\<close>

definition check_presenter :: "vp_request \<Rightarrow> jobj \<Rightarrow> (jobj \<times> str) result" where
  "check_presenter q claims =
     bindR (vp_check_audience (jget (lit ''aud'') claims) (vq_audience q)) (\<lambda>_.
       if jget (lit ''nonce'') claims \<noteq> JStr (vq_nonce q) then Inl ClaimsInvalid
       else
     bindR (as_object ClaimsInvalid (jget (lit ''vp'') claims)) (\<lambda>vp.
       case text_opt (claimed_holder claims) of
         None \<Rightarrow> Inl ClaimsInvalid
       | Some holder \<Rightarrow>
           if holder = [] then Inl ClaimsInvalid
           else if truthy (jget (lit ''holder'') vp) \<and> jget (lit ''holder'') vp \<noteq> JStr holder then Inl ClaimsInvalid
           else if vq_expected_holder q \<noteq> None \<and> vq_expected_holder q \<noteq> Some holder then Inl ClaimsInvalid
           else if vq_holder_binding q \<and> vq_key q \<noteq> None \<and> vq_expected_holder q = None then Inl ClaimsInvalid
           else Inr (vp, holder)))"

definition presented_entries :: "jobj \<Rightarrow> json list result" where
  "presented_entries vp =
     (case map_of vp (lit ''verifiableCredential'') of
        None \<Rightarrow> Inr []
      | Some (JStr s) \<Rightarrow> Inr [JStr s]
      | Some (JObj d) \<Rightarrow> Inr [JObj d]
      | Some (JList xs) \<Rightarrow> Inr xs
      | Some _ \<Rightarrow> Inl ClaimsInvalid)"

text \<open>
  The cascade stops at the first failure. The per-call caches answer what the wrapped resolvers answer (Ttl\_Cache), so the
  resolvers here are the caller's.
\<close>

definition vp_verify ::
    "venv \<Rightarrow> resolvers \<Rightarrow> vpolicy \<Rightarrow> int \<Rightarrow> vp_request \<Rightarrow> str \<Rightarrow> verified_presentation result" where
  "vp_verify V R pol leeway q vp_jwt =
     (if vq_audience q = [] \<or> vq_nonce q = [] then Inl ClaimsInvalid
      else
     bindR (vp_gate (v_jose V) vp_jwt) (\<lambda>(header_peek, payload_peek).
     bindR (case vq_key q of Some k \<Rightarrow> Inr k | None \<Rightarrow> resolve_holder_key V R header_peek payload_peek) (\<lambda>jwk.
     bindR (verify_compact (v_jose V) vp_jwt jwk ALLOWED_ALGS) (\<lambda>(header, claims).
     bindR (check_jwt_temporal (jo_time (v_jose V)) claims (JInt leeway) True) (\<lambda>_.
     bindR (check_presenter q claims) (\<lambda>(vp, holder).
     bindR (presented_entries vp) (\<lambda>presented.
     bindR (mapR (verify_credential V R pol (Some (JStr (vq_audience q), JStr (vq_nonce q)))) presented) (\<lambda>results.
       if vq_holder_binding q \<and> \<not> list_all (\<lambda>r. res_subject r = JStr holder) results then Inl ClaimsInvalid
       else Inr \<lparr>pv_holder = holder, pv_credentials = results, pv_claims = claims, pv_vp = vp\<rparr>))))))))"

section \<open>Lemmas\<close>

text \<open>The audience is named, the nonce is the challenge, and the holder is the same wherever the presentation names one.\<close>

definition presented_to :: "vp_request \<Rightarrow> jobj \<Rightarrow> jobj \<Rightarrow> str \<Rightarrow> bool" where
  "presented_to q claims vp holder \<longleftrightarrow>
     (jget (lit ''aud'') claims = JStr (vq_audience q) \<or> (\<exists>xs. jget (lit ''aud'') claims = JList xs \<and> JStr (vq_audience q) \<in> set xs)) \<and>
     jget (lit ''nonce'') claims = JStr (vq_nonce q) \<and> jget (lit ''vp'') claims = JObj vp \<and> holder \<noteq> [] \<and>
     claimed_holder claims = JStr holder \<and> (truthy (jget (lit ''holder'') vp) \<longrightarrow> jget (lit ''holder'') vp = JStr holder) \<and>
     (vq_expected_holder q = None \<or> vq_expected_holder q = Some holder)"

lemma vp_check_audience_Inr: "vp_check_audience v e = Inr () \<longleftrightarrow> v = JStr e \<or> (\<exists>xs. v = JList xs \<and> JStr e \<in> set xs)"
  by (cases v) (auto simp: vp_check_audience_def)

declare as_object_Inr [simp]

lemma check_presenter_Inr:
  "check_presenter q claims = Inr (vp, holder) \<longleftrightarrow> presented_to q claims vp holder \<and>
     (vq_holder_binding q \<longrightarrow> vq_key q = None \<or> vq_expected_holder q \<noteq> None)"
proof (cases "vp_check_audience (jget (lit ''aud'') claims) (vq_audience q) = Inr () \<and> jget (lit ''nonce'') claims = JStr (vq_nonce q) \<and>
    (\<exists>vp. jget (lit ''vp'') claims = JObj vp) \<and> (\<exists>h. claimed_holder claims = JStr h)")
  case True
  then obtain vp' h where k: "jget (lit ''vp'') claims = JObj vp'" "claimed_holder claims = JStr h"
    "vp_check_audience (jget (lit ''aud'') claims) (vq_audience q) = Inr ()" "jget (lit ''nonce'') claims = JStr (vq_nonce q)" by blast
  then have o: "as_object ClaimsInvalid (jget (lit ''vp'') claims) = Inr vp'" by simp
  have "check_presenter q claims = Inr (vp, holder) \<longleftrightarrow> vp = vp' \<and> holder = h \<and> h \<noteq> [] \<and>
      \<not> (truthy (jget (lit ''holder'') vp') \<and> jget (lit ''holder'') vp' \<noteq> JStr h) \<and>
      \<not> (vq_expected_holder q \<noteq> None \<and> vq_expected_holder q \<noteq> Some h) \<and>
      \<not> (vq_holder_binding q \<and> vq_key q \<noteq> None \<and> vq_expected_holder q = None)"
    unfolding check_presenter_def k(3) o using k(2,4) by auto
  also have "\<dots> \<longleftrightarrow> presented_to q claims vp holder \<and> (vq_holder_binding q \<longrightarrow> vq_key q = None \<or> vq_expected_holder q \<noteq> None)"
    using k by (auto simp: presented_to_def vp_check_audience_Inr)
  finally show ?thesis .
next
  case False
  then have "\<not> presented_to q claims vp holder" by (auto simp: presented_to_def vp_check_audience_Inr)
  moreover have "check_presenter q claims \<noteq> Inr (vp, holder)"
    using False by (cases "claimed_holder claims") (auto simp: check_presenter_def bindR_Inr split: if_split_asm)
  ultimately show ?thesis by simp
qed

lemma vp_gate_Inr:
  "vp_gate J token = Inr (header, payload) \<longleftrightarrow>
     (\<exists>si sg alg. parse_compact J token = Inr (header, payload, si, sg) \<and> jget (lit ''alg'') header = JStr alg \<and> alg \<in> set ALLOWED_ALGS \<and>
        \<not> has_key (lit ''crit'') header \<and> reject_sd_jwt_typ header = Inr () \<and> \<not> marked (JObj payload))"
  by (auto simp: vp_gate_def bindR_Inr allowed_alg_Inr crit_Inr reject_sd_jwt_payload_def carries_sd_jwt_marker_def marker_loop_marked
      split: if_splits)

text \<open>The key of the presenter: the caller's, or the one the holder's own DID document publishes.\<close>

definition holder_key :: "resolvers \<Rightarrow> vp_request \<Rightarrow> str \<Rightarrow> jobj \<Rightarrow> bool" where
  "holder_key R q holder jwk \<longleftrightarrow>
     vq_key q = Some jwk \<or>
     (vq_key q = None \<and> (\<exists>doc kid vm. vr_resolve (r_did R) holder = Inr doc \<and> key_by_kid doc kid = Some vm \<and> jwk = vm_jwk vm))"

lemma resolved_holder_key:
  assumes "resolve_holder_key V R header payload = Inr jwk"
  shows "\<exists>holder doc kid vm. claimed_holder payload = JStr holder \<and> vr_resolve (r_did R) holder = Inr doc \<and>
     key_by_kid doc kid = Some vm \<and> jwk = vm_jwk vm"
proof -
  obtain h kid where k: "claimed_holder payload = JStr h" "resolve_jose_key V (R\<lparr>r_issuer := None\<rparr>) h kid = Inr jwk"
    using assms by (auto simp: resolve_holder_key_def holder_and_kid_def bindR_Inr split: option.splits if_splits)
  then show ?thesis
    by (auto simp: resolve_jose_key_def bindR_Inr simp del: key_by_kid.simps split: option.split_asm if_split_asm)
qed

lemma vp_verify_Inr:
  assumes "vp_verify V R pol leeway q token = Inr r"
  shows "\<exists>jwk header late presented. verify_compact (v_jose V) token jwk ALLOWED_ALGS = Inr (header, pv_claims r) \<and>
     holder_key R q (pv_holder r) jwk \<and> check_jwt_temporal (jo_time (v_jose V)) (pv_claims r) (JInt leeway) True = Inr late \<and>
     check_presenter q (pv_claims r) = Inr (pv_vp r, pv_holder r) \<and> \<not> marked (JObj (pv_claims r)) \<and>
     presented_entries (pv_vp r) = Inr presented \<and>
     mapR (verify_credential V R pol (Some (JStr (vq_audience q), JStr (vq_nonce q)))) presented = Inr (pv_credentials r) \<and>
     (vq_holder_binding q \<longrightarrow> list_all (\<lambda>c. res_subject c = JStr (pv_holder r)) (pv_credentials r)) \<and>
     vq_audience q \<noteq> [] \<and> vq_nonce q \<noteq> []"
proof -
  obtain hp pp jwk header claims late vp holder presented results where k: "vq_audience q \<noteq> []" "vq_nonce q \<noteq> []"
    "vp_gate (v_jose V) token = Inr (hp, pp)" "(case vq_key q of Some k \<Rightarrow> Inr k | None \<Rightarrow> resolve_holder_key V R hp pp) = Inr jwk"
    "verify_compact (v_jose V) token jwk ALLOWED_ALGS = Inr (header, claims)"
    "check_jwt_temporal (jo_time (v_jose V)) claims (JInt leeway) True = Inr late" "check_presenter q claims = Inr (vp, holder)"
    "presented_entries vp = Inr presented"
    "mapR (verify_credential V R pol (Some (JStr (vq_audience q), JStr (vq_nonce q)))) presented = Inr results"
    "vq_holder_binding q \<longrightarrow> list_all (\<lambda>c. res_subject c = JStr holder) results"
    "r = \<lparr>pv_holder = holder, pv_credentials = results, pv_claims = claims, pv_vp = vp\<rparr>"
    using assms by (auto simp: vp_verify_def bindR_Inr split: if_split_asm)
  have p: "pp = claims" "\<not> marked (JObj pp)" using k(3,5) by (auto simp: vp_gate_Inr verify_compact_Inr)
  have "holder_key R q holder jwk"
  proof (cases "vq_key q")
    case None
    then obtain h doc kid vm where h: "claimed_holder claims = JStr h" "vr_resolve (r_did R) h = Inr doc"
      "key_by_kid doc kid = Some vm" "jwk = vm_jwk vm"
      using resolved_holder_key [of V R hp pp jwk] k(4) p by auto
    moreover have "holder = h" using k(7) h(1) by (simp add: check_presenter_Inr presented_to_def)
    ultimately show ?thesis using None unfolding holder_key_def by blast
  qed (use k(4) in \<open>simp add: holder_key_def\<close>)
  with k p show ?thesis by auto
qed

lemma presented_Inr:
  "presented_entries vp = Inr xs \<Longrightarrow> xs = [] \<and> \<not> has_key (lit ''verifiableCredential'') vp \<or> jget (lit ''verifiableCredential'') vp = JList xs \<or>
     (\<exists>x. xs = [x] \<and> jget (lit ''verifiableCredential'') vp = x)"
  by (auto simp: presented_entries_def jget_def has_key_map_of split: option.splits json.splits)

text \<open>An embedded SD-JWT is held to the audience and nonce of the presentation.\<close>

definition bound_sd_jwt :: "venv \<Rightarrow> vpolicy \<Rightarrow> vp_request \<Rightarrow> str \<Rightarrow> verification_result \<Rightarrow> bool" where
  "bound_sd_jwt V pol q token c \<longleftrightarrow>
     (\<exists>suite jwk v. sd_verify (v_jose V) suite token jwk
         \<lparr>sp_audience = JStr (vq_audience q), sp_nonce = JStr (vq_nonce q), sp_require_kb = vp_require_kb pol, sp_vct = vp_vct pol,
          sp_temporal = vp_not_expired pol, sp_kb_max_age = vp_kb_max_age pol, sp_now = vp_now pol\<rparr> = Inr v \<and>
       res_key_bound c = Some (sd_key_bound v) \<and> res_credential c = sd_claims v)"

lemma embedded_sd_jwt:
  assumes "verify_credential V R pol (Some (JStr (vq_audience q), JStr (vq_nonce q))) (JStr token) = Inr c" "126 \<in> set token"
  shows "bound_sd_jwt V pol q token c"
proof -
  have f: "detect_format (JStr token) = Inr FORMAT_SD_JWT_VC" using assms(2) by (simp add: detect_format_def)
  have n: "FORMAT_SD_JWT_VC \<noteq> FORMAT_ENVELOPED" "FORMAT_SD_JWT_VC \<noteq> FORMAT_VC_JWT" by (simp_all add: format_defs lit_def)
  obtain inner where "verify_sd_jwt V R pol inner (Some (JStr (vq_audience q), JStr (vq_nonce q))) token = Inr c"
    using dispatch_direct [OF assms(1) [unfolded verify_credential_def] f n(1)] n(2) by (auto simp: handle_def)
  then show ?thesis
    unfolding bound_sd_jwt_def by (auto simp: verify_sd_jwt_def bindR_Inr kb_terms_def split: if_splits) blast
qed

text \<open>What \<open>vp_sign\<close> signs passes the checks on its claims.\<close>

lemma vp_payload_fields:
  "jget (lit ''aud'') (vp_payload now h cs a n e) = JStr a" "jget (lit ''nonce'') (vp_payload now h cs a n e) = JStr n"
  "claimed_holder (vp_payload now h cs a n e) = (if h = [] then JStr [] else JStr h)"
  "\<exists>vp. jget (lit ''vp'') (vp_payload now h cs a n e) = JObj vp \<and> presented_entries vp = Inr cs \<and> jget (lit ''holder'') vp = JStr h"
  by (auto simp: vp_payload_def Let_def jget_def claimed_holder_def presented_entries_def split: option.splits)

lemma vp_payload_claims:
  assumes "\<bar>now\<bar> \<le> 2 ^ 53" "\<And>s. e = Some s \<Longrightarrow> \<bar>now + s\<bar> \<le> 2 ^ 53"
  shows "int_claim (vp_payload now h cs a n e) (lit ''exp'') (map_option (\<lambda>s. now + s) e)"
    "int_claim (vp_payload now h cs a n e) (lit ''nbf'') (Some now)" "int_claim (vp_payload now h cs a n e) (lit ''iat'') (Some now)"
  using assms by (auto simp: int_claim_def vp_payload_def Let_def split: option.splits)

lemma vp_payload_temporal:
  assumes "\<bar>now\<bar> \<le> 2 ^ 53" "\<And>s. e = Some s \<Longrightarrow> \<bar>now + s\<bar> \<le> 2 ^ 53" "\<And>s. e = Some s \<Longrightarrow> 0 < s + L" "0 \<le> L" "L \<le> 86400"
  shows "check_jwt_temporal (NInt now) (vp_payload now h cs a n e) (JInt L) True = Inr False"
proof -
  let ?p = "vp_payload now h cs a n e"
  have c: "int_claim ?p (lit ''exp'') (map_option (\<lambda>s. now + s) e)" "int_claim ?p (lit ''nbf'') (Some now)" "int_claim ?p (lit ''iat'') (Some now)"
    using vp_payload_claims assms(1,2) by blast+
  have "check_numeric_dates (vp_payload now h cs a n e) [lit ''exp'', lit ''nbf'', lit ''iat''] = Inr ()"
    using numeric_claim [OF c(1)] numeric_claim [OF c(2)] numeric_claim [OF c(3)] by (auto simp: check_numeric_dates_def)
  then show ?thesis
    using assms(3-5) by (auto simp: check_jwt_temporal_def past_by_int [OF c(1)] ahead_by_int [OF c(2)] ahead_by_int [OF c(3)]
      leeway_seconds_def MAX_LEEWAY_S_def split: option.splits)
qed

lemma vp_payload_marked: "marked (JObj (vp_payload now h cs a n e)) \<longleftrightarrow> marked (JList cs)"
  by (auto simp: vp_payload_def Let_def has_key_def marker_names_def split: option.splits)

lemma vp_header_fields:
  "jget (lit ''alg'') (vp_header key) = JStr (sk_alg key)" "\<not> has_key (lit ''crit'') (vp_header key)" "reject_sd_jwt_typ (vp_header key) = Inr ()"
  by (auto simp: vp_header_def jget_def has_key_def reject_sd_jwt_typ_def sd_jwt_media_def lower_def lower_char_def ends_with_def
      lit_def starts_with_iff)

text \<open>What is signed is read back, and its claims name the verifier it was made for.\<close>

lemma vp_signed_compact:
  assumes "sign_compact J (vp_header key) (vp_payload now h cs a n e) key ALLOWED_ALGS = Inr token"
    "backend_ok (jo_crypto J)" "signing_key_from_jwk (jo_crypto J) jwk kid = Inr key" "sk_public_jwk key = Inr pub"
    "json_faithful J (JObj (vp_header key))" "json_faithful J (JObj (vp_payload now h cs a n e))"
    "depth (JObj (vp_payload now h cs a n e)) \<le> MAX_DEPTH" "\<not> marked (JList cs)"
  shows "vp_gate J token = Inr (vp_header key, vp_payload now h cs a n e) \<and>
     verify_compact J token pub ALLOWED_ALGS = Inr (vp_header key, vp_payload now h cs a n e)"
proof -
  let ?p = "vp_payload now h cs a n e"
  have s: "sk_alg key \<in> set ALLOWED_ALGS" "assemble_compact J (vp_header key) ?p key = Inr token"
    using assms(1) by (auto simp: sign_compact_def split: if_splits)
  have "depth (JObj (vp_header key)) \<le> MAX_DEPTH" by (simp add: vp_header_def MAX_DEPTH_def)
  then obtain si sg where c: "sk_sign key si = Inr sg" "parse_compact J token = Inr (vp_header key, ?p, si, sg)"
    using parse_assembled [OF assms(5,6) _ assms(7) s(2)] by blast
  have "verify_signature (jo_crypto J) (sk_alg key) pub si sg = Inr True"
    using key_roundtrip [OF assms(2,3) c(1)] assms(4) by auto
  with c(2) s(1) vp_header_fields [of key] assms(8) show ?thesis
    by (auto simp: vp_gate_Inr verify_compact_Inr vp_payload_marked simp del: marked.simps)
qed

lemma vp_payload_presented:
  "h \<noteq> [] \<Longrightarrow> \<exists>vp. presented_entries vp = Inr cs \<and>
     check_presenter \<lparr>vq_audience = a, vq_nonce = n, vq_key = k, vq_expected_holder = None, vq_holder_binding = False\<rparr> (vp_payload now h cs a n e) = Inr (vp, h)"
  using vp_payload_fields(4) [of now h cs a n e] by (simp add: check_presenter_Inr presented_to_def vp_payload_fields(1-3)) blast

section \<open>Example\<close>

text \<open>A presentation without credentials, under the toy backend.\<close>

definition ex_vp_key :: signing_key where
  "ex_vp_key = \<lparr>sk_alg = lit ''EdDSA'', sk_kid = lit ''k'', sk_sign = (\<lambda>m. Inr m), sk_public_jwk = Inr (okp_jwk (replicate 32 7))\<rparr>"

definition ex_vp_payload :: jobj where "ex_vp_payload = vp_payload 1000 (lit ''k'') [] (lit ''v'') (lit ''n'') None"

definition ex_vp_jose :: jose where
  "ex_vp_jose = toy_jose\<lparr>jo_loads := (\<lambda>b. if b = [1] then Inr (JObj (vp_header ex_vp_key)) else Inr (JObj ex_vp_payload)),
     jo_dumps := (\<lambda>v. if v = JObj (vp_header ex_vp_key) then [1] else [2])\<rparr>"

definition ex_vp_env :: venv where "ex_vp_env = ex_env\<lparr>v_jose := ex_vp_jose\<rparr>"

lemma ex_vp_fields [simp]: "v_jose ex_vp_env = ex_vp_jose" "jo_crypto ex_vp_jose = toy_crypto" "jo_time ex_vp_jose = NInt 1000"
  by (simp_all add: ex_vp_env_def ex_vp_jose_def toy_jose_def)

lemma ex_vp_loaded: "signing_key_from_jwk toy_crypto toy_jwk (lit ''k'') = Inr ex_vp_key"
  unfolding toy_jwk_def ed_private_witness
  by (simp add: ed25519_key_def ED25519_ALG_NAMES_def ex_vp_key_def) (simp add: toy_crypto_def)

lemma ex_vp_json: "json_faithful ex_vp_jose (JObj (vp_header ex_vp_key))" "json_faithful ex_vp_jose (JObj ex_vp_payload)"
  "depth (JObj ex_vp_payload) \<le> MAX_DEPTH"
proof -
  have "JObj ex_vp_payload \<noteq> JObj (vp_header ex_vp_key)" by (simp add: ex_vp_payload_def vp_payload_def vp_header_def Let_def lit_def)
  then show "json_faithful ex_vp_jose (JObj ex_vp_payload)" by (simp add: json_faithful_def ex_vp_jose_def)
  show "json_faithful ex_vp_jose (JObj (vp_header ex_vp_key))" by (simp add: json_faithful_def ex_vp_jose_def)
  show "depth (JObj ex_vp_payload) \<le> MAX_DEPTH" by (simp add: ex_vp_payload_def vp_payload_def Let_def MAX_DEPTH_def)
qed

lemma ex_vp_signed: "\<exists>token. vp_sign ex_vp_jose [] ex_vp_key (lit ''v'') (lit ''n'') None None = Inr token"
  by (simp add: vp_sign_def sign_compact_def assemble_compact_def Let_def) (simp add: ex_vp_key_def ALLOWED_ALGS_def)

lemma ex_vp_accepted:
  "\<exists>token r. vp_verify ex_vp_env ex_resolvers default_policy 60 \<lparr>vq_audience = lit ''v'', vq_nonce = lit ''n'',
     vq_key = Some (okp_jwk (replicate 32 7)), vq_expected_holder = None, vq_holder_binding = False\<rparr> token = Inr r \<and> pv_holder r = lit ''k''"
proof -
  have b: "before_hash (sk_kid ex_vp_key) = lit ''k''" by (simp add: ex_vp_key_def before_hash_def lit_def)
  obtain token where "sign_compact ex_vp_jose (vp_header ex_vp_key) ex_vp_payload ex_vp_key ALLOWED_ALGS = Inr token"
    using ex_vp_signed by (auto simp: vp_sign_def ex_vp_payload_def Let_def b)
  then have c: "vp_gate ex_vp_jose token = Inr (vp_header ex_vp_key, ex_vp_payload) \<and>
     verify_compact ex_vp_jose token (okp_jwk (replicate 32 7)) ALLOWED_ALGS = Inr (vp_header ex_vp_key, ex_vp_payload)"
    unfolding ex_vp_payload_def
    by (rule vp_signed_compact) (use toy_ok ex_vp_loaded ex_vp_json in \<open>auto simp: ex_vp_payload_def [symmetric] ex_vp_key_def\<close>)
  have t: "check_jwt_temporal (NInt 1000) ex_vp_payload (JInt 60) True = Inr False"
    unfolding ex_vp_payload_def by (rule vp_payload_temporal) auto
  have "lit ''k'' \<noteq> []" by (simp add: lit_def)
  then obtain vp where "presented_entries vp = Inr []" "check_presenter \<lparr>vq_audience = lit ''v'', vq_nonce = lit ''n'',
     vq_key = Some (okp_jwk (replicate 32 7)), vq_expected_holder = None, vq_holder_binding = False\<rparr> ex_vp_payload = Inr (vp, lit ''k'')"
    unfolding ex_vp_payload_def using vp_payload_presented by blast
  then have "vp_verify ex_vp_env ex_resolvers default_policy 60 \<lparr>vq_audience = lit ''v'', vq_nonce = lit ''n'',
     vq_key = Some (okp_jwk (replicate 32 7)), vq_expected_holder = None, vq_holder_binding = False\<rparr> token =
     Inr \<lparr>pv_holder = lit ''k'', pv_credentials = [], pv_claims = ex_vp_payload, pv_vp = vp\<rparr>"
    using c t by (simp add: vp_verify_def lit_def)
  then show ?thesis by force
qed

section \<open>Properties\<close>



text \<open>(C23) The holder's presentation is accepted by the verifier it was made for: what \<open>vp_sign\<close> produces for an audience and a
  nonce verifies there, under the holder's public key, with the results of its credentials, provided each of them verifies and
  carries no SD-JWT marker.\<close>

theorem vp_roundtrip:
  assumes sign: "vp_sign (v_jose V) cs key a n None e = Inr token"
    and key: "backend_ok (jo_crypto (v_jose V))" "signing_key_from_jwk (jo_crypto (v_jose V)) jwk kid = Inr key" "sk_public_jwk key = Inr pub"
    and holder: "h = before_hash (sk_kid key)" "h \<noteq> []" "a \<noteq> []" "n \<noteq> []"
    and json: "json_faithful (v_jose V) (JObj (vp_header key))" "json_faithful (v_jose V) (JObj (vp_payload now h cs a n e))"
      "depth (JObj (vp_payload now h cs a n e)) \<le> MAX_DEPTH"
    and time: "jo_time (v_jose V) = NInt now" "\<bar>now\<bar> \<le> 2 ^ 53" "\<And>s. e = Some s \<Longrightarrow> \<bar>now + s\<bar> \<le> 2 ^ 53 \<and> 0 < s + leeway"
      "0 \<le> leeway" "leeway \<le> 86400"
    and creds: "mapR (verify_credential V R pol (Some (JStr a, JStr n))) cs = Inr results" "\<not> marked (JList cs)"
  shows "\<exists>vp. vp_verify V R pol leeway \<lparr>vq_audience = a, vq_nonce = n, vq_key = Some pub, vq_expected_holder = None, vq_holder_binding = False\<rparr> token =
     Inr \<lparr>pv_holder = h, pv_credentials = results, pv_claims = vp_payload now h cs a n e, pv_vp = vp\<rparr>"
proof -
  let ?p = "vp_payload now h cs a n e"
  have "sign_compact (v_jose V) (vp_header key) ?p key ALLOWED_ALGS = Inr token"
    using sign by (simp add: vp_sign_def holder(1) time(1) Let_def)
  note c = vp_signed_compact [OF this key json creds(2)]
  have t: "check_jwt_temporal (NInt now) ?p (JInt leeway) True = Inr False"
    by (rule vp_payload_temporal) (use time in auto)
  obtain vp where "presented_entries vp = Inr cs" "check_presenter \<lparr>vq_audience = a, vq_nonce = n, vq_key = Some pub,
      vq_expected_holder = None, vq_holder_binding = False\<rparr> ?p = Inr (vp, h)"
    using vp_payload_presented [OF holder(2)] by blast
  then show ?thesis using c t creds(1) holder(3,4) time(1) by (simp add: vp_verify_def)
qed

theorem vp_roundtrip_witness:
  "\<exists>token vp. vp_sign ex_vp_jose [] ex_vp_key (lit ''v'') (lit ''n'') None None = Inr token \<and>
     vp_verify ex_vp_env ex_resolvers default_policy 60 \<lparr>vq_audience = lit ''v'', vq_nonce = lit ''n'', vq_key = Some (okp_jwk (replicate 32 7)),
       vq_expected_holder = None, vq_holder_binding = False\<rparr> token =
     Inr \<lparr>pv_holder = lit ''k'', pv_credentials = [], pv_claims = ex_vp_payload, pv_vp = vp\<rparr>"
proof -
  obtain token where t: "vp_sign (v_jose ex_vp_env) [] ex_vp_key (lit ''v'') (lit ''n'') None None = Inr token" using ex_vp_signed by auto
  have k: "backend_ok (jo_crypto (v_jose ex_vp_env))" "signing_key_from_jwk (jo_crypto (v_jose ex_vp_env)) toy_jwk (lit ''k'') = Inr ex_vp_key"
    "sk_public_jwk ex_vp_key = Inr (okp_jwk (replicate 32 7))"
    using toy_ok ex_vp_loaded by (simp_all add: ex_vp_key_def)
  have h: "lit ''k'' = before_hash (sk_kid ex_vp_key)" "lit ''k'' \<noteq> []" "lit ''v'' \<noteq> []" "lit ''n'' \<noteq> []"
    by (simp_all add: ex_vp_key_def before_hash_def lit_def)
  show ?thesis
    using vp_roundtrip [OF t k h, of 1000 60 ex_resolvers default_policy "[]"] ex_vp_json t by (auto simp: ex_vp_payload_def)
qed

end
