(* ===== verification/Cose.thy ===== *)
theory Cose
  imports Issuer_Key
begin

text \<open>
  openvc/cose.py: COSE\_Sign1 and COSE\_Mac0 over decoded CBOR, their verification, the \<open>x5chain\<close> header and COSE keys. A CBOR
  \<open>null\<close> and an absent member are both Python's \<open>None\<close>. HMAC-SHA-256 is an argument.
\<close>

type_synonym cmap = "(ckey \<times> cbor) list"

definition cget :: "ckey \<Rightarrow> cmap \<Rightarrow> cbor" where
  "cget k m = (case map_of m k of None \<Rightarrow> CNull | Some v \<Rightarrow> v)"

definition bytes_opt :: "cbor \<Rightarrow> bytes option" where
  "bytes_opt v = (case v of CBytes b \<Rightarrow> Some b | _ \<Rightarrow> None)"

definition map_opt :: "cbor \<Rightarrow> cmap option" where
  "map_opt v = (case v of CMap m \<Rightarrow> Some m | _ \<Rightarrow> None)"

definition int_opt :: "cbor \<Rightarrow> int option" where
  "int_opt v = (case v of CInt n \<Rightarrow> Some n | _ \<Rightarrow> None)"

definition list_opt :: "cbor \<Rightarrow> cbor list option" where
  "list_opt v = (case v of CList xs \<Rightarrow> Some xs | _ \<Rightarrow> None)"

definition text_of_cbor :: "cbor \<Rightarrow> str option" where
  "text_of_cbor v = (case v of CText s \<Rightarrow> Some s | _ \<Rightarrow> None)"

definition need :: "exc \<Rightarrow> 'a option \<Rightarrow> 'a result" where
  "need e v = (case v of None \<Rightarrow> Inl e | Some x \<Rightarrow> Inr x)"

text \<open>\<open>v == n\<close> between a decoded value and an \<open>int\<close>: \<open>True\<close> is 1 and \<open>False\<close> is 0.\<close>

definition eq_int :: "cbor \<Rightarrow> int \<Rightarrow> bool" where
  "eq_int v n = (v = CInt n \<or> (n = 1 \<and> v = CBool True) \<or> (n = 0 \<and> v = CBool False))"

section \<open>Labels\<close>

definition HDR_ALG :: ckey where "HDR_ALG = KInt 1"
definition HDR_CRIT :: ckey where "HDR_CRIT = KInt 2"
definition HDR_X5CHAIN :: ckey where "HDR_X5CHAIN = KInt 33"
definition KNOWN_CRIT_LABELS :: "int list" where "KNOWN_CRIT_LABELS = [1, 33]"
definition COSE_ALG_TO_JOSE :: "(int \<times> str) list" where
  "COSE_ALG_TO_JOSE = [(- 7, lit ''ES256''), (- 35, lit ''ES384''), (- 8, lit ''EdDSA'')]"
definition COSE_HMAC_256 :: int where "COSE_HMAC_256 = 5"
definition EC2_CRV_TO_JWK :: "(int \<times> str \<times> nat) list" where
  "EC2_CRV_TO_JWK = [(1, lit ''P-256'', 32), (2, lit ''P-384'', 48)]"
definition TAG_COSE_SIGN1 :: int where "TAG_COSE_SIGN1 = 18"
definition TAG_COSE_MAC0 :: int where "TAG_COSE_MAC0 = 17"

abbreviation cose_malformed :: exc where "cose_malformed \<equiv> Cose CoseMalformed"

section \<open>Parsing\<close>

record cose_sign1 =
  cs_protected :: bytes
  cs_header :: cmap
  cs_unprotected :: cmap
  cs_payload :: "bytes option"
  cs_signature :: bytes

record cose_mac0 =
  cm_protected :: bytes
  cm_header :: cmap
  cm_unprotected :: cmap
  cm_payload :: "bytes option"
  cm_tag :: bytes

definition unwrap_cose :: "int \<Rightarrow> cbor \<Rightarrow> cbor list result" where
  "unwrap_cose tag obj =
     bindR (case obj of CTag t v _ \<Rightarrow> if t \<noteq> tag then Inl cose_malformed else Inr v | _ \<Rightarrow> Inr obj) (\<lambda>inner.
     bindR (need cose_malformed (list_opt inner)) (\<lambda>xs. if length xs \<noteq> 4 then Inl cose_malformed else Inr xs))"

definition reject_unhandled_crit :: "cmap \<Rightarrow> unit result" where
  "reject_unhandled_crit header =
     (case map_of header HDR_CRIT of
        None \<Rightarrow> Inr ()
      | Some crit \<Rightarrow>
          bindR (need cose_malformed (list_opt crit)) (\<lambda>xs.
            if xs = [] then Inl cose_malformed
            else bindR (mapR (\<lambda>lbl. need cose_malformed (int_opt lbl)) xs) (\<lambda>labels.
                   if list_all (\<lambda>l. l \<in> set KNOWN_CRIT_LABELS) labels then Inr () else Inl cose_malformed)))"

definition parse_protected :: "cbor \<Rightarrow> (bytes \<times> cmap) result" where
  "parse_protected protected =
     bindR (need cose_malformed (bytes_opt protected)) (\<lambda>raw.
       if raw = [] then Inr ([], [])
       else bindR (catchR (\<lambda>e. e = CborError) cose_malformed (decode raw)) (\<lambda>h.
            bindR (need cose_malformed (map_opt h)) (\<lambda>header.
            bindR (reject_unhandled_crit header) (\<lambda>_. Inr (raw, header)))))"

definition require_alg :: "cmap \<Rightarrow> int result" where
  "require_alg protected_header = need cose_malformed (int_opt (cget HDR_ALG protected_header))"

definition payload_opt :: "cbor \<Rightarrow> bytes option result" where
  "payload_opt payload =
     (if payload = CNull then Inr None else bindR (need cose_malformed (bytes_opt payload)) (\<lambda>b. Inr (Some b)))"

text \<open>The four elements of either structure, in the order they are checked.\<close>

definition parse_parts :: "int \<Rightarrow> cbor \<Rightarrow> (bytes \<times> cmap \<times> cmap \<times> bytes option \<times> bytes) result" where
  "parse_parts tag obj =
     bindR (unwrap_cose tag obj) (\<lambda>xs.
     bindR (parse_protected (xs ! 0)) (\<lambda>(protected, header).
     bindR (need cose_malformed (map_opt (xs ! 1))) (\<lambda>unprotected.
     bindR (payload_opt (xs ! 2)) (\<lambda>payload.
     bindR (need cose_malformed (bytes_opt (xs ! 3))) (\<lambda>last_part.
       Inr (protected, header, unprotected, payload, last_part))))))"

definition parse_sign1 :: "cbor \<Rightarrow> cose_sign1 result" where
  "parse_sign1 obj =
     bindR (parse_parts TAG_COSE_SIGN1 obj) (\<lambda>(protected, header, unprotected, payload, signature).
       Inr \<lparr>cs_protected = protected, cs_header = header, cs_unprotected = unprotected, cs_payload = payload, cs_signature = signature\<rparr>)"

definition parse_mac0 :: "cbor \<Rightarrow> cose_mac0 result" where
  "parse_mac0 obj =
     bindR (parse_parts TAG_COSE_MAC0 obj) (\<lambda>(protected, header, unprotected, payload, tag).
       Inr \<lparr>cm_protected = protected, cm_header = header, cm_unprotected = unprotected, cm_payload = payload, cm_tag = tag\<rparr>)"

section \<open>Verification\<close>

definition tbs :: "str \<Rightarrow> bytes \<Rightarrow> bytes \<Rightarrow> bytes \<Rightarrow> bytes result" where
  "tbs context protected external_aad payload =
     encode (CList [CText context, CBytes protected, CBytes external_aad, CBytes payload])"

definition effective_payload :: "bytes option \<Rightarrow> bytes option \<Rightarrow> bytes result" where
  "effective_payload attached detached =
     (case attached of
        Some a \<Rightarrow> if detached \<noteq> None then Inl cose_malformed else Inr a
      | None \<Rightarrow> need cose_malformed detached)"

definition verify_sign1 :: "crypto \<Rightarrow> cose_sign1 \<Rightarrow> jobj \<Rightarrow> bytes option \<Rightarrow> bytes \<Rightarrow> bool result" where
  "verify_sign1 cr sign1 public_jwk detached_payload external_aad =
     bindR (require_alg (cs_header sign1)) (\<lambda>alg.
     bindR (need (Cose CoseUnsupportedAlgorithm) (map_of COSE_ALG_TO_JOSE alg)) (\<lambda>jose_alg.
     bindR (effective_payload (cs_payload sign1) detached_payload) (\<lambda>payload.
     bindR (tbs (lit ''Signature1'') (cs_protected sign1) external_aad payload) (\<lambda>input.
       verify_signature cr jose_alg public_jwk input (cs_signature sign1)))))"

definition verify_mac0 :: "(bytes \<Rightarrow> bytes \<Rightarrow> bytes) \<Rightarrow> cose_mac0 \<Rightarrow> bytes \<Rightarrow> bytes option \<Rightarrow> bytes \<Rightarrow> bool result" where
  "verify_mac0 hmac mac0 mac_key detached_payload external_aad =
     bindR (require_alg (cm_header mac0)) (\<lambda>alg.
       if alg \<noteq> COSE_HMAC_256 then Inl (Cose CoseUnsupportedAlgorithm)
       else
     bindR (effective_payload (cm_payload mac0) detached_payload) (\<lambda>payload.
     bindR (tbs (lit ''MAC0'') (cm_protected mac0) external_aad payload) (\<lambda>input.
       Inr (hmac mac_key input = cm_tag mac0))))"

definition x5chain_ders :: "cose_sign1 \<Rightarrow> bytes list result" where
  "x5chain_ders sign1 =
     (case (case map_of (cs_unprotected sign1) HDR_X5CHAIN of Some v \<Rightarrow> v | None \<Rightarrow> cget HDR_X5CHAIN (cs_header sign1)) of
        CBytes b \<Rightarrow> Inr [b]
      | CList xs \<Rightarrow> if xs = [] then Inl cose_malformed else mapR (\<lambda>c. need cose_malformed (bytes_opt c)) xs
      | _ \<Rightarrow> Inl cose_malformed)"

definition ec2_key :: "cmap \<Rightarrow> jobj result" where
  "ec2_key cose_key =
     bindR (need cose_malformed (int_opt (cget (KInt (- 1)) cose_key))) (\<lambda>crv.
     bindR (need cose_malformed (map_of EC2_CRV_TO_JWK crv)) (\<lambda>(name, sz).
     bindR (need cose_malformed (bytes_opt (cget (KInt (- 2)) cose_key))) (\<lambda>x.
     bindR (need cose_malformed (bytes_opt (cget (KInt (- 3)) cose_key))) (\<lambda>y.
       if length x \<noteq> sz \<or> length y \<noteq> sz then Inl cose_malformed
       else Inr [(lit ''kty'', JStr (lit ''EC'')), (lit ''crv'', JStr name), (lit ''x'', JStr (b64url_encode x)), (lit ''y'', JStr (b64url_encode y))]))))"

definition okp_cose_key :: "cmap \<Rightarrow> jobj result" where
  "okp_cose_key cose_key =
     (if cget (KInt (- 1)) cose_key \<noteq> CInt 6 then Inl cose_malformed
      else bindR (need cose_malformed (bytes_opt (cget (KInt (- 2)) cose_key))) (\<lambda>x.
             if length x \<noteq> 32 then Inl cose_malformed
             else Inr [(lit ''kty'', JStr (lit ''OKP'')), (lit ''crv'', JStr (lit ''Ed25519'')), (lit ''x'', JStr (b64url_encode x))]))"

definition cose_key_to_jwk :: "cbor \<Rightarrow> jobj result" where
  "cose_key_to_jwk cose_key =
     bindR (need cose_malformed (map_opt cose_key)) (\<lambda>m.
       if eq_int (cget (KInt 1) m) 2 then ec2_key m
       else if eq_int (cget (KInt 1) m) 1 then okp_cose_key m
       else Inl cose_malformed)"

section \<open>Lemmas\<close>

lemma need_Inr [simp]: "need e v = Inr x \<longleftrightarrow> v = Some x"
  by (auto simp: need_def split: option.splits)

lemma need_Inl [simp]: "need e v = Inl x \<longleftrightarrow> v = None \<and> x = e"
  by (auto simp: need_def split: option.splits)

lemma opt_Some [simp]:
  "bytes_opt v = Some b \<longleftrightarrow> v = CBytes b" "map_opt v = Some m \<longleftrightarrow> v = CMap m" "int_opt v = Some n \<longleftrightarrow> v = CInt n"
  "list_opt v = Some xs \<longleftrightarrow> v = CList xs" "text_of_cbor v = Some s \<longleftrightarrow> v = CText s"
  by (cases v; simp add: bytes_opt_def map_opt_def int_opt_def list_opt_def text_of_cbor_def)+

lemma cget_present: "cget k m \<noteq> CNull \<Longrightarrow> (k, cget k m) \<in> set m"
  by (auto simp: cget_def dest: map_of_SomeD split: option.splits)

text \<open>The tags of a member are tags of the map.\<close>

lemma cget_tags: "set (tags (cget k m)) \<subseteq> set (tags (CMap m))"
proof (cases "cget k m = CNull")
  case False
  then show ?thesis using cget_present [OF False] by force
qed simp

lemma crit_accepted:
  "reject_unhandled_crit header = Inr () \<Longrightarrow> map_of header HDR_CRIT = Some crit \<Longrightarrow>
     \<exists>labels. crit = CList (map CInt labels) \<and> labels \<noteq> [] \<and> set labels \<subseteq> set KNOWN_CRIT_LABELS"
proof -
  have m: "mapR (\<lambda>l. need e (int_opt l)) xs = Inr labels \<Longrightarrow> xs = map CInt labels" for e xs labels
    by (induction xs arbitrary: labels) (auto simp: bindR_Inr)
  assume "reject_unhandled_crit header = Inr ()" "map_of header HDR_CRIT = Some crit"
  then obtain xs labels where "crit = CList xs" "xs \<noteq> []" "mapR (\<lambda>lbl. need cose_malformed (int_opt lbl)) xs = Inr labels"
    "list_all (\<lambda>l. l \<in> set KNOWN_CRIT_LABELS) labels"
    by (auto simp: reject_unhandled_crit_def bindR_Inr split: if_splits)
  moreover from this have "xs = map CInt labels" using m by blast
  ultimately show ?thesis by (auto simp: list_all_iff)
qed

lemma parse_protected_Inr:
  "parse_protected v = Inr (raw, header) \<Longrightarrow>
     v = CBytes raw \<and> (if raw = [] then header = [] else decode raw = Inr (CMap header) \<and> reject_unhandled_crit header = Inr ())"
  by (auto simp: parse_protected_def bindR_Inr split: if_splits)

lemma parse_parts_Inr:
  assumes "parse_parts tag obj = Inr (protected, header, unprotected, payload, last_part)"
  shows "(if protected = [] then header = [] else decode protected = Inr (CMap header) \<and> reject_unhandled_crit header = Inr ())"
  using assms parse_protected_Inr unfolding parse_parts_def by (auto simp: bindR_Inr)

text \<open>The bytes a signature or tag covers determine what they were built from.\<close>

lemma tbs_inj:
  assumes "tbs c p a b = Inr x" "tbs c' p' a' b' = Inr x"
  shows "c = c' \<and> p = p' \<and> a = a' \<and> b = b'"
proof -
  have d: "tbs c p a b = Inr x \<Longrightarrow> decode x = Inr (CList [CText c, CBytes p, CBytes a, CBytes b])" for c p a b
    using decodes_plain [of "CList [CText c, CBytes p, CBytes a, CBytes b]"] unfolding tbs_def decodes_def
    by (auto simp: decode_def CBOR_MAX_DEPTH_def dest!: spec [of _ x] spec [of _ 0])
  from d [OF assms(1)] d [OF assms(2)] show ?thesis by simp
qed

lemma verify_sign1_Inr:
  "verify_sign1 cr s jwk detached aad = Inr ok \<longleftrightarrow>
     (\<exists>alg jose payload input. cget HDR_ALG (cs_header s) = CInt alg \<and> map_of COSE_ALG_TO_JOSE alg = Some jose \<and>
        effective_payload (cs_payload s) detached = Inr payload \<and>
        tbs (lit ''Signature1'') (cs_protected s) aad payload = Inr input \<and>
        verify_signature cr jose jwk input (cs_signature s) = Inr ok)"
  by (auto simp: verify_sign1_def require_alg_def bindR_Inr)

lemma verify_mac0_Inr:
  "verify_mac0 hmac m k detached aad = Inr ok \<longleftrightarrow>
     (\<exists>payload input. cget HDR_ALG (cm_header m) = CInt COSE_HMAC_256 \<and> effective_payload (cm_payload m) detached = Inr payload \<and>
        tbs (lit ''MAC0'') (cm_protected m) aad payload = Inr input \<and> ok = (hmac k input = cm_tag m))"
  by (auto simp: verify_mac0_def require_alg_def bindR_Inr)

lemma effective_payload_Inr:
  "effective_payload attached detached = Inr p \<longleftrightarrow> (attached = Some p \<and> detached = None) \<or> (attached = None \<and> detached = Some p)"
  by (cases attached) (auto simp: effective_payload_def)

text \<open>A signed message for the examples: the toy backend's signature of a message is the message.\<close>

definition ex_protected :: bytes where "ex_protected = [161, 1, 39]"

definition ex_input :: bytes where
  "ex_input = [132, 106, 83, 105, 103, 110, 97, 116, 117, 114, 101, 49, 67, 161, 1, 39, 64, 65, 7]"

definition ex_sign1 :: cbor where
  "ex_sign1 = CList [CBytes ex_protected, CMap [], CBytes [7], CBytes ex_input]"

lemma ex_protected_decoded: "decode ex_protected = Inr (CMap [(KInt 1, CInt (- 8))])"
  by (simp add: ex_protected_def decode_def decode_at.simps decode_map_Suc decode_map.simps [of _ 0] read_head_def decode_leaf_def
      CBOR_MAX_DEPTH_def has_key_def)

lemma ex_sign1_parsed:
  "parse_sign1 ex_sign1 = Inr \<lparr>cs_protected = ex_protected, cs_header = [(KInt 1, CInt (- 8))], cs_unprotected = [],
     cs_payload = Some [7], cs_signature = ex_input\<rparr>"
proof -
  have p: "parse_protected (CBytes ex_protected) = Inr (ex_protected, [(KInt 1, CInt (- 8))])"
    by (simp add: parse_protected_def bytes_opt_def need_def ex_protected_decoded map_opt_def reject_unhandled_crit_def HDR_CRIT_def)
       (simp add: ex_protected_def)
  show ?thesis
    by (simp add: parse_sign1_def parse_parts_def unwrap_cose_def ex_sign1_def p need_def list_opt_def map_opt_def payload_opt_def bytes_opt_def)
qed

lemma ex_sign1_verified:
  "verify_sign1 toy_crypto \<lparr>cs_protected = ex_protected, cs_header = [(KInt 1, CInt (- 8))], cs_unprotected = [],
     cs_payload = Some [7], cs_signature = ex_input\<rparr> (okp_jwk (replicate 32 7)) None [] = Inr True"
proof -
  have "tbs (lit ''Signature1'') ex_protected [] [7] = Inr ex_input"
    by (simp add: tbs_def ex_protected_def ex_input_def encode_tstr_def encode_bstr_def head_then_def head_bytes_def lit_def
        utf8_encode_def utf8_cp_def Let_def)
  then show ?thesis
    by (simp add: verify_sign1_def require_alg_def cget_def HDR_ALG_def int_opt_def need_def COSE_ALG_TO_JOSE_def effective_payload_def
        verify_signature_def ED25519_ALG_NAMES_def okp_jwk_def jwk_bytes_simps toy_crypto_def)
qed

section \<open>Properties\<close>

text \<open>(C19) What an accepted COSE\_Sign1 proves. The signature is over exactly one payload, attached or detached but not both,
  together with the received protected header bytes and the external data; the algorithm is an allowed one named in that
  protected header, never in the unprotected one; the header is what its bytes decode to and every label it marks critical is
  one the verifier handles. No other message, header or external data has the same signed bytes, and none of them is the
  input of a MAC.\<close>

theorem cose_sign1_accepts:
  assumes "parse_sign1 obj = Inr s" "verify_sign1 cr s jwk detached aad = Inr True"
  shows "\<exists>alg jose payload input.
    (cs_protected s \<noteq> [] \<and> decode (cs_protected s) = Inr (CMap (cs_header s))) \<and>
    cget HDR_ALG (cs_header s) = CInt alg \<and> map_of COSE_ALG_TO_JOSE alg = Some jose \<and>
    (\<forall>crit. map_of (cs_header s) HDR_CRIT = Some crit \<longrightarrow>
       (\<exists>labels. crit = CList (map CInt labels) \<and> labels \<noteq> [] \<and> set labels \<subseteq> set KNOWN_CRIT_LABELS)) \<and>
    ((cs_payload s = Some payload \<and> detached = None) \<or> (cs_payload s = None \<and> detached = Some payload)) \<and>
    verify_signature cr jose jwk input (cs_signature s) = Inr True \<and>
    (\<forall>c p a b. tbs c p a b = Inr input \<longleftrightarrow> c = lit ''Signature1'' \<and> p = cs_protected s \<and> a = aad \<and> b = payload)"
proof -
  obtain alg jose payload input where k: "cget HDR_ALG (cs_header s) = CInt alg" "map_of COSE_ALG_TO_JOSE alg = Some jose"
    "effective_payload (cs_payload s) detached = Inr payload" "tbs (lit ''Signature1'') (cs_protected s) aad payload = Inr input"
    "verify_signature cr jose jwk input (cs_signature s) = Inr True"
    using assms(2) unfolding verify_sign1_Inr by blast
  have h: "if cs_protected s = [] then cs_header s = [] else decode (cs_protected s) = Inr (CMap (cs_header s)) \<and>
      reject_unhandled_crit (cs_header s) = Inr ()"
    using assms(1) parse_parts_Inr by (auto simp: parse_sign1_def bindR_Inr)
  moreover have "cs_header s \<noteq> []" using k(1) by (auto simp: cget_def)
  ultimately have p: "cs_protected s \<noteq> []" "decode (cs_protected s) = Inr (CMap (cs_header s))" "reject_unhandled_crit (cs_header s) = Inr ()"
    by (auto split: if_splits)
  have t: "\<forall>c p a b. tbs c p a b = Inr input \<longleftrightarrow> c = lit ''Signature1'' \<and> p = cs_protected s \<and> a = aad \<and> b = payload"
    using k(4) tbs_inj by blast
  show ?thesis using k p t crit_accepted [OF p(3)] unfolding effective_payload_Inr by blast
qed

theorem cose_sign1_accepts_witness:
  "\<exists>s input. parse_sign1 ex_sign1 = Inr s \<and> verify_sign1 toy_crypto s (okp_jwk (replicate 32 7)) None [] = Inr True \<and>
     tbs (lit ''Signature1'') (cs_protected s) [] [7] = Inr input"
proof -
  obtain s where s: "parse_sign1 ex_sign1 = Inr s" "verify_sign1 toy_crypto s (okp_jwk (replicate 32 7)) None [] = Inr True"
    "cs_payload s = Some [7]"
    using ex_sign1_parsed ex_sign1_verified by auto
  from cose_sign1_accepts [OF s(1,2)] s(3) have "\<exists>input. tbs (lit ''Signature1'') (cs_protected s) [] [7] = Inr input" by auto blast
  with s show ?thesis by blast
qed

end
