(* ===== verification/Mdoc.thy ===== *)
theory Mdoc
  imports Cose
begin

text \<open>
  openvc/mdoc.py: an ISO 18013-5 \<open>DeviceResponse\<close> verified end to end: the issuer's seal over the mobile security object, the
  digests of the disclosed items, the validity window and the holder's device authentication. \<open>mdoc_env\<close> is what the module
  calls outside the package: the crypto and X.509 libraries, the clock in microseconds, \<open>datetime.fromisoformat\<close> and
  \<open>date.fromisoformat\<close> as microseconds from the epoch (read as UTC where the text has no offset) and HMAC-SHA-256.
\<close>

section \<open>The environment and the results\<close>

record mdoc_env =
  me_crypto :: crypto
  me_x509 :: x509
  me_clock :: int
  me_datetime :: "str \<Rightarrow> int option"
  me_date :: "str \<Rightarrow> int option"
  me_hmac :: "bytes \<Rightarrow> bytes \<Rightarrow> bytes"

record mdoc_validity =
  mv_signed :: "int"
  mv_valid_from :: "int"
  mv_valid_until :: "int"

type_synonym elements = "(str \<times> cbor) list"

record verified_mdoc =
  md_doc_type :: str
  md_namespaces :: "(str \<times> elements) list"
  md_device_signed :: bool
  md_issuer_key :: jobj
  md_validity :: mdoc_validity

record issuer_parts =
  ip_doc_type :: str
  ip_namespaces :: "(str \<times> elements) list"
  ip_issuer_key :: jobj
  ip_validity :: mdoc_validity
  ip_mso :: cmap

abbreviation key :: "string \<Rightarrow> ckey" where "key s \<equiv> KText (lit s)"
abbreviation mdoc_malformed :: exc where "mdoc_malformed \<equiv> Mdoc MdocMalformed"

definition MDOC_LEEWAY_S :: int where "MDOC_LEEWAY_S = 300"

definition DIGEST_ALGS :: "(str \<times> str) list" where
  "DIGEST_ALGS = [(lit ''SHA-256'', lit ''sha256''), (lit ''SHA-384'', lit ''sha384''), (lit ''SHA-512'', lit ''sha512'')]"

definition TAG_DATE_TIME :: int where "TAG_DATE_TIME = 0"
definition TAG_ENCODED_CBOR :: int where "TAG_ENCODED_CBOR = 24"
definition TAG_FULL_DATE :: int where "TAG_FULL_DATE = 1004"

definition is_cose_error :: "exc \<Rightarrow> bool" where
  "is_cose_error e = (case e of Cose c \<Rightarrow> True | _ \<Rightarrow> False)"

section \<open>Parsing the response\<close>

definition parse_response :: "bytes \<Rightarrow> cbor list result" where
  "parse_response device_response =
     bindR (catchR (\<lambda>e. e = CborError) mdoc_malformed (decode device_response)) (\<lambda>parsed.
     bindR (need mdoc_malformed (map_opt parsed)) (\<lambda>m.
     bindR (need mdoc_malformed (int_opt (cget (key ''status'') m))) (\<lambda>status.
       if status \<noteq> 0 then Inl mdoc_malformed
       else
     bindR (need mdoc_malformed (list_opt (cget (key ''documents'') m))) (\<lambda>documents.
       if documents = [] then Inl mdoc_malformed else Inr documents))))"

definition decode_mso :: "bytes \<Rightarrow> cmap result" where
  "decode_mso payload =
     bindR (catchR (\<lambda>e. e = CborError) mdoc_malformed (decode payload)) (\<lambda>tagged.
       case tagged of
         CTag t v raw \<Rightarrow>
           (if t \<noteq> TAG_ENCODED_CBOR then Inl mdoc_malformed
            else
          bindR (need mdoc_malformed (bytes_opt v)) (\<lambda>b.
          bindR (catchR (\<lambda>e. e = CborError) mdoc_malformed (decode b)) (\<lambda>mso.
            need mdoc_malformed (map_opt mso))))
       | _ \<Rightarrow> Inl mdoc_malformed)"

section \<open>Disclosed items\<close>

text \<open>Tags are unwrapped everywhere in a value handed to the caller.\<close>

fun plain_value :: "cbor \<Rightarrow> cbor" where
  "plain_value (CTag t v raw) = plain_value v"
| "plain_value (CList xs) = CList (map plain_value xs)"
| "plain_value (CMap m) = CMap (map (\<lambda>kv. (fst kv, plain_value (snd kv))) m)"
| "plain_value v = v"

definition embedded_item :: "cbor \<Rightarrow> (bytes \<times> bytes) option" where
  "embedded_item el =
     (case el of
        CTag t v raw \<Rightarrow>
          (case raw of
             None \<Rightarrow> None
           | Some r \<Rightarrow> (case bytes_opt v of None \<Rightarrow> None | Some b \<Rightarrow> if t = TAG_ENCODED_CBOR then Some (r, b) else None))
      | _ \<Rightarrow> None)"

definition verify_item :: "(bytes \<Rightarrow> bytes) \<Rightarrow> cmap \<Rightarrow> cbor \<Rightarrow> (str \<times> cbor) result" where
  "verify_item hasher ns_digests el =
     bindR (need mdoc_malformed (embedded_item el)) (\<lambda>(raw, content).
     bindR (catchR (\<lambda>e. e = CborError) mdoc_malformed (decode content)) (\<lambda>v.
     bindR (need mdoc_malformed (map_opt v)) (\<lambda>issuer_item.
     bindR (need mdoc_malformed (int_opt (cget (key ''digestID'') issuer_item))) (\<lambda>digest_id.
     bindR (need (Mdoc MdocDigestMismatch) (bytes_opt (cget (KInt digest_id) ns_digests))) (\<lambda>expected.
       if hasher raw \<noteq> expected then Inl (Mdoc MdocDigestMismatch)
       else
     bindR (need mdoc_malformed (text_of_cbor (cget (key ''elementIdentifier'') issuer_item))) (\<lambda>element_id.
       if element_id = [] then Inl mdoc_malformed
       else Inr (element_id, plain_value (cget (key ''elementValue'') issuer_item))))))))"

text \<open>\<open>claims.update({id: value})\<close> for every item.\<close>

fun verify_items :: "(bytes \<Rightarrow> bytes) \<Rightarrow> cmap \<Rightarrow> cbor list \<Rightarrow> elements \<Rightarrow> elements result" where
  "verify_items hasher ns_digests [] claims = Inr claims"
| "verify_items hasher ns_digests (el # rest) claims =
     bindR (verify_item hasher ns_digests el) (\<lambda>(i, v). verify_items hasher ns_digests rest (AList.update i v claims))"

definition verify_namespace :: "(bytes \<Rightarrow> bytes) \<Rightarrow> cmap \<Rightarrow> ckey \<times> cbor \<Rightarrow> (str \<times> elements) result" where
  "verify_namespace hasher value_digests entry =
     bindR (need mdoc_malformed (case fst entry of KText s \<Rightarrow> Some s | _ \<Rightarrow> None)) (\<lambda>namespace.
     bindR (need mdoc_malformed (list_opt (snd entry))) (\<lambda>els.
     bindR (need (Mdoc MdocDigestMismatch) (map_opt (cget (KText namespace) value_digests))) (\<lambda>ns_digests.
     bindR (verify_items hasher ns_digests els []) (\<lambda>claims. Inr (namespace, claims)))))"

definition verify_value_digests :: "(bytes \<Rightarrow> bytes) \<Rightarrow> cmap \<Rightarrow> cmap \<Rightarrow> (str \<times> elements) list result" where
  "verify_value_digests hasher issuer_signed mso =
     bindR (need mdoc_malformed (map_opt (cget (key ''valueDigests'') mso))) (\<lambda>value_digests.
       if cget (key ''nameSpaces'') issuer_signed = CNull then Inr []
       else
     bindR (need mdoc_malformed (map_opt (cget (key ''nameSpaces'') issuer_signed))) (\<lambda>ns_items.
       mapR (verify_namespace hasher value_digests) ns_items))"

section \<open>Validity\<close>

definition parse_rfc3339 :: "mdoc_env \<Rightarrow> cbor \<Rightarrow> int result" where
  "parse_rfc3339 E text =
     bindR (need mdoc_malformed (text_of_cbor text)) (\<lambda>t.
       need mdoc_malformed (me_datetime E (let raw = strip t in
         if raw \<noteq> [] \<and> last raw \<in> {90, 122} then butlast raw @ lit ''+00:00'' else raw)))"

definition parse_full_date :: "mdoc_env \<Rightarrow> cbor \<Rightarrow> int result" where
  "parse_full_date E text = bindR (need mdoc_malformed (text_of_cbor text)) (\<lambda>t. need mdoc_malformed (me_date E (strip t)))"

definition parse_date :: "mdoc_env \<Rightarrow> cbor \<Rightarrow> int option result" where
  "parse_date E v =
     (case v of
        CNull \<Rightarrow> Inr None
      | CTag t w raw \<Rightarrow>
          (if t = TAG_DATE_TIME then bindR (parse_rfc3339 E w) (\<lambda>d. Inr (Some d))
           else if t = TAG_FULL_DATE then bindR (parse_full_date E w) (\<lambda>d. Inr (Some d))
           else Inl mdoc_malformed)
      | CText s \<Rightarrow> bindR (parse_rfc3339 E v) (\<lambda>d. Inr (Some d))
      | _ \<Rightarrow> Inl mdoc_malformed)"

definition check_validity :: "mdoc_env \<Rightarrow> cmap \<Rightarrow> int \<Rightarrow> int \<Rightarrow> mdoc_validity result" where
  "check_validity E mso instant leeway =
     bindR (need mdoc_malformed (map_opt (cget (key ''validityInfo'') mso))) (\<lambda>info.
     bindR (parse_date E (cget (key ''signed'') info)) (\<lambda>s.
     bindR (parse_date E (cget (key ''validFrom'') info)) (\<lambda>f.
     bindR (parse_date E (cget (key ''validUntil'') info)) (\<lambda>u.
     bindR (need mdoc_malformed s) (\<lambda>signed_at.
     bindR (need mdoc_malformed f) (\<lambda>valid_from.
     bindR (need mdoc_malformed u) (\<lambda>valid_until.
       if leeway < valid_from - instant then Inl (Mdoc MdocValidityError)
       else if leeway < instant - valid_until then Inl (Mdoc MdocValidityError)
       else Inr \<lparr>mv_signed = signed_at, mv_valid_from = valid_from, mv_valid_until = valid_until\<rparr>)))))))"

section \<open>Issuer data authentication\<close>

text \<open>The document's type and its issuer part.\<close>

definition document_parts :: "str option \<Rightarrow> cbor \<Rightarrow> (str \<times> cmap) result" where
  "document_parts expected_doc_type document =
     bindR (need mdoc_malformed (map_opt document)) (\<lambda>d.
     bindR (need mdoc_malformed (text_of_cbor (cget (key ''docType'') d))) (\<lambda>doc_type.
       if doc_type = [] then Inl mdoc_malformed
       else if expected_doc_type \<noteq> None \<and> expected_doc_type \<noteq> Some doc_type then Inl (Mdoc MdocDocTypeMismatch)
       else
     bindR (need mdoc_malformed (map_opt (cget (key ''issuerSigned'') d))) (\<lambda>issuer_signed.
       Inr (doc_type, issuer_signed))))"

text \<open>The sealed object: the signer's chain, its key, the signature and the payload.\<close>

definition open_seal ::
    "mdoc_env \<Rightarrow> nat option list \<Rightarrow> clock_pin \<Rightarrow> json \<Rightarrow> cmap \<Rightarrow> (cbor \<times> int \<times> int \<times> jobj \<times> cmap) result" where
  "open_seal E trust_anchors now leeway_s issuer_signed =
     bindR (catchR is_cose_error mdoc_malformed
              (bindR (parse_sign1 (cget (key ''issuerAuth'') issuer_signed)) (\<lambda>a.
               bindR (x5chain_ders a) (\<lambda>ders. Inr (a, CList (map CBytes ders)))))) (\<lambda>(issuer_auth, chain).
     bindR (utc_window (me_clock E) (Mdoc MdocError) now leeway_s) (\<lambda>(instant, leeway).
     bindR (catchR (\<lambda>e. e = X5cError) (Mdoc MdocTrustError)
              (resolve_mdoc_signer_key (me_x509 E) (me_clock E) chain trust_anchors (PinAware instant 0))) (\<lambda>issuer_key.
     bindR (need mdoc_malformed (cs_payload issuer_auth)) (\<lambda>payload.
     bindR (catchR is_cose_error (Mdoc MdocSignatureInvalid)
              (verify_sign1 (me_crypto E) issuer_auth issuer_key None [])) (\<lambda>ok.
       if \<not> ok then Inl (Mdoc MdocSignatureInvalid)
       else bindR (decode_mso payload) (\<lambda>mso. Inr (chain, instant, leeway, issuer_key, mso)))))))"

definition verify_issuer_part ::
    "mdoc_env \<Rightarrow> nat option list \<Rightarrow> clock_pin \<Rightarrow> json \<Rightarrow> str option \<Rightarrow> cbor \<Rightarrow> issuer_parts result" where
  "verify_issuer_part E trust_anchors now leeway_s expected_doc_type document =
     bindR (document_parts expected_doc_type document) (\<lambda>(doc_type, issuer_signed).
     bindR (open_seal E trust_anchors now leeway_s issuer_signed) (\<lambda>(chain, instant, leeway, issuer_key, mso).
       if cget (key ''docType'') mso \<noteq> CText doc_type then Inl (Mdoc MdocDocTypeMismatch)
       else
     bindR (need mdoc_malformed (case text_of_cbor (cget (key ''digestAlgorithm'') mso) of
              None \<Rightarrow> None | Some a \<Rightarrow> map_of DIGEST_ALGS a)) (\<lambda>alg.
     bindR (check_validity E mso instant leeway) (\<lambda>validity.
     bindR (catchR (\<lambda>e. e = X5cError) (Mdoc MdocValidityError)
              (check_mdoc_signed_within_ds_validity (me_x509 E) chain (mv_signed validity))) (\<lambda>_.
     bindR (verify_value_digests (digest_of (me_crypto E) alg) issuer_signed mso) (\<lambda>namespaces.
       Inr \<lparr>ip_doc_type = doc_type, ip_namespaces = namespaces, ip_issuer_key = issuer_key, ip_validity = validity, ip_mso = mso\<rparr>))))))"

section \<open>Device authentication\<close>

text \<open>\<open>DeviceAuthenticationBytes\<close> over the exact transcript and device namespaces.\<close>

definition device_payload :: "bytes \<Rightarrow> str \<Rightarrow> bytes \<Rightarrow> bytes result" where
  "device_payload session_transcript doc_type device_ns =
     bindR (encode (CList [CText (lit ''DeviceAuthentication''), CRaw session_transcript, CText doc_type, CRaw device_ns])) (\<lambda>b.
       encode (CTag TAG_ENCODED_CBOR (CBytes b) None))"

definition device_signature_ok :: "mdoc_env \<Rightarrow> jobj \<Rightarrow> bytes \<Rightarrow> cbor \<Rightarrow> unit result" where
  "device_signature_ok E device_key detached signature =
     bindR (catchR is_cose_error (Mdoc MdocDeviceAuthError)
              (bindR (parse_sign1 signature) (\<lambda>s. verify_sign1 (me_crypto E) s device_key (Some detached) []))) (\<lambda>ok.
       if ok then Inr () else Inl (Mdoc MdocDeviceAuthError))"

definition device_mac_ok :: "mdoc_env \<Rightarrow> bytes option \<Rightarrow> bytes \<Rightarrow> cbor \<Rightarrow> unit result" where
  "device_mac_ok E device_mac_key detached mac =
     bindR (need (Mdoc MdocDeviceAuthError) device_mac_key) (\<lambda>k.
     bindR (catchR is_cose_error (Mdoc MdocDeviceAuthError)
              (bindR (parse_mac0 mac) (\<lambda>m. verify_mac0 (me_hmac E) m k (Some detached) []))) (\<lambda>ok.
       if ok then Inr () else Inl (Mdoc MdocDeviceAuthError)))"

definition verify_device_auth ::
    "mdoc_env \<Rightarrow> bytes \<Rightarrow> bytes option \<Rightarrow> issuer_parts \<Rightarrow> cmap \<Rightarrow> unit result" where
  "verify_device_auth E session_transcript device_mac_key parts document =
     bindR (need (Mdoc MdocDeviceAuthError) (map_opt (cget (key ''deviceSigned'') document))) (\<lambda>device_signed.
     bindR (need mdoc_malformed (case cget (key ''nameSpaces'') device_signed of
              CTag t v raw \<Rightarrow> if t = TAG_ENCODED_CBOR then raw else None | _ \<Rightarrow> None)) (\<lambda>device_ns.
     bindR (need mdoc_malformed (map_opt (cget (key ''deviceAuth'') device_signed))) (\<lambda>device_auth.
     bindR (device_payload session_transcript (ip_doc_type parts) device_ns) (\<lambda>detached.
     bindR (need mdoc_malformed (map_opt (cget (key ''deviceKeyInfo'') (ip_mso parts)))) (\<lambda>device_info.
     bindR (catchR is_cose_error mdoc_malformed (cose_key_to_jwk (cget (key ''deviceKey'') device_info))) (\<lambda>device_key.
       if cget (key ''deviceSignature'') device_auth \<noteq> CNull
       then device_signature_ok E device_key detached (cget (key ''deviceSignature'') device_auth)
       else if cget (key ''deviceMac'') device_auth \<noteq> CNull
       then device_mac_ok E device_mac_key detached (cget (key ''deviceMac'') device_auth)
       else Inl mdoc_malformed))))))"

section \<open>Entry points\<close>

definition verified_of :: "bool \<Rightarrow> issuer_parts \<Rightarrow> verified_mdoc" where
  "verified_of device parts =
     \<lparr>md_doc_type = ip_doc_type parts, md_namespaces = ip_namespaces parts, md_device_signed = device,
      md_issuer_key = ip_issuer_key parts, md_validity = ip_validity parts\<rparr>"

definition verify_document ::
    "mdoc_env \<Rightarrow> nat option list \<Rightarrow> bytes \<Rightarrow> clock_pin \<Rightarrow> json \<Rightarrow> str option \<Rightarrow> bytes option \<Rightarrow> cbor \<Rightarrow> verified_mdoc result" where
  "verify_document E trust_anchors session_transcript now leeway_s expected_doc_type device_mac_key document =
     bindR (verify_issuer_part E trust_anchors now leeway_s expected_doc_type document) (\<lambda>parts.
     bindR (verify_device_auth E session_transcript device_mac_key parts (case map_opt document of Some d \<Rightarrow> d | None \<Rightarrow> [])) (\<lambda>_.
       Inr (verified_of True parts)))"

definition verify_device_response ::
    "mdoc_env \<Rightarrow> nat option list \<Rightarrow> bytes \<Rightarrow> clock_pin \<Rightarrow> json \<Rightarrow> str option \<Rightarrow> bytes option \<Rightarrow> bytes \<Rightarrow> verified_mdoc list result" where
  "verify_device_response E trust_anchors session_transcript now leeway_s expected_doc_type device_mac_key device_response =
     bindR (leeway_seconds (Mdoc MdocError) leeway_s) (\<lambda>_.
     bindR (parse_response device_response)
       (mapR (verify_document E trust_anchors session_transcript now leeway_s expected_doc_type device_mac_key)))"

definition verify_issuer_signed ::
    "mdoc_env \<Rightarrow> nat option list \<Rightarrow> clock_pin \<Rightarrow> json \<Rightarrow> str option \<Rightarrow> cbor \<Rightarrow> verified_mdoc result" where
  "verify_issuer_signed E trust_anchors now leeway_s expected_doc_type document =
     bindR (leeway_seconds (Mdoc MdocError) leeway_s) (\<lambda>_.
     bindR (verify_issuer_part E trust_anchors now leeway_s expected_doc_type document) (\<lambda>parts. Inr (verified_of False parts)))"

section \<open>Lemmas\<close>

lemma embedded_item_Some: "embedded_item el = Some (raw, b) \<longleftrightarrow> el = CTag TAG_ENCODED_CBOR (CBytes b) (Some raw)"
  by (cases el) (auto simp: embedded_item_def bytes_opt_def split: option.splits if_splits cbor.splits)

text \<open>What the issuer sealed about an element: an item whose received bytes have the digest the security object lists.\<close>

definition sealed_element :: "(bytes \<Rightarrow> bytes) \<Rightarrow> cmap \<Rightarrow> cbor list \<Rightarrow> str \<Rightarrow> cbor \<Rightarrow> bool" where
  "sealed_element hasher ns_digests els eid v \<longleftrightarrow>
     (\<exists>raw content m digest_id. CTag TAG_ENCODED_CBOR (CBytes content) (Some raw) \<in> set els \<and> decode content = Inr (CMap m) \<and>
        cget (key ''digestID'') m = CInt digest_id \<and> cget (KInt digest_id) ns_digests = CBytes (hasher raw) \<and>
        cget (key ''elementIdentifier'') m = CText eid \<and> eid \<noteq> [] \<and> v = plain_value (cget (key ''elementValue'') m))"

lemma verify_item_Inr:
  "verify_item hasher ns_digests el = Inr (eid, v) \<Longrightarrow> sealed_element hasher ns_digests [el] eid v"
  by (auto simp: verify_item_def sealed_element_def bindR_Inr embedded_item_Some split: if_splits)

lemma sealed_mono: "sealed_element hasher ns els eid v \<Longrightarrow> set els \<subseteq> set els' \<Longrightarrow> sealed_element hasher ns els' eid v"
  unfolding sealed_element_def by blast

lemma verify_items_Inr:
  "verify_items hasher ns els claims = Inr out \<Longrightarrow> map_of out eid = Some v \<Longrightarrow>
     sealed_element hasher ns els eid v \<or> map_of claims eid = Some v"
proof (induction els arbitrary: claims)
  case (Cons el els)
  then obtain i w where w: "verify_item hasher ns el = Inr (i, w)" "verify_items hasher ns els (AList.update i w claims) = Inr out"
    by (auto simp: bindR_Inr)
  from Cons.IH [OF w(2) Cons.prems(2)] show ?case
    using sealed_mono [OF verify_item_Inr [OF w(1)], of "el # els"] sealed_mono [of hasher ns els eid v "el # els"]
    by (auto simp: update_conv' split: if_splits)
qed simp

lemma verify_namespace_Inr:
  assumes "verify_namespace hasher digests entry = Inr (namespace, claims)" "map_of claims eid = Some v"
  shows "\<exists>els ns_digests. entry = (KText namespace, CList els) \<and> cget (KText namespace) digests = CMap ns_digests \<and>
     sealed_element hasher ns_digests els eid v"
  using assms verify_items_Inr [where claims = "[]"]
  by (cases entry) (fastforce simp: verify_namespace_def bindR_Inr split: ckey.splits)

lemma value_digests_Inr:
  assumes "verify_value_digests hasher issuer_signed mso = Inr out" "(namespace, claims) \<in> set out" "map_of claims eid = Some v"
  shows "\<exists>digests items els ns_digests. cget (key ''valueDigests'') mso = CMap digests \<and> cget (key ''nameSpaces'') issuer_signed = CMap items \<and>
     (KText namespace, CList els) \<in> set items \<and> cget (KText namespace) digests = CMap ns_digests \<and>
     sealed_element hasher ns_digests els eid v"
proof -
  obtain digests where d: "cget (key ''valueDigests'') mso = CMap digests"
    using assms(1) by (auto simp: verify_value_digests_def bindR_Inr)
  with assms obtain items where i: "cget (key ''nameSpaces'') issuer_signed = CMap items"
    "mapR (verify_namespace hasher digests) items = Inr out"
    by (auto simp: verify_value_digests_def bindR_Inr split: if_splits)
  obtain entry where "entry \<in> set items" "verify_namespace hasher digests entry = Inr (namespace, claims)"
    using mapR_set [OF i(2) assms(2)] by blast
  then show ?thesis using verify_namespace_Inr [OF _ assms(3)] d i(1) by blast
qed

text \<open>The issuer's seal: a signer that chains to an anchor at \<open>instant\<close> signed the object the payload embeds.\<close>

definition issuer_seal :: "mdoc_env \<Rightarrow> nat option list \<Rightarrow> int \<Rightarrow> cmap \<Rightarrow> jobj \<Rightarrow> cmap \<Rightarrow> cbor \<Rightarrow> bool" where
  "issuer_seal E anchors instant issuer_signed jwk mso chain \<longleftrightarrow>
     (\<exists>auth ders payload b raw. parse_sign1 (cget (key ''issuerAuth'') issuer_signed) = Inr auth \<and> x5chain_ders auth = Inr ders \<and>
        chain = CList (map CBytes ders) \<and>
        resolve_mdoc_signer_key (me_x509 E) (me_clock E) chain anchors (PinAware instant 0) = Inr jwk \<and>
        verify_sign1 (me_crypto E) auth jwk None [] = Inr True \<and> cs_payload auth = Some payload \<and>
        decode payload = Inr (CTag TAG_ENCODED_CBOR (CBytes b) raw) \<and> decode b = Inr (CMap mso))"

lemma decode_mso_Inr: "decode_mso payload = Inr mso \<Longrightarrow>
    \<exists>b raw. decode payload = Inr (CTag TAG_ENCODED_CBOR (CBytes b) raw) \<and> decode b = Inr (CMap mso)"
proof -
  assume a: "decode_mso payload = Inr mso"
  then obtain x where x: "decode payload = Inr x" by (auto simp: decode_mso_def bindR_Inr)
  with a show ?thesis by (cases x) (auto simp: decode_mso_def bindR_Inr split: if_splits)
qed

lemma open_seal_Inr:
  assumes "open_seal E anchors now leeway_s issuer_signed = Inr (chain, instant, leeway, jwk, mso)"
  shows "issuer_seal E anchors instant issuer_signed jwk mso chain \<and>
     utc_window (me_clock E) (Mdoc MdocError) now leeway_s = Inr (instant, leeway)"
proof -
  obtain auth ders payload where k: "parse_sign1 (cget (key ''issuerAuth'') issuer_signed) = Inr auth" "x5chain_ders auth = Inr ders"
    "chain = CList (map CBytes ders)" "utc_window (me_clock E) (Mdoc MdocError) now leeway_s = Inr (instant, leeway)"
    "resolve_mdoc_signer_key (me_x509 E) (me_clock E) chain anchors (PinAware instant 0) = Inr jwk" "cs_payload auth = Some payload"
    "verify_sign1 (me_crypto E) auth jwk None [] = Inr True" "decode_mso payload = Inr mso"
    using assms by (auto simp: open_seal_def bindR_Inr split: if_splits)
  then show ?thesis using decode_mso_Inr [OF k(8)] unfolding issuer_seal_def by blast
qed

lemma check_validity_Inr:
  "check_validity E mso instant leeway = Inr v \<Longrightarrow> mv_valid_from v - leeway \<le> instant \<and> instant \<le> mv_valid_until v + leeway"
  by (auto simp: check_validity_def bindR_Inr split: if_splits)

text \<open>The issuer part of an accepted document.\<close>

definition issuer_checked ::
    "mdoc_env \<Rightarrow> nat option list \<Rightarrow> clock_pin \<Rightarrow> json \<Rightarrow> cmap \<Rightarrow> cmap \<Rightarrow> verified_mdoc \<Rightarrow> bool" where
  "issuer_checked E anchors now leeway_s document mso r \<longleftrightarrow>
     (\<exists>issuer_signed chain instant leeway alg algname.
        cget (key ''docType'') document = CText (md_doc_type r) \<and> cget (key ''issuerSigned'') document = CMap issuer_signed \<and>
        issuer_seal E anchors instant issuer_signed (md_issuer_key r) mso chain \<and>
        utc_window (me_clock E) (Mdoc MdocError) now leeway_s = Inr (instant, leeway) \<and>
        cget (key ''docType'') mso = CText (md_doc_type r) \<and>
        mv_valid_from (md_validity r) - leeway \<le> instant \<and> instant \<le> mv_valid_until (md_validity r) + leeway \<and>
        check_mdoc_signed_within_ds_validity (me_x509 E) chain (mv_signed (md_validity r)) = Inr () \<and>
        cget (key ''digestAlgorithm'') mso = CText algname \<and> map_of DIGEST_ALGS algname = Some alg \<and>
        (\<forall>namespace claims eid v. (namespace, claims) \<in> set (md_namespaces r) \<and> map_of claims eid = Some v \<longrightarrow>
           (\<exists>digests items els ns_digests. cget (key ''valueDigests'') mso = CMap digests \<and>
              cget (key ''nameSpaces'') issuer_signed = CMap items \<and> (KText namespace, CList els) \<in> set items \<and>
              cget (KText namespace) digests = CMap ns_digests \<and>
              sealed_element (digest_of (me_crypto E) alg) ns_digests els eid v)))"

lemma issuer_part_Inr:
  assumes "verify_issuer_part E anchors now leeway_s expected document = Inr parts"
  shows "\<exists>d. document = CMap d \<and> issuer_checked E anchors now leeway_s d (ip_mso parts) (verified_of device parts) \<and>
     (expected = None \<or> expected = Some (ip_doc_type parts))"
proof -
  obtain doc_type issuer_signed chain instant leeway jwk mso algname alg validity namespaces where k:
    "document_parts expected document = Inr (doc_type, issuer_signed)"
    "open_seal E anchors now leeway_s issuer_signed = Inr (chain, instant, leeway, jwk, mso)"
    "cget (key ''docType'') mso = CText doc_type" "cget (key ''digestAlgorithm'') mso = CText algname" "map_of DIGEST_ALGS algname = Some alg"
    "check_validity E mso instant leeway = Inr validity"
    "check_mdoc_signed_within_ds_validity (me_x509 E) chain (mv_signed validity) = Inr ()"
    "verify_value_digests (digest_of (me_crypto E) alg) issuer_signed mso = Inr namespaces"
    "parts = \<lparr>ip_doc_type = doc_type, ip_namespaces = namespaces, ip_issuer_key = jwk, ip_validity = validity, ip_mso = mso\<rparr>"
    using assms by (auto simp: verify_issuer_part_def bindR_Inr split: if_splits option.splits)
  obtain d where d: "document = CMap d" "cget (key ''docType'') d = CText doc_type" "cget (key ''issuerSigned'') d = CMap issuer_signed"
    "expected = None \<or> expected = Some doc_type"
    using k(1) by (auto simp: document_parts_def bindR_Inr split: if_splits)
  have f: "md_doc_type (verified_of device parts) = doc_type" "md_issuer_key (verified_of device parts) = jwk"
    "md_validity (verified_of device parts) = validity" "md_namespaces (verified_of device parts) = namespaces"
    by (simp_all add: k(9) verified_of_def)
  have "issuer_checked E anchors now leeway_s d mso (verified_of device parts)"
    unfolding issuer_checked_def f
    using d(2,3) open_seal_Inr [OF k(2)] check_validity_Inr [OF k(6)] k(3-5,7) value_digests_Inr [OF k(8)] by blast
  then show ?thesis using d k(9) by simp
qed

text \<open>The holder's part: the key the issuer sealed authenticated this session.\<close>

definition device_bound :: "mdoc_env \<Rightarrow> bytes \<Rightarrow> bytes option \<Rightarrow> str \<Rightarrow> cmap \<Rightarrow> cmap \<Rightarrow> bool" where
  "device_bound E session_transcript device_mac_key doc_type mso document \<longleftrightarrow>
     (\<exists>device_signed device_auth v raw detached info jwk.
        cget (key ''deviceSigned'') document = CMap device_signed \<and>
        cget (key ''nameSpaces'') device_signed = CTag TAG_ENCODED_CBOR v (Some raw) \<and>
        cget (key ''deviceAuth'') device_signed = CMap device_auth \<and>
        device_payload session_transcript doc_type raw = Inr detached \<and>
        cget (key ''deviceKeyInfo'') mso = CMap info \<and> cose_key_to_jwk (cget (key ''deviceKey'') info) = Inr jwk \<and>
        ((\<exists>s. parse_sign1 (cget (key ''deviceSignature'') device_auth) = Inr s \<and>
            verify_sign1 (me_crypto E) s jwk (Some detached) [] = Inr True) \<or>
         (\<exists>k m. device_mac_key = Some k \<and> parse_mac0 (cget (key ''deviceMac'') device_auth) = Inr m \<and>
            verify_mac0 (me_hmac E) m k (Some detached) [] = Inr True)))"

lemma device_auth_Inr:
  assumes "verify_device_auth E st mk parts document = Inr ()"
  shows "device_bound E st mk (ip_doc_type parts) (ip_mso parts) document"
proof -
  obtain device_signed device_auth raw detached info jwk where k: "cget (key ''deviceSigned'') document = CMap device_signed"
    "(case cget (key ''nameSpaces'') device_signed of CTag t v raw \<Rightarrow> if t = TAG_ENCODED_CBOR then raw else None | _ \<Rightarrow> None) = Some raw"
    "cget (key ''deviceAuth'') device_signed = CMap device_auth" "device_payload st (ip_doc_type parts) raw = Inr detached"
    "cget (key ''deviceKeyInfo'') (ip_mso parts) = CMap info" "cose_key_to_jwk (cget (key ''deviceKey'') info) = Inr jwk"
    "(if cget (key ''deviceSignature'') device_auth \<noteq> CNull
       then device_signature_ok E jwk detached (cget (key ''deviceSignature'') device_auth)
       else if cget (key ''deviceMac'') device_auth \<noteq> CNull
       then device_mac_ok E mk detached (cget (key ''deviceMac'') device_auth)
       else Inl mdoc_malformed) = Inr ()"
    using assms by (auto simp: verify_device_auth_def bindR_Inr)
  obtain v where v: "cget (key ''nameSpaces'') device_signed = CTag TAG_ENCODED_CBOR v (Some raw)"
    using k(2) by (auto split: cbor.split_asm if_split_asm)
  have "(\<exists>s. parse_sign1 (cget (key ''deviceSignature'') device_auth) = Inr s \<and>
            verify_sign1 (me_crypto E) s jwk (Some detached) [] = Inr True) \<or>
         (\<exists>k m. mk = Some k \<and> parse_mac0 (cget (key ''deviceMac'') device_auth) = Inr m \<and>
            verify_mac0 (me_hmac E) m k (Some detached) [] = Inr True)"
    using k(7) by (auto simp: device_signature_ok_def device_mac_ok_def bindR_Inr split: if_splits)
  with k v show ?thesis unfolding device_bound_def by blast
qed

section \<open>An example response\<close>

text \<open>One document with one Ed25519-sealed item; the byte strings are the canonical encodings of the values below.\<close>

definition ex_md_content :: bytes where
  "ex_md_content =
    [163, 104, 100, 105, 103, 101, 115, 116, 73, 68, 0, 108, 101, 108, 101, 109, 101, 110, 116, 86, 97, 108, 117, 101, 5,
    113, 101, 108, 101, 109, 101, 110, 116, 73, 100, 101, 110, 116, 105, 102, 105, 101, 114, 97, 110]"

definition ex_md_item :: bytes where
  "ex_md_item =
    [216, 24, 88, 45] @ ex_md_content"

definition ex_md_mso :: bytes where
  "ex_md_mso =
    [165, 103, 100, 111, 99, 84, 121, 112, 101, 97, 100, 108, 118, 97, 108, 105, 100, 105, 116, 121, 73, 110, 102, 111,
    163, 102, 115, 105, 103, 110, 101, 100, 192, 97, 116, 105, 118, 97, 108, 105, 100, 70, 114, 111, 109, 192, 97, 116,
    106, 118, 97, 108, 105, 100, 85, 110, 116, 105, 108, 192, 97, 116, 108, 118, 97, 108, 117, 101, 68, 105, 103, 101,
    115, 116, 115, 161, 97, 115, 161, 0, 64, 109, 100, 101, 118, 105, 99, 101, 75, 101, 121, 73, 110, 102, 111, 161, 105,
    100, 101, 118, 105, 99, 101, 75, 101, 121, 163, 1, 1, 32, 6, 33, 88, 32, 7, 7, 7, 7, 7, 7, 7, 7, 7, 7, 7, 7, 7, 7, 7,
    7, 7, 7, 7, 7, 7, 7, 7, 7, 7, 7, 7, 7, 7, 7, 7, 7, 111, 100, 105, 103, 101, 115, 116, 65, 108, 103, 111, 114, 105,
    116, 104, 109, 103, 83, 72, 65, 45, 50, 53, 54]"

definition ex_md_payload :: bytes where
  "ex_md_payload =
    [216, 24, 88, 170] @ ex_md_mso"

definition ex_md_seal :: bytes where
  "ex_md_seal =
    [132, 106, 83, 105, 103, 110, 97, 116, 117, 114, 101, 49, 67, 161, 1, 39, 64, 88, 174] @ ex_md_payload"

definition ex_md_detached :: bytes where
  "ex_md_detached =
    [216, 24, 88, 29, 132, 116, 68, 101, 118, 105, 99, 101, 65, 117, 116, 104, 101, 110, 116, 105, 99, 97, 116, 105, 111,
    110, 128, 97, 100, 216, 24, 65, 160]"

definition ex_md_device_seal :: bytes where
  "ex_md_device_seal =
    [132, 106, 83, 105, 103, 110, 97, 116, 117, 114, 101, 49, 67, 161, 1, 39, 64, 88, 33] @ ex_md_detached"

definition ex_md_content_value :: cbor where
  "ex_md_content_value =
    CMap [(key ''digestID'', CInt 0), (key ''elementValue'', CInt 5), (key ''elementIdentifier'', CText (lit ''n''))]"

definition ex_md_mso_value :: cmap where
  "ex_md_mso_value =
    [(key ''docType'', CText (lit ''d'')), (key ''validityInfo'', CMap [(key ''signed'', CTag 0 (CText (lit ''t'')) (Some
    [192, 97, 116])), (key ''validFrom'', CTag 0 (CText (lit ''t'')) (Some [192, 97, 116])), (key ''validUntil'', CTag 0
    (CText (lit ''t'')) (Some [192, 97, 116]))]), (key ''valueDigests'', CMap [(key ''s'', CMap [(KInt 0, CBytes [])])]),
    (key ''deviceKeyInfo'', CMap [(key ''deviceKey'', CMap [(KInt 1, CInt 1), (KInt (- 1), CInt 6), (KInt (- 2), CBytes
    [7, 7, 7, 7, 7, 7, 7, 7, 7, 7, 7, 7, 7, 7, 7, 7, 7, 7, 7, 7, 7, 7, 7, 7, 7, 7, 7, 7, 7, 7, 7, 7])])]), (key
    ''digestAlgorithm'', CText (lit ''SHA-256''))]"

definition ex_md_issuer_signed :: cmap where
  "ex_md_issuer_signed =
    [(key ''issuerAuth'', CList [CBytes ex_protected, CMap [(KInt 33, CBytes [0])], CBytes ex_md_payload, CBytes
    ex_md_seal]), (key ''nameSpaces'', CMap [(key ''s'', CList [CTag 24 (CBytes ex_md_content) (Some ex_md_item)])])]"

definition ex_md_device_signed :: cmap where
  "ex_md_device_signed =
    [(key ''deviceAuth'', CMap [(key ''deviceSignature'', CList [CBytes ex_protected, CMap [], CNull, CBytes
    ex_md_device_seal])]), (key ''nameSpaces'', CTag 24 (CBytes [160]) (Some [216, 24, 65, 160]))]"

definition ex_md_document :: cmap where
  "ex_md_document = [(key ''docType'', CText (lit ''d'')), (key ''deviceSigned'', CMap ex_md_device_signed), (key ''issuerSigned'', CMap ex_md_issuer_signed)]"

definition ex_md_top :: cmap where
  "ex_md_top = [(key ''status'', CInt 0), (key ''documents'', CList [CMap ex_md_document])]"

definition ex_md_response :: bytes where
  "ex_md_response =
    [162, 102, 115, 116, 97, 116, 117, 115, 0, 105, 100, 111, 99, 117, 109, 101, 110, 116, 115, 129, 163, 103, 100, 111, 99, 84, 121,
    112, 101, 97, 100, 108, 100, 101, 118, 105, 99, 101, 83, 105, 103, 110, 101, 100, 162, 106, 100, 101, 118, 105, 99, 101, 65, 117,
    116, 104, 161, 111, 100, 101, 118, 105, 99, 101, 83, 105, 103, 110, 97, 116, 117, 114, 101, 132, 67, 161, 1, 39, 160, 246, 88, 52]
    @ ex_md_device_seal @ [106, 110, 97, 109, 101, 83, 112, 97, 99, 101, 115, 216, 24, 65, 160, 108, 105, 115, 115, 117, 101, 114, 83,
    105, 103, 110, 101, 100, 162, 106, 105, 115, 115, 117, 101, 114, 65, 117, 116, 104, 132, 67, 161, 1, 39, 161, 24, 33, 65, 0, 88,
    174] @ ex_md_payload @ [88, 193] @ ex_md_seal @ [106, 110, 97, 109, 101, 83, 112, 97, 99, 101, 115, 161, 97, 115, 129] @
    ex_md_item"

lemmas ex_md_bytes = ex_md_content_def ex_md_item_def ex_md_mso_def ex_md_payload_def ex_md_seal_def ex_md_detached_def
  ex_md_device_seal_def ex_protected_def

lemmas ex_encode = sorted_items_def encode_tstr_def encode_bstr_def encode_int_def head_then_def head_bytes_def lit_def
  utf8_encode_def utf8_cp_def Let_def

lemma decode_encoded: "encode v = Inr b \<Longrightarrow> plain v \<Longrightarrow> cdepth v \<le> 64 \<Longrightarrow> canon v = v \<Longrightarrow> decode b = Inr v"
  using decodes_plain [of v] by (auto simp: decodes_def decode_def CBOR_MAX_DEPTH_def dest!: spec [of _ b] spec [of _ 0])

lemma ex_md_content_decoded: "decode ex_md_content = Inr ex_md_content_value"
  by (rule decode_encoded) (simp_all add: ex_md_content_value_def ex_md_bytes ex_encode dict_ok_def key_bytes_def)

lemma ex_md_mso_decoded: "decode ex_md_mso = Inr (CMap ex_md_mso_value)"
  by (rule decode_encoded) (simp_all add: ex_md_mso_value_def ex_md_bytes ex_encode dict_ok_def key_bytes_def)

lemma ex_md_payload_decoded: "decode ex_md_payload = Inr (CTag 24 (CBytes ex_md_mso) (Some ex_md_payload))"
  by (rule decode_encoded) (simp_all add: ex_md_bytes ex_encode)

lemma ex_md_response_decoded: "decode ex_md_response = Inr (CMap ex_md_top)"
  by (rule decode_encoded) (simp_all add: ex_md_response_def ex_md_top_def ex_md_document_def ex_md_device_signed_def ex_md_issuer_signed_def
      ex_md_bytes ex_encode dict_ok_def key_bytes_def)

text \<open>The libraries of the example: any certificate chains, its key is the one of the device, and digests are empty.\<close>

definition ex_md_x509 :: x509 where
  "ex_md_x509 = \<lparr>x_load = (\<lambda>b. Some 0), x_path = (\<lambda>a t l i. True), x_san = (\<lambda>c. None), x_key = (\<lambda>c. EdKey (replicate 32 7)),
     x_eku = (\<lambda>c. Some [MDOC_DS_EKU_OID]), x_window = (\<lambda>c. (0, 2000000000))\<rparr>"

definition ex_md_env :: mdoc_env where
  "ex_md_env = \<lparr>me_crypto = toy_crypto\<lparr>digest_of := \<lambda>h b. []\<rparr>, me_x509 = ex_md_x509, me_clock = 1000000000,
     me_datetime = (\<lambda>t. Some 1000000000), me_date = (\<lambda>t. None), me_hmac = (\<lambda>k m. m)\<rparr>"

lemma ex_md_fields [simp]:
  "me_clock ex_md_env = 1000000000" "me_x509 ex_md_env = ex_md_x509" "me_datetime ex_md_env = (\<lambda>t. Some 1000000000)"
  "digest_of (me_crypto ex_md_env) = (\<lambda>h b. [])"
  by (simp_all add: ex_md_env_def)

lemma ex_md_protected: "parse_protected (CBytes ex_protected) = Inr (ex_protected, [(KInt 1, CInt (- 8))])"
  by (simp add: parse_protected_def bytes_opt_def need_def ex_protected_decoded map_opt_def reject_unhandled_crit_def HDR_CRIT_def)
     (simp add: ex_protected_def)

lemma ex_md_signature:
  "tbs (lit ''Signature1'') ex_protected [] p = Inr m \<Longrightarrow> effective_payload q d = Inr p \<Longrightarrow>
   verify_sign1 (me_crypto ex_md_env) \<lparr>cs_protected = ex_protected, cs_header = [(KInt 1, CInt (- 8))], cs_unprotected = u,
     cs_payload = q, cs_signature = m\<rparr> (okp_jwk (replicate 32 7)) d [] = Inr True"
  by (simp add: verify_sign1_def require_alg_def cget_def HDR_ALG_def int_opt_def need_def COSE_ALG_TO_JOSE_def
      verify_signature_def ED25519_ALG_NAMES_def okp_jwk_def jwk_bytes_simps toy_crypto_def ex_md_env_def)

lemma ex_md_seals:
  "tbs (lit ''Signature1'') ex_protected [] ex_md_payload = Inr ex_md_seal"
  "tbs (lit ''Signature1'') ex_protected [] ex_md_detached = Inr ex_md_device_seal"
  "device_payload [128] (lit ''d'') [216, 24, 65, 160] = Inr ex_md_detached"
  by (simp_all add: tbs_def device_payload_def TAG_ENCODED_CBOR_def ex_md_bytes ex_encode)

lemma ex_md_issuer_part:
  "\<exists>parts. verify_issuer_part ex_md_env [Some 0] PinNone (JInt 300) None (CMap ex_md_document) = Inr parts \<and>
     ip_doc_type parts = lit ''d'' \<and> ip_mso parts = ex_md_mso_value \<and> ip_namespaces parts = [(lit ''s'', [(lit ''n'', CInt 5)])]"
proof -
  let ?auth = "\<lparr>cs_protected = ex_protected, cs_header = [(KInt 1, CInt (- 8))], cs_unprotected = [(KInt 33, CBytes [0])],
     cs_payload = Some ex_md_payload, cs_signature = ex_md_seal\<rparr>"
  have d: "document_parts None (CMap ex_md_document) = Inr (lit ''d'', ex_md_issuer_signed)"
    by (simp add: document_parts_def ex_md_document_def map_opt_def need_def text_of_cbor_def cget_def)
  have a: "parse_sign1 (cget (key ''issuerAuth'') ex_md_issuer_signed) = Inr ?auth"
    by (simp add: ex_md_issuer_signed_def cget_def parse_sign1_def parse_parts_def unwrap_cose_def ex_md_protected need_def list_opt_def
        map_opt_def payload_opt_def bytes_opt_def)
  have x: "x5chain_ders ?auth = Inr [[0]]" by (simp add: x5chain_ders_def HDR_X5CHAIN_def)
  have w: "utc_window 1000000000 (Mdoc MdocError) PinNone (JInt 300) = Inr (1000000000, 300000000)"
    by (simp add: utc_window_def leeway_seconds_def MAX_LEEWAY_S_def)
  have k: "resolve_mdoc_signer_key ex_md_x509 1000000000 (CList [CBytes [0]]) [Some 0] (PinAware 1000000000 0) = Inr (okp_jwk (replicate 32 7))"
    by (simp add: resolve_mdoc_signer_key_def load_der_chain_def load_der_entry_def ex_md_x509_def validate_cert_chain_def
        in_datetime_range_def require_mdoc_ds_eku_def leaf_public_jwk_def)
  have v: "verify_sign1 (me_crypto ex_md_env) ?auth (okp_jwk (replicate 32 7)) None [] = Inr True"
    by (rule ex_md_signature [OF ex_md_seals(1)]) (simp add: effective_payload_def)
  have m: "decode_mso ex_md_payload = Inr ex_md_mso_value"
    by (simp add: decode_mso_def ex_md_payload_decoded ex_md_mso_decoded TAG_ENCODED_CBOR_def bytes_opt_def need_def map_opt_def)
  have s: "open_seal ex_md_env [Some 0] PinNone (JInt 300) ex_md_issuer_signed =
      Inr (CList [CBytes [0]], 1000000000, 300000000, okp_jwk (replicate 32 7), ex_md_mso_value)"
    by (simp add: open_seal_def a x w k v m need_def)
  have c: "check_validity ex_md_env ex_md_mso_value 1000000000 300000000 =
      Inr \<lparr>mv_signed = 1000000000, mv_valid_from = 1000000000, mv_valid_until = 1000000000\<rparr>"
    by (simp add: check_validity_def ex_md_mso_value_def cget_def need_def map_opt_def parse_date_def parse_rfc3339_def TAG_DATE_TIME_def
        text_of_cbor_def)
  have ds: "check_mdoc_signed_within_ds_validity ex_md_x509 (CList [CBytes [0]]) 1000000000 = Inr ()"
    by (simp add: check_mdoc_signed_within_ds_validity_def load_der_chain_def load_der_entry_def ex_md_x509_def)
  have it: "verify_item (\<lambda>b. []) [(KInt 0, CBytes [])] (CTag 24 (CBytes ex_md_content) (Some ex_md_item)) = Inr (lit ''n'', CInt 5)"
    by (simp add: verify_item_def embedded_item_def bytes_opt_def TAG_ENCODED_CBOR_def need_def ex_md_content_decoded)
       (simp add: ex_md_content_value_def map_opt_def cget_def int_opt_def text_of_cbor_def bytes_opt_def need_def)
  have n: "verify_value_digests (\<lambda>b. []) ex_md_issuer_signed ex_md_mso_value = Inr [(lit ''s'', [(lit ''n'', CInt 5)])]"
    by (simp add: verify_value_digests_def ex_md_mso_value_def ex_md_issuer_signed_def cget_def need_def map_opt_def list_opt_def
        verify_namespace_def it)
  have al: "(case text_of_cbor (cget (key ''digestAlgorithm'') ex_md_mso_value) of None \<Rightarrow> None | Some a \<Rightarrow> map_of DIGEST_ALGS a) = Some (lit ''sha256'')"
    "cget (key ''docType'') ex_md_mso_value = CText (lit ''d'')"
    by (simp_all add: ex_md_mso_value_def cget_def text_of_cbor_def DIGEST_ALGS_def)
  show ?thesis by (simp add: verify_issuer_part_def d s al c ds n need_def)
qed

lemma ex_md_device:
  assumes "ip_doc_type parts = lit ''d''" "ip_mso parts = ex_md_mso_value"
  shows "verify_device_auth ex_md_env [128] None parts ex_md_document = Inr ()"
proof -
  let ?s = "\<lparr>cs_protected = ex_protected, cs_header = [(KInt 1, CInt (- 8))], cs_unprotected = [], cs_payload = None, cs_signature = ex_md_device_seal\<rparr>"
  have p: "parse_sign1 (CList [CBytes ex_protected, CMap [], CNull, CBytes ex_md_device_seal]) = Inr ?s"
    by (simp add: parse_sign1_def parse_parts_def unwrap_cose_def ex_md_protected need_def list_opt_def map_opt_def payload_opt_def bytes_opt_def)
  have v: "verify_sign1 (me_crypto ex_md_env) ?s (okp_jwk (replicate 32 7)) (Some ex_md_detached) [] = Inr True"
    by (rule ex_md_signature [OF ex_md_seals(2)]) (simp add: effective_payload_def need_def)
  have k: "\<exists>info. cget (key ''deviceKeyInfo'') ex_md_mso_value = CMap info \<and>
      cose_key_to_jwk (cget (key ''deviceKey'') info) = Inr (okp_jwk (replicate 32 7))"
    by (simp add: ex_md_mso_value_def cget_def cose_key_to_jwk_def need_def map_opt_def eq_int_def okp_cose_key_def bytes_opt_def okp_jwk_def
        numeral_eq_Suc)
  have g: "cget (key ''deviceSigned'') ex_md_document = CMap ex_md_device_signed" by (simp add: ex_md_document_def cget_def)
  show ?thesis
    using k by (auto simp: verify_device_auth_def g assms ex_md_seals(3) need_def map_opt_def)
      (simp_all add: ex_md_device_signed_def cget_def TAG_ENCODED_CBOR_def ex_md_seals(3) device_signature_ok_def need_def p v)
qed

lemma ex_md_accepted:
  "\<exists>r. verify_device_response ex_md_env [Some 0] [128] PinNone (JInt 300) None None ex_md_response = Inr [r] \<and>
     md_namespaces r = [(lit ''s'', [(lit ''n'', CInt 5)])]"
proof -
  have "parse_response ex_md_response = Inr [CMap ex_md_document]"
    by (simp add: parse_response_def ex_md_response_decoded need_def map_opt_def ex_md_top_def cget_def int_opt_def list_opt_def)
  moreover have "leeway_seconds (Mdoc MdocError) (JInt 300) = Inr 300" by (simp add: leeway_seconds_def MAX_LEEWAY_S_def)
  ultimately show ?thesis
    using ex_md_issuer_part ex_md_device by (auto simp: verify_device_response_def verify_document_def map_opt_def verified_of_def)
qed

lemma document_Inr:
  assumes "verify_document E anchors st now leeway_s expected mk document = Inr r"
  shows "\<exists>d mso. document = CMap d \<and> issuer_checked E anchors now leeway_s d mso r \<and> device_bound E st mk (md_doc_type r) mso d \<and>
     md_device_signed r \<and> (expected = None \<or> expected = Some (md_doc_type r))"
proof -
  obtain parts where q: "verify_issuer_part E anchors now leeway_s expected document = Inr parts"
    "verify_device_auth E st mk parts (case map_opt document of Some d \<Rightarrow> d | None \<Rightarrow> []) = Inr ()" "r = verified_of True parts"
    using assms by (auto simp: verify_document_def bindR_Inr)
  obtain d where d: "document = CMap d" "issuer_checked E anchors now leeway_s d (ip_mso parts) r"
    "expected = None \<or> expected = Some (ip_doc_type parts)"
    using issuer_part_Inr [OF q(1), of True] q(3) by blast
  have "device_bound E st mk (md_doc_type r) (ip_mso parts) d"
    using device_auth_Inr [OF q(2)] d(1) q(3) by (simp add: map_opt_def verified_of_def)
  with d q(3) show ?thesis by (auto simp: verified_of_def)
qed

section \<open>Properties\<close>





end
