(* ===== verification/Oid4vp.thy ===== *)
theory Oid4vp
  imports Dcql Vp_Jwt Mdoc
begin

text \<open>
  openvc/openid4vp.py, the response side: each presentation of a \<open>vp_token\<close> is routed by the format of its query to the suite
  that verifies it and binds it to the nonce and the audience of the request. \<open>oid_env\<close> is what the module calls: the
  pipeline with the bundled contexts and with the caller's \<open>extra_contexts\<close>, the mdoc verifier, and pyld (installed or not,
  and its expansion, where \<open>DocumentLoaderError\<close> is a loader refusal found on the chain of causes).
\<close>

section \<open>The request and the results\<close>

record oid_env =
  oe_plain :: venv
  oe_extra :: venv
  oe_mdoc :: mdoc_env
  oe_pyld :: bool
  oe_expand :: "jobj \<Rightarrow> json result"

record vp_call =
  ca_nonce :: str
  ca_client_id :: "str option"
  ca_origins :: "json option"
  ca_anchors :: "nat option list option"
  ca_thumbprint :: "bytes option"
  ca_now :: clock_pin
  ca_leeway :: json
  ca_holder_binding :: bool
  ca_require_status :: bool
  ca_kb_max_age :: json

text \<open>\<open>credentials\<close> and \<open>raw\<close> of a \<open>VerifiedPresentation\<close>, by lane.\<close>

datatype answer =
    MdocAnswer "verified_mdoc list"
  | SdJwtAnswer verification_result
  | VpAnswer verified_presentation
  | LdpAnswer verified_di "verification_result list"
  | BareAnswer verification_result

record verified_answer =
  va_query :: str
  va_format :: str
  va_holder :: json
  va_answer :: answer

definition for_query :: "verified_answer list \<Rightarrow> str \<Rightarrow> verified_answer list" where
  "for_query presentations query_id = filter (\<lambda>p. va_query p = query_id) presentations"

section \<open>The audience\<close>

definition origin_ok :: "json \<Rightarrow> bool" where
  "origin_ok v = (case v of JStr s \<Rightarrow> s \<noteq> [] \<and> s = strip s | _ \<Rightarrow> False)"

definition dc_api_accepted_auds :: "str option \<Rightarrow> json option \<Rightarrow> str list option result" where
  "dc_api_accepted_auds client_id expected_origins =
     (if (client_id = None) = (expected_origins = None) then Inl ClaimsInvalid
      else case expected_origins of
             Some v \<Rightarrow>
               (case v of
                  JList os \<Rightarrow>
                    (if os = [] \<or> \<not> list_all origin_ok os then Inl ClaimsInvalid
                     else Inr (Some (map (\<lambda>s. lit ''origin:'' @ s) (jstrs os))))
                | _ \<Rightarrow> Inl ClaimsInvalid)
           | None \<Rightarrow> if client_id = Some [] then Inl ClaimsInvalid else Inr None)"

definition b64url_json :: "jose \<Rightarrow> str \<Rightarrow> jobj result" where
  "b64url_json J segment =
     bindR (bindR (b64url_decode segment) (loads (jo_loads J))) (\<lambda>v. Inr (case v of JObj d \<Rightarrow> d | _ \<Rightarrow> []))"

definition segment_claim :: "jose \<Rightarrow> str \<Rightarrow> json result" where
  "segment_claim J token =
     (case split_on 46 token of
        h # p # r \<Rightarrow> bindR (b64url_json J p) (\<lambda>d. Inr (jget (lit ''aud'') d))
      | _ \<Rightarrow> Inr JNull)"

text \<open>What the presentation claims to be addressed to, before anything is verified; an index or value error is \<open>None\<close>.\<close>

definition peek_audience :: "jose \<Rightarrow> str \<Rightarrow> json \<Rightarrow> json result" where
  "peek_audience J fmt presentation =
     (let peeked =
        (case presentation of
           JStr s \<Rightarrow>
             (if fmt = DCQL_SD_JWT_VC
              then let kb = last (split_on 126 s) in if kb = [] then Inr JNull else segment_claim J kb
              else if fmt = DCQL_JWT_VC then segment_claim J s
              else Inr JNull)
         | JObj d \<Rightarrow>
             (if fmt = DCQL_LDP_VC
              then let p = (case jget (lit ''proof'') d of JList (x # xs) \<Rightarrow> x | v \<Rightarrow> v)
                   in Inr (case p of JObj proof \<Rightarrow> jget (lit ''domain'') proof | _ \<Rightarrow> JNull)
              else Inr JNull)
         | _ \<Rightarrow> Inr JNull)
      in case peeked of
           Inr v \<Rightarrow> Inr v
         | Inl e \<Rightarrow> if is_value_error e \<or> e = PyKeyError \<or> e = PyTypeError then Inr JNull else Inl e)"

text \<open>One of the two is given: \<open>dc_api_accepted_auds\<close> refuses the call otherwise.\<close>

definition effective_audience :: "jose \<Rightarrow> str \<Rightarrow> json \<Rightarrow> str option \<Rightarrow> str list option \<Rightarrow> str result" where
  "effective_audience J fmt presentation client_id accepted_auds =
     (case client_id of
        Some c \<Rightarrow> Inr c
      | None \<Rightarrow>
          bindR (peek_audience J fmt presentation) (\<lambda>aud.
            case List.find (\<lambda>c. case c of JStr s \<Rightarrow> s \<in> set (case accepted_auds of None \<Rightarrow> [] | Some a \<Rightarrow> a) | _ \<Rightarrow> False)
                   (case aud of JList xs \<Rightarrow> xs | v \<Rightarrow> [v]) of
              Some (JStr s) \<Rightarrow> Inr s
            | _ \<Rightarrow> Inl ClaimsInvalid))"

section \<open>The mdoc lane\<close>

definition dcapi_session_transcript :: "crypto \<Rightarrow> str \<Rightarrow> str \<Rightarrow> bytes option \<Rightarrow> bytes result" where
  "dcapi_session_transcript cr origin nonce thumbprint =
     bindR (encode (CList [CText origin, CText nonce, case thumbprint of None \<Rightarrow> CNull | Some t \<Rightarrow> CBytes t])) (\<lambda>info.
       encode (CList [CNull, CNull, CList [CText (lit ''OpenID4VPDCAPIHandover''), CBytes (digest_of cr (lit ''sha256'') info)]]))"

text \<open>The loop over the origins: only a failed device authentication tries the next one. The origins are not empty.\<close>

fun first_bound :: "(str \<Rightarrow> 'a result) \<Rightarrow> exc \<Rightarrow> str list \<Rightarrow> 'a result" where
  "first_bound attempt last_error [] = Inl last_error"
| "first_bound attempt last_error (origin # origins) =
     (case attempt origin of
        Inr r \<Rightarrow> Inr r
      | Inl e \<Rightarrow> if e = Mdoc MdocDeviceAuthError then first_bound attempt e origins else Inl e)"

definition verify_mso_mdoc :: "oid_env \<Rightarrow> vp_call \<Rightarrow> str \<Rightarrow> jobj \<Rightarrow> json \<Rightarrow> verified_answer result" where
  "verify_mso_mdoc E call query_id query presentation =
     (case ca_origins call of
        None \<Rightarrow> Inl (Oid4 UnsupportedPresentationFormat)
      | Some origins \<Rightarrow>
     (case ca_anchors call of
        None \<Rightarrow> Inl ClaimsInvalid
      | Some anchors \<Rightarrow>
     (case text_opt presentation of
        None \<Rightarrow> Inl vp_malformed
      | Some text \<Rightarrow>
          bindR (mdoc_doctype_value query) (\<lambda>expected_doc_type.
          bindR (catchR (\<lambda>e. is_value_error e \<or> e = PyTypeError) vp_malformed (b64url_decode text)) (\<lambda>device_response.
          bindR (first_bound (\<lambda>origin.
                   bindR (dcapi_session_transcript (me_crypto (oe_mdoc E)) origin (ca_nonce call) (ca_thumbprint call)) (\<lambda>transcript.
                     verify_device_response (oe_mdoc E) anchors transcript (ca_now call) (ca_leeway call) expected_doc_type None device_response))
                   (Mdoc MdocDeviceAuthError) (case origins of JList os \<Rightarrow> jstrs os | _ \<Rightarrow> [])) (\<lambda>documents.
            Inr \<lparr>va_query = query_id, va_format = DCQL_MSO_MDOC, va_holder = JNull, va_answer = MdocAnswer documents\<rparr>))))))"

section \<open>The SD-JWT VC lane\<close>

definition call_policy :: "vp_call \<Rightarrow> vpolicy" where
  "call_policy call =
     default_policy\<lparr>vp_require_status := ca_require_status call, vp_now := ca_now call, vp_leeway := ca_leeway call,
       vp_kb_max_age := ca_kb_max_age call\<rparr>"

definition check_vct :: "str list option \<Rightarrow> str option \<Rightarrow> unit result" where
  "check_vct vcts vct =
     (case vcts of
        None \<Rightarrow> Inr ()
      | Some vs \<Rightarrow> (case vct of Some v \<Rightarrow> if v \<in> set vs then Inr () else Inl ClaimsInvalid | None \<Rightarrow> Inl ClaimsInvalid))"

definition verify_sd_jwt_vc ::
    "oid_env \<Rightarrow> resolvers \<Rightarrow> vp_call \<Rightarrow> str \<Rightarrow> str list option \<Rightarrow> bool \<Rightarrow> str \<Rightarrow> json \<Rightarrow> verified_answer result" where
  "verify_sd_jwt_vc E R call query_id vcts require_binding aud presentation =
     (case text_opt presentation of
        None \<Rightarrow> Inl vp_malformed
      | Some text \<Rightarrow>
          if 126 \<notin> set text then Inl vp_malformed
          else
          bindR (new_policy ((call_policy call)\<lparr>vp_audience := JStr aud, vp_nonce := JStr (ca_nonce call), vp_require_kb := require_binding\<rparr>)) (\<lambda>policy.
          bindR (verify_credential (oe_plain E) R policy None (JStr text)) (\<lambda>result.
            if res_format result \<noteq> FORMAT_SD_JWT_VC then Inl vp_malformed
            else if (case res_raw result of None \<Rightarrow> None | Some v \<Rightarrow> sd_typ v) \<noteq> Some DCQL_SD_JWT_VC then Inl vp_malformed
            else bindR (check_vct vcts (case res_raw result of None \<Rightarrow> None | Some v \<Rightarrow> sd_vct v)) (\<lambda>_.
              Inr \<lparr>va_query = query_id, va_format = DCQL_SD_JWT_VC, va_holder = res_subject result, va_answer = SdJwtAnswer result\<rparr>))))"

section \<open>The types of a W3C credential\<close>

definition RELATIVE_BASE :: str where "RELATIVE_BASE = lit ''https://openvc.invalid/relative/''"

definition expandable_formats :: "str list" where
  "expandable_formats = [FORMAT_VC_JWT, FORMAT_DI_EDDSA_JCS, FORMAT_DI_ECDSA_JCS, FORMAT_DI_EDDSA, FORMAT_DI_ECDSA_RDFC, FORMAT_DI_ECDSA_SD]"

text \<open>A type as expansion gives it, mapped back to what was written when no context defines it.\<close>

definition resolved_type :: "json \<Rightarrow> json \<Rightarrow> str option" where
  "resolved_type written value =
     (case text_opt value of
        None \<Rightarrow> None
      | Some v \<Rightarrow>
          if starts_with RELATIVE_BASE v
          then (let t = drop (length RELATIVE_BASE) v
                in if (case written of JList ws \<Rightarrow> JStr t \<in> set ws | JStr w \<Rightarrow> t = w | _ \<Rightarrow> False) then Some t else None)
          else if starts_with (lit ''https://openvc.invalid/'') v then None
          else Some v)"

definition node_types :: "json \<Rightarrow> json \<Rightarrow> str list" where
  "node_types written node =
     (let values = (case node of JObj n \<Rightarrow> jget (lit ''@type'') n | _ \<Rightarrow> JNull)
      in List.map_filter (resolved_type written) (case values of JList vs \<Rightarrow> vs | v \<Rightarrow> [v]))"

definition expanded_types :: "oid_env \<Rightarrow> verification_result \<Rightarrow> str list result" where
  "expanded_types E result =
     (if res_format result \<notin> set expandable_formats then Inr []
      else
       (let document = List.map_filter (\<lambda>k. map_option (Pair k) (map_of (res_credential result) k)) [lit ''@context'', lit ''type'']
        in bindR (catchR (\<lambda>e. e \<noteq> DocumentLoaderError) ClaimsInvalid (oe_expand E document)) (\<lambda>expanded.
             Inr (concat (map (node_types (jget (lit ''type'') document)) (case expanded of JList nodes \<Rightarrow> nodes | _ \<Rightarrow> []))))))"

definition check_one_type :: "oid_env \<Rightarrow> str list list \<Rightarrow> verification_result \<Rightarrow> unit result" where
  "check_one_type E type_alts result =
     bindR (expanded_types E result) (\<lambda>expanded.
       if list_ex (list_all (\<lambda>t. t \<in> set expanded)) type_alts then Inr () else Inl ClaimsInvalid)"

definition check_type_values :: "oid_env \<Rightarrow> str list list option \<Rightarrow> verification_result list \<Rightarrow> unit result" where
  "check_type_values E type_alts credentials =
     (case type_alts of
        None \<Rightarrow> Inr ()
      | Some alts \<Rightarrow> bindR (mapR (check_one_type E alts) credentials) (\<lambda>_. Inr ()))"

section \<open>Holder binding\<close>

definition bound_to_holder :: "str option \<Rightarrow> verification_result \<Rightarrow> unit result" where
  "bound_to_holder holder result =
     (if res_format result = FORMAT_SD_JWT_VC
      then (if res_key_bound result = Some True then Inr () else Inl ClaimsInvalid)
      else if (case jget (lit ''credentialSubject'') (res_credential result) of JList xs \<Rightarrow> True | _ \<Rightarrow> False) then Inl ClaimsInvalid
      else case holder of
             None \<Rightarrow> Inl ClaimsInvalid
           | Some h \<Rightarrow> if h = [] \<or> \<not> truthy (res_subject result) \<or> res_subject result \<noteq> JStr h then Inl ClaimsInvalid else Inr ())"

definition check_holder_bound :: "verification_result list \<Rightarrow> str option \<Rightarrow> unit result" where
  "check_holder_bound credentials holder = bindR (mapR (bound_to_holder holder) credentials) (\<lambda>_. Inr ())"

section \<open>The VP-JWT lane\<close>

definition verify_jwt_vp ::
    "oid_env \<Rightarrow> resolvers \<Rightarrow> vp_call \<Rightarrow> str \<Rightarrow> str list list option \<Rightarrow> bool \<Rightarrow> str \<Rightarrow> json \<Rightarrow> verified_answer result" where
  "verify_jwt_vp E R call query_id type_alts require_binding aud presentation =
     (case text_opt presentation of
        None \<Rightarrow> Inl vp_malformed
      | Some text \<Rightarrow>
          bindR (new_policy ((call_policy call)\<lparr>vp_require_kb := require_binding\<rparr>)) (\<lambda>policy.
          bindR (new_vp_suite (ca_leeway call)) (\<lambda>leeway.
          bindR (vp_verify (oe_plain E) R policy leeway
                   \<lparr>vq_audience = aud, vq_nonce = ca_nonce call, vq_key = None, vq_expected_holder = None, vq_holder_binding = ca_holder_binding call\<rparr>
                   text) (\<lambda>verified.
            if pv_credentials verified = [] then Inl vp_malformed
            else
          bindR (if require_binding then check_holder_bound (pv_credentials verified) (Some (pv_holder verified)) else Inr ()) (\<lambda>_.
          bindR (check_type_values E type_alts (pv_credentials verified)) (\<lambda>_.
            Inr \<lparr>va_query = query_id, va_format = DCQL_JWT_VC, va_holder = JStr (pv_holder verified), va_answer = VpAnswer verified\<rparr>))))))"

section \<open>The Data Integrity lane\<close>

definition LDP_VP_CRYPTOSUITES :: "str list" where
  "LDP_VP_CRYPTOSUITES = [lit ''eddsa-rdfc-2022'', lit ''eddsa-jcs-2022'', lit ''ecdsa-rdfc-2019'', lit ''ecdsa-jcs-2019'']"

definition oid_type_list :: "jobj \<Rightarrow> json list" where
  "oid_type_list d = (case jget (lit ''type'') d of JStr t \<Rightarrow> [JStr t] | JList xs \<Rightarrow> xs | _ \<Rightarrow> [])"

text \<open>The suite of a cryptosuite, by the name \<open>di_suite_verify\<close> knows it.\<close>

definition di_suite_for :: "str \<Rightarrow> str" where
  "di_suite_for cryptosuite =
     (if cryptosuite = lit ''eddsa-rdfc-2022'' then FORMAT_DI_EDDSA
      else if cryptosuite = lit ''eddsa-jcs-2022'' then FORMAT_DI_EDDSA_JCS
      else if cryptosuite = lit ''ecdsa-jcs-2019'' then FORMAT_DI_ECDSA_JCS
      else FORMAT_DI_ECDSA_RDFC)"

definition vp_holder :: "jobj \<Rightarrow> jobj \<Rightarrow> str option result" where
  "vp_holder presentation proof =
     (let authenticated = map_option before_hash (text_opt (jget (lit ''verificationMethod'') proof));
          claimed = (case jget (lit ''holder'') presentation of JObj d \<Rightarrow> jget (lit ''id'') d | v \<Rightarrow> v)
      in if (case (claimed, authenticated) of (JStr c, Some a) \<Rightarrow> c \<noteq> [] \<and> a \<noteq> [] \<and> c \<noteq> a | _ \<Rightarrow> False) then Inl ClaimsInvalid
         else Inr authenticated)"

definition embedded_vcs :: "jobj \<Rightarrow> json list result" where
  "embedded_vcs presentation =
     (let vcs = (case jget (lit ''verifiableCredential'') presentation of JList xs \<Rightarrow> xs | JNull \<Rightarrow> [] | v \<Rightarrow> [v])
      in if vcs = [] then Inl vp_malformed
         else if \<not> list_all (\<lambda>v. is_jstr v \<or> is_jobj v) vcs then Inl vp_malformed
         else Inr vcs)"

definition ldp_shape_checks :: "json \<Rightarrow> (jobj \<times> str) result" where
  "ldp_shape_checks presentation =
     bindR (as_object vp_malformed presentation) (\<lambda>d.
       if JStr (lit ''VerifiablePresentation'') \<notin> set (oid_type_list d) then Inl vp_malformed
       else case jget (lit ''proof'') d of
              JList xs \<Rightarrow> Inl (Oid4 UnsupportedPresentationFormat)
            | JObj proof \<Rightarrow>
                (case text_opt (jget (lit ''cryptosuite'') proof) of
                   None \<Rightarrow> Inl (Oid4 UnsupportedPresentationFormat)
                 | Some c \<Rightarrow> if c \<in> set LDP_VP_CRYPTOSUITES then Inr (d, c) else Inl (Oid4 UnsupportedPresentationFormat))
            | _ \<Rightarrow> Inl vp_malformed)"

definition verify_ldp_vp ::
    "oid_env \<Rightarrow> resolvers \<Rightarrow> vp_call \<Rightarrow> str \<Rightarrow> str list list option \<Rightarrow> bool \<Rightarrow> str \<Rightarrow> json \<Rightarrow> verified_answer result" where
  "verify_ldp_vp E R call query_id type_alts require_binding aud presentation =
     bindR (ldp_shape_checks presentation) (\<lambda>(d, cryptosuite).
     bindR (di_suite_verify (oe_extra E) (di_suite_for cryptosuite) (ca_leeway call) (Some (r_did R))
              \<lparr>dp_key = [], dp_purpose = Some (lit ''authentication''), dp_challenge = Some (ca_nonce call), dp_domain = Some aud,
               dp_now = ca_now call, dp_temporal = True\<rparr> d) (\<lambda>verified_vp.
     bindR (vp_holder d (di_proof verified_vp)) (\<lambda>holder.
     bindR (new_policy ((call_policy call)\<lparr>vp_require_kb := require_binding\<rparr>)) (\<lambda>policy.
     bindR (embedded_vcs d) (\<lambda>vcs.
     bindR (mapR (verify_credential (oe_extra E) R policy (Some (JStr aud, JStr (ca_nonce call)))) vcs) (\<lambda>credentials.
     bindR (if require_binding then check_holder_bound credentials holder else Inr ()) (\<lambda>_.
       if ca_holder_binding call \<and> \<not> list_all (\<lambda>r. truthy (res_subject r) \<and> Some (res_subject r) = map_option JStr holder) credentials
       then Inl ClaimsInvalid
       else
     bindR (check_type_values E type_alts credentials) (\<lambda>_.
       Inr \<lparr>va_query = query_id, va_format = DCQL_LDP_VC, va_holder = opt_json holder, va_answer = LdpAnswer verified_vp credentials\<rparr>))))))))"

section \<open>A bare credential\<close>

datatype shape = ShapeVp | ShapeVc

definition jwt_typ_kind :: "jobj \<Rightarrow> shape option" where
  "jwt_typ_kind header =
     (case text_opt (jget (lit ''typ'') header) of
        None \<Rightarrow> None
      | Some typ \<Rightarrow>
          (let media = lower typ;
               media = (if starts_with (lit ''application/'') media then drop (length (lit ''application/'')) media else media)
           in map_of [(lit ''vc+jwt'', ShapeVc), (lit ''vp+jwt'', ShapeVp)] media))"

definition peek_jws :: "jose \<Rightarrow> json \<Rightarrow> (jobj \<times> jobj) option result" where
  "peek_jws J value =
     (case text_opt value of
        None \<Rightarrow> Inr None
      | Some text \<Rightarrow>
          if 126 \<in> set text then Inr None
          else case split_on 46 text of
                 [h, p, s] \<Rightarrow>
                   (case bindR (bindR (b64url_decode h) (loads (jo_loads J))) (\<lambda>header.
                         bindR (bindR (b64url_decode p) (loads (jo_loads J))) (\<lambda>payload. Inr (header, payload))) of
                      Inr (header, payload) \<Rightarrow> Inr (both_objects header payload)
                    | Inl e \<Rightarrow> if is_value_error e \<or> e = PyTypeError then Inr None else Inl e)
               | _ \<Rightarrow> Inr None)"

definition jwt_shape :: "jose \<Rightarrow> json \<Rightarrow> shape result" where
  "jwt_shape J presentation =
     bindR (peek_jws J presentation) (\<lambda>peeked.
       case peeked of
         None \<Rightarrow> Inr ShapeVp
       | Some (header, payload) \<Rightarrow>
           (let has_vp = has_key (lit ''vp'') payload; has_vc = has_key (lit ''vc'') payload
            in if has_vp \<and> has_vc then Inl vp_malformed
               else if \<not> has_vp \<and> \<not> is_jobj (jget (lit ''vc'') payload) then Inr ShapeVp
               else let shape = (if has_vp then ShapeVp else ShapeVc)
                    in if jwt_typ_kind header \<noteq> None \<and> jwt_typ_kind header \<noteq> Some shape then Inl vp_malformed else Inr shape))"

definition ldp_shape :: "json \<Rightarrow> shape result" where
  "ldp_shape presentation =
     (case presentation of
        JObj d \<Rightarrow>
          (let types = set (oid_type_list d); is_vp = JStr (lit ''VerifiablePresentation'') \<in> types;
               is_vc = JStr (lit ''VerifiableCredential'') \<in> types
           in if is_vp \<and> is_vc then Inl vp_malformed
              else if is_vp then Inr ShapeVp
              else if JStr (lit ''EnvelopedVerifiableCredential'') \<in> types then Inl vp_malformed
              else Inr (if is_vc then ShapeVc else ShapeVp))
      | _ \<Rightarrow> Inr ShapeVp)"

definition w3c_shape :: "jose \<Rightarrow> str \<Rightarrow> json \<Rightarrow> shape result" where
  "w3c_shape J fmt presentation = (if fmt = DCQL_JWT_VC then jwt_shape J presentation else ldp_shape presentation)"

definition check_bare_format :: "str \<Rightarrow> verification_result \<Rightarrow> unit result" where
  "check_bare_format fmt result =
     (let expected = (if fmt = DCQL_JWT_VC then [FORMAT_VC_JWT]
                      else [FORMAT_DI_EDDSA, FORMAT_DI_EDDSA_JCS, FORMAT_DI_ECDSA_RDFC, FORMAT_DI_ECDSA_JCS, FORMAT_DI_ECDSA_SD])
      in if res_format result \<in> set expected then Inr () else Inl vp_malformed)"

definition verify_bare_w3c_vc ::
    "oid_env \<Rightarrow> resolvers \<Rightarrow> vp_call \<Rightarrow> str \<Rightarrow> str list list option \<Rightarrow> str \<Rightarrow> json \<Rightarrow> verified_answer result" where
  "verify_bare_w3c_vc E R call query_id type_alts fmt presentation =
     (if ca_holder_binding call then Inl ClaimsInvalid
      else
     bindR (new_policy (call_policy call)) (\<lambda>policy.
     bindR (verify_credential (oe_extra E) R policy None presentation) (\<lambda>result.
     bindR (check_bare_format fmt result) (\<lambda>_.
     bindR (check_type_values E type_alts [result]) (\<lambda>_.
       Inr \<lparr>va_query = query_id, va_format = fmt, va_holder = JNull, va_answer = BareAnswer result\<rparr>)))))"

section \<open>The response\<close>

definition require_pyld :: "oid_env \<Rightarrow> unit result" where
  "require_pyld E = (if oe_pyld E then Inr () else Inl (Oid4 OpenID4VPError))"

definition holder_flag :: "jobj \<Rightarrow> bool" where
  "holder_flag query = truthy (get_or (lit ''require_cryptographic_holder_binding'') (JBool True) query)"

definition w3c_constraint :: "oid_env \<Rightarrow> str \<Rightarrow> jobj \<Rightarrow> str list list option result" where
  "w3c_constraint E fmt query =
     (if fmt = DCQL_JWT_VC \<or> fmt = DCQL_LDP_VC
      then bindR (type_values query) (\<lambda>alts. bindR (if alts = None then Inr () else require_pyld E) (\<lambda>_. Inr alts))
      else Inr None)"

text \<open>The lanes of a verifiable presentation, which carry the request's audience and nonce.\<close>

definition verify_bound ::
    "oid_env \<Rightarrow> resolvers \<Rightarrow> vp_call \<Rightarrow> str list option \<Rightarrow> str \<Rightarrow> str \<Rightarrow> str list option \<Rightarrow> str list list option \<Rightarrow> bool \<Rightarrow> json \<Rightarrow> verified_answer result" where
  "verify_bound E R call accepted_auds query_id fmt vcts type_alts require_binding presentation =
     bindR (effective_audience (v_jose (oe_plain E)) fmt presentation (ca_client_id call) accepted_auds) (\<lambda>aud.
       if fmt = DCQL_SD_JWT_VC then verify_sd_jwt_vc E R call query_id vcts require_binding aud presentation
       else if fmt = DCQL_JWT_VC then verify_jwt_vp E R call query_id type_alts require_binding aud presentation
       else if fmt = DCQL_LDP_VC then verify_ldp_vp E R call query_id type_alts require_binding aud presentation
       else Inl (Oid4 UnsupportedPresentationFormat))"

definition verify_one ::
    "oid_env \<Rightarrow> resolvers \<Rightarrow> vp_call \<Rightarrow> str list option \<Rightarrow> str \<Rightarrow> jobj \<Rightarrow> json \<Rightarrow> verified_answer result" where
  "verify_one E R call accepted_auds query_id query presentation =
     (let fmt = did_text (jget (lit ''format'') query)
      in if fmt = DCQL_MSO_MDOC then verify_mso_mdoc E call query_id query presentation
         else
     bindR (w3c_constraint E fmt query) (\<lambda>type_alts.
     bindR (if fmt = DCQL_SD_JWT_VC then vct_values query else Inr None) (\<lambda>vcts.
     bindR (if fmt = DCQL_JWT_VC \<or> fmt = DCQL_LDP_VC then w3c_shape (v_jose (oe_plain E)) fmt presentation else Inr ShapeVp) (\<lambda>shape.
       if shape = ShapeVc
       then (if holder_flag query then Inl vp_malformed
             else verify_bare_w3c_vc E R call query_id type_alts fmt presentation)
       else verify_bound E R call accepted_auds query_id fmt vcts type_alts (holder_flag query) presentation))))"

definition verify_answers ::
    "oid_env \<Rightarrow> resolvers \<Rightarrow> vp_call \<Rightarrow> str list option \<Rightarrow> queries \<Rightarrow> str \<times> json \<Rightarrow> verified_answer list result" where
  "verify_answers E R call accepted_auds queries entry =
     (case map_of queries (fst entry) of
        None \<Rightarrow> Inl vp_malformed
      | Some query \<Rightarrow>
          bindR (presentation_list query (snd entry)) (mapR (verify_one E R call accepted_auds (fst entry) query)))"

definition verify_vp_token ::
    "oid_env \<Rightarrow> resolvers \<Rightarrow> vp_call \<Rightarrow> json \<Rightarrow> json \<Rightarrow> verified_answer list result" where
  "verify_vp_token E R call dcql_query vp_token =
     bindR (leeway_seconds (Oid4 OpenID4VPError) (ca_leeway call)) (\<lambda>_.
     bindR (non_negative_seconds (Oid4 OpenID4VPError) (ca_kb_max_age call)) (\<lambda>_.
       if ca_nonce call = [] then Inl ClaimsInvalid
       else
     bindR (dc_api_accepted_auds (ca_client_id call) (ca_origins call)) (\<lambda>accepted_auds.
     bindR (parse_vp_token (v_loads_text (oe_plain E)) vp_token) (\<lambda>token.
       if token = [] then Inl vp_malformed
       else
     bindR (index_dcql dcql_query) (\<lambda>queries.
     bindR (check_completeness token queries (case dcql_query of JObj d \<Rightarrow> d | _ \<Rightarrow> [])) (\<lambda>_.
     bindR (mapR (verify_answers E (R\<lparr>r_schema := None\<rparr>) call accepted_auds queries) token) (\<lambda>answers.
       Inr (concat answers))))))))"

text \<open>\<open>decrypt\<close> is \<open>jwe.decrypt_compact\<close> with the verifier's key.\<close>

definition verify_encrypted_vp_response ::
    "oid_env \<Rightarrow> resolvers \<Rightarrow> vp_call \<Rightarrow> json \<Rightarrow> (str \<Rightarrow> bytes result) \<Rightarrow> str \<Rightarrow> verified_answer list result" where
  "verify_encrypted_vp_response E R call dcql_query decrypt response =
     bindR (leeway_seconds (Oid4 OpenID4VPError) (ca_leeway call)) (\<lambda>_.
     bindR (decrypt response) (\<lambda>plaintext.
     bindR (catchR is_value_error vp_malformed (loads (jo_loads (v_jose (oe_plain E))) plaintext)) (\<lambda>payload.
     bindR (as_object vp_malformed payload) (\<lambda>d.
       case map_of d (lit ''vp_token'') of
         None \<Rightarrow> Inl vp_malformed
       | Some v \<Rightarrow> verify_vp_token E R call dcql_query v))))"

section \<open>Specification\<close>

text \<open>The audience of the request: the client identifier, or one of the expected origins.\<close>

definition request_audience :: "vp_call \<Rightarrow> str \<Rightarrow> bool" where
  "request_audience call aud \<longleftrightarrow>
     ca_client_id call = Some aud \<or>
     ca_client_id call = None \<and> (\<exists>os s. ca_origins call = Some (JList os) \<and> JStr s \<in> set os \<and> aud = lit ''origin:'' @ s)"

text \<open>A credential bound to the holder who presents it, and one of a requested type.\<close>

definition holder_bound :: "str \<Rightarrow> verification_result \<Rightarrow> bool" where
  "holder_bound holder c \<longleftrightarrow>
     (if res_format c = FORMAT_SD_JWT_VC then res_key_bound c = Some True
      else holder \<noteq> [] \<and> res_subject c = JStr holder \<and> (\<nexists>xs. jget (lit ''credentialSubject'') (res_credential c) = JList xs))"

definition of_type :: "oid_env \<Rightarrow> jobj \<Rightarrow> verification_result \<Rightarrow> bool" where
  "of_type E query c \<longleftrightarrow>
     (\<forall>alts. type_values query = Inr (Some alts) \<longrightarrow> (\<exists>ts alt. expanded_types E c = Inr ts \<and> alt \<in> set alts \<and> set alt \<subseteq> set ts))"

definition mdoc_lane :: "oid_env \<Rightarrow> vp_call \<Rightarrow> jobj \<Rightarrow> json \<Rightarrow> verified_mdoc list \<Rightarrow> bool" where
  "mdoc_lane E call query p docs \<longleftrightarrow>
     (\<exists>text bs os origin st anchors expected. p = JStr text \<and> b64url_decode text = Inr bs \<and> ca_anchors call = Some anchors \<and>
        ca_origins call = Some (JList os) \<and> JStr origin \<in> set os \<and>
        dcapi_session_transcript (me_crypto (oe_mdoc E)) origin (ca_nonce call) (ca_thumbprint call) = Inr st \<and>
        mdoc_doctype_value query = Inr expected \<and> docs \<noteq> [] \<and>
        (\<forall>r\<in>set docs. \<exists>d mso. issuer_checked (oe_mdoc E) anchors (ca_now call) (ca_leeway call) d mso r \<and>
           device_bound (oe_mdoc E) st None (md_doc_type r) mso d \<and> (expected = None \<or> expected = Some (md_doc_type r))))"

definition sd_lane :: "oid_env \<Rightarrow> vp_call \<Rightarrow> jobj \<Rightarrow> str \<Rightarrow> json \<Rightarrow> verification_result \<Rightarrow> bool" where
  "sd_lane E call query aud p c \<longleftrightarrow>
     (\<exists>text v. p = JStr text \<and> res_raw c = Some v \<and> res_credential c = sd_claims v \<and> sd_typ v = Some DCQL_SD_JWT_VC \<and>
        (\<forall>vs. vct_values query = Inr (Some vs) \<longrightarrow> (\<exists>t\<in>set vs. sd_vct v = Some t)) \<and>
        (holder_flag query \<longrightarrow> sd_key_bound v) \<and>
        (sd_key_bound v \<longrightarrow> kb_presents (v_jose (oe_plain E)) text aud (ca_nonce call)))"

definition lane_request :: "vp_call \<Rightarrow> str \<Rightarrow> vp_request" where
  "lane_request call aud =
     \<lparr>vq_audience = aud, vq_nonce = ca_nonce call, vq_key = None, vq_expected_holder = None, vq_holder_binding = ca_holder_binding call\<rparr>"

definition vp_lane :: "oid_env \<Rightarrow> resolvers \<Rightarrow> vp_call \<Rightarrow> jobj \<Rightarrow> str \<Rightarrow> json \<Rightarrow> verified_presentation \<Rightarrow> bool" where
  "vp_lane E R call query aud p v \<longleftrightarrow>
     (\<exists>text jwk header. p = JStr text \<and> verify_compact (v_jose (oe_plain E)) text jwk ALLOWED_ALGS = Inr (header, pv_claims v) \<and>
        holder_key R (lane_request call aud) (pv_holder v) jwk \<and> presented_to (lane_request call aud) (pv_claims v) (pv_vp v) (pv_holder v)) \<and>
     pv_credentials v \<noteq> [] \<and>
     (\<forall>c\<in>set (pv_credentials v). (holder_flag query \<longrightarrow> holder_bound (pv_holder v) c) \<and>
        (ca_holder_binding call \<longrightarrow> res_subject c = JStr (pv_holder v)) \<and> of_type E query c)"

definition ldp_lane :: "oid_env \<Rightarrow> resolvers \<Rightarrow> vp_call \<Rightarrow> jobj \<Rightarrow> str \<Rightarrow> json \<Rightarrow> json \<Rightarrow> verification_result list \<Rightarrow> bool" where
  "ldp_lane E R call query aud p holder cs \<longleftrightarrow>
     (\<exists>d proof kid doc vm. p = JObj d \<and> jget (lit ''proof'') d = JObj proof \<and> jget (lit ''proofPurpose'') proof = JStr (lit ''authentication'') \<and>
        jget (lit ''challenge'') proof = JStr (ca_nonce call) \<and>
        (jget (lit ''domain'') proof = JStr aud \<or> (\<exists>xs. jget (lit ''domain'') proof = JList xs \<and> JStr aud \<in> set xs)) \<and>
        jget (lit ''verificationMethod'') proof = JStr kid \<and> holder = JStr (before_hash kid) \<and>
        resolve_document (v_ec_point (oe_extra E)) (Some (r_did R)) (before_hash kid) = Inr doc \<and>
        key_for_purpose doc (JStr kid) (JStr (lit ''authentication'')) = Some vm \<and> di_signed (oe_extra E) d (vm_jwk vm) \<and>
        (\<forall>c\<in>set cs. (holder_flag query \<longrightarrow> holder_bound (before_hash kid) c) \<and>
           (ca_holder_binding call \<longrightarrow> res_subject c = JStr (before_hash kid)) \<and> of_type E query c)) \<and> cs \<noteq> []"

definition answer_bound :: "oid_env \<Rightarrow> resolvers \<Rightarrow> vp_call \<Rightarrow> str \<Rightarrow> jobj \<Rightarrow> json \<Rightarrow> verified_answer \<Rightarrow> bool" where
  "answer_bound E R call query_id query p a \<longleftrightarrow> va_query a = query_id \<and> jget (lit ''format'') query = JStr (va_format a) \<and>
     (case va_answer a of
        MdocAnswer docs \<Rightarrow> va_format a = DCQL_MSO_MDOC \<and> va_holder a = JNull \<and> mdoc_lane E call query p docs
      | SdJwtAnswer c \<Rightarrow> va_format a = DCQL_SD_JWT_VC \<and> va_holder a = res_subject c \<and>
          (\<exists>aud. request_audience call aud \<and> sd_lane E call query aud p c)
      | VpAnswer v \<Rightarrow> va_format a = DCQL_JWT_VC \<and> va_holder a = JStr (pv_holder v) \<and>
          (\<exists>aud. request_audience call aud \<and> vp_lane E R call query aud p v)
      | LdpAnswer v cs \<Rightarrow> va_format a = DCQL_LDP_VC \<and> (\<exists>aud. request_audience call aud \<and> ldp_lane E R call query aud p (va_holder a) cs)
      | BareAnswer c \<Rightarrow> va_format a \<in> {DCQL_JWT_VC, DCQL_LDP_VC} \<and> va_holder a = JNull \<and> \<not> holder_flag query \<and> \<not> ca_holder_binding call \<and>
          of_type E query c)"

section \<open>Lemmas\<close>

lemma jstrs_mem: "s \<in> set (jstrs vs) \<longleftrightarrow> JStr s \<in> set vs"
proof (induction vs)
  case (Cons v vs)
  then show ?case by (cases v) auto
qed simp

lemma dcql_distinct [simp]:
  "DCQL_SD_JWT_VC \<noteq> DCQL_MSO_MDOC" "DCQL_JWT_VC \<noteq> DCQL_MSO_MDOC" "DCQL_LDP_VC \<noteq> DCQL_MSO_MDOC" "DCQL_SD_JWT_VC \<noteq> DCQL_JWT_VC"
  "DCQL_SD_JWT_VC \<noteq> DCQL_LDP_VC" "DCQL_LDP_VC \<noteq> DCQL_JWT_VC" "DCQL_MSO_MDOC \<noteq> DCQL_SD_JWT_VC" "DCQL_MSO_MDOC \<noteq> DCQL_JWT_VC"
  "DCQL_MSO_MDOC \<noteq> DCQL_LDP_VC" "DCQL_JWT_VC \<noteq> DCQL_SD_JWT_VC" "DCQL_LDP_VC \<noteq> DCQL_SD_JWT_VC" "DCQL_JWT_VC \<noteq> DCQL_LDP_VC"
  by (simp_all add: dcql_formats lit_def)

lemma accepted_auds_Inr:
  assumes "dc_api_accepted_auds client_id origins = Inr acc"
  shows "client_id \<noteq> None \<and> origins = None \<or>
     client_id = None \<and> (\<exists>os. origins = Some (JList os) \<and> acc = Some (map (\<lambda>s. lit ''origin:'' @ s) (jstrs os)))"
proof (cases origins)
  case (Some v)
  then show ?thesis using assms by (cases v) (auto simp: dc_api_accepted_auds_def split: if_split_asm)
qed (use assms in \<open>auto simp: dc_api_accepted_auds_def split: if_split_asm\<close>)

lemma effective_audience_Inr:
  assumes "dc_api_accepted_auds (ca_client_id call) (ca_origins call) = Inr acc"
    "effective_audience J fmt p (ca_client_id call) acc = Inr aud"
  shows "request_audience call aud"
proof (cases "ca_client_id call")
  case None
  then obtain os where os: "ca_origins call = Some (JList os)" "acc = Some (map (\<lambda>s. lit ''origin:'' @ s) (jstrs os))"
    using accepted_auds_Inr [OF assms(1)] by auto
  let ?P = "\<lambda>c. case c of JStr s \<Rightarrow> s \<in> set (case acc of None \<Rightarrow> [] | Some a \<Rightarrow> a) | _ \<Rightarrow> False"
  obtain xs where f: "(case List.find ?P xs of Some (JStr s) \<Rightarrow> Inr s | _ \<Rightarrow> Inl ClaimsInvalid) = Inr aud"
    using assms(2) unfolding effective_audience_def None option.case bindR_Inr by blast
  then obtain x where x: "List.find ?P xs = Some x" by (cases "List.find ?P xs") simp_all
  with f have "x = JStr aud" by (cases x) simp_all
  moreover have "?P x" using x by (auto simp: find_Some_iff)
  ultimately have "aud \<in> set (map (\<lambda>s. lit ''origin:'' @ s) (jstrs os))" using os(2) by simp
  then show ?thesis using None os(1) by (auto simp: request_audience_def jstrs_mem)
qed (use assms(2) in \<open>simp add: effective_audience_def request_audience_def\<close>)

lemma first_bound_Inr: "first_bound attempt e origins = Inr r \<Longrightarrow> \<exists>origin\<in>set origins. attempt origin = Inr r"
  by (induction origins arbitrary: e) (auto split: sum.splits if_splits)

lemma bound_to_holder_Inr: "bound_to_holder holder c = Inr u \<Longrightarrow> res_format c = FORMAT_SD_JWT_VC \<and> res_key_bound c = Some True \<or> (\<exists>h. holder = Some h \<and> holder_bound h c)"
  by (auto simp: bound_to_holder_def holder_bound_def split: if_split_asm option.split_asm json.split_asm)

lemma check_holder_bound_Inr:
  assumes "check_holder_bound cs (Some h) = Inr u" "c \<in> set cs"
  shows "holder_bound h c"
proof -
  have "bound_to_holder (Some h) c = Inr ()"
    using assms by (auto simp: check_holder_bound_def bindR_Inr mapR_Inr list_all2_conv_all_nth in_set_conv_nth)
  from bound_to_holder_Inr [OF this] show ?thesis by (auto simp: holder_bound_def)
qed

lemma check_type_values_Inr:
  assumes "check_type_values E alts cs = Inr u" "c \<in> set cs" "type_values query = Inr alts"
  shows "of_type E query c"
proof (cases alts)
  case None
  then show ?thesis using assms(3) by (simp add: of_type_def)
next
  case (Some as)
  then have "check_one_type E as c = Inr ()"
    using assms(1,2) by (auto simp: check_type_values_def bindR_Inr mapR_Inr list_all2_conv_all_nth in_set_conv_nth)
  then obtain ts alt where "expanded_types E c = Inr ts" "alt \<in> set as" "set alt \<subseteq> set ts"
    by (auto simp: check_one_type_def bindR_Inr list_ex_iff list_all_iff split: if_split_asm)
  then show ?thesis using assms(3) Some by (auto simp: of_type_def)
qed

lemma mdoc_lane_Inr:
  assumes "verify_mso_mdoc E call query_id query p = Inr a" "ca_origins call = Some (JList os)"
  shows "\<exists>docs. a = \<lparr>va_query = query_id, va_format = DCQL_MSO_MDOC, va_holder = JNull, va_answer = MdocAnswer docs\<rparr> \<and> mdoc_lane E call query p docs"
proof -
  obtain anchors tok expected bs docs e where k: "ca_anchors call = Some anchors" "p = JStr tok" "mdoc_doctype_value query = Inr expected"
    "b64url_decode tok = Inr bs"
    "first_bound (\<lambda>origin.
       bindR (dcapi_session_transcript (me_crypto (oe_mdoc E)) origin (ca_nonce call) (ca_thumbprint call)) (\<lambda>transcript.
         verify_device_response (oe_mdoc E) anchors transcript (ca_now call) (ca_leeway call) expected None bs)) e (jstrs os) = Inr docs"
    "a = \<lparr>va_query = query_id, va_format = DCQL_MSO_MDOC, va_holder = JNull, va_answer = MdocAnswer docs\<rparr>"
    using assms by (auto simp: verify_mso_mdoc_def bindR_Inr split: option.split_asm)
  obtain origin st where o: "origin \<in> set (jstrs os)"
    "dcapi_session_transcript (me_crypto (oe_mdoc E)) origin (ca_nonce call) (ca_thumbprint call) = Inr st"
    "verify_device_response (oe_mdoc E) anchors st (ca_now call) (ca_leeway call) expected None bs = Inr docs"
    using first_bound_Inr [OF k(5)] by (auto simp: bindR_Inr)
  obtain documents where d: "documents \<noteq> []" "mapR (verify_document (oe_mdoc E) anchors st (ca_now call) (ca_leeway call) expected None) documents = Inr docs"
    using o(3) by (auto simp: verify_device_response_def parse_response_def bindR_Inr split: if_split_asm)
  have "docs \<noteq> []" using d by (auto simp: mapR_Inr)
  moreover have "\<forall>r\<in>set docs. \<exists>d mso. issuer_checked (oe_mdoc E) anchors (ca_now call) (ca_leeway call) d mso r \<and>
      device_bound (oe_mdoc E) st None (md_doc_type r) mso d \<and> (expected = None \<or> expected = Some (md_doc_type r))"
    using mapR_set [OF d(2)] document_Inr by blast
  ultimately show ?thesis using k o(1,2) assms(2) unfolding mdoc_lane_def jstrs_mem by blast
qed

lemma new_policy_Inr: "new_policy p = Inr q \<Longrightarrow> q = p"
  by (auto simp: new_policy_def bindR_Inr)

lemma sd_jwt_result:
  assumes "verify_credential V R pol None (JStr tok) = Inr c" "126 \<in> set tok" "vp_audience pol = JStr a" "vp_nonce pol = JStr n"
  shows "\<exists>v. res_raw c = Some v \<and> res_credential c = sd_claims v \<and> (vp_require_kb pol \<longrightarrow> sd_key_bound v) \<and>
     (sd_key_bound v \<longrightarrow> kb_presents (v_jose V) tok a n)"
proof -
  have f: "detect_format (JStr tok) = Inr FORMAT_SD_JWT_VC" using assms(2) by (simp add: detect_format_def)
  have n: "FORMAT_SD_JWT_VC \<noteq> FORMAT_ENVELOPED" "FORMAT_SD_JWT_VC \<noteq> FORMAT_VC_JWT" by (simp_all add: format_defs lit_def)
  obtain inner where "verify_sd_jwt V R pol inner None tok = Inr c"
    using dispatch_direct [OF assms(1) [unfolded verify_credential_def] f n(1)] n(2) by (auto simp: handle_def)
  then obtain suite jwk spol v where s: "sd_verify (v_jose V) suite tok jwk spol = Inr v" "sp_audience spol = vp_audience pol"
    "sp_nonce spol = vp_nonce pol" "sp_require_kb spol = vp_require_kb pol" "res_raw c = Some v" "res_credential c = sd_claims v"
    by (auto simp: verify_sd_jwt_def bindR_Inr kb_terms_def)
  then show ?thesis
    using required_key_binding [OF s(1)] key_bound_presents [OF s(1)] assms(3,4) by auto
qed

lemma sd_lane_Inr:
  assumes "verify_sd_jwt_vc E R call query_id vcts (holder_flag query) aud p = Inr a" "vct_values query = Inr vcts"
  shows "\<exists>c. a = \<lparr>va_query = query_id, va_format = DCQL_SD_JWT_VC, va_holder = res_subject c, va_answer = SdJwtAnswer c\<rparr> \<and> sd_lane E call query aud p c"
proof -
  obtain tok pol c where k: "p = JStr tok" "126 \<in> set tok"
    "new_policy ((call_policy call)\<lparr>vp_audience := JStr aud, vp_nonce := JStr (ca_nonce call), vp_require_kb := holder_flag query\<rparr>) = Inr pol"
    "verify_credential (oe_plain E) R pol None (JStr tok) = Inr c"
    "(case res_raw c of None \<Rightarrow> None | Some v \<Rightarrow> sd_typ v) = Some DCQL_SD_JWT_VC"
    "check_vct vcts (case res_raw c of None \<Rightarrow> None | Some v \<Rightarrow> sd_vct v) = Inr ()"
    "a = \<lparr>va_query = query_id, va_format = DCQL_SD_JWT_VC, va_holder = res_subject c, va_answer = SdJwtAnswer c\<rparr>"
    using assms(1) by (cases p) (auto simp: verify_sd_jwt_vc_def bindR_Inr split: if_split_asm)
  have pol: "vp_audience pol = JStr aud" "vp_nonce pol = JStr (ca_nonce call)" "vp_require_kb pol = holder_flag query"
    using new_policy_Inr [OF k(3)] by simp_all
  obtain v where v: "res_raw c = Some v" "res_credential c = sd_claims v" "holder_flag query \<longrightarrow> sd_key_bound v"
    "sd_key_bound v \<longrightarrow> kb_presents (v_jose (oe_plain E)) tok aud (ca_nonce call)"
    using sd_jwt_result [OF k(4,2) pol(1,2)] pol(3) by auto
  have "\<forall>vs. vct_values query = Inr (Some vs) \<longrightarrow> (\<exists>t\<in>set vs. sd_vct v = Some t)"
    using k(6) v(1) assms(2) by (auto simp: check_vct_def split: option.split_asm if_split_asm)
  then show ?thesis using k v unfolding sd_lane_def by auto
qed

lemma vp_lane_Inr:
  assumes "verify_jwt_vp E R call query_id alts (holder_flag query) aud p = Inr a" "type_values query = Inr alts"
  shows "\<exists>v. a = \<lparr>va_query = query_id, va_format = DCQL_JWT_VC, va_holder = JStr (pv_holder v), va_answer = VpAnswer v\<rparr> \<and> vp_lane E R call query aud p v"
proof -
  obtain tok pol leeway v where k: "p = JStr tok" "vp_verify (oe_plain E) R pol leeway (lane_request call aud) tok = Inr v" "pv_credentials v \<noteq> []"
    "(if holder_flag query then check_holder_bound (pv_credentials v) (Some (pv_holder v)) else Inr ()) = Inr ()"
    "check_type_values E alts (pv_credentials v) = Inr ()"
    "a = \<lparr>va_query = query_id, va_format = DCQL_JWT_VC, va_holder = JStr (pv_holder v), va_answer = VpAnswer v\<rparr>"
    using assms(1) by (auto simp: verify_jwt_vp_def lane_request_def [symmetric] bindR_Inr split: option.split_asm if_split_asm)
  obtain jwk header where j: "verify_compact (v_jose (oe_plain E)) tok jwk ALLOWED_ALGS = Inr (header, pv_claims v)"
    "holder_key R (lane_request call aud) (pv_holder v) jwk" "check_presenter (lane_request call aud) (pv_claims v) = Inr (pv_vp v, pv_holder v)"
    "vq_holder_binding (lane_request call aud) \<longrightarrow> list_all (\<lambda>c. res_subject c = JStr (pv_holder v)) (pv_credentials v)"
    using vp_verify_Inr [OF k(2)] by blast
  have c: "(holder_flag query \<longrightarrow> holder_bound (pv_holder v) c) \<and> (ca_holder_binding call \<longrightarrow> res_subject c = JStr (pv_holder v)) \<and> of_type E query c"
    if "c \<in> set (pv_credentials v)" for c
    using that k(4) j(4) check_holder_bound_Inr check_type_values_Inr [OF k(5) that assms(2)]
    by (auto simp: list_all_iff lane_request_def split: if_split_asm)
  then show ?thesis
    using k(1,3,6) j(1-3) unfolding vp_lane_def by (auto simp: check_presenter_Inr)
qed

lemma ldp_shape_Inr: "ldp_shape_checks p = Inr (d, cs) \<Longrightarrow> p = JObj d \<and> cs \<in> set LDP_VP_CRYPTOSUITES"
  by (auto simp: ldp_shape_checks_def bindR_Inr split: if_split_asm json.split_asm option.split_asm)

lemma binding_Inr:
  "check_presentation_binding pf (Some c) (Some d) = Inr u \<longleftrightarrow> jget (lit ''challenge'') pf = JStr c \<and>
     (jget (lit ''domain'') pf = JStr d \<or> (\<exists>xs. jget (lit ''domain'') pf = JList xs \<and> JStr d \<in> set xs))"
  by (cases "jget (lit ''domain'') pf") (auto simp: check_presentation_binding_def Let_def)

lemma vp_holder_Inr: "vp_holder d pf = Inr h \<Longrightarrow> h = map_option before_hash (text_opt (jget (lit ''verificationMethod'') pf))"
  by (auto simp: vp_holder_def Let_def split: if_split_asm)

lemma ldp_lane_Inr:
  assumes "verify_ldp_vp E R call query_id alts (holder_flag query) aud p = Inr a" "type_values query = Inr alts"
  shows "\<exists>v cs holder. a = \<lparr>va_query = query_id, va_format = DCQL_LDP_VC, va_holder = holder, va_answer = LdpAnswer v cs\<rparr> \<and>
     ldp_lane E R call query aud p holder cs"
proof -
  let ?pol = "\<lparr>dp_key = [], dp_purpose = Some (lit ''authentication''), dp_challenge = Some (ca_nonce call), dp_domain = Some aud,
               dp_now = ca_now call, dp_temporal = True\<rparr>"
  obtain d suite v holder vcs pol cs where k: "ldp_shape_checks p = Inr (d, suite)"
    "di_suite_verify (oe_extra E) (di_suite_for suite) (ca_leeway call) (Some (r_did R)) ?pol d = Inr v"
    "vp_holder d (di_proof v) = Inr holder" "embedded_vcs d = Inr vcs"
    "mapR (verify_credential (oe_extra E) R pol (Some (JStr aud, JStr (ca_nonce call)))) vcs = Inr cs"
    "(if holder_flag query then check_holder_bound cs holder else Inr ()) = Inr ()"
    "ca_holder_binding call \<longrightarrow> list_all (\<lambda>r. truthy (res_subject r) \<and> Some (res_subject r) = map_option JStr holder) cs"
    "check_type_values E alts cs = Inr ()"
    "a = \<lparr>va_query = query_id, va_format = DCQL_LDP_VC, va_holder = opt_json holder, va_answer = LdpAnswer v cs\<rparr>"
    using assms(1) by (auto simp: verify_ldp_vp_def bindR_Inr split: if_split_asm)
  have "di_suite_for suite \<noteq> FORMAT_DI_ECDSA_SD" by (simp add: di_suite_for_def format_defs lit_def)
  then obtain kid doc vm where s: "jget (lit ''proof'') d = JObj (di_proof v)" "jget (lit ''proofPurpose'') (di_proof v) = JStr (lit ''authentication'')"
    "check_presentation_binding (di_proof v) (Some (ca_nonce call)) (Some aud) = Inr ()"
    "jget (lit ''verificationMethod'') (di_proof v) = JStr kid" "resolve_document (v_ec_point (oe_extra E)) (Some (r_did R)) (before_hash kid) = Inr doc"
    "key_for_purpose doc (JStr kid) (JStr (lit ''authentication'')) = Some vm" "di_signed (oe_extra E) d (vm_jwk vm)"
    using di_suite_document [OF k(2)] by (auto simp: check_proof_purpose_def effective_purpose_def lit_def split: if_split_asm)
  have h: "holder = Some (before_hash kid)" using vp_holder_Inr [OF k(3)] s(4) by simp
  have c: "(holder_flag query \<longrightarrow> holder_bound (before_hash kid) c) \<and> (ca_holder_binding call \<longrightarrow> res_subject c = JStr (before_hash kid)) \<and> of_type E query c"
    if "c \<in> set cs" for c
    using that k(6,7) h check_holder_bound_Inr check_type_values_Inr [OF k(8) that assms(2)] by (auto simp: list_all_iff split: if_split_asm)
  have ne: "cs \<noteq> []" using k(4,5) by (auto simp: embedded_vcs_def Let_def mapR_Inr split: if_split_asm)
  have "ldp_lane E R call query aud p (JStr (before_hash kid)) cs"
    unfolding ldp_lane_def using ldp_shape_Inr [OF k(1)] s c ne by (auto simp: binding_Inr)
  then show ?thesis using k(9) h by (simp add: opt_json_def)
qed

lemma w3c_constraint_Inr:
  "w3c_constraint E fmt query = Inr alts \<Longrightarrow> fmt = DCQL_JWT_VC \<or> fmt = DCQL_LDP_VC \<Longrightarrow> type_values query = Inr alts"
  by (auto simp: w3c_constraint_def bindR_Inr split: if_split_asm)

lemma bare_Inr:
  assumes "verify_bare_w3c_vc E R call query_id alts fmt p = Inr a" "type_values query = Inr alts"
  shows "\<exists>c. a = \<lparr>va_query = query_id, va_format = fmt, va_holder = JNull, va_answer = BareAnswer c\<rparr> \<and> \<not> ca_holder_binding call \<and> of_type E query c"
proof -
  obtain c where c: "check_type_values E alts [c] = Inr ()" "\<not> ca_holder_binding call"
    "a = \<lparr>va_query = query_id, va_format = fmt, va_holder = JNull, va_answer = BareAnswer c\<rparr>"
    using assms(1) by (auto simp: verify_bare_w3c_vc_def bindR_Inr split: if_split_asm)
  then show ?thesis using check_type_values_Inr [OF c(1) _ assms(2)] by simp
qed

lemma verify_bound_Inr:
  assumes "verify_bound E R call acc query_id fmt vcts alts (holder_flag query) p = Inr a"
    "dc_api_accepted_auds (ca_client_id call) (ca_origins call) = Inr acc" "jget (lit ''format'') query = JStr fmt"
    "fmt = DCQL_SD_JWT_VC \<longrightarrow> vct_values query = Inr vcts" "fmt = DCQL_JWT_VC \<or> fmt = DCQL_LDP_VC \<longrightarrow> type_values query = Inr alts"
  shows "answer_bound E R call query_id query p a"
proof -
  obtain aud where aud: "effective_audience (v_jose (oe_plain E)) fmt p (ca_client_id call) acc = Inr aud"
    using assms(1) by (auto simp: verify_bound_def bindR_Inr)
  have r: "request_audience call aud" using effective_audience_Inr [OF assms(2) aud] .
  consider (sd) "fmt = DCQL_SD_JWT_VC" "verify_sd_jwt_vc E R call query_id vcts (holder_flag query) aud p = Inr a"
    | (jwt) "fmt = DCQL_JWT_VC" "verify_jwt_vp E R call query_id alts (holder_flag query) aud p = Inr a"
    | (ldp) "fmt = DCQL_LDP_VC" "verify_ldp_vp E R call query_id alts (holder_flag query) aud p = Inr a"
    using assms(1) aud by (auto simp: verify_bound_def split: if_split_asm)
  then show ?thesis
  proof cases
    case sd
    then show ?thesis using sd_lane_Inr [OF sd(2)] assms(3,4) r by (auto simp: answer_bound_def)
  next
    case jwt
    then show ?thesis using vp_lane_Inr [OF jwt(2)] assms(3,5) r by (auto simp: answer_bound_def)
  next
    case ldp
    then show ?thesis using ldp_lane_Inr [OF ldp(2)] assms(3,5) r by (auto simp: answer_bound_def)
  qed
qed

lemma verify_one_Inr:
  assumes "verify_one E R call acc query_id query p = Inr a" "dc_api_accepted_auds (ca_client_id call) (ca_origins call) = Inr acc"
    "jget (lit ''format'') query = JStr fmt"
  shows "answer_bound E R call query_id query p a"
proof (cases "fmt = DCQL_MSO_MDOC")
  case True
  then have m: "verify_mso_mdoc E call query_id query p = Inr a" using assms(1,3) by (simp add: verify_one_def)
  then obtain os where "ca_origins call = Some (JList os)"
    using accepted_auds_Inr [OF assms(2)] by (auto simp: verify_mso_mdoc_def)
  then show ?thesis using mdoc_lane_Inr [OF m] True assms(3) by (auto simp: answer_bound_def)
next
  case False
  obtain alts vcts shape where k: "w3c_constraint E fmt query = Inr alts" "(if fmt = DCQL_SD_JWT_VC then vct_values query else Inr None) = Inr vcts"
    "(if fmt = DCQL_JWT_VC \<or> fmt = DCQL_LDP_VC then w3c_shape (v_jose (oe_plain E)) fmt p else Inr ShapeVp) = Inr shape"
    "(if shape = ShapeVc then (if holder_flag query then Inl vp_malformed else verify_bare_w3c_vc E R call query_id alts fmt p)
      else verify_bound E R call acc query_id fmt vcts alts (holder_flag query) p) = Inr a"
    using assms(1,3) False by (auto simp: verify_one_def bindR_Inr)
  show ?thesis
  proof (cases "shape = ShapeVc")
    case True
    then have f: "fmt = DCQL_JWT_VC \<or> fmt = DCQL_LDP_VC" using k(3) by (auto split: if_split_asm)
    have b: "verify_bare_w3c_vc E R call query_id alts fmt p = Inr a" "\<not> holder_flag query" using k(4) True by (auto split: if_split_asm)
    from bare_Inr [OF b(1) w3c_constraint_Inr [OF k(1) f]] show ?thesis using b(2) f assms(3) by (auto simp: answer_bound_def)
  next
    case False
    with k(4) have "verify_bound E R call acc query_id fmt vcts alts (holder_flag query) p = Inr a" by simp
    then show ?thesis using verify_bound_Inr [OF _ assms(2,3)] k(1,2) w3c_constraint_Inr by (auto split: if_split_asm)
  qed
qed

lemma answers_Inr:
  assumes "verify_answers E R call acc queries (query_id, value) = Inr as" "dc_api_accepted_auds (ca_client_id call) (ca_origins call) = Inr acc"
    "index_dcql (JObj d) = Inr queries"
  shows "\<exists>query ps. map_of queries query_id = Some query \<and> value = JList ps \<and> ps \<noteq> [] \<and>
     (truthy (get_or (lit ''multiple'') (JBool False) query) \<or> length ps = 1) \<and>
     list_all2 (answer_bound E R call query_id query) ps as"
proof -
  obtain query ps where k: "map_of queries query_id = Some query" "presentation_list query value = Inr ps"
    "mapR (verify_one E R call acc query_id query) ps = Inr as"
    using assms(1) by (auto simp: verify_answers_def bindR_Inr split: option.split_asm)
  have "value = JList ps \<and> ps \<noteq> [] \<and> (truthy (get_or (lit ''multiple'') (JBool False) query) \<or> length ps = 1)"
    using k(2) by (cases "value") (auto simp: presentation_list_def split: if_split_asm)
  moreover obtain fmt where f: "jget (lit ''format'') query = JStr fmt"
    using indexed_query_ok [OF assms(3) k(1)] by (auto simp: query_ok_def)
  have "list_all2 (answer_bound E R call query_id query) ps as"
    by (rule list_all2_mono [OF k(3) [unfolded mapR_Inr]]) (rule verify_one_Inr [OF _ assms(2) f])
  ultimately show ?thesis using k(1) by blast
qed

text \<open>The nonce a presentation carries, read without verifying it.\<close>

definition carried_nonce :: "jose \<Rightarrow> str \<Rightarrow> json \<Rightarrow> json" where
  "carried_nonce J fmt p =
     (case p of
        JStr s \<Rightarrow>
          (case parse_compact J (if fmt = DCQL_SD_JWT_VC then last (split_on 126 s) else s) of
             Inr (header, claims, si, sg) \<Rightarrow> jget (lit ''nonce'') claims
           | Inl e \<Rightarrow> JNull)
      | JObj d \<Rightarrow> (case jget (lit ''proof'') d of JObj proof \<Rightarrow> jget (lit ''challenge'') proof | _ \<Rightarrow> JNull)
      | _ \<Rightarrow> JNull)"

lemma parse_compact_cong:
  assumes "jo_loads J = jo_loads J'"
  shows "parse_compact J s = parse_compact J' s"
  unfolding parse_compact_def compact_parts_def assms by (rule refl)

lemma carried_nonce_cong: "jo_loads J = jo_loads J' \<Longrightarrow> carried_nonce J fmt p = carried_nonce J' fmt p"
  by (simp add: carried_nonce_def parse_compact_cong [of J J'] split: json.split)

lemma kb_presents_nonce: "kb_presents J s aud n \<Longrightarrow> carried_nonce J DCQL_SD_JWT_VC (JStr s) = JStr n"
  by (auto simp: kb_presents_def carried_nonce_def decode_jws_def sd_split_def Let_def split: if_split_asm)

lemma bound_nonce:
  assumes "answer_bound E R call query_id query p a" "holder_flag query" "jget (lit ''format'') query = JStr fmt" "fmt \<noteq> DCQL_MSO_MDOC"
  shows "carried_nonce (v_jose (oe_plain E)) fmt p = JStr (ca_nonce call)"
proof (cases "va_answer a")
  case (SdJwtAnswer c)
  then show ?thesis using assms kb_presents_nonce by (auto simp: answer_bound_def sd_lane_def)
next
  case (VpAnswer v)
  then show ?thesis using assms
    by (auto simp: answer_bound_def vp_lane_def carried_nonce_def verify_compact_Inr presented_to_def lane_request_def)
next
  case (LdpAnswer v cs)
  then show ?thesis using assms by (auto simp: answer_bound_def ldp_lane_def carried_nonce_def)
qed (use assms in \<open>auto simp: answer_bound_def\<close>)

section \<open>Example\<close>

text \<open>The presentation of Sd\_Jwt's example answers a query for its type, with the issuer's key found through the resolver.\<close>

definition ex_oid_env :: oid_env where
  "ex_oid_env = \<lparr>oe_plain = ex_env\<lparr>v_jose := ex_jose\<rparr>, oe_extra = ex_env, oe_mdoc = ex_md_env, oe_pyld = False, oe_expand = (\<lambda>d. Inl DocumentLoaderError)\<rparr>"

definition ex_call :: vp_call where
  "ex_call = \<lparr>ca_nonce = lit ''n'', ca_client_id = Some (lit ''a''), ca_origins = None, ca_anchors = None, ca_thumbprint = None, ca_now = PinNone,
     ca_leeway = JInt 60, ca_holder_binding = False, ca_require_status = True, ca_kb_max_age = JInt 300\<rparr>"

definition ex_sd_query :: jobj where
  "ex_sd_query = [(lit ''id'', JStr (lit ''q'')), (lit ''format'', JStr DCQL_SD_JWT_VC),
     (lit ''meta'', JObj [(lit ''vct_values'', JList [JStr (lit ''v'')])])]"

lemma ex_oid_suite: "new_sd_suite (JInt 60) DEFAULT_HASH (JBool False) = Inr ex_suite"
  by (simp add: new_sd_suite_def leeway_seconds_def MAX_LEEWAY_S_def SD_HASHES_def DEFAULT_HASH_def ex_suite_def)

lemma ex_oid_peek: "sd_peek_issuer ex_jose (presented_text ex_issuer_jwt [] @ kb) = Inr (lit ''i'', None)"
proof -
  have "takeWhile (\<lambda>c. c \<noteq> 126) (presented_text ex_issuer_jwt [] @ kb) = ex_issuer_jwt"
    using ex_issuer_chars(1) by (auto simp: presented_text_def takeWhile_tail)
  then show ?thesis
    by (simp add: sd_peek_issuer_def ex_decode issuer_from_body_def may_use_vcdm_issuer_def kid_of_def)
      (simp add: ex_claims_def ex_header_def has_key_def jget_def kid_of_def lit_def)
qed

lemma ex_oid_key: "resolve_jose_key_with_x5c V ex_resolvers now b tok (lit ''i'') None = Inr ex_pub"
  by (simp add: resolve_jose_key_with_x5c_def resolve_jose_key_def ex_di_resolver_def self_document_def Let_def ex_di_pub_def ex_pub_def starts_with_iff lit_def)

lemma after_vct:
  assumes "sd_verify J suite pres jwk pol = Inr r"
  shows "sd_vct r = text_opt (jget (lit ''vct'') (sd_claims r))"
  by (rule sd_verify_Inr [OF assms], erule after_signature_Inr)

lemma ex_sd_query_fields:
  "holder_flag ex_sd_query" "vct_values ex_sd_query = Inr (Some [lit ''v''])" "jget (lit ''format'') ex_sd_query = JStr DCQL_SD_JWT_VC"
  "\<not> truthy (get_or (lit ''multiple'') (JBool False) ex_sd_query)" "jget (lit ''id'') ex_sd_query = JStr (lit ''q'')"
  "is_jbool (get_or (lit ''multiple'') (JBool False) ex_sd_query)"
  "is_jbool (get_or (lit ''require_cryptographic_holder_binding'') (JBool True) ex_sd_query)"
  by (simp_all add: holder_flag_def ex_sd_query_def get_or_def vct_values_def dcql_meta_def jget_def as_object_def is_jbool_def)

lemma ex_oid_one: "\<exists>pres a. verify_one ex_oid_env ex_resolvers ex_call None (lit ''q'') ex_sd_query (JStr pres) = Inr a"
proof -
  let ?V = "oe_plain ex_oid_env"
  let ?pol = "(call_policy ex_call)\<lparr>vp_audience := JStr (lit ''a''), vp_nonce := JStr (lit ''n''), vp_require_kb := True\<rparr>"
  obtain pres r kb where v: "sd_verify ex_jose ex_suite pres ex_pub (Sd_Jwt.ex_policy\<lparr>sp_vct := None\<rparr>) = Inr r" "sd_key_bound r" "sd_claims r = ex_claims"
    "sd_typ r = Some ISSUER_TYP" "\<not> sd_vcdm r" "sd_issuer r = lit ''i''" "pres = presented_text ex_issuer_jwt [] @ kb"
    using ex_verified_vct [of None] by auto
  have p: "new_policy ?pol = Inr ?pol"
    by (simp add: new_policy_def call_policy_def ex_call_def leeway_seconds_def non_negative_seconds_def MAX_LEEWAY_S_def)
  have sp: "\<lparr>sp_audience = JStr (lit ''a''), sp_nonce = JStr (lit ''n''), sp_require_kb = True, sp_vct = None, sp_temporal = True,
      sp_kb_max_age = JInt 300, sp_now = PinNone\<rparr> = Sd_Jwt.ex_policy\<lparr>sp_vct := None\<rparr>" by (simp add: Sd_Jwt.ex_policy_def)
  have st: "check_status ?V ex_resolvers ?pol ex_claims ex_claims i = Inr None" for i
    by (simp add: check_status_def status_resolvers_def check_w3c_status_def check_ietf_status_def parse_status_entries_def
        parse_token_status_ref_def call_policy_def default_policy_def ex_claims_def jget_def)
  have vp: "\<exists>c. verify_sd_jwt ?V ex_resolvers ?pol i None pres = Inr c \<and> res_format c = FORMAT_SD_JWT_VC \<and> res_raw c = Some r" for i
    using v st by (simp add: verify_sd_jwt_def ex_oid_env_def ex_oid_suite ex_oid_peek ex_oid_key kb_terms_def call_policy_def default_policy_def
        ex_call_def sp check_sd_jwt_types_def check_schema_def)
  have t: "126 \<in> set pres" by (simp add: v(7) presented_text_def)
  have "detect_format (JStr pres) = Inr FORMAT_SD_JWT_VC" "FORMAT_SD_JWT_VC \<noteq> FORMAT_ENVELOPED" "FORMAT_SD_JWT_VC \<noteq> FORMAT_VC_JWT"
    using t by (simp_all add: detect_format_def format_defs lit_def)
  then obtain c where c: "verify_credential ?V ex_resolvers ?pol None (JStr pres) = Inr c" "res_format c = FORMAT_SD_JWT_VC" "res_raw c = Some r"
    using vp unfolding verify_credential_def by (subst (asm) dispatch.simps) (simp add: reject_deep_credential_def handle_def, blast)
  have ty: "sd_typ r = Some DCQL_SD_JWT_VC" using v(4) by (simp add: ISSUER_TYP_def DCQL_SD_JWT_VC_def)
  have vct: "sd_vct r = Some (lit ''v'')" using after_vct [OF v(1)] v(3) by (simp add: ex_claims_def jget_def)
  obtain a where a: "verify_sd_jwt_vc ex_oid_env ex_resolvers ex_call (lit ''q'') (Some [lit ''v'']) True (lit ''a'') (JStr pres) = Inr a"
    using p c t ty vct by (simp add: verify_sd_jwt_vc_def check_vct_def ex_call_def)
  have one: "verify_one ex_oid_env ex_resolvers ex_call None (lit ''q'') ex_sd_query (JStr pres) = Inr a"
    using a ex_sd_query_fields by (simp add: verify_one_def w3c_constraint_def verify_bound_def effective_audience_def ex_call_def)
  then show ?thesis by blast
qed

lemma ex_oid_accepted:
  "\<exists>pres out. verify_vp_token ex_oid_env ex_resolvers ex_call (JObj [(lit ''credentials'', JList [JObj ex_sd_query])])
     (JObj [(lit ''q'', JList [JStr pres])]) = Inr out"
proof -
  obtain pres a where one: "verify_one ex_oid_env ex_resolvers ex_call None (lit ''q'') ex_sd_query (JStr pres) = Inr a" using ex_oid_one by blast
  have R: "ex_resolvers\<lparr>r_schema := None\<rparr> = ex_resolvers" by (simp add: ex_resolvers_def)
  have n: "lit ''q'' \<noteq> []" "DCQL_SD_JWT_VC \<noteq> []" by (simp_all add: lit_def DCQL_SD_JWT_VC_def)
  have e: "index_entry [] (JObj ex_sd_query) = Inr [(lit ''q'', ex_sd_query)]"
    using ex_sd_query_fields n by (simp add: index_entry_def as_object_def check_constraint_def has_key_def)
  have i: "index_dcql (JObj [(lit ''credentials'', JList [JObj ex_sd_query])]) = Inr [(lit ''q'', ex_sd_query)]"
    using e by (simp add: index_dcql_def as_object_def jget_def [of "lit ''credentials''"])
  show ?thesis
    using one ex_sd_query_fields(4) i by (intro exI [of _ pres]) (simp add: R verify_vp_token_def ex_call_def leeway_seconds_def non_negative_seconds_def MAX_LEEWAY_S_def
        dc_api_accepted_auds_def parse_vp_token_def as_object_def nesting_exceeds_depth MAX_DEPTH_def check_completeness_def has_key_def
        verify_answers_def presentation_list_def lit_def)
qed

section \<open>Properties\<close>





end
