(* ===== verification/Did_Webvh.thy ===== *)
theory Did_Webvh
  imports Vc_Jwt
begin

text \<open>
  openvc/did/did_webvh.py: a did:webvh document is the last state of a log whose entries are chained by hashes and signed by the
  update keys in force. \<open>webvh_env\<close> is what the module calls outside the package: the crypto library, the elliptic-curve point
  decoder, the JSON parser on text and \<open>datetime.fromisoformat\<close> as an instant (read as UTC where the text has no offset).
\<close>

section \<open>Names and environment\<close>

record webvh_env =
  we_crypto :: crypto
  we_point :: "str \<Rightarrow> bytes \<Rightarrow> (nat \<times> nat) result"
  we_loads :: "str \<Rightarrow> json result"
  we_datetime :: "str \<Rightarrow> int option"

definition SCID_PLACEHOLDER :: str where "SCID_PLACEHOLDER = lit ''{SCID}''"
definition MULTIHASH_SHA256_PREFIX :: bytes where "MULTIHASH_SHA256_PREFIX = [18, 32]"
definition MAX_LOG_ENTRIES :: nat where "MAX_LOG_ENTRIES = 1000"
definition MAX_SCID_DEPTH :: nat where "MAX_SCID_DEPTH = 100"

text \<open>\<open>s.partition(c)\<close>: what is before and after the first \<open>c\<close>.\<close>

definition before :: "nat \<Rightarrow> str \<Rightarrow> str" where "before c s = takeWhile (\<lambda>x. x \<noteq> c) s"
definition after :: "nat \<Rightarrow> str \<Rightarrow> str" where "after c s = drop 1 (dropWhile (\<lambda>x. x \<noteq> c) s)"

definition did_webvh_url :: "str \<Rightarrow> str result" where
  "did_webvh_url did =
     (let msi = drop (length (lit ''did:webvh:'')) did; scid = before 58 msi; rest = after 58 msi
      in if scid = [] \<or> rest = [] then Inl DidWebvhError
         else bindR (catchR (\<lambda>e. e = DidResolutionError) DidWebvhError (did_web_url (lit ''did:web:'' @ rest))) (\<lambda>web_url.
                Inr (take (length web_url - length (lit ''did.json'')) web_url @ lit ''did.jsonl'')))"

section \<open>Hashes and keys\<close>

definition webvh_jcs :: "json \<Rightarrow> bytes result" where
  "webvh_jcs v = catchR (\<lambda>e. e = JcsError \<or> is_value_error e \<or> e = PyTypeError) DidWebvhError (canonicalize v)"

definition multihash_b58 :: "webvh_env \<Rightarrow> bytes \<Rightarrow> str" where
  "multihash_b58 E data = b58btc_encode (MULTIHASH_SHA256_PREFIX @ digest_of (we_crypto E) (lit ''sha256'') data)"

text \<open>\<open>s.replace(old, new)\<close> for a non-empty \<open>old\<close>\<close>

function replace_all :: "str \<Rightarrow> str \<Rightarrow> str \<Rightarrow> str" where
  "replace_all old new s =
     (if old = [] \<or> s = [] then s
      else if starts_with old s then new @ replace_all old new (drop (length old) s)
      else hd s # replace_all old new (tl s))"
  by pat_completeness auto
termination by (relation "measure (\<lambda>(old, new, s). length s)") auto

declare replace_all.simps [simp del]

function deep_replace_scid :: "str \<Rightarrow> nat \<Rightarrow> json \<Rightarrow> json result" where
  "deep_replace_scid scid dep v =
     (if MAX_SCID_DEPTH < dep then Inl DidWebvhError
      else case v of
        JStr s \<Rightarrow> Inr (JStr (replace_all scid SCID_PLACEHOLDER s))
      | JList vs \<Rightarrow> bindR (mapR (deep_replace_scid scid (dep + 1)) vs) (\<lambda>ws. Inr (JList ws))
      | JObj d \<Rightarrow>
          bindR (mapR (\<lambda>kv. bindR (deep_replace_scid scid (dep + 1) (snd kv)) (\<lambda>w. Inr (fst kv, w))) d) (\<lambda>e. Inr (JObj e))
      | _ \<Rightarrow> Inr v)"
  by pat_completeness auto
termination
proof (relation "measure (\<lambda>(scid, dep, v). size v)", goal_cases)
  case (3 scid dep v d kv)
  then show ?case using size_member [of kv d] by simp
qed (auto simp: size_list_estimation' less_Suc_eq_le)

declare deep_replace_scid.simps [simp del]

definition prerotation_hash :: "webvh_env \<Rightarrow> str \<Rightarrow> str result" where
  "prerotation_hash E multikey = bindR (utf8_encode multikey) (\<lambda>b. Inr (multihash_b58 E b))"

definition webvh_multikey_to_jwk :: "str \<Rightarrow> jobj result" where
  "webvh_multikey_to_jwk multikey =
     bindR (catchR (\<lambda>e. e = MultibaseError) DidWebvhError
              (bindR (decode_multibase multikey) (\<lambda>raw. bindR (read_varint raw) (\<lambda>(code, off). Inr (raw, code, off)))))
       (\<lambda>(raw, code, off).
          let key = drop off raw
          in if code \<noteq> MC_ED25519 \<or> length key \<noteq> 32 then Inl DidWebvhError else Inr (okp_jwk key))"

definition entry_without_proof :: "jobj \<Rightarrow> jobj" where
  "entry_without_proof entry = filter (\<lambda>kv. fst kv \<noteq> lit ''proof'') entry"

text \<open>The entry as it is hashed: without its proof and with another \<open>versionId\<close>.\<close>

definition rehashed :: "jobj \<Rightarrow> str \<Rightarrow> jobj" where
  "rehashed entry version_id = AList.update (lit ''versionId'') (JStr version_id) (entry_without_proof entry)"

section \<open>One entry\<close>

text \<open>The key, the options and the value of a proof the loop goes on with; the others are skipped.\<close>

definition usable_proof :: "str list \<Rightarrow> json \<Rightarrow> (jobj \<times> str \<times> str) option" where
  "usable_proof active p =
     (case p of
        JObj d \<Rightarrow>
          (if jget (lit ''type'') d \<noteq> JStr (lit ''DataIntegrityProof'') \<or> jget (lit ''cryptosuite'') d \<noteq> JStr (lit ''eddsa-jcs-2022'') \<or>
              jget (lit ''proofPurpose'') d \<noteq> JStr (lit ''assertionMethod'') then None
           else case (jget (lit ''verificationMethod'') d, jget (lit ''proofValue'') d) of
             (JStr vm, JStr pv) \<Rightarrow>
               (let multikey = (if starts_with (lit ''did:key:'') vm then before 35 (drop (length (lit ''did:key:'')) vm) else [])
                in if multikey \<in> set active then Some (d, multikey, pv) else None)
           | _ \<Rightarrow> None)
      | _ \<Rightarrow> None)"

definition proof_config :: "jobj \<Rightarrow> jobj" where
  "proof_config d = filter (\<lambda>kv. fst kv \<noteq> lit ''proofValue'') d"

fun check_proofs :: "webvh_env \<Rightarrow> str list \<Rightarrow> bytes \<Rightarrow> json list \<Rightarrow> unit result" where
  "check_proofs E active doc_hash [] = Inl DidWebvhError"
| "check_proofs E active doc_hash (p # ps) =
     (case usable_proof active p of
        None \<Rightarrow> check_proofs E active doc_hash ps
      | Some (d, multikey, pv) \<Rightarrow>
          bindR (webvh_jcs (JObj (proof_config d))) (\<lambda>config.
            case decode_multibase pv of
              Inl e \<Rightarrow> if e = MultibaseError then check_proofs E active doc_hash ps else Inl e
            | Inr signature \<Rightarrow>
                bindR (webvh_multikey_to_jwk multikey) (\<lambda>jwk.
                bindR (verify_signature (we_crypto E) (lit ''EdDSA'') jwk (digest_of (we_crypto E) (lit ''sha256'') config @ doc_hash) signature)
                  (\<lambda>ok. if ok then Inr () else check_proofs E active doc_hash ps))))"

definition verify_entry_proof :: "webvh_env \<Rightarrow> jobj \<Rightarrow> str list \<Rightarrow> unit result" where
  "verify_entry_proof E entry active_keys =
     (let proofs = (case jget (lit ''proof'') entry of JObj d \<Rightarrow> [JObj d] | JList ps \<Rightarrow> ps | _ \<Rightarrow> [])
      in if proofs = [] then Inl DidWebvhError
         else bindR (webvh_jcs (JObj (entry_without_proof entry))) (\<lambda>document.
                check_proofs E active_keys (digest_of (we_crypto E) (lit ''sha256'') document) proofs))"

definition parse_version_id :: "json \<Rightarrow> nat \<Rightarrow> str result" where
  "parse_version_id version_id expected_number =
     (case version_id of
        JStr s \<Rightarrow> if 45 \<notin> set s \<or> before 45 s \<noteq> decimal expected_number \<or> after 45 s = [] then Inl DidWebvhError else Inr (after 45 s)
      | _ \<Rightarrow> Inl DidWebvhError)"

definition witness_policy_active :: "jobj \<Rightarrow> bool" where
  "witness_policy_active witness =
     (if witness = [] then False
      else case jget (lit ''witnesses'') witness of
        JList (w # ws) \<Rightarrow> True
      | _ \<Rightarrow> (let threshold = jget (lit ''threshold'') witness in threshold \<noteq> JNull \<and> \<not> py_eq threshold (JInt 0)))"

definition version_time :: "webvh_env \<Rightarrow> jobj \<Rightarrow> int result" where
  "version_time E entry =
     (case jget (lit ''versionTime'') entry of
        JStr raw \<Rightarrow> (case we_datetime E (utc_suffix raw) of None \<Rightarrow> Inl DidWebvhError | Some t \<Rightarrow> Inr t)
      | _ \<Rightarrow> Inl DidWebvhError)"

section \<open>The replay\<close>

record webvh_state =
  ws_version_id :: str
  ws_time :: "int option"
  ws_keys :: "str list"
  ws_next :: "json list"
  ws_witness :: jobj
  ws_doc :: jobj
  ws_deactivated :: bool

definition start_state :: webvh_state where
  "start_state = \<lparr>ws_version_id = [], ws_time = None, ws_keys = [], ws_next = [], ws_witness = [], ws_doc = [], ws_deactivated = False\<rparr>"

text \<open>\<open>updateKeys\<close>: absent (or null), or a list of ASCII strings.\<close>

definition declared_keys :: "jobj \<Rightarrow> str list option result" where
  "declared_keys params =
     (case jget (lit ''updateKeys'') params of
        JNull \<Rightarrow> Inr None
      | JList ks \<Rightarrow>
          if list_all (\<lambda>k. case k of JStr s \<Rightarrow> is_ascii s | _ \<Rightarrow> False) ks then Inr (Some (jstrs ks)) else Inl DidWebvhError
      | _ \<Rightarrow> Inl DidWebvhError)"

fun check_prerotated :: "webvh_env \<Rightarrow> json list \<Rightarrow> str list \<Rightarrow> unit result" where
  "check_prerotated E hashes [] = Inr ()"
| "check_prerotated E hashes (k # ks) =
     bindR (prerotation_hash E k) (\<lambda>h. if JStr h \<in> set hashes then check_prerotated E hashes ks else Inl DidWebvhError)"

text \<open>The keys that may sign this entry, and the predecessor its hash binds.\<close>

definition authorize :: "webvh_env \<Rightarrow> nat \<Rightarrow> webvh_state \<Rightarrow> jobj \<Rightarrow> str list option \<Rightarrow> (str list \<times> str) result" where
  "authorize E index s params declared =
     (if index = 0
      then if jget (lit ''method'') params \<noteq> JStr (lit ''did:webvh:1.0'') then Inl DidWebvhError
           else case jget (lit ''scid'') params of
             JStr scid \<Rightarrow>
               (if scid = [] then Inl DidWebvhError
                else case declared of Some (k # ks) \<Rightarrow> Inr (k # ks, scid) | _ \<Rightarrow> Inl DidWebvhError)
           | _ \<Rightarrow> Inl DidWebvhError
      else if ws_next s \<noteq> []
      then (case declared of
              Some (k # ks) \<Rightarrow> bindR (check_prerotated E (ws_next s) (k # ks)) (\<lambda>_. Inr (k # ks, ws_version_id s))
            | _ \<Rightarrow> Inl DidWebvhError)
      else Inr (ws_keys s, ws_version_id s))"

definition check_scid :: "webvh_env \<Rightarrow> jobj \<Rightarrow> str \<Rightarrow> unit result" where
  "check_scid E entry scid =
     bindR (deep_replace_scid scid 0 (JObj (rehashed entry SCID_PLACEHOLDER))) (\<lambda>prelim.
     bindR (webvh_jcs prelim) (\<lambda>b. if multihash_b58 E b \<noteq> scid then Inl DidWebvhError else Inr ()))"

definition check_entry_hash :: "webvh_env \<Rightarrow> nat \<Rightarrow> jobj \<Rightarrow> str \<Rightarrow> unit result" where
  "check_entry_hash E number entry predecessor =
     bindR (parse_version_id (jget (lit ''versionId'') entry) number) (\<lambda>entry_hash.
     bindR (webvh_jcs (JObj (rehashed entry predecessor))) (\<lambda>b.
       if multihash_b58 E b \<noteq> entry_hash then Inl DidWebvhError else Inr ()))"

text \<open>The parameters an entry changes; the others stay in force.\<close>

definition carry :: "jobj \<Rightarrow> str list option \<Rightarrow> webvh_state \<Rightarrow> webvh_state" where
  "carry params declared s =
     s\<lparr>ws_keys := (case declared of Some ks \<Rightarrow> ks | None \<Rightarrow> ws_keys s),
       ws_next := (case map_of params (lit ''nextKeyHashes'') of None \<Rightarrow> ws_next s | Some (JList hs) \<Rightarrow> hs | Some _ \<Rightarrow> []),
       ws_witness := (case map_of params (lit ''witness'') of None \<Rightarrow> ws_witness s | Some (JObj w) \<Rightarrow> w | Some _ \<Rightarrow> []),
       ws_deactivated := (case map_of params (lit ''deactivated'') of None \<Rightarrow> ws_deactivated s | Some v \<Rightarrow> truthy v)\<rparr>"

definition log_step :: "webvh_env \<Rightarrow> nat \<Rightarrow> webvh_state \<Rightarrow> jobj \<Rightarrow> webvh_state result" where
  "log_step E index s entry =
     bindR (as_object DidWebvhError (jget (lit ''parameters'') entry)) (\<lambda>params.
     bindR (declared_keys params) (\<lambda>declared.
     bindR (authorize E index s params declared) (\<lambda>(authorized, predecessor).
     bindR (if index = 0 then check_scid E entry predecessor else Inr ()) (\<lambda>_.
     bindR (check_entry_hash E (index + 1) entry predecessor) (\<lambda>_.
     bindR (version_time E entry) (\<lambda>vtime.
       if (case ws_time s of None \<Rightarrow> False | Some t \<Rightarrow> vtime < t) then Inl DidWebvhError
       else
     bindR (verify_entry_proof E entry authorized) (\<lambda>_.
       let s' = carry params declared s
       in if witness_policy_active (ws_witness s') then Inl DidWebvhError
          else
     bindR (as_object DidWebvhError (jget (lit ''state'') entry)) (\<lambda>state.
       Inr (s'\<lparr>ws_version_id := did_text (jget (lit ''versionId'') entry), ws_time := Some vtime, ws_doc := state\<rparr>)))))))))"

fun replay_entries :: "webvh_env \<Rightarrow> nat \<Rightarrow> webvh_state \<Rightarrow> jobj list \<Rightarrow> webvh_state result" where
  "replay_entries E index s [] = Inr s"
| "replay_entries E index s (entry # rest) = bindR (log_step E index s entry) (\<lambda>s'. replay_entries E (index + 1) s' rest)"

definition finish_replay :: "webvh_env \<Rightarrow> str \<Rightarrow> webvh_state \<Rightarrow> did_document result" where
  "finish_replay E did s =
     (if jget (lit ''id'') (ws_doc s) \<noteq> JStr did then Inl DidWebvhError
      else if has_key (lit ''didDocument'') (ws_doc s) then Inl DidWebvhError
      else if ws_deactivated s then Inl DidWebvhError
      else bindR (parse_did_document (we_point E) (JObj (ws_doc s))) (\<lambda>doc.
             if dd_id doc \<noteq> did then Inl DidWebvhError else Inr doc))"

section \<open>The log text\<close>

text \<open>\<open>str.splitlines\<close>\<close>

definition line_break :: "nat \<Rightarrow> bool" where
  "line_break c = (10 \<le> c \<and> c \<le> 13 \<or> 28 \<le> c \<and> c \<le> 30 \<or> c \<in> {133, 8232, 8233})"

fun splitlines :: "str \<Rightarrow> str \<Rightarrow> str list" where
  "splitlines line [] = (if line = [] then [] else [line])"
| "splitlines line (c # s) =
     (if c = 13 \<and> s \<noteq> [] \<and> hd s = 10 then line # splitlines [] (tl s)
      else if line_break c then line # splitlines [] s
      else splitlines (line @ [c]) s)"

fun parse_log :: "webvh_env \<Rightarrow> jobj list \<Rightarrow> str list \<Rightarrow> jobj list result" where
  "parse_log E got [] = (if got = [] then Inl DidWebvhError else Inr got)"
| "parse_log E got (line # rest) =
     (if strip line = [] then parse_log E got rest
      else if MAX_LOG_ENTRIES \<le> length got then Inl DidWebvhError
      else bindR (catchR is_value_error DidWebvhError (loads (we_loads E) line)) (\<lambda>v.
           bindR (as_object DidWebvhError v) (\<lambda>obj. parse_log E (got @ [obj]) rest)))"

definition parse_lines :: "webvh_env \<Rightarrow> str \<Rightarrow> jobj list result" where
  "parse_lines E text = parse_log E [] (splitlines [] text)"

definition replay :: "webvh_env \<Rightarrow> str \<Rightarrow> str \<Rightarrow> did_document result" where
  "replay E did text =
     bindR (parse_lines E text) (\<lambda>logged.
     bindR (replay_entries E 0 start_state logged) (finish_replay E did))"

definition did_webvh_supports :: "str \<Rightarrow> bool" where
  "did_webvh_supports did = starts_with (lit ''did:webvh:'') did"

definition did_webvh_resolve :: "webvh_env \<Rightarrow> (str \<Rightarrow> str result) \<Rightarrow> str \<Rightarrow> did_document result" where
  "did_webvh_resolve E fetch did = bindR (did_webvh_url did) (\<lambda>url. bindR (fetch url) (replay E did))"

section \<open>What a log says\<close>

text \<open>The value an entry sets, and the one in force after a log: the latest one set.\<close>

definition latest :: "('a \<Rightarrow> 'b option) \<Rightarrow> 'b \<Rightarrow> 'a list \<Rightarrow> 'b" where
  "latest f d xs = (case List.map_filter f (rev xs) of [] \<Rightarrow> d | x # _ \<Rightarrow> x)"

fun members :: "json \<Rightarrow> jobj" where
  "members (JObj d) = d"
| "members _ = []"

definition entry_params :: "jobj \<Rightarrow> jobj" where "entry_params e = members (jget (lit ''parameters'') e)"

definition entry_keys :: "jobj \<Rightarrow> str list option" where
  "entry_keys e = (case declared_keys (entry_params e) of Inr d \<Rightarrow> d | Inl _ \<Rightarrow> None)"

definition entry_commitment :: "jobj \<Rightarrow> json list option" where
  "entry_commitment e = map_option (\<lambda>v. case v of JList hs \<Rightarrow> hs | _ \<Rightarrow> []) (map_of (entry_params e) (lit ''nextKeyHashes''))"

definition entry_deactivates :: "jobj \<Rightarrow> bool option" where
  "entry_deactivates e = map_option truthy (map_of (entry_params e) (lit ''deactivated''))"

definition keys_in_force :: "jobj list \<Rightarrow> str list" where "keys_in_force es = latest entry_keys [] es"
definition commitment :: "jobj list \<Rightarrow> json list" where "commitment es = latest entry_commitment [] es"
definition is_deactivated :: "jobj list \<Rightarrow> bool" where "is_deactivated es = latest entry_deactivates False es"

definition version_of :: "jobj \<Rightarrow> str" where "version_of e = did_text (jget (lit ''versionId'') e)"
definition state_of :: "jobj \<Rightarrow> jobj" where "state_of e = members (jget (lit ''state'') e)"

text \<open>The hash of an entry binds it to its predecessor; the genesis entry to its own identifier.\<close>

definition predecessor_of :: "jobj list \<Rightarrow> nat \<Rightarrow> str" where
  "predecessor_of es i = (if i = 0 then did_text (jget (lit ''scid'') (entry_params (es ! 0))) else version_of (es ! (i - 1)))"

definition chained :: "webvh_env \<Rightarrow> jobj list \<Rightarrow> nat \<Rightarrow> bool" where
  "chained E es i \<longleftrightarrow>
     (\<exists>b. canonicalize (JObj (rehashed (es ! i) (predecessor_of es i))) = Inr b \<and>
        jget (lit ''versionId'') (es ! i) = JStr (decimal (i + 1) @ [45] @ multihash_b58 E b))"

definition proof_by :: "webvh_env \<Rightarrow> str list \<Rightarrow> bytes \<Rightarrow> json \<Rightarrow> bool" where
  "proof_by E keys doc_hash p \<longleftrightarrow>
     (\<exists>d k pv config signature jwk. p = JObj d \<and> usable_proof keys p = Some (d, k, pv) \<and> k \<in> set keys \<and>
        canonicalize (JObj (proof_config d)) = Inr config \<and> decode_multibase pv = Inr signature \<and> webvh_multikey_to_jwk k = Inr jwk \<and>
        verify_signature (we_crypto E) (lit ''EdDSA'') jwk (digest_of (we_crypto E) (lit ''sha256'') config @ doc_hash) signature = Inr True)"

definition signed_by :: "webvh_env \<Rightarrow> jobj \<Rightarrow> str list \<Rightarrow> bool" where
  "signed_by E e keys \<longleftrightarrow>
     (\<exists>document p. canonicalize (JObj (entry_without_proof e)) = Inr document \<and>
        (jget (lit ''proof'') e = p \<or> (\<exists>ps. jget (lit ''proof'') e = JList ps \<and> p \<in> set ps)) \<and>
        proof_by E keys (digest_of (we_crypto E) (lit ''sha256'') document) p)"

text \<open>The keys whose signature the entry needs: its own at the start and when they were committed to, else those in force.\<close>

definition signers :: "jobj list \<Rightarrow> nat \<Rightarrow> str list" where
  "signers es i =
     (if i = 0 \<or> commitment (take i es) \<noteq> [] then (case entry_keys (es ! i) of Some ks \<Rightarrow> ks | None \<Rightarrow> []) else keys_in_force (take i es))"

definition authorized_entry :: "webvh_env \<Rightarrow> jobj list \<Rightarrow> nat \<Rightarrow> bool" where
  "authorized_entry E es i \<longleftrightarrow> signed_by E (es ! i) (signers es i) \<and>
     (0 < i \<and> commitment (take i es) \<noteq> [] \<longrightarrow>
        (\<forall>k\<in>set (signers es i). \<exists>h. prerotation_hash E k = Inr h \<and> JStr h \<in> set (commitment (take i es))))"

definition in_order :: "webvh_env \<Rightarrow> jobj list \<Rightarrow> nat \<Rightarrow> bool" where
  "in_order E es i \<longleftrightarrow> (\<exists>t. version_time E (es ! i) = Inr t \<and> (0 < i \<longrightarrow> (\<exists>t'. version_time E (es ! (i - 1)) = Inr t' \<and> t' \<le> t)))"

section \<open>Lemmas\<close>

lemma latest_snoc: "latest f d (xs @ [x]) = (case f x of Some y \<Rightarrow> y | None \<Rightarrow> latest f d xs)"
  by (simp add: latest_def List.map_filter_simps split: option.splits)

lemma latest_Nil [simp]: "latest f d [] = d"
  by (simp add: latest_def List.map_filter_simps)

lemma webvh_jcs_Inr [simp]: "webvh_jcs v = Inr b \<longleftrightarrow> canonicalize v = Inr b"
  by (simp add: webvh_jcs_def)

declare as_object_Inr [simp]

lemma parse_version_id_Inr: "parse_version_id v n = Inr h \<longleftrightarrow> v = JStr (decimal n @ [45] @ h) \<and> h \<noteq> []"
proof
  assume "parse_version_id v n = Inr h"
  then obtain s where s: "v = JStr s" "45 \<in> set s" "before 45 s = decimal n" "after 45 s = h" "h \<noteq> []"
    by (cases v) (auto simp: parse_version_id_def split: if_splits)
  have "s = before 45 s @ 45 # after 45 s"
    using s(2) by (induction s) (auto simp: before_def after_def)
  with s show "v = JStr (decimal n @ [45] @ h) \<and> h \<noteq> []" by simp
next
  have "45 \<notin> set (decimal n)" using decimal_digits [of n] by auto
  then have "before 45 (decimal n @ 45 # h) = decimal n" "after 45 (decimal n @ 45 # h) = h"
    by (auto simp: before_def after_def takeWhile_append dropWhile_append)
  moreover assume "v = JStr (decimal n @ [45] @ h) \<and> h \<noteq> []"
  ultimately show "parse_version_id v n = Inr h" by (simp add: parse_version_id_def)
qed

lemma check_entry_hash_Inr:
  "check_entry_hash E n e p = Inr u \<Longrightarrow>
     \<exists>b. canonicalize (JObj (rehashed e p)) = Inr b \<and> jget (lit ''versionId'') e = JStr (decimal n @ [45] @ multihash_b58 E b)"
  by (auto simp: check_entry_hash_def bindR_Inr parse_version_id_Inr split: if_splits)

lemma usable_proof_Some: "usable_proof keys p = Some (d, k, pv) \<Longrightarrow> p = JObj d \<and> k \<in> set keys"
  by (cases p) (auto simp: usable_proof_def Let_def split: if_splits json.splits)

lemma proof_attempt:
  assumes "usable_proof keys p = Some (d, k, pv)" "webvh_jcs (JObj (proof_config d)) = Inr config" "decode_multibase pv = Inr signature"
    "webvh_multikey_to_jwk k = Inr jwk"
    "verify_signature (we_crypto E) (lit ''EdDSA'') jwk (digest_of (we_crypto E) (lit ''sha256'') config @ h) signature = Inr True"
  shows "proof_by E keys h p"
  unfolding proof_by_def using assms usable_proof_Some [OF assms(1)] by auto

lemma check_proofs_Inr: "check_proofs E keys h ps = Inr u \<Longrightarrow> \<exists>p\<in>set ps. proof_by E keys h p"
proof (induction ps)
  case (Cons p ps)
  show ?case
  proof (cases "check_proofs E keys h ps = Inr u")
    case True
    with Cons.IH show ?thesis by auto
  next
    case False
    with Cons.prems obtain d k pv where p: "usable_proof keys p = Some (d, k, pv)" by (auto split: option.splits)
    have "proof_by E keys h p"
      by (cases "decode_multibase pv") (use False Cons.prems p in \<open>auto simp: bindR_Inr split: if_splits intro: proof_attempt\<close>)
    then show ?thesis by simp
  qed
qed simp

lemma verify_entry_proof_Inr:
  assumes "verify_entry_proof E e keys = Inr u"
  shows "signed_by E e keys"
proof -
  let ?ps = "case jget (lit ''proof'') e of JObj d \<Rightarrow> [JObj d] | JList ps \<Rightarrow> ps | _ \<Rightarrow> []"
  obtain document where d: "canonicalize (JObj (entry_without_proof e)) = Inr document"
    "check_proofs E keys (digest_of (we_crypto E) (lit ''sha256'') document) ?ps = Inr u"
    using assms by (auto simp: verify_entry_proof_def Let_def bindR_Inr split: if_split_asm)
  have "p \<in> set ?ps \<Longrightarrow> jget (lit ''proof'') e = p \<or> (\<exists>ps. jget (lit ''proof'') e = JList ps \<and> p \<in> set ps)" for p
    by (cases "jget (lit ''proof'') e") auto
  with check_proofs_Inr [OF d(2)] d(1) show ?thesis unfolding signed_by_def by blast
qed

lemma check_prerotated_Inr:
  "check_prerotated E hs ks = Inr u \<Longrightarrow> k \<in> set ks \<Longrightarrow> \<exists>h. prerotation_hash E k = Inr h \<and> JStr h \<in> set hs"
  by (induction ks) (auto simp: bindR_Inr split: if_splits)

text \<open>The replay keeps exactly what the log says: its state after a log, and every check on every entry of it.\<close>

definition log_state :: "jobj list \<Rightarrow> webvh_state \<Rightarrow> bool" where
  "log_state es s \<longleftrightarrow> ws_keys s = keys_in_force es \<and> ws_next s = commitment es \<and> ws_deactivated s = is_deactivated es \<and>
     (es \<noteq> [] \<longrightarrow> ws_version_id s = version_of (last es) \<and> ws_doc s = state_of (last es) \<and> jget (lit ''state'') (last es) = JObj (ws_doc s))"

lemma carry_state:
  assumes "log_state es s" "jget (lit ''parameters'') e = JObj params" "declared_keys params = Inr declared"
  shows "ws_keys (carry params declared s) = keys_in_force (es @ [e])" "ws_next (carry params declared s) = commitment (es @ [e])"
    "ws_deactivated (carry params declared s) = is_deactivated (es @ [e])"
proof -
  have p: "entry_params e = params" "entry_keys e = declared" using assms(2,3) by (simp_all add: entry_params_def entry_keys_def)
  show "ws_keys (carry params declared s) = keys_in_force (es @ [e])"
    using assms(1) by (auto simp: log_state_def keys_in_force_def latest_snoc p carry_def split: option.splits)
  show "ws_next (carry params declared s) = commitment (es @ [e])"
    using assms(1) by (auto simp: log_state_def commitment_def latest_snoc entry_commitment_def p carry_def split: option.splits json.splits)
  show "ws_deactivated (carry params declared s) = is_deactivated (es @ [e])"
    using assms(1) by (auto simp: log_state_def is_deactivated_def latest_snoc entry_deactivates_def p carry_def split: option.splits)
qed

lemma authorize_Inr:
  assumes "authorize E i s params declared = Inr (authorized, predecessor)" "log_state (take i es) s" "i < length es"
    "jget (lit ''parameters'') (es ! i) = JObj params" "declared_keys params = Inr declared"
  shows "authorized = signers es i \<and> predecessor = predecessor_of es i \<and>
     (0 < i \<and> commitment (take i es) \<noteq> [] \<longrightarrow>
        (\<forall>k\<in>set (signers es i). \<exists>h. prerotation_hash E k = Inr h \<and> JStr h \<in> set (commitment (take i es))))"
proof -
  have p: "entry_params (es ! i) = params" "entry_keys (es ! i) = declared"
    using assms(4,5) by (simp_all add: entry_params_def entry_keys_def)
  show ?thesis
  proof (cases "i = 0")
    case True
    then show ?thesis
      using assms(1) p by (auto simp: authorize_def signers_def predecessor_of_def split: if_splits json.splits option.splits list.splits)
  next
    case False
    have s: "ws_keys s = keys_in_force (take i es)" "ws_next s = commitment (take i es)" "ws_version_id s = version_of (es ! (i - 1))"
      using assms(2,3) False by (auto simp: log_state_def last_conv_nth)
    from assms(1) False show ?thesis
      by (auto simp: authorize_def signers_def predecessor_of_def s p bindR_Inr split: if_splits option.splits list.splits
          dest: check_prerotated_Inr)
  qed
qed

lemma log_step_Inr:
  assumes "log_step E i s (es ! i) = Inr s'" "log_state (take i es) s" "i < length es"
    "ws_time s = (if i = 0 then None else Some t)" "0 < i \<Longrightarrow> version_time E (es ! (i - 1)) = Inr t"
  shows "log_state (take (Suc i) es) s' \<and> chained E es i \<and> authorized_entry E es i \<and> in_order E es i \<and>
    (\<exists>t'. ws_time s' = Some t' \<and> version_time E (es ! i) = Inr t') \<and> (i = 0 \<longrightarrow> check_scid E (es ! 0) (predecessor_of es 0) = Inr ())"
proof -
  obtain params declared authorized predecessor vtime state where k: "jget (lit ''parameters'') (es ! i) = JObj params"
    "declared_keys params = Inr declared" "authorize E i s params declared = Inr (authorized, predecessor)"
    "check_scid E (es ! i) predecessor = Inr () \<or> i \<noteq> 0" "check_entry_hash E (i + 1) (es ! i) predecessor = Inr ()"
    "version_time E (es ! i) = Inr vtime" "\<not> (case ws_time s of None \<Rightarrow> False | Some t \<Rightarrow> vtime < t)"
    "verify_entry_proof E (es ! i) authorized = Inr ()" "jget (lit ''state'') (es ! i) = JObj state"
    "s' = (carry params declared s)\<lparr>ws_version_id := did_text (jget (lit ''versionId'') (es ! i)), ws_time := Some vtime, ws_doc := state\<rparr>"
    using assms(1) by (auto simp: log_step_def bindR_Inr Let_def split: if_split_asm)
  note a = authorize_Inr [OF k(3) assms(2,3) k(1,2)]
  have take: "take (Suc i) es = take i es @ [es ! i]" using assms(3) by (simp add: take_Suc_conv_app_nth)
  have "log_state (take (Suc i) es) s'"
    unfolding log_state_def take using carry_state [OF assms(2) k(1,2)] k(9,10) by (simp add: version_of_def state_of_def)
  moreover have "chained E es i" using check_entry_hash_Inr [OF k(5)] a unfolding chained_def by simp
  moreover have "authorized_entry E es i" using verify_entry_proof_Inr [OF k(8)] a unfolding authorized_entry_def by blast
  moreover have "in_order E es i" using k(6,7) assms(4,5) by (auto simp: in_order_def)
  ultimately show ?thesis using k(4,6,10) a by auto
qed

lemma replay_entries_Inr:
  assumes "replay_entries E i s (drop i es) = Inr s'" "log_state (take i es) s" "i \<le> length es"
    "ws_time s = (if i = 0 then None else Some t)" "0 < i \<Longrightarrow> version_time E (es ! (i - 1)) = Inr t"
  shows "log_state es s' \<and> (\<forall>j. i \<le> j \<and> j < length es \<longrightarrow> chained E es j \<and> authorized_entry E es j \<and> in_order E es j) \<and>
    (i = 0 \<and> es \<noteq> [] \<longrightarrow> check_scid E (es ! 0) (predecessor_of es 0) = Inr ())"
  using assms
proof (induction "length es - i" arbitrary: i s t)
  case (Suc n)
  then have i: "i < length es" by simp
  then have "drop i es = es ! i # drop (Suc i) es" by (simp add: Cons_nth_drop_Suc)
  with Suc.prems(1) obtain s1 where s1: "log_step E i s (es ! i) = Inr s1" "replay_entries E (Suc i) s1 (drop (Suc i) es) = Inr s'"
    by (auto simp: bindR_Inr)
  have st: "log_state (take (Suc i) es) s1 \<and> chained E es i \<and> authorized_entry E es i \<and> in_order E es i \<and>
    (\<exists>t'. ws_time s1 = Some t' \<and> version_time E (es ! i) = Inr t') \<and> (i = 0 \<longrightarrow> check_scid E (es ! 0) (predecessor_of es 0) = Inr ())"
    using log_step_Inr [OF s1(1) Suc.prems(2) i Suc.prems(4,5)] by blast
  then obtain t' where t': "ws_time s1 = Some t'" "version_time E (es ! i) = Inr t'" by blast
  have "log_state es s' \<and> (\<forall>j. Suc i \<le> j \<and> j < length es \<longrightarrow> chained E es j \<and> authorized_entry E es j \<and> in_order E es j)"
    using Suc.hyps(1) [of "Suc i" s1 t'] Suc.hyps(2) s1(2) st t' i by simp
  with st show ?case by (metis Suc_leI le_neq_implies_less)
qed auto

lemma parse_log_length: "parse_log E got ls = Inr es \<Longrightarrow> length got \<le> MAX_LOG_ENTRIES \<Longrightarrow> length es \<le> MAX_LOG_ENTRIES \<and> es \<noteq> []"
  by (induction ls arbitrary: got) (fastforce simp: bindR_Inr split: if_splits)+

section \<open>An example log\<close>

text \<open>One entry under a backend whose digests are all empty, so that the log's own identifier is the text \<open>2P1\<close>; the state names
  a DID with another identifier.\<close>

definition ex_vh_key :: str where "ex_vh_key = encode_multibase ([237, 1] @ replicate 32 7)"

definition ex_vh_params :: jobj where
  "ex_vh_params = [(lit ''method'', JStr (lit ''did:webvh:1.0'')), (lit ''scid'', JStr (lit ''2P1'')), (lit ''updateKeys'', JList [JStr ex_vh_key])]"

definition ex_vh_proof :: jobj where
  "ex_vh_proof = [(lit ''type'', JStr (lit ''DataIntegrityProof'')), (lit ''cryptosuite'', JStr (lit ''eddsa-jcs-2022'')),
     (lit ''proofPurpose'', JStr (lit ''assertionMethod'')), (lit ''verificationMethod'', JStr (lit ''did:key:'' @ ex_vh_key)),
     (lit ''proofValue'', JStr (lit ''z''))]"

definition ex_vh_did :: str where "ex_vh_did = lit ''did:webvh:Qv:a.b''"

definition ex_vh_entry :: jobj where
  "ex_vh_entry = [(lit ''versionId'', JStr (lit ''1-2P1'')), (lit ''versionTime'', JStr (lit ''t'')), (lit ''parameters'', JObj ex_vh_params),
     (lit ''state'', JObj [(lit ''id'', JStr ex_vh_did)]), (lit ''proof'', JObj ex_vh_proof)]"

definition ex_vh_env :: webvh_env where
  "ex_vh_env = \<lparr>we_crypto = toy_crypto\<lparr>digest_of := \<lambda>h b. []\<rparr>, we_point = (\<lambda>c b. Inl PyValueError),
     we_loads = (\<lambda>t. Inr (JObj ex_vh_entry)), we_datetime = (\<lambda>t. Some 0)\<rparr>"

lemma ex_vh_fields [simp]:
  "digest_of (we_crypto ex_vh_env) = (\<lambda>h b. [])" "we_datetime ex_vh_env = (\<lambda>t. Some 0)" "we_loads ex_vh_env = (\<lambda>t. Inr (JObj ex_vh_entry))"
  by (simp_all add: ex_vh_env_def)

lemma ex_vh_hash: "multihash_b58 ex_vh_env b = lit ''2P1''"
  by (simp add: multihash_b58_def MULTIHASH_SHA256_PREFIX_def b58btc_encode_def n_leading_def from_bytes_def b58_digits.simps B58_def lit_def)

lemma b58_digits_chars: "set (b58_digits n) \<subseteq> set B58"
proof (induction n rule: b58_digits.induct)
  case (1 n)
  then show ?case by (cases "n = 0") (auto simp: b58_digits.simps [of n] b58_digits.simps [of 0] B58_facts)
qed

lemma b58_digits_length: "n < 58 ^ k \<Longrightarrow> length (b58_digits n) \<le> k"
proof (induction k arbitrary: n)
  case (Suc k)
  then have "n div 58 < 58 ^ k" by (simp add: less_mult_imp_div_less mult.commute)
  with Suc show ?case by (simp add: b58_digits.simps [of n])
qed (simp add: b58_digits.simps [of 0])

lemma replace_all_chars: "set (replace_all old new s) \<subseteq> set new \<union> set s"
proof (induction old new s rule: replace_all.induct)
  case (1 old new s)
  then show ?case
    by (subst replace_all.simps) (auto dest: in_set_dropD list.set_sel(2) simp: hd_in_set split: if_splits)
qed

lemma ex_vh_chars: "\<forall>c\<in>set ex_vh_key. 49 \<le> c \<and> c \<le> 122"
proof -
  have "\<forall>c\<in>set B58. 49 \<le> c \<and> c \<le> 122" by (simp add: B58_def lit_def)
  then show ?thesis
    using b58_digits_chars by (auto simp: ex_vh_key_def encode_multibase_def b58btc_encode_def B58_facts lit_def split: if_splits)
qed

lemma ex_vh_jwk: "webvh_multikey_to_jwk ex_vh_key = Inr (okp_jwk (replicate 32 7))"
proof -
  have "from_bytes ([237, 1] @ replicate 32 7) < 256 ^ 34"
    using from_bytes_less [of "[237, 1] @ replicate 32 7"] by simp
  also have "\<dots> \<le> 58 ^ 68" by simp
  finally have "length (b58_digits (from_bytes ([237, 1] @ replicate 32 7))) \<le> 68" by (rule b58_digits_length)
  then have "length (b58btc_encode ([237, 1] @ replicate 32 7)) \<le> 68" by (simp add: b58btc_encode_def n_leading_def)
  then have "decode_multibase ex_vh_key = Inr ([237, 1] @ replicate 32 7)"
    by (simp add: decode_multibase_def ex_vh_key_def encode_multibase_def lit_def b58btc_decode_def b58_bytes_encode MAX_B58_LEN_def)
  moreover have "read_varint ([237, 1] @ replicate 32 7) = Inr (237, 2)" by (simp add: read_varint_def MAX_VARINT_BYTES_def Let_def)
  ultimately show ?thesis by (simp add: webvh_multikey_to_jwk_def MC_ED25519_def Let_def)
qed

lemma ex_vh_text: "text_ok ex_vh_key" "is_ascii ex_vh_key" "text_ok (replace_all old SCID_PLACEHOLDER ex_vh_key)" "before 35 ex_vh_key = ex_vh_key"
proof -
  have "\<forall>c\<in>set (replace_all old SCID_PLACEHOLDER ex_vh_key). c < 128"
    using replace_all_chars [of old SCID_PLACEHOLDER ex_vh_key] ex_vh_chars by (fastforce simp: SCID_PLACEHOLDER_def lit_def)
  then show "text_ok (replace_all old SCID_PLACEHOLDER ex_vh_key)" by (fastforce simp: text_ok_def list_all_iff surrogate_def)
  show "text_ok ex_vh_key" "is_ascii ex_vh_key" "before 35 ex_vh_key = ex_vh_key"
    using ex_vh_chars by (fastforce simp: text_ok_def list_all_iff surrogate_def is_ascii_def before_def intro!: takeWhile_eq_all_conv [THEN iffD2])+
qed

lemma ex_vh_canonical:
  "\<exists>b. canonicalize (JObj (rehashed ex_vh_entry (lit ''2P1''))) = Inr b" "\<exists>b. canonicalize (JObj (proof_config ex_vh_proof)) = Inr b"
  "\<exists>b. canonicalize (JObj (entry_without_proof ex_vh_entry)) = Inr b"
  using ex_vh_text unfolding isOk_iff [symmetric] canonicalize_ok
  by (simp_all add: rehashed_def entry_without_proof_def proof_config_def ex_vh_entry_def ex_vh_params_def ex_vh_proof_def ex_vh_did_def
      text_ok_def lit_def surrogate_def)

lemma ex_vh_scid: "check_scid ex_vh_env ex_vh_entry (lit ''2P1'') = Inr ()"
proof -
  let ?s = "\<lambda>s. JStr (replace_all (lit ''2P1'') SCID_PLACEHOLDER s)"
  let ?v = "JObj [(lit ''versionId'', ?s SCID_PLACEHOLDER), (lit ''versionTime'', ?s (lit ''t'')),
       (lit ''parameters'', JObj [(lit ''method'', ?s (lit ''did:webvh:1.0'')), (lit ''scid'', ?s (lit ''2P1'')),
          (lit ''updateKeys'', JList [?s ex_vh_key])]), (lit ''state'', JObj [(lit ''id'', ?s ex_vh_did)])]"
  have "deep_replace_scid (lit ''2P1'') 0 (JObj (rehashed ex_vh_entry SCID_PLACEHOLDER)) = Inr ?v"
    by (simp add: rehashed_def entry_without_proof_def ex_vh_entry_def ex_vh_params_def deep_replace_scid.simps MAX_SCID_DEPTH_def)
  moreover have "text_ok (replace_all (lit ''2P1'') SCID_PLACEHOLDER s)" if "\<forall>c\<in>set s. c < 128" for s
    using replace_all_chars [of "lit ''2P1''" SCID_PLACEHOLDER s] that
    by (fastforce simp: text_ok_def list_all_iff surrogate_def SCID_PLACEHOLDER_def lit_def)
  then have "texts_ok ?v"
    using ex_vh_text(3) by (simp add: text_ok_def [of "lit _"]) (simp add: lit_def surrogate_def ex_vh_did_def SCID_PLACEHOLDER_def)
  ultimately show ?thesis
    using canonicalize_ok unfolding check_scid_def by (auto simp: bindR_Inr ex_vh_hash isOk_iff numbers_ok.simps)
qed

lemma ex_vh_signed: "verify_entry_proof ex_vh_env ex_vh_entry [ex_vh_key] = Inr ()"
proof -
  have u: "usable_proof [ex_vh_key] (JObj ex_vh_proof) = Some (ex_vh_proof, ex_vh_key, lit ''z'')"
    using ex_vh_text(4) by (simp add: usable_proof_def ex_vh_proof_def jget_def starts_with_iff Let_def)
  have d: "decode_multibase (lit ''z'') = Inr []"
    by (simp add: decode_multibase_def b58btc_decode_def b58_bytes_def nat_to_bytes_def n_leading_def lit_def MAX_B58_LEN_def)
  have v: "verify_signature (we_crypto ex_vh_env) (lit ''EdDSA'') (okp_jwk (replicate 32 7)) [] [] = Inr True"
    by (simp add: verify_signature_def ED25519_ALG_NAMES_def okp_jwk_def jwk_bytes_simps toy_crypto_def ex_vh_env_def)
  obtain c doc where "canonicalize (JObj (proof_config ex_vh_proof)) = Inr c" "canonicalize (JObj (entry_without_proof ex_vh_entry)) = Inr doc"
    using ex_vh_canonical by blast
  then have c: "webvh_jcs (JObj (proof_config ex_vh_proof)) = Inr c" "webvh_jcs (JObj (entry_without_proof ex_vh_entry)) = Inr doc" by simp_all
  have p: "jget (lit ''proof'') ex_vh_entry = JObj ex_vh_proof" by (simp add: ex_vh_entry_def jget_def)
  show ?thesis by (simp add: verify_entry_proof_def p c u d v ex_vh_jwk)
qed

definition ex_vh_document :: did_document where
  "ex_vh_document = \<lparr>dd_id = ex_vh_did, dd_methods = [], dd_raw = [(lit ''id'', JStr ex_vh_did)], dd_relationships = []\<rparr>"

lemma ex_vh_parsed: "parse_lines ex_vh_env (lit ''g'') = Inr [ex_vh_entry]"
proof -
  have "\<not> nesting_exceeds (JObj ex_vh_entry) MAX_DEPTH"
    by (simp add: nesting_exceeds_depth MAX_DEPTH_def ex_vh_entry_def ex_vh_params_def ex_vh_proof_def)
  then show ?thesis
    by (simp add: parse_lines_def line_break_def loads_def as_object_def strip_def py_space_def lit_def MAX_LOG_ENTRIES_def)
qed

lemma ex_vh_replayed:
  "\<exists>s. replay_entries ex_vh_env 0 start_state [ex_vh_entry] = Inr s \<and> ws_doc s = [(lit ''id'', JStr ex_vh_did)] \<and> \<not> ws_deactivated s"
proof -
  obtain b where "canonicalize (JObj (rehashed ex_vh_entry (lit ''2P1''))) = Inr b" using ex_vh_canonical(1) by blast
  then have b: "webvh_jcs (JObj (rehashed ex_vh_entry (lit ''2P1''))) = Inr b" by simp
  have g: "jget (lit ''parameters'') ex_vh_entry = JObj ex_vh_params" "jget (lit ''state'') ex_vh_entry = JObj [(lit ''id'', JStr ex_vh_did)]"
    "version_time ex_vh_env ex_vh_entry = Inr 0"
    by (simp_all add: ex_vh_entry_def jget_def version_time_def)
  have n: "parse_version_id (jget (lit ''versionId'') ex_vh_entry) 1 = Inr (lit ''2P1'')"
    by (simp add: parse_version_id_Inr ex_vh_entry_def jget_def lit_def decimal.simps)
  have a: "declared_keys ex_vh_params = Inr (Some [ex_vh_key])"
    "authorize ex_vh_env 0 start_state ex_vh_params (Some [ex_vh_key]) = Inr ([ex_vh_key], lit ''2P1'')"
    using ex_vh_text(2) by (simp_all add: declared_keys_def authorize_def ex_vh_params_def jget_def)
  have w: "map_of ex_vh_params (lit ''nextKeyHashes'') = None" "map_of ex_vh_params (lit ''witness'') = None"
    "map_of ex_vh_params (lit ''deactivated'') = None"
    by (simp_all add: ex_vh_params_def)
  show ?thesis
    by (simp add: log_step_def g a ex_vh_scid check_entry_hash_def n [simplified] b ex_vh_hash ex_vh_signed as_object_def Let_def)
       (simp add: carry_def w witness_policy_active_def start_state_def)
qed

lemma ex_vh_doc_parsed: "parse_did_document (we_point ex_vh_env) (JObj [(lit ''id'', JStr ex_vh_did)]) = Inr ex_vh_document"
  by (simp add: parse_did_document_def document_body_def jget_def get_array_def has_key_def RELATIONSHIP_KEYS_def ex_vh_document_def Let_def nesting_exceeds_depth MAX_DEPTH_def)

section \<open>Properties\<close>

text \<open>(C11) What a resolved did:webvh document proves. It is the last state of a log whose every entry is bound by its hash to the
  entry before it and numbered in order, signed by a key in force at that point, in time order; once a log commits to the next
  keys, only keys it committed to sign the next entry; the genesis entry hashes to its own identifier; the log is not
  deactivated, and the document's id is the DID that was asked for.\<close>

theorem webvh_history:
  assumes "replay E did text = Inr doc"
  shows "\<exists>es. parse_lines E text = Inr es \<and> 0 < length es \<and> length es \<le> 1000 \<and>
     (\<forall>i<length es. chained E es i \<and> authorized_entry E es i \<and> in_order E es i) \<and>
     check_scid E (es ! 0) (predecessor_of es 0) = Inr () \<and> \<not> is_deactivated es \<and>
     jget (lit ''state'') (last es) = JObj (state_of (last es)) \<and> jget (lit ''id'') (state_of (last es)) = JStr did \<and>
     parse_did_document (we_point E) (JObj (state_of (last es))) = Inr doc \<and> dd_id doc = did"
proof -
  obtain es s where r: "parse_lines E text = Inr es" "replay_entries E 0 start_state es = Inr s" "finish_replay E did s = Inr doc"
    using assms by (auto simp: replay_def bindR_Inr)
  have len: "length es \<le> 1000" "es \<noteq> []"
    using parse_log_length [of E "[]" _ es] r(1) by (simp_all add: parse_lines_def MAX_LOG_ENTRIES_def)
  have "log_state [] start_state"
    by (simp add: log_state_def start_state_def keys_in_force_def commitment_def is_deactivated_def)
  then have h: "log_state es s" "\<forall>j<length es. chained E es j \<and> authorized_entry E es j \<and> in_order E es j"
    "check_scid E (es ! 0) (predecessor_of es 0) = Inr ()"
    using replay_entries_Inr [of E 0 start_state es s] r(2) len(2) by (simp_all add: start_state_def)
  have f: "jget (lit ''id'') (ws_doc s) = JStr did" "\<not> ws_deactivated s" "parse_did_document (we_point E) (JObj (ws_doc s)) = Inr doc"
    "dd_id doc = did"
    using r(3) by (auto simp: finish_replay_def bindR_Inr split: if_splits)
  from h(1) len(2) f have "\<not> is_deactivated es" "ws_doc s = state_of (last es)" "jget (lit ''state'') (last es) = JObj (state_of (last es))"
    by (auto simp: log_state_def)
  with h f r(1) len show ?thesis by auto
qed

theorem webvh_history_witness:
  "replay ex_vh_env ex_vh_did (lit ''g'') = Inr ex_vh_document \<and>
   (\<exists>es. parse_lines ex_vh_env (lit ''g'') = Inr es \<and> (\<forall>i<length es. chained ex_vh_env es i \<and> authorized_entry ex_vh_env es i))"
proof -
  have "replay ex_vh_env ex_vh_did (lit ''g'') = Inr ex_vh_document"
    using ex_vh_replayed ex_vh_doc_parsed
    by (auto simp: replay_def ex_vh_parsed finish_replay_def jget_def has_key_def ex_vh_document_def)
  then show ?thesis using webvh_history [of ex_vh_env ex_vh_did "lit ''g''" ex_vh_document] by blast
qed

text \<open>(C24) The SCID in the requested DID is never compared with the log's: a log whose entries replay is accepted for whatever DID
  its last state names, also one whose SCID segment is not the hash of the genesis entry.\<close>

theorem webvh_scid_unbound:
  assumes "parse_lines E text = Inr es" "replay_entries E 0 start_state es = Inr s" "jget (lit ''id'') (ws_doc s) = JStr did"
    "\<not> has_key (lit ''didDocument'') (ws_doc s)" "\<not> ws_deactivated s" "parse_did_document (we_point E) (JObj (ws_doc s)) = Inr doc"
  shows "replay E did text = Inr doc"
proof -
  obtain body where "document_body (JObj (ws_doc s)) = Inr body" "dd_id doc = did_text (jget (lit ''id'') body)"
    using assms(6) by (auto simp: parse_did_document_def Let_def bindR_Inr)
  moreover from this(1) have "body = ws_doc s"
    using assms(4) by (auto simp: document_body_def has_key_def map_of_eq_None_iff [symmetric] split: if_splits)
  ultimately have "dd_id doc = did" using assms(3) by simp
  with assms show ?thesis by (simp add: replay_def finish_replay_def)
qed

theorem webvh_scid_unbound_witness:
  "replay ex_vh_env ex_vh_did (lit ''g'') = Inr ex_vh_document \<and> predecessor_of [ex_vh_entry] 0 = lit ''2P1'' \<and>
   before 58 (drop (length (lit ''did:webvh:'')) ex_vh_did) = lit ''Qv''"
proof -
  obtain s where s: "replay_entries ex_vh_env 0 start_state [ex_vh_entry] = Inr s" "ws_doc s = [(lit ''id'', JStr ex_vh_did)]" "\<not> ws_deactivated s"
    using ex_vh_replayed by blast
  have "replay ex_vh_env ex_vh_did (lit ''g'') = Inr ex_vh_document"
    using webvh_scid_unbound [OF ex_vh_parsed s(1)] s(2,3) ex_vh_doc_parsed by (simp add: jget_def has_key_def)
  then show ?thesis
    by (simp add: predecessor_of_def entry_params_def ex_vh_entry_def ex_vh_params_def ex_vh_did_def jget_def before_def lit_def)
qed

end
