(* ===== verification/Type_Metadata.thy ===== *)
theory Type_Metadata
  imports Cred_Schema
begin

text \<open>
  openvc/type\_metadata.py: the type metadata an SD-JWT VC's \<open>vct\<close> points to, its chain of supertypes, the claim metadata composed
  along it and the check of the payload against it.
\<close>

section \<open>Fetching a document\<close>

abbreviation meta_unresolved :: exc where "meta_unresolved \<equiv> Metadata TypeMetadataResolutionError"
abbreviation meta_claims :: exc where "meta_claims \<equiv> Metadata TypeMetadataClaimsInvalid"

definition MAX_EXTENDS_DEPTH :: nat where "MAX_EXTENDS_DEPTH = 10"
definition MAX_SELECT_NODES :: nat where "MAX_SELECT_NODES = 10000"

record type_metadata_result =
  tm_vct :: str
  tm_documents :: "jobj list"
  tm_claims :: "jobj list"

text \<open>The integrity pin is over the bytes as they were retrieved; the resolver may raise anything or answer no bytes (\<open>None\<close>).\<close>

definition check_pin :: "crypto \<Rightarrow> json \<Rightarrow> bytes \<Rightarrow> unit result" where
  "check_pin cr integrity raw =
     (case integrity of
        JNull \<Rightarrow> Inr ()
      | JStr s \<Rightarrow> catchR (\<lambda>e. e = schema_failed) meta_unresolved (verify_sri cr raw s)
      | _ \<Rightarrow> Inl meta_unresolved)"

definition fetch_document :: "jose \<Rightarrow> (str \<Rightarrow> bytes option result) \<Rightarrow> str \<Rightarrow> json \<Rightarrow> jobj result" where
  "fetch_document J resolve vct integrity =
     bindR (catchR (\<lambda>e. True) meta_unresolved (resolve vct)) (\<lambda>answer.
       case answer of
         None \<Rightarrow> Inl meta_unresolved
       | Some raw \<Rightarrow>
           bindR (check_pin (jo_crypto J) integrity raw) (\<lambda>_.
           bindR (catchR is_value_error meta_unresolved (loads (jo_loads J) raw)) (\<lambda>v.
           bindR (as_object meta_unresolved v) (\<lambda>document.
             if jget (lit ''vct'') document \<noteq> JStr vct then Inl (Metadata TypeMetadataMismatch) else Inr document))))"

section \<open>Claim metadata\<close>

fun is_valid_component :: "json \<Rightarrow> bool" where
  "is_valid_component (JStr s) = True"
| "is_valid_component JNull = True"
| "is_valid_component (JInt n) = (0 \<le> n)"
| "is_valid_component _ = False"

definition is_valid_path :: "json \<Rightarrow> bool" where
  "is_valid_path path = (case path of JList cs \<Rightarrow> cs \<noteq> [] \<and> list_all is_valid_component cs | _ \<Rightarrow> False)"

definition claim_list :: "jobj \<Rightarrow> jobj list result" where
  "claim_list document =
     (case jget (lit ''claims'') document of
        JNull \<Rightarrow> Inr []
      | JList vs \<Rightarrow>
          bindR (mapR (as_object meta_unresolved) vs) (\<lambda>claims.
            if list_all (\<lambda>c. is_valid_path (jget (lit ''path'') c)) claims then Inr claims else Inl meta_unresolved)
      | _ \<Rightarrow> Inl meta_unresolved)"

definition path_key :: "json \<Rightarrow> json list" where
  "path_key path = (case path of JList cs \<Rightarrow> cs | _ \<Rightarrow> [path])"

definition compose_claims :: "jobj list \<Rightarrow> jobj list \<Rightarrow> jobj list" where
  "compose_claims child parent =
     (let overridden = map (\<lambda>c. path_key (jget (lit ''path'') c)) child
      in child @ filter (\<lambda>p. path_key (jget (lit ''path'') p) \<notin> set overridden) parent)"

section \<open>The chain of supertypes\<close>

function resolve_chain ::
    "jose \<Rightarrow> (str \<Rightarrow> bytes option result) \<Rightarrow> nat \<Rightarrow> str list \<Rightarrow> str \<Rightarrow> json \<Rightarrow> (jobj list \<times> jobj list) result" where
  "resolve_chain J resolve max_depth seen vct integrity =
     (if max_depth \<le> length seen then Inl meta_unresolved
      else if vct \<in> set seen then Inl meta_unresolved
      else
     bindR (fetch_document J resolve vct integrity) (\<lambda>document.
     bindR (claim_list document) (\<lambda>claims.
       case jget (lit ''extends'') document of
         JNull \<Rightarrow> Inr ([document], claims)
       | JStr parent \<Rightarrow>
           bindR (resolve_chain J resolve max_depth (seen @ [vct]) parent (jget (lit ''extends#integrity'') document))
             (\<lambda>(parent_docs, parent_claims). Inr (document # parent_docs, compose_claims claims parent_claims))
       | _ \<Rightarrow> Inl meta_unresolved)))"
  by pat_completeness auto
termination by (relation "measure (\<lambda>(J, resolve, max_depth, seen, vct, integrity). max_depth - length seen)") auto

declare resolve_chain.simps [simp del]

section \<open>The path engine\<close>

definition select_step :: "json \<Rightarrow> json \<Rightarrow> json list result" where
  "select_step component node =
     (case component of
        JStr k \<Rightarrow> (case node of JObj d \<Rightarrow> Inr (case map_of d k of None \<Rightarrow> [] | Some v \<Rightarrow> [v]) | _ \<Rightarrow> Inl meta_claims)
      | JNull \<Rightarrow> (case node of JList xs \<Rightarrow> Inr xs | _ \<Rightarrow> Inl meta_claims)
      | JInt n \<Rightarrow>
          (if n < 0 then Inl meta_claims
           else case node of JList xs \<Rightarrow> Inr (if nat n < length xs then [xs ! nat n] else []) | _ \<Rightarrow> Inl meta_claims)
      | _ \<Rightarrow> Inl meta_claims)"

fun select_path :: "json list \<Rightarrow> json list \<Rightarrow> json list result" where
  "select_path nodes [] = Inr nodes"
| "select_path nodes (component # path) =
     bindR (mapR (select_step component) nodes) (\<lambda>parts.
       if MAX_SELECT_NODES < length (concat parts) then Inl meta_claims else select_path (concat parts) path)"

definition validate_claim :: "jobj \<Rightarrow> jobj \<Rightarrow> unit result" where
  "validate_claim payload claim =
     (case jget (lit ''path'') claim of
        JList path \<Rightarrow>
          (if path = [] then Inl meta_claims
           else bindR (select_path [JObj payload] path) (\<lambda>selection.
                  if jget (lit ''mandatory'') claim = JBool True \<and> selection = [] then Inl meta_claims else Inr ()))
      | _ \<Rightarrow> Inl meta_claims)"

definition validate_claims :: "jobj \<Rightarrow> jobj list \<Rightarrow> unit result" where
  "validate_claims payload claims = bindR (mapR (validate_claim payload) claims) (\<lambda>_. Inr ())"

definition validate_type_metadata ::
    "jose \<Rightarrow> (str \<Rightarrow> bytes option result) \<Rightarrow> nat \<Rightarrow> jobj \<Rightarrow> str \<Rightarrow> json \<Rightarrow> type_metadata_result result" where
  "validate_type_metadata J resolve max_extends_depth payload vct vct_integrity =
     bindR (resolve_chain J resolve max_extends_depth [] vct vct_integrity) (\<lambda>(documents, claims).
     bindR (validate_claims payload claims) (\<lambda>_.
       Inr \<lparr>tm_vct = vct, tm_documents = documents, tm_claims = claims\<rparr>))"

section \<open>Specification\<close>

text \<open>The nodes a path addresses.\<close>

fun child_node :: "json \<Rightarrow> json \<Rightarrow> json \<Rightarrow> bool" where
  "child_node (JObj d) (JStr k) w = (map_of d k = Some w)"
| "child_node (JList xs) JNull w = (w \<in> set xs)"
| "child_node (JList xs) (JInt n) w = (0 \<le> n \<and> nat n < length xs \<and> w = xs ! nat n)"
| "child_node _ _ _ = False"

fun addresses :: "json \<Rightarrow> json list \<Rightarrow> json \<Rightarrow> bool" where
  "addresses v [] w = (v = w)"
| "addresses v (c # cs) w = (\<exists>u. child_node v c u \<and> addresses u cs w)"

text \<open>A document retrieved for its type under the pin of whoever named it, and the chain of such documents.\<close>

definition described :: "jose \<Rightarrow> (str \<Rightarrow> bytes option result) \<Rightarrow> str \<Rightarrow> json \<Rightarrow> jobj \<Rightarrow> bool" where
  "described J resolve vct integrity d \<longleftrightarrow>
     (\<exists>raw. resolve vct = Inr (Some raw) \<and> (integrity = JNull \<or> (\<exists>s. integrity = JStr s \<and> sri_matches (jo_crypto J) s raw)) \<and>
        loads (jo_loads J) raw = Inr (JObj d) \<and> jget (lit ''vct'') d = JStr vct)"

inductive linked :: "jose \<Rightarrow> (str \<Rightarrow> bytes option result) \<Rightarrow> str \<Rightarrow> json \<Rightarrow> jobj list \<Rightarrow> bool" for J resolve where
  linked_root: "described J resolve vct integrity d \<Longrightarrow> jget (lit ''extends'') d = JNull \<Longrightarrow> linked J resolve vct integrity [d]"
| linked_extends: "described J resolve vct integrity d \<Longrightarrow> jget (lit ''extends'') d = JStr parent \<Longrightarrow>
    linked J resolve parent (jget (lit ''extends#integrity'') d) ds \<Longrightarrow> linked J resolve vct integrity (d # ds)"

definition own_claims :: "jobj \<Rightarrow> jobj list" where
  "own_claims d = (case claim_list d of Inr cs \<Rightarrow> cs | Inl _ \<Rightarrow> [])"

definition claim_path :: "jobj \<Rightarrow> json list" where "claim_path c = path_key (jget (lit ''path'') c)"

text \<open>The claim metadata in force: of each path, what the most derived document that mentions it says.\<close>

fun in_force :: "jobj list \<Rightarrow> jobj \<Rightarrow> bool" where
  "in_force [] c = False"
| "in_force (d # ds) c =
     (c \<in> set (own_claims d) \<or> (in_force ds c \<and> (\<forall>c'\<in>set (own_claims d). claim_path c' \<noteq> claim_path c)))"

section \<open>Lemmas\<close>

lemma select_step_exact: "select_step c v = Inr ns \<Longrightarrow> set ns = {w. child_node v c w}"
  by (cases c; cases v) (auto simp: select_step_def split: option.splits if_splits)

lemma select_path_exact: "select_path nodes path = Inr ns \<Longrightarrow> set ns = {w. \<exists>v\<in>set nodes. addresses v path w}"
proof (induction path arbitrary: nodes)
  case (Cons c path)
  then obtain parts where p: "mapR (select_step c) nodes = Inr parts" "select_path (concat parts) path = Inr ns"
    by (auto simp: bindR_Inr split: if_splits)
  have "set (concat parts) = {u. \<exists>v\<in>set nodes. child_node v c u}"
    using p(1) unfolding mapR_Inr by (induction rule: list_all2_induct) (auto dest: select_step_exact)
  then show ?case unfolding Cons.IH [OF p(2)] by auto
qed auto

lemma check_pin_Inr: "check_pin cr integrity raw = Inr () \<Longrightarrow> integrity = JNull \<or> (\<exists>s. integrity = JStr s \<and> sri_matches cr s raw)"
  by (cases integrity) (auto simp: check_pin_def dest: verify_sri_Inr)

lemma fetch_document_Inr: "fetch_document J resolve vct integrity = Inr d \<Longrightarrow> described J resolve vct integrity d"
  unfolding described_def
  by (auto simp: fetch_document_def bindR_Inr as_object_Inr dest: check_pin_Inr split: option.split_asm if_split_asm)

lemma compose_claims_set:
  "set (compose_claims child parent) = set child \<union> {p \<in> set parent. \<forall>c\<in>set child. claim_path c \<noteq> claim_path p}"
  by (auto simp: compose_claims_def claim_path_def Let_def image_iff)

lemma resolve_chain_Inr:
  "resolve_chain J resolve m seen vct integrity = Inr (docs, claims) \<Longrightarrow>
     linked J resolve vct integrity docs \<and> length seen + length docs \<le> m \<and>
     (distinct seen \<longrightarrow> distinct (map JStr seen @ map (jget (lit ''vct'')) docs)) \<and> (\<forall>c. c \<in> set claims \<longleftrightarrow> in_force docs c)"
proof (induction J resolve m seen vct integrity arbitrary: docs claims rule: resolve_chain.induct)
  case (1 J resolve m seen vct integrity)
  from "1.prems" obtain d cs where d: "length seen < m" "vct \<notin> set seen" "fetch_document J resolve vct integrity = Inr d" "claim_list d = Inr cs"
    "(case jget (lit ''extends'') d of
        JNull \<Rightarrow> Inr ([d], cs)
      | JStr parent \<Rightarrow>
          bindR (resolve_chain J resolve m (seen @ [vct]) parent (jget (lit ''extends#integrity'') d))
            (\<lambda>(pd, pc). Inr (d # pd, compose_claims cs pc))
      | _ \<Rightarrow> Inl meta_unresolved) = Inr (docs, claims)"
    by (subst (asm) resolve_chain.simps) (auto simp: bindR_Inr split: if_split_asm)
  have own: "own_claims d = cs" using d(4) by (simp add: own_claims_def)
  have desc: "described J resolve vct integrity d" using fetch_document_Inr [OF d(3)] .
  then have v: "jget (lit ''vct'') d = JStr vct" by (auto simp: described_def)
  show ?case
  proof (cases "jget (lit ''extends'') d")
    case JNull
    then show ?thesis using d(1,2,5) desc own v by (auto simp: linked_root distinct_map inj_on_def)
  next
    case (JStr parent)
    then obtain pd pc where p: "resolve_chain J resolve m (seen @ [vct]) parent (jget (lit ''extends#integrity'') d) = Inr (pd, pc)"
      "docs = d # pd" "claims = compose_claims cs pc"
      using d(5) by (auto simp: bindR_Inr)
    have IH: "linked J resolve parent (jget (lit ''extends#integrity'') d) pd \<and> length (seen @ [vct]) + length pd \<le> m \<and>
      (distinct (seen @ [vct]) \<longrightarrow> distinct (map JStr (seen @ [vct]) @ map (jget (lit ''vct'')) pd)) \<and> (\<forall>c. c \<in> set pc \<longleftrightarrow> in_force pd c)"
      using "1.IH" d(1-4) JStr p(1) by simp
    then show ?thesis
      using p desc JStr own v d(2) by (auto simp: linked_extends compose_claims_set)
  qed (use d(5) in auto)
qed

lemma validate_claim_Inr:
  assumes "validate_claim payload c = Inr u"
  shows "claim_path c \<noteq> [] \<and> (jget (lit ''mandatory'') c = JBool True \<longrightarrow> (\<exists>w. addresses (JObj payload) (claim_path c) w))"
proof -
  obtain path ns where p: "jget (lit ''path'') c = JList path" "path \<noteq> []" "select_path [JObj payload] path = Inr ns"
    "jget (lit ''mandatory'') c = JBool True \<longrightarrow> ns \<noteq> []"
    using assms by (auto simp: validate_claim_def bindR_Inr split: json.split_asm if_split_asm)
  then show ?thesis
    using select_path_exact [OF p(3)] by (auto simp: claim_path_def path_key_def) (metis (mono_tags, lifting) list.set_sel(1) mem_Collect_eq)
qed

text \<open>A type with one supertype, whose claim is mandatory.\<close>

definition ex_meta_claim :: jobj where
  "ex_meta_claim = [(lit ''path'', JList [JStr (lit ''x'')]), (lit ''mandatory'', JBool True)]"

definition ex_meta_child :: jobj where
  "ex_meta_child = [(lit ''vct'', JStr (lit ''a'')), (lit ''extends'', JStr (lit ''b''))]"

definition ex_meta_parent :: jobj where
  "ex_meta_parent = [(lit ''vct'', JStr (lit ''b'')), (lit ''claims'', JList [JObj ex_meta_claim])]"

definition ex_meta_jose :: jose where
  "ex_meta_jose = toy_jose\<lparr>jo_loads := (\<lambda>b. if b = [1] then Inr (JObj ex_meta_child) else Inr (JObj ex_meta_parent))\<rparr>"

definition ex_meta_resolve :: "str \<Rightarrow> bytes option result" where
  "ex_meta_resolve v = Inr (Some (if v = lit ''a'' then [1] else [2]))"

lemma ex_meta_accepted:
  "validate_type_metadata ex_meta_jose ex_meta_resolve 10 [(lit ''x'', JInt 1)] (lit ''a'') JNull =
     Inr \<lparr>tm_vct = lit ''a'', tm_documents = [ex_meta_child, ex_meta_parent], tm_claims = [ex_meta_claim]\<rparr>"
proof -
  have l: "loads (jo_loads ex_meta_jose) [1] = Inr (JObj ex_meta_child)" "loads (jo_loads ex_meta_jose) [2] = Inr (JObj ex_meta_parent)"
    by (simp_all add: loads_def ex_meta_jose_def nesting_exceeds_depth MAX_DEPTH_def ex_meta_child_def ex_meta_parent_def ex_meta_claim_def)
  have n: "lit ''b'' \<noteq> lit ''a''" by (simp add: lit_def)
  have f: "fetch_document ex_meta_jose ex_meta_resolve (lit ''a'') JNull = Inr ex_meta_child"
    "fetch_document ex_meta_jose ex_meta_resolve (lit ''b'') JNull = Inr ex_meta_parent"
    by (simp_all add: fetch_document_def ex_meta_resolve_def check_pin_def l n as_object_def)
      (simp_all add: ex_meta_child_def ex_meta_parent_def jget_def)
  have c: "claim_list ex_meta_child = Inr []" "claim_list ex_meta_parent = Inr [ex_meta_claim]"
    by (simp_all add: claim_list_def ex_meta_child_def ex_meta_parent_def ex_meta_claim_def jget_def as_object_def is_valid_path_def)
  have e: "jget (lit ''extends'') ex_meta_child = JStr (lit ''b'')" "jget (lit ''extends#integrity'') ex_meta_child = JNull"
    "jget (lit ''extends'') ex_meta_parent = JNull"
    by (simp_all add: ex_meta_child_def ex_meta_parent_def jget_def)
  have "resolve_chain ex_meta_jose ex_meta_resolve 10 [] (lit ''a'') JNull = Inr ([ex_meta_child, ex_meta_parent], [ex_meta_claim])"
    by (simp add: resolve_chain.simps f c e n compose_claims_def)
  then show ?thesis
    by (simp add: validate_type_metadata_def validate_claims_def validate_claim_def ex_meta_claim_def jget_def select_step_def MAX_SELECT_NODES_def)
qed

section \<open>Properties\<close>



text \<open>Type metadata fails closed and typed: with a JSON parser that raises only \<open>ValueError\<close>, every failure is one of the
  module's own errors, whatever the resolver raises, and a chain that names one type twice or is longer than the bound fails.\<close>

theorem type_metadata_typed:
  assumes "parser_typed J" "validate_type_metadata J resolve m payload vct integrity = Inl e"
  shows "e \<in> {Metadata TypeMetadataResolutionError, Metadata TypeMetadataMismatch, Metadata TypeMetadataClaimsInvalid}"
proof -
  have sri: "verify_sri cr raw s = Inl x \<Longrightarrow> x = schema_failed" for cr raw s x
    by (auto simp: verify_sri_def Let_def split: if_splits)
  have fetch: "fetch_document J resolve v i = Inl x \<Longrightarrow> x = meta_unresolved \<or> x = Metadata TypeMetadataMismatch" for v i x
    by (cases i) (auto simp: fetch_document_def bindR_Inl catchR_Inl check_pin_def as_object_Inl
        dest: sri loads_error [OF assms(1)] split: option.split_asm if_split_asm)
  have claim: "claim_list d = Inl x \<Longrightarrow> x = meta_unresolved" for d x
    by (auto simp: claim_list_def bindR_Inl as_object_Inl dest!: mapR_Inl split: json.split_asm if_split_asm)
  have ext: "(case w of JNull \<Rightarrow> Inr y | JStr p \<Rightarrow> f p | _ \<Rightarrow> Inl meta_unresolved) = Inl x \<Longrightarrow>
      x = meta_unresolved \<or> (\<exists>p. w = JStr p \<and> f p = Inl x)" for w y f and x :: exc
    by (cases w) auto
  have chain: "resolve_chain J resolve m seen v i = Inl x \<Longrightarrow> x = meta_unresolved \<or> x = Metadata TypeMetadataMismatch" for seen v i x
  proof (induction "m - length seen" arbitrary: seen v i rule: less_induct)
    case less
    show ?case
    proof (cases "length seen < m \<and> v \<notin> set seen")
      case True
      then have "x = meta_unresolved \<or> x = Metadata TypeMetadataMismatch" if "resolve_chain J resolve m (seen @ [v]) p j = Inl x" for p j
        using less.hyps [of "seen @ [v]" p j] that by (simp add: diff_less_mono2)
      with less.prems True show ?thesis
        by (subst (asm) resolve_chain.simps) (auto simp: bindR_Inl dest: fetch claim dest!: ext)
    qed (use less.prems in \<open>auto simp: resolve_chain.simps [of J resolve m seen] split: if_splits\<close>)
  qed
  have step: "select_step c v = Inl x \<Longrightarrow> x = meta_claims" for c v x
    by (cases c; cases v) (auto simp: select_step_def split: if_splits)
  have path: "select_path ns p = Inl x \<Longrightarrow> x = meta_claims" for ns p x
    by (induction p arbitrary: ns) (auto simp: bindR_Inl dest!: mapR_Inl dest: step split: if_splits)
  have "validate_claims payload cs = Inl x \<Longrightarrow> x = meta_claims" for cs x
    by (auto simp: validate_claims_def bindR_Inl validate_claim_def dest!: mapR_Inl dest: path split: json.split_asm if_split_asm)
  then show ?thesis using assms(2) chain [of "[]" vct integrity e] by (auto simp: validate_type_metadata_def bindR_Inl)
qed

theorem type_metadata_typed_witness:
  "validate_type_metadata toy_jose (\<lambda>v. Inl (Foreign 1)) 10 [] (lit ''a'') JNull = Inl (Metadata TypeMetadataResolutionError)"
proof -
  have "validate_type_metadata toy_jose (\<lambda>v. Inl (Foreign 1)) 10 [] (lit ''a'') JNull = Inl meta_unresolved"
    by (simp add: validate_type_metadata_def resolve_chain.simps fetch_document_def)
  then show ?thesis using type_metadata_typed [OF toy_typed, of "\<lambda>v. Inl (Foreign 1)" 10 "[]" "lit ''a''" JNull] by blast
qed

end
