(* ===== verification/Ttl_Cache.thy ===== *)
theory Ttl_Cache
  imports Json
begin

text \<open>
  openvc/cache.py: the bounded TTL cache and the memoising wrapper every resolver goes through. Each
  operation takes the clock reading it makes as an argument (the clock is injectable in the source); a
  reading is the rational a finite float denotes, the expiry is rounded to binary64 as the code's addition is, and
  the TTL may be infinite (the per-batch caches). A method runs under the cache's lock, so a
  concurrent history is a sequence of these operations; \<open>cache_run\<close> is that machine. The
  values stored are never Python's \<open>None\<close>, as the class documents.
\<close>

section \<open>The cache\<close>

record 'v ttl_cache =
  c_ttl :: pyfloat
  c_max :: int
  c_data :: "(str \<times> (pyfloat \<times> 'v)) list"

definition new_cache :: "pyfloat \<Rightarrow> int \<Rightarrow> 'v ttl_cache" where
  "new_cache ttl mx = \<lparr>c_ttl = ttl, c_max = mx, c_data = []\<rparr>"

text \<open>\<open>self._clock() + self._ttl\<close>\<close>

fun expiry :: "rat \<Rightarrow> pyfloat \<Rightarrow> pyfloat" where
  "expiry t (FFin d) = fl (t + d)"
| "expiry t x = x"

text \<open>\<open>expires < now\<close>\<close>

definition expired :: "pyfloat \<Rightarrow> rat \<Rightarrow> bool" where
  "expired e now = num_lt (NFloat e) (NFloat (FFin now))"

definition cache_get :: "'v ttl_cache \<Rightarrow> str \<Rightarrow> rat \<Rightarrow> 'v option \<times> 'v ttl_cache" where
  "cache_get c key now =
     (case map_of (c_data c) key of
        None \<Rightarrow> (None, c)
      | Some (e, v) \<Rightarrow>
          if expired e now then (None, c\<lparr>c_data := dict_del key (c_data c)\<rparr>) else (Some v, c))"

text \<open>\<open>popitem(last=False)\<close> on an empty dict raises \<open>KeyError\<close>; the new or rewritten key ends up last.\<close>

definition cache_set :: "'v ttl_cache \<Rightarrow> str \<Rightarrow> 'v \<Rightarrow> rat \<Rightarrow> 'v ttl_cache result" where
  "cache_set c key v now =
     bindR (if \<not> has_key key (c_data c) \<and> c_max c \<le> int (length (c_data c))
            then (case c_data c of [] \<Rightarrow> Inl PyKeyError | x # rest \<Rightarrow> Inr rest)
            else Inr (c_data c))
       (\<lambda>d. Inr (c\<lparr>c_data := dict_del key d @ [(key, (expiry now (c_ttl c), v))]\<rparr>))"

definition cache_clear :: "'v ttl_cache \<Rightarrow> 'v ttl_cache" where
  "cache_clear c = c\<lparr>c_data := []\<rparr>"

definition cache_len :: "'v ttl_cache \<Rightarrow> nat" where
  "cache_len c = length (c_data c)"

section \<open>The memoising wrapper\<close>

text \<open>
  The closure \<open>resolve\<close> of \<open>cached_resolve\<close>, over a cache given by its \<open>get\<close> and \<open>set\<close>: \<open>t1\<close> and \<open>t2\<close> are the
  clock readings of the two. The last component says whether \<open>fn\<close> was called.
\<close>

definition memo_resolve ::
    "('c \<Rightarrow> str \<Rightarrow> rat \<Rightarrow> 'v option \<times> 'c) \<Rightarrow> ('c \<Rightarrow> str \<Rightarrow> 'v \<Rightarrow> rat \<Rightarrow> 'c result) \<Rightarrow>
     (str \<Rightarrow> 'v result) \<Rightarrow> rat \<Rightarrow> rat \<Rightarrow> str \<Rightarrow> 'c \<Rightarrow> 'v result \<times> 'c \<times> bool" where
  "memo_resolve get put fn t1 t2 key c =
     (case get c key t1 of
        (Some hit, c1) \<Rightarrow> (Inr hit, c1, False)
      | (None, c1) \<Rightarrow>
          (case fn key of
             Inl e \<Rightarrow> (Inl e, c1, True)
           | Inr v \<Rightarrow> (case put c1 key v t2 of
                Inl e \<Rightarrow> (Inl e, c1, True)
              | Inr c2 \<Rightarrow> (Inr v, c2, True))))"

definition cached_resolve ::
    "(str \<Rightarrow> 'v result) \<Rightarrow> rat \<Rightarrow> rat \<Rightarrow> str \<Rightarrow> 'v ttl_cache \<Rightarrow> 'v result \<times> 'v ttl_cache \<times> bool" where
  "cached_resolve = memo_resolve cache_get cache_set"

definition DEFAULT_DID_TTL_S :: pyfloat where
  "DEFAULT_DID_TTL_S = FFin 300"

definition DEFAULT_STATUS_TTL_S :: pyfloat where
  "DEFAULT_STATUS_TTL_S = FFin 60"

definition BATCH_TTL_S :: pyfloat where
  "BATCH_TTL_S = FInf False"

definition DEFAULT_MAX_ENTRIES :: int where
  "DEFAULT_MAX_ENTRIES = 1024"

text \<open>One cache of \<open>batch_resolvers\<close>, and a batch of calls through it: results in order, and the keys \<open>fn\<close> was called on.\<close>

definition batch_cache :: "'v ttl_cache" where
  "batch_cache = new_cache BATCH_TTL_S DEFAULT_MAX_ENTRIES"

fun resolve_batch ::
    "(str \<Rightarrow> 'v result) \<Rightarrow> (str \<times> rat \<times> rat) list \<Rightarrow> 'v ttl_cache \<Rightarrow> 'v result list \<times> str list" where
  "resolve_batch fn [] c = ([], [])"
| "resolve_batch fn ((key, t1, t2) # calls) c =
     (case cached_resolve fn t1 t2 key c of
        (r, c', called) \<Rightarrow>
          (case resolve_batch fn calls c' of
             (rs, ks) \<Rightarrow> (r # rs, (if called then key # ks else ks))))"

section \<open>What a memoising client needs of a cache\<close>

text \<open>
  \<open>holds c\<close> are the associations a lookup may still return. The client keeps any property of
  its answers that \<open>fn\<close> has.
\<close>

locale memo_store =
  fixes get :: "'c \<Rightarrow> str \<Rightarrow> rat \<Rightarrow> 'v option \<times> 'c"
    and put :: "'c \<Rightarrow> str \<Rightarrow> 'v \<Rightarrow> rat \<Rightarrow> 'c result"
    and holds :: "'c \<Rightarrow> (str \<times> 'v) set"
  assumes get_holds: "get c k t = (Some v, c') \<Longrightarrow> (k, v) \<in> holds c"
    and get_shrinks: "get c k t = (r, c') \<Longrightarrow> holds c' \<subseteq> holds c"
    and put_holds: "put c k v t = Inr c' \<Longrightarrow> holds c' \<subseteq> insert (k, v) (holds c)"
begin

lemma memo_answer:
  assumes "memo_resolve get put fn t1 t2 k c = (Inr v, c', called)"
    and "\<forall>(k, v)\<in>holds c. Q k v" "\<And>v. fn k = Inr v \<Longrightarrow> Q k v"
  shows "Q k v \<and> (\<forall>(k, v)\<in>holds c'. Q k v)"
proof -
  obtain r c1 where g: "get c k t1 = (r, c1)" by fastforce
  show ?thesis
  proof (cases r)
    case (Some hit)
    with assms g show ?thesis using get_holds [of c k t1] get_shrinks [OF g]
      by (auto simp: memo_resolve_def)
  next
    case None
    with assms(1) g obtain c2 where "fn k = Inr v" "put c1 k v t2 = Inr c2" "c' = c2"
      by (auto simp: memo_resolve_def split: sum.splits)
    with assms(2,3) show ?thesis using get_shrinks [OF g] put_holds [of c1 k v t2 c2] by fastforce
  qed
qed

lemma memo_error:
  assumes "memo_resolve get put fn t1 t2 k c = (Inl e, c', called)"
  shows "called \<and> holds c' \<subseteq> holds c"
  using assms get_shrinks [of c k t1]
  by (auto simp: memo_resolve_def split: prod.splits option.splits sum.splits)

end

definition holds :: "'v ttl_cache \<Rightarrow> (str \<times> 'v) set" where
  "holds c = {(k, v). \<exists>e. (k, e, v) \<in> set (c_data c)}"

interpretation ttl: memo_store cache_get cache_set holds
proof (unfold_locales, goal_cases)
  case (1 c k t v c')
  then show ?case by (auto simp: cache_get_def holds_def split: option.splits if_splits dest!: map_of_SomeD)
next
  case (2 c k t r c')
  then show ?case by (fastforce simp: cache_get_def holds_def set_dict_del split: option.splits if_splits)
next
  case (3 c k v t c')
  then show ?case
    by (fastforce simp: cache_set_def holds_def set_dict_del result_simps split: list.splits if_splits)
qed

section \<open>The machine\<close>

datatype 'v event = EGet str rat | ESet str 'v rat | EClear rat

fun event_time :: "'v event \<Rightarrow> rat" where
  "event_time (EGet k t) = t"
| "event_time (ESet k v t) = t"
| "event_time (EClear t) = t"

text \<open>The last write of a key since the last \<open>clear\<close>; events run from the newest to the oldest.\<close>

fun latest :: "str \<Rightarrow> 'v event list \<Rightarrow> ('v \<times> rat) option" where
  "latest k [] = None"
| "latest k (EGet a t # es) = latest k es"
| "latest k (ESet a v t # es) = (if a = k then Some (v, t) else latest k es)"
| "latest k (EClear t # es) = None"

inductive cache_run :: "pyfloat \<Rightarrow> int \<Rightarrow> 'v event list \<Rightarrow> 'v ttl_cache \<Rightarrow> bool" for ttl mx where
  run_new: "cache_run ttl mx [] (new_cache ttl mx)"
| run_get: "cache_run ttl mx es c \<Longrightarrow> \<forall>e\<in>set es. event_time e \<le> t \<Longrightarrow>
    cache_run ttl mx (EGet k t # es) (snd (cache_get c k t))"
| run_set: "cache_run ttl mx es c \<Longrightarrow> \<forall>e\<in>set es. event_time e \<le> t \<Longrightarrow> cache_set c k v t = Inr c' \<Longrightarrow>
    cache_run ttl mx (ESet k v t # es) c'"
| run_clear: "cache_run ttl mx es c \<Longrightarrow> \<forall>e\<in>set es. event_time e \<le> t \<Longrightarrow>
    cache_run ttl mx (EClear t # es) (cache_clear c)"

definition cache_inv :: "pyfloat \<Rightarrow> int \<Rightarrow> 'v event list \<Rightarrow> 'v ttl_cache \<Rightarrow> bool" where
  "cache_inv ttl mx es c \<longleftrightarrow>
     c_ttl c = ttl \<and> c_max c = mx \<and> dict_ok (c_data c) \<and>
     (0 < mx \<longrightarrow> int (length (c_data c)) \<le> mx) \<and>
     (\<forall>x\<in>set (c_data c). \<exists>t. latest (fst x) es = Some (snd (snd x), t) \<and> fst (snd x) = expiry t ttl) \<and>
     (ttl \<noteq> FNaN \<longrightarrow> sorted_wrt (\<lambda>x y. fle (fst (snd x)) (fst (snd y))) (c_data c))"

lemma cache_inv_entry:
  "cache_inv ttl mx es c \<Longrightarrow> x \<in> set (c_data c) \<Longrightarrow>
     \<exists>t. latest (fst x) es = Some (snd (snd x), t) \<and> fst (snd x) = expiry t ttl"
  unfolding cache_inv_def by (elim conjE) (rule bspec)

lemma latest_time: "latest k es = Some (v, t) \<Longrightarrow> \<exists>e\<in>set es. event_time e = t"
  by (induction k es rule: latest.induct) (auto split: if_splits)

lemma expiry_mono: "s \<le> t \<Longrightarrow> ttl \<noteq> FNaN \<Longrightarrow> fle (expiry s ttl) (expiry t ttl)"
  by (cases ttl) (auto intro: fl_mono)

lemma sorted_dict_del: "sorted_wrt P d \<Longrightarrow> sorted_wrt P (dict_del k d)"
  by (simp add: dict_del_filter sorted_wrt_filter)

lemma cache_inv_get: "cache_inv ttl mx es c \<Longrightarrow> cache_inv ttl mx (EGet k t # es) (snd (cache_get c k t))"
  using length_dict_del [of k "c_data c"]
  by (auto simp: cache_inv_def cache_get_def set_dict_del dict_ok_del sorted_dict_del split: option.splits)

lemma cache_inv_set:
  assumes i: "cache_inv ttl mx es c" and t: "\<forall>e\<in>set es. event_time e \<le> t" and s: "cache_set c k v t = Inr c'"
  shows "cache_inv ttl mx (ESet k v t # es) c'"
proof -
  have cf: "c_ttl c = ttl" "c_max c = mx" using i by (simp_all add: cache_inv_def)
  obtain d where d: "c' = c\<lparr>c_data := dict_del k d @ [(k, (expiry t ttl, v))]\<rparr>"
    "d = c_data c \<and> (has_key k d \<or> int (length d) < mx) \<or> c_data c \<noteq> [] \<and> d = tl (c_data c)"
  proof (cases "\<not> has_key k (c_data c) \<and> c_max c \<le> int (length (c_data c))")
    case True
    with s cf obtain x r where "c_data c = x # r" "c' = c\<lparr>c_data := dict_del k r @ [(k, (expiry t ttl, v))]\<rparr>"
      by (cases "c_data c") (simp_all add: cache_set_def)
    then show ?thesis by (intro that [of r]) simp_all
  next
    case False
    then have "c' = c\<lparr>c_data := dict_del k (c_data c) @ [(k, (expiry t ttl, v))]\<rparr>"
      using s cf(1) by (simp add: cache_set_def del: de_Morgan_conj)
    with False cf(2) show ?thesis by (intro that [of "c_data c"]) auto
  qed
  have sub: "set d \<subseteq> set (c_data c)" "dict_ok d"
    "ttl \<noteq> FNaN \<longrightarrow> sorted_wrt (\<lambda>x y. fle (fst (snd x)) (fst (snd y))) d"
  proof -
    have "dict_ok (c_data c)" "ttl \<noteq> FNaN \<longrightarrow> sorted_wrt (\<lambda>x y. fle (fst (snd x)) (fst (snd y))) (c_data c)"
      using i by (simp_all add: cache_inv_def)
    moreover from d(2) have "d = c_data c \<or> d = tl (c_data c)" by blast
    ultimately show "set d \<subseteq> set (c_data c)" "dict_ok d"
      "ttl \<noteq> FNaN \<longrightarrow> sorted_wrt (\<lambda>x y. fle (fst (snd x)) (fst (snd y))) d"
      by (cases "c_data c"; auto simp: dict_ok_def)+
  qed
  have old: "fle (fst (snd x)) (expiry t ttl)" if x: "x \<in> set d" and n: "ttl \<noteq> FNaN" for x
  proof -
    obtain u where u: "latest (fst x) es = Some (snd (snd x), u)" "fst (snd x) = expiry u ttl"
      using cache_inv_entry [OF i subsetD [OF sub(1) x]] by metis
    have "u \<le> t" using latest_time [OF u(1)] t by auto
    with u(2) n show ?thesis by (simp add: expiry_mono)
  qed
  have "dict_ok (c_data c')"
    using dict_ok_del [OF sub(2), of k] keys_dict_del [of k d] by (simp add: d(1) dict_ok_def)
  moreover have "\<exists>u. latest (fst x) (ESet k v t # es) = Some (snd (snd x), u) \<and> fst (snd x) = expiry u ttl"
    if x: "x \<in> set (c_data c')" for x
  proof (cases "fst x = k")
    case True
    with x have "x = (k, (expiry t ttl, v))" by (simp add: d(1) set_dict_del)
    then show ?thesis by simp
  next
    case False
    with x sub(1) have "x \<in> set (c_data c)" by (auto simp: d(1) set_dict_del)
    then obtain u where "latest (fst x) es = Some (snd (snd x), u)" "fst (snd x) = expiry u ttl"
      using cache_inv_entry [OF i] by metis
    with False show ?thesis by simp
  qed
  moreover have "ttl \<noteq> FNaN \<longrightarrow> sorted_wrt (\<lambda>x y. fle (fst (snd x)) (fst (snd y))) (c_data c')"
    using sub(3) old by (simp add: d(1) sorted_wrt_append sorted_dict_del set_dict_del)
  moreover have "0 < mx \<longrightarrow> int (length (c_data c')) \<le> mx"
  proof -
    have "0 < mx \<longrightarrow> int (length (c_data c)) \<le> mx" using i by (simp add: cache_inv_def)
    with d(2) length_dict_del [of k d] length_dict_del_less [of k d] show ?thesis by (auto simp: d(1))
  qed
  ultimately show ?thesis using i by (simp add: cache_inv_def d(1))
qed

lemma cache_run_inv: "cache_run ttl mx es c \<Longrightarrow> cache_inv ttl mx es c"
proof (induction rule: cache_run.induct)
  case run_new
  then show ?case by (simp add: cache_inv_def new_cache_def dict_ok_def)
next
  case (run_clear es c t)
  then show ?case by (simp add: cache_inv_def cache_clear_def dict_ok_def)
qed (auto intro: cache_inv_get cache_inv_set)


section \<open>A batch resolves each key once\<close>

lemma batch_miss:
  assumes "\<forall>x\<in>set (c_data c). fst (snd x) = FInf False"
  shows "cache_get c k t = (map_option snd (map_of (c_data c) k), c)"
proof (cases "map_of (c_data c) k")
  case (Some x)
  then have "fst x = FInf False" using assms map_of_SomeD by force
  with Some show ?thesis by (cases x) (simp add: cache_get_def expired_def num_lt_def)
qed (simp add: cache_get_def)

definition batch_inv :: "(str \<Rightarrow> 'v) \<Rightarrow> str set \<Rightarrow> 'v ttl_cache \<Rightarrow> bool" where
  "batch_inv g K c \<longleftrightarrow> c_ttl c = FInf False \<and> dict_ok (c_data c) \<and> fst ` set (c_data c) = K \<and>
     (\<forall>x\<in>set (c_data c). snd x = (FInf False, g (fst x)))"

lemma batch_hit: "batch_inv g K c \<Longrightarrow> k \<in> K \<Longrightarrow> cached_resolve fn t1 t2 k c = (Inr (g k), c, False)"
proof -
  assume i: "batch_inv g K c" and k: "k \<in> K"
  then obtain x where "map_of (c_data c) k = Some x"
    using map_of_eq_None_iff [of "c_data c" k] by (cases "map_of (c_data c) k") (auto simp: batch_inv_def)
  moreover from this have "snd x = g k"
    using i map_of_SomeD [of "c_data c" k x] unfolding batch_inv_def by fastforce
  moreover have "cache_get c k t1 = (map_option snd (map_of (c_data c) k), c)"
    using i by (intro batch_miss) (simp add: batch_inv_def)
  ultimately show ?thesis by (simp add: cached_resolve_def memo_resolve_def)
qed

lemma batch_fill:
  assumes i: "batch_inv g K c" and k: "k \<notin> K" "fn k = Inr (g k)" and room: "int (card K) < c_max c"
  obtains c' where "cached_resolve fn t1 t2 k c = (Inr (g k), c', True)" "batch_inv g (insert k K) c'" "c_max c' = c_max c"
proof -
  have len: "length (c_data c) = card K"
    using i distinct_card [of "map fst (c_data c)"] by (simp add: batch_inv_def dict_ok_def)
  have none: "map_of (c_data c) k = None" "\<not> has_key k (c_data c)"
    using i k(1) by (simp_all add: batch_inv_def map_of_eq_None_iff has_key_def)
  note del = dict_del_absent [OF none(2)]
  let ?c' = "c\<lparr>c_data := c_data c @ [(k, (FInf False, g k))]\<rparr>"
  have "cache_get c k t1 = (map_option snd (map_of (c_data c) k), c)"
    using i by (intro batch_miss) (simp add: batch_inv_def)
  moreover have "c_ttl c = FInf False" using i by (simp add: batch_inv_def)
  ultimately have "cached_resolve fn t1 t2 k c = (Inr (g k), ?c', True)"
    using none k(2) room len del by (simp add: cached_resolve_def memo_resolve_def cache_set_def)
  moreover have "batch_inv g (insert k K) ?c'"
    using i none(2) by (simp add: batch_inv_def dict_ok_def has_key_def)
  ultimately show ?thesis by (intro that [of ?c']) simp_all
qed

lemma resolve_batch_spec:
  assumes "batch_inv g K c" "\<forall>k\<in>fst ` set calls. fn k = Inr (g k)" "finite K"
    and "int (card (K \<union> fst ` set calls)) \<le> c_max c"
  shows "\<exists>ks. resolve_batch fn calls c = (map (\<lambda>x. Inr (g (fst x))) calls, ks) \<and>
           distinct ks \<and> set ks = fst ` set calls - K"
  using assms
proof (induction calls arbitrary: c K)
  case (Cons call calls)
  obtain k t1 t2 where call: "call = (k, t1, t2)" by (cases call)
  show ?case
  proof (cases "k \<in> K")
    case True
    then have "int (card (K \<union> fst ` set calls)) \<le> c_max c" using Cons.prems(4) call by (simp add: insert_absorb)
    with Cons.IH [OF Cons.prems(1)] Cons.prems call batch_hit [OF Cons.prems(1) True, of fn t1 t2] True
    show ?thesis by auto
  next
    case False
    have "card (insert k K) \<le> card (K \<union> fst ` set (call # calls))"
      using Cons.prems(3) by (intro card_mono) (auto simp: call)
    then have "int (card K) < c_max c" using Cons.prems(3,4) False by simp
    then obtain c' where c': "cached_resolve fn t1 t2 k c = (Inr (g k), c', True)"
      "batch_inv g (insert k K) c'" "c_max c' = c_max c"
      using batch_fill [OF Cons.prems(1) False, of fn] Cons.prems(2) call by auto
    have "insert k K \<union> fst ` set calls = K \<union> fst ` set (call # calls)" using call by auto
    with Cons.IH [OF c'(2)] Cons.prems c' obtain ks where
      "resolve_batch fn calls c' = (map (\<lambda>x. Inr (g (fst x))) calls, ks)" "distinct ks"
      "set ks = fst ` set calls - insert k K" by auto
    with c' call False show ?thesis by auto
  qed
qed auto


section \<open>Properties\<close>

text \<open>Bounded and fresh: after any sequence of operations under a clock that does not run backwards, the cache
  holds at most \<open>max_entries\<close> entries, in the order in which they expire, and a hit returns the value of the last
  write of that key since the last \<open>clear\<close>, made at a time \<open>t\<close> whose expiry \<open>t + ttl\<close> is not in the past.\<close>

theorem cache_fresh:
  assumes "cache_run ttl mx es c" "0 < mx" "ttl \<noteq> FNaN"
  shows "int (cache_len c) \<le> mx \<and>
         sorted_wrt (\<lambda>x y. fle (fst (snd x)) (fst (snd y))) (c_data c) \<and>
         (\<forall>k now v c'. cache_get c k now = (Some v, c') \<longrightarrow>
            (\<exists>t. latest k es = Some (v, t) \<and> \<not> expired (expiry t ttl) now))"
proof -
  note i = cache_run_inv [OF assms(1)]
  have "\<exists>t. latest k es = Some (v, t) \<and> \<not> expired (expiry t ttl) now"
    if g: "cache_get c k now = (Some v, c')" for k now v c'
  proof -
    obtain e where e: "map_of (c_data c) k = Some (e, v)" "\<not> expired e now"
      using g by (auto simp: cache_get_def split: option.splits if_splits)
    obtain t where "latest k es = Some (v, t)" "e = expiry t ttl"
      using cache_inv_entry [OF i map_of_SomeD [OF e(1)]] by auto
    with e(2) show ?thesis by blast
  qed
  with i assms(2,3) show ?thesis by (simp add: cache_inv_def cache_len_def)
qed

theorem cache_fresh_witness:
  "\<exists>c. cache_run (FFin 60) 1 [ESet [65] (7::nat) 0] c \<and> int (cache_len c) \<le> 1 \<and>
     fst (cache_get c [65] 60) = Some 7 \<and> fst (cache_get c [65] 61) = None"
proof -
  let ?c = "\<lparr>c_ttl = FFin 60, c_max = 1, c_data = [([65], (FFin 60, 7::nat))]\<rparr>"
  have e: "fl 60 = FFin 60" using fl_exact [of 60] by simp
  have "cache_run (FFin 60) 1 [ESet [65] (7::nat) 0] ?c"
    by (rule run_set [OF run_new]) (simp_all add: cache_set_def new_cache_def has_key_def e)
  from cache_fresh [OF this] this show ?thesis
    by (intro exI [of _ ?c]) (simp add: cache_get_def expired_def num_lt_def)
qed

text \<open>Memoisation never invents an answer: whatever the history of a shared cache, if every answer already stored
  satisfies a property that every successful call of \<open>fn\<close> has, then so does the answer the wrapper returns and everything
  stored afterwards. An error of \<open>fn\<close> is passed on, and nothing is stored.\<close>

theorem cached_resolve_sound:
  assumes "\<forall>(k, v)\<in>holds c. Q k v" "\<And>v. fn k = Inr v \<Longrightarrow> Q k v"
    and "cached_resolve fn t1 t2 k c = (r, c', called)"
  shows "(\<forall>(k, v)\<in>holds c'. Q k v) \<and>
         (case r of Inr v \<Rightarrow> Q k v | Inl e \<Rightarrow> called \<and> holds c' \<subseteq> holds c)"
proof (cases r)
  case (Inr v)
  from ttl.memo_answer [OF assms(3) [unfolded cached_resolve_def Inr] assms(1,2)] Inr show ?thesis by simp
next
  case (Inl e)
  from ttl.memo_error [OF assms(3) [unfolded cached_resolve_def Inl]] assms(1) Inl show ?thesis by auto
qed

theorem cached_resolve_sound_witness:
  "cached_resolve (\<lambda>k. Inr (length k)) 0 0 [65, 66] batch_cache =
     (Inr 2, batch_cache\<lparr>c_data := [([65, 66], (FInf False, 2))]\<rparr>, True) \<and>
   ([67], 2) \<notin> holds (batch_cache\<lparr>c_data := [([65, 66], (FInf False, 2::nat))]\<rparr>)"
proof -
  have r: "cached_resolve (\<lambda>k. Inr (length k)) 0 0 [65, 66] batch_cache =
      (Inr 2, batch_cache\<lparr>c_data := [([65, 66], (FInf False, 2))]\<rparr>, True)"
    by (simp add: cached_resolve_def memo_resolve_def batch_cache_def new_cache_def cache_get_def cache_set_def
        has_key_def DEFAULT_MAX_ENTRIES_def BATCH_TTL_S_def)
  have "\<forall>(k, v)\<in>holds batch_cache. v = length k" by (simp add: holds_def batch_cache_def new_cache_def)
  from cached_resolve_sound [of batch_cache "\<lambda>k v. v = length k", OF this _ r] r show ?thesis by auto
qed

text \<open>A batch resolves each distinct key exactly once: through a per-batch cache, up to its 1024 distinct keys, every
  call gets what \<open>fn\<close> returns for its key and \<open>fn\<close> is called once per distinct key, at any clock readings.\<close>

theorem batch_resolves_once:
  assumes "\<forall>k\<in>fst ` set calls. fn k = Inr (g k)" "card (fst ` set calls) \<le> 1024"
  shows "\<exists>ks. resolve_batch fn calls batch_cache = (map (\<lambda>x. Inr (g (fst x))) calls, ks) \<and>
           distinct ks \<and> set ks = fst ` set calls"
  using resolve_batch_spec [of g "{}" batch_cache calls fn] assms
  by (simp add: batch_inv_def batch_cache_def new_cache_def dict_ok_def BATCH_TTL_S_def DEFAULT_MAX_ENTRIES_def)

theorem batch_resolves_once_witness:
  "\<exists>ks. resolve_batch (\<lambda>k. Inr (length k)) [([65], 0, 0), ([66], 1, 1), ([65], 9, 9)] batch_cache =
     ([Inr 1, Inr 1, Inr 1], ks) \<and> set ks = {[65], [66]}"
proof -
  have "card {[65], [66], [65::nat]} \<le> 1024" by (simp add: insert_commute card_insert_if)
  then show ?thesis
    using batch_resolves_once [of "[([65], 0, 0), ([66], 1, 1), ([65], 9, 9)]" "\<lambda>k. Inr (length k)" length]
    by (simp del: resolve_batch.simps) blast
qed

text \<open>A cache built with \<open>max_entries=0\<close> cannot store anything: the first \<open>set\<close> raises a bare \<open>KeyError\<close> from
  \<open>popitem\<close>, outside the library's error hierarchy, and the wrapper passes it on after a successful call of \<open>fn\<close>.\<close>

theorem zero_capacity_key_error:
  "cached_resolve (\<lambda>k. Inr v) t1 t2 k (new_cache ttl 0) = (Inl PyKeyError, new_cache ttl 0, True)"
  by (simp add: cached_resolve_def memo_resolve_def new_cache_def cache_get_def cache_set_def has_key_def)

end
