(* ===== verification/Ebsi_Registry.thy ===== *)
theory Ebsi_Registry
  imports Issuer_Key
begin

text \<open>
  openvc\_ebsi: the registry adapters of versioning.py with the records of models.py and the origin reader of \_url.py. Three
  registry versions serve one domain model; each adapter says where a record lives and how its JSON maps to accreditations.
  \<open>fetch\<close> is the injected HTTP client, \<open>peek\<close> the proof suite's \<open>peek_claims\<close>, \<open>ip_literal\<close> as in Issuer\_Key. The Core API v1
  adapters are those without a configured contract address.
\<close>

abbreviation malformed_registry :: exc where "malformed_registry \<equiv> Ebsi MalformedRegistryResponse"

section \<open>The domain model (models.py)\<close>

definition TRUST_ROLES :: "str list" where "TRUST_ROLES = [lit ''RootTAO'', lit ''TAO'', lit ''TI'']"
definition DELEGATING_ROLES :: "str list" where "DELEGATING_ROLES = [lit ''RootTAO'', lit ''TAO'']"
definition REVOKED_ROLES :: "str list" where "REVOKED_ROLES = [lit ''Revoked'', lit ''revoked'']"
definition ACCREDITATION_TO_ATTEST :: str where "ACCREDITATION_TO_ATTEST = lit ''VerifiableAccreditationToAttest''"
definition ACCREDITATION_TO_ACCREDIT :: str where "ACCREDITATION_TO_ACCREDIT = lit ''VerifiableAccreditationToAccredit''"

record accreditation =
  ac_id :: str
  ac_role :: str
  ac_tao :: "str option"
  ac_root_tao :: "str option"
  ac_types :: "str list"
  ac_jwt :: "str option"
  ac_kinds :: "str list"

record issuer_record =
  ir_did :: str
  ir_has_attributes :: bool
  ir_accreditations :: "accreditation list"

definition is_revoked :: "accreditation \<Rightarrow> bool" where "is_revoked a = (ac_role a \<in> set REVOKED_ROLES)"
definition has_trust_role :: "accreditation \<Rightarrow> bool" where "has_trust_role a = (ac_role a \<in> set TRUST_ROLES)"
definition can_accredit :: "accreditation \<Rightarrow> bool" where "can_accredit a = (ac_role a \<in> set DELEGATING_ROLES)"
definition is_to_attest :: "accreditation \<Rightarrow> bool" where "is_to_attest a = (ACCREDITATION_TO_ATTEST \<in> set (ac_kinds a))"
definition is_to_accredit :: "accreditation \<Rightarrow> bool" where "is_to_accredit a = (ACCREDITATION_TO_ACCREDIT \<in> set (ac_kinds a))"

section \<open>Origins (\_url.py)\<close>

datatype url_fault = UrlNotVisibleAscii | UrlDoesNotParse

type_synonym origin = "str \<times> str \<times> nat option"

definition visible_ascii :: "str \<Rightarrow> bool" where
  "visible_ascii url = list_all (\<lambda>c. 33 \<le> c \<and> c \<le> 126) url"

text \<open>Scheme and authority as \<open>urlparse\<close> reads them in visible ASCII: the authority ends at the first \<open>/\<close>, \<open>?\<close> or \<open>#\<close>.\<close>

definition url_authority :: "str \<Rightarrow> str \<times> str" where
  "url_authority url =
     (let (scheme, rest) = url_scheme url
      in (scheme, if starts_with (lit ''//'') rest then takeWhile (\<lambda>c. c \<notin> {47, 63, 35}) (drop 2 rest) else []))"

definition split_url :: "(str \<Rightarrow> bool) \<Rightarrow> str \<Rightarrow> url_fault + (url \<times> nat option)" where
  "split_url ip_literal url =
     (if \<not> visible_ascii url then Inl UrlNotVisibleAscii
      else let (scheme, netloc) = url_authority url; u = \<lparr>u_scheme = scheme, u_netloc = netloc, u_path = []\<rparr>
           in if \<not> brackets_ok ip_literal netloc then Inl UrlDoesNotParse
              else case url_port u of Inl e \<Rightarrow> Inl UrlDoesNotParse | Inr port \<Rightarrow> Inr (u, port))"

definition read_origin :: "(str \<Rightarrow> bool) \<Rightarrow> str \<Rightarrow> url_fault + origin" where
  "read_origin ip_literal url =
     (case split_url ip_literal url of
        Inl e \<Rightarrow> Inl e
      | Inr (u, port) \<Rightarrow>
          Inr (lower (u_scheme u), lower (case url_hostname u of None \<Rightarrow> [] | Some h \<Rightarrow> h),
               if port = None \<and> lower (u_scheme u) = lit ''https'' then Some 443 else port))"

definition carries_userinfo :: "(str \<Rightarrow> bool) \<Rightarrow> str \<Rightarrow> url_fault + bool" where
  "carries_userinfo ip_literal url =
     (case split_url ip_literal url of Inl e \<Rightarrow> Inl e | Inr (u, port) \<Rightarrow> Inr (64 \<in> set (u_netloc u)))"

section \<open>The origin pin\<close>

definition MAX_URL_LENGTH :: nat where "MAX_URL_LENGTH = 8192"

definition origin_of :: "(str \<Rightarrow> bool) \<Rightarrow> str \<Rightarrow> str result" where
  "origin_of ip_literal url =
     (if MAX_URL_LENGTH < length url then Inl malformed_registry
      else case read_origin ip_literal url of
             Inl e \<Rightarrow> Inl malformed_registry
           | Inr (scheme, host, port) \<Rightarrow>
               Inr (scheme @ lit ''://'' @ host @ [58] @ (case port of None \<Rightarrow> [] | Some p \<Rightarrow> decimal p)))"

definition on_origin :: "(str \<Rightarrow> bool) \<Rightarrow> str \<Rightarrow> str \<Rightarrow> bool" where
  "on_origin ip_literal url origin = (origin_of ip_literal url = Inr origin)"

section \<open>Wire values\<close>

definition require_object :: "json \<Rightarrow> jobj result" where
  "require_object v = as_object malformed_registry v"

definition wire_str :: "jobj \<Rightarrow> str \<Rightarrow> str result" where
  "wire_str obj k = (case map_of obj k of None \<Rightarrow> Inr [] | Some (JStr s) \<Rightarrow> Inr s | Some _ \<Rightarrow> Inl malformed_registry)"

definition wire_opt_str :: "jobj \<Rightarrow> str \<Rightarrow> str option result" where
  "wire_opt_str obj k = (case jget k obj of JNull \<Rightarrow> Inr None | JStr s \<Rightarrow> Inr (Some s) | _ \<Rightarrow> Inl malformed_registry)"

definition wire_bool :: "jobj \<Rightarrow> str \<Rightarrow> bool result" where
  "wire_bool obj k = (case map_of obj k of None \<Rightarrow> Inr False | Some (JBool b) \<Rightarrow> Inr b | Some _ \<Rightarrow> Inl malformed_registry)"

definition wire_object :: "jobj \<Rightarrow> str \<Rightarrow> jobj result" where
  "wire_object obj k = (case map_of obj k of None \<Rightarrow> Inr [] | Some v \<Rightarrow> require_object v)"

definition wire_strings :: "json list \<Rightarrow> str list result" where
  "wire_strings vs = (if list_all is_jstr vs then Inr (jstrs vs) else Inl malformed_registry)"

definition accredited_entry :: "json \<Rightarrow> str list result" where
  "accredited_entry entry =
     (case entry of
        JStr t \<Rightarrow> Inr [t]
      | JObj d \<Rightarrow> (case map_of d (lit ''types'') of None \<Rightarrow> Inr [] | Some (JList ms) \<Rightarrow> wire_strings ms | Some _ \<Rightarrow> Inl malformed_registry)
      | _ \<Rightarrow> Inl malformed_registry)"

text \<open>\<open>tuple(dict.fromkeys(types))\<close>: the first of equal members stays.\<close>

definition first_seen :: "'a list \<Rightarrow> 'a list" where
  "first_seen xs = rev (remdups (rev xs))"

definition wire_accredited_for :: "jobj \<Rightarrow> str list result" where
  "wire_accredited_for subject =
     (case map_of subject (lit ''accreditedFor'') of
        None \<Rightarrow> Inr []
      | Some (JList es) \<Rightarrow> bindR (mapR accredited_entry es) (\<lambda>ts. Inr (first_seen (concat ts)))
      | Some _ \<Rightarrow> Inl malformed_registry)"

definition wire_vc_type :: "jobj \<Rightarrow> str list result" where
  "wire_vc_type vc =
     (case map_of vc (lit ''type'') of
        None \<Rightarrow> Inr []
      | Some (JStr t) \<Rightarrow> Inr [t]
      | Some (JList ts) \<Rightarrow> wire_strings ts
      | Some _ \<Rightarrow> Inl malformed_registry)"

text \<open>The \<open>ProofError\<close> family.\<close>

definition is_proof_error :: "exc \<Rightarrow> bool" where
  "is_proof_error e = (e \<in> {ProofError, SignatureInvalid, ProofMalformed, UnsupportedCryptosuite, UnsupportedAlgorithm, MalformedToken,
     ClaimsInvalid, CredentialExpired, CredentialNotYetValid, MalformedTimestamp, ProofPurposeMismatch, KeyResolutionError,
     PresentationBindingError, SdJwtError, DataIntegrityError, EcdsaSdError, ProofValueMalformed, Verify InvalidPolicy})"

text \<open>What an accreditation token says about itself: the types it authorises and its kinds.\<close>

definition token_scope :: "jobj \<Rightarrow> (str list \<times> str list) result" where
  "token_scope claims =
     bindR (wire_object claims (lit ''vc'')) (\<lambda>vc.
     bindR (wire_vc_type vc) (\<lambda>kinds.
     bindR (wire_object vc (lit ''credentialSubject'')) (\<lambda>subject.
     bindR (wire_accredited_for subject) (\<lambda>types. Inr (types, kinds)))))"

definition types_from_token :: "(str \<Rightarrow> jobj result) \<Rightarrow> str option \<Rightarrow> (str list \<times> str list) result" where
  "types_from_token peek body =
     (case body of
        None \<Rightarrow> Inr ([], [])
      | Some b \<Rightarrow> if b = [] then Inr ([], []) else bindR (catchR is_proof_error malformed_registry (peek b)) token_scope)"

section \<open>Adapters\<close>

datatype didr = DidRegistryV5 | DidRegistryCoreV1

datatype tir = TirV4 | TirV5 | TirCoreV1

definition identifiers_url :: "didr \<Rightarrow> str \<Rightarrow> str \<Rightarrow> str" where
  "identifiers_url didr base did =
     (case didr of
        DidRegistryV5 \<Rightarrow> base @ lit ''/did-registry/v5/identifiers/'' @ did
      | DidRegistryCoreV1 \<Rightarrow> base @ lit ''/v1/did-registry/identifiers/'' @ did)"

definition issuer_url :: "tir \<Rightarrow> str \<Rightarrow> str \<Rightarrow> str" where
  "issuer_url tir base did =
     (case tir of
        TirV4 \<Rightarrow> base @ lit ''/trusted-issuers-registry/v4/issuers/'' @ did
      | TirV5 \<Rightarrow> base @ lit ''/trusted-issuers-registry/v5/issuers/'' @ did
      | TirCoreV1 \<Rightarrow> base @ lit ''/v1/issuers-registry/issuers/'' @ did)"

definition default_attributes_url :: "tir \<Rightarrow> str \<Rightarrow> str \<Rightarrow> str" where
  "default_attributes_url tir base did = issuer_url tir base did @ lit ''/attributes''"

definition attribute_accreditation :: "(str \<Rightarrow> jobj result) \<Rightarrow> str option \<Rightarrow> str \<Rightarrow> jobj \<Rightarrow> accreditation result" where
  "attribute_accreditation peek body attribute_id a =
     bindR (wire_str a (lit ''issuerType'')) (\<lambda>role.
     bindR (wire_opt_str a (lit ''tao'')) (\<lambda>tao.
     bindR (wire_opt_str a (lit ''rootTao'')) (\<lambda>root_tao.
     bindR (types_from_token peek body) (\<lambda>(types, kinds).
       Inr \<lparr>ac_id = attribute_id, ac_role = role, ac_tao = tao, ac_root_tao = root_tao, ac_types = types, ac_jwt = body, ac_kinds = kinds\<rparr>))))"

definition v4_attribute :: "(str \<Rightarrow> jobj result) \<Rightarrow> jobj \<Rightarrow> accreditation result" where
  "v4_attribute peek a =
     bindR (wire_opt_str a (lit ''body'')) (\<lambda>body.
     bindR (wire_str a (lit ''hash'')) (\<lambda>attribute_id. attribute_accreditation peek body attribute_id a))"

definition v4_parse_issuer :: "(str \<Rightarrow> jobj result) \<Rightarrow> str \<Rightarrow> jobj \<Rightarrow> issuer_record result" where
  "v4_parse_issuer peek did raw =
     (case (case map_of raw (lit ''attributes'') of None \<Rightarrow> JList [] | Some v \<Rightarrow> v) of
        JList attributes \<Rightarrow>
          bindR (mapR require_object attributes) (\<lambda>objs.
          bindR (mapR (v4_attribute peek) objs) (\<lambda>accs.
            Inr \<lparr>ir_did = did, ir_has_attributes = (accs \<noteq> []), ir_accreditations = accs\<rparr>))
      | _ \<Rightarrow> Inl malformed_registry)"

section \<open>The attribute walk\<close>

definition MAX_ATTRIBUTE_PAGES :: nat where "MAX_ATTRIBUTE_PAGES = 50"
definition MAX_ATTRIBUTE_ITEMS :: nat where "MAX_ATTRIBUTE_ITEMS = 1000"

record walk_env =
  we_ip :: "str \<Rightarrow> bool"
  we_fetch :: "str \<Rightarrow> json result"
  we_decode :: "str \<Rightarrow> jobj result"
  we_origin :: str

text \<open>The revision behind a listing item; an item that cannot be followed gives nothing.\<close>

definition read_item :: "walk_env \<Rightarrow> jobj \<Rightarrow> accreditation list result" where
  "read_item W listed =
     (case text_opt (jget (lit ''href'') listed) of
        None \<Rightarrow> Inr []
      | Some href \<Rightarrow>
          if href = [] \<or> \<not> on_origin (we_ip W) href (we_origin W) then Inr []
          else
          bindR (bindR (we_fetch W href) require_object) (\<lambda>revision.
          bindR (require_object (jget (lit ''attribute'') revision)) (\<lambda>attribute.
          bindR (wire_opt_str attribute (lit ''body'')) (\<lambda>body.
          bindR (wire_str listed (lit ''id'')) (\<lambda>listed_id.
          bindR (if listed_id = [] then wire_str attribute (lit ''hash'') else Inr listed_id) (\<lambda>attribute_id.
          bindR (attribute_accreditation (we_decode W) body attribute_id attribute) (\<lambda>acc. Inr [acc])))))))"

text \<open>The items of one page, as the generator yields them: the count, whether the cap ended the walk, what was read.\<close>

fun read_items :: "walk_env \<Rightarrow> nat \<Rightarrow> json list \<Rightarrow> (nat \<times> bool \<times> accreditation list) result" where
  "read_items W collected [] = Inr (collected, False, [])"
| "read_items W collected (v # vs) =
     (case v of
        JObj listed \<Rightarrow>
          bindR (read_item W listed) (\<lambda>accs.
            if MAX_ATTRIBUTE_ITEMS \<le> collected + 1 then Inr (collected + 1, True, accs)
            else bindR (read_items W (collected + 1) vs) (\<lambda>(n, full, more). Inr (n, full, accs @ more)))
      | _ \<Rightarrow> read_items W collected vs)"

definition page_total :: "int option \<Rightarrow> jobj \<Rightarrow> int option" where
  "page_total tot page =
     (case tot of
        Some t \<Rightarrow> Some t
      | None \<Rightarrow> (case jget (lit ''total'') page of JInt t \<Rightarrow> if 0 \<le> t then Some t else None | _ \<Rightarrow> None))"

definition next_page :: "walk_env \<Rightarrow> str \<Rightarrow> jobj \<Rightarrow> str option" where
  "next_page W pin page =
     (case (case jget (lit ''links'') page of JObj links \<Rightarrow> jget (lit ''next'') links | _ \<Rightarrow> JNull) of
        JStr nxt \<Rightarrow> if nxt \<noteq> [] \<and> on_origin (we_ip W) nxt pin then Some nxt else None
      | _ \<Rightarrow> None)"

definition page_items :: "jobj \<Rightarrow> json list" where
  "page_items page = (case jget (lit ''items'') page of JList vs \<Rightarrow> vs | _ \<Rightarrow> [])"

definition total_reached :: "int option \<Rightarrow> nat \<Rightarrow> bool" where
  "total_reached tot n = (case tot of None \<Rightarrow> False | Some m \<Rightarrow> m \<le> int n)"

text \<open>One page after another, at most \<open>MAX_ATTRIBUTE_PAGES\<close>; \<open>pages\<close> is how many may still be read and \<open>pin\<close> the listing's origin.\<close>

fun walk_pages :: "walk_env \<Rightarrow> str \<Rightarrow> nat \<Rightarrow> str list \<Rightarrow> nat \<Rightarrow> int option \<Rightarrow> str option \<Rightarrow> accreditation list result" where
  "walk_pages W pin (Suc pages) seen collected tot (Some url) =
     (if url \<in> set seen then Inr []
      else
      bindR (bindR (we_fetch W url) require_object) (\<lambda>page.
        if page_items page = [] then Inr []
        else
        bindR (read_items W collected (page_items page)) (\<lambda>(n, full, accs).
          if full \<or> total_reached (page_total tot page) n then Inr accs
          else bindR (walk_pages W pin pages (url # seen) n (page_total tot page) (next_page W pin page)) (\<lambda>more. Inr (accs @ more)))))"
| "walk_pages W pin pages seen collected tot url = Inr []"

definition attributes_url :: "(str \<Rightarrow> bool) \<Rightarrow> tir \<Rightarrow> str \<Rightarrow> str \<Rightarrow> str \<Rightarrow> jobj \<Rightarrow> str result" where
  "attributes_url ip_literal tir base did listing_origin raw =
     (let raw_attrs = jget (lit ''attributes'') raw
      in if \<not> truthy raw_attrs then Inr (default_attributes_url tir base did)
         else case text_opt raw_attrs of
                None \<Rightarrow> Inl malformed_registry
              | Some url \<Rightarrow> bindR (origin_of ip_literal url) (\<lambda>pin. if pin = listing_origin then Inr url else Inl malformed_registry))"

definition walk_parse_issuer ::
    "(str \<Rightarrow> bool) \<Rightarrow> (str \<Rightarrow> json result) \<Rightarrow> (str \<Rightarrow> jobj result) \<Rightarrow> tir \<Rightarrow> str \<Rightarrow> str \<Rightarrow> jobj \<Rightarrow> issuer_record result" where
  "walk_parse_issuer ip_literal fetch peek tir base did raw =
     bindR (wire_bool raw (lit ''hasAttributes'')) (\<lambda>has_attrs.
       if \<not> has_attrs then Inr \<lparr>ir_did = did, ir_has_attributes = False, ir_accreditations = []\<rparr>
       else
     bindR (origin_of ip_literal (issuer_url tir base did)) (\<lambda>listing_origin.
     bindR (attributes_url ip_literal tir base did listing_origin raw) (\<lambda>url.
     bindR (origin_of ip_literal url) (\<lambda>pin.
     bindR (walk_pages \<lparr>we_ip = ip_literal, we_fetch = fetch, we_decode = peek, we_origin = listing_origin\<rparr> pin MAX_ATTRIBUTE_PAGES [] 0 None (Some url)) (\<lambda>accs.
       Inr \<lparr>ir_did = did, ir_has_attributes = True, ir_accreditations = accs\<rparr>)))))"

definition parse_issuer ::
    "(str \<Rightarrow> bool) \<Rightarrow> (str \<Rightarrow> json result) \<Rightarrow> (str \<Rightarrow> jobj result) \<Rightarrow> tir \<Rightarrow> str \<Rightarrow> str \<Rightarrow> jobj \<Rightarrow> issuer_record result" where
  "parse_issuer ip_literal fetch peek tir base did raw =
     (case tir of
        TirV4 \<Rightarrow> v4_parse_issuer peek did raw
      | _ \<Rightarrow> walk_parse_issuer ip_literal fetch peek tir base did raw)"

section \<open>The resolver\<close>

record ebsi_resolver =
  er_ip :: "str \<Rightarrow> bool"
  er_ec_point :: "str \<Rightarrow> bytes \<Rightarrow> (nat \<times> nat) result"
  er_get :: "str \<Rightarrow> json result"
  er_decode :: "str \<Rightarrow> jobj result"
  er_base :: str
  er_didr :: didr
  er_tir :: tir

definition base58_char :: "nat \<Rightarrow> bool" where
  "base58_char c = (49 \<le> c \<and> c \<le> 57 \<or> 65 \<le> c \<and> c \<le> 72 \<or> 74 \<le> c \<and> c \<le> 78 \<or> 80 \<le> c \<and> c \<le> 90 \<or> 97 \<le> c \<and> c \<le> 107 \<or> 109 \<le> c \<and> c \<le> 122)"

definition is_did_ebsi :: "str \<Rightarrow> bool" where
  "is_did_ebsi did =
     (starts_with (lit ''did:ebsi:z'') did \<and> list_all base58_char (drop 10 did) \<and> length (drop 10 did) \<in> {22, 23})"

definition require_did_ebsi :: "str \<Rightarrow> str result" where
  "require_did_ebsi did = (if is_did_ebsi did then Inr did else Inl DidResolutionError)"

definition ebsi_resolve :: "ebsi_resolver \<Rightarrow> str \<Rightarrow> did_document result" where
  "ebsi_resolve E did =
     bindR (require_did_ebsi did) (\<lambda>did.
     bindR (er_get E (identifiers_url (er_didr E) (er_base E) did)) (\<lambda>raw.
     bindR (parse_did_document (er_ec_point E) raw) (\<lambda>doc.
       if dd_id doc \<noteq> did then Inl DidResolutionError else Inr doc)))"

definition ebsi_issuer_record :: "ebsi_resolver \<Rightarrow> str \<Rightarrow> issuer_record result" where
  "ebsi_issuer_record E did =
     bindR (require_did_ebsi did) (\<lambda>did.
     bindR (bindR (er_get E (issuer_url (er_tir E) (er_base E) did)) require_object) (\<lambda>raw.
       if jget (lit ''did'') raw \<noteq> JStr did then Inl malformed_registry
       else parse_issuer (er_ip E) (er_get E) (er_decode E) (er_tir E) (er_base E) did raw))"

section \<open>The registry as its clients see it\<close>

text \<open>What a client may rely on: a record is about the DID that was asked for, and the types and kinds of each accreditation are
  those its own token states.\<close>

locale issuer_registry =
  fixes record_of :: "str \<Rightarrow> issuer_record result"
    and peek :: "str \<Rightarrow> jobj result"
  assumes about: "record_of did = Inr r \<Longrightarrow> ir_did r = did"
    and stated: "record_of did = Inr r \<Longrightarrow> a \<in> set (ir_accreditations r) \<Longrightarrow> types_from_token peek (ac_jwt a) = Inr (ac_types a, ac_kinds a)"
begin

text \<open>An accreditation that names a type carries a token, and that token lists the type.\<close>

lemma type_in_token:
  assumes "record_of did = Inr r" "a \<in> set (ir_accreditations r)" "ac_types a \<noteq> []"
  shows "\<exists>tok claims. ac_jwt a = Some tok \<and> tok \<noteq> [] \<and> peek tok = Inr claims \<and> token_scope claims = Inr (ac_types a, ac_kinds a)"
  using stated [OF assms(1,2)] assms(3)
  by (auto simp: types_from_token_def bindR_Inr split: option.split_asm if_split_asm)

end

section \<open>Lemmas\<close>

lemma attribute_stated:
  "attribute_accreditation peek body i a = Inr acc \<Longrightarrow> types_from_token peek (ac_jwt acc) = Inr (ac_types acc, ac_kinds acc)"
  by (auto simp: attribute_accreditation_def bindR_Inr)

lemma read_item_stated:
  "read_item W listed = Inr accs \<Longrightarrow> length accs \<le> 1 \<and> (\<forall>acc\<in>set accs. types_from_token (we_decode W) (ac_jwt acc) = Inr (ac_types acc, ac_kinds acc))"
  by (auto simp: read_item_def bindR_Inr dest!: attribute_stated split: option.split_asm if_split_asm)

lemma read_items_stated:
  "read_items W collected vs = Inr (n, full, accs) \<Longrightarrow> collected < MAX_ATTRIBUTE_ITEMS \<Longrightarrow>
     collected + length accs \<le> n \<and> n \<le> MAX_ATTRIBUTE_ITEMS \<and> (\<not> full \<longrightarrow> n < MAX_ATTRIBUTE_ITEMS) \<and>
     (\<forall>acc\<in>set accs. types_from_token (we_decode W) (ac_jwt acc) = Inr (ac_types acc, ac_kinds acc))"
proof (induction vs arbitrary: collected n full accs)
  case (Cons v vs)
  show ?case
  proof (cases v)
    case (JObj listed)
    then obtain here where h: "read_item W listed = Inr here" using Cons.prems(1) by (auto simp: bindR_Inr)
    note S = read_item_stated [OF h]
    show ?thesis
    proof (cases "MAX_ATTRIBUTE_ITEMS \<le> collected + 1")
      case True
      then show ?thesis using Cons.prems h JObj S by auto
    next
      case False
      then obtain more where m: "read_items W (collected + 1) vs = Inr (n, full, more)" "accs = here @ more"
        using Cons.prems(1) h JObj by (auto simp: bindR_Inr)
      then show ?thesis using Cons.IH [OF m(1)] False S by auto
    qed
  qed (use Cons in auto)
qed auto

lemma walk_page:
  assumes "walk_pages W pin (Suc pages) seen collected tot (Some u) = Inr accs" "accs \<noteq> []"
  obtains page n full here more where
    "read_items W collected (page_items page) = Inr (n, full, here)" "accs = here @ more"
    "more = [] \<or> \<not> full \<and> walk_pages W pin pages (u # seen) n (page_total tot page) (next_page W pin page) = Inr more"
proof -
  have "u \<notin> set seen" using assms by (cases "u \<in> set seen") simp_all
  then obtain page where p: "bindR (we_fetch W u) require_object = Inr page"
    using assms(1) by (cases "bindR (we_fetch W u) require_object") simp_all
  have "page_items page \<noteq> []" using assms p \<open>u \<notin> set seen\<close> by (cases "page_items page = []") simp_all
  then obtain n full here where k: "read_items W collected (page_items page) = Inr (n, full, here)"
    using assms(1) p \<open>u \<notin> set seen\<close> by (cases "read_items W collected (page_items page)") auto
  show thesis
  proof (cases "full \<or> total_reached (page_total tot page) n")
    case True
    then show thesis using that [OF k, of "[]"] assms(1) p \<open>u \<notin> set seen\<close> \<open>page_items page \<noteq> []\<close> k by simp
  next
    case False
    let ?rest = "walk_pages W pin pages (u # seen) n (page_total tot page) (next_page W pin page)"
    obtain more where "?rest = Inr more" "accs = here @ more"
      using assms(1) p \<open>u \<notin> set seen\<close> \<open>page_items page \<noteq> []\<close> k False by (cases ?rest) simp_all
    then show thesis using that [OF k] False by blast
  qed
qed

lemma walk_stated:
  "walk_pages W pin pages seen collected tot url = Inr accs \<Longrightarrow> collected < MAX_ATTRIBUTE_ITEMS \<Longrightarrow>
     collected + length accs \<le> MAX_ATTRIBUTE_ITEMS \<and>
     (\<forall>acc\<in>set accs. types_from_token (we_decode W) (ac_jwt acc) = Inr (ac_types acc, ac_kinds acc))"
proof (induction pages arbitrary: seen collected tot url accs)
  case (Suc pages)
  show ?case
  proof (cases "accs = []")
    case False
    then obtain u where u: "url = Some u" using Suc.prems(1) by (cases url) simp_all
    obtain page n full here more where k: "read_items W collected (page_items page) = Inr (n, full, here)" "accs = here @ more"
      "more = [] \<or> \<not> full \<and> walk_pages W pin pages (u # seen) n (page_total tot page) (next_page W pin page) = Inr more"
      by (rule walk_page [OF Suc.prems(1) [unfolded u] False])
    note R = read_items_stated [OF k(1) Suc.prems(2)]
    from k(3) show ?thesis
    proof
      assume "more = []"
      then show ?thesis using k(2) R by auto
    next
      assume m: "\<not> full \<and> walk_pages W pin pages (u # seen) n (page_total tot page) (next_page W pin page) = Inr more"
      then have "n < MAX_ATTRIBUTE_ITEMS" using R by blast
      then show ?thesis using Suc.IH [OF conjunct2 [OF m]] R k(2) by auto
    qed
  qed (use Suc.prems(2) in simp)
qed simp

lemma walk_record:
  assumes "walk_parse_issuer ip fetch peek tir base did raw = Inr r"
  shows "ir_did r = did \<and> length (ir_accreditations r) \<le> MAX_ATTRIBUTE_ITEMS \<and>
     (\<forall>acc\<in>set (ir_accreditations r). types_from_token peek (ac_jwt acc) = Inr (ac_types acc, ac_kinds acc))"
proof (cases "ir_accreditations r = []")
  case False
  then obtain W pin url accs where "walk_pages W pin MAX_ATTRIBUTE_PAGES [] 0 None url = Inr accs" "we_decode W = peek" "ir_did r = did"
    "ir_accreditations r = accs"
    using assms by (auto simp: walk_parse_issuer_def bindR_Inr split: if_split_asm)
  then show ?thesis using walk_stated [of W pin MAX_ATTRIBUTE_PAGES "[]" 0 None url accs] by (simp add: MAX_ATTRIBUTE_ITEMS_def)
qed (use assms in \<open>auto simp: walk_parse_issuer_def bindR_Inr split: if_split_asm\<close>)

lemma v4_record:
  assumes "v4_parse_issuer peek did raw = Inr r"
  shows "ir_did r = did \<and> (\<forall>acc\<in>set (ir_accreditations r). types_from_token peek (ac_jwt acc) = Inr (ac_types acc, ac_kinds acc))"
proof -
  obtain objs accs where k: "mapR (v4_attribute peek) objs = Inr accs" "r = \<lparr>ir_did = did, ir_has_attributes = (accs \<noteq> []), ir_accreditations = accs\<rparr>"
    using assms by (cases "case map_of raw (lit ''attributes'') of None \<Rightarrow> JList [] | Some v \<Rightarrow> v") (auto simp: v4_parse_issuer_def bindR_Inr)
  have "\<exists>a. v4_attribute peek a = Inr acc" if "acc \<in> set accs" for acc using mapR_set [OF k(1) that] by blast
  then show ?thesis using k(2) by (auto simp: v4_attribute_def bindR_Inr dest: attribute_stated)
qed

lemma registry_record:
  assumes "ebsi_issuer_record E did = Inr r"
  shows "is_did_ebsi did \<and> ir_did r = did \<and> (er_tir E \<noteq> TirV4 \<longrightarrow> length (ir_accreditations r) \<le> MAX_ATTRIBUTE_ITEMS) \<and>
     (\<forall>acc\<in>set (ir_accreditations r). types_from_token (er_decode E) (ac_jwt acc) = Inr (ac_types acc, ac_kinds acc))"
proof -
  obtain raw where k: "is_did_ebsi did" "parse_issuer (er_ip E) (er_get E) (er_decode E) (er_tir E) (er_base E) did raw = Inr r"
    using assms by (auto simp: ebsi_issuer_record_def require_did_ebsi_def bindR_Inr split: if_split_asm)
  then show ?thesis
    using v4_record walk_record by (cases "er_tir E") (fastforce simp: parse_issuer_def)+
qed

interpretation ebsi: issuer_registry "ebsi_issuer_record E" "er_decode E" for E
  using registry_record by unfold_locales blast+

section \<open>Lemmas: the origin pin\<close>

lemma takeWhile_shorter: "c \<in> set xs \<Longrightarrow> length (takeWhile (\<lambda>x. x \<noteq> c) xs) < length xs"
  by (induction xs) auto

text \<open>A path suffix leaves the scheme and the authority alone.\<close>

lemma url_scheme_append:
  assumes "58 \<in> set url" "url_scheme url = (scheme, rest)"
  shows "url_scheme (url @ s) = (scheme, rest @ s)"
proof -
  let ?p = "takeWhile (\<lambda>c. c \<noteq> 58) url"
  have "length ?p < length url" using assms(1) by (rule takeWhile_shorter)
  moreover have "takeWhile (\<lambda>c. c \<noteq> 58) (url @ s) = ?p" using assms(1) by (subst takeWhile_append1) auto
  moreover have "?p \<noteq> url" "?p \<noteq> url @ s" using \<open>length ?p < length url\<close> by (metis length_append less_irrefl trans_less_add1)+
  ultimately show ?thesis using assms(2) by (auto simp: url_scheme_def Let_def split: if_split_asm)
qed

lemma url_scheme_rest:
  assumes "url_scheme (b @ 47 # r) = (scheme, rest)" "58 \<in> set (b @ 47 # r)"
  shows "\<exists>b'. rest = b' @ 47 # r"
proof (cases "rest = b @ 47 # r")
  case False
  let ?url = "b @ 47 # r" and ?p = "takeWhile (\<lambda>c. c \<noteq> 58) (b @ 47 # r)"
  have p: "list_all scheme_char ?p" "rest = drop (Suc (length ?p)) ?url"
    using assms(1) False by (auto simp: url_scheme_def Let_def split: if_split_asm)
  have "\<not> scheme_char 47" by (simp add: scheme_char_def is_alnum_def)
  then have "47 \<notin> set ?p" using p(1) by (auto simp: list_all_iff)
  then have "58 \<in> set b" using assms(2) by (auto simp: takeWhile_append split: if_split_asm)
  then have "length ?p < length b" by (simp add: takeWhile_shorter)
  then show ?thesis using p(2) by simp
qed auto

lemma url_authority_append:
  assumes "url = b @ 47 # x # r" "47 \<in> set r" "58 \<in> set url"
  shows "url_authority (url @ s) = url_authority url"
proof -
  obtain scheme rest where sr: "url_scheme url = (scheme, rest)" by fastforce
  obtain b' where b: "rest = b' @ 47 # x # r" using url_scheme_rest sr assms(1,3) by blast
  have "47 \<in> set (drop 2 rest)" using b assms(2) by (cases b'; cases "tl b'") (auto simp: numeral_2_eq_2)
  then have "takeWhile (\<lambda>c. c \<notin> {47, 63, 35}) (drop 2 rest @ s) = takeWhile (\<lambda>c. c \<notin> {47, 63, 35}) (drop 2 rest)"
    by (subst takeWhile_append1) auto
  moreover have "starts_with (lit ''//'') (rest @ s) = starts_with (lit ''//'') rest" "2 \<le> length rest"
    using b by (cases b'; cases "tl b'"; auto simp: lit_def)+
  ultimately show ?thesis using url_scheme_append [OF assms(3) sr] sr by (simp add: url_authority_def)
qed

lemma origin_of_append:
  assumes "url = b @ 47 # x # r" "47 \<in> set r" "58 \<in> set url" "visible_ascii s"
    "origin_of ip url = Inr org" "origin_of ip (url @ s) = Inr org'"
  shows "org' = org"
proof -
  have "read_origin ip (url @ s) = read_origin ip url"
    using url_authority_append [OF assms(1-3)] assms(4) by (auto simp: read_origin_def split_url_def visible_ascii_def)
  then show ?thesis using assms(5,6) by (auto simp: origin_of_def split: if_split_asm)
qed

lemma default_attributes_origin:
  assumes "is_did_ebsi did" "tir \<noteq> TirV4" "origin_of ip (issuer_url tir base did) = Inr org" "origin_of ip (default_attributes_url tir base did) = Inr org'"
  shows "org' = org"
proof -
  obtain r x where u: "issuer_url tir base did = base @ 47 # x # r @ did" "47 \<in> set r"
    using assms(2) by (cases tir) (auto simp: issuer_url_def lit_def)
  have "58 \<in> set did" using assms(1) by (auto simp: is_did_ebsi_def starts_with_iff lit_def)
  then show ?thesis
    using origin_of_append [of "issuer_url tir base did" base x "r @ did" "lit ''/attributes''" ip org org'] u assms(3,4)
    by (auto simp: default_attributes_url_def visible_ascii_def lit_def)
qed

text \<open>Two clients that agree on one origin.\<close>

definition agree_on :: "(str \<Rightarrow> bool) \<Rightarrow> str \<Rightarrow> (str \<Rightarrow> json result) \<Rightarrow> (str \<Rightarrow> json result) \<Rightarrow> bool" where
  "agree_on ip org fetch fetch' \<longleftrightarrow> (\<forall>u. on_origin ip u org \<longrightarrow> fetch u = fetch' u)"

lemma read_item_agree:
  assumes "agree_on (we_ip W) (we_origin W) (we_fetch W) fetch'"
  shows "read_item (W\<lparr>we_fetch := fetch'\<rparr>) listed = read_item W listed"
  using assms by (auto simp: read_item_def agree_on_def split: option.split)

lemma read_items_agree:
  assumes "agree_on (we_ip W) (we_origin W) (we_fetch W) fetch'"
  shows "read_items (W\<lparr>we_fetch := fetch'\<rparr>) collected vs = read_items W collected vs"
  by (induction vs arbitrary: collected) (simp_all add: read_item_agree [OF assms] cong: json.case_cong if_cong)

lemma walk_pages_agree:
  assumes "agree_on (we_ip W) (we_origin W) (we_fetch W) fetch'"
  shows "(\<forall>u. url = Some u \<longrightarrow> on_origin (we_ip W) u (we_origin W)) \<Longrightarrow>
     walk_pages (W\<lparr>we_fetch := fetch'\<rparr>) (we_origin W) pages seen collected tot url = walk_pages W (we_origin W) pages seen collected tot url"
proof (induction pages arbitrary: seen collected tot url)
  case (Suc pages)
  show ?case
  proof (cases url)
    case (Some u)
    then have "we_fetch W u = fetch' u" using Suc.prems assms by (simp add: agree_on_def)
    moreover have "next_page (W\<lparr>we_fetch := fetch'\<rparr>) (we_origin W) page = next_page W (we_origin W) page" for page
      by (simp add: next_page_def cong: json.case_cong)
    moreover have "\<forall>u. next_page W (we_origin W) page = Some u \<longrightarrow> on_origin (we_ip W) u (we_origin W)" for page
      by (auto simp: next_page_def split: json.split_asm if_split_asm)
    ultimately show ?thesis using Some read_items_agree [OF assms] Suc.IH by (simp cong: if_cong)
  qed simp
qed simp

section \<open>Properties\<close>


text \<open>The origin pin: what a registry walk returns depends only on what the client answers for URLs on the origin of the issuer URL,
  so no link of a response (the attributes URL, an item or the next page) makes another origin's answer matter.\<close>

theorem registry_origin_pin:
  assumes did: "is_did_ebsi did"
    and agree: "\<And>org. origin_of ip (issuer_url tir base did) = Inr org \<Longrightarrow> agree_on ip org fetch fetch'"
  shows "parse_issuer ip fetch peek tir base did raw = parse_issuer ip fetch' peek tir base did raw"
proof (cases "tir = TirV4")
  case False
  have "walk_pages \<lparr>we_ip = ip, we_fetch = fetch', we_decode = peek, we_origin = org\<rparr> pin pages [] 0 None (Some url) =
      walk_pages \<lparr>we_ip = ip, we_fetch = fetch, we_decode = peek, we_origin = org\<rparr> pin pages [] 0 None (Some url)"
    if o: "origin_of ip (issuer_url tir base did) = Inr org" "attributes_url ip tir base did org raw = Inr url" "origin_of ip url = Inr pin"
    for org url pin pages
  proof -
    have "pin = org" using o default_attributes_origin [OF did False o(1)]
      by (auto simp: attributes_url_def bindR_Inr Let_def split: if_split_asm option.split_asm)
    then show ?thesis
      using walk_pages_agree [of "\<lparr>we_ip = ip, we_fetch = fetch, we_decode = peek, we_origin = org\<rparr>" fetch' "Some url"] agree [OF o(1)] o(3)
      by (simp add: on_origin_def)
  qed
  then have "walk_parse_issuer ip fetch peek tir base did raw = walk_parse_issuer ip fetch' peek tir base did raw"
    unfolding walk_parse_issuer_def by (intro bindR_cong refl if_cong) auto
  then show ?thesis using False by (cases tir) (simp_all add: parse_issuer_def)
qed (simp add: parse_issuer_def)

text \<open>A walk over one page on the registry's own origin.\<close>

definition ex_walk_did :: str where "ex_walk_did = lit ''did:ebsi:z1111111111111111111111''"

definition ex_walk_get :: "str \<Rightarrow> json result" where
  "ex_walk_get u =
     (if u = issuer_url TirV5 (lit ''https://n'') ex_walk_did then Inr (JObj [(lit ''did'', JStr ex_walk_did), (lit ''hasAttributes'', JBool True)])
      else if u = default_attributes_url TirV5 (lit ''https://n'') ex_walk_did
      then Inr (JObj [(lit ''items'', JList [JObj [(lit ''id'', JStr [48]), (lit ''href'', JStr (lit ''https://n/a''))]])])
      else if u = lit ''https://n/a'' then Inr (JObj [(lit ''attribute'', JObj [(lit ''issuerType'', JStr (lit ''TI''))])])
      else Inl (Ebsi HttpNotFound))"

definition ex_walk_resolver :: ebsi_resolver where
  "ex_walk_resolver = \<lparr>er_ip = (\<lambda>h. False), er_ec_point = (\<lambda>c k. Inl PyValueError), er_get = ex_walk_get,
     er_decode = (\<lambda>t. Inl MalformedToken), er_base = lit ''https://n'', er_didr = DidRegistryV5, er_tir = TirV5\<rparr>"

lemmas origin_eval = origin_of_def read_origin_def split_url_def url_authority_def url_scheme_def visible_ascii_def brackets_ok_def
  url_port_def url_hostname_def scheme_char_def is_alnum_def lit_def MAX_URL_LENGTH_def Let_def
  raw_host_port_def lower_def lower_char_def host_info_def Cred_Schema.partition_at_def

lemma ex_walk_origin:
  "origin_of (\<lambda>h. False) (lit ''https://n/a'') = Inr (lit ''https://n:443'')"
  "origin_of (\<lambda>h. False) (issuer_url TirV5 (lit ''https://n'') ex_walk_did) = Inr (lit ''https://n:443'')"
  "origin_of (\<lambda>h. False) (default_attributes_url TirV5 (lit ''https://n'') ex_walk_did) = Inr (lit ''https://n:443'')"
  by (simp_all add: origin_eval decimal.simps [of 443] decimal.simps [of 44] decimal.simps [of 4] issuer_url_def default_attributes_url_def ex_walk_did_def)

lemma ex_walk: "ebsi_issuer_record ex_walk_resolver ex_walk_did = Inr \<lparr>ir_did = ex_walk_did, ir_has_attributes = True, ir_accreditations =
   [\<lparr>ac_id = [48], ac_role = lit ''TI'', ac_tao = None, ac_root_tao = None, ac_types = [], ac_jwt = None, ac_kinds = []\<rparr>]\<rparr>"
proof -
  let ?base = "lit ''https://n''" and ?W = "\<lparr>we_ip = \<lambda>h. False, we_fetch = ex_walk_get, we_decode = \<lambda>t. Inl MalformedToken, we_origin = lit ''https://n:443''\<rparr>"
  let ?listing = "[(lit ''items'', JList [JObj [(lit ''id'', JStr [48]), (lit ''href'', JStr (lit ''https://n/a''))]])]"
  let ?raw = "[(lit ''did'', JStr ex_walk_did), (lit ''hasAttributes'', JBool True)]"
  let ?acc = "\<lparr>ac_id = [48], ac_role = lit ''TI'', ac_tao = None, ac_root_tao = None, ac_types = [], ac_jwt = None, ac_kinds = []\<rparr>"
  have u: "default_attributes_url TirV5 ?base ex_walk_did \<noteq> issuer_url TirV5 ?base ex_walk_did"
    "lit ''https://n/a'' \<notin> {default_attributes_url TirV5 ?base ex_walk_did, issuer_url TirV5 ?base ex_walk_did}"
    by (simp_all add: default_attributes_url_def issuer_url_def lit_def)
  then have g: "ex_walk_get (issuer_url TirV5 ?base ex_walk_did) = Inr (JObj ?raw)" "ex_walk_get (default_attributes_url TirV5 ?base ex_walk_did) = Inr (JObj ?listing)"
    "ex_walk_get (lit ''https://n/a'') = Inr (JObj [(lit ''attribute'', JObj [(lit ''issuerType'', JStr (lit ''TI''))])])"
    by (simp_all add: ex_walk_get_def)
  have h: "lit ''https://n/a'' \<noteq> []" by (simp add: lit_def)
  have i: "read_item ?W [(lit ''id'', JStr [48]), (lit ''href'', JStr (lit ''https://n/a''))] = Inr [?acc]"
    using h g(3) by (simp add: read_item_def jget_def on_origin_def ex_walk_origin require_object_def as_object_def wire_opt_str_def wire_str_def
        attribute_accreditation_def types_from_token_def)
  have w: "walk_pages ?W (lit ''https://n:443'') (Suc n) [] 0 None (Some (default_attributes_url TirV5 ?base ex_walk_did)) = Inr [?acc]" for n
  proof (cases n)
    case (Suc m)
    then show ?thesis using g(2) i
      by (simp add: page_items_def jget_def require_object_def as_object_def MAX_ATTRIBUTE_ITEMS_def page_total_def total_reached_def next_page_def)
  qed (use g(2) i in \<open>simp add: page_items_def jget_def require_object_def as_object_def MAX_ATTRIBUTE_ITEMS_def page_total_def total_reached_def next_page_def\<close>)
  have d: "is_did_ebsi ex_walk_did" by (simp add: is_did_ebsi_def ex_walk_did_def lit_def base58_char_def)
  obtain n where "MAX_ATTRIBUTE_PAGES = Suc n" by (cases MAX_ATTRIBUTE_PAGES) (simp_all add: MAX_ATTRIBUTE_PAGES_def)
  then show ?thesis using w [of n] d g(1) ex_walk_origin
    by (simp add: ebsi_issuer_record_def require_did_ebsi_def ex_walk_resolver_def require_object_def as_object_def jget_def parse_issuer_def
        walk_parse_issuer_def wire_bool_def attributes_url_def)
qed


theorem registry_origin_pin_witness:
  "is_did_ebsi ex_walk_did \<and>
   parse_issuer (\<lambda>h. False) (\<lambda>u. if on_origin (\<lambda>h. False) u (lit ''https://n:443'') then ex_walk_get u else Inl PyOSError) (\<lambda>t. Inl MalformedToken) TirV5 (lit ''https://n'') ex_walk_did [(lit ''hasAttributes'', JBool True)] =
   parse_issuer (\<lambda>h. False) ex_walk_get (\<lambda>t. Inl MalformedToken) TirV5 (lit ''https://n'') ex_walk_did [(lit ''hasAttributes'', JBool True)]"
proof -
  have "is_did_ebsi ex_walk_did" using registry_record [OF ex_walk] by blast
  moreover have "agree_on (\<lambda>h. False) org (\<lambda>u. if on_origin (\<lambda>h. False) u (lit ''https://n:443'') then ex_walk_get u else Inl PyOSError) ex_walk_get"
    if "origin_of (\<lambda>h. False) (issuer_url TirV5 (lit ''https://n'') ex_walk_did) = Inr org" for org
    using that ex_walk_origin(2) by (simp add: agree_on_def)
  ultimately show ?thesis using registry_origin_pin by blast
qed

end
