(* ===== verification/Ebsi_Trust.thy ===== *)
theory Ebsi_Trust
  imports Ebsi_Registry Pipeline
begin

text \<open>
  openvc\_ebsi: the trust chain (trust.py) and the badge verifier (verify.py). A chain is walked from an issuer to an anchor the
  caller chose; at each hop an accreditation of the registry record is picked, its token verified under the accreditor's resolved
  key and bound to the DID whose record it is in. \<open>trust_env\<close> is the resolver and the proof suite; \<open>te_pick\<close> and \<open>te_read\<close> are
  those of the status check.
\<close>

section \<open>Eligibility\<close>

datatype ineligibility = RoleNotLive | RoleMayNotAccredit | WrongKind | NamesNoType

definition accreditation_ineligibility :: "bool \<Rightarrow> accreditation \<Rightarrow> ineligibility option" where
  "accreditation_ineligibility leaf acc =
     (if \<not> has_trust_role acc then Some RoleNotLive
      else if \<not> leaf \<and> \<not> can_accredit acc then Some RoleMayNotAccredit
      else if (if leaf then ACCREDITATION_TO_ATTEST else ACCREDITATION_TO_ACCREDIT) \<notin> set (ac_kinds acc) then Some WrongKind
      else if ac_types acc = [] then Some NamesNoType
      else None)"

definition authorises :: "bool \<Rightarrow> str set \<Rightarrow> accreditation \<Rightarrow> bool" where
  "authorises leaf needed acc =
     (accreditation_ineligibility leaf acc = None \<and>
      (if leaf then set (ac_types acc) \<inter> needed \<noteq> {} else needed \<subseteq> set (ac_types acc)))"

definition pick_accreditation :: "issuer_record \<Rightarrow> str set \<Rightarrow> bool \<Rightarrow> accreditation option" where
  "pick_accreditation rec needed leaf =
     (if \<not> ir_has_attributes rec then None else find (authorises leaf needed) (ir_accreditations rec))"

text \<open>The single-level policy.\<close>

definition evaluate_issuer_trust :: "issuer_record \<Rightarrow> str list \<Rightarrow> accreditation option" where
  "evaluate_issuer_trust rec credential_types =
     (if \<not> ir_has_attributes rec then None
      else find (\<lambda>acc. accreditation_ineligibility True acc = None \<and> set credential_types \<inter> set (ac_types acc) \<noteq> {})
             (ir_accreditations rec))"

section \<open>One hop\<close>

record trust_env =
  te_jose :: jose
  te_pyjwt :: pyjwt
  te_suite :: vc_suite
  te_resolver :: ebsi_resolver
  te_pick :: "str list \<Rightarrow> str"
  te_read :: "bytes \<Rightarrow> nat \<Rightarrow> bytes result"

record trust_hop =
  th_subject :: str
  th_accreditor :: str
  th_accreditation :: accreditation

record trust_chain =
  tc_subject :: str
  tc_anchor :: str
  tc_hops :: "trust_hop list"
  tc_scope :: "str set"

abbreviation invalid_accreditation :: exc where "invalid_accreditation \<equiv> Ebsi AccreditationInvalid"

definition is_did_resolution_error :: "exc \<Rightarrow> bool" where
  "is_did_resolution_error e = (e \<in> {DidResolutionError, DidWebvhError, UnsafeUrlError})"

text \<open>The spellings under which a token names its subject, those that are sent.\<close>

definition sent :: "str \<Rightarrow> jobj \<Rightarrow> json list" where
  "sent k d = (case map_of d k of None \<Rightarrow> [] | Some v \<Rightarrow> [v])"

definition subject_names :: "verified_credential \<Rightarrow> json list result" where
  "subject_names v =
     (case map_of (vc_credential v) (lit ''credentialSubject'') of
        None \<Rightarrow> Inr (sent (lit ''sub'') (vc_claims v))
      | Some (JObj cs) \<Rightarrow> Inr (sent (lit ''sub'') (vc_claims v) @ sent (lit ''id'') cs @ sent (lit ''@id'') cs)
      | Some _ \<Rightarrow> Inl invalid_accreditation)"

definition check_subject_binding :: "verified_credential \<Rightarrow> str \<Rightarrow> unit result" where
  "check_subject_binding v subject =
     bindR (subject_names v) (\<lambda>names.
       if names = [] then Inl invalid_accreditation
       else if list_all (\<lambda>n. n = JStr subject) names then Inr () else Inl invalid_accreditation)"

definition kid_value :: "str option \<Rightarrow> json" where
  "kid_value kid = (case kid of None \<Rightarrow> JNull | Some k \<Rightarrow> JStr k)"

definition verify_accreditation :: "trust_env \<Rightarrow> accreditation \<Rightarrow> str \<Rightarrow> str \<Rightarrow> jobj result" where
  "verify_accreditation T acc subject accreditor =
     (case ac_jwt acc of
        None \<Rightarrow> Inl invalid_accreditation
      | Some token \<Rightarrow>
          if token = [] then Inl invalid_accreditation
          else
          bindR (catchR is_proof_error invalid_accreditation (vc_peek_issuer (te_jose T) token)) (\<lambda>(iss, kid).
            if iss \<noteq> accreditor then Inl invalid_accreditation
            else
          bindR (catchR is_did_resolution_error invalid_accreditation (ebsi_resolve (te_resolver T) accreditor)) (\<lambda>doc.
          case key_by_kid doc (kid_value kid) of
            None \<Rightarrow> Inl invalid_accreditation
          | Some vm \<Rightarrow>
              bindR (catchR is_proof_error invalid_accreditation
                       (vc_verify (te_jose T) (te_pyjwt T) (te_suite T) token (JObj (vm_jwk vm)) [] JNull True)) (\<lambda>v.
              bindR (check_subject_binding v subject) (\<lambda>_. Inr (vc_credential v))))))"

definition check_accreditation_status :: "trust_env \<Rightarrow> (str \<Rightarrow> json result) option \<Rightarrow> jobj \<Rightarrow> unit result" where
  "check_accreditation_status T resolve_status_list vc =
     (case resolve_status_list of
        None \<Rightarrow> Inr ()
      | Some res \<Rightarrow>
          bindR (catchR (\<lambda>e. e = StatusListError) invalid_accreditation (check_credential_status (te_pick T) (te_read T) res vc)) (\<lambda>status.
            if sr_revoked status then Inl (Ebsi AccreditationRevoked) else Inr ()))"

definition read_record :: "trust_env \<Rightarrow> str \<Rightarrow> issuer_record result" where
  "read_record T current =
     catchR (\<lambda>e. e = Ebsi HttpNotFound \<or> is_did_resolution_error e) (Ebsi NoTrustedAnchor) (ebsi_issuer_record (te_resolver T) current)"

text \<open>The body of the loop up to the verified hop and the scope after it.\<close>

definition chain_hop ::
    "trust_env \<Rightarrow> (str \<Rightarrow> json result) option \<Rightarrow> str list \<Rightarrow> str set option \<Rightarrow> str \<Rightarrow> (trust_hop \<times> str set) result" where
  "chain_hop T resolve_status_list credential_types scope current =
     bindR (read_record T current) (\<lambda>rec.
     case pick_accreditation rec (case scope of None \<Rightarrow> set credential_types | Some s \<Rightarrow> s) (scope = None) of
       None \<Rightarrow> Inl (Ebsi NoTrustedAnchor)
     | Some acc \<Rightarrow>
         (case ac_tao acc of
            None \<Rightarrow> Inl invalid_accreditation
          | Some accreditor \<Rightarrow>
              if accreditor = [] then Inl invalid_accreditation
              else
              bindR (verify_accreditation T acc current accreditor) (\<lambda>vc.
              bindR (check_accreditation_status T resolve_status_list vc) (\<lambda>_.
                Inr (\<lparr>th_subject = current, th_accreditor = accreditor, th_accreditation = acc\<rparr>,
                     case scope of None \<Rightarrow> set (ac_types acc) \<inter> set credential_types | Some s \<Rightarrow> s)))))"

section \<open>The walk\<close>

definition DEFAULT_MAX_DEPTH :: int where "DEFAULT_MAX_DEPTH = 6"

fun walk_chain ::
    "trust_env \<Rightarrow> (str \<Rightarrow> json result) option \<Rightarrow> str list \<Rightarrow> str set \<Rightarrow> nat \<Rightarrow> str set \<Rightarrow> str set option \<Rightarrow> str \<Rightarrow>
       (str \<times> trust_hop list \<times> str set) result" where
  "walk_chain T resolve_status_list credential_types anchors 0 seen scope current = Inl (Ebsi NoTrustedAnchor)"
| "walk_chain T resolve_status_list credential_types anchors (Suc n) seen scope current =
     bindR (chain_hop T resolve_status_list credential_types scope current) (\<lambda>(hop, scope').
       if th_accreditor hop \<in> anchors then Inr (th_accreditor hop, [hop], scope')
       else if th_accreditor hop \<in> seen then Inl (Ebsi TrustChainError)
       else
       bindR (walk_chain T resolve_status_list credential_types anchors n (insert (th_accreditor hop) seen) (Some scope') (th_accreditor hop))
         (\<lambda>(anchor, hops, final). Inr (anchor, hop # hops, final)))"

definition verify_trust_chain ::
    "trust_env \<Rightarrow> str \<Rightarrow> str list \<Rightarrow> str set \<Rightarrow> int \<Rightarrow> (str \<Rightarrow> json result) option \<Rightarrow> trust_chain result" where
  "verify_trust_chain T subject_did credential_types anchors max_depth resolve_status_list =
     (if subject_did \<in> anchors
      then Inr \<lparr>tc_subject = subject_did, tc_anchor = subject_did, tc_hops = [], tc_scope = set credential_types\<rparr>
      else
      bindR (walk_chain T resolve_status_list credential_types anchors (nat max_depth) {subject_did} None subject_did)
        (\<lambda>(anchor, hops, scope). Inr \<lparr>tc_subject = subject_did, tc_anchor = anchor, tc_hops = hops, tc_scope = scope\<rparr>))"

section \<open>The badge\<close>

record badge =
  bg_verified :: verified_credential
  bg_trusted :: bool
  bg_accreditation :: "accreditation option"
  bg_record :: "issuer_record option"
  bg_chain :: "trust_chain option"
  bg_status :: "status_result option"

definition is_trust_chain_error :: "exc \<Rightarrow> bool" where
  "is_trust_chain_error e =
     (e \<in> {Ebsi TrustChainError, Ebsi NoTrustedAnchor, Ebsi AccreditationInvalid, Ebsi AccreditationRevoked})"

text \<open>A \<open>type\<close> that is an object is iterated by its keys; one that cannot be iterated raises.\<close>

definition credential_types :: "jobj \<Rightarrow> str list result" where
  "credential_types credential =
     (case map_of credential (lit ''type'') of
        None \<Rightarrow> Inr []
      | Some (JStr t) \<Rightarrow> Inr [t]
      | Some (JList ts) \<Rightarrow> Inr (jstrs (filter is_jstr ts))
      | Some (JObj d) \<Rightarrow> Inr (map fst d)
      | Some _ \<Rightarrow> Inl PyTypeError)"

definition issuer_trust ::
    "trust_env \<Rightarrow> str set option \<Rightarrow> bool \<Rightarrow> (str \<Rightarrow> json result) option \<Rightarrow> str \<Rightarrow> str list \<Rightarrow>
       (trust_chain option \<times> issuer_record option \<times> accreditation option \<times> bool) result" where
  "issuer_trust T trust_anchors require_trust resolve_status_list issuer cred_types =
     (case trust_anchors of
        Some anchors \<Rightarrow>
          (case verify_trust_chain T issuer cred_types anchors DEFAULT_MAX_DEPTH resolve_status_list of
             Inr chain \<Rightarrow> Inr (Some chain, None, (case tc_hops chain of [] \<Rightarrow> None | h # _ \<Rightarrow> Some (th_accreditation h)), True)
           | Inl e \<Rightarrow> if is_trust_chain_error e \<and> \<not> require_trust then Inr (None, None, None, False) else Inl e)
      | None \<Rightarrow>
          bindR (catchR is_did_resolution_error (Ebsi EbsiVerificationError) (ebsi_issuer_record (te_resolver T) issuer)) (\<lambda>rec.
          let accreditation = evaluate_issuer_trust rec cred_types
          in if require_trust \<and> accreditation = None then Inl (Ebsi IssuerNotTrusted)
             else Inr (None, Some rec, accreditation, accreditation \<noteq> None)))"

definition badge_status :: "trust_env \<Rightarrow> (str \<Rightarrow> json result) option \<Rightarrow> jobj \<Rightarrow> status_result option result" where
  "badge_status T resolve_status_list credential =
     (case resolve_status_list of
        None \<Rightarrow> Inr None
      | Some res \<Rightarrow>
          bindR (check_credential_status (te_pick T) (te_read T) res credential) (\<lambda>status.
            if sr_revoked status then Inl CredentialRevoked else Inr (Some status)))"

definition verify_ebsi_badge ::
    "trust_env \<Rightarrow> str \<Rightarrow> str list \<Rightarrow> bool \<Rightarrow> str set option \<Rightarrow> (str \<Rightarrow> json result) option \<Rightarrow> json \<Rightarrow> badge result" where
  "verify_ebsi_badge T token expected_types require_trust trust_anchors resolve_status_list audience =
     bindR (vc_peek_issuer (te_jose T) token) (\<lambda>(issuer_hint, kid).
     bindR (catchR is_did_resolution_error (Ebsi EbsiVerificationError) (ebsi_resolve (te_resolver T) issuer_hint)) (\<lambda>doc.
     case key_by_kid doc (kid_value kid) of
       None \<Rightarrow> Inl (Ebsi VerificationMethodNotFound)
     | Some vm \<Rightarrow>
         bindR (vc_verify (te_jose T) (te_pyjwt T) (te_suite T) token (JObj (vm_jwk vm)) expected_types audience True) (\<lambda>v.
         bindR (credential_types (vc_credential v)) (\<lambda>cred_types.
         bindR (issuer_trust T trust_anchors require_trust resolve_status_list (vc_issuer v) cred_types) (\<lambda>(chain, rec, accreditation, trusted).
         bindR (badge_status T resolve_status_list (vc_credential v)) (\<lambda>status.
           Inr \<lparr>bg_verified = v, bg_trusted = trusted, bg_accreditation = accreditation, bg_record = rec, bg_chain = chain,
                bg_status = status\<rparr>))))))"

section \<open>Lemmas: what was peeked is what was verified\<close>

lemma mldsa_payload:
  assumes "verify_mldsa J suite token alg jwk ct = Inr (claims, je)"
  shows "\<exists>h p s. split_on 46 token = [h, p, s] \<and> bindR (b64url_decode p) (loads (jo_loads J)) = Inr (JObj claims)"
proof -
  obtain h p s where sp: "split_on 46 token = [h, p, s]"
    using assms by (auto simp: verify_mldsa_def split: list.split_asm)
  show ?thesis using assms unfolding verify_mldsa_def sp by (auto simp: bindR_Inr as_object_Inr split: if_split_asm)
qed

lemma vc_verify_payload:
  assumes "pyjwt_payload J P" "vc_verify J P suite token (JObj jwk) types aud ct = Inr v"
  shows "vc_peek_claims J token = Inr (vc_claims v)"
proof -
  obtain alg claims je where g: "vc_gate J suite token aud = Inr alg" "vc_signature_step J P suite token alg (JObj jwk) aud ct = Inr (claims, je)"
    "vc_finish J suite claims je aud types ct = Inr v"
    using assms(2) by (auto simp: vc_verify_def bindR_Inr)
  have "\<exists>h p s. split_on 46 token = [h, p, s] \<and> bindR (b64url_decode p) (loads (jo_loads J)) = Inr (JObj claims)"
  proof (cases "alg \<in> set ALLOWED_ALGS_PQ")
    case True
    then have "verify_mldsa J suite token alg jwk ct = Inr (claims, je)" using g(2) by (simp add: vc_signature_step_def)
    then show ?thesis by (rule mldsa_payload)
  next
    case False
    then have "verify_classic P suite token alg (JObj jwk) aud ct = Inr (claims, je)" using g(2) by (simp add: vc_signature_step_def)
    then show ?thesis by (rule classic_payload [OF assms(1)])
  qed
  then obtain h p s where c: "split_on 46 token = [h, p, s]" "bindR (b64url_decode p) (loads (jo_loads J)) = Inr (JObj claims)" by blast
  have "vc_split token = Inr (h, p, s)" using vc_gate_Inr [OF g(1)] c(1) by (auto simp: vc_split_def)
  moreover have "vc_claims v = claims" using vc_finish_Inr [OF g(3)] by blast
  ultimately show ?thesis using c(2) by (simp add: vc_peek_claims_def json_of_segment_def as_object_def)
qed

lemma vc_verify_issuer:
  assumes "pyjwt_payload J P" "vc_peek_issuer J token = Inr (iss, kid)" "vc_verify J P suite token (JObj jwk) types aud ct = Inr v"
  shows "vc_issuer v = iss"
proof -
  obtain h p s payload where p: "split_on 46 token = [h, p, s]" "json_of_segment J p = Inr (JObj payload)" "peeked_issuer payload = JStr iss" "iss \<noteq> []"
    using vc_peek_Inr [OF assms(2)] by blast
  have "vc_peek_claims J token = Inr (vc_claims v)" by (rule vc_verify_payload [OF assms(1,3)])
  then have "payload = vc_claims v" using p(1,2) by (auto simp: vc_peek_claims_def vc_split_def bindR_Inr as_object_def split: if_split_asm)
  moreover obtain claims je where "vc_finish J suite claims je aud types ct = Inr v" using assms(3) by (auto simp: vc_verify_def bindR_Inr)
  ultimately show ?thesis using peeked_reconciled p(3,4) vc_finish_Inr by metis
qed

section \<open>Lemmas: one hop\<close>

text \<open>The resolver reads accreditation tokens with the suite that verifies them.\<close>

definition one_suite :: "trust_env \<Rightarrow> bool" where
  "one_suite T \<longleftrightarrow> pyjwt_payload (te_jose T) (te_pyjwt T) \<and> er_decode (te_resolver T) = vc_peek_claims (te_jose T)"

text \<open>What a hop promises: the accreditation is in the subject's registry record; its token verifies under a key of the accreditor's
  resolved document, is issued by the accreditor, names the subject and nobody else, is not revoked, is of the kind the hop needs,
  and lists every type of the scope.\<close>

definition hop_sound :: "trust_env \<Rightarrow> (str \<Rightarrow> json result) option \<Rightarrow> str set \<Rightarrow> bool \<Rightarrow> trust_hop \<Rightarrow> bool" where
  "hop_sound T status scope leaf h \<longleftrightarrow>
     (\<exists>rec token doc kid vm v names types kinds.
        ebsi_issuer_record (te_resolver T) (th_subject h) = Inr rec \<and> th_accreditation h \<in> set (ir_accreditations rec) \<and>
        ac_role (th_accreditation h) \<in> set (if leaf then TRUST_ROLES else DELEGATING_ROLES) \<and>
        ac_jwt (th_accreditation h) = Some token \<and>
        ebsi_resolve (te_resolver T) (th_accreditor h) = Inr doc \<and> key_by_kid doc kid = Some vm \<and>
        vc_verify (te_jose T) (te_pyjwt T) (te_suite T) token (JObj (vm_jwk vm)) [] JNull True = Inr v \<and>
        vc_issuer v = th_accreditor h \<and> subject_names v = Inr names \<and> set names = {JStr (th_subject h)} \<and>
        token_scope (vc_claims v) = Inr (types, kinds) \<and>
        (if leaf then ACCREDITATION_TO_ATTEST else ACCREDITATION_TO_ACCREDIT) \<in> set kinds \<and> scope \<subseteq> set types \<and>
        (\<forall>res. status = Some res \<longrightarrow>
           (\<exists>st. check_credential_status (te_pick T) (te_read T) res (vc_credential v) = Inr st \<and> \<not> sr_revoked st)))"

lemma subject_binding_Inr: "check_subject_binding v subject = Inr () \<longleftrightarrow> (\<exists>names. subject_names v = Inr names \<and> set names = {JStr subject})"
proof -
  have "names \<noteq> [] \<and> list_all (\<lambda>n. n = JStr subject) names \<longleftrightarrow> set names = {JStr subject}" for names :: "json list"
    by (cases names) (auto simp: list_all_iff)
  then show ?thesis by (auto simp: check_subject_binding_def bindR_Inr split: if_split_asm)
qed

lemma verify_accreditation_Inr:
  assumes "verify_accreditation T acc subject accreditor = Inr vc"
  obtains token kid doc vm v where "ac_jwt acc = Some token" "token \<noteq> []" "vc_peek_issuer (te_jose T) token = Inr (accreditor, kid)"
    "ebsi_resolve (te_resolver T) accreditor = Inr doc" "key_by_kid doc (kid_value kid) = Some vm"
    "vc_verify (te_jose T) (te_pyjwt T) (te_suite T) token (JObj (vm_jwk vm)) [] JNull True = Inr v"
    "check_subject_binding v subject = Inr ()" "vc = vc_credential v"
  using assms unfolding verify_accreditation_def
  by (auto simp: bindR_Inr simp del: key_by_kid.simps split: option.split_asm if_split_asm)

lemma chain_hop_Inr:
  assumes "chain_hop T status types scope current = Inr (hop, scope')"
  obtains rec acc vc where "ebsi_issuer_record (te_resolver T) current = Inr rec" "th_subject hop = current" "th_accreditation hop = acc"
    "pick_accreditation rec (case scope of None \<Rightarrow> set types | Some s \<Rightarrow> s) (scope = None) = Some acc"
    "verify_accreditation T acc current (th_accreditor hop) = Inr vc" "check_accreditation_status T status vc = Inr ()"
    "scope' = (case scope of None \<Rightarrow> set (ac_types acc) \<inter> set types | Some s \<Rightarrow> s)"
proof -
  let ?pick = "\<lambda>rec. pick_accreditation rec (case scope of None \<Rightarrow> set types | Some s \<Rightarrow> s) (scope = None)"
  obtain rec where r: "ebsi_issuer_record (te_resolver T) current = Inr rec"
    using assms by (auto simp: chain_hop_def read_record_def bindR_Inr)
  then obtain acc where p: "?pick rec = Some acc"
    using assms by (cases "?pick rec") (auto simp: chain_hop_def read_record_def)
  then obtain accreditor where t: "ac_tao acc = Some accreditor" "accreditor \<noteq> []"
    using assms r by (cases "ac_tao acc") (auto simp: chain_hop_def read_record_def split: if_split_asm)
  show thesis using assms r p t that [OF r _ _ p] by (auto simp: chain_hop_def read_record_def bindR_Inr)
qed

lemma pick_Some:
  assumes "pick_accreditation rec needed leaf = Some acc"
  shows "acc \<in> set (ir_accreditations rec)" "authorises leaf needed acc"
  using assms by (auto simp: pick_accreditation_def find_Some_iff split: if_split_asm)

lemma chain_hop_sound:
  assumes "one_suite T" "chain_hop T status types scope current = Inr (hop, scope')"
  shows "th_subject hop = current \<and> hop_sound T status scope' (scope = None) hop \<and>
     (case scope of None \<Rightarrow> scope' \<noteq> {} \<and> scope' \<subseteq> set types | Some s \<Rightarrow> scope' = s)"
proof -
  from assms(2) obtain rec acc vc where c: "ebsi_issuer_record (te_resolver T) current = Inr rec" "th_subject hop = current"
    "th_accreditation hop = acc" "pick_accreditation rec (case scope of None \<Rightarrow> set types | Some s \<Rightarrow> s) (scope = None) = Some acc"
    "verify_accreditation T acc current (th_accreditor hop) = Inr vc" "check_accreditation_status T status vc = Inr ()"
    "scope' = (case scope of None \<Rightarrow> set (ac_types acc) \<inter> set types | Some s \<Rightarrow> s)"
    by (rule chain_hop_Inr)
  from c(5) obtain token kid doc vm v where a: "ac_jwt acc = Some token" "token \<noteq> []"
    "vc_peek_issuer (te_jose T) token = Inr (th_accreditor hop, kid)"
    "ebsi_resolve (te_resolver T) (th_accreditor hop) = Inr doc" "key_by_kid doc (kid_value kid) = Some vm"
    "vc_verify (te_jose T) (te_pyjwt T) (te_suite T) token (JObj (vm_jwk vm)) [] JNull True = Inr v"
    "check_subject_binding v current = Inr ()" "vc = vc_credential v"
    by (rule verify_accreditation_Inr)
  note P = pick_Some [OF c(4)]
  have e: "accreditation_ineligibility (scope = None) acc = None" using P(2) by (simp add: authorises_def)
  then have role: "ac_role acc \<in> set (if scope = None then TRUST_ROLES else DELEGATING_ROLES)"
    and kind: "(if scope = None then ACCREDITATION_TO_ATTEST else ACCREDITATION_TO_ACCREDIT) \<in> set (ac_kinds acc)" and types: "ac_types acc \<noteq> []"
    by (auto simp: accreditation_ineligibility_def has_trust_role_def can_accredit_def split: if_split_asm)
  have J: "pyjwt_payload (te_jose T) (te_pyjwt T)" "er_decode (te_resolver T) = vc_peek_claims (te_jose T)"
    using assms(1) by (simp_all add: one_suite_def)
  have t: "token_scope (vc_claims v) = Inr (ac_types acc, ac_kinds acc)"
    using ebsi.type_in_token [OF c(1) P(1) types] a(1) vc_verify_payload [OF J(1) a(6)] by (auto simp: J(2))
  have s: "scope' \<subseteq> set (ac_types acc)" "case scope of None \<Rightarrow> scope' \<noteq> {} \<and> scope' \<subseteq> set types | Some s \<Rightarrow> scope' = s"
    using P(2) c(7) by (auto simp: authorises_def split: option.splits)
  have r: "\<forall>res. status = Some res \<longrightarrow> (\<exists>st. check_credential_status (te_pick T) (te_read T) res (vc_credential v) = Inr st \<and> \<not> sr_revoked st)"
    using c(6) a(8) by (auto simp: check_accreditation_status_def bindR_Inr split: if_split_asm)
  obtain names where n: "subject_names v = Inr names" "set names = {JStr (th_subject hop)}" using a(7) c(2) by (auto simp: subject_binding_Inr)
  have "hop_sound T status scope' (scope = None) hop"
    unfolding hop_sound_def c(3)
    using c(1,2) P(1) role a(1,4,5,6) vc_verify_issuer [OF J(1) a(3,6)] n t kind s(1) r by blast
  then show ?thesis using c(2) s(2) by blast
qed

section \<open>Lemmas: the chain\<close>

text \<open>The hops lead from a DID to an anchor, each accreditor the next hop's subject.\<close>

fun linked :: "str \<Rightarrow> trust_hop list \<Rightarrow> str \<Rightarrow> bool" where
  "linked did [] anchor = (did = anchor)"
| "linked did (h # hs) anchor = (th_subject h = did \<and> linked (th_accreditor h) hs anchor)"

lemma walk_chain_sound:
  assumes "one_suite T"
  shows "walk_chain T status types anchors n seen scope current = Inr (anchor, hops, final) \<Longrightarrow> current \<in> seen \<Longrightarrow>
     current \<notin> anchors \<Longrightarrow>
     hops \<noteq> [] \<and> length hops \<le> n \<and> anchor \<in> anchors \<and> linked current hops anchor \<and>
     distinct (map th_subject hops) \<and> set (map th_subject (tl hops)) \<inter> seen = {} \<and> set (map th_subject hops) \<inter> anchors = {} \<and>
     hop_sound T status final (scope = None) (hd hops) \<and> (\<forall>h\<in>set (tl hops). hop_sound T status final False h) \<and>
     (case scope of None \<Rightarrow> final \<noteq> {} \<and> final \<subseteq> set types | Some s \<Rightarrow> final = s)"
proof (induction n arbitrary: seen scope current anchor hops final)
  case (Suc n)
  obtain hop scope' where h: "chain_hop T status types scope current = Inr (hop, scope')"
    using Suc.prems(1) by (auto simp: bindR_Inr)
  note S = chain_hop_sound [OF assms h]
  show ?case
  proof (cases "th_accreditor hop \<in> anchors")
    case True
    then show ?thesis using Suc.prems h S by (auto split: option.splits)
  next
    case False
    then have ns: "th_accreditor hop \<notin> seen" using Suc.prems(1) h by (auto split: if_split_asm)
    obtain more where m: "walk_chain T status types anchors n (insert (th_accreditor hop) seen) (Some scope') (th_accreditor hop) = Inr (anchor, more, final)"
      "hops = hop # more"
      using Suc.prems(1) h False ns by (auto simp: bindR_Inr)
    note I = Suc.IH [OF m(1) insertI1 False]
    have f: "final = scope'" using I by simp
    obtain h2 more' where mm: "more = h2 # more'" using I by (cases more) simp_all
    then have "th_subject h2 = th_accreditor hop" using I by simp
    then have d: "set (map th_subject more) \<inter> seen = {}" using I ns mm by auto
    then have "current \<notin> set (map th_subject more)" using Suc.prems(2) by blast
    then show ?thesis using I S m(2) f d mm Suc.prems(3) by (auto split: option.splits)
  qed
qed simp

lemma nth_hops: "hops \<noteq> [] \<Longrightarrow> P True (hd hops) \<Longrightarrow> \<forall>h\<in>set (tl hops). P False h \<Longrightarrow> \<forall>i<length hops. P (i = 0) (hops ! i)"
  by (cases hops) (auto simp: nth_Cons split: nat.split)

text \<open>What a returned chain promises.\<close>

definition sound_chain :: "trust_env \<Rightarrow> (str \<Rightarrow> json result) option \<Rightarrow> str list \<Rightarrow> str set \<Rightarrow> trust_chain \<Rightarrow> bool" where
  "sound_chain T status types anchors c \<longleftrightarrow>
     tc_anchor c \<in> anchors \<and> linked (tc_subject c) (tc_hops c) (tc_anchor c) \<and>
     distinct (map th_subject (tc_hops c)) \<and> set (map th_subject (tc_hops c)) \<inter> anchors = {} \<and>
     (\<forall>i<length (tc_hops c). hop_sound T status (tc_scope c) (i = 0) (tc_hops c ! i)) \<and>
     (if tc_hops c = [] then tc_scope c = set types else tc_scope c \<noteq> {} \<and> tc_scope c \<subseteq> set types)"

lemma verified_chain:
  assumes "one_suite T" "verify_trust_chain T did types anchors max_depth status = Inr c"
  shows "sound_chain T status types anchors c" "tc_subject c = did" "length (tc_hops c) \<le> nat max_depth"
proof -
  have "sound_chain T status types anchors c \<and> tc_subject c = did \<and> length (tc_hops c) \<le> nat max_depth"
  proof (cases "did \<in> anchors")
    case True
    then show ?thesis using assms(2) by (auto simp: verify_trust_chain_def sound_chain_def)
  next
    case False
    then obtain anchor hops scope where w: "walk_chain T status types anchors (nat max_depth) {did} None did = Inr (anchor, hops, scope)"
      "c = \<lparr>tc_subject = did, tc_anchor = anchor, tc_hops = hops, tc_scope = scope\<rparr>"
      using assms(2) by (auto simp: verify_trust_chain_def bindR_Inr)
    note S = walk_chain_sound [OF assms(1) w(1) _ False, simplified]
    have "\<forall>i<length hops. hop_sound T status scope (i = 0) (hops ! i)" using S by (intro nth_hops [of hops "hop_sound T status scope"]) auto
    then show ?thesis using S w(2) by (simp add: sound_chain_def)
  qed
  then show "sound_chain T status types anchors c" "tc_subject c = did" "length (tc_hops c) \<le> nat max_depth" by blast+
qed

text \<open>The single-level policy and the leaf of the walk never disagree.\<close>

lemma single_level_pick: "evaluate_issuer_trust rec types = pick_accreditation rec (set types) True"
proof -
  have "(\<lambda>acc. accreditation_ineligibility True acc = None \<and> set types \<inter> set (ac_types acc) \<noteq> {}) = authorises True (set types)"
    by (rule ext) (auto simp: authorises_def)
  then show ?thesis by (simp add: evaluate_issuer_trust_def pick_accreditation_def)
qed

lemma issuer_trust_Inr:
  assumes "one_suite T" "issuer_trust T anchors True status issuer types = Inr (chain, rec, acc, trusted)"
  shows "trusted \<and>
     (case anchors of
        Some A \<Rightarrow> \<exists>c. chain = Some c \<and> tc_subject c = issuer \<and> length (tc_hops c) \<le> nat DEFAULT_MAX_DEPTH \<and> sound_chain T status types A c
      | None \<Rightarrow> \<exists>r a. rec = Some r \<and> acc = Some a \<and> ebsi_issuer_record (te_resolver T) issuer = Inr r \<and> a \<in> set (ir_accreditations r) \<and>
                 authorises True (set types) a)"
proof (cases anchors)
  case None
  then obtain r where r: "ebsi_issuer_record (te_resolver T) issuer = Inr r" "rec = Some r" "acc = evaluate_issuer_trust r types" "acc \<noteq> None" "trusted"
    using assms(2) by (auto simp: issuer_trust_def bindR_Inr Let_def split: if_split_asm)
  then obtain a where "acc = Some a" "a \<in> set (ir_accreditations r)" "authorises True (set types) a"
    using pick_Some [of r "set types" True] by (auto simp: single_level_pick)
  then show ?thesis using r None by auto
next
  case (Some A)
  then obtain c where "verify_trust_chain T issuer types A DEFAULT_MAX_DEPTH status = Inr c" "chain = Some c" "trusted"
    using assms(2) by (auto simp: issuer_trust_def split: sum.split_asm)
  then show ?thesis using verified_chain [OF assms(1)] Some by auto
qed

lemma badge_Inr:
  assumes "verify_ebsi_badge T token types require anchors status aud = Inr b"
  obtains iss kid doc vm ts where "vc_peek_issuer (te_jose T) token = Inr (iss, kid)" "ebsi_resolve (te_resolver T) iss = Inr doc"
    "key_by_kid doc (kid_value kid) = Some vm"
    "vc_verify (te_jose T) (te_pyjwt T) (te_suite T) token (JObj (vm_jwk vm)) types aud True = Inr (bg_verified b)"
    "credential_types (vc_credential (bg_verified b)) = Inr ts"
    "issuer_trust T anchors require status (vc_issuer (bg_verified b)) ts = Inr (bg_chain b, bg_record b, bg_accreditation b, bg_trusted b)"
    "badge_status T status (vc_credential (bg_verified b)) = Inr (bg_status b)"
  using assms unfolding verify_ebsi_badge_def
  by (auto simp: bindR_Inr simp del: key_by_kid.simps split: option.split_asm)

section \<open>Examples\<close>

text \<open>A root accredits an issuer for badges, and the issuer signs one.\<close>

definition ex_root :: str where "ex_root = lit ''did:ebsi:z2222222222222222222222''"
definition ex_leaf :: str where "ex_leaf = lit ''did:ebsi:z1111111111111111111111''"

definition ex_accreditation_claims :: jobj where
  "ex_accreditation_claims =
     [(lit ''iss'', JStr ex_root), (lit ''sub'', JStr ex_leaf),
      (lit ''vc'', JObj [(lit ''type'', JList [JStr ACCREDITATION_TO_ATTEST]),
                         (lit ''credentialSubject'', JObj [(lit ''accreditedFor'', JList [JStr (lit ''Badge'')])])])]"

definition ex_badge_claims :: jobj where
  "ex_badge_claims = [(lit ''iss'', JStr ex_leaf), (lit ''vc'', JObj [(lit ''type'', JList [JStr (lit ''Badge'')])])]"

definition ex_ebsi_token :: "8 word \<Rightarrow> str" where
  "ex_ebsi_token n = b64url_encode [1] @ 46 # b64url_encode [n] @ 46 # []"

definition ex_ebsi_jose :: jose where
  "ex_ebsi_jose = toy_jose\<lparr>jo_loads := \<lambda>b. if b = [1] then Inr (JObj toy_header) else if b = [2] then Inr (JObj ex_accreditation_claims)
     else if b = [3] then Inr (JObj ex_badge_claims) else Inl PyValueError\<rparr>"

definition ex_did_json :: "str \<Rightarrow> json" where
  "ex_did_json did = JObj [(lit ''id'', JStr did), (lit ''verificationMethod'', JList [JObj [(lit ''id'', JStr [35]), (lit ''publicKeyJwk'', JObj ex_di_pub)]])]"

definition ex_ebsi_resolver :: ebsi_resolver where
  "ex_ebsi_resolver = \<lparr>er_ip = (\<lambda>h. False), er_ec_point = (\<lambda>c k. Inl PyValueError),
     er_get = (\<lambda>u. Inr (if u = identifiers_url DidRegistryV5 [] ex_root then ex_did_json ex_root
                        else if u = identifiers_url DidRegistryV5 [] ex_leaf then ex_did_json ex_leaf
                        else JObj [(lit ''did'', JStr ex_leaf), (lit ''attributes'', JList [JObj [(lit ''hash'', JStr [48]),
                               (lit ''issuerType'', JStr (lit ''TI'')), (lit ''tao'', JStr ex_root), (lit ''body'', JStr (ex_ebsi_token 2))]])])),
     er_decode = vc_peek_claims ex_ebsi_jose, er_base = [], er_didr = DidRegistryV5, er_tir = TirV4\<rparr>"

definition ex_trust :: trust_env where
  "ex_trust = \<lparr>te_jose = ex_ebsi_jose,
     te_pyjwt = \<lparr>pj_load = (\<lambda>a k. Inr 0), pj_secp256k1 = (\<lambda>p. Inr 0),
       pj_decode = (\<lambda>t k a l aud e. if t = ex_ebsi_token 2 then Inr ex_accreditation_claims
                                     else if t = ex_ebsi_token 3 then Inr ex_badge_claims else Inl OtherJwtError)\<rparr>,
     te_suite = toy_suite, te_resolver = ex_ebsi_resolver, te_pick = hd, te_read = (\<lambda>b n. Inr (take n b))\<rparr>"

lemma ex_trust_fields [simp]:
  "te_jose ex_trust = ex_ebsi_jose" "te_suite ex_trust = toy_suite" "te_resolver ex_trust = ex_ebsi_resolver" "te_pick ex_trust = hd"
  "te_read ex_trust = (\<lambda>b n. Inr (take n b))" "er_decode ex_ebsi_resolver = vc_peek_claims ex_ebsi_jose" "er_tir ex_ebsi_resolver = TirV4"
  "er_didr ex_ebsi_resolver = DidRegistryV5" "er_base ex_ebsi_resolver = []" "jo_ts ex_ebsi_jose = (\<lambda>v. None)"
  by (simp_all add: ex_trust_def ex_ebsi_resolver_def ex_ebsi_jose_def toy_jose_def)

lemma ex_claims_depth: "depth (JObj ex_accreditation_claims) \<le> MAX_DEPTH" "depth (JObj ex_badge_claims) \<le> MAX_DEPTH"
  by (simp_all add: ex_accreditation_claims_def ex_badge_claims_def MAX_DEPTH_def)

lemma ex_token_split: "split_on 46 (ex_ebsi_token n) = [b64url_encode [1], b64url_encode [n], []]" "is_ascii (ex_ebsi_token n)"
  using b64url_encode_ascii by (simp_all add: ex_ebsi_token_def split_on_append_sep) (fastforce simp: is_ascii_def list_all_iff)

lemma ex_token_eq: "ex_ebsi_token m = ex_ebsi_token n \<longleftrightarrow> m = n"
proof
  assume "ex_ebsi_token m = ex_ebsi_token n"
  then have "b64url_encode [m] = b64url_encode [n]" using ex_token_split(1) by (metis list.inject)
  then show "m = n" by (metis b64url_decode_encode list.inject sum.inject(2))
qed simp

lemma ex_one_suite: "one_suite ex_trust"
proof -
  have "pyjwt_payload (te_jose ex_trust) (te_pyjwt ex_trust)"
    using ex_claims_depth by (auto simp: pyjwt_payload_def ex_trust_def ex_ebsi_jose_def ex_token_split loads_Inr bindR_Inr split: if_split_asm)
  then show ?thesis by (simp add: one_suite_def)
qed

lemma ex_segment:
  "json_of_segment ex_ebsi_jose (b64url_encode [1]) = Inr (JObj toy_header)"
  "json_of_segment ex_ebsi_jose (b64url_encode [2]) = Inr (JObj ex_accreditation_claims)"
  "json_of_segment ex_ebsi_jose (b64url_encode [3]) = Inr (JObj ex_badge_claims)"
  using toy_depth ex_claims_depth by (simp_all add: json_of_segment_def loads_Inr ex_ebsi_jose_def)

lemma ex_gates:
  "vc_gate ex_ebsi_jose toy_suite (ex_ebsi_token 2) JNull = Inr (lit ''EdDSA'')"
  "vc_gate ex_ebsi_jose toy_suite (ex_ebsi_token 3) JNull = Inr (lit ''EdDSA'')"
proof -
  have "\<not> marked (JObj ex_accreditation_claims)" "\<not> marked (JObj ex_badge_claims)"
    by (simp_all add: ex_accreditation_claims_def ex_badge_claims_def marker_names_def has_key_def)
  moreover have "check_numeric_dates ex_accreditation_claims [lit ''exp'', lit ''nbf'', lit ''iat''] = Inr ()"
    "check_numeric_dates ex_badge_claims [lit ''exp'', lit ''nbf'', lit ''iat''] = Inr ()"
    by (simp_all add: check_numeric_dates_def ex_accreditation_claims_def ex_badge_claims_def has_key_def)
  ultimately show "vc_gate ex_ebsi_jose toy_suite (ex_ebsi_token 2) JNull = Inr (lit ''EdDSA'')"
    "vc_gate ex_ebsi_jose toy_suite (ex_ebsi_token 3) JNull = Inr (lit ''EdDSA'')"
    using ex_segment ex_token_split
    by (simp_all add: vc_gate_def vc_split_def vc_peek_claims_def check_expected_audience_def as_object_def allowed_alg_def
        reject_unknown_crit_def reject_sd_jwt_typ_def reject_sd_jwt_payload_def carries_sd_jwt_marker_def marker_loop_marked
        toy_header_def jget_def has_key_def toy_suite_def ALLOWED_ALGS_def)
qed

lemma ex_window: "check_validity_window (\<lambda>v. None) c [(lit ''type'', t)] [] PinNone (JInt 60) True = Inr False"
  by (simp add: check_validity_window_def utc_window_def leeway_seconds_def MAX_LEEWAY_S_def jget_def blank_def Let_def)

lemma ex_signature:
  "vc_signature_step ex_ebsi_jose (te_pyjwt ex_trust) toy_suite (ex_ebsi_token 2) (lit ''EdDSA'') (JObj ex_di_pub) JNull True =
     Inr (ex_accreditation_claims, False)"
  "vc_signature_step ex_ebsi_jose (te_pyjwt ex_trust) toy_suite (ex_ebsi_token 3) (lit ''EdDSA'') (JObj ex_di_pub) JNull True =
     Inr (ex_badge_claims, False)"
  by (simp_all add: vc_signature_step_def ALLOWED_ALGS_PQ_def verify_classic_def jwk_to_key_def ex_di_pub_def okp_jwk_def jget_def EC_CRV_def
        vc_decode_def ex_trust_def ex_token_eq)

lemma ex_accreditation_verify:
  "vc_verify ex_ebsi_jose (te_pyjwt ex_trust) toy_suite (ex_ebsi_token 2) (JObj ex_di_pub) [] JNull True =
     Inr \<lparr>vc_credential = [(lit ''type'', JList [JStr ACCREDITATION_TO_ATTEST]),
            (lit ''credentialSubject'', JObj [(lit ''accreditedFor'', JList [JStr (lit ''Badge'')])])],
          vc_issuer = ex_root, vc_subject = Some ex_leaf, vc_claims = ex_accreditation_claims, vc_expired = False\<rparr>"
proof -
  have l: "vs_leeway toy_suite = 60" by (simp add: toy_suite_def)
  have w: "check_validity_window (\<lambda>v. None) c [(lit ''type'', t), (lit ''credentialSubject'', u)] [] PinNone (JInt 60) True = Inr False" for c t u
    by (simp add: check_validity_window_def utc_window_def leeway_seconds_def MAX_LEEWAY_S_def jget_def blank_def Let_def)
  show ?thesis
    using w l by (simp add: vc_verify_def ex_gates ex_signature vc_finish_def check_jwt_audience_def check_expected_audience_def)
      (simp add: ex_accreditation_claims_def ex_leaf_def lit_def has_key_def as_object_def jget_def reconcile_def subject_id_def check_types_def Let_def)
qed

lemma ex_badge_verify:
  "vc_verify ex_ebsi_jose (te_pyjwt ex_trust) toy_suite (ex_ebsi_token 3) (JObj ex_di_pub) [] JNull True =
     Inr \<lparr>vc_credential = [(lit ''type'', JList [JStr (lit ''Badge'')])], vc_issuer = ex_leaf, vc_subject = None, vc_claims = ex_badge_claims,
          vc_expired = False\<rparr>"
proof -
  have l: "vs_leeway toy_suite = 60" by (simp add: toy_suite_def)
  have w: "check_validity_window (\<lambda>v. None) c [(lit ''type'', t)] [] PinNone (JInt 60) True = Inr False" for c t
    by (simp add: check_validity_window_def utc_window_def leeway_seconds_def MAX_LEEWAY_S_def jget_def blank_def Let_def)
  show ?thesis
    using w l by (simp add: vc_verify_def ex_gates ex_signature vc_finish_def check_jwt_audience_def check_expected_audience_def)
      (simp add: ex_badge_claims_def has_key_def as_object_def jget_def reconcile_def subject_id_def check_types_def Let_def)
qed

lemma ex_peeked:
  "vc_peek_issuer ex_ebsi_jose (ex_ebsi_token 2) = Inr (ex_root, None)" "vc_peek_issuer ex_ebsi_jose (ex_ebsi_token 3) = Inr (ex_leaf, None)"
  "vc_peek_claims ex_ebsi_jose (ex_ebsi_token 2) = Inr ex_accreditation_claims"
proof -
  have "peeked_issuer ex_accreditation_claims = JStr ex_root" "peeked_issuer ex_badge_claims = JStr ex_leaf" "ex_root \<noteq> []" "ex_leaf \<noteq> []"
    by (simp_all add: peeked_issuer_def ex_accreditation_claims_def ex_badge_claims_def jget_def Let_def ex_root_def ex_leaf_def lit_def)
  then show "vc_peek_issuer ex_ebsi_jose (ex_ebsi_token 2) = Inr (ex_root, None)" "vc_peek_issuer ex_ebsi_jose (ex_ebsi_token 3) = Inr (ex_leaf, None)"
    "vc_peek_claims ex_ebsi_jose (ex_ebsi_token 2) = Inr ex_accreditation_claims"
    using ex_segment ex_token_split
    by (simp_all add: vc_peek_issuer_def vc_peek_claims_def as_object_def vc_split_def both_objects_def kid_of_def jget_def toy_header_def)
qed

lemma ex_dids: "is_did_ebsi ex_root" "is_did_ebsi ex_leaf" "ex_root \<noteq> ex_leaf"
  by (simp_all add: is_did_ebsi_def ex_root_def ex_leaf_def lit_def base58_char_def)

lemma ex_ebsi_urls: "identifiers_url DidRegistryV5 [] ex_leaf \<noteq> identifiers_url DidRegistryV5 [] ex_root"
  "issuer_url TirV4 [] ex_leaf \<noteq> identifiers_url DidRegistryV5 [] did"
  using ex_dids by (simp_all add: identifiers_url_def issuer_url_def lit_def)

lemma ex_resolved:
  assumes "did \<in> {ex_root, ex_leaf}"
  shows "\<exists>doc vm. ebsi_resolve ex_ebsi_resolver did = Inr doc \<and> key_by_kid doc (kid_value None) = Some vm \<and> vm_jwk vm = ex_di_pub"
proof -
  have g: "er_get ex_ebsi_resolver (identifiers_url DidRegistryV5 [] did) = Inr (ex_did_json did)"
    using assms ex_ebsi_urls(1) by (auto simp: ex_ebsi_resolver_def)
  have "\<not> nesting_exceeds (ex_did_json did) MAX_DEPTH" by (simp add: ex_did_json_def ex_di_pub_def okp_jwk_def nesting_exceeds_depth MAX_DEPTH_def)
  then have "\<exists>doc vm. parse_did_document p (ex_did_json did) = Inr doc \<and> dd_id doc = did \<and> dd_methods doc = [vm] \<and> vm_jwk vm = ex_di_pub" for p
    by (simp add: parse_did_document_def document_body_def get_array_def has_key_def RELATIONSHIP_KEYS_def ex_did_json_def jget_def Let_def
        parse_method_def vm_public_jwk_def)
  then obtain doc vm where "parse_did_document (er_ec_point ex_ebsi_resolver) (ex_did_json did) = Inr doc" "dd_id doc = did" "dd_methods doc = [vm]"
    "vm_jwk vm = ex_di_pub" by blast
  then show ?thesis using g assms ex_dids by (auto simp: ebsi_resolve_def require_did_ebsi_def kid_value_def)
qed

definition ex_leaf_accreditation :: accreditation where
  "ex_leaf_accreditation = \<lparr>ac_id = [48], ac_role = lit ''TI'', ac_tao = Some ex_root, ac_root_tao = None, ac_types = [lit ''Badge''],
     ac_jwt = Some (ex_ebsi_token 2), ac_kinds = [ACCREDITATION_TO_ATTEST]\<rparr>"

lemma ex_record:
  "ebsi_issuer_record ex_ebsi_resolver ex_leaf = Inr \<lparr>ir_did = ex_leaf, ir_has_attributes = True, ir_accreditations = [ex_leaf_accreditation]\<rparr>"
proof -
  have t: "token_scope ex_accreditation_claims = Inr ([lit ''Badge''], [ACCREDITATION_TO_ATTEST])"
    by (simp add: token_scope_def ex_accreditation_claims_def wire_object_def wire_vc_type_def wire_strings_def require_object_def as_object_def
        wire_accredited_for_def accredited_entry_def first_seen_def)
  have "ex_ebsi_token 2 \<noteq> []" by (simp add: ex_ebsi_token_def)
  then have "types_from_token (vc_peek_claims ex_ebsi_jose) (Some (ex_ebsi_token 2)) = Inr ([lit ''Badge''], [ACCREDITATION_TO_ATTEST])"
    by (simp add: types_from_token_def ex_peeked t)
  moreover let ?raw = "[(lit ''did'', JStr ex_leaf), (lit ''attributes'', JList [JObj [(lit ''hash'', JStr [48]),
     (lit ''issuerType'', JStr (lit ''TI'')), (lit ''tao'', JStr ex_root), (lit ''body'', JStr (ex_ebsi_token 2))]])]"
  have "er_get ex_ebsi_resolver (issuer_url TirV4 [] ex_leaf) = Inr (JObj ?raw)" using ex_ebsi_urls(2) by (simp add: ex_ebsi_resolver_def)
  ultimately show ?thesis using ex_dids
    by (simp add: ebsi_issuer_record_def require_did_ebsi_def require_object_def parse_issuer_def v4_parse_issuer_def v4_attribute_def
        attribute_accreditation_def wire_opt_str_def wire_str_def as_object_def jget_def ex_leaf_accreditation_def)
qed

lemma ex_hop:
  "\<exists>hop. chain_hop ex_trust None [lit ''Badge''] None ex_leaf = Inr (hop, {lit ''Badge''}) \<and> th_accreditor hop = ex_root"
proof -
  obtain doc vm where d: "ebsi_resolve ex_ebsi_resolver ex_root = Inr doc" "key_by_kid doc (kid_value None) = Some vm" "vm_jwk vm = ex_di_pub"
    using ex_resolved by blast
  have "ex_ebsi_token 2 \<noteq> []" "ex_root \<noteq> []" by (simp_all add: ex_ebsi_token_def ex_root_def lit_def)
  then have "\<exists>vc. verify_accreditation ex_trust a ex_leaf ex_root = Inr vc" if "ac_jwt a = Some (ex_ebsi_token 2)" for a
    using that d ex_accreditation_verify
    by (simp add: verify_accreditation_def ex_peeked check_subject_binding_def subject_names_def sent_def ex_accreditation_claims_def
        del: key_by_kid.simps)
  moreover have "ac_jwt ex_leaf_accreditation = Some (ex_ebsi_token 2)" by (simp add: ex_leaf_accreditation_def)
  ultimately obtain vc where "verify_accreditation ex_trust ex_leaf_accreditation ex_leaf ex_root = Inr vc" by blast
  then show ?thesis using \<open>ex_root \<noteq> []\<close>
    by (simp add: ex_leaf_accreditation_def chain_hop_def read_record_def ex_record pick_accreditation_def authorises_def accreditation_ineligibility_def has_trust_role_def
        TRUST_ROLES_def check_accreditation_status_def)
qed

lemma ex_chain:
  "\<exists>c. verify_trust_chain ex_trust ex_leaf [lit ''Badge''] {ex_root} DEFAULT_MAX_DEPTH None = Inr c \<and> length (tc_hops c) = 1 \<and> tc_scope c = {lit ''Badge''}"
proof -
  obtain hop where "chain_hop ex_trust None [lit ''Badge''] None ex_leaf = Inr (hop, {lit ''Badge''})" "th_accreditor hop = ex_root"
    using ex_hop by blast
  moreover obtain n where "nat DEFAULT_MAX_DEPTH = Suc n" by (cases "nat DEFAULT_MAX_DEPTH") (simp_all add: DEFAULT_MAX_DEPTH_def)
  ultimately show ?thesis using ex_dids by (simp add: verify_trust_chain_def)
qed

lemma ex_badge: "\<exists>b. verify_ebsi_badge ex_trust (ex_ebsi_token 3) [] True (Some {ex_root}) None JNull = Inr b"
proof -
  obtain doc vm where d: "ebsi_resolve ex_ebsi_resolver ex_leaf = Inr doc" "key_by_kid doc (kid_value None) = Some vm" "vm_jwk vm = ex_di_pub"
    using ex_resolved by blast
  obtain c where c: "verify_trust_chain ex_trust ex_leaf [lit ''Badge''] {ex_root} DEFAULT_MAX_DEPTH None = Inr c" using ex_chain by blast
  show ?thesis
    using d c ex_badge_verify
    by (simp add: verify_ebsi_badge_def ex_peeked credential_types_def issuer_trust_def badge_status_def del: key_by_kid.simps)
qed

section \<open>Properties\<close>

text \<open>(C3) A verified chain leads from the issuer to an anchor of the caller's: each hop's accreditor is the next hop's subject, no DID
  repeats, no hop's subject is an anchor, and there are at most \<open>max_depth\<close> hops. Every hop's accreditation is in its subject's registry record under a
  live role (a delegating one above the leaf), its token verifies under the accreditor's resolved key, was issued by the accreditor,
  names the subject and nobody else, is not revoked when a status resolver is given, states the kind the hop needs, and lists every type of the
  delegated scope, which is not empty and among the credential's types.\<close>

theorem trust_chain_sound:
  assumes suite: "one_suite T" and verified: "verify_trust_chain T did types anchors max_depth status = Inr c"
  shows "tc_subject c = did \<and> tc_anchor c \<in> anchors \<and> linked did (tc_hops c) (tc_anchor c) \<and> length (tc_hops c) \<le> nat max_depth \<and>
     distinct (map th_subject (tc_hops c)) \<and> set (map th_subject (tc_hops c)) \<inter> anchors = {} \<and>
     (\<forall>i<length (tc_hops c). hop_sound T status (tc_scope c) (i = 0) (tc_hops c ! i)) \<and>
     (if tc_hops c = [] then tc_scope c = set types else tc_scope c \<noteq> {} \<and> tc_scope c \<subseteq> set types)"
  using verified_chain [OF assms] by (simp add: sound_chain_def)

theorem trust_chain_sound_witness:
  "\<exists>c. verify_trust_chain ex_trust ex_leaf [lit ''Badge''] {ex_root} DEFAULT_MAX_DEPTH None = Inr c \<and> tc_anchor c = ex_root \<and>
     hop_sound ex_trust None {lit ''Badge''} True (hd (tc_hops c))"
proof -
  obtain c where c: "verify_trust_chain ex_trust ex_leaf [lit ''Badge''] {ex_root} DEFAULT_MAX_DEPTH None = Inr c" "length (tc_hops c) = 1"
    "tc_scope c = {lit ''Badge''}" using ex_chain by blast
  from trust_chain_sound [OF ex_one_suite c(1)] c show ?thesis by (auto simp: length_Suc_conv)
qed



end
