(* ===== verification/Jwe.thy ===== *)
theory Jwe
  imports Oid4vp
begin

text \<open>
  openvc/jwe.py and the key agreement of keys.py: decryption of a compact JWE under direct ECDH-ES with AES-GCM, as the encrypted
  responses of OpenID4VP use it. SHA-256, AES-GCM and the curve are parameters; the Concat KDF is modelled as its loop, whose
  value is \<open>None\<close> when it does not end.
\<close>

abbreviation jwe_malformed :: exc where "jwe_malformed \<equiv> Jwe JweMalformed"
abbreviation jwe_unsupported :: exc where "jwe_unsupported \<equiv> Jwe UnsupportedJweAlgorithm"

section \<open>Key agreement (keys.py)\<close>

text \<open>\<open>dh_point\<close> loads public numbers, \<open>dh_private\<close> a scalar (both \<open>ValueError\<close> for a bad one); \<open>dh_exchange d p\<close> is the raw ECDH secret.\<close>

record ecdh =
  dh_point :: "nat \<times> nat \<Rightarrow> (nat \<times> nat) result"
  dh_private :: "nat \<Rightarrow> nat result"
  dh_public :: "nat \<Rightarrow> nat \<times> nat"
  dh_exchange :: "nat \<Rightarrow> nat \<times> nat \<Rightarrow> bytes"

definition p256_agree :: "ecdh \<Rightarrow> nat \<Rightarrow> jobj \<Rightarrow> bytes result" where
  "p256_agree D d peer =
     (if jget (lit ''kty'') peer \<noteq> JStr (lit ''EC'') \<or> jget (lit ''crv'') peer \<noteq> JStr (lit ''P-256'') then Inl InvalidKey
      else bindR (catchR is_key_value_error InvalidKey
                    (bindR (jwk_bytes peer (lit ''x'')) (\<lambda>x. bindR (jwk_bytes peer (lit ''y'')) (\<lambda>y. dh_point D (from_bytes x, from_bytes y)))))
             (\<lambda>p. Inr (dh_exchange D d p)))"

definition p256_agreement_jwk :: "ecdh \<Rightarrow> nat \<Rightarrow> jobj result" where
  "p256_agreement_jwk D d =
     (let (x, y) = dh_public D d
      in bindR (int_to_fixed x P256_COORD_BYTES) (\<lambda>xb. bindR (int_to_fixed y P256_COORD_BYTES) (\<lambda>yb.
           Inr [(lit ''kty'', JStr (lit ''EC'')), (lit ''crv'', JStr (lit ''P-256'')), (lit ''use'', JStr (lit ''enc'')),
                (lit ''x'', JStr (b64url_encode xb)), (lit ''y'', JStr (b64url_encode yb))])))"

definition p256_agreement_from_jwk :: "ecdh \<Rightarrow> jobj \<Rightarrow> nat result" where
  "p256_agreement_from_jwk D jwk =
     (if \<not> is_private_jwk jwk (lit ''EC'') (lit ''P-256'') then Inl InvalidKey
      else bindR (jwk_bytes jwk (lit ''d'')) (\<lambda>d. dh_private D (from_bytes d)))"

section \<open>The Concat KDF\<close>

definition ALLOWED_ALG :: "str list" where "ALLOWED_ALG = [lit ''ECDH-ES'']"

definition ALLOWED_ENC :: "(str, nat) dict" where "ALLOWED_ENC = [(lit ''A128GCM'', 16), (lit ''A256GCM'', 32)]"

definition MAX_JWE_BYTES :: nat where "MAX_JWE_BYTES = 2 * 1024 * 1024"

text \<open>\<open>struct.pack(">I", n)\<close>, \<open>n\<close> under \<open>2\<^sup>32\<close> since the token is bounded.\<close>

definition pack_u32 :: "nat \<Rightarrow> bytes" where "pack_u32 n = to_bytes 4 n"

definition len_prefixed :: "bytes \<Rightarrow> bytes" where "len_prefixed d = pack_u32 (length d) @ d"

definition other_info :: "nat \<Rightarrow> bytes \<Rightarrow> bytes \<Rightarrow> bytes \<Rightarrow> bytes" where
  "other_info bits alg_id apu apv = len_prefixed alg_id @ len_prefixed apu @ len_prefixed apv @ pack_u32 bits"

partial_function (option) kdf_loop :: "(bytes \<Rightarrow> bytes) \<Rightarrow> bytes \<Rightarrow> bytes \<Rightarrow> nat \<Rightarrow> nat \<Rightarrow> bytes \<Rightarrow> bytes option" where
  "kdf_loop sha256 z info n counter out =
     (if length out < n then kdf_loop sha256 z info n (counter + 1) (out @ sha256 (pack_u32 counter @ z @ info)) else Some out)"

definition concat_kdf :: "(bytes \<Rightarrow> bytes) \<Rightarrow> bytes \<Rightarrow> nat \<Rightarrow> bytes \<Rightarrow> bytes \<Rightarrow> bytes \<Rightarrow> bytes option" where
  "concat_kdf sha256 z bits alg_id apu apv =
     map_option (take (bits div 8)) (kdf_loop sha256 z (other_info bits alg_id apu apv) (bits div 8) 1 [])"

section \<open>Decryption\<close>

datatype gcm_fault = InvalidTag | GcmValueError

record jwe_env =
  je_loads :: "bytes \<Rightarrow> json result"
  je_sha256 :: "bytes \<Rightarrow> bytes"
  je_agree :: "jobj \<Rightarrow> bytes result"
  je_gcm :: "bytes \<Rightarrow> bytes \<Rightarrow> bytes \<Rightarrow> bytes \<Rightarrow> gcm_fault + bytes"

definition jwe_header :: "jwe_env \<Rightarrow> str \<Rightarrow> jobj result" where
  "jwe_header E protected =
     bindR (catchR is_value_error jwe_malformed (bindR (b64url_decode protected) (loads (je_loads E)))) (as_object jwe_malformed)"

definition jwe_enc :: "jobj \<Rightarrow> (str \<times> nat) result" where
  "jwe_enc header =
     (if \<not> (\<exists>a\<in>set ALLOWED_ALG. jget (lit ''alg'') header = JStr a) then Inl jwe_unsupported
      else case jget (lit ''enc'') header of
             JStr enc \<Rightarrow>
               (case map_of ALLOWED_ENC enc of
                  None \<Rightarrow> Inl jwe_unsupported
                | Some n \<Rightarrow>
                    if jget (lit ''zip'') header \<noteq> JNull \<or> has_key (lit ''crit'') header then Inl jwe_unsupported else Inr (enc, n))
           | _ \<Rightarrow> Inl jwe_unsupported)"

definition party_info :: "jobj \<Rightarrow> str \<Rightarrow> bytes result" where
  "party_info header k =
     (case map_of header k of None \<Rightarrow> Inr [] | Some (JStr s) \<Rightarrow> b64url_decode s | Some _ \<Rightarrow> Inl PyTypeError)"

definition jwe_segments :: "jobj \<Rightarrow> str \<Rightarrow> str \<Rightarrow> str \<Rightarrow> (bytes \<times> bytes \<times> bytes \<times> bytes \<times> bytes) result" where
  "jwe_segments header iv_b64 ciphertext_b64 tag_b64 =
     bindR (catchR (\<lambda>e. is_value_error e \<or> e = PyTypeError) jwe_malformed
       (bindR (party_info header (lit ''apu'')) (\<lambda>apu.
        bindR (party_info header (lit ''apv'')) (\<lambda>apv.
        bindR (b64url_decode iv_b64) (\<lambda>iv.
        bindR (b64url_decode ciphertext_b64) (\<lambda>ciphertext.
        bindR (b64url_decode tag_b64) (\<lambda>tag. Inr (apu, apv, iv, ciphertext, tag)))))))) (\<lambda>(apu, apv, iv, ciphertext, tag).
       if length iv \<noteq> 12 \<or> length tag \<noteq> 16 then Inl jwe_malformed else Inr (apu, apv, iv, ciphertext, tag))"

definition jwe_secret :: "jwe_env \<Rightarrow> jobj \<Rightarrow> bytes result" where
  "jwe_secret E header =
     bindR (as_object jwe_malformed (jget (lit ''epk'') header)) (\<lambda>epk. catchR is_key_backend_error jwe_malformed (je_agree E epk))"

text \<open>What is left to open once the token is read: the content key's inputs and the sealed bytes.\<close>

record jwe_parts =
  jp_enc :: str
  jp_size :: nat
  jp_secret :: bytes
  jp_apu :: bytes
  jp_apv :: bytes
  jp_iv :: bytes
  jp_sealed :: bytes
  jp_aad :: bytes

definition read_jwe :: "jwe_env \<Rightarrow> str \<Rightarrow> jwe_parts result" where
  "read_jwe E token =
     (if MAX_JWE_BYTES < length token then Inl jwe_malformed
      else case split_on 46 token of
        [protected, encrypted_key, iv_b64, ciphertext_b64, tag_b64] \<Rightarrow>
          bindR (jwe_header E protected) (\<lambda>header.
          bindR (jwe_enc header) (\<lambda>(enc, n).
            if encrypted_key \<noteq> [] then Inl jwe_malformed
            else
          bindR (jwe_secret E header) (\<lambda>z.
          bindR (jwe_segments header iv_b64 ciphertext_b64 tag_b64) (\<lambda>(apu, apv, iv, ciphertext, tag).
            Inr \<lparr>jp_enc = enc, jp_size = n, jp_secret = z, jp_apu = apu, jp_apv = apv, jp_iv = iv, jp_sealed = ciphertext @ tag,
                 jp_aad = ascii_bytes protected\<rparr>))))
      | _ \<Rightarrow> Inl jwe_malformed)"

definition open_jwe :: "jwe_env \<Rightarrow> jwe_parts \<Rightarrow> bytes result option" where
  "open_jwe E p =
     map_option (\<lambda>cek. case je_gcm E cek (jp_iv p) (jp_sealed p) (jp_aad p) of Inr b \<Rightarrow> Inr b | Inl f \<Rightarrow> Inl (Jwe JweDecryptionFailed))
       (concat_kdf (je_sha256 E) (jp_secret p) (jp_size p * 8) (ascii_bytes (jp_enc p)) (jp_apu p) (jp_apv p))"

definition decrypt_compact :: "jwe_env \<Rightarrow> str \<Rightarrow> bytes result option" where
  "decrypt_compact E token = (case read_jwe E token of Inl e \<Rightarrow> Some (Inl e) | Inr p \<Rightarrow> open_jwe E p)"

section \<open>Lemmas: the KDF\<close>

text \<open>What the code relies on: a SHA-256 digest has 32 bytes.\<close>

definition digest32 :: "(bytes \<Rightarrow> bytes) \<Rightarrow> bool" where
  "digest32 h \<longleftrightarrow> (\<forall>b. length (h b) = 32)"

text \<open>The reference: one hash covers every key size the allow-list has.\<close>

definition content_key :: "(bytes \<Rightarrow> bytes) \<Rightarrow> bytes \<Rightarrow> nat \<Rightarrow> bytes \<Rightarrow> bytes \<Rightarrow> bytes \<Rightarrow> bytes" where
  "content_key sha256 z n alg_id apu apv = take n (sha256 (pack_u32 1 @ z @ other_info (8 * n) alg_id apu apv))"

lemma concat_kdf_one_round:
  assumes "digest32 sha256" "0 < n" "n \<le> 32"
  shows "concat_kdf sha256 z (n * 8) alg_id apu apv = Some (content_key sha256 z n alg_id apu apv)"
proof -
  let ?i = "other_info (n * 8) alg_id apu apv"
  let ?d = "sha256 (pack_u32 1 @ z @ ?i)"
  have d: "\<not> length ?d < n" using assms by (simp add: digest32_def)
  have "kdf_loop sha256 z ?i n 1 [] = kdf_loop sha256 z ?i n (1 + 1) ([] @ ?d)"
    by (subst kdf_loop.simps) (simp only: list.size(3) assms(2) if_True)
  also have "\<dots> = Some ?d"
    by (subst kdf_loop.simps) (simp only: append_Nil d if_False)
  finally show ?thesis by (simp add: concat_kdf_def content_key_def mult.commute)
qed

lemma allowed_size: "map_of ALLOWED_ENC enc = Some n \<Longrightarrow> 0 < n \<and> n \<le> 32"
  by (auto simp: ALLOWED_ENC_def split: if_split_asm)

lemma pack_u32_inj: "m < 2 ^ 32 \<Longrightarrow> n < 2 ^ 32 \<Longrightarrow> pack_u32 m = pack_u32 n \<Longrightarrow> m = n"
proof -
  assume b: "m < 2 ^ 32" "n < 2 ^ 32" and e: "pack_u32 m = pack_u32 n"
  have "(256 :: nat) ^ 4 = 2 ^ 32" by simp
  then show "m = n" using b e from_to_bytes unfolding pack_u32_def by metis
qed

lemma len_prefixed_inj:
  assumes "length a < 2 ^ 32" "length b < 2 ^ 32" "len_prefixed a @ s = len_prefixed b @ t"
  shows "a = b \<and> s = t"
proof -
  have "pack_u32 (length a) = pack_u32 (length b)" "a @ s = b @ t"
    using assms(3) by (simp_all add: len_prefixed_def pack_u32_def append_eq_append_conv)
  then show ?thesis using pack_u32_inj [OF assms(1,2)] by simp
qed

section \<open>Lemmas: reading\<close>

lemma jwe_enc_Inr:
  "jwe_enc header = Inr (enc, n) \<longleftrightarrow>
     (\<exists>a\<in>set ALLOWED_ALG. jget (lit ''alg'') header = JStr a) \<and> jget (lit ''enc'') header = JStr enc \<and> map_of ALLOWED_ENC enc = Some n \<and>
     jget (lit ''zip'') header = JNull \<and> \<not> has_key (lit ''crit'') header"
  by (cases "jget (lit ''enc'') header") (auto simp: jwe_enc_def split: option.split)

lemma jwe_segments_Inr:
  "jwe_segments header i c t = Inr (apu, apv, iv, ct, tag) \<longleftrightarrow>
     party_info header (lit ''apu'') = Inr apu \<and> party_info header (lit ''apv'') = Inr apv \<and> b64url_decode i = Inr iv \<and>
     b64url_decode c = Inr ct \<and> b64url_decode t = Inr tag \<and> length iv = 12 \<and> length tag = 16"
  by (auto simp: jwe_segments_def bindR_Inr)

lemma read_jwe_Inr:
  "read_jwe E token = Inr p \<longleftrightarrow>
     length token \<le> MAX_JWE_BYTES \<and>
     (\<exists>protected i c t header epk ct tag.
        split_on 46 token = [protected, [], i, c, t] \<and> bindR (b64url_decode protected) (loads (je_loads E)) = Inr (JObj header) \<and>
        jwe_enc header = Inr (jp_enc p, jp_size p) \<and> jget (lit ''epk'') header = JObj epk \<and> je_agree E epk = Inr (jp_secret p) \<and>
        jwe_segments header i c t = Inr (jp_apu p, jp_apv p, jp_iv p, ct, tag) \<and> jp_sealed p = ct @ tag \<and> jp_aad p = ascii_bytes protected)"
  (is "_ \<longleftrightarrow> ?R")
proof
  assume a: "read_jwe E token = Inr p"
  then obtain protected ek i c t where sp: "split_on 46 token = [protected, ek, i, c, t]" "length token \<le> MAX_JWE_BYTES"
    by (auto simp: read_jwe_def split: list.split_asm if_split_asm)
  show ?R using a sp by (auto simp: read_jwe_def jwe_header_def jwe_secret_def as_object_Inr bindR_Inr split: if_split_asm)
next
  assume ?R
  then show "read_jwe E token = Inr p"
    by (cases p) (auto simp: read_jwe_def jwe_header_def jwe_secret_def as_object_def)
qed

lemma open_jwe_Some:
  assumes "digest32 (je_sha256 E)" "0 < jp_size p" "jp_size p \<le> 32"
  shows "open_jwe E p = Some (case je_gcm E (content_key (je_sha256 E) (jp_secret p) (jp_size p) (ascii_bytes (jp_enc p)) (jp_apu p) (jp_apv p))
     (jp_iv p) (jp_sealed p) (jp_aad p) of Inr b \<Rightarrow> Inr b | Inl f \<Rightarrow> Inl (Jwe JweDecryptionFailed))"
  using concat_kdf_one_round [OF assms] by (simp add: open_jwe_def)

lemma read_jwe_size:
  assumes "read_jwe E token = Inr p"
  shows "0 < jp_size p" "jp_size p \<le> 32"
  using assms allowed_size by (auto simp: read_jwe_Inr jwe_enc_Inr)

section \<open>Specification\<close>

text \<open>A token sealed to the recipient, as RFC 7516 and RFC 7518 section 4.6 state it for direct ECDH-ES: five segments with an empty
  key, a header of an allowed algorithm without compression or critical extensions, and the plaintext under AES-GCM with the one-round
  content key, bound to the protected header.\<close>

definition jwe_sealed :: "jwe_env \<Rightarrow> str \<Rightarrow> bytes \<Rightarrow> bool" where
  "jwe_sealed E token msg \<longleftrightarrow>
     length token \<le> MAX_JWE_BYTES \<and>
     (\<exists>protected i c t header enc n epk z apu apv iv ct tag.
        split_on 46 token = [protected, [], i, c, t] \<and> bindR (b64url_decode protected) (loads (je_loads E)) = Inr (JObj header) \<and>
        jget (lit ''alg'') header = JStr (lit ''ECDH-ES'') \<and> jget (lit ''enc'') header = JStr enc \<and>
        (enc = lit ''A128GCM'' \<and> n = 16 \<or> enc = lit ''A256GCM'' \<and> n = 32) \<and>
        jget (lit ''zip'') header = JNull \<and> \<not> has_key (lit ''crit'') header \<and>
        jget (lit ''epk'') header = JObj epk \<and> je_agree E epk = Inr z \<and>
        party_info header (lit ''apu'') = Inr apu \<and> party_info header (lit ''apv'') = Inr apv \<and>
        b64url_decode i = Inr iv \<and> b64url_decode c = Inr ct \<and> b64url_decode t = Inr tag \<and> length iv = 12 \<and> length tag = 16 \<and>
        je_gcm E (content_key (je_sha256 E) z n (ascii_bytes enc) apu apv) iv (ct @ tag) (ascii_bytes protected) = Inr msg)"

lemma enc_sizes: "map_of ALLOWED_ENC enc = Some n \<longleftrightarrow> enc = lit ''A128GCM'' \<and> n = 16 \<or> enc = lit ''A256GCM'' \<and> n = 32"
  by (auto simp: ALLOWED_ENC_def lit_def)

lemma jwe_sealed_parts:
  "jwe_sealed E token msg \<longleftrightarrow>
     (\<exists>p. read_jwe E token = Inr p \<and>
        je_gcm E (content_key (je_sha256 E) (jp_secret p) (jp_size p) (ascii_bytes (jp_enc p)) (jp_apu p) (jp_apv p)) (jp_iv p) (jp_sealed p) (jp_aad p) = Inr msg)"
  (is "_ \<longleftrightarrow> (\<exists>p. ?P p)")
proof
  assume "jwe_sealed E token msg"
  then obtain protected i c t header enc n epk z apu apv iv ct tag where k: "length token \<le> MAX_JWE_BYTES"
    "split_on 46 token = [protected, [], i, c, t]" "bindR (b64url_decode protected) (loads (je_loads E)) = Inr (JObj header)"
    "jget (lit ''alg'') header = JStr (lit ''ECDH-ES'')" "jget (lit ''enc'') header = JStr enc"
    "enc = lit ''A128GCM'' \<and> n = 16 \<or> enc = lit ''A256GCM'' \<and> n = 32" "jget (lit ''zip'') header = JNull" "\<not> has_key (lit ''crit'') header"
    "jget (lit ''epk'') header = JObj epk" "je_agree E epk = Inr z"
    "party_info header (lit ''apu'') = Inr apu" "party_info header (lit ''apv'') = Inr apv" "b64url_decode i = Inr iv" "b64url_decode c = Inr ct"
    "b64url_decode t = Inr tag" "length iv = 12" "length tag = 16"
    "je_gcm E (content_key (je_sha256 E) z n (ascii_bytes enc) apu apv) iv (ct @ tag) (ascii_bytes protected) = Inr msg"
    unfolding jwe_sealed_def by blast
  have "jwe_enc header = Inr (enc, n)" unfolding jwe_enc_Inr enc_sizes ALLOWED_ALG_def using k(4-8) by simp
  moreover have "jwe_segments header i c t = Inr (apu, apv, iv, ct, tag)" unfolding jwe_segments_Inr using k(11-17) by blast
  ultimately have k: "length token \<le> MAX_JWE_BYTES"
    "split_on 46 token = [protected, [], i, c, t]" "bindR (b64url_decode protected) (loads (je_loads E)) = Inr (JObj header)"
    "jwe_enc header = Inr (enc, n)" "jget (lit ''epk'') header = JObj epk" "je_agree E epk = Inr z"
    "jwe_segments header i c t = Inr (apu, apv, iv, ct, tag)"
    "je_gcm E (content_key (je_sha256 E) z n (ascii_bytes enc) apu apv) iv (ct @ tag) (ascii_bytes protected) = Inr msg"
    using k by blast+
  let ?p = "\<lparr>jp_enc = enc, jp_size = n, jp_secret = z, jp_apu = apu, jp_apv = apv, jp_iv = iv, jp_sealed = ct @ tag, jp_aad = ascii_bytes protected\<rparr>"
  have "?P ?p" unfolding read_jwe_Inr using k by auto
  then show "\<exists>p. ?P p" by blast
next
  assume "\<exists>p. ?P p"
  then show "jwe_sealed E token msg"
    unfolding read_jwe_Inr jwe_sealed_def jwe_enc_Inr jwe_segments_Inr enc_sizes ALLOWED_ALG_def by fastforce
qed

text \<open>What the code relies on: the parser and the key raise only what they document.\<close>

definition jwe_backend :: "jwe_env \<Rightarrow> bool" where
  "jwe_backend E \<longleftrightarrow> digest32 (je_sha256 E) \<and> (\<forall>b e. je_loads E b = Inl e \<longrightarrow> is_value_error e) \<and>
     (\<forall>j e. je_agree E j = Inl e \<longrightarrow> is_key_backend_error e)"

lemma party_info_error: "party_info header k = Inl e \<Longrightarrow> is_value_error e \<or> e = PyTypeError"
  by (auto simp: party_info_def is_value_error_def dest: b64url_decode_error split: option.split_asm json.split_asm)

lemma segments_error:
  assumes "jwe_segments header i c t = Inl e"
  shows "e = jwe_malformed"
proof -
  have v: "b64url_decode s = Inl e \<Longrightarrow> is_value_error e" for s e using b64url_decode_error by (auto simp: is_value_error_def)
  show ?thesis using assms
    by (auto simp: jwe_segments_def bindR_Inl catchR_Inl dest: v party_info_error split: if_split_asm)
qed

lemma read_jwe_error:
  assumes "jwe_backend E" "read_jwe E token = Inl e"
  shows "\<exists>j. e = Jwe j"
proof -
  have l: "bindR (b64url_decode p) (loads (je_loads E)) = Inl e' \<Longrightarrow> is_value_error e'" for p e'
    using assms(1) by (cases "b64url_decode p") (auto simp: jwe_backend_def loads_def is_value_error_def bindR_Inl dest: b64url_decode_error split: if_split_asm)
  have h: "jwe_header E p = Inl e \<Longrightarrow> e = jwe_malformed" for p
    using l [of p] by (auto simp: jwe_header_def bindR_Inl catchR_Inl as_object_Inl)
  have n: "jwe_enc header = Inl e \<Longrightarrow> e = jwe_unsupported" for header
    by (auto simp: jwe_enc_def split: json.split_asm option.split_asm if_split_asm)
  have k: "jwe_secret E header = Inl e \<Longrightarrow> e = jwe_malformed" for header
    using assms(1) by (auto simp: jwe_backend_def jwe_secret_def bindR_Inl catchR_Inl as_object_Inl)
  show ?thesis
  proof (cases "MAX_JWE_BYTES < length token \<or> length (split_on 46 token) \<noteq> 5")
    case True
    then show ?thesis using assms(2) by (auto simp: read_jwe_def split: list.split_asm)
  next
    case False
    then obtain p ek i c t where sp: "split_on 46 token = [p, ek, i, c, t]" "\<not> MAX_JWE_BYTES < length token"
      by (auto simp: eval_nat_numeral length_Suc_conv)
    show ?thesis using assms(2) h n k
      by (auto simp: read_jwe_def sp bindR_Inl dest: segments_error split: if_split_asm)
  qed
qed

lemma jwk_bytes_error: "jwk_bytes jwk k = Inl e \<Longrightarrow> is_key_value_error e"
  by (auto simp: jwk_bytes_def is_key_value_error_def is_value_error_def dest: b64url_decode_error split: option.split_asm json.split_asm)

text \<open>The built-in key refuses a peer key with \<open>InvalidKey\<close> alone.\<close>

lemma p256_agree_error:
  assumes "\<And>p e. dh_point D p = Inl e \<Longrightarrow> is_value_error e" "p256_agree D d peer = Inl e"
  shows "e = InvalidKey"
proof -
  have "is_key_value_error e'" if "bindR (jwk_bytes peer (lit ''x'')) (\<lambda>x. bindR (jwk_bytes peer (lit ''y'')) (\<lambda>y. dh_point D (from_bytes x, from_bytes y))) = Inl e'" for e'
    using that assms(1) by (auto simp: bindR_Inl is_key_value_error_def dest: jwk_bytes_error [unfolded is_key_value_error_def])
  then show ?thesis using assms(2) by (auto simp: p256_agree_def bindR_Inl catchR_Inl simp del: bindR.simps split: if_split_asm)
qed

section \<open>Example\<close>

definition ex_ecdh :: ecdh where
  "ex_ecdh = \<lparr>dh_point = Inr, dh_private = Inr, dh_public = (\<lambda>d. (1, 2)), dh_exchange = (\<lambda>d p. [5])\<rparr>"

definition ex_epk :: jobj where
  "ex_epk = [(lit ''kty'', JStr (lit ''EC'')), (lit ''crv'', JStr (lit ''P-256'')), (lit ''use'', JStr (lit ''enc'')),
     (lit ''x'', JStr (b64url_encode (to_bytes 32 1))), (lit ''y'', JStr (b64url_encode (to_bytes 32 2)))]"

definition ex_jwe_header :: jobj where
  "ex_jwe_header = [(lit ''alg'', JStr (lit ''ECDH-ES'')), (lit ''enc'', JStr (lit ''A128GCM'')), (lit ''epk'', JObj ex_epk)]"

definition ex_jwe :: jwe_env where
  "ex_jwe = \<lparr>je_loads = (\<lambda>b. if b = [1] then Inr (JObj ex_jwe_header) else Inl PyValueError), je_sha256 = (\<lambda>b. replicate 32 0),
     je_agree = p256_agree ex_ecdh 3, je_gcm = (\<lambda>k iv c a. if c = replicate 16 7 then Inr [42] else Inl InvalidTag)\<rparr>"

definition ex_jwe_token :: str where
  "ex_jwe_token = join_with 46 [b64url_encode [1], [], b64url_encode (replicate 12 0), b64url_encode [], b64url_encode (replicate 16 7)]"

lemma ex_jwe_backend: "jwe_backend ex_jwe"
  using p256_agree_error [of ex_ecdh 3]
  by (auto simp: jwe_backend_def ex_jwe_def ex_ecdh_def digest32_def is_value_error_def is_key_backend_error_def)

lemma ex_jwe_facts:
  "p256_agreement_jwk ex_ecdh e = Inr ex_epk" "jwe_enc ex_jwe_header = Inr (lit ''A128GCM'', 16)" "jget (lit ''epk'') ex_jwe_header = JObj ex_epk"
  "party_info ex_jwe_header (lit ''apu'') = Inr []" "party_info ex_jwe_header (lit ''apv'') = Inr []"
  "loads (je_loads ex_jwe) [1] = Inr (JObj ex_jwe_header)"
  by (simp_all add: p256_agreement_jwk_def ex_ecdh_def int_to_fixed_def P256_COORD_BYTES_def ex_epk_def jwe_enc_Inr ex_jwe_header_def jget_def
      ALLOWED_ALG_def ALLOWED_ENC_def has_key_def party_info_def loads_Inr ex_jwe_def MAX_DEPTH_def)

lemma ex_jwe_length: "length ex_jwe_token \<le> MAX_JWE_BYTES"
  by (simp add: ex_jwe_token_def length_b64url MAX_JWE_BYTES_def)

section \<open>Properties\<close>

text \<open>(C37) Decryption opens exactly the tokens that are sealed to the recipient: every call returns, with the plaintext when the token
  is sealed as the RFCs say for an allowed algorithm, and with an error of the JWE family otherwise. The key derivation loop ends after
  one round and gives the reference content key.\<close>

theorem jwe_opened_exact:
  assumes "jwe_backend E"
  shows "\<exists>r. decrypt_compact E token = Some r \<and> (\<forall>msg. r = Inr msg \<longleftrightarrow> jwe_sealed E token msg) \<and> (\<forall>e. r = Inl e \<longrightarrow> (\<exists>j. e = Jwe j))"
proof (cases "read_jwe E token")
  case (Inl e)
  then show ?thesis using read_jwe_error [OF assms Inl] by (simp add: decrypt_compact_def jwe_sealed_parts)
next
  case (Inr p)
  have "digest32 (je_sha256 E)" using assms by (simp add: jwe_backend_def)
  note O = open_jwe_Some [OF this read_jwe_size [OF Inr]]
  show ?thesis using Inr by (simp add: decrypt_compact_def O jwe_sealed_parts split: sum.split)
qed

section \<open>The sender\<close>

text \<open>What the code relies on: both sides of an exchange get one secret, and a public point is on the curve with coordinates of 32 bytes.\<close>

definition ecdh_ok :: "ecdh \<Rightarrow> bool" where
  "ecdh_ok D \<longleftrightarrow>
     (\<forall>d e. dh_exchange D d (dh_public D e) = dh_exchange D e (dh_public D d)) \<and>
     (\<forall>d. dh_point D (dh_public D d) = Inr (dh_public D d) \<and> fst (dh_public D d) < 256 ^ 32 \<and> snd (dh_public D d) < 256 ^ 32)"

lemma agreed:
  assumes "ecdh_ok D" "p256_agreement_jwk D e = Inr epk"
  shows "p256_agree D d epk = Inr (dh_exchange D d (dh_public D e))"
proof -
  obtain x y where xy: "dh_public D e = (x, y)" by fastforce
  have b: "x < 256 ^ 32" "y < 256 ^ 32" "dh_point D (x, y) = Inr (x, y)" using assms(1) xy by (auto simp: ecdh_ok_def dest!: spec [of _ e])
  then have "from_bytes (to_bytes 32 x) = x" "from_bytes (to_bytes 32 y) = y" by (auto intro: from_to_bytes)
  then show ?thesis
    using assms(2) b xy by (auto simp: p256_agreement_jwk_def int_to_fixed_def P256_COORD_BYTES_def p256_agree_def jget_def jwk_bytes_def)
qed

text \<open>What a sender seals to the recipient's public key, the recipient opens: with an ephemeral key whose public half is the
  \<open>epk\<close> of the header, the content key derived from the sender's side of the exchange and the plaintext sealed under it, decryption
  with the recipient's private key returns the plaintext.\<close>

theorem jwe_roundtrip:
  assumes ok: "ecdh_ok D" "digest32 (je_sha256 E)" and key: "je_agree E = p256_agree D d"
    and epk: "p256_agreement_jwk D e = Inr epk" "jget (lit ''epk'') header = JObj epk"
    and header: "loads (je_loads E) hb = Inr (JObj header)" "jwe_enc header = Inr (enc, n)"
      "party_info header (lit ''apu'') = Inr apu" "party_info header (lit ''apv'') = Inr apv"
    and seal: "je_gcm E (content_key (je_sha256 E) (dh_exchange D e (dh_public D d)) n (ascii_bytes enc) apu apv) iv (ct @ tag)
      (ascii_bytes (b64url_encode hb)) = Inr msg"
    and sizes: "length iv = 12" "length tag = 16"
    and token: "token = join_with 46 [b64url_encode hb, [], b64url_encode iv, b64url_encode ct, b64url_encode tag]" "length token \<le> MAX_JWE_BYTES"
  shows "decrypt_compact E token = Some (Inr msg)"
proof -
  have sp: "split_on 46 token = [b64url_encode hb, [], b64url_encode iv, b64url_encode ct, b64url_encode tag]"
    unfolding token(1) by (intro split_join) (auto simp: b64url_no_dot)
  let ?p = "\<lparr>jp_enc = enc, jp_size = n, jp_secret = dh_exchange D d (dh_public D e), jp_apu = apu, jp_apv = apv, jp_iv = iv, jp_sealed = ct @ tag,
    jp_aad = ascii_bytes (b64url_encode hb)\<rparr>"
  have r: "read_jwe E token = Inr ?p"
    unfolding read_jwe_Inr using sp token(2) header epk(2) sizes agreed [OF ok(1) epk(1), of d] key by (auto simp: jwe_segments_Inr)
  have "dh_exchange D d (dh_public D e) = dh_exchange D e (dh_public D d)" using ok(1) by (simp add: ecdh_ok_def)
  then show ?thesis using open_jwe_Some [OF ok(2) read_jwe_size [OF r]] seal r by (simp add: decrypt_compact_def)
qed

lemma ex_ecdh_ok: "ecdh_ok ex_ecdh"
  by (simp add: ecdh_ok_def ex_ecdh_def)

theorem jwe_roundtrip_witness: "decrypt_compact ex_jwe ex_jwe_token = Some (Inr [42])"
proof -
  have "je_agree ex_jwe = p256_agree ex_ecdh 3" "digest32 (je_sha256 ex_jwe)" by (simp_all add: ex_jwe_def digest32_def)
  moreover have "je_gcm ex_jwe k iv ([] @ replicate 16 7) a = Inr [42]" for k iv a by (simp add: ex_jwe_def)
  ultimately show ?thesis
    using jwe_roundtrip [OF ex_ecdh_ok _ _ ex_jwe_facts(1,3,6,2,4,5), where iv = "replicate 12 0" and ct = "[]" and tag = "replicate 16 7" and d = 3]
      ex_jwe_length by (simp add: ex_jwe_token_def)
qed

theorem jwe_opened_exact_witness:
  "jwe_backend ex_jwe \<and> (\<exists>r. decrypt_compact ex_jwe [] = Some r \<and> (\<forall>msg. r \<noteq> Inr msg) \<and> (\<forall>e. r = Inl e \<longrightarrow> (\<exists>j. e = Jwe j)))"
  using jwe_opened_exact [OF ex_jwe_backend, of "[]"] ex_jwe_backend by (auto simp: jwe_sealed_def)

end
