(* ===== verification/Fetch.thy ===== *)
theory Fetch
  imports Issuer_Key
begin

text \<open>
  openvc/fetch.py: the guarded https fetch. The network is a parameter: DNS answers, the connection a pinned address gives and the
  reads it serves, each with its clock. URL splitting is the standard library's for ASCII text, with \<open>ip_literal\<close> as in Issuer\_Key;
  the address flags are those of the \<open>ipaddress\<close> module, written out for IPv4.
\<close>

section \<open>Addresses\<close>

record ip_flags =
  is_private :: bool
  is_loopback :: bool
  is_link_local :: bool
  is_reserved :: bool
  is_multicast :: bool
  is_unspecified :: bool
  is_global :: bool
  is_site_local :: bool

definition ip_is_forbidden :: "(str \<Rightarrow> ip_flags result) \<Rightarrow> str \<Rightarrow> bool result" where
  "ip_is_forbidden flags ip_str =
     bindR (flags ip_str) (\<lambda>ip.
       Inr (is_private ip \<or> is_loopback ip \<or> is_link_local ip \<or> is_reserved ip \<or> is_multicast ip \<or> is_unspecified ip \<or>
            \<not> is_global ip \<or> is_site_local ip))"

text \<open>The flags of an IPv4 address (the tables of \<open>ipaddress\<close>): a network is an address and a prefix length.\<close>

type_synonym ip4 = "32 word"

definition in_net :: "ip4 \<Rightarrow> ip4 \<times> nat \<Rightarrow> bool" where
  "in_net a n = (drop_bit (32 - snd n) a = drop_bit (32 - snd n) (fst n))"

definition ip4_of :: "nat \<Rightarrow> nat \<Rightarrow> nat \<Rightarrow> nat \<Rightarrow> ip4" where
  "ip4_of a b c d = of_nat (((a * 256 + b) * 256 + c) * 256 + d)"

definition private_networks :: "(ip4 \<times> nat) list" where
  "private_networks =
     [(ip4_of 0 0 0 0, 8), (ip4_of 10 0 0 0, 8), (ip4_of 127 0 0 0, 8), (ip4_of 169 254 0 0, 16), (ip4_of 172 16 0 0, 12),
      (ip4_of 192 0 0 0, 24), (ip4_of 192 0 0 170, 31), (ip4_of 192 0 2 0, 24), (ip4_of 192 168 0 0, 16), (ip4_of 198 18 0 0, 15),
      (ip4_of 198 51 100 0, 24), (ip4_of 203 0 113 0, 24), (ip4_of 240 0 0 0, 4), (ip4_of 255 255 255 255, 32)]"

definition private_exceptions :: "(ip4 \<times> nat) list" where
  "private_exceptions = [(ip4_of 192 0 0 9, 32), (ip4_of 192 0 0 10, 32)]"

definition ip4_private :: "ip4 \<Rightarrow> bool" where
  "ip4_private a = (list_ex (in_net a) private_networks \<and> \<not> list_ex (in_net a) private_exceptions)"

definition ip4_flags :: "ip4 \<Rightarrow> ip_flags" where
  "ip4_flags a =
     \<lparr>is_private = ip4_private a, is_loopback = in_net a (ip4_of 127 0 0 0, 8), is_link_local = in_net a (ip4_of 169 254 0 0, 16),
      is_reserved = in_net a (ip4_of 240 0 0 0, 4), is_multicast = in_net a (ip4_of 224 0 0 0, 4), is_unspecified = (a = ip4_of 0 0 0 0),
      is_global = (\<not> in_net a (ip4_of 100 64 0 0, 10) \<and> \<not> ip4_private a), is_site_local = False\<rparr>"

section \<open>The network\<close>

datatype dns_fault = GaiError | DnsValueError | DnsOther exc

datatype transport_fault = TransportOs | TransportHttp | TransportValue | TransportOther exc

text \<open>An open response: its status, the monotonic clock at the start and before the \<open>i\<close>-th read, and what the \<open>i\<close>-th \<open>read1(n)\<close> gives.\<close>

record response =
  rs_status :: nat
  rs_start :: int
  rs_clock :: "nat \<Rightarrow> int"
  rs_read :: "nat \<Rightarrow> nat \<Rightarrow> transport_fault + bytes"

record network =
  nw_ip :: "str \<Rightarrow> bool"
  nw_flags :: "str \<Rightarrow> ip_flags result"
  nw_lookup :: "str \<Rightarrow> nat \<Rightarrow> dns_fault + str list"
  nw_open :: "str \<Rightarrow> str \<Rightarrow> nat \<Rightarrow> str \<Rightarrow> transport_fault + response"

definition MAX_RESPONSE_BYTES :: nat where "MAX_RESPONSE_BYTES = 1048576"

definition REDIRECT_STATUSES :: "nat list" where "REDIRECT_STATUSES = [301, 302, 303, 307, 308]"

fun all_public :: "network \<Rightarrow> str list \<Rightarrow> unit result" where
  "all_public N [] = Inr ()"
| "all_public N (a # as) =
     bindR (ip_is_forbidden (nw_flags N) a) (\<lambda>bad. if bad then Inl UnsafeUrlError else all_public N as)"

definition resolve_public_ips :: "network \<Rightarrow> str \<Rightarrow> nat \<Rightarrow> str list result" where
  "resolve_public_ips N host port =
     (case nw_lookup N host port of
        Inl (DnsOther e) \<Rightarrow> Inl e
      | Inl _ \<Rightarrow> Inl UnsafeUrlError
      | Inr ips \<Rightarrow> if ips = [] then Inl UnsafeUrlError else bindR (all_public N ips) (\<lambda>_. Inr ips))"

text \<open>The read loop: \<open>remaining\<close> bytes may still come, against one deadline for the whole body.\<close>

function read_loop :: "response \<Rightarrow> int \<Rightarrow> nat \<Rightarrow> nat \<Rightarrow> transport_fault + bytes" where
  "read_loop r deadline i remaining =
     (if remaining = 0 then Inr []
      else if deadline < rs_clock r i then Inl (TransportOther DidResolutionError)
      else case rs_read r i (min remaining 65536) of
             Inl f \<Rightarrow> Inl f
           | Inr chunk \<Rightarrow>
               if chunk = [] then Inr []
               else case read_loop r deadline (Suc i) (remaining - length chunk) of Inl f \<Rightarrow> Inl f | Inr rest \<Rightarrow> Inr (chunk @ rest))"
  by pat_completeness auto
termination
  by (relation "measure (\<lambda>(r, deadline, i, remaining). remaining)") auto

declare read_loop.simps [simp del]

definition https_get :: "network \<Rightarrow> str \<Rightarrow> str \<Rightarrow> nat \<Rightarrow> str \<Rightarrow> int \<Rightarrow> nat \<Rightarrow> (nat \<times> bytes) result" where
  "https_get N hostname ip port target timeout max_bytes =
     (case (case nw_open N hostname ip port target of
              Inl f \<Rightarrow> Inl f
            | Inr r \<Rightarrow> (case read_loop r (rs_start r + timeout) 0 (max_bytes + 1) of Inl f \<Rightarrow> Inl f | Inr body \<Rightarrow> Inr (rs_status r, body))) of
        Inr res \<Rightarrow> Inr res
      | Inl (TransportOther e) \<Rightarrow> Inl e
      | Inl _ \<Rightarrow> Inl DidResolutionError)"

section \<open>The URL\<close>

text \<open>\<open>urlparse\<close> on ASCII text: leading controls and spaces go, tabs and line breaks go everywhere; the path loses its fragment, query and,
  in the last segment, what follows a \<open>;\<close>.\<close>

record url_parts =
  up_url :: url
  up_query :: str

definition drop_params :: "str \<Rightarrow> str" where
  "drop_params path =
     (let seg = rev (takeWhile (\<lambda>c. c \<noteq> 47) (rev path))
      in take (length path - length seg) path @ takeWhile (\<lambda>c. c \<noteq> 59) seg)"

definition url_parse :: "(str \<Rightarrow> bool) \<Rightarrow> str \<Rightarrow> url_parts option" where
  "url_parse ip_literal text0 =
     (let (scheme, rest) = url_scheme (filter (\<lambda>c. c \<notin> {9, 10, 13}) (dropWhile (\<lambda>c. c \<le> 32) text0));
          (netloc, tail) = (if starts_with (lit ''//'') rest
                            then (takeWhile (\<lambda>c. c \<notin> {47, 63, 35}) (drop 2 rest), dropWhile (\<lambda>c. c \<notin> {47, 63, 35}) (drop 2 rest))
                            else ([], rest));
          body = takeWhile (\<lambda>c. c \<noteq> 35) tail
      in if brackets_ok ip_literal netloc
         then Some \<lparr>up_url = \<lparr>u_scheme = scheme, u_netloc = netloc, u_path = drop_params (takeWhile (\<lambda>c. c \<noteq> 63) body)\<rparr>,
                    up_query = snd (partition_at 63 body)\<rparr>
         else None)"

definition host_of :: "url \<Rightarrow> str" where
  "host_of u = (case url_hostname u of None \<Rightarrow> [] | Some h \<Rightarrow> h)"

text \<open>\<open>parsed.port or 443\<close>\<close>

definition port_of :: "nat option \<Rightarrow> nat" where
  "port_of port = (case port of None \<Rightarrow> 443 | Some p \<Rightarrow> if p = 0 then 443 else p)"

definition control_or_space :: "nat \<Rightarrow> bool" where "control_or_space c = (c < 33 \<or> c = 127)"

definition check_url :: "network \<Rightarrow> str \<Rightarrow> (str \<times> nat \<times> str) result" where
  "check_url N url =
     (if \<not> is_ascii url then Inl UnsafeUrlError
      else case url_parse (nw_ip N) url of
        None \<Rightarrow> Inl UnsafeUrlError
      | Some u \<Rightarrow>
          bindR (catchR is_value_error UnsafeUrlError (url_port (up_url u))) (\<lambda>port.
            let hostname = host_of (up_url u); path = u_path (up_url u); target = (if path = [] then [47] else path)
            in if u_scheme (up_url u) \<noteq> lit ''https'' then Inl UnsafeUrlError
               else if hostname = [] then Inl UnsafeUrlError
               else if 253 < length hostname then Inl UnsafeUrlError
               else if list_ex control_or_space hostname then Inl UnsafeUrlError
               else Inr (hostname, port_of port, if up_query u = [] then target else target @ [63] @ up_query u)))"

section \<open>The fetches\<close>

definition https_fetch_guarded :: "network \<Rightarrow> int \<Rightarrow> nat \<Rightarrow> str \<Rightarrow> bytes result" where
  "https_fetch_guarded N timeout max_bytes url =
     bindR (check_url N url) (\<lambda>(hostname, port, target).
     bindR (resolve_public_ips N hostname port) (\<lambda>ips.
     bindR (https_get N hostname (hd ips) port target timeout max_bytes) (\<lambda>(status, raw).
       if status \<in> set REDIRECT_STATUSES then Inl UnsafeUrlError
       else if status \<noteq> 200 then Inl DidResolutionError
       else if max_bytes < length raw then Inl DidResolutionError
       else Inr raw)))"

definition https_json_fetch :: "network \<Rightarrow> (bytes \<Rightarrow> json result) \<Rightarrow> int \<Rightarrow> nat \<Rightarrow> str \<Rightarrow> jobj result" where
  "https_json_fetch N json_loads timeout max_bytes url =
     bindR (https_fetch_guarded N timeout max_bytes url) (\<lambda>raw.
     bindR (catchR is_value_error DidResolutionError (loads json_loads raw)) (as_object DidResolutionError))"

definition https_text_fetch :: "network \<Rightarrow> int \<Rightarrow> nat \<Rightarrow> str \<Rightarrow> str result" where
  "https_text_fetch N timeout max_bytes url =
     bindR (https_fetch_guarded N timeout max_bytes url) (\<lambda>raw. catchR (\<lambda>e. e = PyUnicodeError) DidResolutionError (utf8_decode raw))"

definition https_bytes_fetch :: "network \<Rightarrow> int \<Rightarrow> nat \<Rightarrow> str \<Rightarrow> bytes result" where
  "https_bytes_fetch N timeout max_bytes url = https_fetch_guarded N timeout max_bytes url"

section \<open>Lemmas\<close>

lemma all_public_Inr: "all_public N ips = Inr u \<longleftrightarrow> (\<forall>a\<in>set ips. ip_is_forbidden (nw_flags N) a = Inr False)"
  by (induction ips) (auto simp: bindR_Inr)

lemma resolve_public_Inr:
  "resolve_public_ips N host port = Inr ips \<longleftrightarrow>
     nw_lookup N host port = Inr ips \<and> ips \<noteq> [] \<and> (\<forall>a\<in>set ips. ip_is_forbidden (nw_flags N) a = Inr False)"
  by (auto simp: resolve_public_ips_def bindR_Inr all_public_Inr split: sum.split dns_fault.split)

lemma fetch_guarded_Inr:
  "https_fetch_guarded N timeout max_bytes url = Inr raw \<longleftrightarrow>
     (\<exists>hostname port target ips. check_url N url = Inr (hostname, port, target) \<and> resolve_public_ips N hostname port = Inr ips \<and>
        https_get N hostname (hd ips) port target timeout max_bytes = Inr (200, raw) \<and> length raw \<le> max_bytes)"
  (is "?L \<longleftrightarrow> ?R")
proof
  assume ?L
  then show ?R by (auto simp: https_fetch_guarded_def bindR_Inr split: if_split_asm)
next
  assume ?R
  then show ?L by (auto simp: https_fetch_guarded_def REDIRECT_STATUSES_def)
qed

lemma https_get_Inr:
  "https_get N h ip port target timeout max_bytes = Inr (status, raw) \<longleftrightarrow>
     (\<exists>r. nw_open N h ip port target = Inr r \<and> read_loop r (rs_start r + timeout) 0 (max_bytes + 1) = Inr raw \<and> rs_status r = status)"
  by (auto simp: https_get_def split: sum.split transport_fault.split)

text \<open>A server that keeps sending ends the loop: the body is the concatenation of at most \<open>remaining\<close> reads, none of them after the
  deadline, and with reads no longer than asked for it has at most \<open>remaining\<close> bytes.\<close>

lemma read_loop_bounded:
  "read_loop r deadline i remaining = Inr body \<Longrightarrow>
     \<exists>chunks. body = concat chunks \<and> length chunks \<le> remaining \<and> (\<forall>k<length chunks. rs_clock r (i + k) \<le> deadline) \<and>
       ((\<forall>j n c. rs_read r j n = Inr c \<longrightarrow> length c \<le> n) \<longrightarrow> length body \<le> remaining)"
proof (induction r deadline i remaining arbitrary: body rule: read_loop.induct)
  case (1 r deadline i remaining)
  show ?case
  proof (cases "body = []")
    case True
    then show ?thesis by (intro exI [of _ "[]"]) simp
  next
    case False
    have k: "remaining \<noteq> 0" "\<not> deadline < rs_clock r i"
      using "1.prems" False by (auto simp: read_loop.simps [of r deadline i remaining] split: if_split_asm)
    obtain chunk where c: "rs_read r i (min remaining 65536) = Inr chunk" "chunk \<noteq> []"
      using "1.prems" False k by (auto simp: read_loop.simps [of r deadline i remaining] split: sum.split_asm if_split_asm)
    obtain rest where rest: "read_loop r deadline (Suc i) (remaining - length chunk) = Inr rest" "body = chunk @ rest"
      using "1.prems" k c by (auto simp: read_loop.simps [of r deadline i remaining] split: sum.split_asm)
    from "1.IH" [OF k c rest(1)] obtain chunks where h: "rest = concat chunks" "length chunks \<le> remaining - length chunk"
      "\<forall>j<length chunks. rs_clock r (Suc i + j) \<le> deadline"
      "(\<forall>j n c. rs_read r j n = Inr c \<longrightarrow> length c \<le> n) \<longrightarrow> length rest \<le> remaining - length chunk" by blast
    have "length (chunk # chunks) \<le> remaining" using h(2) k(1) c(2) by (cases chunk) auto
    moreover have "\<forall>j<length (chunk # chunks). rs_clock r (i + j) \<le> deadline"
      using h(3) k(2) by (auto simp: less_Suc_eq_0_disj)
    moreover have "(\<forall>j n c. rs_read r j n = Inr c \<longrightarrow> length c \<le> n) \<longrightarrow> length body \<le> remaining"
      using h(4) rest(2) c(1) by fastforce
    ultimately show ?thesis using h(1) rest(2) by (intro exI [of _ "chunk # chunks"]) simp
  qed
qed

lemma check_url_Inr:
  assumes "check_url N url = Inr (hostname, port, target)"
  shows "is_ascii url \<and> hostname \<noteq> [] \<and> length hostname \<le> 253 \<and> \<not> list_ex control_or_space hostname \<and>
     (\<exists>u. url_parse (nw_ip N) url = Some u \<and> u_scheme (up_url u) = lit ''https'' \<and> url_hostname (up_url u) = Some hostname)"
  using assms by (auto simp: check_url_def host_of_def Let_def bindR_Inr split: if_split_asm option.split_asm)

lemma check_url_open [simp]: "check_url (N\<lparr>nw_open := f\<rparr>) url = check_url N url"
  by (simp add: check_url_def)

lemma resolve_public_open [simp]: "resolve_public_ips (N\<lparr>nw_open := f\<rparr>) host port = resolve_public_ips N host port"
proof -
  have "all_public (N\<lparr>nw_open := f\<rparr>) ips = all_public N ips" for ips by (induction ips) (simp_all cong: if_cong)
  then show ?thesis by (auto simp: resolve_public_ips_def split: sum.split dns_fault.split)
qed

section \<open>Lemmas: IPv4\<close>

lemma in_net_32: "in_net a (n, 32) \<longleftrightarrow> a = n"
  by (simp add: in_net_def)

text \<open>The reference: the special-purpose blocks, less the two exceptions.\<close>

definition blocked_networks :: "(ip4 \<times> nat) list" where
  "blocked_networks = (ip4_of 100 64 0 0, 10) # (ip4_of 224 0 0 0, 4) # private_networks"

lemma exceptions_public:
  assumes "a \<in> {ip4_of 192 0 0 9, ip4_of 192 0 0 10}"
  shows "\<not> in_net a (ip4_of 100 64 0 0, 10)" "\<not> in_net a (ip4_of 224 0 0 0, 4)" "\<not> in_net a (ip4_of 127 0 0 0, 8)" "\<not> in_net a (ip4_of 169 254 0 0, 16)"
    "\<not> in_net a (ip4_of 240 0 0 0, 4)" "a \<noteq> ip4_of 0 0 0 0"
  using assms by (auto simp: in_net_def ip4_of_def drop_bit_eq_div)

lemma zero_blocked: "in_net (ip4_of 0 0 0 0) (ip4_of 0 0 0 0, 8)"
  by (simp add: in_net_def)

lemma ip4_forbidden:
  "ip_is_forbidden (\<lambda>s. Inr (ip4_flags a)) s =
     Inr (list_ex (in_net a) blocked_networks \<and> a \<notin> {ip4_of 192 0 0 9, ip4_of 192 0 0 10})"
proof (cases "a \<in> {ip4_of 192 0 0 9, ip4_of 192 0 0 10}")
  case True
  then show ?thesis using exceptions_public [OF True]
    by (auto simp: ip_is_forbidden_def ip4_flags_def ip4_private_def private_exceptions_def in_net_32)
next
  case False
  have "in_net a (ip4_of 127 0 0 0, 8) \<or> in_net a (ip4_of 169 254 0 0, 16) \<or> in_net a (ip4_of 240 0 0 0, 4) \<or> a = ip4_of 0 0 0 0 \<Longrightarrow>
      list_ex (in_net a) private_networks"
    using zero_blocked by (auto simp: private_networks_def)
  then show ?thesis using False
    by (auto simp: ip_is_forbidden_def ip4_flags_def ip4_private_def private_exceptions_def in_net_32 blocked_networks_def)
qed

section \<open>Properties\<close>

text \<open>The address rule on IPv4: of the union of flags the code tests, an address passes exactly when it lies in none of the
  special-purpose blocks (private, loopback, link-local with the metadata service, shared, multicast, reserved and the documentation
  ranges) or is one of the two globally reachable exceptions.\<close>

theorem ip4_forbidden_exact:
  "ip_is_forbidden (\<lambda>s. Inr (ip4_flags a)) s =
     Inr (list_ex (in_net a) blocked_networks \<and> a \<notin> {ip4_of 192 0 0 9, ip4_of 192 0 0 10})"
  by (rule ip4_forbidden)


text \<open>No request to a forbidden address can matter: on two networks that answer alike on every public address, a guarded fetch gives
  the same result, whatever the others would answer.\<close>

theorem fetch_ssrf_guard:
  assumes "\<And>host ip port target. ip_is_forbidden (nw_flags N) ip = Inr False \<Longrightarrow> nw_open N host ip port target = open' host ip port target"
  shows "https_fetch_guarded (N\<lparr>nw_open := open'\<rparr>) timeout max_bytes url = https_fetch_guarded N timeout max_bytes url"
proof -
  have "https_get (N\<lparr>nw_open := open'\<rparr>) host (hd ips) port target timeout max_bytes = https_get N host (hd ips) port target timeout max_bytes"
    if "resolve_public_ips N host port = Inr ips" for host ips port target
  proof -
    have "ip_is_forbidden (nw_flags N) (hd ips) = Inr False" using that by (auto simp: resolve_public_Inr)
    then show ?thesis using assms by (simp add: https_get_def)
  qed
  then show ?thesis unfolding https_fetch_guarded_def by (intro bindR_cong) (auto split: prod.split intro!: bindR_cong)
qed

section \<open>Examples\<close>

text \<open>A network where the host \<open>h\<close> has one public address that serves three bytes, and \<open>evil\<close> the metadata address beside a public one.\<close>

definition ex_response :: response where
  "ex_response = \<lparr>rs_status = 200, rs_start = 0, rs_clock = int, rs_read = (\<lambda>i n. Inr (if i = 0 then take n [1, 2, 3] else []))\<rparr>"

definition ex_network :: network where
  "ex_network = \<lparr>nw_ip = (\<lambda>h. False),
     nw_flags = (\<lambda>s. Inr (ip4_flags (if s = lit ''p'' then ip4_of 93 184 216 34 else ip4_of 169 254 169 254))),
     nw_lookup = (\<lambda>h p. Inr (if h = lit ''h'' then [lit ''p''] else [lit ''p'', lit ''m''])),
     nw_open = (\<lambda>h ip p t. if ip = lit ''p'' then Inr ex_response else Inl TransportOs)\<rparr>"

lemma ex_public: "ip_is_forbidden (nw_flags ex_network) s = Inr False \<longleftrightarrow> s = lit ''p''"
proof -
  have "\<not> list_ex (in_net (ip4_of 93 184 216 34)) blocked_networks" "list_ex (in_net (ip4_of 169 254 169 254)) blocked_networks"
    "ip4_of 169 254 169 254 \<notin> {ip4_of 192 0 0 9, ip4_of 192 0 0 10}"
    by (simp_all add: blocked_networks_def private_networks_def in_net_def ip4_of_def drop_bit_eq_div)
  moreover have "ip_is_forbidden (nw_flags ex_network) s =
      ip_is_forbidden (\<lambda>t. Inr (ip4_flags (if s = lit ''p'' then ip4_of 93 184 216 34 else ip4_of 169 254 169 254))) s"
    by (simp add: ip_is_forbidden_def ex_network_def)
  ultimately show ?thesis using ip4_forbidden by simp
qed

lemma ex_check: "check_url ex_network (lit ''https://h/a?q'') = Inr (lit ''h'', 443, lit ''/a?q'')"
  by (simp add: check_url_def url_parse_def url_scheme_def scheme_char_def is_alnum_def lit_def brackets_ok_def drop_params_def
      Cred_Schema.partition_at_def url_port_def raw_host_port_def host_info_def host_of_def url_hostname_def lower_def lower_char_def port_of_def
      control_or_space_def is_ascii_def ex_network_def Let_def)

text \<open>The parameters of the last path segment are dropped: another resource is asked for than the URL names.\<close>

lemma ex_params: "check_url ex_network (lit ''https://h/a;v=2'') = Inr (lit ''h'', 443, lit ''/a'')"
  by (simp add: check_url_def url_parse_def url_scheme_def scheme_char_def is_alnum_def lit_def brackets_ok_def drop_params_def
      Cred_Schema.partition_at_def url_port_def raw_host_port_def host_info_def host_of_def url_hostname_def lower_def lower_char_def port_of_def
      control_or_space_def is_ascii_def ex_network_def Let_def)

lemma ex_read: "read_loop ex_response (rs_start ex_response + 5) 0 (10 + 1) = Inr [1, 2, 3]"
proof -
  have f: "rs_clock ex_response i = int i" "rs_read ex_response i n = Inr (if i = 0 then take n [1, 2, 3] else [])" "rs_start ex_response = 0" for i n
    by (simp_all add: ex_response_def)
  have "read_loop ex_response 5 (Suc 0) 8 = Inr []" by (simp add: read_loop.simps [of ex_response 5 "Suc 0" 8] f)
  then show ?thesis by (simp add: read_loop.simps [of ex_response 5 0 11] f)
qed

lemma ex_fetch: "https_fetch_guarded ex_network 5 10 (lit ''https://h/a?q'') = Inr [1, 2, 3]"
proof -
  have "resolve_public_ips ex_network (lit ''h'') 443 = Inr [lit ''p'']"
    unfolding resolve_public_Inr using ex_public by (simp add: ex_network_def)
  moreover have "https_get ex_network (lit ''h'') (lit ''p'') 443 (lit ''/a?q'') 5 10 = Inr (200, [1, 2, 3])"
    unfolding https_get_Inr using ex_read by (intro exI [of _ ex_response]) (simp add: ex_network_def ex_response_def)
  ultimately show ?thesis using ex_check by (auto simp: fetch_guarded_Inr)
qed


theorem fetch_ssrf_guard_witness:
  "https_fetch_guarded (ex_network\<lparr>nw_open := \<lambda>h ip p t. Inr ex_response\<rparr>) 5 10 (lit ''https://evil/'') =
   https_fetch_guarded ex_network 5 10 (lit ''https://evil/'')"
proof (rule fetch_ssrf_guard)
  show "nw_open ex_network host ip port target = Inr ex_response" if "ip_is_forbidden (nw_flags ex_network) ip = Inr False" for host ip port target
    using that unfolding ex_public by (simp add: ex_network_def)
qed

end
