(* ===== verification/Status_Publish.thy ===== *)
theory Status_Publish
  imports Pipeline Fetch
begin

text \<open>
  openvc/status/issue.py and openvc/resolvers.py: the builders of status lists, the verifier of a status-list token, and the default
  resolvers, which fetch a list and verify it before it is read. A caller's argument is a JSON value, a clock pin or bytes; \<open>compress\<close>
  is zlib's; \<open>fetch\<close> is the guarded text fetch or the caller's own.
\<close>

section \<open>Arguments\<close>

definition VC2_CONTEXT :: str where "VC2_CONTEXT = lit ''https://www.w3.org/ns/credentials/v2''"

definition VC_BASE_CONTEXTS :: "str list" where
  "VC_BASE_CONTEXTS = [VC2_CONTEXT, lit ''https://www.w3.org/2018/credentials/v1'']"

definition ISSUER_MAX_DEPTH :: nat where "ISSUER_MAX_DEPTH = MAX_DEPTH - 2"

definition CONTEXT_ENTRY_MAX_DEPTH :: nat where "CONTEXT_ENTRY_MAX_DEPTH = MAX_DEPTH - 3"

definition STATUS_LIST_JWT_TYP :: str where "STATUS_LIST_JWT_TYP = lit ''statuslist+jwt''"

definition refuse_unreadable :: "nat \<Rightarrow> json \<Rightarrow> unit result" where
  "refuse_unreadable max_depth wire =
     (if nesting_exceeds wire max_depth then Inl StatusListError
      else if carries_sd_jwt_marker wire then Inl StatusListError
      else Inr ())"

definition credential_issuer :: "json \<Rightarrow> json result" where
  "credential_issuer v =
     (case v of
        JStr s \<Rightarrow> bindR (text_of v) (\<lambda>t. Inr (JStr t))
      | JObj d \<Rightarrow>
          if has_key (lit ''@id'') d then Inl StatusListError
          else if \<not> has_key (lit ''id'') d then Inl StatusListError
          else bindR (text_of (jget (lit ''id'') d)) (\<lambda>_. bindR (refuse_unreadable ISSUER_MAX_DEPTH v) (\<lambda>_. Inr v))
      | _ \<Rightarrow> Inl StatusListError)"

definition context_entry :: "json \<Rightarrow> unit result" where
  "context_entry entry =
     (case entry of
        JStr s \<Rightarrow> if s = [] then Inl StatusListError else Inr ()
      | JObj d \<Rightarrow> refuse_unreadable CONTEXT_ENTRY_MAX_DEPTH entry
      | _ \<Rightarrow> Inl StatusListError)"

definition list_contexts :: "json \<Rightarrow> json list result" where
  "list_contexts v =
     (case v of
        JNull \<Rightarrow> Inr [JStr VC2_CONTEXT]
      | JList es \<Rightarrow>
          (case es of
             [] \<Rightarrow> Inl StatusListError
           | first # rest \<Rightarrow>
               if first \<notin> JStr ` set VC_BASE_CONTEXTS then Inl StatusListError
               else bindR (mapR context_entry rest) (\<lambda>_. Inr es))
      | _ \<Rightarrow> Inl StatusListError)"

definition packed :: "bytes \<Rightarrow> bytes result" where
  "packed b = (if MAX_DECOMPRESSED_BYTES < length b then Inl StatusListError else Inr b)"

text \<open>A \<open>datetime\<close>, or the number a caller gave.\<close>

datatype instant = At clock_pin | Number json

definition epoch_arg :: "instant \<Rightarrow> int result" where
  "epoch_arg v =
     (case v of
        At pin \<Rightarrow> bindR (utc_instant 0 StatusListError pin) (\<lambda>t. Inr (epoch_of_micros t))
      | Number n \<Rightarrow> if is_numeric_date n then bindR (py_num n) (\<lambda>x. Inr (num_trunc x)) else Inl StatusListError)"

definition ttl_arg :: "json \<Rightarrow> int option result" where
  "ttl_arg v =
     (case v of
        JNull \<Rightarrow> Inr None
      | JInt n \<Rightarrow> if 1 \<le> n \<and> is_numeric_date v then Inr (Some n) else Inl StatusListError
      | _ \<Rightarrow> Inl StatusListError)"

definition optional :: "('a \<Rightarrow> 'b result) \<Rightarrow> 'a option \<Rightarrow> 'b option result" where
  "optional f v = (case v of None \<Rightarrow> Inr None | Some x \<Rightarrow> bindR (f x) (\<lambda>y. Inr (Some y)))"

definition member :: "str \<Rightarrow> json option \<Rightarrow> jobj" where
  "member k v = (case v of None \<Rightarrow> [] | Some x \<Rightarrow> [(k, x)])"

section \<open>The builders\<close>

record list_request =
  lq_id :: json
  lq_issuer :: json
  lq_bits :: bytes
  lq_purpose :: json
  lq_from :: "clock_pin option"
  lq_until :: "clock_pin option"
  lq_subject :: "json option"
  lq_ttl :: json
  lq_contexts :: json

definition list_subject :: "(bytes \<Rightarrow> bytes) \<Rightarrow> str \<Rightarrow> str \<Rightarrow> str option \<Rightarrow> bytes \<Rightarrow> int option \<Rightarrow> jobj" where
  "list_subject compress ident purpose sid raw ttl =
     [(lit ''id'', JStr (case sid of None \<Rightarrow> ident @ lit ''#list'' | Some s \<Rightarrow> s)), (lit ''type'', JStr (lit ''BitstringStatusList'')),
      (lit ''statusPurpose'', JStr purpose), (lit ''encodedList'', JStr (encode_bitstring compress raw))] @ member (lit ''ttl'') (map_option JInt ttl)"

definition build_status_list_credential :: "(bytes \<Rightarrow> bytes) \<Rightarrow> list_request \<Rightarrow> jobj result" where
  "build_status_list_credential compress q =
     bindR (text_of (lq_id q)) (\<lambda>ident.
     bindR (text_of (lq_purpose q)) (\<lambda>purpose.
     bindR (credential_issuer (lq_issuer q)) (\<lambda>issuer.
     bindR (optional text_of (lq_subject q)) (\<lambda>subject_id.
     bindR (list_contexts (lq_contexts q)) (\<lambda>context.
     bindR (packed (lq_bits q)) (\<lambda>raw.
     bindR (ttl_arg (lq_ttl q)) (\<lambda>ttl.
     bindR (optional (utc_iso 0 StatusListError) (lq_from q)) (\<lambda>valid_from.
     bindR (optional (utc_iso 0 StatusListError) (lq_until q)) (\<lambda>valid_until.
       Inr ([(lit ''@context'', JList context), (lit ''id'', JStr ident),
             (lit ''type'', JList [JStr (lit ''VerifiableCredential''), JStr (lit ''BitstringStatusListCredential'')]), (lit ''issuer'', issuer),
             (lit ''credentialSubject'', JObj (list_subject compress ident purpose subject_id raw ttl))]
            @ member (lit ''validFrom'') (map_option JStr valid_from) @ member (lit ''validUntil'') (map_option JStr valid_until)))))))))))"

record token_request =
  tq_uri :: json
  tq_list :: bytes
  tq_bits :: json
  tq_issued :: "instant option"
  tq_expires :: "instant option"
  tq_ttl :: json
  tq_issuer :: "json option"

definition token_header :: "signing_key \<Rightarrow> jobj" where
  "token_header key = [(lit ''typ'', JStr STATUS_LIST_JWT_TYP), (lit ''alg'', JStr (sk_alg key)), (lit ''kid'', JStr (sk_kid key))]"

definition token_payload :: "(bytes \<Rightarrow> bytes) \<Rightarrow> str \<Rightarrow> int \<Rightarrow> nat \<Rightarrow> bytes \<Rightarrow> str option \<Rightarrow> int option \<Rightarrow> int option \<Rightarrow> jobj" where
  "token_payload compress uri iat bits raw issuer expiry ttl =
     [(lit ''sub'', JStr uri), (lit ''iat'', JInt iat),
      (lit ''status_list'', JObj [(lit ''bits'', JInt (int bits)), (lit ''lst'', JStr (encode_status_list compress raw))])]
     @ member (lit ''iss'') (map_option JStr issuer) @ member (lit ''exp'') (map_option JInt expiry) @ member (lit ''ttl'') (map_option JInt ttl)"

definition token_claims :: "jose \<Rightarrow> (bytes \<Rightarrow> bytes) \<Rightarrow> token_request \<Rightarrow> jobj result" where
  "token_claims J compress q =
     bindR (text_of (tq_uri q)) (\<lambda>uri.
     bindR (optional text_of (tq_issuer q)) (\<lambda>issuer.
     bindR (check_bits (tq_bits q)) (\<lambda>bits.
     bindR (packed (tq_list q)) (\<lambda>raw.
     bindR (case tq_issued q of None \<Rightarrow> Inr (num_trunc (jo_time J)) | Some v \<Rightarrow> epoch_arg v) (\<lambda>iat.
     bindR (optional epoch_arg (tq_expires q)) (\<lambda>expiry.
     bindR (ttl_arg (tq_ttl q)) (\<lambda>ttl. Inr (token_payload compress uri iat bits raw issuer expiry ttl))))))))"

definition build_status_list_token :: "jose \<Rightarrow> (bytes \<Rightarrow> bytes) \<Rightarrow> signing_key \<Rightarrow> token_request \<Rightarrow> str result" where
  "build_status_list_token J compress key q =
     bindR (token_claims J compress q) (\<lambda>payload. sign_compact J (token_header key) payload key ALLOWED_ALGS)"

section \<open>The token verifier\<close>

text \<open>\<open>now\<close>: \<open>None\<close> for the wall clock, a pinned integer, or a \<open>datetime\<close>.\<close>

definition token_instant :: "jose \<Rightarrow> instant option \<Rightarrow> num result" where
  "token_instant J now =
     (case now of
        None \<Rightarrow> Inr (jo_time J)
      | Some (Number (JInt n)) \<Rightarrow> Inr (NInt n)
      | Some (Number _) \<Rightarrow> Inl StatusListError
      | Some (At pin) \<Rightarrow> bindR (utc_epoch (jo_time J) StatusListError pin) (\<lambda>t. Inr (NInt t)))"

definition bad_dates :: "jobj \<Rightarrow> bool" where
  "bad_dates claims = list_ex (\<lambda>name. has_key name claims \<and> \<not> is_numeric_date (jget name claims)) [lit ''exp'', lit ''nbf'', lit ''iat'']"

definition verify_status_list_token :: "jose \<Rightarrow> str \<Rightarrow> jobj \<Rightarrow> str option \<Rightarrow> json \<Rightarrow> instant option \<Rightarrow> jobj result" where
  "verify_status_list_token J token public_key_jwk expected_uri leeway_s now =
     bindR (leeway_seconds StatusListError leeway_s) (\<lambda>_.
     bindR (verify_compact J token public_key_jwk ALLOWED_ALGS) (\<lambda>(header, claims).
       if jget (lit ''typ'') header \<noteq> JStr STATUS_LIST_JWT_TYP then Inl StatusListError
       else if (\<exists>u. expected_uri = Some u \<and> jget (lit ''sub'') claims \<noteq> JStr u) then Inl StatusListError
       else if bad_dates claims then Inl StatusListError
       else
     bindR (token_instant J now) (\<lambda>instant.
     bindR (catchR (\<lambda>e. e = ClaimsInvalid) StatusListError (check_jwt_temporal instant claims leeway_s True)) (\<lambda>_. Inr claims))))"

section \<open>The default list resolver\<close>

definition as_credential :: "venv \<Rightarrow> str \<Rightarrow> json result" where
  "as_credential V raw =
     (let body = strip raw
      in case loads (v_loads_text V) body of
           Inr (JObj d) \<Rightarrow> Inr (JObj d)
         | Inr _ \<Rightarrow> Inr (JStr body)
         | Inl e \<Rightarrow> if is_value_error e then Inr (JStr body) else Inl e)"

definition named_issuer :: "json \<Rightarrow> str option" where
  "named_issuer issuer = (case issuer of JStr s \<Rightarrow> Some s | JObj d \<Rightarrow> text_opt (jget (lit ''id'') d) | _ \<Rightarrow> None)"

definition claimed_list_issuer :: "venv \<Rightarrow> json \<Rightarrow> str option" where
  "claimed_list_issuer V credential =
     (case credential of
        JObj d \<Rightarrow> named_issuer (jget (lit ''issuer'') d)
      | JStr s \<Rightarrow>
          (case parse_compact (v_jose V) (strip s) of
             Inl e \<Rightarrow> None
           | Inr (header, payload, signing_input, signature) \<Rightarrow>
               (case jget (lit ''iss'') payload of
                  JStr iss \<Rightarrow> Some iss
                | _ \<Rightarrow> (case jget (lit ''vc'') payload of JObj vc \<Rightarrow> named_issuer (jget (lit ''issuer'') vc) | _ \<Rightarrow> None)))
      | _ \<Rightarrow> None)"

definition require_expected_issuer :: "str option \<Rightarrow> str option \<Rightarrow> unit result" where
  "require_expected_issuer claimed expected =
     (case (expected, claimed) of (Some e, Some c) \<Rightarrow> if c \<noteq> e then Inl StatusListError else Inr () | _ \<Rightarrow> Inr ())"

definition is_identity :: "json \<Rightarrow> bool" where
  "is_identity signer = (case signer of JStr s \<Rightarrow> s \<noteq> [] | _ \<Rightarrow> False)"

definition authenticated_list :: "jobj \<Rightarrow> json \<Rightarrow> jobj result" where
  "authenticated_list credential signer =
     (case map_of credential (lit ''issuer'') of
        None \<Rightarrow> Inr (if is_identity signer then credential @ [(lit ''issuer'', signer)] else credential)
      | Some issuer \<Rightarrow>
          if list_ex (\<lambda>n. n \<noteq> signer) (issuer_identifiers issuer) then Inl StatusListError
          else if issuer_identifiers issuer \<noteq> [] \<or> \<not> is_identity signer then Inr credential
          else (case issuer of
                  JObj d \<Rightarrow> Inr (AList.update (lit ''issuer'') (JObj (AList.update (lit ''id'') signer d)) credential)
                | _ \<Rightarrow> Inr credential))"

definition list_policy :: "json \<Rightarrow> vpolicy" where
  "list_policy leeway_s = default_policy\<lparr>vp_require_status := False, vp_leeway := leeway_s\<rparr>"

definition list_resolvers :: "resolvers \<Rightarrow> resolvers" where
  "list_resolvers R = R\<lparr>r_status := None, r_token := None, r_schema := None, r_anchors := None\<rparr>"

definition resolve_status_list ::
    "venv \<Rightarrow> resolvers \<Rightarrow> (str \<Rightarrow> str result) \<Rightarrow> json \<Rightarrow> str option \<Rightarrow> str \<Rightarrow> json result" where
  "resolve_status_list V R fetch leeway_s expected_issuer url =
     bindR (fetch url) (\<lambda>raw.
     bindR (as_credential V raw) (\<lambda>credential.
     bindR (require_expected_issuer (claimed_list_issuer V credential) expected_issuer) (\<lambda>_.
     bindR (verify_credential V (list_resolvers R) (list_policy leeway_s) None credential) (\<lambda>result.
     bindR (authenticated_list (res_credential result) (res_issuer result)) (\<lambda>d. Inr (JObj d))))))"

definition default_status_list_resolver ::
    "venv \<Rightarrow> resolvers \<Rightarrow> (str \<Rightarrow> str result) \<Rightarrow> json \<Rightarrow> str option \<Rightarrow> (str \<Rightarrow> json result) result" where
  "default_status_list_resolver V R fetch leeway_s expected_issuer =
     bindR (leeway_seconds StatusListError leeway_s) (\<lambda>s. Inr (resolve_status_list V R fetch (JInt s) expected_issuer))"

section \<open>Lemmas: tokens\<close>

lemma payload_fields:
  "jget (lit ''sub'') (token_payload c u iat b raw iss e t) = JStr u"
  "jget (lit ''status_list'') (token_payload c u iat b raw iss e t) = JObj [(lit ''bits'', JInt (int b)), (lit ''lst'', JStr (encode_status_list c raw))]"
  by (simp_all add: token_payload_def jget_def)

lemma payload_depth: "depth (JObj (token_payload c u iat b raw iss e t)) \<le> MAX_DEPTH"
  by (cases iss; cases e; cases t) (simp_all add: token_payload_def member_def MAX_DEPTH_def)

lemma header_facts:
  "depth (JObj (token_header key)) \<le> MAX_DEPTH" "jget (lit ''alg'') (token_header key) = JStr (sk_alg key)" "\<not> has_key (lit ''crit'') (token_header key)"
  "jget (lit ''typ'') (token_header key) = JStr STATUS_LIST_JWT_TYP"
  by (simp_all add: token_header_def MAX_DEPTH_def jget_def has_key_def)

lemma token_claims_Inr:
  assumes "token_claims J compress q = Inr payload"
  obtains u iat b iss e t where "tq_uri q = JStr u" "u \<noteq> []" "check_bits (tq_bits q) = Inr b" "length (tq_list q) \<le> MAX_DECOMPRESSED_BYTES"
    "payload = token_payload compress u iat b (tq_list q) iss e t"
proof -
  have t: "text_of v = Inr u \<longleftrightarrow> v = JStr u \<and> u \<noteq> []" for v u by (cases v) auto
  show thesis using assms that by (auto simp: token_claims_def bindR_Inr t packed_def split: if_split_asm)
qed

lemma verify_token_Inr:
  "verify_status_list_token J token jwk uri l now = Inr claims \<longleftrightarrow>
     (\<exists>s header instant late. leeway_seconds StatusListError l = Inr s \<and> verify_compact J token jwk ALLOWED_ALGS = Inr (header, claims) \<and>
        jget (lit ''typ'') header = JStr STATUS_LIST_JWT_TYP \<and> (\<forall>u. uri = Some u \<longrightarrow> jget (lit ''sub'') claims = JStr u) \<and>
        token_instant J now = Inr instant \<and> check_jwt_temporal instant claims l True = Inr late)"
  (is "_ \<longleftrightarrow> ?R")
proof
  assume a: "verify_status_list_token J token jwk uri l now = Inr claims"
  then obtain s header c where k: "leeway_seconds StatusListError l = Inr s" "verify_compact J token jwk ALLOWED_ALGS = Inr (header, c)"
    by (auto simp: verify_status_list_token_def bindR_Inr)
  then show ?R using a by (auto simp: verify_status_list_token_def bindR_Inr split: if_split_asm)
next
  assume ?R
  moreover have "check_jwt_temporal instant c l True = Inr late \<Longrightarrow> \<not> bad_dates c" for instant late c
    by (auto simp: bad_dates_def check_jwt_temporal_def check_numeric_dates_def bindR_Inr split: if_split_asm)
  ultimately show "verify_status_list_token J token jwk uri l now = Inr claims" by (auto simp: verify_status_list_token_def)
qed

section \<open>Lemmas: lists\<close>

lemma built_list:
  assumes "build_status_list_credential compress q = Inr vc"
  obtains s purpose where "jget (lit ''credentialSubject'') vc = JObj s" "lq_purpose q = JStr purpose"
    "jget (lit ''statusPurpose'') s = JStr purpose" "jget (lit ''encodedList'') s = JStr (encode_bitstring compress (lq_bits q))"
    "length (lq_bits q) \<le> MAX_DECOMPRESSED_BYTES"
proof -
  obtain ident purpose issuer sid ctx ttl from_date until_date where k: "text_of (lq_purpose q) = Inr purpose" "packed (lq_bits q) = Inr (lq_bits q)"
    "vc = [(lit ''@context'', JList ctx), (lit ''id'', JStr ident),
             (lit ''type'', JList [JStr (lit ''VerifiableCredential''), JStr (lit ''BitstringStatusListCredential'')]), (lit ''issuer'', issuer),
             (lit ''credentialSubject'', JObj (list_subject compress ident purpose sid (lq_bits q) ttl))]
            @ member (lit ''validFrom'') (map_option JStr from_date) @ member (lit ''validUntil'') (map_option JStr until_date)"
    using assms by (auto simp: build_status_list_credential_def bindR_Inr packed_def split: if_split_asm)
  have p: "lq_purpose q = JStr purpose" using k(1) by (cases "lq_purpose q") (auto split: if_split_asm)
  show thesis
    by (rule that [of "list_subject compress ident purpose sid (lq_bits q) ttl" purpose, OF _ p])
      (use k(2) in \<open>auto simp: k(3) list_subject_def jget_def packed_def split: if_split_asm\<close>)
qed

lemma identified:
  assumes "\<not> list_ex (\<lambda>n. n \<noteq> signer) (issuer_identifiers issuer)"
  shows "(case issuer of JObj d \<Rightarrow> jget (lit ''id'') d | _ \<Rightarrow> issuer) \<in> {signer, JNull}"
  using assms by (cases issuer) (auto simp: issuer_identifiers_def jget_def has_key_map_of split: if_split_asm option.split_asm)

text \<open>The issuer a returned list names is the one the pipeline authenticated, or none that a binding would accept; the rest is as verified.\<close>

lemma authenticated_list_Inr:
  assumes "authenticated_list credential signer = Inr d"
  shows "list_issuer (lit ''issuer'') (JObj d) \<in> {signer, JNull}" "k \<noteq> lit ''issuer'' \<Longrightarrow> jget k d = jget k credential"
proof -
  let ?id = "\<lambda>v. case v of JObj d \<Rightarrow> jget (lit ''id'') d | _ \<Rightarrow> v"
  have l: "list_issuer (lit ''issuer'') (JObj d) = ?id (jget (lit ''issuer'') d)" for d by (simp add: list_issuer_def Let_def)
  have "list_issuer (lit ''issuer'') (JObj d) \<in> {signer, JNull} \<and> (k \<noteq> lit ''issuer'' \<longrightarrow> jget k d = jget k credential)"
  proof (cases "map_of credential (lit ''issuer'')")
    case None
    then show ?thesis using assms by (cases signer) (auto simp: authenticated_list_def l jget_def is_identity_def map_add_def split: if_split_asm option.split)
  next
    case (Some issuer)
    then have n: "\<not> list_ex (\<lambda>n. n \<noteq> signer) (issuer_identifiers issuer)" using assms by (auto simp: authenticated_list_def split: if_split_asm)
    show ?thesis
    proof (cases "d = credential")
      case True
      moreover have "jget (lit ''issuer'') credential = issuer" using Some by (simp add: jget_def)
      ultimately have "list_issuer (lit ''issuer'') (JObj d) = ?id issuer" by (simp only: l)
      then show ?thesis using identified [OF n] True by simp
    next
      case False
      then obtain e where "issuer = JObj e" "is_identity signer"
        "d = AList.update (lit ''issuer'') (JObj (AList.update (lit ''id'') signer e)) credential"
        using assms Some n by (auto simp: authenticated_list_def split: if_split_asm json.split_asm)
      then show ?thesis unfolding l by (simp add: jget_def update_conv')
    qed
  qed
  then show "list_issuer (lit ''issuer'') (JObj d) \<in> {signer, JNull}" "k \<noteq> lit ''issuer'' \<Longrightarrow> jget k d = jget k credential" by blast+
qed

text \<open>What a list behind the default resolver is: content the pipeline verified, with the issuer it authenticated.\<close>

definition verified_list :: "venv \<Rightarrow> resolvers \<Rightarrow> (str \<Rightarrow> str result) \<Rightarrow> json \<Rightarrow> str \<Rightarrow> jobj \<Rightarrow> json \<Rightarrow> bool" where
  "verified_list V R fetch leeway_s url d signer \<longleftrightarrow>
     (\<exists>raw credential r. fetch url = Inr raw \<and> as_credential V raw = Inr credential \<and>
        verify_credential V (list_resolvers R) (list_policy leeway_s) None credential = Inr r \<and> res_issuer r = signer \<and>
        (\<forall>k. k \<noteq> lit ''issuer'' \<longrightarrow> jget k d = jget k (res_credential r)))"

lemma resolved_list:
  assumes "resolve_status_list V R fetch leeway_s expected url = Inr obj"
  obtains d signer where "obj = JObj d" "verified_list V R fetch leeway_s url d signer" "list_issuer (lit ''issuer'') obj \<in> {signer, JNull}"
proof -
  obtain raw credential r d where k: "fetch url = Inr raw" "as_credential V raw = Inr credential"
    "verify_credential V (list_resolvers R) (list_policy leeway_s) None credential = Inr r"
    "authenticated_list (res_credential r) (res_issuer r) = Inr d" "obj = JObj d"
    using assms by (auto simp: resolve_status_list_def bindR_Inr)
  show thesis using that [OF k(5)] authenticated_list_Inr [OF k(4)] k by (auto simp: verified_list_def)
qed

lemma tally_clear:
  assumes "\<not> sr_suspended (tally_status (map (\<lambda>e. \<lparr>ser_entry = e, is_set = P e\<rparr>) es))"
    "w \<longrightarrow> \<not> sr_revoked (tally_status (map (\<lambda>e. \<lparr>ser_entry = e, is_set = P e\<rparr>) es))" "e \<in> set es"
  shows "se_purpose e = PURPOSE_SUSPENSION \<or> se_purpose e = PURPOSE_REVOCATION \<and> w \<Longrightarrow> \<not> P e"
  using assms by (auto simp: tally_status_def list_ex_iff)

lemma status_bound:
  assumes "status_resolvers pol issuer R = Inr (Some res, tokens)" "vp_bind_status pol"
  obtains iss where "issuer = JStr iss" "bind_status_issuer pol (lit ''issuer'') iss (r_status R) = Some res"
  using assms by (auto simp: status_resolvers_def split: option.split_asm if_split_asm)

section \<open>Properties\<close>

text \<open>(C34) An IETF status list from its publisher to its reader: when a list whose status \<open>i\<close> was set to \<open>v\<close> is signed into a token with a
  loaded key, and the token is inside its time window, the token verifies with the key's public JWK for its own URL, gives back the claims
  that were built, and a referenced token carrying the reference built for \<open>i\<close> reads exactly \<open>v\<close> through it, at every width.\<close>

theorem published_status_read:
  assumes zlib: "zlib_stream z R" "R (z_init z) (compress d') d'"
    and list: "b \<in> {1, 2, 4, 8}" "set_status d (JInt (int i)) (JInt (int v)) (JInt (int b)) = Inr d'"
    and ref: "build_token_status_reference (JStr u) (JInt (int i)) = Inr claims"
    and built: "tq_uri q = JStr u" "tq_list q = d'" "tq_bits q = JInt (int b)" "token_claims J compress q = Inr payload"
      "build_status_list_token J compress key q = Inr token"
    and json: "json_faithful J (JObj (token_header key))" "json_faithful J (JObj payload)"
    and key: "backend_ok (jo_crypto J)" "signing_key_from_jwk (jo_crypto J) jwk kid = Inr key"
    and clock: "token_instant J now = Inr instant" "check_jwt_temporal instant payload leeway_s True = Inr late"
  shows "\<exists>pub. sk_public_jwk key = Inr pub \<and> verify_status_list_token J token pub (Some u) leeway_s now = Inr payload \<and>
     check_token_status z (\<lambda>uri. bindR (verify_status_list_token J token pub (Some uri) leeway_s now) (\<lambda>c. Inr (JObj c))) claims =
       Some (Inr (Some \<lparr>ts_ref = \<lparr>ref_uri = u, ref_index = i\<rparr>, ts_status = v, ts_revoked = (v = 1), ts_suspended = (v = 2)\<rparr>))"
proof -
  have "check_bits (tq_bits q) = Inr b" using list(1) built(3) by auto
  then obtain iat iss e t where p: "payload = token_payload compress u iat b d' iss e t" "length d' \<le> MAX_DECOMPRESSED_BYTES"
    using token_claims_Inr [OF built(4)] built(1,2) by (metis json.inject(4) Inr_inject)
  have s: "sign_compact J (token_header key) payload key ALLOWED_ALGS = Inr token" using built(4,5) by (simp add: build_status_list_token_def)
  have d: "depth (JObj payload) \<le> MAX_DEPTH" unfolding p(1) by (rule payload_depth)
  obtain pub where pub: "sk_public_jwk key = Inr pub" "verify_compact J token pub ALLOWED_ALGS = Inr (token_header key, payload)"
    using compact_signed [OF s json header_facts(1) d header_facts(2,3) key] by blast
  have "isOk (leeway_seconds ClaimsInvalid leeway_s)" using clock(2) by (auto simp: check_jwt_temporal_def bindR_Inr)
  then obtain n where "leeway_seconds StatusListError leeway_s = Inr n" by (cases leeway_s) (auto simp: leeway_seconds_def split: if_split_asm)
  then have verified: "verify_status_list_token J token pub (Some u) leeway_s now = Inr payload"
    unfolding verify_token_Inr using pub(2) clock header_facts(4) by (auto simp: p(1) payload_fields)
  have "check_token_status z (\<lambda>uri. bindR (verify_status_list_token J token pub (Some uri) leeway_s now) (\<lambda>c. Inr (JObj c))) claims =
       Some (Inr (Some \<lparr>ts_ref = \<lparr>ref_uri = u, ref_index = i\<rparr>, ts_status = v, ts_revoked = (v = 1), ts_suspended = (v = 2)\<rparr>))"
    by (rule token_status_read [where R = R and compress = compress and b = b and d = d and d' = d' and tok = payload])
      (use zlib p(2) list ref in \<open>simp_all add: verified p(1) [symmetric], simp add: p(1) payload_fields\<close>)
  with pub(1) verified show ?thesis by blast
qed

text \<open>A JSON codec of two objects over the toy back end.\<close>

definition pair_jose :: "jobj \<Rightarrow> jobj \<Rightarrow> jose" where
  "pair_jose h p = toy_jose\<lparr>jo_loads := (\<lambda>b. if b = [1] then Inr (JObj h) else if b = [2] then Inr (JObj p) else Inl PyValueError),
     jo_dumps := (\<lambda>v. if v = JObj h then [1] else [2])\<rparr>"

definition demo_request :: token_request where
  "demo_request = \<lparr>tq_uri = JStr (lit ''u''), tq_list = [0, 8], tq_bits = JInt (int 2), tq_issued = Some (Number (JInt 5)), tq_expires = None,
     tq_ttl = JNull, tq_issuer = None\<rparr>"

definition demo_payload :: jobj where
  "demo_payload = token_payload (\<lambda>b. b) (lit ''u'') 5 2 [0, 8] None None None"

lemma demo_date: "is_numeric_date (JInt 5)" by (rule numeric_date_int) simp

lemma demo_claims: "token_claims J (\<lambda>b. b) demo_request = Inr demo_payload"
  by (simp add: token_claims_def demo_request_def demo_payload_def optional_def packed_def MAX_DECOMPRESSED_BYTES_def epoch_arg_def ttl_arg_def
      lit_def demo_date [simplified])

lemma demo_clock: "check_jwt_temporal (NInt 6) demo_payload (JInt 0) True = Inr False"
  by (simp add: check_jwt_temporal_def leeway_seconds_def MAX_LEEWAY_S_def check_numeric_dates_def past_by_def ahead_by_def demo_payload_def
      token_payload_def member_def jget_def has_key_def num_lt_def demo_date del: is_numeric_date.simps)

theorem published_status_read_witness:
  "\<exists>J key token pub. build_status_list_token J (\<lambda>b. b) key demo_request = Inr token \<and>
     verify_status_list_token J token pub (Some (lit ''u'')) (JInt 0) (Some (Number (JInt 6))) = Inr demo_payload \<and>
     check_token_status stored_zlib
       (\<lambda>uri. bindR (verify_status_list_token J token pub (Some uri) (JInt 0) (Some (Number (JInt 6)))) (\<lambda>c. Inr (JObj c)))
       [(lit ''status'', JObj [(lit ''status_list'', JObj [(lit ''idx'', JInt 5), (lit ''uri'', JStr (lit ''u''))])])] =
       Some (Inr (Some \<lparr>ts_ref = \<lparr>ref_uri = lit ''u'', ref_index = 5\<rparr>, ts_status = 2, ts_revoked = False, ts_suspended = True\<rparr>))"
proof -
  obtain key where k: "signing_key_from_jwk toy_crypto toy_jwk (lit ''k'') = Inr key" "sk_alg key = lit ''EdDSA''" "\<And>m. sk_sign key m = Inr m"
    using toy_key by blast
  let ?J = "pair_jose (token_header key) demo_payload"
  have c: "jo_crypto ?J = toy_crypto" by (simp add: pair_jose_def toy_jose_def)
  have f: "json_faithful ?J (JObj (token_header key))" "json_faithful ?J (JObj demo_payload)"
    by (simp_all add: json_faithful_def pair_jose_def token_header_def demo_payload_def token_payload_def)
  obtain token where t: "build_status_list_token ?J (\<lambda>b. b) key demo_request = Inr token"
    using k(2,3) by (auto simp: build_status_list_token_def demo_claims sign_compact_def ALLOWED_ALGS_def assemble_compact_def Let_def)
  have l: "set_status [0, 0] (JInt (int 5)) (JInt (int 2)) (JInt (int 2)) = Inr [0, 8]"
    by (simp add: set_status_def check_index_def locate_status_def Let_def)
  have r: "build_token_status_reference (JStr (lit ''u'')) (JInt (int 5)) =
      Inr [(lit ''status'', JObj [(lit ''status_list'', JObj [(lit ''idx'', JInt 5), (lit ''uri'', JStr (lit ''u''))])])]"
    by (simp add: build_token_status_reference_def check_index_def MAX_values lit_def)
  have q: "tq_uri demo_request = JStr (lit ''u'')" "tq_list demo_request = [0, 8]" "tq_bits demo_request = JInt (int 2)"
    by (simp_all add: demo_request_def)
  have n: "token_instant ?J (Some (Number (JInt 6))) = Inr (NInt 6)" by (simp add: token_instant_def)
  show ?thesis
    using published_status_read [OF stored_zlib_stream _ _ l r q demo_claims t f toy_ok [folded c] k(1) [folded c] n demo_clock] t
    by (auto simp: stored_zlib_def)
qed

text \<open>(C6) A credential is cleared only by its own issuer's list: when the pipeline accepts a credential that declares \<open>credentialStatus\<close>,
  with status required and bound to the issuer and with the default list resolver, every status entry of it was read from a list that the same
  pipeline fetched and verified, whose authenticated signer is the credential's issuer or one of the policy's allow-list; no suspension bit
  was set there, and no revocation bit unless the policy waives revocation.\<close>

theorem status_from_bound_list:
  assumes accepted: "verify_credential V R pol kb credential = Inr r"
    and resolver: "r_status R = Some (resolve_status_list V R' fetch leeway_s expected)"
    and policy: "vp_require_status pol" "vp_bind_status pol"
    and declared: "truthy (jget (lit ''credentialStatus'') (res_credential r))"
  shows "\<exists>iss raws es. res_issuer r = JStr iss \<and> as_entry_list (jget (lit ''credentialStatus'') (res_credential r)) = Inr raws \<and>
     list_all2 describes (filter (\<lambda>raw. matched_types raw \<noteq> []) raws) es \<and>
     (\<forall>e\<in>set es. \<exists>d s bit. verified_list V R' fetch leeway_s (status_list_credential e) d (JStr s) \<and> (s = iss \<or> s \<in> set (vp_allowlist pol)) \<and>
        status_of (v_read V) (\<lambda>_. Inr (JObj d)) e = Inr bit \<and>
        (se_purpose e = PURPOSE_SUSPENSION \<or> se_purpose e = PURPOSE_REVOCATION \<and> vp_not_revoked pol \<longrightarrow> bit = 0))"
proof -
  obtain c' fmt n where "handle V R pol (schema_verifier V R pol n) kb fmt c' = Inr r"
    using dispatch_handled accepted unfolding verify_credential_def by blast
  note checked = handle_status [OF this]
  obtain lists tokens w where l: "status_resolvers pol (res_issuer r) R = Inr (lists, tokens)" "check_w3c_status V pol lists (res_credential r) = Inr w"
    using checked by (auto simp: check_status_def bindR_Inr)
  obtain res st where st: "lists = Some res" "check_credential_status (v_pick V) (v_read V) res (res_credential r) = Inr st" "\<not> sr_suspended st"
    "vp_not_revoked pol \<longrightarrow> \<not> sr_revoked st" using w3c_checked [OF l(2) policy(1) declared] by blast
  obtain iss where i: "res_issuer r = JStr iss" "bind_status_issuer pol (lit ''issuer'') iss (r_status R) = Some res"
    by (rule status_bound [OF l(1) [unfolded st(1)] policy(2)])
  obtain raws es where e: "as_entry_list (jget (lit ''credentialStatus'') (res_credential r)) = Inr raws"
    "list_all2 describes (filter (\<lambda>raw. matched_types raw \<noteq> []) raws) es" "\<forall>e\<in>set es. isOk (status_of (v_read V) res e)"
    "st = tally_status (map (\<lambda>e. \<lparr>ser_entry = e, is_set = (status_of (v_read V) res e \<noteq> Inr 0)\<rparr>) es)"
    by (rule check_status_results [OF st(2)])
  have "\<exists>d s bit. verified_list V R' fetch leeway_s (status_list_credential e) d (JStr s) \<and> (s = iss \<or> s \<in> set (vp_allowlist pol)) \<and>
        status_of (v_read V) (\<lambda>_. Inr (JObj d)) e = Inr bit \<and>
        (se_purpose e = PURPOSE_SUSPENSION \<or> se_purpose e = PURPOSE_REVOCATION \<and> vp_not_revoked pol \<longrightarrow> bit = 0)" if m: "e \<in> set es" for e
  proof -
    obtain bit where b: "status_of (v_read V) res e = Inr bit" using bspec [OF e(3) m] by (cases "status_of (v_read V) res e") simp_all
    then obtain obj where o: "res (status_list_credential e) = Inr obj" unfolding status_of_def bindR_Inr by blast
    note bound = bound_resolver [OF i(2) o, unfolded enforced_issuer resolver]
    then have f: "resolve_status_list V R' fetch leeway_s expected (status_list_credential e) = Inr obj" by simp
    obtain s where s: "list_issuer (lit ''issuer'') obj = JStr s" "s = iss \<or> s \<in> set (vp_allowlist pol)" using bound by blast
    obtain d signer where d: "obj = JObj d" "verified_list V R' fetch leeway_s (status_list_credential e) d signer" "signer = JStr s"
      by (rule resolved_list [OF f]) (use s(1) in auto)
    have "status_of (v_read V) (\<lambda>_. Inr (JObj d)) e = Inr bit" using b o d(1) by (simp add: status_of_def)
    moreover have "se_purpose e = PURPOSE_SUSPENSION \<or> se_purpose e = PURPOSE_REVOCATION \<and> vp_not_revoked pol \<longrightarrow> bit = 0"
      using tally_clear [OF st(3) [unfolded e(4)] st(4) [unfolded e(4)] m] b by auto
    ultimately show ?thesis using d(2) s(2) unfolding d(3) by (intro exI conjI)
  qed
  then show ?thesis using i(1) e(1,2) by blast
qed

text \<open>A token that is its own status list: entry 9 of a list of 16 clear bits, signed by the credential's issuer.\<close>

definition self_listed :: jobj where
  "self_listed = [(lit ''credentialStatus'', JObj demo_entry), (lit ''credentialSubject'', JObj
     [(lit ''statusPurpose'', JStr PURPOSE_REVOCATION), (lit ''encodedList'', JStr (encode_bitstring (\<lambda>b. b) [0, 0]))])]"

definition self_payload :: jobj where
  "self_payload = [(lit ''iss'', JStr (lit ''did:x:1'')), (lit ''vc'', JObj self_listed)]"

definition self_env :: venv where
  "self_env = ex_env\<lparr>v_jose := toy_jose\<lparr>jo_loads := \<lambda>b. if b = [1] then Inr (JObj toy_header) else if b = [2] then Inr (JObj self_payload) else Inl PyValueError\<rparr>,
     v_pyjwt := \<lparr>pj_load = (\<lambda>a k. Inr 0), pj_secp256k1 = (\<lambda>p. Inr 0),
       pj_decode = (\<lambda>t k a l aud e. if t = toy_token then Inr self_payload else Inl OtherJwtError)\<rparr>\<rparr>"

definition self_resolvers :: resolvers where
  "self_resolvers = ex_resolvers\<lparr>r_status := Some (resolve_status_list self_env ex_resolvers (\<lambda>u. Inr toy_token) (JInt 60) None)\<rparr>"

definition bound_policy :: vpolicy where
  "bound_policy = default_policy\<lparr>vp_bind_status := True\<rparr>"

lemma self_env_fields [simp]:
  "v_pick self_env = hd" "v_read self_env = (\<lambda>b n. Inr (take n b))" "v_loads_text self_env = (\<lambda>t. Inl PyValueError)"
  "jo_clock (v_jose self_env) = 1000000000" "jo_ts (v_jose self_env) = (\<lambda>v. None)" "v_ip self_env = (\<lambda>h. False)"
  by (simp_all add: self_env_def ex_env_def toy_jose_def)

lemma self_segments:
  "split_on 46 toy_token = [b64url_encode [1], b64url_encode [2], []]" "is_ascii toy_token"
  "json_of_segment (v_jose self_env) (b64url_encode [1]) = Inr (JObj toy_header)"
  "json_of_segment (v_jose self_env) (b64url_encode [2]) = Inr (JObj self_payload)"
proof -
  have "depth (JObj self_payload) \<le> MAX_DEPTH" by (simp add: self_payload_def self_listed_def demo_entry_def MAX_DEPTH_def)
  then show "json_of_segment (v_jose self_env) (b64url_encode [1]) = Inr (JObj toy_header)"
    "json_of_segment (v_jose self_env) (b64url_encode [2]) = Inr (JObj self_payload)"
    using toy_depth by (simp_all add: json_of_segment_def loads_Inr self_env_def)
qed (rule ex_segments)+

lemma self_peek: "vc_peek_issuer (v_jose self_env) toy_token = Inr (lit ''did:x:1'', None)"
  using self_segments
  by (simp add: vc_peek_issuer_def vc_split_def both_objects_def peeked_issuer_def self_payload_def jget_def kid_of_def toy_header_def Let_def)

lemma self_key:
  assumes "r_did R = ex_di_resolver" "r_anchors R = None"
  shows "resolve_jose_key_with_x5c self_env R PinNone False toy_token (lit ''did:x:1'') None = Inr ex_di_pub"
proof -
  have "\<not> starts_with (lit ''https://'') (lit ''did:x:1'')" by (simp add: lit_def)
  then show ?thesis
    using assms by (simp add: resolve_jose_key_with_x5c_def resolve_jose_key_def ex_di_resolver_def self_document_def Let_def)
qed

lemma self_gate: "vc_gate (v_jose self_env) toy_suite toy_token JNull = Inr (lit ''EdDSA'')"
proof -
  have "\<not> marked (JObj self_payload)"
    by (simp add: self_payload_def self_listed_def demo_entry_def marker_names_def has_key_def)
  then show ?thesis
    using self_segments
    by (simp add: vc_gate_def vc_split_def vc_peek_claims_def check_expected_audience_def as_object_def allowed_alg_def
        reject_unknown_crit_def reject_sd_jwt_typ_def reject_sd_jwt_payload_def carries_sd_jwt_marker_def marker_loop_marked
        check_numeric_dates_def toy_header_def jget_def has_key_def toy_suite_def ALLOWED_ALGS_def)
       (simp add: self_payload_def)
qed

lemma self_vc_verify:
  "vc_verify (v_jose self_env) (v_pyjwt self_env) toy_suite toy_token (JObj ex_di_pub) [] JNull True =
     Inr \<lparr>vc_credential = self_listed, vc_issuer = lit ''did:x:1'', vc_subject = None, vc_claims = self_payload, vc_expired = False\<rparr>"
proof -
  have k: "vc_signature_step (v_jose self_env) (v_pyjwt self_env) toy_suite toy_token (lit ''EdDSA'') (JObj ex_di_pub) JNull True = Inr (self_payload, False)"
    by (simp add: vc_signature_step_def ALLOWED_ALGS_PQ_def verify_classic_def jwk_to_key_def ex_di_pub_def okp_jwk_def jget_def EC_CRV_def
        vc_decode_def self_env_def)
  have l: "vs_leeway toy_suite = 60" by (simp add: toy_suite_def)
  have w: "check_validity_window (\<lambda>v. None) c self_listed [] PinNone (JInt 60) True = Inr False" for c
    by (simp add: check_validity_window_def utc_window_def leeway_seconds_def MAX_LEEWAY_S_def jget_def blank_def Let_def self_listed_def)
  show ?thesis
    using w l by (simp add: vc_verify_def self_gate k vc_finish_def check_jwt_audience_def check_expected_audience_def)
      (simp add: self_payload_def has_key_def as_object_def jget_def reconcile_def subject_id_def check_types_def Let_def self_listed_def)
qed

lemma self_handled:
  assumes "r_did R = ex_di_resolver" "r_anchors R = None" "r_schema R = None" "vp_leeway pol = JInt 60" "vp_types pol = []" "vp_audience pol = JNull"
    "vp_now pol = PinNone" "vp_not_expired pol"
    and "check_status self_env R pol self_listed self_payload (JStr (lit ''did:x:1'')) = Inr x"
  shows "\<exists>r. verify_credential self_env R pol None (JStr toy_token) = Inr r \<and> res_credential r = self_listed \<and> res_issuer r = JStr (lit ''did:x:1'')"
proof -
  have c: "check_schema self_env R pol i self_listed = Inr None" for i
    by (simp add: check_schema_def self_listed_def jget_def)
  have v: "\<exists>r. verify_vc_jwt self_env R pol i toy_token = Inr r \<and> res_credential r = self_listed \<and> res_issuer r = JStr (lit ''did:x:1'')" for i
    using assms by (simp add: verify_vc_jwt_def ex_suite_new self_peek self_key self_vc_verify pipeline_types_def c)
  have "FORMAT_VC_JWT \<noteq> FORMAT_ENVELOPED" by (simp add: format_defs lit_def)
  then show ?thesis using v unfolding verify_credential_def
    by (subst dispatch.simps) (simp add: reject_deep_credential_def ex_format handle_def)
qed

lemma self_entries: "\<exists>e es. parse_status_entries hd self_listed = Inr (e # es)"
proof -
  have "status_index True True (JStr (decimal 9)) = Inr 9" using status_index_decimal [of 9] by (simp add: MAX_values)
  then show ?thesis
    by (simp add: parse_status_entries_def self_listed_def demo_entry_def parse_status_entry_def matched_types_def ENTRY_TYPES_def dict_simps
        PURPOSE_REVOCATION_def)
qed

lemma self_ietf: "check_ietf_status V pol tokens self_payload = Inr None"
  by (simp add: check_ietf_status_def parse_token_status_ref_def self_payload_def jget_def)

lemma self_list:
  "resolve_status_list self_env ex_resolvers (\<lambda>u. Inr toy_token) (JInt 60) None u =
     Inr (JObj (self_listed @ [(lit ''issuer'', JStr (lit ''did:x:1''))]))"
proof -
  obtain e es where e: "parse_status_entries hd self_listed = Inr (e # es)" using self_entries by blast
  have "check_status self_env (list_resolvers ex_resolvers) (list_policy (JInt 60)) self_listed self_payload (JStr (lit ''did:x:1'')) = Inr None"
    by (simp add: check_status_def status_resolvers_def list_policy_def list_resolvers_def default_policy_def check_w3c_status_def e fail_closed_def self_ietf)
  then obtain r where r: "verify_credential self_env (list_resolvers ex_resolvers) (list_policy (JInt 60)) None (JStr toy_token) = Inr r"
    "res_credential r = self_listed" "res_issuer r = JStr (lit ''did:x:1'')"
    using self_handled [of "list_resolvers ex_resolvers" "list_policy (JInt 60)"] by (auto simp: list_resolvers_def list_policy_def default_policy_def)
  have t: "strip toy_token = toy_token" unfolding toy_token_text by (simp add: strip_def lit_def py_space_def)
  have "as_credential self_env toy_token = Inr (JStr toy_token)"
    by (simp add: as_credential_def t loads_def is_value_error_def)
  moreover have "authenticated_list self_listed (JStr (lit ''did:x:1'')) = Inr (self_listed @ [(lit ''issuer'', JStr (lit ''did:x:1''))])"
    by (simp add: authenticated_list_def self_listed_def is_identity_def lit_def)
  ultimately show ?thesis using r by (simp add: resolve_status_list_def require_expected_issuer_def)
qed

lemma self_accepted:
  "\<exists>r. verify_credential self_env self_resolvers bound_policy None (JStr toy_token) = Inr r \<and> res_credential r = self_listed \<and>
     res_issuer r = JStr (lit ''did:x:1'')"
proof -
  let ?res = "\<lambda>u. Inr (JObj (self_listed @ [(lit ''issuer'', JStr (lit ''did:x:1''))]))"
  have b: "bind_status_issuer bound_policy (lit ''issuer'') (lit ''did:x:1'') (r_status self_resolvers) = Some ?res"
    by (simp add: bind_status_issuer_def self_resolvers_def self_list enforce_status_issuer_def self_listed_def jget_def lit_def)
  have d: "decode_bitstring (v_read self_env) (encode_bitstring (\<lambda>b. b) [0, 0]) = Inr [0, 0]" "get_status_bit [0, 0] (JInt (int 9)) = Inr 0"
    using w3c_get_eq [of "[0, 0]" 9]
    by (simp_all add: decode_bitstring_def encode_bitstring_def strip_u_def lit_def gunzip_bounded_def MAX_values w3c_get_def)
  let ?subject = "[(lit ''statusPurpose'', JStr PURPOSE_REVOCATION), (lit ''encodedList'', JStr (encode_bitstring (\<lambda>b. b) [0, 0]))]"
  have l: "jget (lit ''credentialStatus'') self_listed = JObj demo_entry"
    "jget (lit ''credentialSubject'') (self_listed @ [(lit ''issuer'', JStr (lit ''did:x:1''))]) = JObj ?subject"
    "jget (lit ''statusPurpose'') ?subject = JStr PURPOSE_REVOCATION" "jget (lit ''encodedList'') ?subject = JStr (encode_bitstring (\<lambda>b. b) [0, 0])"
    "encode_bitstring (\<lambda>b. b) [0, 0] \<noteq> []" by (simp_all add: self_listed_def jget_def encode_bitstring_def)
  obtain st where st: "check_credential_status hd (v_read self_env) ?res self_listed = Inr st" "\<not> sr_revoked st" "\<not> sr_suspended st"
    using check_one_entry [where resolve = ?res and pick = hd, OF demo_build l(1) refl l(2-5) d] by auto
  obtain e es where e: "parse_status_entries hd self_listed = Inr (e # es)" using self_entries by blast
  have "check_status self_env self_resolvers bound_policy self_listed self_payload (JStr (lit ''did:x:1'')) = Inr (Some (W3cStatus st))"
    using b st by (simp add: check_status_def status_resolvers_def bound_policy_def default_policy_def check_w3c_status_def e self_ietf lit_def)
  then show ?thesis
    using self_handled [of self_resolvers bound_policy] by (simp add: self_resolvers_def bound_policy_def default_policy_def DEFAULT_LEEWAY_S_def)
qed

theorem status_from_bound_list_witness:
  "\<exists>r d s. verify_credential self_env self_resolvers bound_policy None (JStr toy_token) = Inr r \<and> res_issuer r = JStr s \<and>
     verified_list self_env ex_resolvers (\<lambda>u. Inr toy_token) (JInt 60) (lit ''https://s.example/1'') d (JStr s)"
proof -
  obtain r where r: "verify_credential self_env self_resolvers bound_policy None (JStr toy_token) = Inr r" "res_credential r = self_listed"
    "res_issuer r = JStr (lit ''did:x:1'')" using self_accepted by blast
  have a: "r_status self_resolvers = Some (resolve_status_list self_env ex_resolvers (\<lambda>u. Inr toy_token) (JInt 60) None)"
    "vp_require_status bound_policy" "vp_bind_status bound_policy" "vp_allowlist bound_policy = []"
    by (simp_all add: self_resolvers_def bound_policy_def default_policy_def)
  have s: "jget (lit ''credentialStatus'') self_listed = JObj demo_entry" "matched_types demo_entry \<noteq> []"
    "jget (lit ''statusListCredential'') demo_entry = JStr (lit ''https://s.example/1'')"
    by (simp_all add: self_listed_def demo_entry_def jget_def matched_types_def ENTRY_TYPES_def)
  have "truthy (jget (lit ''credentialStatus'') (res_credential r))" unfolding r(2) s(1) by (simp add: demo_entry_def)
  from status_from_bound_list [OF r(1) a(1-3) this] obtain es where es: "list_all2 describes [demo_entry] es"
    "\<forall>e\<in>set es. \<exists>d. verified_list self_env ex_resolvers (\<lambda>u. Inr toy_token) (JInt 60) (status_list_credential e) d (JStr (lit ''did:x:1''))"
    using r s(1,2) a(4) by fastforce
  obtain e where e: "es = [e]" "describes demo_entry e" using es(1) by (auto simp: list_all2_Cons1)
  then have "status_list_credential e = lit ''https://s.example/1''" using s(3) by (simp add: describes_def)
  then show ?thesis using r es(2) e(1) by auto
qed

text \<open>(C33) Revocation end to end: after an issuer sets bit \<open>i\<close> of a list and builds the list's credential for the revocation purpose, a
  credential whose entry was built for index \<open>j\<close> of that list, read through any resolver that returns the list with its
  \<open>credentialSubject\<close>, is reported revoked exactly when \<open>j = i\<close> or its bit was already set, and is never reported suspended.\<close>

theorem revocation_end_to_end:
  assumes gzip: "\<And>b n. read (compress b) n = Inr (take n b)"
    and bits: "set_status_bit d (JInt (int i)) (JInt 1) = Inr d'"
    and built: "build_status_list_credential compress q = Inr vc" "lq_bits q = d'" "lq_purpose q = JStr PURPOSE_REVOCATION" "lq_id q = JStr u"
    and entry: "build_status_list_entry (JStr u) (JInt (int j)) (JStr PURPOSE_REVOCATION) JNull = Inr entry" "j < 8 * length d"
      "jget (lit ''credentialStatus'') cred = JObj entry"
    and published: "resolve u = Inr (JObj served)" "jget (lit ''credentialSubject'') served = jget (lit ''credentialSubject'') vc"
  shows "\<exists>r. check_credential_status pick read resolve cred = Inr r \<and> \<not> sr_suspended r \<and>
           (sr_revoked r \<longleftrightarrow> j = i \<or> get_status_bit d (JInt (int j)) = Inr 1)"
proof -
  obtain s where s: "jget (lit ''credentialSubject'') vc = JObj s" "jget (lit ''statusPurpose'') s = JStr PURPOSE_REVOCATION"
    "jget (lit ''encodedList'') s = JStr (encode_bitstring compress d')" "length d' \<le> MAX_DECOMPRESSED_BYTES"
    by (rule built_list [OF built(1)]) (use built(2,3) in auto)
  have "length d' = length d" using bits w3c.put_cells [of d i 1 d'] by (simp add: w3c_put_def)
  then show ?thesis
    using revocation_read [where read = read and compress = compress and resolve = resolve and pick = pick, OF gzip bits _ entry(1,3,2) published(1)]
      published(2) s by simp
qed

definition demo_list_request :: list_request where
  "demo_list_request = \<lparr>lq_id = JStr (lit ''https://s.example/1''), lq_issuer = JStr (lit ''did:x:1''), lq_bits = [0, 64],
     lq_purpose = JStr PURPOSE_REVOCATION, lq_from = None, lq_until = None, lq_subject = None, lq_ttl = JNull, lq_contexts = JNull\<rparr>"

theorem revocation_end_to_end_witness:
  "\<exists>vc r. build_status_list_credential (\<lambda>b. b) demo_list_request = Inr vc \<and>
     check_credential_status hd (\<lambda>b n. Inr (take n b)) (\<lambda>u. Inr (JObj vc)) demo_credential = Inr r \<and> sr_revoked r"
proof -
  have put: "set_status_bit [0, 0] (JInt (int 9)) (JInt 1) = Inr [0, 64]"
    using w3c_put_eq [of "[0, 0]" 9 1] by (simp add: w3c_put_def)
  have q: "lq_bits demo_list_request = [0, 64]" "lq_purpose demo_list_request = JStr PURPOSE_REVOCATION"
    "lq_id demo_list_request = JStr (lit ''https://s.example/1'')" by (simp_all add: demo_list_request_def)
  obtain vc where vc: "build_status_list_credential (\<lambda>b. b) demo_list_request = Inr vc"
    by (simp add: build_status_list_credential_def demo_list_request_def credential_issuer_def optional_def list_contexts_def packed_def ttl_arg_def
        PURPOSE_REVOCATION_def MAX_DECOMPRESSED_BYTES_def lit_def)
  show ?thesis
    using revocation_end_to_end [where resolve = "\<lambda>u. Inr (JObj vc)" and pick = hd, OF _ put vc q demo_build, of "\<lambda>b n. Inr (take n b)" demo_credential vc] vc
    by (auto simp: demo_credential_def jget_def)
qed

end
