(* ===== verification/Oid4vci.thy ===== *)
theory Oid4vci
  imports Pipeline
begin

text \<open>
  openvc/openid4vci.py: the key proofs of a Credential Request, and the parsers of Credential Offers and issuer metadata. The wallet's
  request is untrusted; what is stateful, the store of nonces, is the caller's and is passed through: \<open>consume\<close> asks it once, for one
  nonce, and gives back its answer and the store after it.
\<close>

section \<open>Constants\<close>

abbreviation bad_request :: exc where "bad_request \<equiv> Oid4 CredentialRequestMalformed"
abbreviation bad_offer :: exc where "bad_offer \<equiv> Oid4 CredentialOfferMalformed"
abbreviation bad_metadata :: exc where "bad_metadata \<equiv> Oid4 IssuerMetadataMalformed"

definition PROOF_TYPE_JWT :: str where "PROOF_TYPE_JWT = lit ''jwt''"

definition PROOF_TYP :: "str list" where "PROOF_TYP = [lit ''openid4vci-proof+jwt'', lit ''application/openid4vci-proof+jwt'']"

definition DEFAULT_PROOF_MAX_AGE_S :: int where "DEFAULT_PROOF_MAX_AGE_S = 300"

definition MAX_PROOF_BYTES :: nat where "MAX_PROOF_BYTES = 16 * 1024"

definition MAX_KEY_ATTESTATION_BYTES :: nat where "MAX_KEY_ATTESTATION_BYTES = 16 * 1024"

definition KEY_PARAMS :: "str list" where "KEY_PARAMS = [lit ''jwk'', lit ''kid'', lit ''x5c'', lit ''trust_chain'']"

definition ALG_KEY_BINDING :: "(str, str \<times> str) dict" where
  "ALG_KEY_BINDING =
     [(lit ''EdDSA'', lit ''OKP'', lit ''Ed25519''), (lit ''Ed25519'', lit ''OKP'', lit ''Ed25519''),
      (lit ''ES256'', lit ''EC'', lit ''P-256''), (lit ''ES384'', lit ''EC'', lit ''P-384'')]"

definition PRIVATE_JWK_MEMBERS :: "str list" where
  "PRIVATE_JWK_MEMBERS = [lit ''d'', lit ''k'', lit ''p'', lit ''q'', lit ''dp'', lit ''dq'', lit ''qi'', lit ''priv'']"

section \<open>The request\<close>

record vci_env =
  vi_jose :: jose
  vi_loads :: "str \<Rightarrow> json result"
  vi_ip :: "str \<Rightarrow> bool"
  vi_x509 :: x509

record credential_request =
  cq_configuration :: "str option"
  cq_identifier :: "str option"
  cq_proof_type :: str
  cq_proofs :: "str list"
  cq_encryption :: "jobj option"
  cq_raw :: jobj

definition as_mapping :: "vci_env \<Rightarrow> json \<Rightarrow> jobj result" where
  "as_mapping E v =
     (case v of
        JObj d \<Rightarrow> Inr d
      | JStr s \<Rightarrow> bindR (catchR is_value_error bad_request (loads (vi_loads E) s)) (as_object bad_request)
      | _ \<Rightarrow> Inl bad_request)"

definition proof_value :: "str \<Rightarrow> json \<Rightarrow> str result" where
  "proof_value proof_type v =
     (case v of
        JStr t \<Rightarrow>
          if t = [] then Inl (if proof_type \<noteq> PROOF_TYPE_JWT then Oid4 UnsupportedProofType else bad_request)
          else if \<not> is_ascii t then Inl bad_request
          else if MAX_PROOF_BYTES < length t then Inl bad_request
          else Inr t
      | _ \<Rightarrow> Inl (if proof_type \<noteq> PROOF_TYPE_JWT then Oid4 UnsupportedProofType else bad_request))"

definition parse_proofs :: "json \<Rightarrow> int \<Rightarrow> (str \<times> str list) result" where
  "parse_proofs proofs limit =
     (case proofs of
        JObj [(proof_type, values)] \<Rightarrow>
          if proof_type = [] then Inl bad_request
          else (case values of
                  JList vs \<Rightarrow>
                    if vs = [] then Inl bad_request
                    else if limit < int (length vs) then Inl bad_request
                    else bindR (mapR (proof_value proof_type) vs) (\<lambda>ts. Inr (proof_type, ts))
                | _ \<Rightarrow> Inl bad_request)
      | _ \<Rightarrow> Inl bad_request)"

definition optional_text :: "json \<Rightarrow> str option result" where
  "optional_text v = (case v of JNull \<Rightarrow> Inr None | JStr s \<Rightarrow> if s = [] then Inl bad_request else Inr (Some s) | _ \<Rightarrow> Inl bad_request)"

definition optional_object :: "exc \<Rightarrow> json \<Rightarrow> jobj option result" where
  "optional_object e v = (case v of JNull \<Rightarrow> Inr None | JObj d \<Rightarrow> Inr (Some d) | _ \<Rightarrow> Inl e)"

definition parse_credential_request :: "vci_env \<Rightarrow> json \<Rightarrow> int option \<Rightarrow> str list option \<Rightarrow> credential_request result" where
  "parse_credential_request E v batch_size supported =
     bindR (as_mapping E v) (\<lambda>body.
       let limit = (case batch_size of None \<Rightarrow> 1 | Some n \<Rightarrow> n);
           config_id = jget (lit ''credential_configuration_id'') body; identifier = jget (lit ''credential_identifier'') body
       in if limit < 1 then Inl bad_request
          else if (config_id = JNull) = (identifier = JNull) then Inl bad_request
          else
       bindR (optional_text config_id) (\<lambda>config.
       bindR (optional_text identifier) (\<lambda>ident.
         if (\<exists>c ids. config = Some c \<and> supported = Some ids \<and> c \<notin> set ids) then Inl bad_request
         else
       bindR (parse_proofs (jget (lit ''proofs'') body) limit) (\<lambda>(proof_type, proofs).
       bindR (optional_object bad_request (jget (lit ''credential_response_encryption'') body)) (\<lambda>encryption.
         Inr \<lparr>cq_configuration = config, cq_identifier = ident, cq_proof_type = proof_type, cq_proofs = proofs,
              cq_encryption = encryption, cq_raw = body\<rparr>)))))"

section \<open>Offers and metadata\<close>

definition require_https_url :: "(str \<Rightarrow> bool) \<Rightarrow> exc \<Rightarrow> json \<Rightarrow> str result" where
  "require_https_url ip_literal e v =
     (case v of
        JStr s \<Rightarrow>
          if s = [] then Inl e
          else if list_ex (\<lambda>c. c < 33 \<or> c = 127) s then Inl e
          else if raw_url_disagreement s then Inl e
          else (case urlparse ip_literal s of
                  None \<Rightarrow> Inl e
                | Some u \<Rightarrow>
                    bindR (catchR is_value_error e (url_port u)) (\<lambda>port.
                      if u_scheme u \<noteq> lit ''https'' \<or> u_netloc u = [] then Inl e
                      else if (case url_hostname u of None \<Rightarrow> True | Some h \<Rightarrow> list_all (\<lambda>c. c = 46) h) then Inl e
                      else if has_userinfo u then Inl e
                      else if parsed_url_disagreement u port then Inl e
                      else Inr s))
      | _ \<Rightarrow> Inl e)"

record credential_offer =
  co_issuer :: str
  co_configurations :: "str list"
  co_grants :: jobj
  co_raw :: jobj

fun distinct_ids :: "str list \<Rightarrow> json list \<Rightarrow> str list result" where
  "distinct_ids seen [] = Inr []"
| "distinct_ids seen (v # vs) =
     (case v of
        JStr c \<Rightarrow> if c = [] then Inl bad_offer else if c \<in> set seen then Inl bad_offer
                  else bindR (distinct_ids (c # seen) vs) (\<lambda>cs. Inr (c # cs))
      | _ \<Rightarrow> Inl bad_offer)"

definition parse_credential_offer :: "vci_env \<Rightarrow> json \<Rightarrow> credential_offer result" where
  "parse_credential_offer E v =
     bindR (catchR (\<lambda>e. e = bad_request) bad_offer (as_mapping E v)) (\<lambda>offer.
     bindR (require_https_url (vi_ip E) bad_offer (jget (lit ''credential_issuer'') offer)) (\<lambda>issuer.
     bindR (case jget (lit ''credential_configuration_ids'') offer of
              JList ids \<Rightarrow> if ids = [] then Inl bad_offer else distinct_ids [] ids
            | _ \<Rightarrow> Inl bad_offer) (\<lambda>ids.
     bindR (optional_object bad_offer (jget (lit ''grants'') offer)) (\<lambda>grants.
       Inr \<lparr>co_issuer = issuer, co_configurations = ids, co_grants = (case grants of None \<Rightarrow> [] | Some g \<Rightarrow> g), co_raw = offer\<rparr>))))"

record issuer_metadata =
  im_issuer :: str
  im_endpoint :: str
  im_servers :: "str list"
  im_nonce :: "str option"
  im_deferred :: "str option"
  im_notification :: "str option"
  im_configurations :: jobj
  im_batch :: "int option"
  im_raw :: jobj

definition optional_url :: "(str \<Rightarrow> bool) \<Rightarrow> json \<Rightarrow> str option result" where
  "optional_url ip_literal v = (if v = JNull then Inr None else bindR (require_https_url ip_literal bad_metadata v) (\<lambda>u. Inr (Some u)))"

definition batch_of :: "json \<Rightarrow> int option result" where
  "batch_of v =
     bindR (optional_object bad_metadata v) (\<lambda>b.
       case b of
         None \<Rightarrow> Inr None
       | Some d \<Rightarrow> (case jget (lit ''batch_size'') d of JInt n \<Rightarrow> if n < 2 then Inl bad_metadata else Inr (Some n) | _ \<Rightarrow> Inl bad_metadata))"

definition parse_credential_issuer_metadata :: "vci_env \<Rightarrow> json \<Rightarrow> issuer_metadata result" where
  "parse_credential_issuer_metadata E v =
     bindR (catchR (\<lambda>e. e = bad_request) bad_metadata (as_mapping E v)) (\<lambda>m.
     bindR (require_https_url (vi_ip E) bad_metadata (jget (lit ''credential_issuer'') m)) (\<lambda>issuer.
     bindR (require_https_url (vi_ip E) bad_metadata (jget (lit ''credential_endpoint'') m)) (\<lambda>endpoint.
     bindR (case jget (lit ''authorization_servers'') m of
              JNull \<Rightarrow> Inr []
            | JList ss \<Rightarrow> if ss = [] then Inl bad_metadata else mapR (require_https_url (vi_ip E) bad_metadata) ss
            | _ \<Rightarrow> Inl bad_metadata) (\<lambda>servers.
     bindR (optional_url (vi_ip E) (jget (lit ''nonce_endpoint'') m)) (\<lambda>nonce.
     bindR (optional_url (vi_ip E) (jget (lit ''deferred_credential_endpoint'') m)) (\<lambda>deferred.
     bindR (optional_url (vi_ip E) (jget (lit ''notification_endpoint'') m)) (\<lambda>notification.
     bindR (optional_object bad_metadata (jget (lit ''credential_configurations_supported'') m)) (\<lambda>configs.
     bindR (batch_of (jget (lit ''batch_credential_issuance'') m)) (\<lambda>batch.
       Inr \<lparr>im_issuer = issuer, im_endpoint = endpoint, im_servers = servers, im_nonce = nonce, im_deferred = deferred,
            im_notification = notification, im_configurations = (case configs of None \<Rightarrow> [] | Some c \<Rightarrow> c), im_batch = batch,
            im_raw = m\<rparr>)))))))))"

section \<open>Key attestations, unverified\<close>

definition peek_proof_header :: "jose \<Rightarrow> str \<Rightarrow> jobj result" where
  "peek_proof_header J proof =
     (if \<not> is_ascii proof then Inl MalformedToken
      else if MAX_PROOF_BYTES < length proof then Inl MalformedToken
      else bindR (parse_compact J proof) (\<lambda>(header, _, _, _). Inr header))"

record key_attestation =
  ka_keys :: "jobj list"
  ka_storage :: "str list"
  ka_authentication :: "str list"
  ka_certification :: "str option"
  ka_nonce :: "str option"
  ka_status :: "jobj option"
  ka_issued :: "int option"
  ka_expires :: "int option"
  ka_header :: jobj
  ka_claims :: jobj

definition attestation_strings :: "json \<Rightarrow> str list result" where
  "attestation_strings v =
     (case v of
        JNull \<Rightarrow> Inr []
      | JList vs \<Rightarrow> if vs = [] \<or> \<not> list_all is_jstr vs then Inl ClaimsInvalid else Inr (jstrs vs)
      | _ \<Rightarrow> Inl ClaimsInvalid)"

definition attestation_string :: "json \<Rightarrow> str option result" where
  "attestation_string v = (case v of JNull \<Rightarrow> Inr None | JStr s \<Rightarrow> Inr (Some s) | _ \<Rightarrow> Inl ClaimsInvalid)"

definition attestation_timestamp :: "json \<Rightarrow> int option result" where
  "attestation_timestamp v =
     (if v = JNull then Inr None
      else if \<not> is_numeric_date v then Inl ClaimsInvalid
      else bindR (py_num v) (\<lambda>x. Inr (Some (num_trunc x))))"

definition attested_keys :: "json \<Rightarrow> jobj list result" where
  "attested_keys v =
     (case v of JList ks \<Rightarrow> if ks = [] then Inl ClaimsInvalid else mapR (as_object ClaimsInvalid) ks | _ \<Rightarrow> Inl ClaimsInvalid)"

definition peek_key_attestation :: "jose \<Rightarrow> str \<Rightarrow> key_attestation result" where
  "peek_key_attestation J attestation =
     (if \<not> is_ascii attestation then Inl MalformedToken
      else if MAX_KEY_ATTESTATION_BYTES < length attestation then Inl MalformedToken
      else
     bindR (parse_compact J attestation) (\<lambda>(header, claims, _, _).
     bindR (attested_keys (jget (lit ''attested_keys'') claims)) (\<lambda>keys.
     bindR (attestation_strings (jget (lit ''key_storage'') claims)) (\<lambda>storage.
     bindR (attestation_strings (jget (lit ''user_authentication'') claims)) (\<lambda>authentication.
     bindR (attestation_string (jget (lit ''certification'') claims)) (\<lambda>certification.
     bindR (attestation_string (jget (lit ''nonce'') claims)) (\<lambda>nonce.
     bindR (optional_object ClaimsInvalid (jget (lit ''status'') claims)) (\<lambda>status.
     bindR (attestation_timestamp (jget (lit ''iat'') claims)) (\<lambda>issued.
     bindR (attestation_timestamp (jget (lit ''exp'') claims)) (\<lambda>expires.
       Inr \<lparr>ka_keys = keys, ka_storage = storage, ka_authentication = authentication, ka_certification = certification,
            ka_nonce = nonce, ka_status = status, ka_issued = issued, ka_expires = expires, ka_header = header, ka_claims = claims\<rparr>))))))))))"

section \<open>The key of a proof\<close>

record proof_key_context =
  kc_kid :: str
  kc_alg :: str
  kc_header :: jobj
  kc_attestation :: "key_attestation option"
  kc_issuer :: str
  kc_index :: nat

text \<open>What the caller of the verifier gives; a \<open>kid\<close> resolver answers with any value or raises.\<close>

record proof_call =
  pc_issuer :: json
  pc_require_nonce :: bool
  pc_client :: "str option"
  pc_resolve :: "(str \<Rightarrow> json result) option"
  pc_resolve_in_context :: "(proof_key_context \<Rightarrow> json result) option"
  pc_anchors :: "nat option list"
  pc_require_attestation :: bool
  pc_max_age :: int
  pc_leeway :: json
  pc_now :: clock_pin
  pc_algs :: "str list"
  pc_batch :: "int option"

definition check_key_binds_to_alg :: "jobj \<Rightarrow> str \<Rightarrow> unit result" where
  "check_key_binds_to_alg jwk alg =
     (case map_of ALG_KEY_BINDING alg of
        Some (kty, crv) \<Rightarrow>
          if jget (lit ''kty'') jwk \<noteq> JStr kty \<or> jget (lit ''crv'') jwk \<noteq> JStr crv then Inl ClaimsInvalid else Inr ()
      | None \<Rightarrow>
          if alg \<in> set MLDSA_ALGS
          then (if jget (lit ''kty'') jwk \<noteq> JStr (lit ''AKP'') \<or> jget (lit ''alg'') jwk \<noteq> JStr alg then Inl ClaimsInvalid else Inr ())
          else Inl UnsupportedAlgorithm)"

definition bound_key :: "str \<Rightarrow> jobj \<Rightarrow> str \<Rightarrow> (jobj \<times> str) result" where
  "bound_key alg jwk source = bindR (check_key_binds_to_alg jwk alg) (\<lambda>_. Inr (jwk, source))"

definition header_jwk :: "json \<Rightarrow> jobj result" where
  "header_jwk v =
     bindR (as_object ClaimsInvalid v) (\<lambda>jwk. if list_ex (\<lambda>m. has_key m jwk) PRIVATE_JWK_MEMBERS then Inl ClaimsInvalid else Inr jwk)"

definition certified_jwk :: "vci_env \<Rightarrow> proof_call \<Rightarrow> json \<Rightarrow> jobj result" where
  "certified_jwk E call x5c =
     (if pc_anchors call = [] then Inl ClaimsInvalid
      else
     bindR (load_x5c_chain (vi_x509 E) x5c) (\<lambda>chain.
     bindR (validate_cert_chain (vi_x509 E) (jo_clock (vi_jose E)) (hd chain) (tl chain) (pc_anchors call) (pc_now call)) (\<lambda>_.
       leaf_public_jwk (vi_x509 E) (hd chain))))"

definition resolved_jwk :: "proof_call \<Rightarrow> str \<Rightarrow> str \<Rightarrow> jobj \<Rightarrow> key_attestation option \<Rightarrow> nat \<Rightarrow> json \<Rightarrow> jobj result" where
  "resolved_jwk call issuer alg header attestation index v =
     bindR (case v of JStr s \<Rightarrow> if s = [] then Inl ClaimsInvalid else Inr s | _ \<Rightarrow> Inl ClaimsInvalid) (\<lambda>kid.
     bindR (case (pc_resolve_in_context call, pc_resolve call) of
              (Some f, _) \<Rightarrow> f \<lparr>kc_kid = kid, kc_alg = alg, kc_header = header, kc_attestation = attestation, kc_issuer = issuer, kc_index = index\<rparr>
            | (None, Some f) \<Rightarrow> f kid
            | (None, None) \<Rightarrow> Inl ClaimsInvalid) (as_object ClaimsInvalid))"

definition proof_key_of :: "vci_env \<Rightarrow> proof_call \<Rightarrow> str \<Rightarrow> str \<Rightarrow> jobj \<Rightarrow> key_attestation option \<Rightarrow> nat \<Rightarrow> (jobj \<times> str) result" where
  "proof_key_of E call issuer alg header attestation index =
     (case filter (\<lambda>n. jget n header \<noteq> JNull) KEY_PARAMS of
        [source] \<Rightarrow>
          let v = jget source header
          in if source = lit ''jwk'' then bindR (header_jwk v) (\<lambda>jwk. bound_key alg jwk source)
             else if source = lit ''x5c'' then bindR (certified_jwk E call v) (\<lambda>jwk. bound_key alg jwk source)
             else if source = lit ''kid'' then bindR (resolved_jwk call issuer alg header attestation index v) (\<lambda>jwk. bound_key alg jwk source)
             else Inl (Oid4 UnsupportedProofType)
      | _ \<Rightarrow> Inl ClaimsInvalid)"

section \<open>One proof\<close>

definition proof_thumbprint :: "vci_env \<Rightarrow> jobj \<Rightarrow> str result" where
  "proof_thumbprint E jwk = catchR (\<lambda>e. e = InvalidKey) ClaimsInvalid (jwk_thumbprint (jo_crypto (vi_jose E)) jwk (lit ''sha-256''))"

fun check_attested_key :: "vci_env \<Rightarrow> str \<Rightarrow> jobj list \<Rightarrow> unit result" where
  "check_attested_key E thumbprint [] = Inl ClaimsInvalid"
| "check_attested_key E thumbprint (key # keys) =
     bindR (proof_thumbprint E key) (\<lambda>t. if t = thumbprint then Inr () else check_attested_key E thumbprint keys)"

definition check_audience :: "json \<Rightarrow> str \<Rightarrow> unit result" where
  "check_audience aud issuer =
     bindR (case aud of JStr s \<Rightarrow> Inr [aud] | JList vs \<Rightarrow> Inr vs | _ \<Rightarrow> Inl ClaimsInvalid) (\<lambda>vs.
       case vs of [v] \<Rightarrow> if v \<noteq> JStr issuer then Inl ClaimsInvalid else Inr () | _ \<Rightarrow> Inl ClaimsInvalid)"

record verified_proof =
  kp_jwk :: jobj
  kp_thumbprint :: str
  kp_alg :: str
  kp_source :: str
  kp_issued_at :: int
  kp_nonce :: "str option"
  kp_client :: "str option"
  kp_attestation :: "str option"
  kp_header :: jobj
  kp_claims :: jobj

text \<open>Structure first: the type pin, the algorithm, critical extensions and the attestation, before any key is used.\<close>

definition proof_structure :: "vci_env \<Rightarrow> proof_call \<Rightarrow> str \<Rightarrow> (jobj \<times> str \<times> str option \<times> key_attestation option) result" where
  "proof_structure E call proof =
     bindR (parse_compact (vi_jose E) proof) (\<lambda>(header, _, _, _).
       if \<not> (\<exists>t\<in>set PROOF_TYP. jget (lit ''typ'') header = JStr t) then Inl ClaimsInvalid
       else
     bindR (allowed_alg header (pc_algs call)) (\<lambda>alg.
     bindR (reject_unknown_crit header) (\<lambda>_.
     bindR (attestation_string (jget (lit ''key_attestation'') header)) (\<lambda>attestation_jwt.
     bindR (case attestation_jwt of None \<Rightarrow> Inr None | Some t \<Rightarrow> bindR (peek_key_attestation (vi_jose E) t) (\<lambda>a. Inr (Some a))) (\<lambda>attestation.
       if pc_require_attestation call \<and> attestation = None then Inl ClaimsInvalid
       else Inr (header, alg, attestation_jwt, attestation))))))"

definition proof_client :: "proof_call \<Rightarrow> jobj \<Rightarrow> str option result" where
  "proof_client call claims =
     bindR (attestation_string (jget (lit ''iss'') claims)) (\<lambda>client_id.
       if (\<exists>c. pc_client call = Some c \<and> client_id \<noteq> Some c) then Inl ClaimsInvalid else Inr client_id)"

definition proof_nonce :: "jobj \<Rightarrow> str option result" where
  "proof_nonce claims =
     (case jget (lit ''nonce'') claims of JNull \<Rightarrow> Inr None | JStr n \<Rightarrow> if n = [] then Inl ClaimsInvalid else Inr (Some n) | _ \<Rightarrow> Inl ClaimsInvalid)"

definition verify_one_proof :: "vci_env \<Rightarrow> proof_call \<Rightarrow> str \<Rightarrow> int \<Rightarrow> nat \<times> str \<Rightarrow> verified_proof result" where
  "verify_one_proof E call issuer current ip =
     (case ip of (index, proof) \<Rightarrow>
     bindR (proof_structure E call proof) (\<lambda>(header, alg, attestation_jwt, attestation).
     bindR (proof_key_of E call issuer alg header attestation index) (\<lambda>(public_jwk, source).
     bindR (proof_thumbprint E public_jwk) (\<lambda>thumbprint.
     bindR (case attestation of None \<Rightarrow> Inr () | Some a \<Rightarrow> check_attested_key E thumbprint (ka_keys a)) (\<lambda>_.
     bindR (verify_compact (vi_jose E) proof public_jwk (pc_algs call)) (\<lambda>(_, claims).
     bindR (check_audience (jget (lit ''aud'') claims) issuer) (\<lambda>_.
     bindR (check_iat_freshness (jget (lit ''iat'') claims) (pc_max_age call) (pc_leeway call) (NInt current)) (\<lambda>issued_at.
     bindR (check_jwt_temporal (NInt current) claims (pc_leeway call) True) (\<lambda>_.
     bindR (proof_client call claims) (\<lambda>client_id.
     bindR (proof_nonce claims) (\<lambda>nonce.
       Inr \<lparr>kp_jwk = public_jwk, kp_thumbprint = thumbprint, kp_alg = alg, kp_source = source, kp_issued_at = issued_at,
            kp_nonce = nonce, kp_client = client_id, kp_attestation = attestation_jwt, kp_header = header, kp_claims = claims\<rparr>)))))))))))"

section \<open>The whole request\<close>

type_synonym 's nonce_store = "str \<Rightarrow> 's \<Rightarrow> bool result \<times> 's"

definition batch_nonce :: "proof_call \<Rightarrow> verified_proof list \<Rightarrow> str option result" where
  "batch_nonce call verified =
     (case remdups (map kp_nonce verified) of
        [nonce] \<Rightarrow>
          if pc_require_nonce call \<and> nonce = None then Inl ClaimsInvalid
          else if \<not> distinct (map kp_thumbprint verified) then Inl ClaimsInvalid
          else Inr nonce
      | _ \<Rightarrow> Inl ClaimsInvalid)"

definition check_batch_invariants :: "proof_call \<Rightarrow> 's nonce_store option \<Rightarrow> verified_proof list \<Rightarrow> 's \<Rightarrow> unit result \<times> 's" where
  "check_batch_invariants call check_nonce verified store =
     (case batch_nonce call verified of
        Inl e \<Rightarrow> (Inl e, store)
      | Inr nonce \<Rightarrow>
          (case (nonce, check_nonce) of
             (Some n, Some consume) \<Rightarrow>
               (case consume n store of
                  (answer, store') \<Rightarrow> (bindR answer (\<lambda>ok. if ok then Inr () else Inl (Oid4 ProofReplayed)), store'))
           | _ \<Rightarrow> (Inr (), store)))"

datatype vci_request = Parsed credential_request | Body json

definition check_call :: "proof_call \<Rightarrow> bool \<Rightarrow> str result" where
  "check_call call has_store =
     bindR (leeway_seconds bad_request (pc_leeway call)) (\<lambda>_.
       case pc_issuer call of
         JStr issuer \<Rightarrow>
           if issuer = [] then Inl bad_request
           else if pc_require_nonce call \<and> \<not> has_store then Inl ClaimsInvalid
           else if pc_max_age call < 0 then Inl bad_request
           else if pc_resolve call \<noteq> None \<and> pc_resolve_in_context call \<noteq> None then Inl bad_request
           else Inr issuer
       | _ \<Rightarrow> Inl bad_request)"

definition verified_proofs :: "vci_env \<Rightarrow> proof_call \<Rightarrow> bool \<Rightarrow> vci_request \<Rightarrow> verified_proof list result" where
  "verified_proofs E call has_store request =
     bindR (check_call call has_store) (\<lambda>issuer.
     bindR (case request of Parsed r \<Rightarrow> Inr r | Body b \<Rightarrow> parse_credential_request E b (pc_batch call) None) (\<lambda>r.
       if cq_proof_type r \<noteq> PROOF_TYPE_JWT then Inl (Oid4 UnsupportedProofType)
       else
     bindR (utc_epoch (jo_time (vi_jose E)) bad_request (pc_now call)) (\<lambda>current.
       mapR (verify_one_proof E call issuer current) (enumerate 0 (cq_proofs r)))))"

definition verify_credential_request_proofs ::
    "vci_env \<Rightarrow> proof_call \<Rightarrow> 's nonce_store option \<Rightarrow> vci_request \<Rightarrow> 's \<Rightarrow> verified_proof list result \<times> 's" where
  "verify_credential_request_proofs E call check_nonce request store =
     (case verified_proofs E call (check_nonce \<noteq> None) request of
        Inl e \<Rightarrow> (Inl e, store)
      | Inr verified \<Rightarrow>
          (case check_batch_invariants call check_nonce verified store of
             (outcome, store') \<Rightarrow> (bindR outcome (\<lambda>_. Inr verified), store')))"

section \<open>Lemmas\<close>

lemma structure_Inr:
  assumes "proof_structure E call proof = Inr (header, alg, jwt, attestation)"
  shows "(\<exists>claims si sg. parse_compact (vi_jose E) proof = Inr (header, claims, si, sg)) \<and> jget (lit ''typ'') header \<in> JStr ` set PROOF_TYP \<and>
     jget (lit ''alg'') header = JStr alg \<and> alg \<in> set (pc_algs call) \<and>
     (case jwt of None \<Rightarrow> jget (lit ''key_attestation'') header = JNull \<and> attestation = None \<and> \<not> pc_require_attestation call
      | Some t \<Rightarrow> jget (lit ''key_attestation'') header = JStr t \<and> (\<exists>a. peek_key_attestation (vi_jose E) t = Inr a \<and> attestation = Some a))"
proof -
  have s: "attestation_string v = Inr x \<longleftrightarrow> v = (case x of None \<Rightarrow> JNull | Some t \<Rightarrow> JStr t)" for v x
    by (cases v; cases x) (auto simp: attestation_string_def)
  show ?thesis using assms
    by (auto simp: proof_structure_def bindR_Inr allowed_alg_Inr s split: if_split_asm option.split_asm)
qed

lemma audience_Inr:
  "check_audience aud issuer = Inr () \<longleftrightarrow> aud = JStr issuer \<or> aud = JList [JStr issuer]"
  by (cases aud) (auto simp: check_audience_def split: list.splits if_split_asm)

lemma attested_Inr:
  "check_attested_key E t keys = Inr () \<Longrightarrow> \<exists>key\<in>set keys. proof_thumbprint E key = Inr t"
  by (induction keys) (auto simp: bindR_Inr split: if_split_asm)

lemma nonce_Inr:
  "proof_nonce claims = Inr x \<longleftrightarrow> jget (lit ''nonce'') claims = (case x of None \<Rightarrow> JNull | Some n \<Rightarrow> JStr n) \<and> x \<noteq> Some []"
  by (cases "jget (lit ''nonce'') claims"; cases x) (auto simp: proof_nonce_def)

text \<open>Where the key of a proof comes from: the one key parameter of its header.\<close>

definition key_from_header :: "vci_env \<Rightarrow> proof_call \<Rightarrow> str \<Rightarrow> str \<Rightarrow> jobj \<Rightarrow> key_attestation option \<Rightarrow> nat \<Rightarrow> jobj \<Rightarrow> str \<Rightarrow> bool" where
  "key_from_header E call issuer alg header attestation index jwk source \<longleftrightarrow>
     (\<forall>n\<in>set KEY_PARAMS. jget n header \<noteq> JNull \<longleftrightarrow> n = source) \<and>
     (source = lit ''jwk'' \<and> jget source header = JObj jwk \<and> (\<forall>m\<in>set PRIVATE_JWK_MEMBERS. \<not> has_key m jwk) \<or>
      source = lit ''x5c'' \<and> certified_jwk E call (jget source header) = Inr jwk \<or>
      source = lit ''kid'' \<and> resolved_jwk call issuer alg header attestation index (jget source header) = Inr jwk) \<and>
     check_key_binds_to_alg jwk alg = Inr ()"

lemma one_filtered:
  assumes "filter P xs = [x]" "distinct xs"
  shows "\<forall>y\<in>set xs. P y \<longleftrightarrow> y = x"
proof -
  have "{y \<in> set xs. P y} = {x}" using assms(1) by (metis set_filter list.simps(15) list.set(1))
  then show ?thesis by blast
qed

lemma key_of_Inr:
  assumes "proof_key_of E call issuer alg header attestation index = Inr (jwk, source)"
  shows "key_from_header E call issuer alg header attestation index jwk source"
proof -
  obtain n where n: "filter (\<lambda>n. jget n header \<noteq> JNull) KEY_PARAMS = [n]"
    using assms by (auto simp: proof_key_of_def split: list.split_asm)
  have "distinct KEY_PARAMS" by (simp add: KEY_PARAMS_def lit_def)
  then have one: "\<forall>m\<in>set KEY_PARAMS. jget m header \<noteq> JNull \<longleftrightarrow> m = n" by (rule one_filtered [OF n])
  have b: "bound_key alg k src = Inr (jwk, source) \<longleftrightarrow> k = jwk \<and> src = source \<and> check_key_binds_to_alg jwk alg = Inr ()" for k src
    by (auto simp: bound_key_def bindR_Inr)
  have h: "header_jwk v = Inr k \<Longrightarrow> v = JObj k \<and> (\<forall>m\<in>set PRIVATE_JWK_MEMBERS. \<not> has_key m k)" for v k
    by (auto simp: header_jwk_def bindR_Inr as_object_Inr list_ex_iff split: if_split_asm)
  have "n = source" using assms n by (auto simp: proof_key_of_def Let_def bindR_Inr b split: if_split_asm)
  moreover have "source = lit ''jwk'' \<and> header_jwk (jget source header) = Inr jwk \<or>
      source = lit ''x5c'' \<and> certified_jwk E call (jget source header) = Inr jwk \<or>
      source = lit ''kid'' \<and> resolved_jwk call issuer alg header attestation index (jget source header) = Inr jwk"
    using assms n by (auto simp: proof_key_of_def Let_def bindR_Inr b split: if_split_asm)
  moreover have "check_key_binds_to_alg jwk alg = Inr ()"
    using assms n by (auto simp: proof_key_of_def Let_def bindR_Inr b split: if_split_asm)
  ultimately show ?thesis using one h unfolding key_from_header_def by blast
qed

text \<open>What one accepted proof proves.\<close>

definition possession_proved :: "vci_env \<Rightarrow> proof_call \<Rightarrow> str \<Rightarrow> int \<Rightarrow> nat \<times> str \<Rightarrow> verified_proof \<Rightarrow> bool" where
  "possession_proved E call issuer current ip p \<longleftrightarrow>
     verify_compact (vi_jose E) (snd ip) (kp_jwk p) (pc_algs call) = Inr (kp_header p, kp_claims p) \<and>
     jget (lit ''typ'') (kp_header p) \<in> JStr ` set PROOF_TYP \<and> jget (lit ''alg'') (kp_header p) = JStr (kp_alg p) \<and>
     (\<exists>attestation.
        key_from_header E call issuer (kp_alg p) (kp_header p) attestation (fst ip) (kp_jwk p) (kp_source p) \<and>
        (case kp_attestation p of
           None \<Rightarrow> attestation = None \<and> \<not> pc_require_attestation call
         | Some t \<Rightarrow> \<exists>a. peek_key_attestation (vi_jose E) t = Inr a \<and> attestation = Some a \<and>
                      (\<exists>key\<in>set (ka_keys a). proof_thumbprint E key = Inr (kp_thumbprint p)))) \<and>
     proof_thumbprint E (kp_jwk p) = Inr (kp_thumbprint p) \<and>
     (jget (lit ''aud'') (kp_claims p) = JStr issuer \<or> jget (lit ''aud'') (kp_claims p) = JList [JStr issuer]) \<and>
     check_iat_freshness (jget (lit ''iat'') (kp_claims p)) (pc_max_age call) (pc_leeway call) (NInt current) = Inr (kp_issued_at p) \<and>
     isOk (check_jwt_temporal (NInt current) (kp_claims p) (pc_leeway call) True) \<and>
     (\<forall>c. pc_client call = Some c \<longrightarrow> jget (lit ''iss'') (kp_claims p) = JStr c) \<and>
     jget (lit ''nonce'') (kp_claims p) = (case kp_nonce p of None \<Rightarrow> JNull | Some n \<Rightarrow> JStr n)"

lemma one_proof_Inr:
  assumes "verify_one_proof E call issuer current ip = Inr p"
  shows "possession_proved E call issuer current ip p"
proof -
  obtain index tok where ip: "ip = (index, tok)" by (cases ip)
  obtain header alg jwt attestation jwk source thumbprint h claims issued late client nonce where
    k: "proof_structure E call tok = Inr (header, alg, jwt, attestation)" "proof_key_of E call issuer alg header attestation index = Inr (jwk, source)"
    "proof_thumbprint E jwk = Inr thumbprint" "attestation \<noteq> None \<longrightarrow> check_attested_key E thumbprint (ka_keys (the attestation)) = Inr ()"
    "verify_compact (vi_jose E) tok jwk (pc_algs call) = Inr (h, claims)" "check_audience (jget (lit ''aud'') claims) issuer = Inr ()"
    "check_iat_freshness (jget (lit ''iat'') claims) (pc_max_age call) (pc_leeway call) (NInt current) = Inr issued"
    "check_jwt_temporal (NInt current) claims (pc_leeway call) True = Inr late" "proof_client call claims = Inr client" "proof_nonce claims = Inr nonce"
    and p: "p = \<lparr>kp_jwk = jwk, kp_thumbprint = thumbprint, kp_alg = alg, kp_source = source, kp_issued_at = issued,
            kp_nonce = nonce, kp_client = client, kp_attestation = jwt, kp_header = header, kp_claims = claims\<rparr>"
    using assms unfolding ip verify_one_proof_def by (auto simp: bindR_Inr split: option.split_asm)
  note s = structure_Inr [OF k(1)]
  have "h = header" using s k(5) by (auto simp: verify_compact_Inr)
  moreover have "pc_client call = Some c \<Longrightarrow> jget (lit ''iss'') claims = JStr c" for c
    using k(9) by (cases "jget (lit ''iss'') claims") (auto simp: proof_client_def attestation_string_def split: if_split_asm)
  moreover have "case jwt of None \<Rightarrow> attestation = None \<and> \<not> pc_require_attestation call
         | Some t \<Rightarrow> \<exists>a. peek_key_attestation (vi_jose E) t = Inr a \<and> attestation = Some a \<and>
                      (\<exists>key\<in>set (ka_keys a). proof_thumbprint E key = Inr thumbprint)"
    using s k(4) attested_Inr by (fastforce split: option.split_asm option.split)
  moreover have f: "kp_jwk p = jwk" "kp_thumbprint p = thumbprint" "kp_alg p = alg" "kp_source p = source" "kp_issued_at p = issued"
    "kp_nonce p = nonce" "kp_attestation p = jwt" "kp_header p = header" "kp_claims p = claims" by (simp_all add: p)
  ultimately show ?thesis
    using s k(3,5,6,7,8,10) key_of_Inr [OF k(2)] unfolding possession_proved_def f ip fst_conv snd_conv audience_Inr nonce_Inr isOk_iff
    by blast
qed

lemma checked_call:
  "check_call call b = Inr issuer \<Longrightarrow> pc_issuer call = JStr issuer \<and> (pc_require_nonce call \<longrightarrow> b)"
  by (auto simp: check_call_def bindR_Inr split: json.split_asm if_split_asm)

lemma parsed_proofs_bounded:
  assumes "parse_credential_request E v batch supported = Inr r"
  shows "int (length (cq_proofs r)) \<le> (case batch of None \<Rightarrow> 1 | Some n \<Rightarrow> n) \<and> cq_proofs r \<noteq> []"
proof -
  have "parse_proofs v n = Inr (t, ts) \<Longrightarrow> int (length ts) \<le> n \<and> ts \<noteq> []" for v n t ts
    by (auto simp: parse_proofs_def bindR_Inr mapR_Inr list_all2_lengthD split: json.split_asm list.split_asm prod.split_asm if_split_asm)
  then show ?thesis using assms by (auto simp: parse_credential_request_def bindR_Inr Let_def split: if_split_asm)
qed

lemma batch_nonce_Inr:
  assumes "batch_nonce call ps = Inr nonce"
  shows "ps \<noteq> [] \<and> (\<forall>p\<in>set ps. kp_nonce p = nonce) \<and> distinct (map kp_thumbprint ps) \<and> (pc_require_nonce call \<longrightarrow> nonce \<noteq> None)"
proof -
  obtain n where n: "remdups (map kp_nonce ps) = [n]" using assms by (auto simp: batch_nonce_def split: list.split_asm)
  then have "kp_nonce ` set ps = {n}" by (metis list.set_map set_remdups empty_set list.simps(15))
  then show ?thesis using assms n by (auto simp: batch_nonce_def split: if_split_asm)
qed

text \<open>The store is asked after every proof has verified, for the one nonce they carry.\<close>

lemma request_outcome:
  assumes "verify_credential_request_proofs E call (Some consume) request s = (out, s')"
  shows "(\<exists>e. out = Inl e \<and> s' = s) \<or>
     (\<exists>ps nonce. verified_proofs E call True request = Inr ps \<and> batch_nonce call ps = Inr nonce \<and>
        (case nonce of
           None \<Rightarrow> out = Inr ps \<and> s' = s
         | Some n \<Rightarrow> s' = snd (consume n s) \<and>
             out = (case fst (consume n s) of Inl e \<Rightarrow> Inl e | Inr ok \<Rightarrow> if ok then Inr ps else Inl (Oid4 ProofReplayed))))"
proof (cases "verified_proofs E call True request")
  case (Inl e)
  then have "(Inl e, s) = (out, s')" using assms by (simp add: verify_credential_request_proofs_def)
  then show ?thesis by blast
next
  case (Inr ps)
  show ?thesis
  proof (cases "batch_nonce call ps")
    case (Inl e)
    then have "(Inl e, s) = (out, s')" using assms Inr by (simp add: verify_credential_request_proofs_def check_batch_invariants_def)
    then show ?thesis by blast
  next
    case n: (Inr nonce)
    have "(case nonce of
           None \<Rightarrow> out = Inr ps \<and> s' = s
         | Some n \<Rightarrow> s' = snd (consume n s) \<and>
             out = (case fst (consume n s) of Inl e \<Rightarrow> Inl e | Inr ok \<Rightarrow> if ok then Inr ps else Inl (Oid4 ProofReplayed)))"
      using assms Inr n by (auto simp: verify_credential_request_proofs_def check_batch_invariants_def split: option.split prod.split_asm sum.split)
    then show ?thesis using Inr n by blast
  qed
qed

lemma request_accepted:
  assumes "verify_credential_request_proofs E call (Some consume) request s = (Inr ps, s')" "pc_require_nonce call"
  obtains n where "verified_proofs E call True request = Inr ps" "batch_nonce call ps = Inr (Some n)" "consume n s = (Inr True, s')"
proof -
  obtain nonce where n: "verified_proofs E call True request = Inr ps" "batch_nonce call ps = Inr nonce"
    "case nonce of None \<Rightarrow> s' = s | Some n \<Rightarrow> s' = snd (consume n s) \<and> fst (consume n s) = Inr True"
    using request_outcome [OF assms(1)] by (fastforce split: option.split_asm sum.split_asm if_split_asm)
  moreover have "nonce \<noteq> None" using batch_nonce_Inr [OF n(2)] assms(2) by blast
  ultimately show thesis using that by (auto simp: prod_eq_iff)
qed

text \<open>The URL rule of offers and metadata is the one of the https issuers.\<close>

lemma https_url_Inr: "require_https_url ip e v = Inr s \<longleftrightarrow> v = JStr s \<and> isOk (parse_https_issuer ip s)"
proof (cases v)
  case (JStr t)
  have n: "u_netloc u = [] \<Longrightarrow> url_hostname u = None" for u
    by (simp add: url_hostname_def raw_host_port_def host_info_def Let_def partition_at_def)
  have z: "\<not> isOk (parse_https_issuer ip [])"
    by (simp add: parse_https_issuer_def raw_url_disagreement_def urlparse_def url_scheme_def Let_def is_ascii_def url_port_def raw_host_port_def
        host_info_def partition_at_def lit_def)
  show ?thesis
  proof (cases "t = []")
    case True
    then show ?thesis using z JStr by (auto simp: require_https_url_def)
  next
    case False
    show ?thesis
    proof (cases "urlparse ip t")
      case None
      then show ?thesis using False JStr by (auto simp: require_https_url_def parse_https_issuer_def)
    next
      case (Some u)
      show ?thesis
        using False JStr Some n [of u]
        by (cases "url_port u")
          (auto simp: require_https_url_def parse_https_issuer_def bindR_Inr catchR_Inr isOk_iff split: if_split_asm option.split_asm)
    qed
  qed
qed (auto simp: require_https_url_def)

lemma https_url_Inl: "require_https_url ip e v = Inl e' \<Longrightarrow> e' = e"
  by (cases v) (auto simp: require_https_url_def url_port_def is_value_error_def Let_def split: if_split_asm option.split_asm)

lemma distinct_ids_Inr:
  "distinct_ids seen vs = Inr ids \<longleftrightarrow> vs = map JStr ids \<and> [] \<notin> set ids \<and> distinct ids \<and> set ids \<inter> set seen = {}"
proof (induction vs arbitrary: seen ids)
  case (Cons v vs)
  then show ?case by (cases v; cases ids) (auto simp: bindR_Inr)
qed auto

lemma distinct_ids_Inl: "distinct_ids seen vs = Inl e \<Longrightarrow> e = bad_offer"
proof (induction vs arbitrary: seen)
  case (Cons v vs)
  then show ?case by (cases v) (auto split: if_split_asm elim!: bindR_Inl [THEN iffD1, elim_format])
qed simp

section \<open>A sequence of requests\<close>

text \<open>What a nonce store documents: a nonce is valid for one call. \<open>spent\<close> are the nonces of a store that no call accepts again.\<close>

definition single_use :: "'s nonce_store \<Rightarrow> ('s \<Rightarrow> str set) \<Rightarrow> bool" where
  "single_use consume spent \<longleftrightarrow>
     (\<forall>n s. (n \<in> spent s \<longrightarrow> fst (consume n s) \<noteq> Inr True) \<and> (fst (consume n s) = Inr True \<longrightarrow> n \<in> spent (snd (consume n s))) \<and>
        spent s \<subseteq> spent (snd (consume n s)))"

fun serve :: "vci_env \<Rightarrow> 's nonce_store \<Rightarrow> (proof_call \<times> vci_request) list \<Rightarrow> 's \<Rightarrow> verified_proof list result list \<times> 's" where
  "serve E consume [] s = ([], s)"
| "serve E consume ((call, request) # rest) s =
     (case verify_credential_request_proofs E call (Some consume) request s of
        (out, s') \<Rightarrow> (case serve E consume rest s' of (outs, s'') \<Rightarrow> (out # outs, s'')))"

definition accepted_nonces :: "verified_proof list result list \<Rightarrow> str list" where
  "accepted_nonces outs =
     concat (map (\<lambda>out. case out of Inr (p # ps) \<Rightarrow> (case kp_nonce p of Some n \<Rightarrow> [n] | None \<Rightarrow> []) | _ \<Rightarrow> []) outs)"

lemma store_kept:
  assumes "single_use consume spent" "verify_credential_request_proofs E call (Some consume) request s = (out, s')"
  shows "spent s \<subseteq> spent s'"
  using request_outcome [OF assms(2)] assms(1) by (auto simp: single_use_def split: option.split_asm)

lemma served:
  assumes store: "single_use consume spent"
  shows "serve E consume reqs s = (outs, s') \<Longrightarrow> \<forall>(call, r)\<in>set reqs. pc_require_nonce call \<Longrightarrow>
     distinct (accepted_nonces outs) \<and> set (accepted_nonces outs) \<inter> spent s = {} \<and> length (accepted_nonces outs) = length (filter isOk outs)"
proof (induction reqs arbitrary: s outs)
  case (Cons req reqs)
  obtain call request where r: "req = (call, request)" by (cases req)
  obtain out s1 where o: "verify_credential_request_proofs E call (Some consume) request s = (out, s1)" by (cases "verify_credential_request_proofs E call (Some consume) request s")
  obtain rest where outs: "serve E consume reqs s1 = (rest, s')" "outs = out # rest"
    using Cons.prems(1) unfolding r by (auto simp: o split: prod.split_asm)
  have IH: "distinct (accepted_nonces rest)" "set (accepted_nonces rest) \<inter> spent s1 = {}" "length (accepted_nonces rest) = length (filter isOk rest)"
    using Cons.IH [OF outs(1)] Cons.prems(2) by auto
  have k: "spent s \<subseteq> spent s1" by (rule store_kept [OF store o])
  show ?case
  proof (cases out)
    case (Inl e)
    then show ?thesis using IH k unfolding outs(2) by (auto simp: accepted_nonces_def)
  next
    case (Inr ps)
    have "pc_require_nonce call" using Cons.prems(2) r by simp
    then obtain n where n: "batch_nonce call ps = Inr (Some n)" "consume n s = (Inr True, s1)"
      by (rule request_accepted [OF o [unfolded Inr]])
    obtain p ps' where p: "ps = p # ps'" "kp_nonce p = Some n" using batch_nonce_Inr [OF n(1)] by (cases ps) auto
    have a: "accepted_nonces outs = n # accepted_nonces rest" using p by (simp add: outs(2) Inr accepted_nonces_def)
    have "n \<in> spent s1" "n \<notin> spent s" using store n(2) by (auto simp: single_use_def dest: spec [of _ n]) (metis fst_conv snd_conv)+
    then show ?thesis using IH k unfolding a by (auto simp: outs(2) Inr)
  qed
qed (auto simp: accepted_nonces_def)

section \<open>Properties\<close>

text \<open>(C7) An accepted Credential Request proves possession of fresh keys to this issuer: every proof in it is a key-proof JWT signed,
  under an allowed algorithm that fits the key, by the key the one key parameter of its header gives; it is audienced at this issuer alone, fresh,
  of the expected client, and its key is among its attestation's keys where it has one. The keys are pairwise distinct, all
  proofs carry the same nonce, and the caller's store accepted that nonce in the one call made to it.\<close>

theorem key_proofs_accept:
  assumes "verify_credential_request_proofs E call (Some consume) request s = (Inr ps, s')" "pc_require_nonce call"
  shows "\<exists>issuer current tokens nonce. pc_issuer call = JStr issuer \<and> utc_epoch (jo_time (vi_jose E)) bad_request (pc_now call) = Inr current \<and>
     (case request of Parsed r \<Rightarrow> tokens = cq_proofs r
      | Body b \<Rightarrow> (\<exists>r. parse_credential_request E b (pc_batch call) None = Inr r \<and> tokens = cq_proofs r) \<and>
          int (length ps) \<le> (case pc_batch call of None \<Rightarrow> 1 | Some n \<Rightarrow> n)) \<and>
     list_all2 (possession_proved E call issuer current) (enumerate 0 tokens) ps \<and> ps \<noteq> [] \<and>
     distinct (map kp_thumbprint ps) \<and> (\<forall>p\<in>set ps. kp_nonce p = Some nonce) \<and> consume nonce s = (Inr True, s')"
proof -
  obtain n where n: "verified_proofs E call True request = Inr ps" "batch_nonce call ps = Inr (Some n)" "consume n s = (Inr True, s')"
    by (rule request_accepted [OF assms])
  obtain issuer r current where k: "check_call call True = Inr issuer"
    "(case request of Parsed r \<Rightarrow> Inr r | Body b \<Rightarrow> parse_credential_request E b (pc_batch call) None) = Inr r"
    "utc_epoch (jo_time (vi_jose E)) bad_request (pc_now call) = Inr current"
    "list_all2 (\<lambda>x y. verify_one_proof E call issuer current x = Inr y) (enumerate 0 (cq_proofs r)) ps"
    using n(1) by (auto simp: verified_proofs_def bindR_Inr mapR_Inr split: if_split_asm)
  have "list_all2 (possession_proved E call issuer current) (enumerate 0 (cq_proofs r)) ps"
    using k(4) by (rule list_all2_mono) (rule one_proof_Inr)
  moreover have "case request of Parsed r' \<Rightarrow> cq_proofs r = cq_proofs r'
      | Body b \<Rightarrow> (\<exists>r'. parse_credential_request E b (pc_batch call) None = Inr r' \<and> cq_proofs r = cq_proofs r') \<and>
          int (length ps) \<le> (case pc_batch call of None \<Rightarrow> 1 | Some n \<Rightarrow> n)"
    using k(2) list_all2_lengthD [OF k(4)] parsed_proofs_bounded by (cases request) fastforce+
  ultimately show ?thesis using batch_nonce_Inr [OF n(2)] checked_call [OF k(1)] k(3) n(3) by blast
qed

text \<open>(C8) A nonce pays for one request: over any sequence of requests served with a store whose nonces are valid once, the accepted
  requests have pairwise distinct nonces, one each, and none that was spent before.\<close>

theorem nonces_used_once:
  assumes "single_use consume spent" "serve E consume reqs s = (outs, s')" "\<forall>(call, r)\<in>set reqs. pc_require_nonce call"
  shows "distinct (accepted_nonces outs) \<and> set (accepted_nonces outs) \<inter> spent s = {} \<and> length (accepted_nonces outs) = length (filter isOk outs)"
  by (rule served [OF assms])

text \<open>A Credential Offer is read exactly: an object is accepted when its issuer is a URL the https issuer rule accepts, taken as it is written,
  its configuration ids are a non-empty list of distinct non-empty strings and its grants are absent or an object; anything
  else is \<open>CredentialOfferMalformed\<close>.\<close>

theorem offer_exact:
  "(parse_credential_offer E (JObj offer) = Inr x \<longleftrightarrow>
     (\<exists>issuer ids grants. jget (lit ''credential_issuer'') offer = JStr issuer \<and> isOk (parse_https_issuer (vi_ip E) issuer) \<and>
        jget (lit ''credential_configuration_ids'') offer = JList (map JStr ids) \<and> ids \<noteq> [] \<and> [] \<notin> set ids \<and> distinct ids \<and>
        (jget (lit ''grants'') offer = JNull \<and> grants = [] \<or> jget (lit ''grants'') offer = JObj grants) \<and>
        x = \<lparr>co_issuer = issuer, co_configurations = ids, co_grants = grants, co_raw = offer\<rparr>)) \<and>
   (isOk (parse_credential_offer E (JObj offer)) \<or> parse_credential_offer E (JObj offer) = Inl bad_offer)"
proof (intro conjI)
  let ?ids = "case jget (lit ''credential_configuration_ids'') offer of JList ids \<Rightarrow> if ids = [] then Inl bad_offer else distinct_ids [] ids | _ \<Rightarrow> Inl bad_offer"
  have i: "?ids = Inr ids \<longleftrightarrow> jget (lit ''credential_configuration_ids'') offer = JList (map JStr ids) \<and> ids \<noteq> [] \<and> [] \<notin> set ids \<and> distinct ids" for ids
    by (cases "jget (lit ''credential_configuration_ids'') offer") (auto simp: distinct_ids_Inr)
  have g: "optional_object bad_offer v = Inr y \<longleftrightarrow> v = JNull \<and> y = None \<or> (\<exists>d. v = JObj d \<and> y = Some d)" for v y
    by (cases v) (auto simp: optional_object_def)
  show "parse_credential_offer E (JObj offer) = Inr x \<longleftrightarrow>
     (\<exists>issuer ids grants. jget (lit ''credential_issuer'') offer = JStr issuer \<and> isOk (parse_https_issuer (vi_ip E) issuer) \<and>
        jget (lit ''credential_configuration_ids'') offer = JList (map JStr ids) \<and> ids \<noteq> [] \<and> [] \<notin> set ids \<and> distinct ids \<and>
        (jget (lit ''grants'') offer = JNull \<and> grants = [] \<or> jget (lit ''grants'') offer = JObj grants) \<and>
        x = \<lparr>co_issuer = issuer, co_configurations = ids, co_grants = grants, co_raw = offer\<rparr>)"
    by (auto simp: parse_credential_offer_def as_mapping_def bindR_Inr https_url_Inr i g)
  have "parse_credential_offer E (JObj offer) = Inl e \<Longrightarrow> e = bad_offer" for e
    by (cases "jget (lit ''credential_configuration_ids'') offer"; cases "jget (lit ''grants'') offer")
      (auto simp: parse_credential_offer_def as_mapping_def bindR_Inl optional_object_def dest: https_url_Inl distinct_ids_Inl split: if_split_asm)
  then show "isOk (parse_credential_offer E (JObj offer)) \<or> parse_credential_offer E (JObj offer) = Inl bad_offer"
    by (cases "parse_credential_offer E (JObj offer)") auto
qed

section \<open>Examples\<close>

text \<open>A wallet's proof with its key in the header, for the issuer \<open>https://i.x\<close> and the nonce \<open>n\<close>; the store is the list of live nonces.\<close>

definition ex_key_header :: jobj where
  "ex_key_header = [(lit ''typ'', JStr (lit ''openid4vci-proof+jwt'')), (lit ''alg'', JStr (lit ''EdDSA'')), (lit ''jwk'', JObj (okp_jwk (replicate 32 7)))]"

definition ex_key_claims :: jobj where
  "ex_key_claims = [(lit ''aud'', JStr (lit ''https://i.x'')), (lit ''iat'', JInt 1000), (lit ''nonce'', JStr (lit ''n''))]"

definition ex_vci_jose :: jose where
  "ex_vci_jose = toy_jose\<lparr>jo_loads := (\<lambda>b. if b = [1] then Inr (JObj ex_key_header) else if b = [2] then Inr (JObj ex_key_claims) else Inl PyValueError),
     jo_dumps := (\<lambda>v. if v = JObj ex_key_header then [1] else [2])\<rparr>"

definition ex_vci :: vci_env where
  "ex_vci = \<lparr>vi_jose = ex_vci_jose, vi_loads = (\<lambda>t. Inl PyValueError), vi_ip = (\<lambda>h. False),
     vi_x509 = \<lparr>x_load = (\<lambda>b. None), x_path = (\<lambda>a b c d. False), x_san = (\<lambda>c. None), x_key = (\<lambda>c. OtherKey), x_eku = (\<lambda>c. None), x_window = (\<lambda>c. (0, 0))\<rparr>\<rparr>"

definition ex_proof_call :: proof_call where
  "ex_proof_call = \<lparr>pc_issuer = JStr (lit ''https://i.x''), pc_require_nonce = True, pc_client = None, pc_resolve = None,
     pc_resolve_in_context = None, pc_anchors = [], pc_require_attestation = False, pc_max_age = DEFAULT_PROOF_MAX_AGE_S, pc_leeway = JInt 60,
     pc_now = PinNone, pc_algs = ALLOWED_ALGS, pc_batch = None\<rparr>"

definition ex_proof_request :: "str \<Rightarrow> vci_request" where
  "ex_proof_request token = Parsed \<lparr>cq_configuration = Some (lit ''c''), cq_identifier = None, cq_proof_type = PROOF_TYPE_JWT, cq_proofs = [token],
     cq_encryption = None, cq_raw = []\<rparr>"

definition live_store :: "str list nonce_store" where
  "live_store n live = (Inr (n \<in> set live), removeAll n live)"

lemma live_single_use: "single_use live_store (\<lambda>live. - set live)"
  by (auto simp: single_use_def live_store_def)

lemma ex_vci_fields [simp]:
  "vi_jose ex_vci = ex_vci_jose" "jo_crypto ex_vci_jose = toy_crypto" "jo_time ex_vci_jose = NInt 1000" "pc_algs ex_proof_call = ALLOWED_ALGS"
  "pc_max_age ex_proof_call = 300" "pc_leeway ex_proof_call = JInt 60" "pc_client ex_proof_call = None" "pc_require_nonce ex_proof_call"
  "pc_issuer ex_proof_call = JStr (lit ''https://i.x'')" "pc_now ex_proof_call = PinNone" "\<not> pc_require_attestation ex_proof_call"
  by (simp_all add: ex_vci_def ex_vci_jose_def toy_jose_def ex_proof_call_def DEFAULT_PROOF_MAX_AGE_S_def)

lemma ex_proof_signed:
  "\<exists>token. verify_compact ex_vci_jose token (okp_jwk (replicate 32 7)) ALLOWED_ALGS = Inr (ex_key_header, ex_key_claims)"
proof -
  obtain key where k: "signing_key_from_jwk toy_crypto toy_jwk (lit ''k'') = Inr key" "sk_alg key = lit ''EdDSA''" "\<And>m. sk_sign key m = Inr m"
    "sk_public_jwk key = Inr (okp_jwk (replicate 32 7))"
    by (simp add: toy_jwk_def ed_private_witness ed25519_key_def ED25519_ALG_NAMES_def) (simp add: toy_crypto_def)
  obtain token where t: "sign_compact ex_vci_jose ex_key_header ex_key_claims key ALLOWED_ALGS = Inr token"
    using k(2,3) by (auto simp: sign_compact_def ALLOWED_ALGS_def assemble_compact_def Let_def)
  have f: "json_faithful ex_vci_jose (JObj ex_key_header)" "json_faithful ex_vci_jose (JObj ex_key_claims)"
    by (simp_all add: json_faithful_def ex_vci_jose_def ex_key_header_def ex_key_claims_def)
  have d: "depth (JObj ex_key_header) \<le> MAX_DEPTH" "depth (JObj ex_key_claims) \<le> MAX_DEPTH"
    by (simp_all add: ex_key_header_def ex_key_claims_def okp_jwk_def MAX_DEPTH_def)
  have h: "jget (lit ''alg'') ex_key_header = JStr (sk_alg key)" "\<not> has_key (lit ''crit'') ex_key_header"
    using k(2) by (simp_all add: ex_key_header_def jget_def has_key_def)
  show ?thesis using compact_signed [OF t f d h] toy_ok k(1,4) by auto
qed

lemma ex_proof_accepted:
  "\<exists>token p. verify_credential_request_proofs ex_vci ex_proof_call (Some live_store) (ex_proof_request token) [lit ''n''] = (Inr [p], []) \<and>
     kp_jwk p = okp_jwk (replicate 32 7) \<and> kp_nonce p = Some (lit ''n'')"
proof -
  obtain token where v: "verify_compact ex_vci_jose token (okp_jwk (replicate 32 7)) ALLOWED_ALGS = Inr (ex_key_header, ex_key_claims)"
    using ex_proof_signed by blast
  obtain si sg where p: "parse_compact ex_vci_jose token = Inr (ex_key_header, ex_key_claims, si, sg)" using v by (auto simp: verify_compact_Inr)
  have s: "proof_structure ex_vci ex_proof_call token = Inr (ex_key_header, lit ''EdDSA'', None, None)"
    using p by (simp add: proof_structure_def allowed_alg_def reject_unknown_crit_def attestation_string_def)
      (simp add: ex_key_header_def jget_def has_key_def PROOF_TYP_def ALLOWED_ALGS_def)
  have k: "proof_key_of ex_vci ex_proof_call i (lit ''EdDSA'') ex_key_header None 0 = Inr (okp_jwk (replicate 32 7), lit ''jwk'')" for i
    by (simp add: proof_key_of_def KEY_PARAMS_def ex_key_header_def jget_def header_jwk_def as_object_def bound_key_def check_key_binds_to_alg_def
        ALG_KEY_BINDING_def PRIVATE_JWK_MEMBERS_def okp_jwk_def has_key_def)
  have "isOk (proof_thumbprint ex_vci (okp_jwk (replicate 32 7)))" by code_simp
  then have t: "\<exists>t. proof_thumbprint ex_vci (okp_jwk (replicate 32 7)) = Inr t" unfolding isOk_iff .
  have d: "is_numeric_date (JInt 1000)" by (rule numeric_date_int) simp
  have "check_iat_freshness (JInt 1000) 300 (JInt 60) (NInt 1000) = Inr 1000"
    using d by (simp add: check_iat_freshness_def leeway_seconds_def MAX_LEEWAY_S_def num_lt_def del: is_numeric_date.simps)
  moreover have "check_jwt_temporal (NInt 1000) ex_key_claims (JInt 60) True = Inr False"
    using d by (simp add: check_jwt_temporal_def leeway_seconds_def MAX_LEEWAY_S_def check_numeric_dates_def past_by_def ahead_by_def ex_key_claims_def
        jget_def has_key_def num_lt_def del: is_numeric_date.simps)
  moreover have "proof_nonce ex_key_claims = Inr (Some (lit ''n''))" "proof_client ex_proof_call ex_key_claims = Inr None"
    "jget (lit ''iat'') ex_key_claims = JInt 1000" "jget (lit ''aud'') ex_key_claims = JStr (lit ''https://i.x'')"
    by (simp_all add: proof_nonce_def proof_client_def attestation_string_def ex_key_claims_def jget_def lit_def)
  ultimately obtain q where q: "verify_one_proof ex_vci ex_proof_call (lit ''https://i.x'') 1000 (0, token) = Inr q"
    "kp_jwk q = okp_jwk (replicate 32 7)" "kp_nonce q = Some (lit ''n'')"
    using s k t v by (auto simp: verify_one_proof_def check_audience_def)
  have c: "check_call ex_proof_call True = Inr (lit ''https://i.x'')"
    by (simp add: check_call_def leeway_seconds_def MAX_LEEWAY_S_def) (simp add: ex_proof_call_def lit_def)
  have "verified_proofs ex_vci ex_proof_call True (ex_proof_request token) = Inr [q]"
    using q(1) c by (simp add: verified_proofs_def ex_proof_request_def)
  then show ?thesis using q(2,3)
    by (intro exI [of _ token] exI [of _ q])
      (simp add: verify_credential_request_proofs_def check_batch_invariants_def batch_nonce_def live_store_def)
qed

theorem key_proofs_accept_witness:
  "\<exists>token p. verify_credential_request_proofs ex_vci ex_proof_call (Some live_store) (ex_proof_request token) [lit ''n''] = (Inr [p], []) \<and>
     possession_proved ex_vci ex_proof_call (lit ''https://i.x'') 1000 (0, token) p"
proof -
  obtain token p where a: "verify_credential_request_proofs ex_vci ex_proof_call (Some live_store) (ex_proof_request token) [lit ''n''] = (Inr [p], [])"
    using ex_proof_accepted by blast
  show ?thesis using key_proofs_accept [OF a] a by (auto simp: ex_proof_request_def)
qed

theorem nonces_used_once_witness:
  "\<exists>token ps e. serve ex_vci live_store [(ex_proof_call, ex_proof_request token), (ex_proof_call, ex_proof_request token)] [lit ''n''] = ([Inr ps, Inl e], []) \<and>
     accepted_nonces [Inr ps, Inl e] = [lit ''n'']"
proof -
  obtain token p where a: "verify_credential_request_proofs ex_vci ex_proof_call (Some live_store) (ex_proof_request token) [lit ''n''] = (Inr [p], [])"
    "kp_nonce p = Some (lit ''n'')" using ex_proof_accepted by blast
  obtain out s where b: "verify_credential_request_proofs ex_vci ex_proof_call (Some live_store) (ex_proof_request token) [] = (out, s)"
    by (cases "verify_credential_request_proofs ex_vci ex_proof_call (Some live_store) (ex_proof_request token) []")
  have r: "serve ex_vci live_store [(ex_proof_call, ex_proof_request token), (ex_proof_call, ex_proof_request token)] [lit ''n''] = ([Inr [p], out], s)"
    by (simp add: a(1) b)
  have "s = []" using request_outcome [OF b] by (auto simp: live_store_def split: option.split_asm)
  moreover have "\<exists>e. out = Inl e"
  proof (cases out)
    case (Inr ps)
    from nonces_used_once [OF live_single_use r] have "set (accepted_nonces [Inr [p], out]) \<subseteq> {lit ''n''}" "distinct (accepted_nonces [Inr [p], out])"
      "length (accepted_nonces [Inr [p], out]) = 2" by (auto simp: Inr)
    then show ?thesis by (metis card_mono distinct_card finite.emptyI finite.insertI is_singletonI is_singleton_altdef numeral_2_eq_2 not_less_eq_eq one_le_numeral Suc_n_not_le_n One_nat_def)
  qed simp
  ultimately obtain e where e: "serve ex_vci live_store [(ex_proof_call, ex_proof_request token), (ex_proof_call, ex_proof_request token)] [lit ''n''] = ([Inr [p], Inl e], [])"
    using r by blast
  then show ?thesis using a(2) by (intro exI [of _ token] exI [of _ "[p]"] exI [of _ e]) (simp add: accepted_nonces_def del: serve.simps)
qed

end
