(* ===== verification/Spec2Isabelle.thy ===== *)
theory Spec2Isabelle
  imports Oid4vp Did_Webvh Type_Metadata Ttl_Cache Ebsi_Trust Jwe Fetch Status_Publish Oid4vci
begin

text \<open>
  A verification of openvc, a Python library that issues and verifies verifiable credentials, and of openvc\_ebsi, its client of
  the EBSI trust registries.

  \<^bold>\<open>The program.\<close> A credential reaches the library as text: a compact JWS (VC-JWT), a \<open>~\<close>-separated SD-JWT presentation, JSON with
  an embedded proof, or CBOR (an mdoc). Verification parses it fail closed, finds the issuer's key by resolving a DID, issuer metadata
  or a certificate chain, checks the signature over the received bytes, applies the time, audience, issuer and type rules, and reads the
  status list the credential points to. On top of it, a presentation (VP-JWT, Data Integrity, mdoc DeviceResponse) is checked against
  the request that asked for it (OpenID4VP), and an EBSI credential against the chain of accreditations of its issuer. Everything that
  comes from the network or from the holder is hostile; the library's promise is that such input gives a typed error, never an
  acceptance and never an untyped exception.

  \<^bold>\<open>The theories.\<close> Each opens with its own account; paths are under \<open>src/src\<close>.

  \<^item> \<open>Prelude\<close>: strings as code points, bytes, Python dictionaries as association lists, the exception type and the result
    type \<open>exc + 'a\<close> with its bind and catch; \<open>Py_Numbers\<close>: Python integers and IEEE doubles, comparison and subtraction.
  \<^item> \<open>Json\<close> (\<open>openvc/_json.py\<close>): JSON values, the depth bound and the duplicate-member hook; \<open>Codec\<close>: base64url, UTF-8, splitting.
  \<^item> \<open>Cbor\<close> (\<open>cbor.py\<close>), \<open>Multibase\<close> (\<open>multibase.py\<close>), \<open>Jcs\<close> (\<open>proof/_jcs.py\<close>), \<open>Ttl_Cache\<close> (\<open>cache.py\<close>).
  \<^item> \<open>Did_Document\<close> (\<open>did/base.py\<close>), \<open>Did_Methods\<close> (\<open>did/did_key.py\<close>, \<open>did_jwk.py\<close>, \<open>did_web.py\<close>), \<open>Did_Webvh\<close>
    (\<open>did/did_webvh.py\<close>: the log and its replay).
  \<^item> \<open>Verify_Common\<close> (\<open>proof/_verify_common.py\<close>): time, audience, purpose and key-resolution rules shared by the suites.
  \<^item> \<open>Keys\<close> (\<open>keys.py\<close>), \<open>Jws\<close> (\<open>proof/_jws.py\<close>), \<open>Vc_Jwt\<close> (\<open>proof/vc_jwt.py\<close>), \<open>Sd_Unpack\<close> and \<open>Sd_Jwt\<close>
    (\<open>proof/sd_jwt.py\<close>), \<open>Vp_Jwt\<close> (\<open>proof/vp_jwt.py\<close>), \<open>Cose\<close> (\<open>cose.py\<close>), \<open>Mdoc\<close> (\<open>mdoc.py\<close>).
  \<^item> \<open>Cred_Schema\<close> (\<open>schema.py\<close>), \<open>Type_Metadata\<close> (\<open>type_metadata.py\<close>), \<open>Issuer_Key\<close> (\<open>jwt_vc_issuer.py\<close>, \<open>x5c.py\<close>),
    \<open>Data_Integrity\<close> (\<open>proof/data_integrity.py\<close>, \<open>di_jcs.py\<close>, \<open>di_ecdsa_rdfc.py\<close>).
  \<^item> \<open>Status_List\<close>, \<open>Status_Check\<close> (\<open>status/\<close>): bitstrings and token status lists, bounded decompression, the status
    index, the pointer builders and the verifier's checks; \<open>Status_Publish\<close> (\<open>status/issue.py\<close>, \<open>resolvers.py\<close>): the builders of
    list credentials and status-list tokens, the token verifier, the default list resolver.
  \<^item> \<open>Pipeline\<close> (\<open>verify.py\<close>): format detection, envelopes, key resolution, the handlers, status and schema policy, batches.
  \<^item> \<open>Dcql\<close> and \<open>Oid4vp\<close> (\<open>openid4vp.py\<close>): the query language and the verification of a response; \<open>Jwe\<close> (\<open>jwe.py\<close>): the
    decryption of an encrypted response.
  \<^item> \<open>Oid4vci\<close> (\<open>openid4vci.py\<close>): Credential Requests and their key proofs, with the caller's store of nonces as a state passed through;
    Credential Offers, issuer metadata and key attestations.
  \<^item> \<open>Fetch\<close> (\<open>fetch.py\<close>): the guarded fetches that every default resolver uses.
  \<^item> \<open>Ebsi_Registry\<close> (\<open>openvc_ebsi/versioning.py\<close>, \<open>_url.py\<close>, \<open>models.py\<close>) and \<open>Ebsi_Trust\<close> (\<open>trust.py\<close>, \<open>verify.py\<close>).

  \<^bold>\<open>Correspondence.\<close> A Python function is a definition of the same name (with the class's short prefix for a method: \<open>vc_\<close>,
  \<open>sd_\<close>, \<open>vp_\<close>); a raise is an \<open>Inl\<close> of the exception class, and \<open>except (A, B) as e: raise C\<close> is \<open>catchR\<close>. Dataclasses are records.
  The standard JSON parser and printer, the crypto library, PyJWT, certificate parsing, RDF canonicalization, the clock and the
  network are fields of environment records: \<open>jose\<close>, \<open>crypto\<close>, \<open>pyjwt\<close>, \<open>x509\<close> and \<open>rdf\<close>, gathered in \<open>venv\<close> for the
  pipeline; \<open>mdoc_env\<close>, \<open>webvh_env\<close>, \<open>oid_env\<close>, \<open>vci_env\<close>, \<open>jwe_env\<close>, \<open>network\<close> and \<open>trust_env\<close> for the parts on top of it. A caller's
  resolvers are the record \<open>resolvers\<close>. What the code relies on in them are named hypotheses (\<open>backend_ok\<close>, \<open>json_faithful\<close>,
  \<open>parser_typed\<close>, \<open>parser_dicts\<close>, \<open>pyjwt_payload\<close>, \<open>zlib_stream\<close>, \<open>token_reader\<close>, \<open>ecdh_ok\<close>, \<open>jwe_backend\<close>), each
  shown to hold of a concrete instance by the witnesses.

  \<^bold>\<open>Interfaces.\<close> Locales state what a client uses of its provider, and each is interpreted on the definitions of the provider's
  theory: \<open>packed_list\<close> (a list of packed statuses: the W3C bitstring and the IETF list of each width), \<open>rounding\<close> (IEEE
  rounding: binary64), \<open>memo_store\<close> (what a memoising wrapper needs of its store: the TTL cache), \<open>bound_resolvers\<close> (resolvers that
  answer for the DID asked: the core methods behind the registry), \<open>unpack_relation\<close> (what one unpacking of disclosures preserves),
  \<open>di_suite\<close> (a Data Integrity suite: the two JCS and the two RDF suites) and \<open>issuer_registry\<close> (the registry versions of EBSI).

  \<^bold>\<open>Termination and bounds.\<close> Recursive readers take the code's own depth limit as their measure: the CBOR decoder
  \<open>CBOR_MAX_DEPTH\<close>, the JSON walk \<open>MAX_DEPTH\<close>, the disclosure unpacking \<open>SD_MAX_DEPTH\<close>, the type-metadata chain and the
  trust chain (\<open>max_depth\<close>), the registry walk (\<open>MAX_ATTRIBUTE_PAGES\<close>, \<open>MAX_ATTRIBUTE_ITEMS\<close>); a counter that reaches zero is
  the code's own error, so no fuel is assumed. Loops over stacks (the nesting walk, the marker search) terminate by the
  size of the values left; the inflate loop by the bytes left below the ceiling, the read loop of a fetch by the bytes it may still
  read. The key-derivation loop of \<open>Jwe\<close> is a partial function, and is shown to return for every hash of 32 bytes.

  \<^bold>\<open>What is shown.\<close>
  \<^item> Safety of acceptance, for each kind of input: what an accepted VC-JWT, SD-JWT, Data Integrity document, COSE message, mdoc,
    VP-JWT and \<open>vp_token\<close> guarantees about signature, key, claims, disclosures, freshness and binding; a presentation is accepted for
    one nonce only; a document resolved belongs to the DID asked for; a webvh document has a chained and signed history; a trust chain
    leads from the issuer to an anchor through accreditations each signed by the party above, and a badge is trusted only on one; a
    Credential Request proves possession of distinct fresh keys, and a nonce pays for one request over any sequence of them.
  \<^item> Status: a list set and signed by its publisher is what the reader reads, and an accepted credential was cleared only by lists
    that the pipeline verified as its issuer's own, where the policy asks for it.
  \<^item> Exactness and refinement: DCQL completeness against the protocol's statement, schema validation, compact verification, JWE
    decryption, key lookup, batches against single verifications, envelopes against their content.
  \<^item> Bounds and termination: the decompression ceiling, the registry walk, the body and the addresses of a guarded fetch, the cache.
  \<^item> Round trips: CBOR, JCS proofs, status tokens, presentations.
  \<^item> Errors: which exceptions may leave a component, with the departures from the documented ones as findings.

  \<^bold>\<open>Not modelled.\<close> JSON-LD processing, context validation and \<open>ecdsa-sd-2023\<close>, which rest on an RDF library; XML trusted
  lists and XAdES, which rest on an XML library; the EBSI transport (connections, node failover, OpenPGP packets); sockets, TLS, PEM
  and X.509 parsing, key generation, logging and tracing; the asynchronous twins of synchronous code; relying-party
  registration and the JSON list of trusted entities.
\<close>

end
